(* ===== verification/Prelude.thy ===== *)
theory Prelude
  imports Main "HOL-Library.Monad_Syntax"
begin

text \<open>
  Shared vocabulary of the development.

  \<^item> Fallible code returns \<open>option\<close>: \<open>None\<close> stands for a Rust panic (a failed \<open>assert!\<close>, an
    \<open>unreachable!\<close>, an index out of bounds) or for an exhausted loop bound.  The do-notation of
    the library's \<open>option\<close> monad threads the state explicitly, as the source threads \<open>&mut\<close>.
  \<^item> \<open>wp x Q\<close> is the weakest precondition of such a computation: it returns, and what it returns
    satisfies \<open>Q\<close>.  It is a statement of total correctness; the collection \<open>wp_intros\<close> carries the
    structural rules.
  \<^item> \<open>loop_upto\<close> is the bounded form of a source loop that carries a state and may break.
\<close>

named_theorems wp_intros \<open>structural rules of the weakest-precondition calculus\<close>

section \<open>Weakest preconditions of option computations\<close>

definition wp :: "'a option \<Rightarrow> ('a \<Rightarrow> bool) \<Rightarrow> bool" where
  "wp x Q \<longleftrightarrow> (case x of None \<Rightarrow> False | Some y \<Rightarrow> Q y)"

lemma wp_None [simp]: "wp None Q = False"
  by (simp add: wp_def)

lemma wp_Some [simp]: "wp (Some y) Q = Q y"
  by (simp add: wp_def)

lemma wp_bind [simp]: "wp (Option.bind x f) Q = wp x (\<lambda>y. wp (f y) Q)"
  by (cases x) simp_all

lemma wp_mono: "wp x P \<Longrightarrow> (\<And>y. P y \<Longrightarrow> Q y) \<Longrightarrow> wp x Q"
  by (cases x) simp_all

lemma wpE: "wp x Q \<Longrightarrow> (\<And>y. x = Some y \<Longrightarrow> Q y \<Longrightarrow> R) \<Longrightarrow> R"
  by (cases x) simp_all

lemma wp_iff: "wp x Q \<longleftrightarrow> (\<exists>y. x = Some y \<and> Q y)"
  by (cases x) simp_all

lemma wp_bindI [wp_intros]: "wp x (\<lambda>y. wp (f y) Q) \<Longrightarrow> wp (Option.bind x f) Q"
  by simp

lemma wp_SomeI [wp_intros]: "Q y \<Longrightarrow> wp (Some y) Q"
  by simp

lemma wp_case_prod [wp_intros]: "wp (f a b) Q \<Longrightarrow> wp (case (a, b) of (x, y) \<Rightarrow> f x y) Q"
  by simp

lemma wp_case_prod_app [wp_intros]:
  "(\<And>x y. wp (f x y q) Q) \<Longrightarrow> wp ((case a of (x, y) \<Rightarrow> f x y) q) Q"
  by (cases a) simp

lemma wp_case_option:
  "(x = None \<Longrightarrow> wp y Q) \<Longrightarrow> (\<And>z. x = Some z \<Longrightarrow> wp (f z) Q) \<Longrightarrow>
   wp (case x of None \<Rightarrow> y | Some z \<Rightarrow> f z) Q"
  by (cases x) simp_all

lemma case_prod_intro [wp_intros]: "R a b \<Longrightarrow> case (a, b) of (x, y) \<Rightarrow> R x y"
  by simp

lemma wp_if [wp_intros]:
  "(b \<Longrightarrow> wp x Q) \<Longrightarrow> (\<not> b \<Longrightarrow> wp y Q) \<Longrightarrow> wp (if b then x else y) Q"
  by simp

section \<open>Bounded loops\<close>

text \<open>
  One iteration maps the loop state to a new loop state and tells whether the loop goes on; a
  \<open>break\<close> or a failed loop condition answers \<open>False\<close>.  The bound is the number of iterations the
  loop may start; running out of it is \<open>None\<close>.
\<close>

fun loop_upto :: "nat \<Rightarrow> ('a \<Rightarrow> ('a \<times> bool) option) \<Rightarrow> 'a \<Rightarrow> 'a option" where
  "loop_upto 0 step a = None"
| "loop_upto (Suc n) step a =
     (case step a of
        None \<Rightarrow> None
      | Some (a', go) \<Rightarrow> if go then loop_upto n step a' else Some a')"

lemma wp_loop_upto:
  fixes r :: "'a \<Rightarrow> nat"
  assumes "I a" and "r a < n"
    and step: "\<And>a. I a \<Longrightarrow> wp (step a) (\<lambda>(a', go). if go then I a' \<and> r a' < r a else Q a')"
  shows "wp (loop_upto n step a) Q"
  using assms(1,2)
proof (induction n arbitrary: a)
  case 0
  then show ?case by simp
next
  case (Suc n)
  from step [OF Suc.prems(1)] obtain a' go where s: "step a = Some (a', go)"
    and q: "if go then I a' \<and> r a' < r a else Q a'"
    by (auto elim!: wpE)
  show ?case
  proof (cases go)
    case True
    with q Suc.prems(2) have "I a'" and "r a' < n" by auto
    then have "wp (loop_upto n step a') Q" by (rule Suc.IH)
    with s True show ?thesis by simp
  next
    case False
    with q s show ?thesis by simp
  qed
qed

section \<open>Lists\<close>

lemma take_Suc_snoc: "n < length xs \<Longrightarrow> take (Suc n) xs = take n xs @ [xs ! n]"
  by (rule take_Suc_conv_app_nth)

lemma list_update_split:
  "i < length xs \<Longrightarrow> xs[i := y] = take i xs @ y # drop (Suc i) xs"
  by (simp add: upd_conv_take_nth_drop)

section \<open>Sequences of operations\<close>

text \<open>
  The answers to a sequence of operations, which end with the first that panics, and the simulation that
  makes two machines answer alike.
\<close>

fun answers :: "('op \<Rightarrow> 'st \<Rightarrow> ('out \<times> 'st) option) \<Rightarrow> 'op list \<Rightarrow> 'st \<Rightarrow> 'out list option" where
  "answers step [] st = Some []"
| "answers step (op # ops) st =
     Option.bind (step op st) (\<lambda>(out, st'). map_option ((#) out) (answers step ops st'))"

lemma answers_simulation:
  assumes "\<And>op st. ok st \<Longrightarrow> spec op (f st) = map_option (map_prod id f) (step op st)"
    and "\<And>op st out st'. ok st \<Longrightarrow> step op st = Some (out, st') \<Longrightarrow> ok st'" and "ok st"
  shows "answers step ops st = answers spec ops (f st)"
  using assms(3)
proof (induction ops arbitrary: st)
  case (Cons op ops)
  show ?case
  proof (cases "step op st")
    case (Some r)
    then obtain out st' where r: "r = (out, st')" by (cases r)
    with Some show ?thesis
      using Cons.IH[OF assms(2)[OF Cons.prems]] assms(1)[OF Cons.prems, of op] by simp
  qed (simp add: assms(1)[OF Cons.prems])
qed simp

end
