(* ===== verification/Choice.thy ===== *)
theory Choice
  imports Prelude "HOL-Library.Word"
begin

text \<open>
  The choice-sequence engine of the property tester (\<open>pbt/src/choice.rs\<close>).  Every \<open>u64\<close> is a
  64-bit word and the generator's additions and multiplications wrap, as in the source.  The
  rejection loop of \<open>draw\<close> runs on fuel; \<^const>\<open>None\<close> is that it has not returned yet.  A choice
  source's own answer \<open>None\<close> (an exhausted replay) is inside that.
\<close>

type_synonym u64 = "64 word"

section \<open>SplitMix64\<close>

record Rng =
  rng_state :: u64

definition rng_new :: "u64 \<Rightarrow> Rng" where
  "rng_new seed = \<lparr>rng_state = seed\<rparr>"

definition mix :: "u64 \<Rightarrow> u64" where
  "mix z0 =
     (let z1 = xor z0 (drop_bit 30 z0) * 0xbf58476d1ce4e5b9;
          z2 = xor z1 (drop_bit 27 z1) * 0x94d049bb133111eb
      in xor z2 (drop_bit 31 z2))"

definition next_u64 :: "Rng \<Rightarrow> u64 \<times> Rng" where
  "next_u64 rng =
     (let s = rng_state rng + 0x9e3779b97f4a7c15
      in (mix s, rng\<lparr>rng_state := s\<rparr>))"

fun draw_loop :: "nat \<Rightarrow> u64 \<Rightarrow> u64 \<Rightarrow> Rng \<Rightarrow> (u64 \<times> Rng) option" where
  "draw_loop 0 limit span rng = None"
| "draw_loop (Suc n) limit span rng =
     (let (val, rng') = next_u64 rng
      in if val < limit then Some (val mod span, rng') else draw_loop n limit span rng')"

definition rng_draw :: "nat \<Rightarrow> Rng \<Rightarrow> u64 \<Rightarrow> (u64 \<times> Rng) option" where
  "rng_draw fuel rng mx =
     (if mx = 0 then Some (0, rng)
      else
        let span = mx + 1
        in if span = 0 then Some (next_u64 rng)
           else draw_loop fuel (- 1 - (- 1 mod span)) span rng)"

section \<open>Choice sequences\<close>

record ChoiceSequence =
  choices :: "u64 list"
  maxima :: "u64 list"

definition seq_len :: "ChoiceSequence \<Rightarrow> nat" where
  "seq_len s = length (choices s)"

record ChoiceRecorder =
  rec_rng :: Rng
  rec_choices :: "u64 list"
  rec_maxima :: "u64 list"

definition recorder_new :: "u64 \<Rightarrow> ChoiceRecorder" where
  "recorder_new seed = \<lparr>rec_rng = rng_new seed, rec_choices = [], rec_maxima = []\<rparr>"

definition into_sequence :: "ChoiceRecorder \<Rightarrow> ChoiceSequence" where
  "into_sequence r = \<lparr>choices = rec_choices r, maxima = rec_maxima r\<rparr>"

definition recorder_draw :: "nat \<Rightarrow> ChoiceRecorder \<Rightarrow> u64 \<Rightarrow> (u64 option \<times> ChoiceRecorder) option" where
  "recorder_draw fuel r mx =
     map_option (\<lambda>(val, rng). (Some val,
         r\<lparr>rec_rng := rng, rec_choices := rec_choices r @ [val], rec_maxima := rec_maxima r @ [mx]\<rparr>))
       (rng_draw fuel (rec_rng r) mx)"

record ChoiceReplayer =
  rep_sequence :: ChoiceSequence
  rep_cursor :: nat

definition replayer_new :: "ChoiceSequence \<Rightarrow> ChoiceReplayer" where
  "replayer_new s = \<lparr>rep_sequence = s, rep_cursor = 0\<rparr>"

definition replayer_draw :: "ChoiceReplayer \<Rightarrow> u64 \<Rightarrow> (u64 option \<times> ChoiceReplayer) option" where
  "replayer_draw r mx =
     (if length (choices (rep_sequence r)) \<le> rep_cursor r then Some (None, r)
      else
        let val = choices (rep_sequence r) ! rep_cursor r
        in Some (Some (min val mx), r\<lparr>rep_cursor := Suc (rep_cursor r)\<rparr>))"

section \<open>Generators\<close>

text \<open>
  A generator asks for choices one after the other, each bound and what it does next depending on
  the answers; on an exhausted source it gives up.
\<close>

datatype 'a gen = Done 'a | Draw u64 "u64 \<Rightarrow> 'a gen"

primrec run_gen ::
    "('s \<Rightarrow> u64 \<Rightarrow> (u64 option \<times> 's) option) \<Rightarrow> 'a gen \<Rightarrow> 's \<Rightarrow> ('a option \<times> (u64 \<times> u64) list \<times> 's) option" where
  "run_gen draw (Done a) s = Some (Some a, [], s)"
| "run_gen draw (Draw mx k) s =
     (case draw s mx of
        None \<Rightarrow> None
      | Some (None, s') \<Rightarrow> Some (None, [], s')
      | Some (Some v, s') \<Rightarrow>
          map_option (\<lambda>(r, log, t). (r, (v, mx) # log, t)) (run_gen draw (k v) s'))"

text \<open>The contract of the trait \<open>ChoiceSource\<close>: a drawn value is in the range that was asked for.\<close>

locale choice_source =
  fixes draw :: "'s \<Rightarrow> u64 \<Rightarrow> (u64 option \<times> 's) option"
  assumes draw_in_range: "draw s mx = Some (Some v, s') \<Longrightarrow> v \<le> mx"
begin

lemma run_gen_in_range: "run_gen draw g s = Some (r, log, t) \<Longrightarrow> list_all (\<lambda>(v, mx). v \<le> mx) log"
proof (induction g arbitrary: s r log t)
  case (Draw mx k)
  then obtain o' s' where d: "draw s mx = Some (o', s')" by (auto split: option.splits)
  show ?case
  proof (cases o')
    case None
    with d Draw.prems show ?thesis by simp
  next
    case (Some v)
    with d Draw.prems obtain log' where "run_gen draw (k v) s' = Some (r, log', t)" "log = (v, mx) # log'"
      by auto
    with Draw.IH [of "k v"] d Some draw_in_range show ?thesis by auto
  qed
qed simp

end

lemma draw_loop_range: "draw_loop fuel limit span rng = Some (v, rng') \<Longrightarrow> span \<noteq> 0 \<Longrightarrow> v < span"
proof (induction fuel arbitrary: rng)
  case (Suc fuel)
  then show ?case by (auto simp: Let_def word_mod_less_divisor word_gt_0 split: prod.splits if_splits)
qed simp

lemma rng_draw_range:
  assumes "rng_draw fuel rng mx = Some (v, rng')"
  shows "v \<le> mx"
proof (cases "mx + 1 = 0")
  case True
  then have "mx = - 1" by (simp add: eq_neg_iff_add_eq_0)
  then show ?thesis by simp
next
  case False
  then have u: "unat (mx + 1) = Suc (unat mx)" by (metis add.commute unatSuc)
  from False assms have "mx = 0 \<and> v = 0 \<or> v < mx + 1"
    by (auto simp: rng_draw_def Let_def split: if_splits dest: draw_loop_range)
  with u show ?thesis by (auto simp: word_less_nat_alt word_le_nat_alt)
qed

interpretation recorder: choice_source "recorder_draw fuel" for fuel
  by unfold_locales (auto simp: recorder_draw_def dest: rng_draw_range)

interpretation replayer: choice_source replayer_draw
  by unfold_locales (auto simp: replayer_draw_def Let_def split: if_splits)

end
