(* ===== verification/Types.thy ===== *)
theory Types
  imports Prelude
begin

text \<open>
  Resolved types (\<open>hir-ty/src/ty.rs\<close>).  Inference variables, definitions and names are the
  indices the source uses for them.
\<close>

type_synonym TyVarId = nat
type_synonym TypeItemIdx = nat
type_synonym Name = nat

datatype Ty =
    TVar TyVarId
  | TInt | TFloat | TString | TChar | TBool | TUnit
  | TAdt TypeItemIdx "Ty list"
  | TRecord "(Name \<times> Ty) list"
  | TFn "Ty list" Ty
  | TError
  | TNever

definition is_poison :: "Ty \<Rightarrow> bool" where
  "is_poison ty \<longleftrightarrow> ty = TError \<or> ty = TNever"

fun is_hashable_collection_key :: "Ty \<Rightarrow> bool" where
  "is_hashable_collection_key (TVar _) = True"
| "is_hashable_collection_key ty \<longleftrightarrow> ty \<in> {TInt, TString, TChar, TBool, TUnit, TError}"

definition is_valid_map_key :: "Ty \<Rightarrow> bool" where
  "is_valid_map_key ty = is_hashable_collection_key ty"

fun is_sortable :: "Ty \<Rightarrow> bool" where
  "is_sortable (TVar _) = True"
| "is_sortable ty \<longleftrightarrow> ty \<in> {TInt, TFloat, TString, TChar, TBool, TError}"

fun is_equality_comparable :: "Ty \<Rightarrow> bool" where
  "is_equality_comparable (TVar _) = True"
| "is_equality_comparable ty \<longleftrightarrow> ty \<in> {TInt, TFloat, TString, TChar, TBool, TError}"

fun is_fully_resolved :: "Ty \<Rightarrow> bool" where
  "is_fully_resolved (TVar _) = False"
| "is_fully_resolved (TAdt _ args) = list_all is_fully_resolved args"
| "is_fully_resolved (TRecord fields) = list_all (\<lambda>(_, t). is_fully_resolved t) fields"
| "is_fully_resolved (TFn params ret) = (list_all is_fully_resolved params \<and> is_fully_resolved ret)"
| "is_fully_resolved _ = True"

definition resolve_builtin :: "string \<Rightarrow> Ty option" where
  "resolve_builtin name =
     map_of [(''Int'', TInt), (''Float'', TFloat), (''String'', TString), (''Char'', TChar),
             (''Bool'', TBool), (''Unit'', TUnit)] name"

section \<open>Variables of a type\<close>

fun tvars :: "Ty \<Rightarrow> nat set" where
  "tvars (TVar v) = {v}"
| "tvars (TAdt _ args) = (\<Union>t\<in>set args. tvars t)"
| "tvars (TRecord fields) = (\<Union>f\<in>set fields. tvars (snd f))"
| "tvars (TFn params ret) = (\<Union>t\<in>set params. tvars t) \<union> tvars ret"
| "tvars _ = {}"

lemma fully_resolved_iff: "is_fully_resolved ty \<longleftrightarrow> tvars ty = {}"
  by (induction ty rule: is_fully_resolved.induct) (auto simp: list_all_iff)

end
