(* ===== verification/Hir.thy ===== *)
theory Hir
  imports Types "HOL-Library.Word"
begin

text \<open>
  The part of the high-level representation the checkers and the interpreter share: paths and
  type references (\<open>hir-def/src/path.rs\<close>, \<open>type_ref.rs\<close>), literals, patterns and match arms
  (\<open>expr.rs\<close>, \<open>pat.rs\<close>), type definitions (\<open>item_tree.rs\<close>) and module scopes with the resolution
  of type and constructor paths (\<open>resolver.rs\<close>).  Names are the interner's keys; the text of a
  name is given by an interner argument where the code asks for it.  An arena is the list of its
  elements, and reading it out of range (a panic) is \<^const>\<open>None\<close>.
\<close>

section \<open>Arenas and lists\<close>

definition arena_get :: "'a list \<Rightarrow> nat \<Rightarrow> 'a option" where
  "arena_get xs i = (if i < length xs then Some (xs ! i) else None)"

fun position :: "('a \<Rightarrow> bool) \<Rightarrow> 'a list \<Rightarrow> nat option" where
  "position P [] = None"
| "position P (x # xs) = (if P x then Some 0 else map_option Suc (position P xs))"

definition last_opt :: "'a list \<Rightarrow> 'a option" where
  "last_opt xs = (if xs = [] then None else Some (last xs))"

lemma arena_get_map: "arena_get (map f xs) a = map_option f (arena_get xs a)"
  by (simp add: arena_get_def)

lemma arena_get_Some [simp]: "arena_get xs i = Some x \<longleftrightarrow> i < length xs \<and> xs ! i = x"
  by (simp add: arena_get_def)

lemma arena_get_None [simp]: "arena_get xs i = None \<longleftrightarrow> length xs \<le> i"
  by (simp add: arena_get_def)

lemma position_Some:
  "position P xs = Some i \<longleftrightarrow> i < length xs \<and> P (xs ! i) \<and> (\<forall>j<i. \<not> P (xs ! j))"
proof (induction xs arbitrary: i)
  case (Cons x xs)
  show ?case
    by (cases i) (auto simp: Cons less_Suc_eq_0_disj)
qed simp

lemma position_None: "position P xs = None \<longleftrightarrow> (\<forall>x\<in>set xs. \<not> P x)"
  by (induction xs) auto

lemma position_length: "position P xs = Some i \<Longrightarrow> i < length xs"
  by (simp add: position_Some)

section \<open>Paths, type references and definitions\<close>

type_synonym Path = "Name list"
type_synonym ExprIdx = nat
type_synonym PatIdx = nat

datatype TypeRef =
    TRPath Path "TypeRef list"
  | TRFn "TypeRef list" TypeRef
  | TRRecord "(Name \<times> TypeRef) list"
  | TRRefined Name TypeRef ExprIdx
  | TRError

record VariantDef =
  v_name :: Name
  v_fields :: "TypeRef list"

datatype TypeDefKind =
    AliasDef TypeRef
  | RecordDef "(Name \<times> TypeRef) list"
  | AdtDef "VariantDef list"

record TypeItem =
  ti_name :: Name
  ti_type_params :: "Name list"
  ti_kind :: TypeDefKind

section \<open>Patterns\<close>

datatype Literal =
    LInt "64 word" | LFloat "64 word" | LString string | LChar "32 word" | LBool bool

datatype Pat =
    PBind Name
  | PWildcard
  | PLiteral Literal
  | PConstructor Path "PatIdx list"
  | PRecord "Path option" "Name list"
  | PMissing

record MatchArm =
  arm_pat :: PatIdx
  arm_body :: ExprIdx

section \<open>Module scopes\<close>

record NamespaceScope =
  ns_functions :: "Name \<rightharpoonup> nat list"
  ns_types :: "Name \<rightharpoonup> TypeItemIdx"
  ns_effects :: "Name \<rightharpoonup> nat"
  ns_traits :: "Name \<rightharpoonup> nat"

text \<open>The maps of a module scope that path resolution reads.\<close>

record ModuleScope =
  ms_types :: "Name \<rightharpoonup> TypeItemIdx"
  ms_type_variants :: "TypeItemIdx \<times> Name \<rightharpoonup> nat"
  ms_constructors :: "Name \<rightharpoonup> TypeItemIdx \<times> nat"
  ms_imports :: "Name \<rightharpoonup> nat"
  ms_namespaces :: "Name \<rightharpoonup> NamespaceScope"
  ms_synthetic_modules :: "Name \<rightharpoonup> (Name \<rightharpoonup> nat)"
  ms_imported_modules :: "Name set"

definition namespace_visible :: "ModuleScope \<Rightarrow> Name \<Rightarrow> bool" where
  "namespace_visible ms name \<longleftrightarrow>
     ms_namespaces ms name \<noteq> None \<and>
     (ms_synthetic_modules ms name = None \<or> name \<in> ms_imported_modules ms \<or>
      ms_imports ms name \<noteq> None)"

definition visible_namespace :: "ModuleScope \<Rightarrow> Name \<Rightarrow> NamespaceScope option" where
  "visible_namespace ms name = (if namespace_visible ms name then ms_namespaces ms name else None)"

fun resolve_type_path :: "ModuleScope \<Rightarrow> Path \<Rightarrow> TypeItemIdx option" where
  "resolve_type_path ms [] = None"
| "resolve_type_path ms [name] = ms_types ms name"
| "resolve_type_path ms (namespace # rest) =
     (case last_opt rest of
        None \<Rightarrow> None
      | Some type_name \<Rightarrow>
          Option.bind (visible_namespace ms namespace) (\<lambda>ns. ns_types ns type_name))"

fun resolve_constructor_path :: "ModuleScope \<Rightarrow> Path \<Rightarrow> (TypeItemIdx \<times> nat) option" where
  "resolve_constructor_path ms [] = None"
| "resolve_constructor_path ms [name] = ms_constructors ms name"
| "resolve_constructor_path ms path =
     (case resolve_type_path ms (butlast path) of
        None \<Rightarrow> None
      | Some type_idx \<Rightarrow>
          map_option (\<lambda>variant_idx. (type_idx, variant_idx))
            (ms_type_variants ms (type_idx, last path)))"

end
