(* ===== verification/Match_Eval.thy ===== *)
theory Match_Eval
  imports Hir
begin

text \<open>
  Pattern matching in the interpreter (\<open>eval/src/interpreter.rs\<close>, \<open>match_pat\<close> and the arm loop of
  \<open>eval_match\<close>).  Collections, sequences and functions are opaque values: matching only asks
  whether a value is a primitive, an algebraic value or a record.  Floating point equality is
  that of IEEE doubles on their bits.
\<close>

datatype Value =
    VInt "64 word" | VFloat "64 word" | VString string | VChar "32 word" | VBool bool | VUnit
  | VAdt TypeItemIdx nat "Value list"
  | VRecord "(Name \<times> Value) list" "TypeItemIdx option"
  | VOpaque nat

definition is_nan :: "64 word \<Rightarrow> bool" where
  "is_nan w \<longleftrightarrow> take_bit 11 (drop_bit 52 w) = mask 11 \<and> take_bit 52 w \<noteq> 0"

definition float_eq :: "64 word \<Rightarrow> 64 word \<Rightarrow> bool" where
  "float_eq a b \<longleftrightarrow> \<not> is_nan a \<and> \<not> is_nan b \<and> (a = b \<or> take_bit 63 a = 0 \<and> take_bit 63 b = 0)"

fun literal_matches :: "Literal \<Rightarrow> Value \<Rightarrow> bool" where
  "literal_matches (LInt a) (VInt b) = (a = b)"
| "literal_matches (LFloat a) (VFloat b) = float_eq a b"
| "literal_matches (LString a) (VString b) = (a = b)"
| "literal_matches (LChar a) (VChar b) = (a = b)"
| "literal_matches (LBool a) (VBool b) = (a = b)"
| "literal_matches _ _ = False"

type_synonym Bindings = "(Name \<times> Value) list"

fun match_record_fields :: "Name list \<Rightarrow> (Name \<times> Value) list \<Rightarrow> Bindings \<Rightarrow> bool \<times> Bindings" where
  "match_record_fields [] val_fields bindings = (True, bindings)"
| "match_record_fields (n # ns) val_fields bindings =
     (case map_of val_fields n of
        Some v \<Rightarrow> match_record_fields ns val_fields (bindings @ [(n, v)])
      | None \<Rightarrow> (False, bindings))"

function match_pat :: "Pat list \<Rightarrow> ModuleScope \<Rightarrow> PatIdx \<Rightarrow> Value \<Rightarrow> Bindings \<Rightarrow> (bool \<times> Bindings) option"
  and match_pats :: "Pat list \<Rightarrow> ModuleScope \<Rightarrow> PatIdx list \<Rightarrow> Value list \<Rightarrow> Bindings \<Rightarrow> (bool \<times> Bindings) option" where
  "match_pat pats scope p value bindings =
     (case arena_get pats p of
        None \<Rightarrow> None
      | Some (PBind name) \<Rightarrow> Some (True, bindings @ [(name, value)])
      | Some PWildcard \<Rightarrow> Some (True, bindings)
      | Some (PLiteral lit) \<Rightarrow> Some (literal_matches lit value, bindings)
      | Some (PConstructor path args) \<Rightarrow>
          (case value of
             VAdt type_idx variant vals \<Rightarrow>
               (case resolve_constructor_path scope path of
                  None \<Rightarrow> Some (False, bindings)
                | Some (expected_type, expected_variant) \<Rightarrow>
                    if type_idx \<noteq> expected_type \<or> variant \<noteq> expected_variant then Some (False, bindings)
                    else if length args \<noteq> length vals then Some (False, bindings)
                    else match_pats pats scope args vals bindings)
           | _ \<Rightarrow> Some (False, bindings))
      | Some (PRecord _ pat_fields) \<Rightarrow>
          (case value of
             VRecord val_fields _ \<Rightarrow> Some (match_record_fields pat_fields val_fields bindings)
           | _ \<Rightarrow> Some (False, bindings))
      | Some PMissing \<Rightarrow> Some (False, bindings))"
| "match_pats pats scope (p # ps) (v # vs) bindings =
     (case match_pat pats scope p v bindings of
        None \<Rightarrow> None
      | Some (ok, bindings') \<Rightarrow>
          if ok then match_pats pats scope ps vs bindings' else Some (False, bindings'))"
| "match_pats pats scope [] vs bindings = Some (True, bindings)"
| "match_pats pats scope ps [] bindings = Some (True, bindings)"
  by pat_completeness auto
termination
  by (relation "measure (case_sum (\<lambda>(_, _, _, v, _). 2 * size v) (\<lambda>(_, _, _, vs, _). 2 * size_list size vs + 1))") auto

declare match_pat.simps [simp del]

datatype RuntimeError =
    DivisionByZero
  | PatternMatchFailure
  | UnresolvedName string
  | HoleEncountered
  | TypeError string
  | NoMainFunction
  | MissingExpr
  | PreconditionFailed string
  | PostconditionFailed string
  | InvariantViolated string
  | CapabilityDenied string string
  | UnsupportedManifestConstraint string string
  | IntegerOverflow
  | RecursionLimitExceeded nat
  | ArityMismatch string nat nat
  | IndexOutOfBounds "64 word" "64 word"
  | KeyNotFound

text \<open>The arm loop of \<open>eval_match\<close>: the arm whose body is evaluated and the bindings it sees.\<close>

fun select_arm ::
    "Pat list \<Rightarrow> ModuleScope \<Rightarrow> Value \<Rightarrow> MatchArm list \<Rightarrow> (RuntimeError + MatchArm \<times> Bindings) option" where
  "select_arm pats scope scrutinee [] = Some (Inl PatternMatchFailure)"
| "select_arm pats scope scrutinee (arm # arms) =
     (case match_pat pats scope (arm_pat arm) scrutinee [] of
        None \<Rightarrow> None
      | Some (ok, bindings) \<Rightarrow>
          if ok then Some (Inr (arm, bindings)) else select_arm pats scope scrutinee arms)"

end
