(* ===== verification/Ordered_Map.thy ===== *)
theory Ordered_Map
  imports Prelude
begin

text \<open>
  What the interpreter's maps promise: the entries stay in insertion order, an insertion under a
  known key replaces the value in place, one under a new key appends, a removal closes the gap.
  The key of an entry that is replaced stays the old one, which matters when the equality of keys
  is coarser than identity.  The contract is the locale \<open>ordered_map\<close>; its operations return
  \<^const>\<open>None\<close> for a panic or an endless loop, so the laws are statements of total correctness.
\<close>

section \<open>Association lists in insertion order\<close>

definition ord_find :: "('k \<Rightarrow> 'k \<Rightarrow> bool) \<Rightarrow> 'k \<Rightarrow> ('k \<times> 'v) list \<Rightarrow> 'v option" where
  "ord_find eqv k xs = map_option snd (find (\<lambda>(k', _). eqv k' k) xs)"

fun ord_update :: "('k \<Rightarrow> 'k \<Rightarrow> bool) \<Rightarrow> 'k \<Rightarrow> 'v \<Rightarrow> ('k \<times> 'v) list \<Rightarrow> ('k \<times> 'v) list" where
  "ord_update eqv k v [] = [(k, v)]"
| "ord_update eqv k v ((k', v') # xs) =
     (if eqv k' k then (k', v) # xs else (k', v') # ord_update eqv k v xs)"

fun ord_delete :: "('k \<Rightarrow> 'k \<Rightarrow> bool) \<Rightarrow> 'k \<Rightarrow> ('k \<times> 'v) list \<Rightarrow> ('k \<times> 'v) list" where
  "ord_delete eqv k [] = []"
| "ord_delete eqv k ((k', v') # xs) = (if eqv k' k then xs else (k', v') # ord_delete eqv k xs)"

definition ord_keys :: "('k \<Rightarrow> 'k \<Rightarrow> bool) \<Rightarrow> ('k \<times> 'v) list \<Rightarrow> bool" where
  "ord_keys eqv xs \<longleftrightarrow> sorted_wrt (\<lambda>x y. \<not> eqv (fst x) (fst y) \<and> \<not> eqv (fst y) (fst x)) xs"

lemma ord_find_simps [simp]:
  "ord_find eqv k [] = None"
  "ord_find eqv k ((k', v) # xs) = (if eqv k' k then Some v else ord_find eqv k xs)"
  by (simp_all add: ord_find_def)

lemma ord_find_None: "ord_find eqv k xs = None \<longleftrightarrow> (\<forall>x\<in>set xs. \<not> eqv (fst x) k)"
  by (induction xs) (auto split: if_splits)

lemma ord_find_append: "ord_find eqv k (xs @ ys) = (case ord_find eqv k xs of None \<Rightarrow> ord_find eqv k ys | Some v \<Rightarrow> Some v)"
  by (induction xs) auto

lemma ord_find_map_of: "ord_find (=) k xs = map_of xs k"
  by (induction xs) auto

lemma ord_update_new: "ord_find eqv k xs = None \<Longrightarrow> ord_update eqv k v xs = xs @ [(k, v)]"
  by (induction xs) (auto split: if_splits)

lemma ord_delete_none: "ord_find eqv k xs = None \<Longrightarrow> ord_delete eqv k xs = xs"
  by (induction xs) (auto split: if_splits)

lemma ord_skip:
  assumes "list_all (\<lambda>x. \<not> eqv (fst x) k) ys"
  shows "ord_find eqv k (ys @ zs) = ord_find eqv k zs"
    and "ord_update eqv k v (ys @ zs) = ys @ ord_update eqv k v zs"
    and "ord_delete eqv k (ys @ zs) = ys @ ord_delete eqv k zs"
  using assms by (induction ys) auto

text \<open>The entry at index \<open>i\<close> is the first one under the key.\<close>

lemma ord_hit:
  assumes "i < length xs" and "eqv (fst (xs ! i)) k" and "\<And>j. j < i \<Longrightarrow> \<not> eqv (fst (xs ! j)) k"
  shows "ord_find eqv k xs = Some (snd (xs ! i))"
    and "ord_update eqv k v xs = xs[i := (fst (xs ! i), v)]"
    and "ord_delete eqv k xs = take i xs @ drop (Suc i) xs"
proof -
  have skip: "list_all (\<lambda>x. \<not> eqv (fst x) k) (take i xs)"
    using assms(1,3) by (auto simp: list_all_length)
  obtain a b where ab: "xs ! i = (a, b)" by (cases "xs ! i")
  have xs: "xs = take i xs @ (a, b) # drop (Suc i) xs" using id_take_nth_drop [OF assms(1)] ab by simp
  have eq: "eqv a k" using assms(2) ab by simp
  show "ord_find eqv k xs = Some (snd (xs ! i))"
    by (subst xs, subst ord_skip(1) [of eqv k "take i xs", OF skip], simp add: eq ab)
  have "ord_update eqv k v xs = take i xs @ (a, v) # drop (Suc i) xs"
    by (subst xs, subst ord_skip(2) [of eqv k "take i xs", OF skip], simp add: eq)
  then show "ord_update eqv k v xs = xs[i := (fst (xs ! i), v)]"
    by (simp add: upd_conv_take_nth_drop assms(1) ab)
  show "ord_delete eqv k xs = take i xs @ drop (Suc i) xs"
    by (subst xs, subst ord_skip(3) [of eqv k "take i xs", OF skip], simp add: eq)
qed

lemma set_ord_update: "set (ord_update eqv k v xs) \<subseteq> insert (k, v) (set xs \<union> (\<lambda>x. (fst x, v)) ` set xs)"
  by (induction xs) (auto split: if_splits)

lemma set_ord_delete: "set (ord_delete eqv k xs) \<subseteq> set xs"
  by (induction xs) (auto split: if_splits)

lemma ord_keys_fst: "ord_keys eqv xs \<longleftrightarrow> sorted_wrt (\<lambda>a b. \<not> eqv a b \<and> \<not> eqv b a) (map fst xs)"
  by (simp add: ord_keys_def sorted_wrt_map)

lemma fst_ord_update: "map fst (ord_update eqv k v xs) = map fst xs @ (if ord_find eqv k xs = None then [k] else [])"
  by (induction xs) (auto split: if_splits)

lemma ord_keys_update:
  assumes "ord_keys eqv xs" and "symp eqv"
  shows "ord_keys eqv (ord_update eqv k v xs)"
  using assms unfolding ord_keys_fst fst_ord_update
  by (auto simp: sorted_wrt_append ord_find_None symp_def)

lemma ord_keys_delete: "ord_keys eqv xs \<Longrightarrow> ord_keys eqv (ord_delete eqv k xs)"
proof (induction xs)
  case (Cons x xs)
  obtain a b where x: "x = (a, b)" by (cases x)
  from Cons set_ord_delete [of eqv k xs] show ?case by (auto simp: x ord_keys_def)
qed simp

lemma ord_find_update:
  assumes "equivp eqv"
  shows "ord_find eqv k' (ord_update eqv k v xs) = (if eqv k k' then Some v else ord_find eqv k' xs)"
proof (induction xs)
  case (Cons x xs)
  obtain a b where x: "x = (a, b)" by (cases x)
  have "eqv a k \<Longrightarrow> eqv a k' \<longleftrightarrow> eqv k k'" and "eqv k k' \<Longrightarrow> eqv a k \<longleftrightarrow> eqv a k'"
    using assms by (metis equivp_symp equivp_transp)+
  then show ?case using Cons by (auto simp: x)
qed simp

lemma ord_find_cong:
  assumes "equivp eqv" and "eqv k k'"
  shows "ord_find eqv k xs = ord_find eqv k' xs"
proof (induction xs)
  case (Cons x xs)
  have "eqv (fst x) k \<longleftrightarrow> eqv (fst x) k'" using assms by (metis equivp_symp equivp_transp)
  with Cons show ?case by (cases x) simp
qed simp

section \<open>Sequences of operations\<close>

datatype ('k, 'v) map_op = Put 'k 'v | Del 'k

fun run_ops ::
    "('k \<Rightarrow> 'v \<Rightarrow> 'm \<Rightarrow> 'm option) \<Rightarrow> ('k \<Rightarrow> 'm \<Rightarrow> 'm option) \<Rightarrow> ('k, 'v) map_op list \<Rightarrow> 'm \<Rightarrow> 'm option" where
  "run_ops ins del [] m = Some m"
| "run_ops ins del (Put k v # ops) m = Option.bind (ins k v m) (run_ops ins del ops)"
| "run_ops ins del (Del k # ops) m = Option.bind (del k m) (run_ops ins del ops)"

fun ord_run :: "('k \<Rightarrow> 'k \<Rightarrow> bool) \<Rightarrow> ('k, 'v) map_op list \<Rightarrow> ('k \<times> 'v) list \<Rightarrow> ('k \<times> 'v) list" where
  "ord_run eqv [] xs = xs"
| "ord_run eqv (Put k v # ops) xs = ord_run eqv ops (ord_update eqv k v xs)"
| "ord_run eqv (Del k # ops) xs = ord_run eqv ops (ord_delete eqv k xs)"

section \<open>The contract\<close>

locale ordered_map =
  fixes inv :: "'m \<Rightarrow> bool" and content :: "'m \<Rightarrow> ('k \<times> 'v) list" and eqv :: "'k \<Rightarrow> 'k \<Rightarrow> bool"
    and get :: "'k \<Rightarrow> 'm \<Rightarrow> 'v option option" and ins :: "'k \<Rightarrow> 'v \<Rightarrow> 'm \<Rightarrow> 'm option"
    and del :: "'k \<Rightarrow> 'm \<Rightarrow> 'm option"
  assumes eqv_equivp: "equivp eqv"
    and content_keys: "inv m \<Longrightarrow> ord_keys eqv (content m)"
    and get_content: "inv m \<Longrightarrow> get k m = Some (ord_find eqv k (content m))"
    and ins_content: "inv m \<Longrightarrow> \<exists>m'. ins k v m = Some m' \<and> inv m' \<and> content m' = ord_update eqv k v (content m)"
    and del_content: "inv m \<Longrightarrow> \<exists>m'. del k m = Some m' \<and> inv m' \<and> content m' = ord_delete eqv k (content m)"
begin

lemma run_refines:
  "inv m \<Longrightarrow> \<exists>m'. run_ops ins del ops m = Some m' \<and> inv m' \<and> content m' = ord_run eqv ops (content m)"
proof (induction ops arbitrary: m)
  case (Cons op ops)
  show ?case
  proof (cases op)
    case (Put k v)
    with ins_content [OF Cons.prems, of k v] Cons.IH show ?thesis by fastforce
  next
    case (Del k)
    with del_content [OF Cons.prems, of k] Cons.IH show ?thesis by fastforce
  qed
qed simp

lemma get_after_ins:
  assumes "inv m"
  shows "Option.bind (ins k v m) (get k') = (if eqv k k' then Some (Some v) else get k' m)"
  using ins_content [OF assms, of k v] get_content [OF assms, of k'] get_content by (auto simp: ord_find_update [OF eqv_equivp])

lemma find_delete:
  assumes "ord_keys eqv xs"
  shows "ord_find eqv k' (ord_delete eqv k xs) = (if eqv k k' then None else ord_find eqv k' xs)"
  using assms
proof (induction xs)
  case (Cons x xs)
  obtain a b where x: "x = (a, b)" by (cases x)
  have keys: "ord_keys eqv xs" and apart: "\<And>y. y \<in> set xs \<Longrightarrow> \<not> eqv (fst y) a"
    using Cons.prems by (auto simp: ord_keys_def x)
  show ?case
  proof (cases "eqv a k")
    case True
    then have "ord_find eqv k' xs = None" if "eqv k k'"
      using that apart eqv_equivp unfolding ord_find_None by (metis equivp_symp equivp_transp)
    moreover have "eqv a k' \<longleftrightarrow> eqv k k'" using True eqv_equivp by (metis equivp_symp equivp_transp)
    ultimately show ?thesis using True by (auto simp: x)
  next
    case False
    moreover have "\<not> eqv a k'" if "eqv k k'" using False that eqv_equivp by (metis equivp_symp equivp_transp)
    ultimately show ?thesis using Cons.IH [OF keys] by (auto simp: x)
  qed
qed simp

lemma get_after_del:
  assumes "inv m"
  shows "Option.bind (del k m) (get k') = (if eqv k k' then Some None else get k' m)"
  using del_content [OF assms, of k] get_content [OF assms, of k'] get_content find_delete [OF content_keys [OF assms]]
  by auto

end

end
