(* ===== verification/Hash_Map.thy ===== *)
theory Hash_Map
  imports Match_Eval Ordered_Map
begin

text \<open>
  The hash tables behind mutable maps and sets with primitive keys (\<open>eval/src/value.rs\<close>,
  \<open>PrimitiveMutableMapValue\<close> and \<open>PrimitiveMutableSetValue\<close>): entries in insertion order with a live
  flag, and a table of slots with open addressing, linear probing and tombstones.  The probing loops
  have no bound of their own, so they are partial functions: an endless probe is \<^const>\<open>None\<close>, as is
  an index out of range.  Lengths and capacities are natural numbers (the saturating multiplication of
  \<open>slot_count_for_min_live\<close> saturates only for tables beyond any memory); the capacity that the
  allocator gave the entry vector is an argument of the operations that read it.  A set is a map
  whose values carry nothing: the two Rust types differ only in the stored value and in what an
  insertion does with a known key.
\<close>

section \<open>Keys\<close>

datatype MapKey = KInt "64 word" | KString string | KChar "32 word" | KBool bool | KUnit

fun from_value :: "Value \<Rightarrow> MapKey option" where
  "from_value (VInt n) = Some (KInt n)"
| "from_value (VString s) = Some (KString s)"
| "from_value (VChar c) = Some (KChar c)"
| "from_value (VBool b) = Some (KBool b)"
| "from_value VUnit = Some KUnit"
| "from_value _ = None"

fun to_value :: "MapKey \<Rightarrow> Value" where
  "to_value (KInt n) = VInt n"
| "to_value (KString s) = VString s"
| "to_value (KChar c) = VChar c"
| "to_value (KBool b) = VBool b"
| "to_value KUnit = VUnit"

fun primitive_hash :: "MapKey \<Rightarrow> 64 word" where
  "primitive_hash (KInt n) = n"
| "primitive_hash (KString s) = fold (\<lambda>c h. h * 31 + of_char c) s 0"
| "primitive_hash (KChar c) = ucast c"
| "primitive_hash (KBool b) = (if b then 1 else 0)"
| "primitive_hash KUnit = 0"

section \<open>Slots\<close>

datatype ProbeSlot = SlotEmpty | SlotTombstone | SlotOccupied nat

text \<open>The smallest power of two that is not below the argument.\<close>

function next_power_of_two :: "nat \<Rightarrow> nat" where
  "next_power_of_two n = (if n \<le> 1 then 1 else 2 * next_power_of_two ((n + 1) div 2))"
  by auto
termination
  by (relation "measure id") auto

declare next_power_of_two.simps [simp del]

definition slot_count_for_min_live :: "nat \<Rightarrow> nat" where
  "slot_count_for_min_live min_live =
     (if min_live = 0 then 0 else next_power_of_two (max ((min_live * 10 + 6) div 7) 8))"

definition probe_index :: "64 word \<Rightarrow> nat \<Rightarrow> nat" where
  "probe_index hash slot_count = unat (and hash (of_nat (slot_count - 1)))"

definition next_slot :: "nat \<Rightarrow> nat \<Rightarrow> nat" where
  "next_slot slot_count idx = and (idx + 1) (slot_count - 1)"

section \<open>The table\<close>

record 'v PrimitiveEntry =
  pe_hash :: "64 word"
  pe_key :: MapKey
  pe_value :: 'v
  pe_live :: bool

record 'v PrimitiveTable =
  pt_entries :: "'v PrimitiveEntry list"
  pt_slots :: "ProbeSlot list"
  pt_live_len :: nat
  pt_tombstones :: nat

definition with_capacity :: "nat \<Rightarrow> 'v PrimitiveTable" where
  "with_capacity capacity_hint =
     \<lparr>pt_entries = [], pt_slots = replicate (slot_count_for_min_live capacity_hint) SlotEmpty,
      pt_live_len = 0, pt_tombstones = 0\<rparr>"

definition entry_matches :: "64 word \<Rightarrow> MapKey \<Rightarrow> 'v PrimitiveEntry \<Rightarrow> bool" where
  "entry_matches hash key e \<longleftrightarrow> pe_live e \<and> pe_hash e = hash \<and> pe_key e = key"

partial_function (option) lookup_loop ::
    "64 word \<Rightarrow> MapKey \<Rightarrow> 'v PrimitiveEntry list \<Rightarrow> ProbeSlot list \<Rightarrow> nat \<Rightarrow> (nat \<times> nat) option option" where
  "lookup_loop hash key entries slots idx =
     (case arena_get slots idx of
        None \<Rightarrow> None
      | Some slot \<Rightarrow>
          (case slot of
             SlotEmpty \<Rightarrow> Some None
           | SlotTombstone \<Rightarrow> lookup_loop hash key entries slots (next_slot (length slots) idx)
           | SlotOccupied entry_idx \<Rightarrow>
               (case arena_get entries entry_idx of
                  None \<Rightarrow> None
                | Some e \<Rightarrow>
                    if entry_matches hash key e then Some (Some (idx, entry_idx))
                    else lookup_loop hash key entries slots (next_slot (length slots) idx))))"

definition table_lookup :: "MapKey \<Rightarrow> 'v PrimitiveTable \<Rightarrow> (nat \<times> nat) option option" where
  "table_lookup key m =
     (if pt_slots m = [] then Some None
      else lookup_loop (primitive_hash key) key (pt_entries m) (pt_slots m)
             (probe_index (primitive_hash key) (length (pt_slots m))))"

partial_function (option) insert_slot_loop ::
    "64 word \<Rightarrow> MapKey \<Rightarrow> 'v PrimitiveEntry list \<Rightarrow> ProbeSlot list \<Rightarrow> nat option \<Rightarrow> nat \<Rightarrow> nat option" where
  "insert_slot_loop hash key entries slots first_tombstone idx =
     (case arena_get slots idx of
        None \<Rightarrow> None
      | Some slot \<Rightarrow>
          (case slot of
             SlotEmpty \<Rightarrow> Some (case first_tombstone of Some t \<Rightarrow> t | None \<Rightarrow> idx)
           | SlotTombstone \<Rightarrow>
               insert_slot_loop hash key entries slots
                 (case first_tombstone of Some t \<Rightarrow> Some t | None \<Rightarrow> Some idx) (next_slot (length slots) idx)
           | SlotOccupied entry_idx \<Rightarrow>
               (case arena_get entries entry_idx of
                  None \<Rightarrow> None
                | Some e \<Rightarrow>
                    if entry_matches hash key e then Some idx
                    else insert_slot_loop hash key entries slots first_tombstone (next_slot (length slots) idx))))"

definition find_slot_index_for_insert :: "MapKey \<Rightarrow> 'v PrimitiveTable \<Rightarrow> nat option" where
  "find_slot_index_for_insert key m =
     insert_slot_loop (primitive_hash key) key (pt_entries m) (pt_slots m) None
       (probe_index (primitive_hash key) (length (pt_slots m)))"

section \<open>Rehashing\<close>

partial_function (option) place_loop :: "nat \<Rightarrow> ProbeSlot list \<Rightarrow> nat \<Rightarrow> ProbeSlot list option" where
  "place_loop entry_idx slots idx =
     (case arena_get slots idx of
        None \<Rightarrow> None
      | Some slot \<Rightarrow>
          if slot = SlotEmpty then Some (slots[idx := SlotOccupied entry_idx])
          else place_loop entry_idx slots (next_slot (length slots) idx))"

fun place_all :: "nat \<Rightarrow> 'v PrimitiveEntry list \<Rightarrow> ProbeSlot list \<Rightarrow> ProbeSlot list option" where
  "place_all entry_idx [] slots = Some slots"
| "place_all entry_idx (e # es) slots =
     Option.bind (place_loop entry_idx slots (probe_index (pe_hash e) (length slots)))
       (place_all (Suc entry_idx) es)"

definition rehash :: "nat \<Rightarrow> 'v PrimitiveTable \<Rightarrow> 'v PrimitiveTable option" where
  "rehash slot_count m =
     (let live_entries = filter pe_live (pt_entries m);
          count = max (max slot_count (slot_count_for_min_live (length live_entries)))
                    (if live_entries = [] then 0 else 8);
          m1 = m\<lparr>pt_entries := live_entries, pt_live_len := length live_entries, pt_tombstones := 0,
                 pt_slots := replicate count SlotEmpty\<rparr>
      in if count = 0 then Some m1
         else map_option (\<lambda>slots. m1\<lparr>pt_slots := slots\<rparr>) (place_all 0 live_entries (replicate count SlotEmpty)))"

definition ensure_ready_for_insert :: "nat \<Rightarrow> 'v PrimitiveTable \<Rightarrow> 'v PrimitiveTable option" where
  "ensure_ready_for_insert capacity m =
     (if pt_slots m = [] then rehash (slot_count_for_min_live (max capacity 1)) m
      else
        Option.bind (if pt_live_len m < pt_tombstones m then rehash (length (pt_slots m)) m else Some m)
          (\<lambda>m1. if length (pt_slots m1) * 7 \<le> (pt_live_len m1 + pt_tombstones m1) * 10
                then rehash (max (length (pt_slots m1) * 2) (slot_count_for_min_live (pt_live_len m1 + 1))) m1
                else Some m1))"

section \<open>Map operations\<close>

definition table_get :: "MapKey \<Rightarrow> 'v PrimitiveTable \<Rightarrow> 'v option option" where
  "table_get key m =
     Option.bind (table_lookup key m)
       (\<lambda>r. case r of
              None \<Rightarrow> Some None
            | Some (_, entry_idx) \<Rightarrow> map_option (\<lambda>e. Some (pe_value e)) (arena_get (pt_entries m) entry_idx))"

definition table_contains :: "MapKey \<Rightarrow> 'v PrimitiveTable \<Rightarrow> bool option" where
  "table_contains key m = map_option (\<lambda>r. r \<noteq> None) (table_lookup key m)"

text \<open>The entry is appended and takes the slot; a reused tombstone is no longer counted.\<close>

definition push_entry :: "MapKey \<Rightarrow> 'v \<Rightarrow> nat \<Rightarrow> 'v PrimitiveTable \<Rightarrow> 'v PrimitiveTable option" where
  "push_entry key val slot_idx m =
     (case arena_get (pt_slots m) slot_idx of
        None \<Rightarrow> None
      | Some slot \<Rightarrow>
          Some (m\<lparr>pt_entries := pt_entries m @
                    [\<lparr>pe_hash = primitive_hash key, pe_key = key, pe_value = val, pe_live = True\<rparr>],
                 pt_tombstones := (if slot = SlotTombstone then pt_tombstones m - 1 else pt_tombstones m),
                 pt_slots := (pt_slots m)[slot_idx := SlotOccupied (length (pt_entries m))],
                 pt_live_len := pt_live_len m + 1\<rparr>))"

definition find_slot :: "MapKey \<Rightarrow> 'v PrimitiveTable \<Rightarrow> ProbeSlot option" where
  "find_slot key m =
     map_option
       (\<lambda>r. case r of
              Some (_, entry_idx) \<Rightarrow> SlotOccupied entry_idx
            | None \<Rightarrow> if pt_slots m = [] then SlotEmpty else SlotTombstone)
       (table_lookup key m)"

definition map_insert :: "nat \<Rightarrow> MapKey \<Rightarrow> 'v \<Rightarrow> 'v PrimitiveTable \<Rightarrow> 'v PrimitiveTable option" where
  "map_insert capacity key val m0 =
     Option.bind (ensure_ready_for_insert capacity m0)
       (\<lambda>m. Option.bind (find_slot key m)
          (\<lambda>slot. case slot of
             SlotOccupied entry_idx \<Rightarrow>
               (case arena_get (pt_entries m) entry_idx of
                  None \<Rightarrow> None
                | Some e \<Rightarrow> Some (m\<lparr>pt_entries := (pt_entries m)[entry_idx := e\<lparr>pe_value := val\<rparr>]\<rparr>))
           | _ \<Rightarrow> Option.bind (find_slot_index_for_insert key m) (\<lambda>slot_idx. push_entry key val slot_idx m)))"

definition table_remove :: "MapKey \<Rightarrow> 'v PrimitiveTable \<Rightarrow> 'v PrimitiveTable option" where
  "table_remove key m =
     Option.bind (table_lookup key m)
       (\<lambda>r. case r of
              None \<Rightarrow> Some m
            | Some (slot_idx, entry_idx) \<Rightarrow>
                (case arena_get (pt_entries m) entry_idx of
                   None \<Rightarrow> None
                 | Some e \<Rightarrow>
                     let m1 = m\<lparr>pt_entries := (pt_entries m)[entry_idx := e\<lparr>pe_live := False\<rparr>],
                                pt_slots := (pt_slots m)[slot_idx := SlotTombstone],
                                pt_live_len := pt_live_len m - 1, pt_tombstones := pt_tombstones m + 1\<rparr>
                     in if pt_slots m1 \<noteq> [] \<and> pt_live_len m1 < pt_tombstones m1
                        then rehash (length (pt_slots m1)) m1 else Some m1))"

text \<open>Building from an ordered map inserts its entries one by one.\<close>

fun insert_all :: "nat \<Rightarrow> (MapKey \<times> 'v) list \<Rightarrow> 'v PrimitiveTable \<Rightarrow> 'v PrimitiveTable option" where
  "insert_all capacity [] m = Some m"
| "insert_all capacity ((k, v) # xs) m = Option.bind (map_insert capacity k v m) (insert_all capacity xs)"

definition from_indexmap :: "nat \<Rightarrow> (MapKey \<times> 'v) list \<Rightarrow> 'v PrimitiveTable option" where
  "from_indexmap capacity entries = insert_all capacity entries (with_capacity (length entries))"

text \<open>A snapshot inserts the live entries into an ordered map.\<close>

definition table_snapshot :: "'v PrimitiveTable \<Rightarrow> (MapKey \<times> 'v) list" where
  "table_snapshot m = fold (\<lambda>e. ord_update (=) (pe_key e) (pe_value e)) (filter pe_live (pt_entries m)) []"

section \<open>Set operations\<close>

definition set_insert :: "nat \<Rightarrow> MapKey \<Rightarrow> unit PrimitiveTable \<Rightarrow> unit PrimitiveTable option" where
  "set_insert capacity key m0 =
     Option.bind (ensure_ready_for_insert capacity m0)
       (\<lambda>m. Option.bind (table_lookup key m)
          (\<lambda>r. if r \<noteq> None then Some m
               else Option.bind (find_slot_index_for_insert key m) (\<lambda>slot_idx. push_entry key () slot_idx m)))"

end
