(* ===== verification/Generate.thy ===== *)
theory Generate
  imports Choice Hash_Map
begin

text \<open>
  Type-driven generation of test values (\<open>pbt/src/generate.rs\<close>).  A generator is a tree of draws
  (\<open>Choice\<close>), so that a recorder, a replayer or any other choice source can run it; an exhausted source
  ends it.  The recursion over types is cut by fuel: an alias is followed without counting as depth, so
  the code itself may not end.  The operations on 64-bit floats are arguments.
\<close>

section \<open>Values and results\<close>

datatype GenValue =
    GInt "64 word" | GFloat "64 word" | GBool bool | GString string | GChar "32 word" | GUnit
  | GAdt TypeItemIdx nat "GenValue list"
  | GRecord "(Name \<times> GenValue) list" "TypeItemIdx option"
  | GList "GenValue list"
  | GMap "(MapKey \<times> GenValue) list"

text \<open>\<open>NoResult\<close> is a panic or a recursion that has not ended.\<close>

datatype 'a GenResult = GenOk 'a | Unsupported | NoResult

type_synonym 'a generator = "'a GenResult gen"

primrec gen_bind :: "'a gen \<Rightarrow> ('a \<Rightarrow> 'b gen) \<Rightarrow> 'b gen" where
  "gen_bind (Done x) f = f x"
| "gen_bind (Draw mx k) f = Draw mx (\<lambda>v. gen_bind (k v) f)"

text \<open>\<open>match g { GenResult::Ok(val) => ..., other => return other }\<close>\<close>

definition and_ok :: "'a generator \<Rightarrow> ('a \<Rightarrow> 'b generator) \<Rightarrow> 'b generator" where
  "and_ok g f =
     gen_bind g (\<lambda>r. case r of GenOk x \<Rightarrow> f x | Unsupported \<Rightarrow> Done Unsupported | NoResult \<Rightarrow> Done NoResult)"

definition gen_ok :: "'a \<Rightarrow> 'a generator" where
  "gen_ok x = Done (GenOk x)"

record FloatOps =
  f_of_u64 :: "64 word \<Rightarrow> 64 word"
  f_add :: "64 word \<Rightarrow> 64 word \<Rightarrow> 64 word"
  f_sub :: "64 word \<Rightarrow> 64 word \<Rightarrow> 64 word"
  f_mul :: "64 word \<Rightarrow> 64 word \<Rightarrow> 64 word"
  f_div :: "64 word \<Rightarrow> 64 word \<Rightarrow> 64 word"
  f_gt :: "64 word \<Rightarrow> 64 word \<Rightarrow> bool"

text \<open>
  What generation reads: the type definitions, the constructors of the scope in the order in which the
  hash map gives them, and the interner.
\<close>

record GenEnv =
  ge_types :: "TypeItem list"
  ge_constructors :: "(Name \<times> TypeItemIdx \<times> nat) list"
  ge_interner :: "Name \<Rightarrow> string"
  ge_floats :: FloatOps

section \<open>Limits\<close>

definition MAX_STR_LEN :: u64 where "MAX_STR_LEN = 32"
definition MAX_LIST_LEN :: u64 where "MAX_LIST_LEN = 16"
definition MAX_MAP_LEN :: u64 where "MAX_MAP_LEN = 8"
definition MAX_DEPTH :: nat where "MAX_DEPTH = 5"

definition U32_MAX :: u64 where "U32_MAX = 0xFFFFFFFF"

definition INTERESTING_INTS :: "64 word list" where
  "INTERESTING_INTS = [0, 1, - 1, 0x7FFFFFFFFFFFFFFF, 0x8000000000000000, 42, - 42, 100, - 100]"

section \<open>Lookups\<close>

definition find_type_by_name :: "GenEnv \<Rightarrow> Name \<Rightarrow> TypeItemIdx option" where
  "find_type_by_name env name = position (\<lambda>ty. ti_name ty = name) (ge_types env)"

text \<open>The loop over the constructors that notes the first one and the next one of the same type.\<close>

fun scan_constructors ::
    "(Name \<times> TypeItemIdx \<times> nat) list \<Rightarrow> (TypeItemIdx \<times> nat) option \<Rightarrow> (TypeItemIdx \<times> nat) option \<Rightarrow>
     (TypeItemIdx \<times> nat) option \<times> (TypeItemIdx \<times> nat) option" where
  "scan_constructors [] none_info some_info = (none_info, some_info)"
| "scan_constructors ((_, info) # cs) none_info some_info =
     (case none_info of
        None \<Rightarrow> scan_constructors cs (Some info) some_info
      | Some (t, _) \<Rightarrow>
          if some_info = None \<and> fst info = t then scan_constructors cs none_info (Some info)
          else scan_constructors cs none_info some_info)"

definition find_option_variants :: "GenEnv \<Rightarrow> (TypeItemIdx \<times> nat \<times> nat) option" where
  "find_option_variants env =
     (let (none_info, some_info) = scan_constructors (ge_constructors env) None None
      in map_option (\<lambda>(type_idx, _). (type_idx, 0, 1)) (case none_info of Some x \<Rightarrow> Some x | None \<Rightarrow> some_info))"

definition find_result_variants :: "GenEnv \<Rightarrow> (TypeItemIdx \<times> nat \<times> nat) option" where
  "find_result_variants env =
     map_option (\<lambda>(_, type_idx, _). (type_idx, 0, 1))
       (find (\<lambda>(_, type_idx, variant_idx).
           variant_idx = 0 \<and> list_ex (\<lambda>(_, t2, v2). t2 = type_idx \<and> v2 = 1) (ge_constructors env))
         (ge_constructors env))"

section \<open>Which types can be generated\<close>

fun is_generatable_inner :: "GenEnv \<Rightarrow> TypeRef \<Rightarrow> nat \<Rightarrow> bool" where
  "is_generatable_inner env ty depth =
     (if MAX_DEPTH < depth then False
      else
        (case ty of
           TRFn _ _ \<Rightarrow> False
         | TRError \<Rightarrow> False
         | TRRefined _ base _ \<Rightarrow> is_generatable_inner env base (depth + 1)
         | TRRecord flds \<Rightarrow> list_all (\<lambda>t. is_generatable_inner env t (depth + 1)) (map snd flds)
         | TRPath path args \<Rightarrow>
             (case last_opt path of
                None \<Rightarrow> False
              | Some name \<Rightarrow>
                  let resolved = ge_interner env name
                  in if resolved \<in> {''Int'', ''Float'', ''Bool'', ''String'', ''Char'', ''Unit''} then True
                     else if resolved \<in> {''Option'', ''List''} then
                       length args = 1 \<and> list_all (\<lambda>t. is_generatable_inner env t (depth + 1)) args
                     else if resolved \<in> {''Result'', ''Map''} then
                       length args = 2 \<and> list_all (\<lambda>t. is_generatable_inner env t (depth + 1)) args
                     else find_type_by_name env name \<noteq> None)))"

definition is_generatable :: "GenEnv \<Rightarrow> TypeRef \<Rightarrow> bool" where
  "is_generatable env ty = is_generatable_inner env ty 0"

section \<open>Primitive values\<close>

definition gen_int :: "GenValue generator" where
  "gen_int =
     Draw 7 (\<lambda>bias.
       if bias = 0 then
         Draw (of_nat (length INTERESTING_INTS - 1)) (\<lambda>idx.
           case arena_get INTERESTING_INTS (unat idx) of
             Some n \<Rightarrow> gen_ok (GInt n)
           | None \<Rightarrow> Done NoResult)
       else Draw U32_MAX (\<lambda>raw. gen_ok (GInt (raw - U32_MAX div 2))))"

text \<open>The floats \<open>1.0\<close>, \<open>-1.0\<close> and \<open>1000.0\<close> by their bits.\<close>

definition gen_float :: "FloatOps \<Rightarrow> GenValue generator" where
  "gen_float fl =
     Draw U32_MAX (\<lambda>raw.
     Draw 1 (\<lambda>sign_bit.
       let sign = (if sign_bit = 0 then 0x3FF0000000000000 else 0xBFF0000000000000)
       in gen_ok (GFloat (f_mul fl
            (f_mul fl (f_div fl (f_of_u64 fl raw) (f_of_u64 fl U32_MAX)) 0x408F400000000000) sign))))"

definition gen_bool :: "GenValue generator" where
  "gen_bool = Draw 1 (\<lambda>val. gen_ok (GBool (val = 1)))"

definition printable :: "u64 \<Rightarrow> u64" where
  "printable ch = (if ch < 95 then ch + 32 else 32)"

fun gen_chars :: "nat \<Rightarrow> string generator" where
  "gen_chars 0 = gen_ok []"
| "gen_chars (Suc n) = Draw 127 (\<lambda>ch. and_ok (gen_chars n) (\<lambda>s. gen_ok (char_of (unat (printable ch)) # s)))"

definition gen_string :: "GenValue generator" where
  "gen_string = Draw MAX_STR_LEN (\<lambda>len. and_ok (gen_chars (unat len)) (\<lambda>s. gen_ok (GString s)))"

definition gen_char :: "GenValue generator" where
  "gen_char = Draw 127 (\<lambda>val. gen_ok (GChar (ucast (printable val))))"

text \<open>The subtraction wraps, as in a build without overflow checks.\<close>

definition gen_int_range :: "64 word \<Rightarrow> 64 word \<Rightarrow> GenValue generator" where
  "gen_int_range mn mx =
     (if sint mx < sint mn then Done Unsupported
      else Draw (mx - mn) (\<lambda>off. gen_ok (GInt (mn + off))))"

definition gen_float_range :: "FloatOps \<Rightarrow> 64 word \<Rightarrow> 64 word \<Rightarrow> GenValue generator" where
  "gen_float_range fl mn mx =
     (if f_gt fl mn mx then Done Unsupported
      else
        Draw U32_MAX (\<lambda>raw.
          let frac = f_div fl (f_of_u64 fl raw) (f_of_u64 fl U32_MAX)
          in gen_ok (GFloat (f_add fl mn (f_mul fl frac (f_sub fl mx mn))))))"

section \<open>Composite values\<close>

text \<open>Composites take the generators of their parts; a loop runs one generator several times.\<close>

fun gen_repeat :: "nat \<Rightarrow> 'a generator \<Rightarrow> 'a list generator" where
  "gen_repeat 0 g = gen_ok []"
| "gen_repeat (Suc n) g = and_ok g (\<lambda>x. and_ok (gen_repeat n g) (\<lambda>xs. gen_ok (x # xs)))"

fun gen_each :: "'a generator list \<Rightarrow> 'a list generator" where
  "gen_each [] = gen_ok []"
| "gen_each (g # gs) = and_ok g (\<lambda>x. and_ok (gen_each gs) (\<lambda>xs. gen_ok (x # xs)))"

definition gen_option :: "GenEnv \<Rightarrow> GenValue generator \<Rightarrow> GenValue generator" where
  "gen_option env inner =
     Draw 1 (\<lambda>tag.
       case find_option_variants env of
         None \<Rightarrow> Done Unsupported
       | Some (type_idx, none_variant, some_variant) \<Rightarrow>
           if tag = 0 then gen_ok (GAdt type_idx none_variant [])
           else and_ok inner (\<lambda>val. gen_ok (GAdt type_idx some_variant [val])))"

definition gen_result :: "GenEnv \<Rightarrow> GenValue generator \<Rightarrow> GenValue generator \<Rightarrow> GenValue generator" where
  "gen_result env ok err =
     Draw 1 (\<lambda>tag.
       case find_result_variants env of
         None \<Rightarrow> Done Unsupported
       | Some (type_idx, ok_variant, err_variant) \<Rightarrow>
           if tag = 0 then and_ok ok (\<lambda>val. gen_ok (GAdt type_idx ok_variant [val]))
           else and_ok err (\<lambda>val. gen_ok (GAdt type_idx err_variant [val])))"

definition gen_list :: "GenValue generator \<Rightarrow> GenValue generator" where
  "gen_list elem = Draw MAX_LIST_LEN (\<lambda>len. and_ok (gen_repeat (unat len) elem) (\<lambda>items. gen_ok (GList items)))"

fun gen_map_key :: "GenValue \<Rightarrow> MapKey option" where
  "gen_map_key (GInt n) = Some (KInt n)"
| "gen_map_key (GString s) = Some (KString s)"
| "gen_map_key (GChar c) = Some (KChar c)"
| "gen_map_key (GBool b) = Some (KBool b)"
| "gen_map_key GUnit = Some KUnit"
| "gen_map_key _ = None"

text \<open>\<open>IndexMap::insert\<close>\<close>

fun index_insert :: "'k \<Rightarrow> 'v \<Rightarrow> ('k \<times> 'v) list \<Rightarrow> ('k \<times> 'v) list" where
  "index_insert k v [] = [(k, v)]"
| "index_insert k v ((k', v') # es) = (if k = k' then (k', v) # es else (k', v') # index_insert k v es)"

fun gen_entries ::
    "nat \<Rightarrow> GenValue generator \<Rightarrow> GenValue generator \<Rightarrow> (MapKey \<times> GenValue) list \<Rightarrow> (MapKey \<times> GenValue) list generator" where
  "gen_entries 0 key val entries = gen_ok entries"
| "gen_entries (Suc n) key val entries =
     and_ok key (\<lambda>kv.
       case gen_map_key kv of
         None \<Rightarrow> Done Unsupported
       | Some k \<Rightarrow> and_ok val (\<lambda>v. gen_entries n key val (index_insert k v entries)))"

definition gen_map :: "GenValue generator \<Rightarrow> GenValue generator \<Rightarrow> GenValue generator" where
  "gen_map key val = Draw MAX_MAP_LEN (\<lambda>len. and_ok (gen_entries (unat len) key val []) (\<lambda>es. gen_ok (GMap es)))"

definition gen_record :: "(TypeRef \<Rightarrow> nat \<Rightarrow> GenValue generator) \<Rightarrow> (Name \<times> TypeRef) list \<Rightarrow> nat \<Rightarrow> GenValue generator" where
  "gen_record rc flds depth =
     and_ok (gen_each (map (\<lambda>(_, ty). rc ty (depth + 1)) flds)) (\<lambda>vs. gen_ok (GRecord (zip (map fst flds) vs) None))"

definition gen_user_type :: "GenEnv \<Rightarrow> (TypeRef \<Rightarrow> nat \<Rightarrow> GenValue generator) \<Rightarrow> Name \<Rightarrow> nat \<Rightarrow> GenValue generator" where
  "gen_user_type env rc name depth =
     (case find_type_by_name env name of
        None \<Rightarrow> Done Unsupported
      | Some type_idx \<Rightarrow>
          (case arena_get (ge_types env) type_idx of
             None \<Rightarrow> Done NoResult
           | Some type_item \<Rightarrow>
               (case ti_kind type_item of
                  AliasDef inner \<Rightarrow> rc inner depth
                | RecordDef flds \<Rightarrow> gen_record rc flds depth
                | AdtDef variants \<Rightarrow>
                    if variants = [] then Done Unsupported
                    else
                      Draw (of_nat (length variants - 1)) (\<lambda>variant_idx.
                        case arena_get variants (unat variant_idx) of
                          None \<Rightarrow> Done NoResult
                        | Some variant \<Rightarrow>
                            and_ok (gen_each (map (\<lambda>ty. rc ty (depth + 1)) (v_fields variant)))
                              (\<lambda>flds. gen_ok (GAdt type_idx (unat variant_idx) flds))))))"

text \<open>The dispatch on the name of a type; \<open>rc\<close> is the recursive call.\<close>

definition gen_path ::
    "GenEnv \<Rightarrow> (TypeRef \<Rightarrow> nat \<Rightarrow> GenValue generator) \<Rightarrow> Name \<Rightarrow> TypeRef list \<Rightarrow> nat \<Rightarrow> GenValue generator" where
  "gen_path env rc name args depth =
     (let resolved = ge_interner env name
      in if resolved = ''Int'' then gen_int
         else if resolved = ''Float'' then gen_float (ge_floats env)
         else if resolved = ''Bool'' then gen_bool
         else if resolved = ''String'' then gen_string
         else if resolved = ''Char'' then gen_char
         else if resolved = ''Unit'' then gen_ok GUnit
         else if resolved = ''Option'' \<and> length args = 1 then gen_option env (rc (args ! 0) (depth + 1))
         else if resolved = ''Result'' \<and> length args = 2 then
           gen_result env (rc (args ! 0) (depth + 1)) (rc (args ! 1) (depth + 1))
         else if resolved = ''List'' \<and> length args = 1 then gen_list (rc (args ! 0) (depth + 1))
         else if resolved = ''Map'' \<and> length args = 2 then
           gen_map (rc (args ! 0) (depth + 1)) (rc (args ! 1) (depth + 1))
         else gen_user_type env rc name depth)"

fun generate_inner :: "GenEnv \<Rightarrow> nat \<Rightarrow> TypeRef \<Rightarrow> nat \<Rightarrow> GenValue generator" where
  "generate_inner env 0 ty depth = Done NoResult"
| "generate_inner env (Suc fuel) ty depth =
     (if MAX_DEPTH < depth then Done Unsupported
      else
        (case ty of
           TRFn _ _ \<Rightarrow> Done Unsupported
         | TRError \<Rightarrow> Done Unsupported
         | TRRefined _ base _ \<Rightarrow> generate_inner env fuel base depth
         | TRRecord flds \<Rightarrow> gen_record (generate_inner env fuel) flds depth
         | TRPath path args \<Rightarrow>
             (case last_opt path of
                None \<Rightarrow> Done Unsupported
              | Some name \<Rightarrow> gen_path env (generate_inner env fuel) name args depth)))"

definition generate :: "GenEnv \<Rightarrow> nat \<Rightarrow> TypeRef \<Rightarrow> GenValue generator" where
  "generate env fuel ty = generate_inner env fuel ty 0"

section \<open>Generator specifications\<close>

datatype GenSpec =
    SpecAuto
  | SpecInt
  | SpecIntRange "64 word" "64 word"
  | SpecFloat
  | SpecFloatRange "64 word" "64 word"
  | SpecBool
  | SpecString
  | SpecChar
  | SpecList GenSpec
  | SpecMap GenSpec GenSpec
  | SpecOptionOf GenSpec
  | SpecResultOf GenSpec GenSpec

text \<open>The first and the second type argument of the declared type.\<close>

definition with_arg :: "TypeRef \<Rightarrow> (TypeRef \<Rightarrow> 'a generator) \<Rightarrow> 'a generator" where
  "with_arg ty f = (case ty of TRPath _ (a # _) \<Rightarrow> f a | _ \<Rightarrow> Done Unsupported)"

definition with_args :: "TypeRef \<Rightarrow> (TypeRef \<Rightarrow> TypeRef \<Rightarrow> 'a generator) \<Rightarrow> 'a generator" where
  "with_args ty f = (case ty of TRPath _ (a # b # _) \<Rightarrow> f a b | _ \<Rightarrow> Done Unsupported)"

primrec generate_from_spec :: "GenSpec \<Rightarrow> GenEnv \<Rightarrow> nat \<Rightarrow> TypeRef \<Rightarrow> GenValue generator" where
  "generate_from_spec SpecAuto env fuel ty = generate env fuel ty"
| "generate_from_spec SpecInt env fuel ty = gen_int"
| "generate_from_spec (SpecIntRange mn mx) env fuel ty = gen_int_range mn mx"
| "generate_from_spec SpecFloat env fuel ty = gen_float (ge_floats env)"
| "generate_from_spec (SpecFloatRange mn mx) env fuel ty = gen_float_range (ge_floats env) mn mx"
| "generate_from_spec SpecBool env fuel ty = gen_bool"
| "generate_from_spec SpecString env fuel ty = gen_string"
| "generate_from_spec SpecChar env fuel ty = gen_char"
| "generate_from_spec (SpecList inner) env fuel ty =
     with_arg ty (\<lambda>a. gen_list (generate_from_spec inner env fuel a))"
| "generate_from_spec (SpecMap key val) env fuel ty =
     with_args ty (\<lambda>a b. gen_map (generate_from_spec key env fuel a) (generate_from_spec val env fuel b))"
| "generate_from_spec (SpecOptionOf inner) env fuel ty =
     with_arg ty (\<lambda>a. gen_option env (generate_from_spec inner env fuel a))"
| "generate_from_spec (SpecResultOf ok err) env fuel ty =
     with_args ty (\<lambda>a b. gen_result env (generate_from_spec ok env fuel a) (generate_from_spec err env fuel b))"

text \<open>The arguments of a function under test (\<open>pbt/src/runner.rs\<close>); any failure gives up.\<close>

definition generate_args :: "GenEnv \<Rightarrow> nat \<Rightarrow> TypeRef list \<Rightarrow> GenValue list generator" where
  "generate_args env fuel tys = gen_each (map (generate env fuel) tys)"

definition generate_property_args :: "GenEnv \<Rightarrow> nat \<Rightarrow> (TypeRef \<times> GenSpec) list \<Rightarrow> GenValue list generator" where
  "generate_property_args env fuel ps = gen_each (map (\<lambda>(ty, spec). generate_from_spec spec env fuel ty) ps)"

end
