(* ===== verification/Choice_Properties.thy ===== *)
theory Choice_Properties
  imports Choice
begin

text \<open>
  The rejection loop ends, and a recorded run replays.
\<close>

section \<open>The rejection loop\<close>

abbreviation gamma :: u64 where
  "gamma \<equiv> 0x9e3779b97f4a7c15"

lemma mix_0: "mix 0 = 0"
  by (simp add: mix_def)

lemma next_u64_eq: "next_u64 rng = (mix (rng_state rng + gamma), rng\<lparr>rng_state := rng_state rng + gamma\<rparr>)"
  by (simp add: next_u64_def Let_def)

lemma draw_loop_hits:
  assumes "rng_state rng + of_nat (Suc k) * gamma = 0" and "k < n" and "0 < limit"
  shows "\<exists>v rng'. draw_loop n limit span rng = Some (v, rng')"
  using assms
proof (induction k arbitrary: n rng)
  case 0
  then obtain m where n: "n = Suc m" by (cases n) auto
  from 0 have "rng_state rng + gamma = 0" by simp
  then have "next_u64 rng = (0, rng\<lparr>rng_state := 0\<rparr>)" by (simp only: next_u64_eq mix_0)
  with 0(3) n show ?case by simp
next
  case (Suc k)
  then obtain m where n: "n = Suc m" by (cases n) auto
  let ?rng = "rng\<lparr>rng_state := rng_state rng + gamma\<rparr>"
  have "rng_state ?rng + of_nat (Suc k) * gamma = 0"
    using Suc.prems(1) by (simp only: of_nat_Suc Rng.simps) (simp add: algebra_simps)
  from Suc.IH [OF this, of m] Suc.prems n show ?case by (auto simp: next_u64_eq Let_def)
qed

lemma steps_to_zero: "\<exists>k < 2 ^ 64. s + of_nat (Suc k) * gamma = 0"
proof -
  let ?w = "- s * 0xf1de83e19937733d - 1 :: u64"
  have "of_nat (Suc (unat ?w)) = - s * 0xf1de83e19937733d" by simp
  then have "of_nat (Suc (unat ?w)) * gamma = - s * (0xf1de83e19937733d * gamma)" by (simp only: mult.assoc)
  also have "0xf1de83e19937733d * gamma = 1" by simp
  finally have "s + of_nat (Suc (unat ?w)) * gamma = 0" by simp
  moreover have "unat ?w < 2 ^ 64" using unsigned_less [of ?w, where 'a = nat] by simp
  ultimately show ?thesis by blast
qed

lemma limit_pos:
  assumes "span \<noteq> 0"
  shows "(0 :: u64) < - 1 - (- 1 mod span)"
proof -
  have "- 1 mod span < span" using assms by (simp add: word_mod_less_divisor word_gt_0)
  then have "- 1 mod span \<noteq> - 1" by (metis word_order.extremum_strict)
  then have "- 1 - (- 1 mod span) \<noteq> 0" by (metis eq_iff_diff_eq_0)
  then show ?thesis by (simp add: word_gt_0)
qed

lemma rng_draw_returns:
  assumes "2 ^ 64 \<le> fuel"
  shows "\<exists>v rng'. rng_draw fuel rng mx = Some (v, rng')"
proof (cases "mx = 0 \<or> mx + 1 = 0")
  case True
  then show ?thesis by (auto simp: rng_draw_def Let_def next_u64_eq)
next
  case False
  obtain k where "k < 2 ^ 64" "rng_state rng + of_nat (Suc k) * gamma = 0"
    using steps_to_zero by blast
  with assms draw_loop_hits [OF _ _ limit_pos [of "mx + 1"]] False show ?thesis
    by (simp only: rng_draw_def Let_def if_False) auto
qed

text \<open>
  C37. Drawing a number always ends: the generator's state runs through every 64-bit value, so the
  rejection loop meets an accepted one within \<open>2 ^ 64\<close> steps, and the number is in the range asked
  for.
\<close>

theorem draw_terminates:
  assumes "2 ^ 64 \<le> fuel"
  shows "\<exists>v rng'. rng_draw fuel rng mx = Some (v, rng') \<and> v \<le> mx"
  using rng_draw_returns [OF assms] rng_draw_range by blast

theorem draw_terminates_witness: "\<exists>v rng'. rng_draw (2 ^ 64) (rng_new 42) 6 = Some (v, rng') \<and> v \<le> 6"
  by (rule draw_terminates) simp

section \<open>Replaying\<close>

context choice_source
begin

text \<open>What any source drew, a replayer that has it ahead draws again.\<close>

lemma replay_repeats:
  assumes "run_gen draw g s = Some (Some a, log, t)" and "drop (rep_cursor r) (choices (rep_sequence r)) = map fst log @ rest"
  shows "run_gen replayer_draw g r = Some (Some a, log, r\<lparr>rep_cursor := rep_cursor r + length log\<rparr>)"
  using assms
proof (induction g arbitrary: s log r)
  case (Draw mx k)
  then obtain v s' log' where d: "draw s mx = Some (Some v, s')"
    and run: "run_gen draw (k v) s' = Some (Some a, log', t)" and log: "log = (v, mx) # log'"
    by (auto split: option.splits)
  have nth: "rep_cursor r < length (choices (rep_sequence r))" "choices (rep_sequence r) ! rep_cursor r = v"
    using Draw.prems(2) log nth_via_drop [of "rep_cursor r"] by (auto simp: not_le [symmetric])
  have "drop (Suc (rep_cursor r)) (choices (rep_sequence r)) = map fst log' @ rest"
    using Draw.prems(2) log by (simp add: drop_Suc drop_tl)
  then have "run_gen replayer_draw (k v) (r\<lparr>rep_cursor := Suc (rep_cursor r)\<rparr>) =
      Some (Some a, log', r\<lparr>rep_cursor := Suc (rep_cursor r) + length log'\<rparr>)"
    using Draw.IH [of "k v" s' log' "r\<lparr>rep_cursor := Suc (rep_cursor r)\<rparr>"] run by simp
  moreover have "replayer_draw r mx = Some (Some v, r\<lparr>rep_cursor := Suc (rep_cursor r)\<rparr>)"
    using nth draw_in_range [OF d] by (simp add: replayer_draw_def Let_def min_def)
  ultimately show ?case by (simp add: log)
qed simp

end

lemma recorder_log:
  assumes "run_gen (recorder_draw fuel) g r = Some (out, log, r')"
  shows "\<exists>a. out = Some a" and "rec_choices r' = rec_choices r @ map fst log"
    and "rec_maxima r' = rec_maxima r @ map snd log"
  using assms
proof (atomize (full), induction g arbitrary: r log)
  case (Draw mx k)
  obtain v rng where d: "recorder_draw fuel r mx = Some (Some v,
      r\<lparr>rec_rng := rng, rec_choices := rec_choices r @ [v], rec_maxima := rec_maxima r @ [mx]\<rparr>)"
    using Draw.prems by (cases "rng_draw fuel (rec_rng r) mx") (auto simp: recorder_draw_def)
  with Draw.prems obtain log' where log: "log = (v, mx) # log'"
    and run: "run_gen (recorder_draw fuel) (k v)
      (r\<lparr>rec_rng := rng, rec_choices := rec_choices r @ [v], rec_maxima := rec_maxima r @ [mx]\<rparr>) = Some (out, log', r')"
    by auto
  with Draw.IH [of "k v" "r\<lparr>rec_rng := rng, rec_choices := rec_choices r @ [v], rec_maxima := rec_maxima r @ [mx]\<rparr>" log'] log
  show ?case by simp
qed auto

lemma recorder_returns:
  assumes "2 ^ 64 \<le> fuel"
  shows "run_gen (recorder_draw fuel) g r \<noteq> None"
proof (induction g arbitrary: r)
  case (Draw mx k)
  obtain v rng where "rng_draw fuel (rec_rng r) mx = Some (v, rng)" using rng_draw_returns [OF assms] by blast
  with Draw.IH [of "k v"] show ?case by (auto simp: recorder_draw_def [of fuel r])
qed simp

lemma record_replay:
  assumes "run_gen (recorder_draw fuel) g (recorder_new seed) = Some (out, log, r)"
  shows "run_gen replayer_draw g (replayer_new (into_sequence r)) =
      Some (out, log, \<lparr>rep_sequence = into_sequence r, rep_cursor = seq_len (into_sequence r)\<rparr>)"
    and "list_all2 (\<le>) (choices (into_sequence r)) (maxima (into_sequence r))"
proof -
  note rl = recorder_log [OF assms]
  obtain a where a: "out = Some a" using rl(1) by blast
  have seq: "choices (into_sequence r) = map fst log" "maxima (into_sequence r) = map snd log"
    using rl(2,3) by (simp_all add: into_sequence_def recorder_new_def)
  have "run_gen replayer_draw g (replayer_new (into_sequence r)) =
      Some (Some a, log, (replayer_new (into_sequence r))\<lparr>rep_cursor := 0 + length log\<rparr>)"
    using recorder.replay_repeats [OF assms [unfolded a], of "replayer_new (into_sequence r)" "[]"] seq
    by (simp add: replayer_new_def)
  then show "run_gen replayer_draw g (replayer_new (into_sequence r)) =
      Some (out, log, \<lparr>rep_sequence = into_sequence r, rep_cursor = seq_len (into_sequence r)\<rparr>)"
    by (simp add: a seq seq_len_def replayer_new_def)
  have "list_all2 (\<le>) (map fst log) (map snd log)"
    using recorder.run_gen_in_range [OF assms] by (induction log) auto
  then show "list_all2 (\<le>) (choices (into_sequence r)) (maxima (into_sequence r))" by (simp add: seq)
qed

text \<open>
  Recording a generator's choices ends, and replaying them gives the generated value again:
  every draw of the replay gives the recorded choice, unclamped, and the sequence is used up
  exactly.  Every recorded choice is within its recorded maximum.
\<close>

theorem record_then_replay:
  assumes "2 ^ 64 \<le> fuel"
  shows "\<exists>out log r. run_gen (recorder_draw fuel) g (recorder_new seed) = Some (Some out, log, r)
    \<and> run_gen replayer_draw g (replayer_new (into_sequence r)) =
        Some (Some out, log, \<lparr>rep_sequence = into_sequence r, rep_cursor = seq_len (into_sequence r)\<rparr>)
    \<and> list_all2 (\<le>) (choices (into_sequence r)) (maxima (into_sequence r))"
proof -
  obtain o' log r where run: "run_gen (recorder_draw fuel) g (recorder_new seed) = Some (o', log, r)"
    using recorder_returns [OF assms] by (metis not_None_eq prod_cases3)
  moreover obtain out where "o' = Some out" using recorder_log(1) [OF run] by blast
  ultimately show ?thesis using record_replay [OF run] by blast
qed

end
