(* ===== verification/Generate_Properties.thy ===== *)
theory Generate_Properties
  imports Generate Choice_Properties
begin

text \<open>
  Generated values have the types they are generated for, generation ends when aliases do, and what
  was recorded generates the same values again.
\<close>

section \<open>Results of generators\<close>

text \<open>The results a generator can have when every draw is within its bound.\<close>

inductive can_yield :: "'a gen \<Rightarrow> 'a \<Rightarrow> bool" where
  can_yield_Done: "can_yield (Done r) r"
| can_yield_Draw: "v \<le> mx \<Longrightarrow> can_yield (k v) r \<Longrightarrow> can_yield (Draw mx k) r"

inductive_simps can_yield_simps [simp]: "can_yield (Done x) r" "can_yield (Draw mx k) r"

lemma can_yield_bind: "can_yield (gen_bind g f) r \<longleftrightarrow> (\<exists>x. can_yield g x \<and> can_yield (f x) r)"
  by (induction g) auto

lemma can_yield_gen_ok [simp]: "can_yield (gen_ok x) r \<longleftrightarrow> r = GenOk x"
  by (auto simp: gen_ok_def)

lemma can_yield_and_ok [simp]:
  "can_yield (and_ok g f) (GenOk y) \<longleftrightarrow> (\<exists>x. can_yield g (GenOk x) \<and> can_yield (f x) (GenOk y))"
  "can_yield (and_ok g f) NoResult \<longleftrightarrow> (\<exists>x. can_yield g (GenOk x) \<and> can_yield (f x) NoResult) \<or> can_yield g NoResult"
  by (auto simp: and_ok_def can_yield_bind split: GenResult.splits) (metis GenResult.exhaust)+

context choice_source
begin

lemma run_gen_can_yield: "run_gen draw g s = Some (Some r, log, t) \<Longrightarrow> can_yield g r"
proof (induction g arbitrary: s log)
  case (Draw mx k)
  then obtain v s' log' where "draw s mx = Some (Some v, s')" "run_gen draw (k v) s' = Some (Some r, log', t)"
    by (auto split: option.splits prod.splits)
  with Draw.IH[of "k v"] draw_in_range show ?case
    by (auto intro: exI[of _ v])
qed simp

end

lemma can_yield_repeat: "can_yield (gen_repeat n g) (GenOk xs) \<Longrightarrow> list_all (\<lambda>x. can_yield g (GenOk x)) xs"
  by (induction n arbitrary: xs) auto

lemma can_yield_each: "can_yield (gen_each gs) (GenOk xs) \<Longrightarrow> list_all2 (\<lambda>g x. can_yield g (GenOk x)) gs xs"
  by (induction gs arbitrary: xs) auto

lemma each_ends: "\<forall>g\<in>set gs. \<not> can_yield g NoResult \<Longrightarrow> \<not> can_yield (gen_each gs) NoResult"
  by (induction gs) auto

lemma repeat_ends: "\<not> can_yield g NoResult \<Longrightarrow> \<not> can_yield (gen_repeat n g) NoResult"
  by (induction n) auto

lemma entries_end:
  "\<not> can_yield key NoResult \<Longrightarrow> \<not> can_yield val NoResult \<Longrightarrow> \<not> can_yield (gen_entries n key val es) NoResult"
  by (induction n arbitrary: es) (auto split: option.splits)

lemma chars_end: "\<not> can_yield (gen_chars n) NoResult"
  by (induction n) auto

text \<open>Entries of a map, with the keys they were generated as.\<close>

lemma entries_yield:
  assumes "can_yield (gen_entries n key val es) (GenOk es')" and "list_all (\<lambda>(k, v). P k \<and> Q v) es"
    and "\<And>kv k. can_yield key (GenOk kv) \<Longrightarrow> gen_map_key kv = Some k \<Longrightarrow> P k" and "\<And>v. can_yield val (GenOk v) \<Longrightarrow> Q v"
    and "distinct (map fst es)"
  shows "list_all (\<lambda>(k, v). P k \<and> Q v) es' \<and> distinct (map fst es')"
  using assms(1,2,5)
proof (induction n arbitrary: es)
  case (Suc n)
  then obtain kv k v where kv: "can_yield key (GenOk kv)" "gen_map_key kv = Some k" "can_yield val (GenOk v)"
      "can_yield (gen_entries n key val (index_insert k v es)) (GenOk es')"
    by (auto split: option.splits)
  have "list_all (\<lambda>(k, v). P k \<and> Q v) (index_insert k v es)"
    using Suc.prems(2) assms(3)[OF kv(1,2)] assms(4)[OF kv(3)] by (induction k v es rule: index_insert.induct) auto
  moreover have "fst ` set (index_insert k v es) = insert k (fst ` set es)" for es
    by (induction k v es rule: index_insert.induct) auto
  then have "distinct (map fst (index_insert k v es))"
    using Suc.prems(3) by (induction k v es rule: index_insert.induct) auto
  ultimately show ?case
    using Suc.IH[OF kv(4)] by blast
qed simp

section \<open>Typing\<close>

text \<open>Whether the generator treats a type by its name alone, whatever is defined under the name.\<close>

definition core_path :: "string \<Rightarrow> TypeRef list \<Rightarrow> bool" where
  "core_path s args \<longleftrightarrow>
     s \<in> {''Int'', ''Float'', ''Bool'', ''String'', ''Char'', ''Unit''} \<or>
     s \<in> {''Option'', ''List''} \<and> length args = 1 \<or> s \<in> {''Result'', ''Map''} \<and> length args = 2"

text \<open>
  The values of a type, given the definitions of \<open>Option\<close> and \<open>Result\<close>.  The type arguments of other
  definitions are not looked at: a type parameter is a name like any other.
\<close>

inductive of_type :: "GenEnv \<Rightarrow> TypeItemIdx \<Rightarrow> TypeItemIdx \<Rightarrow> GenValue \<Rightarrow> TypeRef \<Rightarrow> bool" for env opt res where
  of_int: "last_opt p = Some n \<Longrightarrow> ge_interner env n = ''Int'' \<Longrightarrow> of_type env opt res (GInt i) (TRPath p args)"
| of_float: "last_opt p = Some n \<Longrightarrow> ge_interner env n = ''Float'' \<Longrightarrow> of_type env opt res (GFloat x) (TRPath p args)"
| of_bool: "last_opt p = Some n \<Longrightarrow> ge_interner env n = ''Bool'' \<Longrightarrow> of_type env opt res (GBool b) (TRPath p args)"
| of_string: "last_opt p = Some n \<Longrightarrow> ge_interner env n = ''String'' \<Longrightarrow> of_type env opt res (GString s) (TRPath p args)"
| of_char: "last_opt p = Some n \<Longrightarrow> ge_interner env n = ''Char'' \<Longrightarrow> of_type env opt res (GChar c) (TRPath p args)"
| of_unit: "last_opt p = Some n \<Longrightarrow> ge_interner env n = ''Unit'' \<Longrightarrow> of_type env opt res GUnit (TRPath p args)"
| of_none: "last_opt p = Some n \<Longrightarrow> ge_interner env n = ''Option'' \<Longrightarrow> of_type env opt res (GAdt opt 0 []) (TRPath p [a])"
| of_some: "last_opt p = Some n \<Longrightarrow> ge_interner env n = ''Option'' \<Longrightarrow> of_type env opt res v a \<Longrightarrow>
    of_type env opt res (GAdt opt 1 [v]) (TRPath p [a])"
| of_ok: "last_opt p = Some n \<Longrightarrow> ge_interner env n = ''Result'' \<Longrightarrow> of_type env opt res v a \<Longrightarrow>
    of_type env opt res (GAdt res 0 [v]) (TRPath p [a, b])"
| of_err: "last_opt p = Some n \<Longrightarrow> ge_interner env n = ''Result'' \<Longrightarrow> of_type env opt res v b \<Longrightarrow>
    of_type env opt res (GAdt res 1 [v]) (TRPath p [a, b])"
| of_list: "last_opt p = Some n \<Longrightarrow> ge_interner env n = ''List'' \<Longrightarrow> \<forall>v\<in>set vs. of_type env opt res v a \<Longrightarrow>
    of_type env opt res (GList vs) (TRPath p [a])"
| of_map: "last_opt p = Some n \<Longrightarrow> ge_interner env n = ''Map'' \<Longrightarrow> distinct (map fst es) \<Longrightarrow>
    \<forall>(k, v)\<in>set es. (\<exists>kv. gen_map_key kv = Some k \<and> of_type env opt res kv a) \<and> of_type env opt res v b \<Longrightarrow>
    of_type env opt res (GMap es) (TRPath p [a, b])"
| of_refined: "of_type env opt res v base \<Longrightarrow> of_type env opt res v (TRRefined x base e)"
| of_record: "length vs = length flds \<Longrightarrow> list_all2 (of_type env opt res) vs (map snd flds) \<Longrightarrow>
    of_type env opt res (GRecord (zip (map fst flds) vs) None) (TRRecord flds)"
| of_alias: "last_opt p = Some n \<Longrightarrow> \<not> core_path (ge_interner env n) args \<Longrightarrow> find_type_by_name env n = Some i \<Longrightarrow>
    ti_kind (ge_types env ! i) = AliasDef t \<Longrightarrow> of_type env opt res v t \<Longrightarrow> of_type env opt res v (TRPath p args)"
| of_record_def: "last_opt p = Some n \<Longrightarrow> \<not> core_path (ge_interner env n) args \<Longrightarrow> find_type_by_name env n = Some i \<Longrightarrow>
    ti_kind (ge_types env ! i) = RecordDef flds \<Longrightarrow> of_type env opt res v (TRRecord flds) \<Longrightarrow>
    of_type env opt res v (TRPath p args)"
| of_adt: "last_opt p = Some n \<Longrightarrow> \<not> core_path (ge_interner env n) args \<Longrightarrow> find_type_by_name env n = Some i \<Longrightarrow>
    ti_kind (ge_types env ! i) = AdtDef variants \<Longrightarrow> vi < length variants \<Longrightarrow>
    list_all2 (of_type env opt res) vs (v_fields (variants ! vi)) \<Longrightarrow> of_type env opt res (GAdt i vi vs) (TRPath p args)"

definition lookups_ok :: "GenEnv \<Rightarrow> TypeItemIdx \<Rightarrow> TypeItemIdx \<Rightarrow> bool" where
  "lookups_ok env opt res \<longleftrightarrow>
     find_option_variants env \<in> {None, Some (opt, 0, 1)} \<and> find_result_variants env \<in> {None, Some (res, 0, 1)}"

lemma can_yield_option:
  assumes "lookups_ok env opt res" and "can_yield (gen_option env g) (GenOk v)"
  shows "v = GAdt opt 0 [] \<or> (\<exists>x. v = GAdt opt 1 [x] \<and> can_yield g (GenOk x))"
proof (cases "find_option_variants env")
  case (Some t)
  with assms(1) have "t = (opt, 0, 1)"
    by (simp add: lookups_ok_def)
  with Some assms(2) show ?thesis
    by (auto simp: gen_option_def split: if_splits)
qed (use assms(2) in \<open>simp add: gen_option_def\<close>)

lemma can_yield_result:
  assumes "lookups_ok env opt res" and "can_yield (gen_result env g h) (GenOk v)"
  shows "(\<exists>x. v = GAdt res 0 [x] \<and> can_yield g (GenOk x)) \<or> (\<exists>x. v = GAdt res 1 [x] \<and> can_yield h (GenOk x))"
proof (cases "find_result_variants env")
  case (Some t)
  with assms(1) have "t = (res, 0, 1)"
    by (simp add: lookups_ok_def)
  with Some assms(2) show ?thesis
    by (auto simp: gen_result_def split: if_splits)
qed (use assms(2) in \<open>simp add: gen_result_def\<close>)

lemma can_yield_list: "can_yield (gen_list g) (GenOk v) \<Longrightarrow> \<exists>vs. v = GList vs \<and> (\<forall>x\<in>set vs. can_yield g (GenOk x))"
  by (auto simp: gen_list_def list_all_iff dest!: can_yield_repeat)

lemma can_yield_map:
  assumes "can_yield (gen_map g h) (GenOk v)"
  shows "\<exists>es. v = GMap es \<and> distinct (map fst es) \<and>
    (\<forall>(k, x)\<in>set es. (\<exists>kv. gen_map_key kv = Some k \<and> can_yield g (GenOk kv)) \<and> can_yield h (GenOk x))"
proof -
  obtain n es where es: "can_yield (gen_entries n g h []) (GenOk es)" "v = GMap es"
    using assms by (auto simp: gen_map_def)
  have "list_all (\<lambda>(k, x). (\<exists>kv. gen_map_key kv = Some k \<and> can_yield g (GenOk kv)) \<and> can_yield h (GenOk x)) es \<and> distinct (map fst es)"
    using es(1) by (rule entries_yield) auto
  with es(2) show ?thesis
    by (auto simp: list_all_iff)
qed

text \<open>A recursive call that gives values of the type it is called for.\<close>

definition typed_calls :: "GenEnv \<Rightarrow> TypeItemIdx \<Rightarrow> TypeItemIdx \<Rightarrow> (TypeRef \<Rightarrow> nat \<Rightarrow> GenValue generator) \<Rightarrow> bool" where
  "typed_calls env opt res rc \<longleftrightarrow> (\<forall>ty d v. can_yield (rc ty d) (GenOk v) \<longrightarrow> of_type env opt res v ty)"

lemma typed_callsD: "typed_calls env opt res rc \<Longrightarrow> can_yield (rc ty d) (GenOk v) \<Longrightarrow> of_type env opt res v ty"
  by (auto simp: typed_calls_def)

lemma typed_each:
  assumes "typed_calls env opt res rc" and "can_yield (gen_each (map (\<lambda>ty. rc ty d) tys)) (GenOk vs)"
  shows "list_all2 (of_type env opt res) vs tys"
  using can_yield_each[OF assms(2)] typed_callsD[OF assms(1)]
  by (auto simp: list_all2_conv_all_nth)

lemma typed_record:
  assumes "typed_calls env opt res rc" and "can_yield (gen_record rc flds d) (GenOk v)"
  shows "of_type env opt res v (TRRecord flds)"
proof -
  obtain vs where "can_yield (gen_each (map (\<lambda>ty. rc ty (d + 1)) (map snd flds))) (GenOk vs)" "v = GRecord (zip (map fst flds) vs) None"
    using assms(2) by (auto simp: gen_record_def comp_def case_prod_unfold)
  moreover from this(1) have "list_all2 (of_type env opt res) vs (map snd flds)"
    by (rule typed_each[OF assms(1)])
  ultimately show ?thesis
    by (auto intro!: of_record dest: list_all2_lengthD)
qed

lemma typed_user:
  assumes "typed_calls env opt res rc" and "can_yield (gen_user_type env rc n d) (GenOk v)"
    and "last_opt p = Some n" and "\<not> core_path (ge_interner env n) args"
  shows "of_type env opt res v (TRPath p args)"
proof -
  obtain i where i: "find_type_by_name env n = Some i" "i < length (ge_types env)"
    using assms(2) by (auto simp: gen_user_type_def split: option.splits)
  show ?thesis
  proof (cases "ti_kind (ge_types env ! i)")
    case (AliasDef t)
    then show ?thesis
      using assms i typed_callsD[OF assms(1)] by (auto simp: gen_user_type_def arena_get_def intro!: of_alias)
  next
    case (RecordDef flds)
    then show ?thesis
      using assms i typed_record[OF assms(1)] by (auto simp: gen_user_type_def arena_get_def intro!: of_record_def)
  next
    case (AdtDef variants)
    then obtain vi vs where "vi < length variants" "v = GAdt i vi vs"
        "can_yield (gen_each (map (\<lambda>ty. rc ty (d + 1)) (v_fields (variants ! vi)))) (GenOk vs)"
      using assms(2) i by (auto simp: gen_user_type_def arena_get_def split: if_splits option.splits)
    then show ?thesis
      using of_adt[OF assms(3,4) i(1) AdtDef] typed_each[OF assms(1)] by simp
  qed
qed

lemma typed_path:
  assumes "lookups_ok env opt res" and "typed_calls env opt res rc" and "can_yield (gen_path env rc n args d) (GenOk v)"
    and p: "last_opt p = Some n"
  shows "of_type env opt res v (TRPath p args)"
proof (cases "core_path (ge_interner env n) args")
  case False
  then have "gen_path env rc n args d = gen_user_type env rc n d"
    by (auto simp: core_path_def gen_path_def Let_def)
  with assms(3) typed_user[OF assms(2) _ p False] show ?thesis
    by simp
next
  case True
  note call = typed_callsD[OF assms(2)]
  let ?s = "ge_interner env n"
  consider "?s \<in> {''Int'', ''Float'', ''Bool'', ''String'', ''Char'', ''Unit''}"
    | (opt) a where "?s = ''Option''" "args = [a]" | (lst) a where "?s = ''List''" "args = [a]"
    | (res) a b where "?s = ''Result''" "args = [a, b]" | (mp) a b where "?s = ''Map''" "args = [a, b]"
    using True unfolding core_path_def by (auto simp: length_Suc_conv numeral_2_eq_2)
  then show ?thesis
  proof cases
    case 1
    then show ?thesis
      using assms(3) p
      by (auto simp: gen_path_def gen_int_def gen_float_def gen_bool_def gen_string_def gen_char_def Let_def
          intro: of_int of_float of_bool of_string of_char of_unit split: if_splits option.splits)
  next
    case (opt a)
    then show ?thesis
      using can_yield_option[OF assms(1), of "rc a (d + 1)" v] assms(3) call
      by (auto simp: gen_path_def intro: of_none[OF p opt(1)] of_some[OF p opt(1), unfolded One_nat_def])
  next
    case (lst a)
    then show ?thesis
      using can_yield_list[of "rc a (d + 1)" v] assms(3) call
      by (auto simp: gen_path_def intro!: of_list[OF p lst(1)])
  next
    case (res a b)
    then show ?thesis
      using can_yield_result[OF assms(1), of "rc a (d + 1)" "rc b (d + 1)" v] assms(3) call
      by (auto simp: gen_path_def intro: of_ok[OF p res(1)] of_err[OF p res(1), unfolded One_nat_def])
  next
    case (mp a b)
    then obtain es where es: "v = GMap es" "distinct (map fst es)"
      "\<forall>(k, x)\<in>set es. (\<exists>kv. gen_map_key kv = Some k \<and> can_yield (rc a (d + 1)) (GenOk kv)) \<and> can_yield (rc b (d + 1)) (GenOk x)"
      using can_yield_map[of "rc a (d + 1)" "rc b (d + 1)" v] assms(3) by (auto simp: gen_path_def)
    have "\<forall>(k, x)\<in>set es. (\<exists>kv. gen_map_key kv = Some k \<and> of_type env opt res kv a) \<and> of_type env opt res x b"
      using es(3) call by blast
    then show ?thesis
      using of_map[OF p mp(1) es(2)] es(1) mp(2) by simp
  qed
qed

lemma generate_inner_typed:
  assumes "lookups_ok env opt res"
  shows "typed_calls env opt res (generate_inner env n)"
proof (induction n)
  case (Suc n)
  then have "of_type env opt res v ty" if "can_yield (generate_inner env (Suc n) ty d) (GenOk v)" for ty d v
    using that typed_record[OF Suc] typed_path[OF assms Suc] typed_callsD[OF Suc]
    by (cases ty) (auto intro: of_refined split: if_splits option.splits)
  then show ?case
    by (simp add: typed_calls_def)
qed (simp add: typed_calls_def)

section \<open>Generation ends\<close>

text \<open>The name at the head of a type, below refinements.\<close>

fun head_name :: "TypeRef \<Rightarrow> Name option" where
  "head_name (TRRefined _ base _) = head_name base"
| "head_name (TRPath p args) = last_opt p"
| "head_name _ = None"

text \<open>Aliases that do not lead back to themselves have a rank that goes down along them.\<close>

definition aliases_end :: "GenEnv \<Rightarrow> (TypeItemIdx \<Rightarrow> nat) \<Rightarrow> bool" where
  "aliases_end env rk \<longleftrightarrow>
     (\<forall>i<length (ge_types env). case ti_kind (ge_types env ! i) of
        AliasDef t \<Rightarrow> (case Option.bind (head_name t) (find_type_by_name env) of None \<Rightarrow> True | Some j \<Rightarrow> rk j < rk i)
      | _ \<Rightarrow> True)"

definition ends_at :: "GenEnv \<Rightarrow> TypeRef \<Rightarrow> nat \<Rightarrow> bool" where
  "ends_at env ty d \<longleftrightarrow> (\<exists>N. \<forall>n\<ge>N. \<not> can_yield (generate_inner env n ty d) NoResult)"

lemma ends_all:
  assumes "\<forall>ty\<in>set tys. ends_at env ty d"
  shows "\<exists>N. \<forall>n\<ge>N. \<forall>ty\<in>set tys. \<not> can_yield (generate_inner env n ty d) NoResult"
  using assms
proof (induction tys)
  case (Cons ty tys)
  then obtain N M where "\<forall>n\<ge>N. \<not> can_yield (generate_inner env n ty d) NoResult"
      "\<forall>n\<ge>M. \<forall>ty\<in>set tys. \<not> can_yield (generate_inner env n ty d) NoResult"
    by (auto simp: ends_at_def)
  then show ?case
    by (intro exI[of _ "max N M"]) auto
qed simp

text \<open>One level of the recursion ends when the calls for its parts do.\<close>

lemma ends_step:
  assumes "\<exists>N. \<forall>n\<ge>N. \<forall>t\<in>set tys. \<not> can_yield (generate_inner env n t d') NoResult"
    and "\<And>n. \<forall>t\<in>set tys. \<not> can_yield (generate_inner env n t d') NoResult \<Longrightarrow> \<not> can_yield (generate_inner env (Suc n) ty d) NoResult"
  shows "ends_at env ty d"
proof -
  obtain N where "\<forall>n\<ge>N. \<forall>t\<in>set tys. \<not> can_yield (generate_inner env n t d') NoResult"
    using assms(1) by blast
  then have "\<not> can_yield (generate_inner env n ty d) NoResult" if "Suc N \<le> n" for n
    using assms(2)[of "n - 1"] that by (cases n) auto
  then show ?thesis
    unfolding ends_at_def by blast
qed

lemma draw_below: "0 < n \<Longrightarrow> v \<le> of_nat (n - 1) \<Longrightarrow> unat (v :: u64) < n"
proof -
  assume "0 < n" "v \<le> of_nat (n - 1)"
  then have "unat v \<le> unat (of_nat (n - 1) :: u64)"
    by (simp add: word_le_nat_alt)
  also have "\<dots> \<le> n - 1"
    by (simp add: unat_of_nat)
  finally show ?thesis
    using \<open>0 < n\<close> by simp
qed

lemma primitives_end:
  "\<not> can_yield gen_int NoResult" "\<not> can_yield (gen_float fl) NoResult" "\<not> can_yield gen_bool NoResult"
  "\<not> can_yield gen_string NoResult" "\<not> can_yield gen_char NoResult"
  "\<not> can_yield (gen_int_range mn mx) NoResult" "\<not> can_yield (gen_float_range fl mn mx) NoResult"
proof -
  have "unat idx < length INTERESTING_INTS" if "idx \<le> of_nat (length INTERESTING_INTS - 1)" for idx :: u64
    using draw_below[OF _ that] by (simp add: INTERESTING_INTS_def)
  then show "\<not> can_yield gen_int NoResult"
    by (auto simp: gen_int_def arena_get_def)
qed (auto simp: gen_float_def gen_bool_def gen_string_def gen_char_def gen_int_range_def gen_float_range_def Let_def chars_end)

lemma composites_end:
  "\<not> can_yield g NoResult \<Longrightarrow> \<not> can_yield (gen_option env g) NoResult"
  "\<not> can_yield g NoResult \<Longrightarrow> \<not> can_yield h NoResult \<Longrightarrow> \<not> can_yield (gen_result env g h) NoResult"
  "\<not> can_yield g NoResult \<Longrightarrow> \<not> can_yield (gen_list g) NoResult"
  "\<not> can_yield g NoResult \<Longrightarrow> \<not> can_yield h NoResult \<Longrightarrow> \<not> can_yield (gen_map g h) NoResult"
  by (auto simp: gen_option_def gen_result_def gen_list_def gen_map_def repeat_ends entries_end split: option.splits)

lemma record_ends:
  assumes "\<forall>t\<in>set (map snd flds). \<not> can_yield (rc t (d + 1)) NoResult"
  shows "\<not> can_yield (gen_record rc flds d) NoResult"
proof -
  have "\<not> can_yield (gen_each (map (\<lambda>(_, ty). rc ty (d + 1)) flds)) NoResult"
    using assms by (intro each_ends) auto
  then show ?thesis
    by (simp add: gen_record_def)
qed

text \<open>The parts of a definition that are generated one level deeper.\<close>

fun parts :: "TypeDefKind \<Rightarrow> TypeRef list" where
  "parts (AliasDef t) = []"
| "parts (RecordDef flds) = map snd flds"
| "parts (AdtDef variants) = concat (map v_fields variants)"

lemma user_ends:
  assumes "find_type_by_name env n = Some i" and "\<And>t. ti_kind (ge_types env ! i) \<noteq> AliasDef t"
    and "\<forall>t\<in>set (parts (ti_kind (ge_types env ! i))). \<not> can_yield (rc t (d + 1)) NoResult"
  shows "\<not> can_yield (gen_user_type env rc n d) NoResult"
proof -
  have i: "i < length (ge_types env)"
    using assms(1) position_length by (auto simp: find_type_by_name_def)
  show ?thesis
  proof (cases "ti_kind (ge_types env ! i)")
    case (AdtDef variants)
    have "\<not> can_yield (gen_each (map (\<lambda>ty. rc ty (d + 1)) (v_fields (variants ! k)))) NoResult" if "k < length variants" for k
      using assms(3) AdtDef that by (intro each_ends) auto
    then show ?thesis
      using assms(1) i AdtDef draw_below[of "length variants"] by (auto simp: gen_user_type_def arena_get_def)
  qed (use assms i record_ends[of _ rc d] in \<open>auto simp: gen_user_type_def arena_get_def\<close>)
qed

definition alias_rank :: "GenEnv \<Rightarrow> (TypeItemIdx \<Rightarrow> nat) \<Rightarrow> TypeRef \<Rightarrow> nat" where
  "alias_rank env rk ty =
     (case Option.bind (head_name ty) (find_type_by_name env) of None \<Rightarrow> 0 | Some j \<Rightarrow> Suc (rk j))"

lemma core_ends:
  assumes "core_path (ge_interner env n) args" and "\<forall>t\<in>set args. \<not> can_yield (rc t (d + 1)) NoResult"
  shows "\<not> can_yield (gen_path env rc n args d) NoResult"
proof -
  have "\<not> can_yield (rc (args ! k) (d + 1)) NoResult" if "k < length args" for k
    using assms(2) that by simp
  then show ?thesis
    using assms(1) unfolding core_path_def gen_path_def Let_def
    by (auto simp: primitives_end composites_end)
qed

lemma ends_at_level:
  assumes "aliases_end env rk" and "\<And>t. ends_at env t (d + 1)" and "d \<le> MAX_DEPTH"
  shows "ends_at env ty d"
proof (induction "alias_rank env rk ty" arbitrary: ty rule: less_induct)
  case less
  then show ?case
  proof (induction ty)
    case (TRPath p args)
    show ?case
    proof (cases "last_opt p")
      case None
      then show ?thesis
        using assms(3) by (intro ends_step[of "[]" env 0]) simp_all
    next
      case (Some n)
      note p = Some
      have step: "generate_inner env (Suc k) (TRPath p args) d = gen_path env (generate_inner env k) n args d" for k
        using p assms(3) by simp
      show ?thesis
      proof (cases "core_path (ge_interner env n) args")
        case True
        show ?thesis
          by (rule ends_step[of args env "d + 1"])
            (use assms(2) ends_all in blast, simp only: step core_ends[OF True] not_False_eq_True)
      next
        case False
        then have user: "gen_path env rc n args d = gen_user_type env rc n d" for rc
          by (auto simp: core_path_def gen_path_def Let_def)
        show ?thesis
        proof (cases "find_type_by_name env n")
          case None
          then show ?thesis
            by (intro ends_step[of "[]" env 0]) (simp, simp only: step user, simp add: gen_user_type_def)
        next
          case (Some i)
          then have i: "i < length (ge_types env)"
            using position_length by (auto simp: find_type_by_name_def)
          show ?thesis
          proof (cases "\<exists>t. ti_kind (ge_types env ! i) = AliasDef t")
            case True
            then obtain t where t: "ti_kind (ge_types env ! i) = AliasDef t" by blast
            have "alias_rank env rk t < alias_rank env rk (TRPath p args)"
              using assms(1) i t p Some by (auto simp: aliases_end_def alias_rank_def split: option.splits)
            then have "ends_at env t d"
              using TRPath.prems by blast
            moreover have "gen_user_type env rc n d = rc t d" for rc
              using Some i t by (simp add: gen_user_type_def arena_get_def)
            ultimately show ?thesis
              by (intro ends_step[of "[t]" env d] ends_all) (simp, simp only: step user, simp)
          next
            case False
            show ?thesis
              by (rule ends_step[of "parts (ti_kind (ge_types env ! i))" env "d + 1"])
                (use assms(2) ends_all in blast, use False user_ends[OF Some] in \<open>simp only: step user, blast\<close>)
          qed
        qed
      qed
    qed
  next
    case (TRRecord flds)
    show ?case
      by (rule ends_step[of "map snd flds" env "d + 1"])
        (use assms(2) ends_all in blast, use assms(3) record_ends[of flds] in simp)
  next
    case (TRRefined x base e)
    have "ends_at env base d"
      using TRRefined by (auto simp: alias_rank_def)
    then show ?case
      using assms(3) by (intro ends_step[of "[base]" env d] ends_all) simp_all
  qed (use assms(3) in \<open>intro ends_step[of "[]" env 0]; simp\<close>)+
qed

lemma generate_ends:
  assumes "aliases_end env rk"
  shows "ends_at env ty d"
proof (induction "MAX_DEPTH + 1 - d" arbitrary: ty d rule: less_induct)
  case less
  show ?case
  proof (cases "d \<le> MAX_DEPTH")
    case True
    show ?thesis
      by (rule ends_at_level[OF assms less True]) (use True in simp)
  qed (intro ends_step[of "[]" env 0]; simp)
qed

section \<open>Specifications\<close>

fun type_args :: "TypeRef \<Rightarrow> TypeRef list" where
  "type_args (TRPath _ args) = args"
| "type_args _ = []"

text \<open>
  What a generator specification promises about a value for a parameter of the declared type.  A float range
  is divided evenly by the drawn number.
\<close>

definition interpolated :: "FloatOps \<Rightarrow> 64 word \<Rightarrow> 64 word \<Rightarrow> 64 word \<Rightarrow> bool" where
  "interpolated fl mn mx x \<longleftrightarrow> \<not> f_gt fl mn mx \<and>
     (\<exists>raw\<le>U32_MAX. x = f_add fl mn (f_mul fl (f_div fl (f_of_u64 fl raw) (f_of_u64 fl U32_MAX)) (f_sub fl mx mn)))"

primrec spec_value :: "GenSpec \<Rightarrow> GenEnv \<Rightarrow> TypeItemIdx \<Rightarrow> TypeItemIdx \<Rightarrow> TypeRef \<Rightarrow> GenValue \<Rightarrow> bool" where
  "spec_value SpecAuto env opt res ty v = of_type env opt res v ty"
| "spec_value SpecInt env opt res ty v = (\<exists>i. v = GInt i)"
| "spec_value (SpecIntRange mn mx) env opt res ty v = (\<exists>i. v = GInt i \<and> sint mn \<le> sint i \<and> sint i \<le> sint mx)"
| "spec_value SpecFloat env opt res ty v = (\<exists>x. v = GFloat x)"
| "spec_value (SpecFloatRange mn mx) env opt res ty v = (\<exists>x. v = GFloat x \<and> interpolated (ge_floats env) mn mx x)"
| "spec_value SpecBool env opt res ty v = (\<exists>b. v = GBool b)"
| "spec_value SpecString env opt res ty v = (\<exists>s. v = GString s)"
| "spec_value SpecChar env opt res ty v = (\<exists>c. v = GChar c)"
| "spec_value (SpecList inner) env opt res ty v =
     (\<exists>vs. v = GList vs \<and> (\<forall>x\<in>set vs. spec_value inner env opt res (type_args ty ! 0) x))"
| "spec_value (SpecMap key val) env opt res ty v =
     (\<exists>es. v = GMap es \<and> distinct (map fst es) \<and>
        (\<forall>(k, x)\<in>set es. (\<exists>kv. gen_map_key kv = Some k \<and> spec_value key env opt res (type_args ty ! 0) kv) \<and>
           spec_value val env opt res (type_args ty ! 1) x))"
| "spec_value (SpecOptionOf inner) env opt res ty v =
     (v = GAdt opt 0 [] \<or> (\<exists>x. v = GAdt opt 1 [x] \<and> spec_value inner env opt res (type_args ty ! 0) x))"
| "spec_value (SpecResultOf ok err) env opt res ty v =
     ((\<exists>x. v = GAdt res 0 [x] \<and> spec_value ok env opt res (type_args ty ! 0) x) \<or>
      (\<exists>x. v = GAdt res 1 [x] \<and> spec_value err env opt res (type_args ty ! 1) x))"

text \<open>A specification that fits the declared type.\<close>

definition named :: "GenEnv \<Rightarrow> string \<Rightarrow> nat \<Rightarrow> TypeRef \<Rightarrow> bool" where
  "named env s k ty \<longleftrightarrow>
     (case ty of
        TRPath path args \<Rightarrow> (case last_opt path of None \<Rightarrow> False | Some n \<Rightarrow> ge_interner env n = s \<and> (k = 0 \<or> length args = k))
      | _ \<Rightarrow> False)"

primrec spec_fits :: "GenSpec \<Rightarrow> GenEnv \<Rightarrow> TypeRef \<Rightarrow> bool" where
  "spec_fits SpecAuto env ty = True"
| "spec_fits SpecInt env ty = named env ''Int'' 0 ty"
| "spec_fits (SpecIntRange mn mx) env ty = named env ''Int'' 0 ty"
| "spec_fits SpecFloat env ty = named env ''Float'' 0 ty"
| "spec_fits (SpecFloatRange mn mx) env ty = named env ''Float'' 0 ty"
| "spec_fits SpecBool env ty = named env ''Bool'' 0 ty"
| "spec_fits SpecString env ty = named env ''String'' 0 ty"
| "spec_fits SpecChar env ty = named env ''Char'' 0 ty"
| "spec_fits (SpecList inner) env ty = (named env ''List'' 1 ty \<and> spec_fits inner env (type_args ty ! 0))"
| "spec_fits (SpecMap key val) env ty =
     (named env ''Map'' 2 ty \<and> spec_fits key env (type_args ty ! 0) \<and> spec_fits val env (type_args ty ! 1))"
| "spec_fits (SpecOptionOf inner) env ty = (named env ''Option'' 1 ty \<and> spec_fits inner env (type_args ty ! 0))"
| "spec_fits (SpecResultOf ok err) env ty =
     (named env ''Result'' 2 ty \<and> spec_fits ok env (type_args ty ! 0) \<and> spec_fits err env (type_args ty ! 1))"

lemma namedE:
  assumes "named env s k ty"
  obtains path args n where "ty = TRPath path args" "last_opt path = Some n" "ge_interner env n = s" "k = 0 \<or> length args = k"
  using assms by (auto simp: named_def split: TypeRef.splits option.splits)

lemma spec_value_of_type: "spec_value spec env opt res ty v \<Longrightarrow> spec_fits spec env ty \<Longrightarrow> of_type env opt res v ty"
proof (induction spec arbitrary: ty v)
  case (SpecList inner)
  then obtain path a n where "ty = TRPath path [a]" "last_opt path = Some n" "ge_interner env n = ''List''"
    by (auto elim!: namedE simp: length_Suc_conv)
  then show ?case
    using SpecList by (auto intro!: of_list)
next
  case (SpecMap key val)
  then obtain path a b n where "ty = TRPath path [a, b]" "last_opt path = Some n" "ge_interner env n = ''Map''"
    by (auto elim!: namedE simp: length_Suc_conv numeral_2_eq_2)
  then show ?case
    using SpecMap by (fastforce intro!: of_map)
next
  case (SpecOptionOf inner)
  then obtain path a n where "ty = TRPath path [a]" "last_opt path = Some n" "ge_interner env n = ''Option''"
    by (auto elim!: namedE simp: length_Suc_conv)
  then show ?case
    using SpecOptionOf by (auto intro: of_none of_some[simplified])
next
  case (SpecResultOf ok err)
  then obtain path a b n where "ty = TRPath path [a, b]" "last_opt path = Some n" "ge_interner env n = ''Result''"
    by (auto elim!: namedE simp: length_Suc_conv numeral_2_eq_2)
  then show ?case
    using SpecResultOf by (auto intro: of_ok of_err[simplified])
qed (auto elim!: namedE intro: of_type.intros)

lemma int_range_within:
  fixes mn mx off :: u64
  assumes "sint mn \<le> sint mx" and "off \<le> mx - mn"
  shows "sint mn \<le> sint (mn + off)" and "sint (mn + off) \<le> sint mx"
proof -
  have bounds: "- (2 ^ 63) \<le> sint w" "sint w < 2 ^ 63" for w :: u64
    using sint_greater_eq[of w] sint_less[of w] by simp_all
  have "mx - mn = word_of_int (sint mx - sint mn)"
    by simp
  then have "uint (mx - mn) = (sint mx - sint mn) mod 2 ^ 64"
    by (simp only: uint_word_of_int) simp
  also have "\<dots> = sint mx - sint mn"
    using assms(1) bounds[of mx] bounds[of mn] by (intro mod_pos_pos_trivial) simp_all
  finally have off: "0 \<le> uint off" "uint off \<le> sint mx - sint mn"
    using assms(2) by (simp_all add: word_le_def)
  have "mn + off = word_of_int (sint mn + uint off)"
    by simp
  moreover have small: "sint (word_of_int k :: u64) = k" if "- (2 ^ 63) \<le> k" "k < 2 ^ 63" for k
    using that by (simp add: sint_sbintrunc' signed_take_bit_int_eq_self)
  moreover have "- (2 ^ 63) \<le> sint mn + uint off" "sint mn + uint off < 2 ^ 63"
    using off bounds[of mn] bounds[of mx] by linarith+
  ultimately have "sint (mn + off) = sint mn + uint off"
    by metis
  with off show "sint mn \<le> sint (mn + off)" "sint (mn + off) \<le> sint mx"
    by simp_all
qed

lemma spec_typed:
  assumes "lookups_ok env opt res"
  shows "can_yield (generate_from_spec spec env n ty) (GenOk v) \<Longrightarrow> spec_value spec env opt res ty v"
proof (induction spec arbitrary: ty v)
  case SpecAuto
  then show ?case
    using typed_callsD[OF generate_inner_typed[OF assms]] by (auto simp: generate_def)
next
  case (SpecIntRange mn mx)
  then obtain off where "\<not> sint mx < sint mn" "off \<le> mx - mn" "v = GInt (mn + off)"
    by (auto simp: gen_int_range_def split: if_splits)
  then show ?case
    using int_range_within[of mn mx off] by simp
next
  case (SpecList inner)
  then show ?case
    by (fastforce simp: with_arg_def dest!: can_yield_list split: TypeRef.splits list.splits)
next
  case (SpecMap key val)
  then show ?case
    by (fastforce simp: with_args_def dest!: can_yield_map split: TypeRef.splits list.splits)
next
  case (SpecOptionOf inner)
  then show ?case
    by (fastforce simp: with_arg_def dest!: can_yield_option[OF assms] split: TypeRef.splits list.splits)
next
  case (SpecResultOf ok err)
  then show ?case
    by (fastforce simp: with_args_def dest!: can_yield_result[OF assms] split: TypeRef.splits list.splits)
qed (auto simp: gen_int_def gen_float_def gen_bool_def gen_string_def gen_char_def gen_float_range_def Let_def
    interpolated_def split: if_splits option.splits)

lemma spec_ends:
  assumes "aliases_end env rk"
  shows "\<exists>N. \<forall>n\<ge>N. \<not> can_yield (generate_from_spec spec env n ty) NoResult"
proof (induction spec arbitrary: ty)
  case SpecAuto
  then show ?case
    using generate_ends[OF assms] by (simp add: generate_def ends_at_def)
next
  case (SpecList inner)
  obtain N where "\<forall>n\<ge>N. \<not> can_yield (generate_from_spec inner env n (type_args ty ! 0)) NoResult"
    using SpecList by blast
  then show ?case
    by (intro exI[of _ N]) (auto simp: with_arg_def composites_end split: TypeRef.splits list.splits)
next
  case (SpecOptionOf inner)
  obtain N where "\<forall>n\<ge>N. \<not> can_yield (generate_from_spec inner env n (type_args ty ! 0)) NoResult"
    using SpecOptionOf by blast
  then show ?case
    by (intro exI[of _ N]) (auto simp: with_arg_def composites_end split: TypeRef.splits list.splits)
next
  case (SpecMap key val)
  obtain N M where "\<forall>n\<ge>N. \<not> can_yield (generate_from_spec key env n (type_args ty ! 0)) NoResult"
      "\<forall>n\<ge>M. \<not> can_yield (generate_from_spec val env n (type_args ty ! 1)) NoResult"
    using SpecMap by blast
  then show ?case
    by (intro exI[of _ "max N M"]) (auto simp: with_args_def composites_end split: TypeRef.splits list.splits)
next
  case (SpecResultOf ok err)
  obtain N M where "\<forall>n\<ge>N. \<not> can_yield (generate_from_spec ok env n (type_args ty ! 0)) NoResult"
      "\<forall>n\<ge>M. \<not> can_yield (generate_from_spec err env n (type_args ty ! 1)) NoResult"
    using SpecResultOf by blast
  then show ?case
    by (intro exI[of _ "max N M"]) (auto simp: with_args_def composites_end split: TypeRef.splits list.splits)
qed (simp_all add: primitives_end)

lemma property_args_end:
  assumes "aliases_end env rk"
  shows "\<exists>N. \<forall>n\<ge>N. \<not> can_yield (generate_property_args env n params) NoResult"
proof -
  have "\<exists>N. \<forall>n\<ge>N. \<forall>(ty, spec)\<in>set params. \<not> can_yield (generate_from_spec spec env n ty) NoResult"
  proof (induction params)
    case (Cons ps params)
    obtain ty spec where ps: "ps = (ty, spec)" by (cases ps)
    obtain N M where "\<forall>n\<ge>N. \<forall>(ty, spec)\<in>set params. \<not> can_yield (generate_from_spec spec env n ty) NoResult"
        "\<forall>n\<ge>M. \<not> can_yield (generate_from_spec spec env n ty) NoResult"
      using Cons spec_ends[OF assms] by blast
    then show ?case
      unfolding ps by (intro exI[of _ "max N M"]) auto
  qed simp
  then obtain N where N: "\<forall>n\<ge>N. \<forall>(ty, spec)\<in>set params. \<not> can_yield (generate_from_spec spec env n ty) NoResult"
    by blast
  have "\<not> can_yield (generate_property_args env n params) NoResult" if "N \<le> n" for n
    unfolding generate_property_args_def using N that by (intro each_ends) auto
  then show ?thesis
    by blast
qed

lemma property_args_typed:
  assumes "lookups_ok env opt res" and "can_yield (generate_property_args env n params) (GenOk vs)"
  shows "list_all2 (\<lambda>(ty, spec) v. spec_value spec env opt res ty v \<and> (spec_fits spec env ty \<longrightarrow> of_type env opt res v ty)) params vs"
  using can_yield_each[OF assms(2)[unfolded generate_property_args_def]] spec_typed[OF assms(1)] spec_value_of_type
  by (fastforce simp: list_all2_conv_all_nth case_prod_unfold)

text \<open>
  C38. The arguments of a property are generated by a run that ends, when no alias leads back to itself:
  either some type is not supported, or every argument has the shape and the range that its generator
  specification promises, where a float range promises the number that divides the range as the drawn one
  divides the 32-bit numbers; the argument is a value of the declared type when it is generated from the
  type, and also when an explicit specification fits the declared type (the code does not check that it
  does).  Replaying the recorded choices generates the same arguments.  The constructors in scope must not
  be mistaken for those of \<open>Option\<close> and \<open>Result\<close>.
\<close>

theorem generated_arguments_replay:
  assumes "lookups_ok env opt res" and "aliases_end env rk" and "2 ^ 64 \<le> fuel"
  shows "\<exists>N. \<forall>n\<ge>N. \<exists>out log r.
    run_gen (recorder_draw fuel) (generate_property_args env n params) (recorder_new seed) = Some (Some out, log, r) \<and>
    run_gen replayer_draw (generate_property_args env n params) (replayer_new (into_sequence r)) =
      Some (Some out, log, \<lparr>rep_sequence = into_sequence r, rep_cursor = seq_len (into_sequence r)\<rparr>) \<and>
    (out = Unsupported \<or>
     (\<exists>vs. out = GenOk vs \<and> list_all2 (\<lambda>(ty, spec) v. spec_value spec env opt res ty v \<and> (spec_fits spec env ty \<longrightarrow> of_type env opt res v ty)) params vs))"
proof -
  obtain N where N: "\<forall>n\<ge>N. \<not> can_yield (generate_property_args env n params) NoResult"
    using property_args_end[OF assms(2)] by blast
  show ?thesis
  proof (intro exI[of _ N] allI impI)
    fix n assume "N \<le> n"
    obtain out log r where run: "run_gen (recorder_draw fuel) (generate_property_args env n params) (recorder_new seed) = Some (Some out, log, r)"
      and replay: "run_gen replayer_draw (generate_property_args env n params) (replayer_new (into_sequence r)) =
        Some (Some out, log, \<lparr>rep_sequence = into_sequence r, rep_cursor = seq_len (into_sequence r)\<rparr>)"
      using record_then_replay[OF assms(3), of "generate_property_args env n params" seed] by blast
    have "can_yield (generate_property_args env n params) out"
      using recorder.run_gen_can_yield[OF run] .
    then have "out = Unsupported \<or> (\<exists>vs. out = GenOk vs \<and> list_all2 (\<lambda>(ty, spec) v. spec_value spec env opt res ty v \<and> (spec_fits spec env ty \<longrightarrow> of_type env opt res v ty)) params vs)"
      using N \<open>N \<le> n\<close> property_args_typed[OF assms(1)] by (cases out) auto
    with run replay show "\<exists>out log r.
        run_gen (recorder_draw fuel) (generate_property_args env n params) (recorder_new seed) = Some (Some out, log, r) \<and>
        run_gen replayer_draw (generate_property_args env n params) (replayer_new (into_sequence r)) =
          Some (Some out, log, \<lparr>rep_sequence = into_sequence r, rep_cursor = seq_len (into_sequence r)\<rparr>) \<and>
        (out = Unsupported \<or>
         (\<exists>vs. out = GenOk vs \<and> list_all2 (\<lambda>(ty, spec) v. spec_value spec env opt res ty v \<and> (spec_fits spec env ty \<longrightarrow> of_type env opt res v ty)) params vs))"
      by blast
  qed
qed

text \<open>A scope with an alias of \<open>Int\<close>; name 0 is \<open>Int\<close>, name 1 the alias.\<close>

definition small_floats :: FloatOps where
  "small_floats = \<lparr>f_of_u64 = id, f_add = (+), f_sub = (-), f_mul = (*), f_div = (div), f_gt = (>)\<rparr>"

definition small_env :: GenEnv where
  "small_env = \<lparr>ge_types = [\<lparr>ti_name = 1, ti_type_params = [], ti_kind = AliasDef (TRPath [0] [])\<rparr>], ge_constructors = [],
     ge_interner = (\<lambda>n. if n = 0 then ''Int'' else ''Count''), ge_floats = small_floats\<rparr>"

theorem generated_arguments_replay_witness:
  "\<exists>N. \<forall>n\<ge>N. \<exists>out log r.
    run_gen (recorder_draw (2 ^ 64)) (generate_property_args small_env n [(TRPath [1] [], SpecAuto), (TRPath [0] [], SpecIntRange 1 6)])
      (recorder_new 7) = Some (Some out, log, r) \<and>
    run_gen replayer_draw (generate_property_args small_env n [(TRPath [1] [], SpecAuto), (TRPath [0] [], SpecIntRange 1 6)])
      (replayer_new (into_sequence r)) =
      Some (Some out, log, \<lparr>rep_sequence = into_sequence r, rep_cursor = seq_len (into_sequence r)\<rparr>) \<and>
    (out = Unsupported \<or>
     (\<exists>vs. out = GenOk vs \<and> list_all2 (\<lambda>(ty, spec) v. spec_value spec small_env 8 9 ty v \<and> (spec_fits spec small_env ty \<longrightarrow> of_type small_env 8 9 v ty))
        [(TRPath [1] [], SpecAuto), (TRPath [0] [], SpecIntRange 1 6)] vs))"
proof (rule generated_arguments_replay[where rk = "\<lambda>_. 0"])
  show "lookups_ok small_env 8 9"
    by (simp add: lookups_ok_def find_option_variants_def find_result_variants_def small_env_def)
  show "aliases_end small_env (\<lambda>_. 0)"
    by (simp add: aliases_end_def small_env_def last_opt_def find_type_by_name_def)
qed simp

section \<open>Options of the wrong type\<close>

lemma find_option_first: "ge_constructors env = (c, t, k) # cs \<Longrightarrow> find_option_variants env = Some (t, 0, 1)"
proof -
  have "fst (scan_constructors cs (Some info) some_info) = Some info" for cs info some_info
    by (induction cs "Some info" some_info rule: scan_constructors.induct) (auto split: prod.splits)
  then show "ge_constructors env = (c, t, k) # cs \<Longrightarrow> find_option_variants env = Some (t, 0, 1)"
    by (auto simp: find_option_variants_def case_prod_unfold)
qed

lemma generate_option:
  assumes "last_opt path = Some name" and "ge_interner env name = ''Option''"
  shows "generate env (Suc n) (TRPath path [ty]) = gen_option env (generate_inner env n ty 1)"
  using assms by (simp add: generate_def MAX_DEPTH_def gen_path_def)

text \<open>
  C39. Options are generated as values of whatever type the first constructor in scope belongs to: when that
  is a variant of an imported type \<open>t\<close>, the generator of \<open>Option<A>\<close> yields exactly the variant 0 of \<open>t\<close> with no
  field and the variant 1 of \<open>t\<close> with a generated \<open>A\<close>, whatever these variants are.  Without constructors in
  scope no option is ever generated, although the type counts as generatable.
\<close>

theorem options_of_imported_type:
  assumes "last_opt path = Some name" and "ge_interner env name = ''Option''"
  shows "(ge_constructors env = (c, t, k) # cs \<longrightarrow>
      (can_yield (generate env (Suc n) (TRPath path [ty])) (GenOk v) \<longleftrightarrow>
        v = GAdt t 0 [] \<or> (\<exists>x. v = GAdt t 1 [x] \<and> can_yield (generate_inner env n ty 1) (GenOk x)))) \<and>
    (ge_constructors env = [] \<longrightarrow>
      (is_generatable env (TRPath path [ty]) \<longleftrightarrow> is_generatable_inner env ty 1) \<and>
      \<not> can_yield (generate env (Suc n) (TRPath path [ty])) (GenOk v))"
proof (intro conjI impI)
  assume "ge_constructors env = (c, t, k) # cs"
  then have found: "find_option_variants env = Some (t, 0, 1)"
    by (rule find_option_first)
  show "can_yield (generate env (Suc n) (TRPath path [ty])) (GenOk v) \<longleftrightarrow>
        v = GAdt t 0 [] \<or> (\<exists>x. v = GAdt t 1 [x] \<and> can_yield (generate_inner env n ty 1) (GenOk x))"
    unfolding generate_option[OF assms] gen_option_def found
    by (auto intro: exI[of _ 0] exI[of _ 1] split: if_splits)
next
  show "is_generatable env (TRPath path [ty]) \<longleftrightarrow> is_generatable_inner env ty 1"
    unfolding is_generatable_def using assms by (subst is_generatable_inner.simps) (simp add: MAX_DEPTH_def del: is_generatable_inner.simps)
next
  assume "ge_constructors env = []"
  then show "\<not> can_yield (generate env (Suc n) (TRPath path [ty])) (GenOk v)"
    unfolding generate_option[OF assms] by (simp add: gen_option_def find_option_variants_def)
qed

text \<open>
  Name 0 is \<open>Option\<close>, name 1 \<open>Bool\<close>; type 0 is \<open>Option\<close>, type 1 a type of two colours, whose first variant
  has been imported.
\<close>

definition colour_env :: GenEnv where
  "colour_env = \<lparr>ge_types = [\<lparr>ti_name = 0, ti_type_params = [5], ti_kind = AdtDef [\<lparr>v_name = 6, v_fields = []\<rparr>, \<lparr>v_name = 7, v_fields = [TRPath [5] []]\<rparr>]\<rparr>,
       \<lparr>ti_name = 2, ti_type_params = [], ti_kind = AdtDef [\<lparr>v_name = 3, v_fields = []\<rparr>, \<lparr>v_name = 4, v_fields = []\<rparr>]\<rparr>],
     ge_constructors = [(3, 1, 0)],
     ge_interner = (\<lambda>n. if n = 0 then ''Option'' else if n = 1 then ''Bool'' else ''x''), ge_floats = small_floats\<rparr>"

theorem options_of_imported_type_witness:
  "can_yield (generate colour_env 2 (TRPath [0] [TRPath [1] []])) (GenOk (GAdt 1 0 [])) \<and>
   \<not> can_yield (generate colour_env 2 (TRPath [0] [TRPath [1] []])) (GenOk (GAdt 0 0 [])) \<and>
   \<not> can_yield (generate (colour_env\<lparr>ge_constructors := []\<rparr>) 2 (TRPath [0] [TRPath [1] []])) (GenOk (GAdt 0 0 []))"
proof -
  have name: "last_opt [0 :: Name] = Some 0" "ge_interner colour_env 0 = ''Option''"
      "ge_interner (colour_env\<lparr>ge_constructors := []\<rparr>) 0 = ''Option''"
      "ge_constructors colour_env = (3, 1, 0) # []" "ge_constructors (colour_env\<lparr>ge_constructors := []\<rparr>) = []"
    by (simp_all add: colour_env_def last_opt_def)
  show ?thesis
    using options_of_imported_type[OF name(1,2), of 3 1 0 "[]" 1 "TRPath [1] []" "GAdt 1 0 []"]
      options_of_imported_type[OF name(1,2), of 3 1 0 "[]" 1 "TRPath [1] []" "GAdt 0 0 []"]
      options_of_imported_type[OF name(1,3), of 3 1 0 "[]" 1 "TRPath [1] []" "GAdt 0 0 []"] name(4,5)
    by (simp add: numeral_2_eq_2)
qed

end
