(* ===== verification/Syntax_Kind.thy ===== *)
theory Syntax_Kind
  imports Prelude "HOL-Library.Word"
begin

unbundle bit_operations_syntax

text \<open>
  The token and node kinds of the grammar (\<open>parser/src/syntax_kind.rs\<close>), the classification
  functions on them, the recovery bitset (\<open>parser/src/token_set.rs\<close>) and the conversion to and
  from the tree library's raw kinds (\<open>syntax/src/language.rs\<close>).

  \<open>SyntaxKind\<close> is a field-less enum with \<open>#[repr(u16)]\<close> whose discriminants the code uses as
  numbers (as bit positions, as raw tree kinds, and back by transmutation).  The model keeps that
  representation: a kind is its discriminant, and every variant of the enum is a name for the
  discriminant the compiler gives it (its position, counted from \<open>Eof = 0\<close>).  The numbers up to
  \<open>LastKind\<close> (the source's \<open>__Last\<close>) are the values of the Rust type; \<open>valid_kind\<close> says so.
\<close>

section \<open>The enumeration\<close>

datatype SyntaxKind = SyntaxKind (kind_u16: nat)

abbreviation Eof :: SyntaxKind where "Eof \<equiv> SyntaxKind 0"
abbreviation Error :: SyntaxKind where "Error \<equiv> SyntaxKind 1"
abbreviation Whitespace :: SyntaxKind where "Whitespace \<equiv> SyntaxKind 2"
abbreviation LineComment :: SyntaxKind where "LineComment \<equiv> SyntaxKind 3"
abbreviation BlockComment :: SyntaxKind where "BlockComment \<equiv> SyntaxKind 4"
abbreviation IntLiteral :: SyntaxKind where "IntLiteral \<equiv> SyntaxKind 5"
abbreviation FloatLiteral :: SyntaxKind where "FloatLiteral \<equiv> SyntaxKind 6"
abbreviation StringLiteral :: SyntaxKind where "StringLiteral \<equiv> SyntaxKind 7"
abbreviation CharLiteral :: SyntaxKind where "CharLiteral \<equiv> SyntaxKind 8"
abbreviation Ident :: SyntaxKind where "Ident \<equiv> SyntaxKind 9"
abbreviation ModuleKw :: SyntaxKind where "ModuleKw \<equiv> SyntaxKind 10"
abbreviation FromKw :: SyntaxKind where "FromKw \<equiv> SyntaxKind 11"
abbreviation ImportKw :: SyntaxKind where "ImportKw \<equiv> SyntaxKind 12"
abbreviation AsKw :: SyntaxKind where "AsKw \<equiv> SyntaxKind 13"
abbreviation TypeKw :: SyntaxKind where "TypeKw \<equiv> SyntaxKind 14"
abbreviation TraitKw :: SyntaxKind where "TraitKw \<equiv> SyntaxKind 15"
abbreviation ImplKw :: SyntaxKind where "ImplKw \<equiv> SyntaxKind 16"
abbreviation DeriveKw :: SyntaxKind where "DeriveKw \<equiv> SyntaxKind 17"
abbreviation FnKw :: SyntaxKind where "FnKw \<equiv> SyntaxKind 18"
abbreviation LetKw :: SyntaxKind where "LetKw \<equiv> SyntaxKind 19"
abbreviation VarKw :: SyntaxKind where "VarKw \<equiv> SyntaxKind 20"
abbreviation MatchKw :: SyntaxKind where "MatchKw \<equiv> SyntaxKind 21"
abbreviation CapKw :: SyntaxKind where "CapKw \<equiv> SyntaxKind 22"
abbreviation EffectKw :: SyntaxKind where "EffectKw \<equiv> SyntaxKind 23"
abbreviation WithKw :: SyntaxKind where "WithKw \<equiv> SyntaxKind 24"
abbreviation RequiresKw :: SyntaxKind where "RequiresKw \<equiv> SyntaxKind 25"
abbreviation EnsuresKw :: SyntaxKind where "EnsuresKw \<equiv> SyntaxKind 26"
abbreviation InvariantKw :: SyntaxKind where "InvariantKw \<equiv> SyntaxKind 27"
abbreviation ContractKw :: SyntaxKind where "ContractKw \<equiv> SyntaxKind 28"
abbreviation PropertyKw :: SyntaxKind where "PropertyKw \<equiv> SyntaxKind 29"
abbreviation ForKw :: SyntaxKind where "ForKw \<equiv> SyntaxKind 30"
abbreviation InKw :: SyntaxKind where "InKw \<equiv> SyntaxKind 31"
abbreviation WhileKw :: SyntaxKind where "WhileKw \<equiv> SyntaxKind 32"
abbreviation BreakKw :: SyntaxKind where "BreakKw \<equiv> SyntaxKind 33"
abbreviation ContinueKw :: SyntaxKind where "ContinueKw \<equiv> SyntaxKind 34"
abbreviation AllKw :: SyntaxKind where "AllKw \<equiv> SyntaxKind 35"
abbreviation WhereKw :: SyntaxKind where "WhereKw \<equiv> SyntaxKind 36"
abbreviation OldKw :: SyntaxKind where "OldKw \<equiv> SyntaxKind 37"
abbreviation TrueKw :: SyntaxKind where "TrueKw \<equiv> SyntaxKind 38"
abbreviation FalseKw :: SyntaxKind where "FalseKw \<equiv> SyntaxKind 39"
abbreviation IfKw :: SyntaxKind where "IfKw \<equiv> SyntaxKind 40"
abbreviation ElseKw :: SyntaxKind where "ElseKw \<equiv> SyntaxKind 41"
abbreviation ReturnKw :: SyntaxKind where "ReturnKw \<equiv> SyntaxKind 42"
abbreviation PubKw :: SyntaxKind where "PubKw \<equiv> SyntaxKind 43"
abbreviation LParen :: SyntaxKind where "LParen \<equiv> SyntaxKind 44"
abbreviation RParen :: SyntaxKind where "RParen \<equiv> SyntaxKind 45"
abbreviation LBrace :: SyntaxKind where "LBrace \<equiv> SyntaxKind 46"
abbreviation RBrace :: SyntaxKind where "RBrace \<equiv> SyntaxKind 47"
abbreviation LBracket :: SyntaxKind where "LBracket \<equiv> SyntaxKind 48"
abbreviation RBracket :: SyntaxKind where "RBracket \<equiv> SyntaxKind 49"
abbreviation Comma :: SyntaxKind where "Comma \<equiv> SyntaxKind 50"
abbreviation Colon :: SyntaxKind where "Colon \<equiv> SyntaxKind 51"
abbreviation Semicolon :: SyntaxKind where "Semicolon \<equiv> SyntaxKind 52"
abbreviation Dot :: SyntaxKind where "Dot \<equiv> SyntaxKind 53"
abbreviation DotDotLt :: SyntaxKind where "DotDotLt \<equiv> SyntaxKind 54"
abbreviation Arrow :: SyntaxKind where "Arrow \<equiv> SyntaxKind 55"
abbreviation LeftArrow :: SyntaxKind where "LeftArrow \<equiv> SyntaxKind 56"
abbreviation FatArrow :: SyntaxKind where "FatArrow \<equiv> SyntaxKind 57"
abbreviation Eq :: SyntaxKind where "Eq \<equiv> SyntaxKind 58"
abbreviation EqEq :: SyntaxKind where "EqEq \<equiv> SyntaxKind 59"
abbreviation Bang :: SyntaxKind where "Bang \<equiv> SyntaxKind 60"
abbreviation BangEq :: SyntaxKind where "BangEq \<equiv> SyntaxKind 61"
abbreviation GtEq :: SyntaxKind where "GtEq \<equiv> SyntaxKind 62"
abbreviation LtEq :: SyntaxKind where "LtEq \<equiv> SyntaxKind 63"
abbreviation Gt :: SyntaxKind where "Gt \<equiv> SyntaxKind 64"
abbreviation Lt :: SyntaxKind where "Lt \<equiv> SyntaxKind 65"
abbreviation Plus :: SyntaxKind where "Plus \<equiv> SyntaxKind 66"
abbreviation Minus :: SyntaxKind where "Minus \<equiv> SyntaxKind 67"
abbreviation Star :: SyntaxKind where "Star \<equiv> SyntaxKind 68"
abbreviation Slash :: SyntaxKind where "Slash \<equiv> SyntaxKind 69"
abbreviation Pipe :: SyntaxKind where "Pipe \<equiv> SyntaxKind 70"
abbreviation PipeGt :: SyntaxKind where "PipeGt \<equiv> SyntaxKind 71"
abbreviation Amp :: SyntaxKind where "Amp \<equiv> SyntaxKind 72"
abbreviation Question :: SyntaxKind where "Question \<equiv> SyntaxKind 73"
abbreviation AmpAmp :: SyntaxKind where "AmpAmp \<equiv> SyntaxKind 74"
abbreviation PipePipe :: SyntaxKind where "PipePipe \<equiv> SyntaxKind 75"
abbreviation Percent :: SyntaxKind where "Percent \<equiv> SyntaxKind 76"
abbreviation Caret :: SyntaxKind where "Caret \<equiv> SyntaxKind 77"
abbreviation Tilde :: SyntaxKind where "Tilde \<equiv> SyntaxKind 78"
abbreviation LtLt :: SyntaxKind where "LtLt \<equiv> SyntaxKind 79"
abbreviation GtGt :: SyntaxKind where "GtGt \<equiv> SyntaxKind 80"
abbreviation Underscore :: SyntaxKind where "Underscore \<equiv> SyntaxKind 81"
abbreviation SourceFile :: SyntaxKind where "SourceFile \<equiv> SyntaxKind 82"
abbreviation ImportDecl :: SyntaxKind where "ImportDecl \<equiv> SyntaxKind 83"
abbreviation ImportMemberList :: SyntaxKind where "ImportMemberList \<equiv> SyntaxKind 84"
abbreviation ImportMember :: SyntaxKind where "ImportMember \<equiv> SyntaxKind 85"
abbreviation Path :: SyntaxKind where "Path \<equiv> SyntaxKind 86"
abbreviation ImportAlias :: SyntaxKind where "ImportAlias \<equiv> SyntaxKind 87"
abbreviation TypeDef :: SyntaxKind where "TypeDef \<equiv> SyntaxKind 88"
abbreviation TraitDef :: SyntaxKind where "TraitDef \<equiv> SyntaxKind 89"
abbreviation ImplDef :: SyntaxKind where "ImplDef \<equiv> SyntaxKind 90"
abbreviation FnDef :: SyntaxKind where "FnDef \<equiv> SyntaxKind 91"
abbreviation EffectDef :: SyntaxKind where "EffectDef \<equiv> SyntaxKind 92"
abbreviation PropertyDef :: SyntaxKind where "PropertyDef \<equiv> SyntaxKind 93"
abbreviation LetBinding :: SyntaxKind where "LetBinding \<equiv> SyntaxKind 94"
abbreviation VarBinding :: SyntaxKind where "VarBinding \<equiv> SyntaxKind 95"
abbreviation DeriveClause :: SyntaxKind where "DeriveClause \<equiv> SyntaxKind 96"
abbreviation TraitRef :: SyntaxKind where "TraitRef \<equiv> SyntaxKind 97"
abbreviation SupertraitList :: SyntaxKind where "SupertraitList \<equiv> SyntaxKind 98"
abbreviation TraitMethodSig :: SyntaxKind where "TraitMethodSig \<equiv> SyntaxKind 99"
abbreviation ImplMethodDef :: SyntaxKind where "ImplMethodDef \<equiv> SyntaxKind 100"
abbreviation RecordFieldList :: SyntaxKind where "RecordFieldList \<equiv> SyntaxKind 101"
abbreviation RecordField :: SyntaxKind where "RecordField \<equiv> SyntaxKind 102"
abbreviation VariantList :: SyntaxKind where "VariantList \<equiv> SyntaxKind 103"
abbreviation Variant :: SyntaxKind where "Variant \<equiv> SyntaxKind 104"
abbreviation VariantFieldList :: SyntaxKind where "VariantFieldList \<equiv> SyntaxKind 105"
abbreviation VariantField :: SyntaxKind where "VariantField \<equiv> SyntaxKind 106"
abbreviation ParamList :: SyntaxKind where "ParamList \<equiv> SyntaxKind 107"
abbreviation Param :: SyntaxKind where "Param \<equiv> SyntaxKind 108"
abbreviation ReturnType :: SyntaxKind where "ReturnType \<equiv> SyntaxKind 109"
abbreviation WithClause :: SyntaxKind where "WithClause \<equiv> SyntaxKind 110"
abbreviation ContractSection :: SyntaxKind where "ContractSection \<equiv> SyntaxKind 111"
abbreviation RequiresClause :: SyntaxKind where "RequiresClause \<equiv> SyntaxKind 112"
abbreviation EnsuresClause :: SyntaxKind where "EnsuresClause \<equiv> SyntaxKind 113"
abbreviation InvariantClause :: SyntaxKind where "InvariantClause \<equiv> SyntaxKind 114"
abbreviation TypeParamList :: SyntaxKind where "TypeParamList \<equiv> SyntaxKind 115"
abbreviation TypeParam :: SyntaxKind where "TypeParam \<equiv> SyntaxKind 116"
abbreviation TypeParamBoundList :: SyntaxKind where "TypeParamBoundList \<equiv> SyntaxKind 117"
abbreviation TypeArgList :: SyntaxKind where "TypeArgList \<equiv> SyntaxKind 118"
abbreviation NameType :: SyntaxKind where "NameType \<equiv> SyntaxKind 119"
abbreviation FnType :: SyntaxKind where "FnType \<equiv> SyntaxKind 120"
abbreviation RecordType :: SyntaxKind where "RecordType \<equiv> SyntaxKind 121"
abbreviation RefinedType :: SyntaxKind where "RefinedType \<equiv> SyntaxKind 122"
abbreviation LiteralExpr :: SyntaxKind where "LiteralExpr \<equiv> SyntaxKind 123"
abbreviation IdentExpr :: SyntaxKind where "IdentExpr \<equiv> SyntaxKind 124"
abbreviation PathExpr :: SyntaxKind where "PathExpr \<equiv> SyntaxKind 125"
abbreviation BinaryExpr :: SyntaxKind where "BinaryExpr \<equiv> SyntaxKind 126"
abbreviation UnaryExpr :: SyntaxKind where "UnaryExpr \<equiv> SyntaxKind 127"
abbreviation CallExpr :: SyntaxKind where "CallExpr \<equiv> SyntaxKind 128"
abbreviation NamedArg :: SyntaxKind where "NamedArg \<equiv> SyntaxKind 129"
abbreviation ArgList :: SyntaxKind where "ArgList \<equiv> SyntaxKind 130"
abbreviation FieldExpr :: SyntaxKind where "FieldExpr \<equiv> SyntaxKind 131"
abbreviation IndexExpr :: SyntaxKind where "IndexExpr \<equiv> SyntaxKind 132"
abbreviation PipelineExpr :: SyntaxKind where "PipelineExpr \<equiv> SyntaxKind 133"
abbreviation PropagateExpr :: SyntaxKind where "PropagateExpr \<equiv> SyntaxKind 134"
abbreviation MatchExpr :: SyntaxKind where "MatchExpr \<equiv> SyntaxKind 135"
abbreviation MatchArm :: SyntaxKind where "MatchArm \<equiv> SyntaxKind 136"
abbreviation MatchArmList :: SyntaxKind where "MatchArmList \<equiv> SyntaxKind 137"
abbreviation IfExpr :: SyntaxKind where "IfExpr \<equiv> SyntaxKind 138"
abbreviation WhileStmt :: SyntaxKind where "WhileStmt \<equiv> SyntaxKind 139"
abbreviation ForStmt :: SyntaxKind where "ForStmt \<equiv> SyntaxKind 140"
abbreviation AssignStmt :: SyntaxKind where "AssignStmt \<equiv> SyntaxKind 141"
abbreviation BreakStmt :: SyntaxKind where "BreakStmt \<equiv> SyntaxKind 142"
abbreviation ContinueStmt :: SyntaxKind where "ContinueStmt \<equiv> SyntaxKind 143"
abbreviation BlockExpr :: SyntaxKind where "BlockExpr \<equiv> SyntaxKind 144"
abbreviation RecordExpr :: SyntaxKind where "RecordExpr \<equiv> SyntaxKind 145"
abbreviation RecordExprField :: SyntaxKind where "RecordExprField \<equiv> SyntaxKind 146"
abbreviation RecordExprFieldList :: SyntaxKind where "RecordExprFieldList \<equiv> SyntaxKind 147"
abbreviation ReturnExpr :: SyntaxKind where "ReturnExpr \<equiv> SyntaxKind 148"
abbreviation HoleExpr :: SyntaxKind where "HoleExpr \<equiv> SyntaxKind 149"
abbreviation OldExpr :: SyntaxKind where "OldExpr \<equiv> SyntaxKind 150"
abbreviation ParenExpr :: SyntaxKind where "ParenExpr \<equiv> SyntaxKind 151"
abbreviation LambdaExpr :: SyntaxKind where "LambdaExpr \<equiv> SyntaxKind 152"
abbreviation IdentPat :: SyntaxKind where "IdentPat \<equiv> SyntaxKind 153"
abbreviation ConstructorPat :: SyntaxKind where "ConstructorPat \<equiv> SyntaxKind 154"
abbreviation WildcardPat :: SyntaxKind where "WildcardPat \<equiv> SyntaxKind 155"
abbreviation LiteralPat :: SyntaxKind where "LiteralPat \<equiv> SyntaxKind 156"
abbreviation RecordPat :: SyntaxKind where "RecordPat \<equiv> SyntaxKind 157"
abbreviation PatList :: SyntaxKind where "PatList \<equiv> SyntaxKind 158"
abbreviation PropertyParamList :: SyntaxKind where "PropertyParamList \<equiv> SyntaxKind 159"
abbreviation PropertyParam :: SyntaxKind where "PropertyParam \<equiv> SyntaxKind 160"
abbreviation WhereClause :: SyntaxKind where "WhereClause \<equiv> SyntaxKind 161"
abbreviation ForAllBinder :: SyntaxKind where "ForAllBinder \<equiv> SyntaxKind 162"
abbreviation ErrorNode :: SyntaxKind where "ErrorNode \<equiv> SyntaxKind 163"
abbreviation LastKind :: SyntaxKind where "LastKind \<equiv> SyntaxKind 164"

definition valid_kind :: "SyntaxKind \<Rightarrow> bool" where
  "valid_kind k \<longleftrightarrow> kind_u16 k \<le> kind_u16 LastKind"

text \<open>The name each variant prints under \<open>#[derive(Debug)]\<close>, used in error messages.\<close>

definition kind_names :: "string list" where
  "kind_names =
     [''Eof'', ''Error'', ''Whitespace'', ''LineComment'', ''BlockComment'', ''IntLiteral'',
      ''FloatLiteral'', ''StringLiteral'', ''CharLiteral'', ''Ident'', ''ModuleKw'',
      ''FromKw'', ''ImportKw'', ''AsKw'', ''TypeKw'', ''TraitKw'', ''ImplKw'', ''DeriveKw'',
      ''FnKw'', ''LetKw'', ''VarKw'', ''MatchKw'', ''CapKw'', ''EffectKw'', ''WithKw'',
      ''RequiresKw'', ''EnsuresKw'', ''InvariantKw'', ''ContractKw'', ''PropertyKw'',
      ''ForKw'', ''InKw'', ''WhileKw'', ''BreakKw'', ''ContinueKw'', ''AllKw'', ''WhereKw'',
      ''OldKw'', ''TrueKw'', ''FalseKw'', ''IfKw'', ''ElseKw'', ''ReturnKw'', ''PubKw'',
      ''LParen'', ''RParen'', ''LBrace'', ''RBrace'', ''LBracket'', ''RBracket'', ''Comma'',
      ''Colon'', ''Semicolon'', ''Dot'', ''DotDotLt'', ''Arrow'', ''LeftArrow'', ''FatArrow'',
      ''Eq'', ''EqEq'', ''Bang'', ''BangEq'', ''GtEq'', ''LtEq'', ''Gt'', ''Lt'', ''Plus'',
      ''Minus'', ''Star'', ''Slash'', ''Pipe'', ''PipeGt'', ''Amp'', ''Question'', ''AmpAmp'',
      ''PipePipe'', ''Percent'', ''Caret'', ''Tilde'', ''LtLt'', ''GtGt'', ''Underscore'',
      ''SourceFile'', ''ImportDecl'', ''ImportMemberList'', ''ImportMember'', ''Path'',
      ''ImportAlias'', ''TypeDef'', ''TraitDef'', ''ImplDef'', ''FnDef'', ''EffectDef'',
      ''PropertyDef'', ''LetBinding'', ''VarBinding'', ''DeriveClause'', ''TraitRef'',
      ''SupertraitList'', ''TraitMethodSig'', ''ImplMethodDef'', ''RecordFieldList'',
      ''RecordField'', ''VariantList'', ''Variant'', ''VariantFieldList'', ''VariantField'',
      ''ParamList'', ''Param'', ''ReturnType'', ''WithClause'', ''ContractSection'',
      ''RequiresClause'', ''EnsuresClause'', ''InvariantClause'', ''TypeParamList'',
      ''TypeParam'', ''TypeParamBoundList'', ''TypeArgList'', ''NameType'', ''FnType'',
      ''RecordType'', ''RefinedType'', ''LiteralExpr'', ''IdentExpr'', ''PathExpr'',
      ''BinaryExpr'', ''UnaryExpr'', ''CallExpr'', ''NamedArg'', ''ArgList'', ''FieldExpr'',
      ''IndexExpr'', ''PipelineExpr'', ''PropagateExpr'', ''MatchExpr'', ''MatchArm'',
      ''MatchArmList'', ''IfExpr'', ''WhileStmt'', ''ForStmt'', ''AssignStmt'', ''BreakStmt'',
      ''ContinueStmt'', ''BlockExpr'', ''RecordExpr'', ''RecordExprField'',
      ''RecordExprFieldList'', ''ReturnExpr'', ''HoleExpr'', ''OldExpr'', ''ParenExpr'',
      ''LambdaExpr'', ''IdentPat'', ''ConstructorPat'', ''WildcardPat'', ''LiteralPat'',
      ''RecordPat'', ''PatList'', ''PropertyParamList'', ''PropertyParam'', ''WhereClause'',
      ''ForAllBinder'', ''ErrorNode'', ''__Last'']"

definition kind_debug :: "SyntaxKind \<Rightarrow> string" where
  "kind_debug k = (if kind_u16 k < length kind_names then kind_names ! kind_u16 k else [])"

section \<open>Classification\<close>

definition is_trivia :: "SyntaxKind \<Rightarrow> bool" where
  "is_trivia k \<longleftrightarrow> k \<in> {Whitespace, LineComment, BlockComment}"

definition is_identifier_token :: "SyntaxKind \<Rightarrow> bool" where
  "is_identifier_token k \<longleftrightarrow> k \<in> {Ident, ModuleKw}"

definition is_keyword :: "SyntaxKind \<Rightarrow> bool" where
  "is_keyword k \<longleftrightarrow> k \<in> {FromKw, ImportKw, AsKw, TypeKw, TraitKw, ImplKw, DeriveKw, FnKw, LetKw, VarKw, MatchKw,
      CapKw, EffectKw, WithKw, RequiresKw, EnsuresKw, InvariantKw, ContractKw, PropertyKw,
      ForKw, InKw, WhileKw, BreakKw, ContinueKw, AllKw, WhereKw, OldKw, TrueKw, FalseKw, IfKw,
      ElseKw, ReturnKw, PubKw}"

definition is_literal :: "SyntaxKind \<Rightarrow> bool" where
  "is_literal k \<longleftrightarrow> k \<in> {IntLiteral, FloatLiteral, StringLiteral, CharLiteral}"

definition is_unary_prefix_operator :: "SyntaxKind \<Rightarrow> bool" where
  "is_unary_prefix_operator k \<longleftrightarrow> k \<in> {Bang, Minus, Tilde}"

definition is_binary_operator :: "SyntaxKind \<Rightarrow> bool" where
  "is_binary_operator k \<longleftrightarrow> k \<in> {Plus, Minus, Star, Slash, Percent, EqEq, BangEq, Lt, Gt, LtEq, GtEq, Amp, Pipe, Caret,
      LtLt, GtGt, DotDotLt, AmpAmp, PipePipe}"

definition keyword_table :: "(SyntaxKind \<times> string) list" where
  "keyword_table =
     [(FromKw, ''from''), (ImportKw, ''import''), (AsKw, ''as''), (TypeKw, ''type''),
      (TraitKw, ''trait''), (ImplKw, ''impl''), (DeriveKw, ''derive''), (FnKw, ''fn''),
      (LetKw, ''let''), (VarKw, ''var''), (MatchKw, ''match''), (CapKw, ''cap''),
      (EffectKw, ''effect''), (WithKw, ''with''), (RequiresKw, ''requires''),
      (EnsuresKw, ''ensures''), (InvariantKw, ''invariant''), (ContractKw, ''contract''),
      (PropertyKw, ''property''), (ForKw, ''for''), (InKw, ''in''), (WhileKw, ''while''),
      (BreakKw, ''break''), (ContinueKw, ''continue''), (AllKw, ''all''), (WhereKw, ''where''),
      (OldKw, ''old''), (TrueKw, ''true''), (FalseKw, ''false''), (IfKw, ''if''),
      (ElseKw, ''else''), (ReturnKw, ''return''), (PubKw, ''pub'')]"

definition keyword_text :: "SyntaxKind \<Rightarrow> string option" where
  "keyword_text k = map_of keyword_table k"

definition from_keyword_table :: "(string \<times> SyntaxKind) list" where
  "from_keyword_table =
     [(''module'', ModuleKw), (''from'', FromKw), (''import'', ImportKw), (''as'', AsKw),
      (''type'', TypeKw), (''trait'', TraitKw), (''impl'', ImplKw), (''derive'', DeriveKw),
      (''fn'', FnKw), (''let'', LetKw), (''var'', VarKw), (''match'', MatchKw),
      (''cap'', CapKw), (''effect'', EffectKw), (''with'', WithKw), (''requires'', RequiresKw),
      (''ensures'', EnsuresKw), (''invariant'', InvariantKw), (''contract'', ContractKw),
      (''property'', PropertyKw), (''for'', ForKw), (''in'', InKw), (''while'', WhileKw),
      (''break'', BreakKw), (''continue'', ContinueKw), (''where'', WhereKw), (''old'', OldKw),
      (''true'', TrueKw), (''false'', FalseKw), (''if'', IfKw), (''else'', ElseKw),
      (''return'', ReturnKw), (''pub'', PubKw)]"

definition from_keyword :: "string \<Rightarrow> SyntaxKind option" where
  "from_keyword s = map_of from_keyword_table s"

definition is_reserved_keyword_text :: "string \<Rightarrow> bool" where
  "is_reserved_keyword_text s =
     (case from_keyword s of None \<Rightarrow> False | Some k \<Rightarrow> is_keyword k)"

definition infix_binding_power :: "SyntaxKind \<Rightarrow> (nat \<times> nat) option" where
  "infix_binding_power k =
     (if k = PipeGt then Some (1, 2)
      else if k = DotDotLt then Some (2, 3)
      else if k = PipePipe then Some (3, 4)
      else if k = AmpAmp then Some (5, 6)
      else if k \<in> {EqEq, BangEq} then Some (7, 8)
      else if k \<in> {Lt, Gt, LtEq, GtEq} then Some (9, 10)
      else if k = Pipe then Some (11, 12)
      else if k = Caret then Some (13, 14)
      else if k = Amp then Some (15, 16)
      else if k \<in> {LtLt, GtGt} then Some (17, 18)
      else if k \<in> {Plus, Minus} then Some (19, 20)
      else if k \<in> {Star, Slash, Percent} then Some (21, 22)
      else None)"
section \<open>Recovery sets as bitsets\<close>

text \<open>
  \<open>TokenSet([u128; 2])\<close>.  The word index is in range for every kind of the Rust type
  (discriminants below 256); beyond it, where the array access would be out of bounds, the model
  leaves the set unchanged and answers \<open>False\<close>.
\<close>

type_synonym u128 = "128 word"

datatype TokenSet = TokenSet (ts_words: "u128 list")

definition ts_EMPTY :: TokenSet where
  "ts_EMPTY = TokenSet [0, 0]"

definition ts_with :: "TokenSet \<Rightarrow> SyntaxKind \<Rightarrow> TokenSet" where
  "ts_with s k =
     (let bit = kind_u16 k; word = bit div 128; offset = bit mod 128; inner = ts_words s
      in if word < length inner
         then TokenSet (inner[word := (inner ! word) OR push_bit offset 1])
         else s)"

definition ts_new :: "SyntaxKind list \<Rightarrow> TokenSet" where
  "ts_new kinds = foldl ts_with ts_EMPTY kinds"

definition ts_contains :: "TokenSet \<Rightarrow> SyntaxKind \<Rightarrow> bool" where
  "ts_contains s k =
     (let bit = kind_u16 k; word = bit div 128; offset = bit mod 128
      in word < length (ts_words s) \<and> (ts_words s ! word) AND push_bit offset 1 \<noteq> 0)"

definition ts_union :: "TokenSet \<Rightarrow> TokenSet \<Rightarrow> TokenSet" where
  "ts_union a b =
     TokenSet [ts_words a ! 0 OR ts_words b ! 0, ts_words a ! 1 OR ts_words b ! 1]"

section \<open>Raw kinds of the tree library\<close>

definition kind_to_raw :: "SyntaxKind \<Rightarrow> nat" where
  "kind_to_raw k = kind_u16 k"

definition kind_from_raw :: "nat \<Rightarrow> SyntaxKind option" where
  "kind_from_raw raw = (if raw < kind_u16 LastKind then Some (SyntaxKind raw) else None)"

section \<open>Lemmas on kinds\<close>

lemma length_kind_names: "length kind_names = Suc (kind_u16 LastKind)"
  by (simp add: kind_names_def)

lemma is_keyword_iff_keyword_text: "is_keyword k \<longleftrightarrow> keyword_text k \<noteq> None"
  by (auto simp: is_keyword_def keyword_text_def keyword_table_def)

lemma is_keyword_not_Eof: "is_keyword k \<Longrightarrow> k \<noteq> Eof"
  by (auto simp: is_keyword_def)

lemma is_identifier_token_not_Eof: "is_identifier_token k \<Longrightarrow> k \<noteq> Eof"
  by (auto simp: is_identifier_token_def)

lemma is_unary_prefix_operator_not_Eof: "is_unary_prefix_operator k \<Longrightarrow> k \<noteq> Eof"
  by (auto simp: is_unary_prefix_operator_def)

lemma infix_binding_power_not_Eof: "infix_binding_power k = Some b \<Longrightarrow> k \<noteq> Eof"
  by (auto simp: infix_binding_power_def)

lemmas kind_not_Eof =
  is_keyword_not_Eof is_identifier_token_not_Eof is_unary_prefix_operator_not_Eof
  infix_binding_power_not_Eof

lemma keyword_not_identifier: "is_keyword k \<Longrightarrow> \<not> is_identifier_token k"
  by (auto simp: is_keyword_def is_identifier_token_def)

subsection \<open>The bitset represents a set of kinds\<close>

definition ts_wf :: "TokenSet \<Rightarrow> bool" where
  "ts_wf s \<longleftrightarrow> length (ts_words s) = 2"

lemma and_exp_nonzero: "(w :: u128) AND 2 ^ n \<noteq> 0 \<longleftrightarrow> bit w n"
  by (simp add: and_exp_eq_0_iff_not_bit)

lemma bit_or_exp: "bit ((w :: u128) OR 2 ^ n) m \<longleftrightarrow> bit w m \<or> (m = n \<and> n < 128)"
  by (auto simp: bit_simps)

lemma ts_contains_bit:
  "ts_wf s \<Longrightarrow> ts_contains s k \<longleftrightarrow>
     kind_u16 k < 256 \<and> bit (ts_words s ! (kind_u16 k div 128)) (kind_u16 k mod 128)"
  by (auto simp: ts_contains_def ts_wf_def Let_def and_exp_nonzero)

lemma ts_wf_EMPTY [simp]: "ts_wf ts_EMPTY"
  by (simp add: ts_wf_def ts_EMPTY_def)

lemma ts_wf_with [simp]: "ts_wf s \<Longrightarrow> ts_wf (ts_with s k)"
  by (simp add: ts_wf_def ts_with_def Let_def)

lemma ts_wf_union [simp]: "ts_wf (ts_union a b)"
  by (simp add: ts_wf_def ts_union_def)

lemma ts_contains_EMPTY: "\<not> ts_contains ts_EMPTY k"
  by (auto simp: ts_contains_def ts_EMPTY_def Let_def less_2_cases_iff nth_Cons')

lemma div_mod_128_eq: "(a::nat) div 128 = b div 128 \<Longrightarrow> a mod 128 = b mod 128 \<Longrightarrow> a = b"
  by (metis div_mult_mod_eq)

lemma ts_words_with:
  assumes "ts_wf s" and "kind_u16 k < 256" and "i < 2"
  shows "ts_words (ts_with s k) ! i =
    (if i = kind_u16 k div 128 then (ts_words s ! i) OR 2 ^ (kind_u16 k mod 128) else ts_words s ! i)"
proof -
  have "length (ts_words s) = 2" using assms(1) by (simp add: ts_wf_def)
  moreover have "kind_u16 k div 128 < 2" using assms(2) by (simp add: less_mult_imp_div_less)
  ultimately show ?thesis using assms(3) by (simp add: ts_with_def Let_def)
qed

lemma ts_contains_with:
  assumes "ts_wf s" and "kind_u16 k < 256"
  shows "ts_contains (ts_with s k) j \<longleftrightarrow> ts_contains s j \<or> j = k"
proof (cases "kind_u16 j < 256")
  case True
  then have "kind_u16 j div 128 < 2" by (simp add: less_mult_imp_div_less)
  moreover have "kind_u16 j div 128 = kind_u16 k div 128 \<and> kind_u16 j mod 128 = kind_u16 k mod 128
      \<longleftrightarrow> j = k"
    by (metis div_mod_128_eq SyntaxKind.expand)
  ultimately show ?thesis
    using True assms by (auto simp: ts_contains_bit ts_words_with bit_or_exp)
next
  case False
  with assms show ?thesis by (auto simp: ts_contains_bit)
qed

lemma ts_contains_union:
  "ts_wf a \<Longrightarrow> ts_wf b \<Longrightarrow> ts_contains (ts_union a b) k \<longleftrightarrow> ts_contains a k \<or> ts_contains b k"
proof -
  assume w: "ts_wf a" "ts_wf b"
  have wu: "ts_wf (ts_union a b)" by simp
  show ?thesis
  proof (cases "kind_u16 k < 256")
    case True
    then have "kind_u16 k div 128 < 2" by (simp add: less_mult_imp_div_less)
    then have "kind_u16 k div 128 = 0 \<or> kind_u16 k div 128 = 1" by linarith
    with w wu True show ?thesis
      by (elim disjE) (simp_all add: ts_contains_bit ts_union_def bit_or_iff)
  next
    case False
    with w wu show ?thesis by (simp add: ts_contains_bit)
  qed
qed

text \<open>
  The interface the grammar uses: sets of kinds built once from a list, joined, and asked for
  membership.
\<close>

locale kind_set =
  fixes wf :: "'s \<Rightarrow> bool" and emp :: 's and add :: "'s \<Rightarrow> 'k \<Rightarrow> 's" and un :: "'s \<Rightarrow> 's \<Rightarrow> 's"
    and mem :: "'s \<Rightarrow> 'k \<Rightarrow> bool" and elem :: "'k \<Rightarrow> bool"
  assumes wf_emp: "wf emp"
    and wf_add: "wf s \<Longrightarrow> wf (add s k)"
    and wf_un: "wf s \<Longrightarrow> wf t \<Longrightarrow> wf (un s t)"
    and mem_emp: "\<not> mem emp k"
    and mem_add: "wf s \<Longrightarrow> elem k \<Longrightarrow> mem (add s k) j \<longleftrightarrow> mem s j \<or> j = k"
    and mem_un: "wf s \<Longrightarrow> wf t \<Longrightarrow> mem (un s t) k \<longleftrightarrow> mem s k \<or> mem t k"
begin

lemma wf_foldl: "wf s \<Longrightarrow> wf (foldl add s ks)"
  by (induction ks arbitrary: s) (simp_all add: wf_add)

lemma mem_foldl:
  "wf s \<Longrightarrow> \<forall>k\<in>set ks. elem k \<Longrightarrow> mem (foldl add s ks) j \<longleftrightarrow> mem s j \<or> j \<in> set ks"
  by (induction ks arbitrary: s) (auto simp: mem_add wf_add)

lemma mem_un_lists:
  "\<forall>k\<in>set ks. elem k \<Longrightarrow> \<forall>k\<in>set ls. elem k \<Longrightarrow>
   mem (un (foldl add emp ks) (foldl add emp ls)) j \<longleftrightarrow> j \<in> set ks \<union> set ls"
  by (simp add: mem_un wf_foldl wf_emp mem_foldl mem_emp)

end

interpretation ts: kind_set ts_wf ts_EMPTY ts_with ts_union ts_contains "\<lambda>k. kind_u16 k < 256"
  by unfold_locales (simp_all add: ts_contains_EMPTY ts_contains_with ts_contains_union)

lemma ts_contains_new:
  "\<forall>k\<in>set ks. kind_u16 k < 256 \<Longrightarrow> ts_contains (ts_new ks) j \<longleftrightarrow> j \<in> set ks"
  by (simp add: ts_new_def ts.mem_foldl ts_contains_EMPTY)

end
