(* ===== verification/Parser_Core.thy ===== *)
theory Parser_Core
  imports Syntax_Kind
begin

text \<open>
  The parser engine (\<open>parser/src/parser.rs\<close>) with its token source (\<open>input.rs\<close>) and its output
  (\<open>event.rs\<close>): token inspection and consumption, node markers, error recovery.

  A \<open>Parser\<close> value is threaded through every operation as the source threads \<open>&mut Parser\<close>.
  Operations that can panic return \<open>option\<close>: \<open>bump\<close> asserts that the input is not exhausted,
  \<open>Marker::complete\<close>, \<open>abandon\<close> and \<open>precede\<close> assert that the event they patch is a start event,
  the keyword diagnostic expects a keyword.  Loops run under the bound \<open>Suc (remaining p)\<close>; the
  theory \<open>Parser_Engine\<close> shows that no loop reaches it.  Event indices, \<open>u32\<close> in the source, are
  natural numbers.
\<close>

section \<open>Events\<close>

datatype Event =
    StartNode SyntaxKind "nat option"
  | FinishNode
  | Token SyntaxKind nat
  | Error string
  | Tombstone

section \<open>Token input\<close>

record Input =
  raw_kinds :: "SyntaxKind list"
  non_trivia_to_raw :: "nat list"
  line_break_before_non_trivia :: "bool list"

definition new_with_line_breaks :: "SyntaxKind list \<Rightarrow> bool list \<Rightarrow> Input option" where
  "new_with_line_breaks raws line_breaks =
     (let to_raw = map fst (filter (\<lambda>(i, k). \<not> is_trivia k) (enumerate 0 raws))
      in if length to_raw = length line_breaks
         then Some \<lparr>raw_kinds = raws, non_trivia_to_raw = to_raw,
                    line_break_before_non_trivia = line_breaks\<rparr>
         else None)"

definition input_new :: "SyntaxKind list \<Rightarrow> Input option" where
  "input_new raws =
     new_with_line_breaks raws (replicate (length (filter (\<lambda>k. \<not> is_trivia k) raws)) False)"

definition input_kind :: "Input \<Rightarrow> nat \<Rightarrow> SyntaxKind" where
  "input_kind i index =
     (if index < length (non_trivia_to_raw i) then raw_kinds i ! (non_trivia_to_raw i ! index)
      else Eof)"

definition input_len :: "Input \<Rightarrow> nat" where
  "input_len i = length (non_trivia_to_raw i)"

definition line_break_before :: "Input \<Rightarrow> nat \<Rightarrow> bool" where
  "line_break_before i index =
     (if index < length (line_break_before_non_trivia i)
      then line_break_before_non_trivia i ! index else False)"

definition raw_index :: "Input \<Rightarrow> nat \<Rightarrow> nat option" where
  "raw_index i index =
     (if index < length (non_trivia_to_raw i) then Some (non_trivia_to_raw i ! index) else None)"

section \<open>Parser state\<close>

type_synonym u32 = "32 word"

record ParseError =
  message :: string
  range_start :: u32
  range_end :: u32
  err_token_pos :: nat

datatype IdentifierRole =
    PathSegment | ImportAliasName | TypeName | VariantName | FunctionName | MethodName
  | EffectName | PropertyName | TypeParameterName | ParameterName | LocalBindingName
  | FieldName | ArgumentName | PatternName | ExpressionName

fun description :: "IdentifierRole \<Rightarrow> string" where
  "description PathSegment = ''a path segment''"
| "description ImportAliasName = ''an import alias''"
| "description TypeName = ''a type name''"
| "description VariantName = ''a variant name''"
| "description FunctionName = ''a function name''"
| "description MethodName = ''a method name''"
| "description EffectName = ''an effect name''"
| "description PropertyName = ''a property name''"
| "description TypeParameterName = ''a type parameter name''"
| "description ParameterName = ''a parameter name''"
| "description LocalBindingName = ''a local binding name''"
| "description FieldName = ''a field name''"
| "description ArgumentName = ''an argument name''"
| "description PatternName = ''a pattern name''"
| "description ExpressionName = ''an expression name''"

record Parser =
  input :: Input
  pos :: nat
  pending_virtual_gt :: nat
  events :: "Event list"
  errors :: "ParseError list"

text \<open>\<open>Marker\<close> and \<open>CompletedMarker\<close> both hold the index of a start event.\<close>

type_synonym Marker = nat
type_synonym CompletedMarker = nat

definition parser_new :: "Input \<Rightarrow> Parser" where
  "parser_new i =
     \<lparr>input = i, pos = 0, pending_virtual_gt = 0, events = [], errors = []\<rparr>"

definition finish :: "Parser \<Rightarrow> Event list \<times> ParseError list" where
  "finish p = (events p, errors p)"

section \<open>Token inspection\<close>

definition nth_kind :: "Parser \<Rightarrow> nat \<Rightarrow> SyntaxKind" where
  "nth_kind p n =
     (if 0 < pending_virtual_gt p
      then if n = 0 then Gt else input_kind (input p) (pos p + n - 1)
      else input_kind (input p) (pos p + n))"

definition current :: "Parser \<Rightarrow> SyntaxKind" where
  "current p = nth_kind p 0"

definition at :: "SyntaxKind \<Rightarrow> Parser \<Rightarrow> bool" where
  "at k p \<longleftrightarrow> current p = k"

definition at_ident_like :: "Parser \<Rightarrow> bool" where
  "at_ident_like p \<longleftrightarrow> is_identifier_token (current p) \<or> is_keyword (current p)"

definition current_after_pub :: "Parser \<Rightarrow> SyntaxKind" where
  "current_after_pub p = nth_kind p 1"

definition at_set :: "TokenSet \<Rightarrow> Parser \<Rightarrow> bool" where
  "at_set s p \<longleftrightarrow> ts_contains s (current p)"

definition at_eof :: "Parser \<Rightarrow> bool" where
  "at_eof p \<longleftrightarrow> pending_virtual_gt p = 0 \<and> input_len (input p) \<le> pos p"

definition token_pos :: "Parser \<Rightarrow> nat" where
  "token_pos p = (if 0 < pending_virtual_gt p then pos p - 1 else pos p)"

definition has_line_break_before_current :: "Parser \<Rightarrow> bool" where
  "has_line_break_before_current p =
     (if 0 < pending_virtual_gt p then False else line_break_before (input p) (pos p))"

text \<open>
  What is left to consume: every raw token counts two, a pending half of a split \<open>>>\<close> counts one.
  It bounds the loops of the parser.
\<close>

definition remaining :: "Parser \<Rightarrow> nat" where
  "remaining p = 2 * (input_len (input p) - pos p) + pending_virtual_gt p"

definition loop_p :: "(Parser \<Rightarrow> (Parser \<times> bool) option) \<Rightarrow> Parser \<Rightarrow> Parser option" where
  "loop_p step p = loop_upto (Suc (remaining p)) step p"

definition loop_with ::
  "('a \<times> Parser \<Rightarrow> (('a \<times> Parser) \<times> bool) option) \<Rightarrow> 'a \<times> Parser \<Rightarrow> ('a \<times> Parser) option" where
  "loop_with step s = loop_upto (Suc (remaining (snd s))) step s"

section \<open>Markers and errors\<close>

definition open_node :: "Parser \<Rightarrow> Marker \<times> Parser" where
  "open_node p = (length (events p), p\<lparr>events := events p @ [StartNode ErrorNode None]\<rparr>)"

definition complete :: "Marker \<Rightarrow> SyntaxKind \<Rightarrow> Parser \<Rightarrow> (CompletedMarker \<times> Parser) option" where
  "complete m kind p =
     (if m < length (events p) then
        (case events p ! m of
           StartNode _ fp \<Rightarrow>
             Some (m, p\<lparr>events := (events p)[m := StartNode kind fp] @ [FinishNode]\<rparr>)
         | _ \<Rightarrow> None)
      else None)"

definition abandon :: "Marker \<Rightarrow> Parser \<Rightarrow> Parser option" where
  "abandon m p =
     (if events p = [] then None
      else if m = length (events p) - 1 then
        (case last (events p) of
           StartNode _ _ \<Rightarrow> Some (p\<lparr>events := butlast (events p)\<rparr>)
         | _ \<Rightarrow> None)
      else if m < length (events p) then Some (p\<lparr>events := (events p)[m := Tombstone]\<rparr>)
      else None)"

definition precede :: "CompletedMarker \<Rightarrow> Parser \<Rightarrow> (Marker \<times> Parser) option" where
  "precede cm p =
     (let new_pos = length (events p); evs = events p @ [StartNode ErrorNode None]
      in if cm < length evs then
           (case evs ! cm of
              StartNode k _ \<Rightarrow>
                Some (new_pos, p\<lparr>events := evs[cm := StartNode k (Some (new_pos - cm))]\<rparr>)
            | _ \<Rightarrow> None)
         else None)"

definition error :: "string \<Rightarrow> Parser \<Rightarrow> Parser" where
  "error msg p =
     p\<lparr>events := events p @ [Error msg],
       errors := errors p @
         [\<lparr>message = msg, range_start = 0, range_end = 0, err_token_pos = pos p\<rparr>]\<rparr>"

section \<open>Token consumption\<close>

definition do_bump :: "SyntaxKind \<Rightarrow> Parser \<Rightarrow> Parser" where
  "do_bump kind p = p\<lparr>events := events p @ [Token kind 1], pos := pos p + 1\<rparr>"

definition bump :: "Parser \<Rightarrow> Parser option" where
  "bump p =
     (if 0 < pending_virtual_gt p then Some (p\<lparr>pending_virtual_gt := pending_virtual_gt p - 1\<rparr>)
      else if at_eof p then None
      else Some (do_bump (current p) p))"

definition eat :: "SyntaxKind \<Rightarrow> Parser \<Rightarrow> (bool \<times> Parser) option" where
  "eat kind p = (if at kind p then do { p \<leftarrow> bump p; Some (True, p) } else Some (False, p))"

definition error_recover :: "string \<Rightarrow> TokenSet \<Rightarrow> Parser \<Rightarrow> Parser option" where
  "error_recover msg recovery p =
     (if at_eof p \<or> at RBrace p \<or> ts_contains recovery (current p) then (let p = error msg p in Some p)
      else do {
        let (m, p) = open_node p;
        let p = error msg p;
        p \<leftarrow> bump p;
        (_, p) \<leftarrow> complete m ErrorNode p;
        Some p
      })"

definition expect :: "SyntaxKind \<Rightarrow> Parser \<Rightarrow> (bool \<times> Parser) option" where
  "expect kind p = do {
     (b, p) \<leftarrow> eat kind p;
     if b then Some (True, p)
     else do {
       p \<leftarrow> error_recover (''expected '' @ kind_debug kind) ts_EMPTY p;
       Some (False, p)
     }
   }"

definition error_keyword_as_identifier :: "IdentifierRole \<Rightarrow> Parser \<Rightarrow> Parser option" where
  "error_keyword_as_identifier role p = do {
     keyword \<leftarrow> keyword_text (current p);
     let (err, p) = open_node p;
     let p = error (''reserved keyword `'' @ keyword @ ''` cannot be used as ''
                    @ description role) p;
     p \<leftarrow> bump p;
     (_, p) \<leftarrow> complete err ErrorNode p;
     Some p
   }"

definition expect_identifier_recover ::
  "IdentifierRole \<Rightarrow> TokenSet \<Rightarrow> Parser \<Rightarrow> (bool \<times> Parser) option" where
  "expect_identifier_recover role recovery p =
     (if is_identifier_token (current p) then do { p \<leftarrow> bump p; Some (True, p) }
      else if is_keyword (current p) then do {
        p \<leftarrow> error_keyword_as_identifier role p;
        Some (False, p)
      }
      else do {
        p \<leftarrow> error_recover ''expected Ident'' recovery p;
        Some (False, p)
      })"

definition expect_identifier :: "IdentifierRole \<Rightarrow> Parser \<Rightarrow> (bool \<times> Parser) option" where
  "expect_identifier role p = expect_identifier_recover role ts_EMPTY p"

definition eat_type_arg_rangle :: "Parser \<Rightarrow> (bool \<times> Parser) option" where
  "eat_type_arg_rangle p = do {
     (b, p) \<leftarrow> eat Gt p;
     if b then Some (True, p)
     else if at GtGt p then do {
       p \<leftarrow> bump p;
       Some (True, p\<lparr>pending_virtual_gt := min 255 (pending_virtual_gt p + 1)\<rparr>)
     }
     else Some (False, p)
   }"

definition expect_type_arg_rangle :: "Parser \<Rightarrow> (bool \<times> Parser) option" where
  "expect_type_arg_rangle p = do {
     (b, p) \<leftarrow> eat_type_arg_rangle p;
     if b then Some (True, p)
     else do {
       p \<leftarrow> error_recover ''expected Gt'' ts_EMPTY p;
       Some (False, p)
     }
   }"

text \<open>
  The loop \<open>while p.eat(sep) { if stop(p) { break; } body(p) }\<close>, which the grammar uses for every
  separated list.
\<close>

definition while_eat ::
  "SyntaxKind \<Rightarrow> (Parser \<Rightarrow> bool) \<Rightarrow> (Parser \<Rightarrow> Parser option) \<Rightarrow> Parser \<Rightarrow> Parser option" where
  "while_eat sep stop body = loop_p (\<lambda>p. do {
     (b, p) \<leftarrow> eat sep p;
     if \<not> b \<or> stop p then Some (p, False)
     else do { p \<leftarrow> body p; Some (p, True) }
   })"

text \<open>
  The progress check of the loops over match arms and items:
  \<open>if p.token_pos() == start_pos && !p.at_eof() { p.bump(); }\<close>.
\<close>

definition force_progress :: "nat \<Rightarrow> Parser \<Rightarrow> Parser option" where
  "force_progress start_pos p =
     (if token_pos p = start_pos \<and> \<not> at_eof p then bump p else Some p)"

section \<open>Recovery of unparenthesised heads\<close>

definition looks_like_record_literal_brace :: "Parser \<Rightarrow> bool" where
  "looks_like_record_literal_brace p \<longleftrightarrow>
     at LBrace p \<and> is_identifier_token (nth_kind p 1) \<and> nth_kind p 2 = Colon"

definition skip_balanced_braces_step ::
  "nat \<times> Parser \<Rightarrow> ((nat \<times> Parser) \<times> bool) option" where
  "skip_balanced_braces_step = (\<lambda>(depth, p).
     if at_eof p then Some ((depth, p), False)
     else do {
       let pos0 = pos p;
       if current p = LBrace then do {
         p \<leftarrow> bump p;
         Some ((depth + 1, p), pos p \<noteq> pos0)
       }
       else if current p = RBrace then do {
         p \<leftarrow> bump p;
         if depth - 1 = 0 then Some ((depth - 1, p), False)
         else Some ((depth - 1, p), pos p \<noteq> pos0)
       }
       else do {
         p \<leftarrow> bump p;
         Some ((depth, p), pos p \<noteq> pos0)
       }
     })"

definition skip_balanced_braces :: "Parser \<Rightarrow> Parser option" where
  "skip_balanced_braces p =
     (if \<not> at LBrace p then Some p
      else do { (_, p) \<leftarrow> loop_with skip_balanced_braces_step (0, p); Some p })"

type_synonym head_state = "bool \<times> SyntaxKind option"

definition recover_head_step ::
  "TokenSet \<Rightarrow> head_state \<times> Parser \<Rightarrow> ((head_state \<times> Parser) \<times> bool) option" where
  "recover_head_step recovery = (\<lambda>((consumed_any, prev_kind), p).
     if at_eof p then Some (((consumed_any, prev_kind), p), False)
     else do {
       let cur = current p;
       if ts_contains recovery cur then
         if cur = LBrace
            \<and> (case prev_kind of None \<Rightarrow> False | Some k \<Rightarrow> is_identifier_token k)
            \<and> looks_like_record_literal_brace p
         then do {
           p \<leftarrow> skip_balanced_braces p;
           Some (((True, Some RBrace), p), True)
         }
         else Some (((consumed_any, prev_kind), p), False)
       else do {
         let pos0 = pos p;
         p \<leftarrow> bump p;
         Some (((True, Some cur), p), pos p \<noteq> pos0)
       }
     })"

definition recover_parenthesized_head_content :: "TokenSet \<Rightarrow> Parser \<Rightarrow> Parser option" where
  "recover_parenthesized_head_content recovery p =
     (if at_eof p then Some p
      else do {
        let (m, p) = open_node p;
        ((consumed_any, _), p) \<leftarrow> loop_with (recover_head_step recovery) ((False, None), p);
        if consumed_any then do { (_, p) \<leftarrow> complete m ErrorNode p; Some p }
        else abandon m p
      })"

definition error_recover_parenthesized_head :: "string \<Rightarrow> TokenSet \<Rightarrow> Parser \<Rightarrow> Parser option" where
  "error_recover_parenthesized_head msg recovery p =
     (let p = error msg p in recover_parenthesized_head_content recovery p)"

end
