(* ===== verification/Parser_Engine.thy ===== *)
theory Parser_Engine
  imports Parser_Core
begin

text \<open>
  The contract of the parser engine.

  \<^item> \<open>scan\<close> replays an event stream and returns the stack of start events that are not finished
    yet; it fails on a finish event without a start.  \<open>stk b p\<close> is that stack for the events of
    \<open>p\<close> from index \<open>b\<close> on.
  \<^item> \<open>ok b p\<close> is the state invariant: the position is in range, at most one half of a split \<open>>>\<close>
    is pending, the token events are exactly the tokens consumed so far, in order, and the errors
    are those of the error events, at ascending positions.
  \<^item> \<open>st b p0 ms c p\<close> relates a state \<open>p\<close> to the state \<open>p0\<close> the current grammar function was
    entered with: \<open>p\<close> is \<open>ok\<close>, its open markers are exactly \<open>ms\<close>, nothing below \<open>b\<close> has changed,
    no token has been given back and, when \<open>c\<close> holds, at least one has been consumed.
  \<^item> The collection \<open>pwp\<close> holds one weakest-precondition rule per operation of the engine.
    Each consumes an \<open>st\<close> fact and gives the one of the next state, so that a
    grammar function is verified by running the rules along its text.
\<close>

named_theorems pwp \<open>weakest-precondition rules of the parser operations\<close>

section \<open>Scanning event streams\<close>

fun scan :: "nat \<Rightarrow> nat list \<Rightarrow> Event list \<Rightarrow> nat list option" where
  "scan i s [] = Some s"
| "scan i s (StartNode k fp # es) = scan (Suc i) (i # s) es"
| "scan i s (FinishNode # es) = (case s of [] \<Rightarrow> None | _ # s' \<Rightarrow> scan (Suc i) s' es)"
| "scan i s (Token k n # es) = scan (Suc i) s es"
| "scan i s (Error msg # es) = scan (Suc i) s es"
| "scan i s (Tombstone # es) = scan (Suc i) s es"

fun is_start :: "Event \<Rightarrow> bool" where
  "is_start (StartNode k fp) = True"
| "is_start e = False"

lemma is_start_iff: "is_start e \<longleftrightarrow> (\<exists>k fp. e = StartNode k fp)"
  by (cases e) auto

lemma scan_append:
  "scan i s (xs @ ys) = Option.bind (scan i s xs) (\<lambda>s'. scan (i + length xs) s' ys)"
  by (induction i s xs rule: scan.induct) (auto split: list.splits)

lemma scan_update_start:
  "j < length xs \<Longrightarrow> is_start (xs ! j) \<Longrightarrow> scan i s (xs[j := StartNode k fp]) = scan i s xs"
proof (induction i s xs arbitrary: j rule: scan.induct)
  case (2 i s k' fp' es)
  then show ?case by (cases j) simp_all
next
  case (3 i s es)
  then show ?case by (cases j) (auto split: list.splits)
qed (auto simp: nth_Cons split: nat.splits)

text \<open>An open start event can be turned into a tombstone: it just leaves the stack.\<close>

lemma scan_open_start:
  assumes "scan i s xs = Some (as @ m # bs)" and "i \<le> m" and "\<forall>x\<in>set s. x < i"
  shows "m - i < length xs \<and> is_start (xs ! (m - i))
    \<and> scan i s (xs[m - i := Tombstone]) = Some (as @ bs)"
  using assms
proof (induction xs arbitrary: as rule: rev_induct)
  case Nil
  then have "m \<in> set s" by simp
  with Nil.prems show ?case by auto
next
  case (snoc e xs)
  from snoc.prems(1) obtain t where t: "scan i s xs = Some t"
    and e: "scan (i + length xs) t [e] = Some (as @ m # bs)"
    by (auto simp: scan_append bind_eq_Some_conv)
  have deeper: ?case
    if "t = as' @ m # bs" and last: "\<And>as''. scan (i + length xs) (as' @ bs) [e] = Some (as @ bs)" for as'
  proof -
    from snoc.IH [of as'] t that(1) snoc.prems(2,3)
    have "m - i < length xs" "is_start (xs ! (m - i))"
      "scan i s (xs[m - i := Tombstone]) = Some (as' @ bs)"
      by auto
    with last show ?thesis
      by (auto simp: nth_append list_update_append scan_append)
  qed
  show ?case
  proof (cases e)
    case (StartNode k fp)
    show ?thesis
    proof (cases as)
      case Nil
      with e StartNode have "m = i + length xs" "t = bs" by auto
      with t Nil StartNode show ?thesis by (simp add: list_update_append scan_append)
    next
      case (Cons a as')
      with e StartNode have "t = as' @ m # bs" "a = i + length xs" by auto
      with Cons StartNode show ?thesis by (intro deeper) auto
    qed
  next
    case FinishNode
    with e obtain z where "t = z # as @ m # bs" by (auto split: list.splits)
    with FinishNode show ?thesis by (intro deeper [of "z # as"]) auto
  next
    case (Token k n)
    with e show ?thesis by (intro deeper) auto
  next
    case (Error msg)
    with e show ?thesis by (intro deeper) auto
  next
    case Tombstone
    with e show ?thesis by (intro deeper) auto
  qed
qed

lemma scan_bounds:
  "scan i s xs = Some t \<Longrightarrow> x \<in> set t \<Longrightarrow> x \<in> set s \<or> (i \<le> x \<and> x < i + length xs)"
  by (induction i s xs rule: scan.induct) (auto split: list.splits)

section \<open>Token events\<close>

fun token_events :: "Event list \<Rightarrow> (SyntaxKind \<times> nat) list" where
  "token_events [] = []"
| "token_events (Token k n # es) = (k, n) # token_events es"
| "token_events (_ # es) = token_events es"

lemma token_events_append [simp]: "token_events (xs @ ys) = token_events xs @ token_events ys"
  by (induction xs rule: token_events.induct) simp_all

lemma token_events_update_start:
  "is_start (xs ! j) \<Longrightarrow> is_start e \<or> e = Tombstone \<Longrightarrow> token_events (xs[j := e]) = token_events xs"
proof (induction xs arbitrary: j rule: token_events.induct)
  case (2 k n es)
  then show ?case by (cases j) auto
qed (auto simp: is_start_iff split: nat.splits)

fun error_events :: "Event list \<Rightarrow> string list" where
  "error_events [] = []"
| "error_events (Error msg # es) = msg # error_events es"
| "error_events (_ # es) = error_events es"

lemma error_events_append [simp]: "error_events (xs @ ys) = error_events xs @ error_events ys"
  by (induction xs rule: error_events.induct) simp_all

lemma error_events_update_start:
  "is_start (xs ! j) \<Longrightarrow> is_start e \<or> e = Tombstone \<Longrightarrow> error_events (xs[j := e]) = error_events xs"
proof (induction xs arbitrary: j rule: error_events.induct)
  case (2 msg es)
  then show ?case by (cases j) auto
qed (auto simp: is_start_iff split: nat.splits)

lemmas events_update_start = token_events_update_start error_events_update_start

section \<open>The state invariant\<close>

definition kinds :: "Input \<Rightarrow> SyntaxKind list" where
  "kinds i = map (\<lambda>r. raw_kinds i ! r) (non_trivia_to_raw i)"

lemma length_kinds [simp]: "length (kinds i) = input_len i"
  by (simp add: kinds_def input_len_def)

lemma input_kind_kinds: "input_kind i n = (if n < length (kinds i) then kinds i ! n else Eof)"
  by (simp add: input_kind_def kinds_def)

definition stk :: "nat \<Rightarrow> Parser \<Rightarrow> nat list option" where
  "stk b p = scan b [] (drop b (events p))"

definition ok :: "nat \<Rightarrow> Parser \<Rightarrow> bool" where
  "ok b p \<longleftrightarrow> b \<le> length (events p) \<and> pos p \<le> input_len (input p) \<and> pending_virtual_gt p \<le> 1
     \<and> (0 < pending_virtual_gt p \<longrightarrow> 0 < pos p)
     \<and> token_events (events p) = map (\<lambda>k. (k, 1)) (take (pos p) (kinds (input p)))
     \<and> map message (errors p) = error_events (events p)
     \<and> sorted (map err_token_pos (errors p)) \<and> (\<forall>e\<in>set (errors p). err_token_pos e \<le> pos p)"

definition st :: "nat \<Rightarrow> Parser \<Rightarrow> nat list \<Rightarrow> bool \<Rightarrow> Parser \<Rightarrow> bool" where
  "st b p0 ms c p \<longleftrightarrow> ok b p \<and> input p = input p0 \<and> stk b p = Some ms
     \<and> take b (events p) = take b (events p0)
     \<and> remaining p \<le> remaining p0 \<and> (c \<longrightarrow> remaining p < remaining p0)"

definition starts :: "nat \<Rightarrow> Parser \<Rightarrow> nat set" where
  "starts b p = {j. b \<le> j \<and> j < length (events p) \<and> is_start (events p ! j)}"

lemma stI_refl: "ok b p \<Longrightarrow> stk b p = Some ms \<Longrightarrow> st b p ms False p"
  by (simp add: st_def)

lemma st_weaken: "st b p0 ms c p \<Longrightarrow> (c' \<Longrightarrow> c) \<Longrightarrow> st b p0 ms c' p"
  by (simp add: st_def)

lemma st_rem: "st b p0 ms c p \<Longrightarrow> remaining p \<le> remaining p0"
  and st_consumed: "st b p0 ms True p \<Longrightarrow> remaining p < remaining p0"
  by (simp_all add: st_def)

lemma st_trans:
  "st b p0 ms c p \<Longrightarrow> st b p ms' d q \<Longrightarrow> st b p0 ms' (c \<or> d) q"
  by (auto simp: st_def)

lemma st_rebase: "st b p0 ms c p \<Longrightarrow> st b p ms False p"
  by (simp add: st_def)

lemma st_same_tokens:
  "st b p0 ms c p \<Longrightarrow> remaining q = remaining p \<Longrightarrow> input q = input p \<Longrightarrow> ok b q \<Longrightarrow>
   stk b q = Some ms' \<Longrightarrow> take b (events q) = take b (events p) \<Longrightarrow> st b p0 ms' c q"
  by (simp add: st_def)

text \<open>
  The progress check of the source: when the position is another one, or the end is reached from a
  state before it, something has been consumed.
\<close>

lemma remaining_inj:
  "2 * (l - a) + x = 2 * (l - b) + y \<Longrightarrow> a \<le> l \<Longrightarrow> b \<le> l \<Longrightarrow> x \<le> 1 \<Longrightarrow> y \<le> 1 \<Longrightarrow>
   a = b \<and> x = (y :: nat)"
  by presburger

lemma st_progress:
  assumes "st b p1 ms False q" and "st b p1 ms1 False p1"
    and "\<not> at_eof p1" and "token_pos q = token_pos p1 \<longrightarrow> at_eof q"
  shows "st b p1 ms True q"
proof (cases "remaining q = remaining p1")
  case True
  with assms(1,2) have "pos q = pos p1 \<and> pending_virtual_gt q = pending_virtual_gt p1"
    by (intro remaining_inj [of "input_len (input p1)"]) (auto simp: st_def ok_def remaining_def)
  moreover have "input q = input p1" using assms(1) by (simp add: st_def)
  ultimately have "token_pos q = token_pos p1" and "at_eof q = at_eof p1"
    by (simp_all add: token_pos_def at_eof_def)
  with assms(3,4) show ?thesis by blast
next
  case False
  with assms(1) show ?thesis by (simp add: st_def)
qed

text \<open>What the parser sees next depends on the position and the pending half token only.\<close>

lemma nth_kind_cong:
  "input q = input p \<Longrightarrow> pos q = pos p \<Longrightarrow> pending_virtual_gt q = pending_virtual_gt p \<Longrightarrow>
   nth_kind q = nth_kind p \<and> at_eof q = at_eof p \<and> remaining q = remaining p \<and> pos q = pos p"
  by (auto simp: nth_kind_def at_eof_def remaining_def)

abbreviation peek_same :: "Parser \<Rightarrow> Parser \<Rightarrow> bool" where
  "peek_same p q \<equiv> nth_kind q = nth_kind p \<and> at_eof q = at_eof p \<and> remaining q = remaining p
     \<and> pos q = pos p"

lemma not_eof_if_kind: "current p \<noteq> Eof \<Longrightarrow> \<not> at_eof p"
  by (auto simp: current_def nth_kind_def at_eof_def input_kind_def input_len_def)

lemma at_not_eof: "at k p \<Longrightarrow> k \<noteq> Eof \<Longrightarrow> \<not> at_eof p"
  using not_eof_if_kind by (auto simp: at_def)

lemma nth_1_not_eof:
  "nth_kind p 1 \<noteq> Eof \<Longrightarrow> pending_virtual_gt p = 0 \<Longrightarrow> pos p + 1 < input_len (input p)"
  by (auto simp: nth_kind_def input_kind_def input_len_def split: if_splits)

section \<open>Rules for the operations\<close>

lemma peek_same_events [simp]:
  "nth_kind (p\<lparr>events := e\<rparr>) = nth_kind p" "at_eof (p\<lparr>events := e\<rparr>) = at_eof p"
  "remaining (p\<lparr>events := e\<rparr>) = remaining p"
  "nth_kind (p\<lparr>events := e, errors := r\<rparr>) = nth_kind p"
  "at_eof (p\<lparr>events := e, errors := r\<rparr>) = at_eof p"
  "remaining (p\<lparr>events := e, errors := r\<rparr>) = remaining p"
  by (auto simp: nth_kind_def at_eof_def remaining_def)

lemma stk_append:
  "b \<le> length (events p) \<Longrightarrow> stk b p = Some ms \<Longrightarrow> events q = events p @ es \<Longrightarrow>
   stk b q = scan (length (events p)) ms es"
  by (simp add: stk_def scan_append)

lemma drop_list_update: "b \<le> m \<Longrightarrow> drop b (xs[m := y]) = (drop b xs)[m - b := y]"
  by (simp add: drop_update_swap)

lemma open_marker_start:
  assumes "ok b p" and "stk b p = Some (m # ms)"
  shows "b \<le> m" and "m < length (events p)" and "is_start (events p ! m)"
    and "scan b [] ((drop b (events p))[m - b := Tombstone]) = Some ms"
proof -
  have len: "b \<le> length (events p)" using assms(1) by (simp add: ok_def)
  have s: "scan b [] (drop b (events p)) = Some ([] @ m # ms)"
    using assms(2) by (simp add: stk_def)
  from scan_bounds [OF s, of m] show bm: "b \<le> m" and "m < length (events p)"
    using len by auto
  from scan_open_start [OF s bm] len bm
  show "is_start (events p ! m)"
    and "scan b [] ((drop b (events p))[m - b := Tombstone]) = Some ms"
    by auto
qed

lemma wp_open [pwp]:
  assumes "st b p0 ms c p"
    and "\<And>m q. st b p0 (m # ms) c q \<Longrightarrow> peek_same p q \<Longrightarrow> wp (f m q) Q"
  shows "wp (let (m, p) = open_node p in f m p) Q"
proof -
  let ?q = "p\<lparr>events := events p @ [StartNode ErrorNode None]\<rparr>"
  have "st b p0 (length (events p) # ms) c ?q"
    using assms(1) stk_append [of b p ms ?q "[StartNode ErrorNode None]"]
    by (auto simp: st_def ok_def)
  then show ?thesis
    using assms(2) by (simp add: open_node_def)
qed

lemma wp_error [pwp]:
  assumes "st b p0 ms c p"
    and "\<And>q. st b p0 ms c q \<Longrightarrow> peek_same p q \<Longrightarrow> wp (f q) Q"
  shows "wp (let p = error msg p in f p) Q"
proof -
  have "stk b (error msg p) = Some ms"
    using assms(1) stk_append [of b p ms "error msg p" "[Error msg]"]
    by (auto simp: st_def ok_def error_def)
  then have "st b p0 ms c (error msg p)"
    using assms(1) by (auto simp: st_def ok_def error_def sorted_append)
  then show ?thesis
    using assms(2) by (simp add: error_def)
qed

lemma wp_complete [pwp]:
  assumes "st b p0 (m # ms) c p"
    and "\<And>q. st b p0 ms c q \<Longrightarrow> m \<in> starts b q \<Longrightarrow> peek_same p q \<Longrightarrow> Q (m, q)"
  shows "wp (complete m k p) Q"
proof -
  have okp: "ok b p" and sp: "stk b p = Some (m # ms)" using assms(1) by (auto simp: st_def)
  note m = open_marker_start [OF okp sp]
  obtain k0 fp where ev: "events p ! m = StartNode k0 fp" using m(3) by (auto simp: is_start_iff)
  let ?q = "p\<lparr>events := (events p)[m := StartNode k fp] @ [FinishNode]\<rparr>"
  have "stk b ?q = Some ms"
    using sp m ev
    by (simp add: stk_def drop_list_update scan_append scan_update_start)
  then have "st b p0 ms c ?q"
    using assms(1) m ev by (auto simp: st_def ok_def events_update_start)
  moreover have "m \<in> starts b ?q"
    using m by (simp add: starts_def nth_append)
  ultimately show ?thesis
    using assms(2) m ev by (simp add: complete_def)
qed

lemma scan_pop_open: "scan i s (xs @ [StartNode k fp]) = Some (m # ms) \<Longrightarrow> scan i s xs = Some ms"
  by (auto simp: scan_append bind_eq_Some_conv)

lemma wp_abandon [pwp]:
  assumes "st b p0 (m # ms) c p"
    and "\<And>q. st b p0 ms c q \<Longrightarrow> peek_same p q \<Longrightarrow> Q q"
  shows "wp (abandon m p) Q"
proof -
  have okp: "ok b p" and sp: "stk b p = Some (m # ms)" using assms(1) by (auto simp: st_def)
  note m = open_marker_start [OF okp sp]
  have ne: "events p \<noteq> []" using m by auto
  show ?thesis
  proof (cases "m = length (events p) - 1")
    case True
    then have "is_start (last (events p))" using m ne by (simp add: last_conv_nth)
    then obtain k fp where l: "last (events p) = StartNode k fp" by (auto simp: is_start_iff)
    then have ev: "events p = butlast (events p) @ [StartNode k fp]"
      using ne by (metis append_butlast_last_id)
    have b: "b \<le> length (butlast (events p))" using m True by simp
    have "drop b (events p) = drop b (butlast (events p)) @ [StartNode k fp]"
      using b by (subst ev) simp
    then have "scan b [] (drop b (butlast (events p)) @ [StartNode k fp]) = Some (m # ms)"
      using sp by (simp add: stk_def)
    then have "scan b [] (drop b (butlast (events p))) = Some ms"
      by (rule scan_pop_open)
    moreover have "token_events (butlast (events p)) = token_events (events p)"
      "error_events (butlast (events p)) = error_events (events p)"
      by (subst (2) ev, simp)+
    moreover have "take b (butlast (events p)) = take b (events p)"
      using b by (subst (2) ev) simp
    ultimately have "st b p0 ms c (p\<lparr>events := butlast (events p)\<rparr>)"
      using assms(1) b by (auto simp: st_def ok_def stk_def)
    with True l ne assms(2) show ?thesis by (simp add: abandon_def)
  next
    case False
    let ?q = "p\<lparr>events := (events p)[m := Tombstone]\<rparr>"
    have "st b p0 ms c ?q"
      using assms(1) m by (auto simp: st_def ok_def stk_def drop_list_update events_update_start)
    with False m ne assms(2) show ?thesis by (simp add: abandon_def)
  qed
qed

lemma wp_precede [pwp]:
  assumes "st b p0 ms c p" and "cm \<in> starts b p"
    and "\<And>m q. st b p0 (m # ms) c q \<Longrightarrow> peek_same p q \<Longrightarrow> Q (m, q)"
  shows "wp (precede cm p) Q"
proof -
  have cm: "b \<le> cm" "cm < length (events p)" "is_start (events p ! cm)"
    using assms(2) by (auto simp: starts_def)
  then obtain k fp where ev: "events p ! cm = StartNode k fp" by (auto simp: is_start_iff)
  let ?n = "length (events p)"
  let ?es = "(events p)[cm := StartNode k (Some (?n - cm))] @ [StartNode ErrorNode None]"
  have okp: "ok b p" and sp: "scan b [] (drop b (events p)) = Some ms"
    using assms(1) by (auto simp: st_def stk_def)
  have "scan b [] (drop b ?es) = Some (?n # ms)"
    using sp cm by (simp add: drop_list_update scan_append scan_update_start)
  then have "st b p0 (?n # ms) c (p\<lparr>events := ?es\<rparr>)"
    using assms(1) cm by (auto simp: st_def ok_def stk_def events_update_start)
  then show ?thesis
    using assms(3) cm ev by (simp add: precede_def Let_def nth_append list_update_append)
qed

lemma wp_bump [pwp]:
  assumes "st b p0 ms c p" and "\<not> at_eof p"
    and "\<And>q. st b p0 ms True q \<Longrightarrow> nth_kind q 0 = nth_kind p 1 \<Longrightarrow> Q q"
  shows "wp (bump p) Q"
proof (cases "0 < pending_virtual_gt p")
  case True
  let ?q = "p\<lparr>pending_virtual_gt := pending_virtual_gt p - 1\<rparr>"
  have "st b p0 ms True ?q"
    using assms(1) True by (auto simp: st_def ok_def stk_def remaining_def)
  moreover have "nth_kind ?q 0 = nth_kind p 1"
    using assms(1) True by (simp add: st_def ok_def nth_kind_def)
  ultimately show ?thesis using True assms(3) by (simp add: bump_def)
next
  case False
  have lt: "pos p < length (kinds (input p))" using False assms(2) by (simp add: at_eof_def)
  have cur: "current p = kinds (input p) ! pos p"
    using False lt by (simp add: current_def nth_kind_def input_kind_kinds)
  let ?q = "do_bump (current p) p"
  have "stk b ?q = Some ms"
    using assms(1) stk_append [of b p ms ?q "[Token (current p) 1]"]
    by (auto simp: st_def ok_def do_bump_def)
  moreover have "token_events (events ?q) = map (\<lambda>k. (k, 1)) (take (pos ?q) (kinds (input ?q)))"
    using assms(1) cur lt by (simp add: st_def ok_def do_bump_def take_Suc_conv_app_nth)
  ultimately have "st b p0 ms True ?q"
    using assms(1) False lt by (auto simp: st_def ok_def do_bump_def remaining_def)
  moreover have "nth_kind ?q 0 = nth_kind p 1"
    using False by (simp add: nth_kind_def do_bump_def)
  ultimately show ?thesis using False assms(2,3) by (simp add: bump_def)
qed

lemmas pside = not_eof_if_kind at_not_eof at_def current_def kind_not_Eof

lemma st_weakenE [pwp]: "st b p0 ms c p \<Longrightarrow> (c' \<Longrightarrow> c) \<Longrightarrow> st b p0 ms c' p"
  by (rule st_weaken)

lemma wp_error_recover [pwp]:
  assumes "st b p0 ms c p"
    and "\<And>q. st b p0 ms (c \<or> \<not> at_eof p \<and> \<not> at RBrace p \<and> \<not> ts_contains r (current p)) q \<Longrightarrow> Q q"
  shows "wp (error_recover msg r p) Q"
  using assms(1) unfolding error_recover_def
  by - (rule wp_intros assms(2) | erule pwp | simp; fail | blast)+

lemma wp_eat [pwp]:
  assumes "st b p0 ms c p" and "k \<noteq> Eof"
    and "\<And>q. at k p \<Longrightarrow> st b p0 ms True q \<Longrightarrow> Q (True, q)"
    and "\<not> at k p \<Longrightarrow> st b p0 ms c p \<Longrightarrow> Q (False, p)"
  shows "wp (eat k p) Q"
  using assms(1) unfolding eat_def
  by - (rule wp_intros assms(3,4) | erule pwp at_not_eof | simp add: assms(2); fail)+

lemma wp_expect [pwp]:
  assumes "st b p0 ms c p" and "k \<noteq> Eof"
    and "\<And>r q. st b p0 ms c q \<Longrightarrow> Q (r, q)"
  shows "wp (expect k p) Q"
  using assms(1) unfolding expect_def
  by - (rule wp_intros assms(2,3) | erule pwp | simp; fail)+

lemma wp_expect_strict:
  assumes "st b p0 ms c p" and "k \<noteq> Eof"
    and "\<And>r q. st b p0 ms (c \<or> at k p) q \<Longrightarrow> Q (r, q)"
  shows "wp (expect k p) Q"
  using assms(1) unfolding expect_def
  by - (rule wp_intros assms(2,3) | erule pwp | simp; fail)+

lemma wp_error_keyword_as_identifier [pwp]:
  assumes "st b p0 ms c p" and "is_keyword (current p)"
    and "\<And>q. st b p0 ms True q \<Longrightarrow> nth_kind q 0 = nth_kind p 1 \<Longrightarrow> Q q"
  shows "wp (error_keyword_as_identifier role p) Q"
proof -
  obtain t where t: "keyword_text (current p) = Some t"
    using assms(2) by (auto simp: is_keyword_iff_keyword_text)
  have ne: "\<not> at_eof p" using assms(2) by (simp add: kind_not_Eof not_eof_if_kind)
  show ?thesis
    using assms(1) unfolding error_keyword_as_identifier_def t
    by - (rule wp_intros assms(3) | erule pwp | simp add: ne; fail)+
qed

lemma wp_expect_identifier_recover [pwp]:
  assumes "st b p0 ms c p"
    and "\<And>r q. st b p0 ms (c \<or> at_ident_like p) q \<Longrightarrow>
      (at_ident_like p \<Longrightarrow> nth_kind q 0 = nth_kind p 1) \<Longrightarrow> Q (r, q)"
  shows "wp (expect_identifier_recover role rs p) Q"
  using assms(1) unfolding expect_identifier_recover_def
  by - (rule wp_intros assms(2) | erule pwp
        | simp add: at_ident_like_def kind_not_Eof not_eof_if_kind; fail)+

lemma wp_expect_identifier [pwp]:
  assumes "st b p0 ms c p"
    and "\<And>r q. st b p0 ms (c \<or> at_ident_like p) q \<Longrightarrow>
      (at_ident_like p \<Longrightarrow> nth_kind q 0 = nth_kind p 1) \<Longrightarrow> Q (r, q)"
  shows "wp (expect_identifier role p) Q"
  unfolding expect_identifier_def using assms by (rule wp_expect_identifier_recover)

text \<open>
  Splitting \<open>>>\<close>: the raw token is consumed and one half stays pending.  As a pending half shows as
  \<open>>\<close>, a second split cannot happen before it is consumed, and the counter never exceeds one.
\<close>

lemma wp_eat_type_arg_rangle [pwp]:
  assumes "st b p0 ms c p" and "\<And>r q. st b p0 ms c q \<Longrightarrow> Q (r, q)"
  shows "wp (eat_type_arg_rangle p) Q"
proof (cases "at GtGt p")
  case True
  then have pend: "pending_virtual_gt p = 0" and cur: "current p = GtGt"
    by (auto simp: at_def current_def nth_kind_def split: if_splits)
  have lt: "pos p < length (kinds (input p))"
    using at_not_eof [OF True] pend by (simp add: at_eof_def)
  let ?q = "(do_bump GtGt p)\<lparr>pending_virtual_gt := Suc 0\<rparr>"
  have tok: "kinds (input p) ! pos p = GtGt"
    using cur pend lt by (simp add: current_def nth_kind_def input_kind_kinds)
  have "stk b ?q = Some ms"
    using assms(1) stk_append [of b p ms ?q "[Token GtGt 1]"]
    by (auto simp: st_def ok_def do_bump_def)
  then have "st b p0 ms c ?q"
    using assms(1) lt pend tok
    by (auto simp: st_def ok_def do_bump_def remaining_def take_Suc_conv_app_nth)
  then show ?thesis
    using assms(2) cur pend lt
    by (simp add: eat_type_arg_rangle_def eat_def at_def bump_def at_eof_def do_bump_def)
next
  case False
  show ?thesis
    using assms(1) False unfolding eat_type_arg_rangle_def
    by - (rule wp_intros assms(2) | erule pwp | simp; fail)+
qed

lemma wp_expect_type_arg_rangle [pwp]:
  assumes "st b p0 ms c p" and "\<And>r q. st b p0 ms c q \<Longrightarrow> Q (r, q)"
  shows "wp (expect_type_arg_rangle p) Q"
  using assms(1) unfolding expect_type_arg_rangle_def
  by - (rule wp_intros assms(2) | erule pwp | simp; fail)+

lemma wp_force_progress:
  assumes "st b p1 ms c q" and "st b p1 ms1 False p1" and "\<not> at_eof p1"
    and "\<And>r. st b p1 ms True r \<Longrightarrow> Q r"
  shows "wp (force_progress (token_pos p1) q) Q"
proof (cases "token_pos q = token_pos p1 \<and> \<not> at_eof q")
  case True
  with assms(1) show ?thesis
    unfolding force_progress_def by (auto intro!: wp_bump assms(4))
next
  case False
  have "st b p1 ms False q" using assms(1) by (rule st_weaken) simp
  from st_progress [OF this assms(2,3)] False have "st b p1 ms True q" by blast
  with False assms(4) show ?thesis unfolding force_progress_def by auto
qed

section \<open>Rules for the loops\<close>

text \<open>
  The step of a loop starts from an arbitrary iteration state \<open>p1\<close>, to which its own progress is
  related; going on requires that it has consumed something.
\<close>

lemma wp_loop_with_inv:
  assumes "st b p0 ms c p" and "I a p"
    and step: "\<And>a1 p1. st b p1 ms False p1 \<Longrightarrow> I a1 p1 \<Longrightarrow> remaining p1 \<le> remaining p0 \<Longrightarrow>
        (c \<Longrightarrow> remaining p1 < remaining p0) \<Longrightarrow>
      wp (stp (a1, p1)) (\<lambda>((a2, p2), go). st b p1 ms go p2 \<and> (if go then I a2 p2 else E a2 p2))"
    and "\<And>a q. st b p0 ms c q \<Longrightarrow> E a q \<Longrightarrow> Q (a, q)"
  shows "wp (loop_with stp (a, p)) Q"
  unfolding loop_with_def snd_conv
proof (rule wp_loop_upto [where I = "\<lambda>(a, q). st b p0 ms c q \<and> I a q"
      and r = "\<lambda>(a, q). remaining q"])
  fix x assume "case x of (a, q) \<Rightarrow> st b p0 ms c q \<and> I a q"
  then obtain a1 p1 where x: "x = (a1, p1)" and s1: "st b p0 ms c p1" and i1: "I a1 p1"
    by (cases x) auto
  from step [OF st_rebase [OF s1] i1] s1
  have "wp (stp (a1, p1)) (\<lambda>((a2, p2), go). st b p1 ms go p2 \<and> (if go then I a2 p2 else E a2 p2))"
    by (auto simp: st_def)
  then show "wp (stp x) (\<lambda>(a', go). if go then (case a' of (a, q) \<Rightarrow> st b p0 ms c q \<and> I a q)
      \<and> (case a' of (a, q) \<Rightarrow> remaining q) < (case x of (a, q) \<Rightarrow> remaining q) else Q a')"
    unfolding x
    by (rule wp_mono) (use s1 assms(4) in \<open>auto simp: st_def split: if_splits\<close>)
qed (use assms(1,2) in \<open>auto simp: st_def\<close>)

lemma wp_loop_with [pwp]:
  assumes "st b p0 ms c p"
    and "\<And>a1 p1. st b p1 ms False p1 \<Longrightarrow> remaining p1 \<le> remaining p0 \<Longrightarrow>
        (c \<Longrightarrow> remaining p1 < remaining p0) \<Longrightarrow>
      wp (stp (a1, p1)) (\<lambda>((a2, p2), go). st b p1 ms go p2)"
    and "\<And>a q. st b p0 ms c q \<Longrightarrow> Q (a, q)"
  shows "wp (loop_with stp (a, p)) Q"
  by (rule wp_loop_with_inv [where I = "\<lambda>_ _. True" and E = "\<lambda>_ _. True", OF assms(1)])
    (use assms(2,3) in \<open>auto intro: wp_mono\<close>)

lemma wp_loop_p_inv:
  assumes "st b p0 ms c p" and "I p"
    and step: "\<And>p1. st b p1 ms False p1 \<Longrightarrow> I p1 \<Longrightarrow> remaining p1 \<le> remaining p0 \<Longrightarrow>
        (c \<Longrightarrow> remaining p1 < remaining p0) \<Longrightarrow>
      wp (stp p1) (\<lambda>(p2, go). st b p1 ms go p2 \<and> (if go then I p2 else E p2))"
    and "\<And>q. st b p0 ms c q \<Longrightarrow> E q \<Longrightarrow> Q q"
  shows "wp (loop_p stp p) Q"
  unfolding loop_p_def
proof (rule wp_loop_upto [where I = "\<lambda>q. st b p0 ms c q \<and> I q" and r = remaining])
  fix p1 assume s1: "st b p0 ms c p1 \<and> I p1"
  from step [OF st_rebase [OF conjunct1 [OF s1]]] s1
  have "wp (stp p1) (\<lambda>(p2, go). st b p1 ms go p2 \<and> (if go then I p2 else E p2))"
    by (auto simp: st_def)
  then show "wp (stp p1) (\<lambda>(a', go). if go then (st b p0 ms c a' \<and> I a')
      \<and> remaining a' < remaining p1 else Q a')"
    by (rule wp_mono) (use s1 assms(4) in \<open>auto simp: st_def split: if_splits\<close>)
qed (use assms(1,2) in auto)

lemma wp_loop_p [pwp]:
  assumes "st b p0 ms c p"
    and "\<And>p1. st b p1 ms False p1 \<Longrightarrow> remaining p1 \<le> remaining p0 \<Longrightarrow>
        (c \<Longrightarrow> remaining p1 < remaining p0) \<Longrightarrow>
      wp (stp p1) (\<lambda>(p2, go). st b p1 ms go p2)"
    and "\<And>q. st b p0 ms c q \<Longrightarrow> Q q"
  shows "wp (loop_p stp p) Q"
  by (rule wp_loop_p_inv [where I = "\<lambda>_. True" and E = "\<lambda>_. True", OF assms(1)])
    (use assms(2,3) in \<open>auto intro: wp_mono\<close>)

lemma wp_while_eat [pwp]:
  assumes "st b p0 ms c p" and "sep \<noteq> Eof"
    and "\<And>p1 p2. st b p1 ms True p2 \<Longrightarrow> remaining p1 \<le> remaining p0 \<Longrightarrow> \<not> stop p2 \<Longrightarrow>
      (c \<Longrightarrow> remaining p1 < remaining p0) \<Longrightarrow> wp (body p2) (st b p1 ms True)"
    and "\<And>q. st b p0 ms c q \<Longrightarrow> Q q"
  shows "wp (while_eat sep stop body p) Q"
  using assms(1) unfolding while_eat_def
  by - (rule wp_intros | erule pwp | rule assms(2,4) | (rule wp_mono, rule assms(3)) | simp; fail)+

lemma wp_skip_balanced_braces [pwp]:
  assumes "st b p0 ms c p" and "at LBrace p" and "\<And>q. st b p0 ms True q \<Longrightarrow> Q q"
  shows "wp (skip_balanced_braces p) Q"
proof -
  have ne: "\<not> at_eof p" using at_not_eof [OF assms(2)] by simp
  have "wp (loop_with skip_balanced_braces_step (0, p)) (\<lambda>(a, q). st b p0 ms True q)"
  proof (rule wp_loop_with_inv [where I = "\<lambda>_ q. q = p \<or> remaining q < remaining p"
        and E = "\<lambda>_ q. remaining q < remaining p", OF assms(1)])
    fix a1 p1
    assume s1: "st b p1 ms False p1" and i: "p1 = p \<or> remaining p1 < remaining p"
    have out: "remaining q < remaining p" if "st b p1 ms True q" for q
      using that i by (auto simp: st_def)
    show "wp (skip_balanced_braces_step (a1, p1))
      (\<lambda>((a2, p2), go). st b p1 ms go p2
        \<and> (if go then p2 = p \<or> remaining p2 < remaining p else remaining p2 < remaining p))"
    proof (cases "at_eof p1")
      case True
      with i ne s1 show ?thesis by (auto simp: skip_balanced_braces_step_def)
    next
      case False
      then show ?thesis
        using s1 unfolding skip_balanced_braces_step_def
        by (auto intro!: wp_bump [OF s1] simp: Let_def dest: out elim: st_weaken)
    qed
  qed (use assms(1) in \<open>auto simp: st_def\<close>)
  with assms(2,3) show ?thesis
    by (simp add: skip_balanced_braces_def) (auto elim!: wp_mono)
qed

lemma wp_recover_head_step:
  assumes "st b p1 ms False p1"
  shows "wp (recover_head_step r (a, p1)) (\<lambda>((a2, p2), go). st b p1 ms go p2)"
  using assms unfolding recover_head_step_def
  by (auto simp: Let_def looks_like_record_literal_brace_def split: prod.splits
      intro!: wp_bump [OF assms] wp_skip_balanced_braces [OF assms] elim: st_weaken)

lemma wp_recover_parenthesized_head_content [pwp]:
  assumes "st b p0 ms c p" and "\<And>q. st b p0 ms c q \<Longrightarrow> Q q"
  shows "wp (recover_parenthesized_head_content r p) Q"
  using assms(1) unfolding recover_parenthesized_head_content_def
  by - (rule wp_intros assms(2) | erule pwp wp_recover_head_step | simp; fail)+

lemma wp_error_recover_parenthesized_head [pwp]:
  assumes "st b p0 ms c p" and "\<And>q. st b p0 ms c q \<Longrightarrow> Q q"
  shows "wp (error_recover_parenthesized_head msg r p) Q"
  using assms(1) unfolding error_recover_parenthesized_head_def
  by - (rule assms(2) | erule pwp)+

end
