(* ===== verification/Grammar.thy ===== *)
theory Grammar
  imports Parser_Core
begin

text \<open>
  The recursive-descent grammar (\<open>parser/src/grammar.rs\<close> and the modules \<open>types\<close>, \<open>patterns\<close> and
  \<open>expressions\<close> under it).  Every grammar function of the source is a definition of the same name.

  The grammar functions call each other in cycles.  Every cycle runs through one of five of them:
  expressions with a binding power, blocks, \<open>if\<close> expressions, type expressions and patterns.  Calls
  that close a cycle go through the argument \<open>rc\<close>, indexed by \<open>nonterm\<close>; \<open>Grammar_Items\<close> ties the
  knot.
  A function that returns \<open>Option<CompletedMarker>\<close> returns \<open>CompletedMarker option\<close> here, beside
  the parser.
\<close>

datatype nonterm =
    NExprBp nat
  | NBlockExpr
  | NIfExpr
  | NTypeExpr
  | NPattern IdentifierRole

type_synonym 'a parse_result = "('a \<times> Parser) option"
type_synonym subparsers = "nonterm \<Rightarrow> Parser \<Rightarrow> CompletedMarker option parse_result"

text \<open>The entry points of the source that only fix an argument of one of the five.\<close>

definition expr :: "subparsers \<Rightarrow> Parser \<Rightarrow> CompletedMarker option parse_result" where
  "expr rc p = rc (NExprBp 0) p"

definition pattern :: "subparsers \<Rightarrow> Parser \<Rightarrow> CompletedMarker option parse_result" where
  "pattern rc p = rc (NPattern PatternName) p"

definition binding_pattern :: "subparsers \<Rightarrow> Parser \<Rightarrow> CompletedMarker option parse_result" where
  "binding_pattern rc p = rc (NPattern LocalBindingName) p"

section \<open>Paths\<close>

definition parse_path :: "Parser \<Rightarrow> CompletedMarker parse_result" where
  "parse_path p = do {
     let (m, p) = open_node p;
     (_, p) \<leftarrow> expect_identifier PathSegment p;
     p \<leftarrow> while_eat Dot (\<lambda>p. False) (\<lambda>p. do {
       (_, p) \<leftarrow> expect_identifier PathSegment p;
       Some p
     }) p;
     complete m Path p
   }"

definition parse_single_path :: "Parser \<Rightarrow> CompletedMarker parse_result" where
  "parse_single_path p = do {
     let (m, p) = open_node p;
     (_, p) \<leftarrow> expect_identifier PathSegment p;
     complete m Path p
   }"

section \<open>Types\<close>

definition fn_type :: "subparsers \<Rightarrow> Parser \<Rightarrow> CompletedMarker parse_result" where
  "fn_type rc p = do {
     let (m, p) = open_node p;
     p \<leftarrow> bump p;
     (_, p) \<leftarrow> expect LParen p;
     p \<leftarrow> (if \<not> at RParen p then do {
             (_, p) \<leftarrow> rc NTypeExpr p;
             while_eat Comma (at RParen) (\<lambda>p. do { (_, p) \<leftarrow> rc NTypeExpr p; Some p }) p
           }
           else Some p);
     (_, p) \<leftarrow> expect RParen p;
     (_, p) \<leftarrow> expect Arrow p;
     (_, p) \<leftarrow> rc NTypeExpr p;
     complete m FnType p
   }"

definition record_field :: "subparsers \<Rightarrow> Parser \<Rightarrow> Parser option" where
  "record_field rc p = do {
     let (m, p) = open_node p;
     (_, p) \<leftarrow> expect_identifier FieldName p;
     (_, p) \<leftarrow> expect Colon p;
     (_, p) \<leftarrow> rc NTypeExpr p;
     (_, p) \<leftarrow> complete m RecordField p;
     Some p
   }"

definition brace_type :: "subparsers \<Rightarrow> Parser \<Rightarrow> CompletedMarker parse_result" where
  "brace_type rc p = do {
     let (m, p) = open_node p;
     p \<leftarrow> bump p;
     if at RBrace p then do {
       p \<leftarrow> bump p;
       complete m RecordType p
     }
     else if \<not> at_ident_like p then do {
       let p = error ''expected field name'' p;
       (_, p) \<leftarrow> expect RBrace p;
       complete m RecordType p
     }
     else do {
       let (field_m, p) = open_node p;
       (_, p) \<leftarrow> expect_identifier FieldName p;
       (_, p) \<leftarrow> expect Colon p;
       (_, p) \<leftarrow> rc NTypeExpr p;
       if at Pipe p then do {
         p \<leftarrow> abandon field_m p;
         p \<leftarrow> bump p;
         (_, p) \<leftarrow> expr rc p;
         (_, p) \<leftarrow> expect RBrace p;
         complete m RefinedType p
       }
       else do {
         (_, p) \<leftarrow> complete field_m RecordField p;
         p \<leftarrow> while_eat Comma (at RBrace) (record_field rc) p;
         (_, p) \<leftarrow> expect RBrace p;
         complete m RecordType p
       }
     }
   }"

definition type_arg_list :: "subparsers \<Rightarrow> Parser \<Rightarrow> Parser option" where
  "type_arg_list rc p = do {
     let (m, p) = open_node p;
     p \<leftarrow> bump p;
     (_, p) \<leftarrow> rc NTypeExpr p;
     p \<leftarrow> while_eat Comma (\<lambda>p. at Gt p \<or> at GtGt p)
            (\<lambda>p. do { (_, p) \<leftarrow> rc NTypeExpr p; Some p }) p;
     (_, p) \<leftarrow> expect_type_arg_rangle p;
     (_, p) \<leftarrow> complete m TypeArgList p;
     Some p
   }"

definition name_type :: "subparsers \<Rightarrow> Parser \<Rightarrow> CompletedMarker parse_result" where
  "name_type rc p = do {
     let (m, p) = open_node p;
     (_, p) \<leftarrow> parse_path p;
     p \<leftarrow> (if at Lt p then type_arg_list rc p else Some p);
     complete m NameType p
   }"

definition type_expr :: "subparsers \<Rightarrow> Parser \<Rightarrow> CompletedMarker option parse_result" where
  "type_expr rc p =
     (if current p = FnKw then do { (cm, p) \<leftarrow> fn_type rc p; Some (Some cm, p) }
      else if current p = LBrace then do { (cm, p) \<leftarrow> brace_type rc p; Some (Some cm, p) }
      else if is_identifier_token (current p) then do { (cm, p) \<leftarrow> name_type rc p; Some (Some cm, p) }
      else if is_keyword (current p) then do { (cm, p) \<leftarrow> name_type rc p; Some (Some cm, p) }
      else (let p = error ''expected type expression'' p in Some (None, p)))"

section \<open>Patterns\<close>

definition PATTERN_START :: TokenSet where
  "PATTERN_START = ts_new [Ident, ModuleKw, Underscore, IntLiteral, FloatLiteral, StringLiteral,
     CharLiteral, TrueKw, FalseKw, LBrace]"

definition can_start_pattern :: "SyntaxKind \<Rightarrow> bool" where
  "can_start_pattern kind \<longleftrightarrow> ts_contains PATTERN_START kind \<or> is_keyword kind"

definition wildcard_pat :: "Parser \<Rightarrow> CompletedMarker parse_result" where
  "wildcard_pat p = do {
     let (m, p) = open_node p;
     p \<leftarrow> bump p;
     complete m WildcardPat p
   }"

definition literal_pat :: "Parser \<Rightarrow> CompletedMarker parse_result" where
  "literal_pat p = do {
     let (m, p) = open_node p;
     p \<leftarrow> bump p;
     complete m LiteralPat p
   }"

definition record_pat_tail :: "Marker \<Rightarrow> Parser \<Rightarrow> CompletedMarker parse_result" where
  "record_pat_tail m p = do {
     (_, p) \<leftarrow> expect LBrace p;
     p \<leftarrow> (if at_ident_like p then do {
             (_, p) \<leftarrow> expect_identifier FieldName p;
             while_eat Comma (at RBrace)
               (\<lambda>p. do { (_, p) \<leftarrow> expect_identifier FieldName p; Some p }) p
           }
           else Some p);
     (_, p) \<leftarrow> expect RBrace p;
     complete m RecordPat p
   }"

definition record_pat :: "CompletedMarker option \<Rightarrow> Parser \<Rightarrow> CompletedMarker parse_result" where
  "record_pat path p =
     (case path of
        Some cm \<Rightarrow> do { (m, p) \<leftarrow> precede cm p; record_pat_tail m p }
      | None \<Rightarrow> (let (m, p) = open_node p in record_pat_tail m p))"

definition pat_list :: "subparsers \<Rightarrow> Parser \<Rightarrow> Parser option" where
  "pat_list rc p =
     (if at RParen p then Some p
      else do {
        (_, p) \<leftarrow> pattern rc p;
        while_eat Comma (at RParen)
          (\<lambda>p. do { (_, p) \<leftarrow> pattern rc p; Some p }) p
      })"

definition ident_or_constructor_pat :: "subparsers \<Rightarrow> Parser \<Rightarrow> CompletedMarker parse_result" where
  "ident_or_constructor_pat rc p = do {
     (path, p) \<leftarrow> parse_path p;
     if current p = LParen then do {
       (m, p) \<leftarrow> precede path p;
       p \<leftarrow> bump p;
       p \<leftarrow> pat_list rc p;
       (_, p) \<leftarrow> expect RParen p;
       complete m ConstructorPat p
     }
     else if current p = LBrace then record_pat (Some path) p
     else do {
       (m, p) \<leftarrow> precede path p;
       complete m IdentPat p
     }
   }"

definition pattern_with_role ::
  "subparsers \<Rightarrow> IdentifierRole \<Rightarrow> Parser \<Rightarrow> CompletedMarker option parse_result" where
  "pattern_with_role rc keyword_role p =
     (if current p = Underscore then do { (cm, p) \<leftarrow> wildcard_pat p; Some (Some cm, p) }
      else if current p \<in> {IntLiteral, FloatLiteral, StringLiteral, CharLiteral, TrueKw, FalseKw}
      then do { (cm, p) \<leftarrow> literal_pat p; Some (Some cm, p) }
      else if current p = LBrace then do { (cm, p) \<leftarrow> record_pat None p; Some (Some cm, p) }
      else if is_identifier_token (current p)
      then do { (cm, p) \<leftarrow> ident_or_constructor_pat rc p; Some (Some cm, p) }
      else if is_keyword (current p)
      then do { (_, p) \<leftarrow> expect_identifier keyword_role p; Some (None, p) }
      else (let p = error ''expected pattern'' p in Some (None, p)))"

end
