(* ===== verification/Grammar_Expr.thy ===== *)
theory Grammar_Expr
  imports Grammar
begin

text \<open>
  Expression parsing (\<open>parser/src/grammar/expressions.rs\<close>): precedence climbing, primary
  expressions, blocks, control flow, lambdas, records and argument lists; and the two local
  bindings of \<open>items.rs\<close> that blocks contain.
\<close>

section \<open>Recovery sets\<close>

definition EXPR_RECOVERY :: TokenSet where
  "EXPR_RECOVERY = ts_new [LetKw, VarKw, RBrace, Semicolon, RParen, Comma, FatArrow, TypeKw, FnKw,
     CapKw, PropertyKw, LeftArrow]"

definition IF_HEAD_RECOVERY :: TokenSet where
  "IF_HEAD_RECOVERY = ts_new [LBrace, ElseKw, Semicolon, RBrace]"

definition MATCH_HEAD_RECOVERY :: TokenSet where
  "MATCH_HEAD_RECOVERY = ts_new [LBrace, Semicolon, RBrace]"

definition WHILE_HEAD_RECOVERY :: TokenSet where
  "WHILE_HEAD_RECOVERY = ts_new [LBrace, Semicolon, RBrace]"

definition FOR_HEAD_RECOVERY :: TokenSet where
  "FOR_HEAD_RECOVERY = ts_new [RParen, LBrace, Semicolon, RBrace]"

definition RANGE_RHS_RECOVERY :: TokenSet where
  "RANGE_RHS_RECOVERY = ts_new [LetKw, VarKw, RBrace, Semicolon, RParen, Comma, FatArrow, TypeKw,
     FnKw, CapKw, PropertyKw, LeftArrow, PipeGt]"

definition can_start_expr :: "SyntaxKind \<Rightarrow> bool" where
  "can_start_expr kind \<longleftrightarrow>
     kind \<in> {IntLiteral, FloatLiteral, StringLiteral, CharLiteral, TrueKw, FalseKw, Underscore,
             LParen, LBrace, IfKw, MatchKw, ReturnKw, OldKw, FnKw}
     \<or> is_unary_prefix_operator kind \<or> is_identifier_token kind"

definition can_start_expr_or_keyword :: "SyntaxKind \<Rightarrow> bool" where
  "can_start_expr_or_keyword kind \<longleftrightarrow> can_start_expr kind \<or> is_keyword kind"

section \<open>Arguments and record fields\<close>

definition arg :: "subparsers \<Rightarrow> Parser \<Rightarrow> Parser option" where
  "arg rc p =
     (if at_ident_like p \<and> nth_kind p 1 = Colon then do {
        let (m, p) = open_node p;
        (_, p) \<leftarrow> expect_identifier ArgumentName p;
        p \<leftarrow> bump p;
        (_, p) \<leftarrow> expr rc p;
        (_, p) \<leftarrow> complete m NamedArg p;
        Some p
      }
      else do { (_, p) \<leftarrow> expr rc p; Some p })"

definition arg_list :: "subparsers \<Rightarrow> Parser \<Rightarrow> Parser option" where
  "arg_list rc p = do {
     let (m, p) = open_node p;
     p \<leftarrow> bump p;
     p \<leftarrow> (if \<not> at RParen p then do {
             p \<leftarrow> arg rc p;
             while_eat Comma (at RParen) (arg rc) p
           }
           else Some p);
     (_, p) \<leftarrow> expect RParen p;
     (_, p) \<leftarrow> complete m ArgList p;
     Some p
   }"

definition record_expr_field :: "subparsers \<Rightarrow> Parser \<Rightarrow> Parser option" where
  "record_expr_field rc p = do {
     let (m, p) = open_node p;
     (_, p) \<leftarrow> expect_identifier FieldName p;
     (_, p) \<leftarrow> expect Colon p;
     (_, p) \<leftarrow> expr rc p;
     (_, p) \<leftarrow> complete m RecordExprField p;
     Some p
   }"

definition record_expr_field_list :: "subparsers \<Rightarrow> Parser \<Rightarrow> Parser option" where
  "record_expr_field_list rc p = do {
     let (m, p) = open_node p;
     p \<leftarrow> bump p;
     p \<leftarrow> (if \<not> at RBrace p then do {
             p \<leftarrow> record_expr_field rc p;
             while_eat Comma (at RBrace) (record_expr_field rc) p
           }
           else Some p);
     (_, p) \<leftarrow> expect RBrace p;
     (_, p) \<leftarrow> complete m RecordExprFieldList p;
     Some p
   }"

definition ident_or_path_or_record :: "subparsers \<Rightarrow> Parser \<Rightarrow> CompletedMarker parse_result" where
  "ident_or_path_or_record rc p = do {
     (path_cm, p) \<leftarrow> parse_single_path p;
     if current p = LBrace then do {
       (m, p) \<leftarrow> precede path_cm p;
       p \<leftarrow> record_expr_field_list rc p;
       complete m RecordExpr p
     }
     else do {
       (m, p) \<leftarrow> precede path_cm p;
       complete m PathExpr p
     }
   }"

section \<open>Local bindings\<close>

definition let_binding :: "subparsers \<Rightarrow> Parser \<Rightarrow> CompletedMarker parse_result" where
  "let_binding rc p = do {
     let (m, p) = open_node p;
     p \<leftarrow> bump p;
     (_, p) \<leftarrow> binding_pattern rc p;
     (b, p) \<leftarrow> eat Colon p;
     p \<leftarrow> (if b then do { (_, p) \<leftarrow> rc NTypeExpr p; Some p } else Some p);
     (_, p) \<leftarrow> expect Eq p;
     (_, p) \<leftarrow> expr rc p;
     complete m LetBinding p
   }"

definition var_binding :: "subparsers \<Rightarrow> Parser \<Rightarrow> CompletedMarker parse_result" where
  "var_binding rc p = do {
     let (m, p) = open_node p;
     p \<leftarrow> bump p;
     (_, p) \<leftarrow> expect_identifier LocalBindingName p;
     (b, p) \<leftarrow> eat Colon p;
     p \<leftarrow> (if b then do { (_, p) \<leftarrow> rc NTypeExpr p; Some p } else Some p);
     (_, p) \<leftarrow> expect Eq p;
     (_, p) \<leftarrow> expr rc p;
     complete m VarBinding p
   }"

section \<open>Blocks and statements\<close>

definition break_stmt :: "Parser \<Rightarrow> CompletedMarker parse_result" where
  "break_stmt p = do {
     let (m, p) = open_node p;
     p \<leftarrow> bump p;
     complete m BreakStmt p
   }"

definition continue_stmt :: "Parser \<Rightarrow> CompletedMarker parse_result" where
  "continue_stmt p = do {
     let (m, p) = open_node p;
     p \<leftarrow> bump p;
     complete m ContinueStmt p
   }"

definition while_stmt :: "subparsers \<Rightarrow> Parser \<Rightarrow> CompletedMarker parse_result" where
  "while_stmt rc p = do {
     let (m, p) = open_node p;
     p \<leftarrow> bump p;
     (b, p) \<leftarrow> eat LParen p;
     p \<leftarrow> (if b then do {
             (_, p) \<leftarrow> expr rc p;
             (_, p) \<leftarrow> expect RParen p;
             Some p
           }
           else error_recover_parenthesized_head ''while condition must be parenthesized''
                  WHILE_HEAD_RECOVERY p);
     p \<leftarrow> (if at LBrace p then do { (_, p) \<leftarrow> rc NBlockExpr p; Some p }
           else (let p = error ''expected block after while condition'' p in Some p));
     complete m WhileStmt p
   }"

definition for_stmt :: "subparsers \<Rightarrow> Parser \<Rightarrow> CompletedMarker parse_result" where
  "for_stmt rc p = do {
     let (m, p) = open_node p;
     p \<leftarrow> bump p;
     (b, p) \<leftarrow> eat LParen p;
     p \<leftarrow> (if b then do {
             (_, p) \<leftarrow> binding_pattern rc p;
             (i, p) \<leftarrow> eat InKw p;
             p \<leftarrow> (if i then do { (_, p) \<leftarrow> expr rc p; Some p }
                   else do {
                     let p = error (''for loop requires '' @ [CHR 0x27] @ ''in'' @ [CHR 0x27]) p;
                     if can_start_expr_or_keyword (current p)
                     then do { (_, p) \<leftarrow> expr rc p; Some p }
                     else recover_parenthesized_head_content FOR_HEAD_RECOVERY p
                   });
             (_, p) \<leftarrow> expect RParen p;
             Some p
           }
           else error_recover_parenthesized_head ''for loop head must be parenthesized''
                  FOR_HEAD_RECOVERY p);
     p \<leftarrow> (if at LBrace p then do { (_, p) \<leftarrow> rc NBlockExpr p; Some p }
           else (let p = error ''expected block after for loop head'' p in Some p));
     complete m ForStmt p
   }"

definition eat_semicolons :: "Parser \<Rightarrow> Parser option" where
  "eat_semicolons p = while_eat Semicolon (\<lambda>p. False) Some p"

definition block_step :: "subparsers \<Rightarrow> Parser \<Rightarrow> (Parser \<times> bool) option" where
  "block_step rc p =
     (if at RBrace p \<or> at_eof p then Some (p, False)
      else if at LetKw p then do {
        (_, p) \<leftarrow> let_binding rc p;
        p \<leftarrow> eat_semicolons p;
        Some (p, True)
      }
      else if at VarKw p then do {
        (_, p) \<leftarrow> var_binding rc p;
        p \<leftarrow> eat_semicolons p;
        Some (p, True)
      }
      else if at WhileKw p then do {
        (_, p) \<leftarrow> while_stmt rc p;
        p \<leftarrow> eat_semicolons p;
        Some (p, True)
      }
      else if at ForKw p then do {
        (_, p) \<leftarrow> for_stmt rc p;
        p \<leftarrow> eat_semicolons p;
        Some (p, True)
      }
      else if at BreakKw p then do {
        (_, p) \<leftarrow> break_stmt p;
        p \<leftarrow> eat_semicolons p;
        Some (p, True)
      }
      else if at ContinueKw p then do {
        (_, p) \<leftarrow> continue_stmt p;
        p \<leftarrow> eat_semicolons p;
        Some (p, True)
      }
      else do {
        (r, p) \<leftarrow> expr rc p;
        case r of
          None \<Rightarrow> Some (p, False)
        | Some l \<Rightarrow> do {
            p \<leftarrow> (if at Eq p then do {
                    (m, p) \<leftarrow> precede l p;
                    p \<leftarrow> bump p;
                    (_, p) \<leftarrow> expr rc p;
                    (_, p) \<leftarrow> complete m AssignStmt p;
                    Some p
                  }
                  else Some p);
            p \<leftarrow> eat_semicolons p;
            Some (p, True)
          }
      })"

definition block_expr :: "subparsers \<Rightarrow> Parser \<Rightarrow> CompletedMarker parse_result" where
  "block_expr rc p = do {
     let (m, p) = open_node p;
     p \<leftarrow> bump p;
     p \<leftarrow> loop_p (block_step rc) p;
     (_, p) \<leftarrow> expect RBrace p;
     complete m BlockExpr p
   }"

section \<open>Primary expressions\<close>

definition brace_expr :: "subparsers \<Rightarrow> Parser \<Rightarrow> CompletedMarker parse_result" where
  "brace_expr rc p =
     (if is_identifier_token (nth_kind p 1) \<and> nth_kind p 2 = Colon then do {
        let (m, p) = open_node p;
        p \<leftarrow> record_expr_field_list rc p;
        complete m RecordExpr p
      }
      else block_expr rc p)"

definition literal_expr :: "Parser \<Rightarrow> CompletedMarker parse_result" where
  "literal_expr p = do {
     let (m, p) = open_node p;
     p \<leftarrow> bump p;
     complete m LiteralExpr p
   }"

definition hole_expr :: "Parser \<Rightarrow> CompletedMarker parse_result" where
  "hole_expr p = do {
     let (m, p) = open_node p;
     p \<leftarrow> bump p;
     complete m HoleExpr p
   }"

definition paren_expr :: "subparsers \<Rightarrow> Parser \<Rightarrow> CompletedMarker parse_result" where
  "paren_expr rc p = do {
     let (m, p) = open_node p;
     p \<leftarrow> bump p;
     (_, p) \<leftarrow> expr rc p;
     (_, p) \<leftarrow> expect RParen p;
     complete m ParenExpr p
   }"

definition if_expr :: "subparsers \<Rightarrow> Parser \<Rightarrow> CompletedMarker parse_result" where
  "if_expr rc p = do {
     let (m, p) = open_node p;
     p \<leftarrow> bump p;
     (b, p) \<leftarrow> eat LParen p;
     p \<leftarrow> (if b then do {
             (_, p) \<leftarrow> expr rc p;
             (_, p) \<leftarrow> expect RParen p;
             Some p
           }
           else error_recover_parenthesized_head ''if condition must be parenthesized''
                  IF_HEAD_RECOVERY p);
     p \<leftarrow> (if at LBrace p then do { (_, p) \<leftarrow> rc NBlockExpr p; Some p }
           else (let p = error ''expected block after if condition'' p in Some p));
     (e, p) \<leftarrow> eat ElseKw p;
     p \<leftarrow> (if e then
             if at IfKw p then do { (_, p) \<leftarrow> rc NIfExpr p; Some p }
             else if at LBrace p then do { (_, p) \<leftarrow> rc NBlockExpr p; Some p }
             else (let p = error ''expected block or if after else'' p in Some p)
           else Some p);
     complete m IfExpr p
   }"

definition match_arm :: "subparsers \<Rightarrow> Parser \<Rightarrow> Parser option" where
  "match_arm rc p = do {
     let (m, p) = open_node p;
     (_, p) \<leftarrow> pattern rc p;
     (_, p) \<leftarrow> expect FatArrow p;
     (_, p) \<leftarrow> expr rc p;
     (_, p) \<leftarrow> complete m MatchArm p;
     Some p
   }"

definition match_arm_step :: "subparsers \<Rightarrow> Parser \<Rightarrow> (Parser \<times> bool) option" where
  "match_arm_step rc start =
     (if at RBrace start \<or> at_eof start then Some (start, False)
      else do {
        p \<leftarrow> (if can_start_pattern (current start) then do {
                p \<leftarrow> match_arm rc start;
                (_, p) \<leftarrow> eat Comma p;
                Some p
              }
              else do {
                (b, p) \<leftarrow> eat Pipe start;
                if b then (let p = error ''match arms do not use a leading `|`'' p in Some p)
                else error_recover ''expected match arm'' (ts_new [RBrace, Comma]) p
              });
        p \<leftarrow> force_progress (token_pos start) p;
        Some (p, True)
      })"

definition match_arm_list :: "subparsers \<Rightarrow> Parser \<Rightarrow> Parser option" where
  "match_arm_list rc p = do {
     let (m, p) = open_node p;
     (_, p) \<leftarrow> expect LBrace p;
     p \<leftarrow> loop_p (match_arm_step rc) p;
     (_, p) \<leftarrow> expect RBrace p;
     (_, p) \<leftarrow> complete m MatchArmList p;
     Some p
   }"

definition match_expr :: "subparsers \<Rightarrow> Parser \<Rightarrow> CompletedMarker parse_result" where
  "match_expr rc p = do {
     let (m, p) = open_node p;
     p \<leftarrow> bump p;
     (b, p) \<leftarrow> eat LParen p;
     p \<leftarrow> (if b then do {
             (_, p) \<leftarrow> expr rc p;
             (_, p) \<leftarrow> expect RParen p;
             Some p
           }
           else error_recover_parenthesized_head ''match scrutinee must be parenthesized''
                  MATCH_HEAD_RECOVERY p);
     p \<leftarrow> match_arm_list rc p;
     complete m MatchExpr p
   }"

definition return_expr :: "subparsers \<Rightarrow> Parser \<Rightarrow> CompletedMarker parse_result" where
  "return_expr rc p = do {
     let (m, p) = open_node p;
     p \<leftarrow> bump p;
     p \<leftarrow> (if can_start_expr_or_keyword (current p) then do { (_, p) \<leftarrow> expr rc p; Some p }
           else Some p);
     complete m ReturnExpr p
   }"

definition old_expr :: "subparsers \<Rightarrow> Parser \<Rightarrow> CompletedMarker parse_result" where
  "old_expr rc p = do {
     let (m, p) = open_node p;
     p \<leftarrow> bump p;
     (_, p) \<leftarrow> expect LParen p;
     (_, p) \<leftarrow> expr rc p;
     (_, p) \<leftarrow> expect RParen p;
     complete m OldExpr p
   }"

definition lambda_param :: "subparsers \<Rightarrow> Parser \<Rightarrow> Parser option" where
  "lambda_param rc p = do {
     let (m, p) = open_node p;
     (_, p) \<leftarrow> expect_identifier ParameterName p;
     (b, p) \<leftarrow> eat Colon p;
     p \<leftarrow> (if b then do { (_, p) \<leftarrow> rc NTypeExpr p; Some p } else Some p);
     (_, p) \<leftarrow> complete m Param p;
     Some p
   }"

definition lambda_expr :: "subparsers \<Rightarrow> Parser \<Rightarrow> CompletedMarker parse_result" where
  "lambda_expr rc p = do {
     let (m, p) = open_node p;
     p \<leftarrow> bump p;
     let (pm, p) = open_node p;
     (_, p) \<leftarrow> expect LParen p;
     p \<leftarrow> (if \<not> at RParen p then do {
             p \<leftarrow> lambda_param rc p;
             while_eat Comma (at RParen) (lambda_param rc) p
           }
           else Some p);
     (_, p) \<leftarrow> expect RParen p;
     (_, p) \<leftarrow> complete pm ParamList p;
     (_, p) \<leftarrow> expect FatArrow p;
     (_, p) \<leftarrow> expr rc p;
     complete m LambdaExpr p
   }"

definition primary :: "subparsers \<Rightarrow> Parser \<Rightarrow> CompletedMarker option parse_result" where
  "primary rc p =
     (if current p \<in> {IntLiteral, FloatLiteral, StringLiteral, CharLiteral}
      then do { (cm, p) \<leftarrow> literal_expr p; Some (Some cm, p) }
      else if current p \<in> {TrueKw, FalseKw}
      then do { (cm, p) \<leftarrow> literal_expr p; Some (Some cm, p) }
      else if current p = Underscore then do { (cm, p) \<leftarrow> hole_expr p; Some (Some cm, p) }
      else if current p = LParen then do { (cm, p) \<leftarrow> paren_expr rc p; Some (Some cm, p) }
      else if current p = LBrace then do { (cm, p) \<leftarrow> brace_expr rc p; Some (Some cm, p) }
      else if current p = IfKw then do { (cm, p) \<leftarrow> if_expr rc p; Some (Some cm, p) }
      else if current p = MatchKw then do { (cm, p) \<leftarrow> match_expr rc p; Some (Some cm, p) }
      else if current p = ReturnKw then do { (cm, p) \<leftarrow> return_expr rc p; Some (Some cm, p) }
      else if current p = OldKw then do { (cm, p) \<leftarrow> old_expr rc p; Some (Some cm, p) }
      else if current p = FnKw then do { (cm, p) \<leftarrow> lambda_expr rc p; Some (Some cm, p) }
      else if is_identifier_token (current p)
      then do { (cm, p) \<leftarrow> ident_or_path_or_record rc p; Some (Some cm, p) }
      else if is_keyword (current p)
      then do { p \<leftarrow> error_keyword_as_identifier ExpressionName p; Some (None, p) }
      else if current p = LeftArrow
      then do {
        p \<leftarrow> error_recover (''unexpected `<-` outside property parameter; '' @
               ''did you mean `< -` (comparison with negative) '' @
               ''or `name: Type <- Gen...` in a property parameter?'') EXPR_RECOVERY p;
        Some (None, p)
      }
      else do { p \<leftarrow> error_recover ''expected expression'' EXPR_RECOVERY p; Some (None, p) })"

section \<open>Precedence climbing\<close>

definition lhs :: "subparsers \<Rightarrow> Parser \<Rightarrow> CompletedMarker option parse_result" where
  "lhs rc p =
     (if is_unary_prefix_operator (current p) then do {
        let (m, p) = open_node p;
        p \<leftarrow> bump p;
        (_, p) \<leftarrow> rc (NExprBp 23) p;
        (cm, p) \<leftarrow> complete m UnaryExpr p;
        Some (Some cm, p)
      }
      else primary rc p)"

definition postfix_step ::
  "subparsers \<Rightarrow> nat \<Rightarrow> CompletedMarker \<times> Parser \<Rightarrow> ((CompletedMarker \<times> Parser) \<times> bool) option" where
  "postfix_step rc min_bp = (\<lambda>(l, p).
     if current p = Question \<and> min_bp \<le> 25 then do {
       (m, p) \<leftarrow> precede l p;
       p \<leftarrow> bump p;
       (l, p) \<leftarrow> complete m PropagateExpr p;
       Some ((l, p), True)
     }
     else if current p = Dot \<and> min_bp \<le> 25 then do {
       (m, p) \<leftarrow> precede l p;
       p \<leftarrow> bump p;
       (_, p) \<leftarrow> expect_identifier FieldName p;
       (l, p) \<leftarrow> complete m FieldExpr p;
       Some ((l, p), True)
     }
     else if current p = LParen \<and> min_bp \<le> 25 \<and> \<not> has_line_break_before_current p then do {
       (m, p) \<leftarrow> precede l p;
       p \<leftarrow> arg_list rc p;
       (l, p) \<leftarrow> complete m CallExpr p;
       Some ((l, p), True)
     }
     else if current p = LBracket \<and> min_bp \<le> 25 \<and> \<not> has_line_break_before_current p then do {
       (m, p) \<leftarrow> precede l p;
       p \<leftarrow> bump p;
       (_, p) \<leftarrow> expr rc p;
       (_, p) \<leftarrow> expect RBracket p;
       (l, p) \<leftarrow> complete m IndexExpr p;
       Some ((l, p), True)
     }
     else Some ((l, p), False))"

definition infix_step ::
  "subparsers \<Rightarrow> nat \<Rightarrow> CompletedMarker \<times> Parser \<Rightarrow> ((CompletedMarker \<times> Parser) \<times> bool) option" where
  "infix_step rc min_bp = (\<lambda>(l, start).
     case infix_binding_power (current start) of
       None \<Rightarrow> Some ((l, start), False)
     | Some (left_bp, right_bp) \<Rightarrow>
         if left_bp < min_bp then Some ((l, start), False)
         else do {
           (m, p) \<leftarrow> precede l start;
           p \<leftarrow> bump p;
           p \<leftarrow> (if current start = DotDotLt \<and> \<not> can_start_expr_or_keyword (current p)
                 then error_recover ''expected expression after `..<`'' RANGE_RHS_RECOVERY p
                 else do { (_, p) \<leftarrow> rc (NExprBp right_bp) p; Some p });
           (l, p) \<leftarrow> complete m (if current start = PipeGt then PipelineExpr else BinaryExpr) p;
           Some ((l, p), True)
         })"

definition expr_bp :: "subparsers \<Rightarrow> nat \<Rightarrow> Parser \<Rightarrow> CompletedMarker option parse_result" where
  "expr_bp rc min_bp p = do {
     (r, p) \<leftarrow> lhs rc p;
     case r of
       None \<Rightarrow> Some (None, p)
     | Some l \<Rightarrow> do {
         (l, p) \<leftarrow> loop_with (postfix_step rc min_bp) (l, p);
         (l, p) \<leftarrow> loop_with (infix_step rc min_bp) (l, p);
         Some (Some l, p)
       }
   }"

end
