(* ===== verification/Grammar_Items.thy ===== *)
theory Grammar_Items
  imports Grammar_Expr
begin

text \<open>
  Top-level items (\<open>parser/src/grammar/items.rs\<close>), the source file (\<open>grammar.rs\<close>), and the entry
  point \<open>parse\<close> (\<open>parser/src/lib.rs\<close>), where the recursion of the grammar is tied: \<open>subparse n\<close>
  lets grammar functions nest \<open>n\<close> deep through the five cyclic ones.  The depth that \<open>parse\<close> allows
  is the amount of input plus one, since every cyclic call happens after a token was consumed;
  that it is enough is part of what \<open>Grammar_Total\<close> proves.
\<close>

section \<open>Recovery sets\<close>

definition ITEM_RECOVERY :: TokenSet where
  "ITEM_RECOVERY = ts_new [FromKw, ImportKw, TypeKw, TraitKw, ImplKw, FnKw, CapKw, EffectKw,
     PropertyKw, LetKw, VarKw, PubKw]"

definition CLAUSE_EXPR_RECOVERY :: TokenSet where
  "CLAUSE_EXPR_RECOVERY = ts_new [LBrace, RBrace, Semicolon, Comma, ContractKw, WithKw, RequiresKw,
     EnsuresKw, InvariantKw, WhereKw]"

section \<open>Imports\<close>

definition recover_invalid_module_decl :: "Parser \<Rightarrow> Parser option" where
  "recover_invalid_module_decl p = do {
     let (m, p) = open_node p;
     let p = error ''unexpected `module` at top level'' p;
     p \<leftarrow> bump p;
     p \<leftarrow> (if at_ident_like p then do {
             (_, p) \<leftarrow> expect_identifier PathSegment p;
             while_eat Dot (\<lambda>p. \<not> at_ident_like p)
               (\<lambda>p. do { (_, p) \<leftarrow> expect_identifier PathSegment p; Some p }) p
           }
           else Some p);
     (_, p) \<leftarrow> complete m ErrorNode p;
     Some p
   }"

definition import_alias :: "Parser \<Rightarrow> Parser option" where
  "import_alias p = do {
     let (m, p) = open_node p;
     p \<leftarrow> bump p;
     (_, p) \<leftarrow> expect_identifier ImportAliasName p;
     (_, p) \<leftarrow> complete m ImportAlias p;
     Some p
   }"

definition import_member :: "Parser \<Rightarrow> Parser option" where
  "import_member p = do {
     let (m, p) = open_node p;
     if at Star p then do {
       let p = error ''star imports are not supported'' p;
       p \<leftarrow> bump p;
       (_, p) \<leftarrow> complete m ImportMember p;
       Some p
     }
     else do {
       (_, p) \<leftarrow> expect_identifier PathSegment p;
       p \<leftarrow> (if at AsKw p then import_alias p else Some p);
       (_, p) \<leftarrow> complete m ImportMember p;
       Some p
     }
   }"

definition import_member_list :: "Parser \<Rightarrow> Parser option" where
  "import_member_list p = do {
     let (m, p) = open_node p;
     p \<leftarrow> import_member p;
     p \<leftarrow> while_eat Comma
            (\<lambda>p. at_eof p \<or> at ImportKw p \<or> at FromKw p \<or> ts_contains ITEM_RECOVERY (current p))
            import_member p;
     (_, p) \<leftarrow> complete m ImportMemberList p;
     Some p
   }"

definition relative_import_path :: "Parser \<Rightarrow> Parser option" where
  "relative_import_path p = do {
     let (err, p) = open_node p;
     let p = error ''relative imports are not supported'' p;
     p \<leftarrow> while_eat Dot (\<lambda>p. \<not> at_ident_like p)
            (\<lambda>p. do { (_, p) \<leftarrow> expect_identifier PathSegment p; Some p }) p;
     (_, p) \<leftarrow> complete err ErrorNode p;
     Some p
   }"

definition import_decl :: "Parser \<Rightarrow> CompletedMarker parse_result" where
  "import_decl p = do {
     let (m, p) = open_node p;
     p \<leftarrow> (if at ImportKw p then do {
             p \<leftarrow> bump p;
             (_, p) \<leftarrow> parse_path p;
             if at AsKw p then import_alias p else Some p
           }
           else do {
             p \<leftarrow> bump p;
             p \<leftarrow> (if at Dot p then relative_import_path p
                   else do { (_, p) \<leftarrow> parse_path p; Some p });
             (_, p) \<leftarrow> expect ImportKw p;
             import_member_list p
           });
     complete m ImportDecl p
   }"

section \<open>Generics\<close>

definition trait_ref :: "subparsers \<Rightarrow> Parser \<Rightarrow> Parser option" where
  "trait_ref rc p = do {
     let (m, p) = open_node p;
     (_, p) \<leftarrow> parse_path p;
     p \<leftarrow> (if at Lt p then type_arg_list rc p else Some p);
     (_, p) \<leftarrow> complete m TraitRef p;
     Some p
   }"

definition type_param_bound_list :: "subparsers \<Rightarrow> Parser \<Rightarrow> Parser option" where
  "type_param_bound_list rc p = do {
     let (m, p) = open_node p;
     p \<leftarrow> bump p;
     p \<leftarrow> trait_ref rc p;
     p \<leftarrow> while_eat Plus (\<lambda>p. False) (trait_ref rc) p;
     (_, p) \<leftarrow> complete m TypeParamBoundList p;
     Some p
   }"

definition type_param :: "subparsers \<Rightarrow> Parser \<Rightarrow> Parser option" where
  "type_param rc p = do {
     let (m, p) = open_node p;
     (_, p) \<leftarrow> expect_identifier TypeParameterName p;
     p \<leftarrow> (if at Colon p then type_param_bound_list rc p else Some p);
     (_, p) \<leftarrow> complete m TypeParam p;
     Some p
   }"

definition type_param_list :: "subparsers \<Rightarrow> Parser \<Rightarrow> Parser option" where
  "type_param_list rc p = do {
     let (m, p) = open_node p;
     p \<leftarrow> bump p;
     p \<leftarrow> type_param rc p;
     p \<leftarrow> while_eat Comma (at Gt) (type_param rc) p;
     (_, p) \<leftarrow> expect Gt p;
     (_, p) \<leftarrow> complete m TypeParamList p;
     Some p
   }"

section \<open>Type definitions\<close>

definition derive_clause :: "subparsers \<Rightarrow> Parser \<Rightarrow> Parser option" where
  "derive_clause rc p = do {
     let (m, p) = open_node p;
     p \<leftarrow> bump p;
     (_, p) \<leftarrow> expect LParen p;
     p \<leftarrow> (if \<not> at RParen p then do {
             p \<leftarrow> trait_ref rc p;
             while_eat Comma (at RParen) (trait_ref rc) p
           }
           else Some p);
     (_, p) \<leftarrow> expect RParen p;
     (_, p) \<leftarrow> complete m DeriveClause p;
     Some p
   }"

definition variant_field :: "subparsers \<Rightarrow> Parser \<Rightarrow> Parser option" where
  "variant_field rc p = do {
     let (fm, p) = open_node p;
     (_, p) \<leftarrow> rc NTypeExpr p;
     (_, p) \<leftarrow> complete fm VariantField p;
     Some p
   }"

definition variant_field_list :: "subparsers \<Rightarrow> Parser \<Rightarrow> Parser option" where
  "variant_field_list rc p = do {
     let (m, p) = open_node p;
     p \<leftarrow> bump p;
     p \<leftarrow> (if \<not> at RParen p then do {
             p \<leftarrow> variant_field rc p;
             while_eat Comma (at RParen) (variant_field rc) p
           }
           else Some p);
     (_, p) \<leftarrow> expect RParen p;
     (_, p) \<leftarrow> complete m VariantFieldList p;
     Some p
   }"

definition variant :: "subparsers \<Rightarrow> Parser \<Rightarrow> Parser option" where
  "variant rc p = do {
     let (m, p) = open_node p;
     (_, p) \<leftarrow> expect_identifier VariantName p;
     p \<leftarrow> (if at LParen p then variant_field_list rc p else Some p);
     (_, p) \<leftarrow> complete m Variant p;
     Some p
   }"

definition variant_list_step :: "subparsers \<Rightarrow> Parser \<Rightarrow> (Parser \<times> bool) option" where
  "variant_list_step rc p = do {
     (b, p) \<leftarrow> eat Pipe p;
     if \<not> b then Some (p, False)
     else if at Pipe p then (let p = error ''expected variant after `|`'' p in Some (p, False))
     else do { p \<leftarrow> variant rc p; Some (p, True) }
   }"

definition variant_list :: "subparsers \<Rightarrow> Parser \<Rightarrow> Parser option" where
  "variant_list rc p = do {
     let (m, p) = open_node p;
     p \<leftarrow> variant rc p;
     p \<leftarrow> loop_p (variant_list_step rc) p;
     (_, p) \<leftarrow> complete m VariantList p;
     Some p
   }"

definition starts_variant_list :: "Parser \<Rightarrow> bool" where
  "starts_variant_list p \<longleftrightarrow>
     at_ident_like p \<and> current p \<noteq> FnKw \<and> nth_kind p 1 \<in> {Pipe, LParen}"

definition type_body :: "subparsers \<Rightarrow> Parser \<Rightarrow> Parser option" where
  "type_body rc p = do {
     p \<leftarrow> (if at Pipe p then do {
             let p = error ''leading `|` is not allowed in type variants'' p;
             bump p
           }
           else Some p);
     if starts_variant_list p then variant_list rc p
     else do { (_, p) \<leftarrow> rc NTypeExpr p; Some p }
   }"

definition type_def :: "subparsers \<Rightarrow> bool \<Rightarrow> Parser \<Rightarrow> CompletedMarker parse_result" where
  "type_def rc is_pub p = do {
     let (m, p) = open_node p;
     p \<leftarrow> (if is_pub then bump p else Some p);
     p \<leftarrow> bump p;
     (_, p) \<leftarrow> expect_identifier TypeName p;
     p \<leftarrow> (if at Lt p then type_param_list rc p else Some p);
     p \<leftarrow> (if at DeriveKw p then derive_clause rc p else Some p);
     (_, p) \<leftarrow> expect Eq p;
     p \<leftarrow> type_body rc p;
     complete m TypeDef p
   }"

section \<open>Parameters and contracts\<close>

definition param :: "subparsers \<Rightarrow> Parser \<Rightarrow> Parser option" where
  "param rc p = do {
     let (m, p) = open_node p;
     (_, p) \<leftarrow> expect_identifier ParameterName p;
     (b, p) \<leftarrow> eat Colon p;
     p \<leftarrow> (if b then do { (_, p) \<leftarrow> rc NTypeExpr p; Some p } else Some p);
     (_, p) \<leftarrow> complete m Param p;
     Some p
   }"

definition param_list :: "subparsers \<Rightarrow> Parser \<Rightarrow> Parser option" where
  "param_list rc p = do {
     let (m, p) = open_node p;
     (_, p) \<leftarrow> expect LParen p;
     p \<leftarrow> (if \<not> at RParen p then do {
             p \<leftarrow> param rc p;
             while_eat Comma (at RParen) (param rc) p
           }
           else Some p);
     (_, p) \<leftarrow> expect RParen p;
     (_, p) \<leftarrow> complete m ParamList p;
     Some p
   }"

definition return_type :: "subparsers \<Rightarrow> Parser \<Rightarrow> Parser option" where
  "return_type rc p = do {
     let (m, p) = open_node p;
     p \<leftarrow> bump p;
     (_, p) \<leftarrow> rc NTypeExpr p;
     (_, p) \<leftarrow> complete m ReturnType p;
     Some p
   }"

definition parse_parenthesized_clause_expr ::
  "subparsers \<Rightarrow> string \<Rightarrow> Parser \<Rightarrow> Parser option" where
  "parse_parenthesized_clause_expr rc msg p = do {
     (b, p) \<leftarrow> eat LParen p;
     if b then do {
       (_, p) \<leftarrow> expr rc p;
       (_, p) \<leftarrow> expect RParen p;
       Some p
     }
     else error_recover_parenthesized_head msg CLAUSE_EXPR_RECOVERY p
   }"

definition requires_clause :: "subparsers \<Rightarrow> Parser \<Rightarrow> Parser option" where
  "requires_clause rc p = do {
     let (m, p) = open_node p;
     p \<leftarrow> bump p;
     p \<leftarrow> parse_parenthesized_clause_expr rc ''requires clause expression must be parenthesized'' p;
     (_, p) \<leftarrow> complete m RequiresClause p;
     Some p
   }"

definition ensures_clause :: "subparsers \<Rightarrow> Parser \<Rightarrow> Parser option" where
  "ensures_clause rc p = do {
     let (m, p) = open_node p;
     p \<leftarrow> bump p;
     p \<leftarrow> parse_parenthesized_clause_expr rc ''ensures clause expression must be parenthesized'' p;
     (_, p) \<leftarrow> complete m EnsuresClause p;
     Some p
   }"

definition invariant_clause :: "subparsers \<Rightarrow> Parser \<Rightarrow> Parser option" where
  "invariant_clause rc p = do {
     let (m, p) = open_node p;
     p \<leftarrow> bump p;
     p \<leftarrow> parse_parenthesized_clause_expr rc ''invariant clause expression must be parenthesized'' p;
     (_, p) \<leftarrow> complete m InvariantClause p;
     Some p
   }"

definition with_clause :: "subparsers \<Rightarrow> Parser \<Rightarrow> Parser option" where
  "with_clause rc p = do {
     let (m, p) = open_node p;
     p \<leftarrow> bump p;
     (_, p) \<leftarrow> rc NTypeExpr p;
     p \<leftarrow> while_eat Comma
            (\<lambda>p. at LBrace p \<or> at ContractKw p \<or> at RequiresKw p \<or> at EnsuresKw p \<or> at InvariantKw p)
            (\<lambda>p. do { (_, p) \<leftarrow> rc NTypeExpr p; Some p }) p;
     (_, p) \<leftarrow> complete m WithClause p;
     Some p
   }"

definition consume_misplaced_clause_expr :: "subparsers \<Rightarrow> Parser \<Rightarrow> Parser option" where
  "consume_misplaced_clause_expr rc p = do {
     (b, p) \<leftarrow> eat LParen p;
     if b then do {
       (_, p) \<leftarrow> expr rc p;
       (_, p) \<leftarrow> expect RParen p;
       Some p
     }
     else recover_parenthesized_head_content CLAUSE_EXPR_RECOVERY p
   }"

definition misplaced_contract_clause_with_name ::
  "subparsers \<Rightarrow> string \<Rightarrow> SyntaxKind \<Rightarrow> Parser \<Rightarrow> Parser option" where
  "misplaced_contract_clause_with_name rc name node_kind p = do {
     let (m, p) = open_node p;
     let p = error (''`'' @ name @ ''` clause must appear inside `contract` section'') p;
     p \<leftarrow> bump p;
     p \<leftarrow> consume_misplaced_clause_expr rc p;
     (_, p) \<leftarrow> complete m node_kind p;
     Some p
   }"

definition misplaced_contract_clause :: "subparsers \<Rightarrow> Parser \<Rightarrow> Parser option" where
  "misplaced_contract_clause rc p =
     (if current p = RequiresKw then
        misplaced_contract_clause_with_name rc ''requires'' RequiresClause p
      else if current p = EnsuresKw then
        misplaced_contract_clause_with_name rc ''ensures'' EnsuresClause p
      else if current p = InvariantKw then
        misplaced_contract_clause_with_name rc ''invariant'' InvariantClause p
      else None)"

definition contract_clause_rank_and_name :: "SyntaxKind \<Rightarrow> (nat \<times> string) option" where
  "contract_clause_rank_and_name kind =
     (if kind = RequiresKw then Some (0, ''requires'')
      else if kind = EnsuresKw then Some (1, ''ensures'')
      else if kind = InvariantKw then Some (2, ''invariant'')
      else None)"

definition contract_clause_name_by_rank :: "nat \<Rightarrow> string option" where
  "contract_clause_name_by_rank rank =
     (if rank = 0 then Some ''requires''
      else if rank = 1 then Some ''ensures''
      else if rank = 2 then Some ''invariant''
      else None)"

definition contract_section_step ::
  "subparsers \<Rightarrow> nat option \<times> Parser \<Rightarrow> ((nat option \<times> Parser) \<times> bool) option" where
  "contract_section_step rc = (\<lambda>(max_seen_rank, p).
     case contract_clause_rank_and_name (current p) of
       None \<Rightarrow> Some ((max_seen_rank, p), False)
     | Some (rank, name) \<Rightarrow> do {
         p \<leftarrow> (case max_seen_rank of
                 None \<Rightarrow> Some p
               | Some prev_rank \<Rightarrow>
                   if rank < prev_rank then
                     (case contract_clause_name_by_rank prev_rank of
                        None \<Rightarrow> Some p
                      | Some prev_name \<Rightarrow>
                          (let p = error (name @ '' cannot appear after '' @ prev_name @
                             '' (contract clause order: requires, ensures, invariant)'') p
                           in Some p))
                   else Some p);
         p \<leftarrow> (if current p = RequiresKw then requires_clause rc p
               else if current p = EnsuresKw then ensures_clause rc p
               else if current p = InvariantKw then invariant_clause rc p
               else None);
         Some ((Some (case max_seen_rank of None \<Rightarrow> rank | Some r \<Rightarrow> max r rank), p), True)
       })"

definition contract_section :: "subparsers \<Rightarrow> Parser \<Rightarrow> Parser option" where
  "contract_section rc p = do {
     let (m, p) = open_node p;
     p \<leftarrow> bump p;
     if current p \<notin> {RequiresKw, EnsuresKw, InvariantKw} then do {
       let p = error ''contract section must contain at least one clause'' p;
       (_, p) \<leftarrow> complete m ContractSection p;
       Some p
     }
     else do {
       (_, p) \<leftarrow> loop_with (contract_section_step rc) (None, p);
       (_, p) \<leftarrow> complete m ContractSection p;
       Some p
     }
   }"

definition with_clauses_step ::
  "subparsers \<Rightarrow> bool \<times> Parser \<Rightarrow> ((bool \<times> Parser) \<times> bool) option" where
  "with_clauses_step rc = (\<lambda>(seen_with, p).
     if \<not> at WithKw p then Some ((seen_with, p), False)
     else do {
       p \<leftarrow> (if seen_with then (let p = error ''duplicate `with` clause'' p in Some p) else Some p);
       p \<leftarrow> with_clause rc p;
       Some ((True, p), True)
     })"

definition misplaced_clauses_step :: "subparsers \<Rightarrow> Parser \<Rightarrow> (Parser \<times> bool) option" where
  "misplaced_clauses_step rc p =
     (if current p \<notin> {RequiresKw, EnsuresKw, InvariantKw} then Some (p, False)
      else do { p \<leftarrow> misplaced_contract_clause rc p; Some (p, True) })"

definition fn_contract :: "subparsers \<Rightarrow> Parser \<Rightarrow> Parser option" where
  "fn_contract rc p = do {
     (_, p) \<leftarrow> loop_with (with_clauses_step rc) (False, p);
     p \<leftarrow> (if at ContractKw p then contract_section rc p else Some p);
     loop_p (misplaced_clauses_step rc) p
   }"

section \<open>Functions, traits and implementations\<close>

definition fn_def :: "subparsers \<Rightarrow> bool \<Rightarrow> bool \<Rightarrow> Parser \<Rightarrow> CompletedMarker parse_result" where
  "fn_def rc is_pub allow_bodyless p = do {
     let (m, p) = open_node p;
     p \<leftarrow> (if is_pub then bump p else Some p);
     p \<leftarrow> bump p;
     (_, p) \<leftarrow> expect_identifier (if nth_kind p 1 = Dot then TypeName else FunctionName) p;
     p \<leftarrow> (if at Dot p then do {
             p \<leftarrow> bump p;
             (_, p) \<leftarrow> expect_identifier MethodName p;
             Some p
           }
           else Some p);
     p \<leftarrow> (if at Lt p then type_param_list rc p else Some p);
     p \<leftarrow> param_list rc p;
     p \<leftarrow> (if at Arrow p then return_type rc p else Some p);
     p \<leftarrow> fn_contract rc p;
     p \<leftarrow> (if at LBrace p then do { (_, p) \<leftarrow> rc NBlockExpr p; Some p }
           else if \<not> allow_bodyless then (let p = error ''expected function body'' p in Some p)
           else Some p);
     complete m FnDef p
   }"

definition supertrait_list :: "subparsers \<Rightarrow> Parser \<Rightarrow> Parser option" where
  "supertrait_list rc p = do {
     let (m, p) = open_node p;
     p \<leftarrow> bump p;
     p \<leftarrow> trait_ref rc p;
     p \<leftarrow> while_eat Plus (\<lambda>p. False) (trait_ref rc) p;
     (_, p) \<leftarrow> complete m SupertraitList p;
     Some p
   }"

definition trait_method_sig :: "subparsers \<Rightarrow> Parser \<Rightarrow> Parser option" where
  "trait_method_sig rc p = do {
     let (m, p) = open_node p;
     p \<leftarrow> bump p;
     (_, p) \<leftarrow> expect_identifier MethodName p;
     p \<leftarrow> (if at Lt p then type_param_list rc p else Some p);
     p \<leftarrow> param_list rc p;
     p \<leftarrow> (if at Arrow p then return_type rc p else Some p);
     p \<leftarrow> fn_contract rc p;
     p \<leftarrow> (if at LBrace p then do {
             let (err, p) = open_node p;
             let p = error ''trait method declarations cannot have a body'' p;
             (_, p) \<leftarrow> rc NBlockExpr p;
             (_, p) \<leftarrow> complete err ErrorNode p;
             Some p
           }
           else Some p);
     (_, p) \<leftarrow> complete m TraitMethodSig p;
     Some p
   }"

definition trait_step :: "subparsers \<Rightarrow> Parser \<Rightarrow> (Parser \<times> bool) option" where
  "trait_step rc p =
     (if at RBrace p \<or> at_eof p then Some (p, False)
      else do {
        p \<leftarrow> (if at FnKw p then trait_method_sig rc p
              else error_recover ''expected trait method signature'' (ts_new [FnKw, RBrace]) p);
        Some (p, True)
      })"

definition trait_def :: "subparsers \<Rightarrow> bool \<Rightarrow> Parser \<Rightarrow> CompletedMarker parse_result" where
  "trait_def rc is_pub p = do {
     let (m, p) = open_node p;
     p \<leftarrow> (if is_pub then bump p else Some p);
     p \<leftarrow> bump p;
     (_, p) \<leftarrow> expect_identifier TypeName p;
     p \<leftarrow> (if at Lt p then type_param_list rc p else Some p);
     p \<leftarrow> (if at Colon p then supertrait_list rc p else Some p);
     (_, p) \<leftarrow> expect LBrace p;
     p \<leftarrow> loop_p (trait_step rc) p;
     (_, p) \<leftarrow> expect RBrace p;
     complete m TraitDef p
   }"

definition impl_method_def :: "subparsers \<Rightarrow> Parser \<Rightarrow> Parser option" where
  "impl_method_def rc p = do {
     let (m, p) = open_node p;
     p \<leftarrow> bump p;
     (_, p) \<leftarrow> expect_identifier MethodName p;
     p \<leftarrow> (if at Lt p then type_param_list rc p else Some p);
     p \<leftarrow> param_list rc p;
     p \<leftarrow> (if at Arrow p then return_type rc p else Some p);
     p \<leftarrow> fn_contract rc p;
     p \<leftarrow> (if at LBrace p then do { (_, p) \<leftarrow> rc NBlockExpr p; Some p }
           else (let p = error ''expected function body'' p in Some p));
     (_, p) \<leftarrow> complete m ImplMethodDef p;
     Some p
   }"

definition impl_step :: "subparsers \<Rightarrow> Parser \<Rightarrow> (Parser \<times> bool) option" where
  "impl_step rc p =
     (if at RBrace p \<or> at_eof p then Some (p, False)
      else do {
        p \<leftarrow> (if at FnKw p then impl_method_def rc p
              else error_recover ''expected impl method definition'' (ts_new [FnKw, RBrace]) p);
        Some (p, True)
      })"

definition impl_def :: "subparsers \<Rightarrow> Parser \<Rightarrow> CompletedMarker parse_result" where
  "impl_def rc p = do {
     let (m, p) = open_node p;
     p \<leftarrow> bump p;
     p \<leftarrow> (if at Lt p then type_param_list rc p else Some p);
     p \<leftarrow> trait_ref rc p;
     (_, p) \<leftarrow> expect ForKw p;
     (_, p) \<leftarrow> rc NTypeExpr p;
     (_, p) \<leftarrow> expect LBrace p;
     p \<leftarrow> loop_p (impl_step rc) p;
     (_, p) \<leftarrow> expect RBrace p;
     complete m ImplDef p
   }"

section \<open>Effects and properties\<close>

definition effect_body_step :: "Parser \<Rightarrow> (Parser \<times> bool) option" where
  "effect_body_step p =
     (if at RBrace p \<or> at_eof p then Some (p, False)
      else do { p \<leftarrow> bump p; Some (p, True) })"

definition effect_def :: "subparsers \<Rightarrow> bool \<Rightarrow> Parser \<Rightarrow> CompletedMarker parse_result" where
  "effect_def rc is_pub p = do {
     let (m, p) = open_node p;
     p \<leftarrow> (if is_pub then bump p else Some p);
     p \<leftarrow> bump p;
     (_, p) \<leftarrow> expect_identifier EffectName p;
     p \<leftarrow> (if at Lt p then do {
             let p = error ''effect declarations cannot have type parameters'' p;
             type_param_list rc p
           }
           else Some p);
     p \<leftarrow> (if at LBrace p then do {
             let (err, p) = open_node p;
             let p = error ''effect declarations are labels only; remove body'' p;
             p \<leftarrow> bump p;
             p \<leftarrow> loop_p effect_body_step p;
             (_, p) \<leftarrow> expect RBrace p;
             (_, p) \<leftarrow> complete err ErrorNode p;
             Some p
           }
           else Some p);
     complete m EffectDef p
   }"

definition property_param :: "subparsers \<Rightarrow> Parser \<Rightarrow> Parser option" where
  "property_param rc p = do {
     let (m, p) = open_node p;
     (_, p) \<leftarrow> expect_identifier ParameterName p;
     (_, p) \<leftarrow> expect Colon p;
     (_, p) \<leftarrow> rc NTypeExpr p;
     (b, p) \<leftarrow> eat LeftArrow p;
     p \<leftarrow> (if \<not> b then
             error_recover (''property parameters must use `<-` generator binding, '' @
               ''e.g. `x: Int <- Gen.auto()`'') (ts_new [Comma, RParen]) p
           else do { (_, p) \<leftarrow> expr rc p; Some p });
     (_, p) \<leftarrow> complete m PropertyParam p;
     Some p
   }"

definition property_param_list :: "subparsers \<Rightarrow> Parser \<Rightarrow> Parser option" where
  "property_param_list rc p = do {
     let (m, p) = open_node p;
     (_, p) \<leftarrow> expect LParen p;
     p \<leftarrow> (if \<not> at RParen p then do {
             p \<leftarrow> property_param rc p;
             while_eat Comma (at RParen) (property_param rc) p
           }
           else Some p);
     (_, p) \<leftarrow> expect RParen p;
     (_, p) \<leftarrow> complete m PropertyParamList p;
     Some p
   }"

definition where_clause :: "subparsers \<Rightarrow> Parser \<Rightarrow> Parser option" where
  "where_clause rc p = do {
     let (m, p) = open_node p;
     p \<leftarrow> bump p;
     p \<leftarrow> parse_parenthesized_clause_expr rc ''where clause expression must be parenthesized'' p;
     (_, p) \<leftarrow> complete m WhereClause p;
     Some p
   }"

definition property_def :: "subparsers \<Rightarrow> Parser \<Rightarrow> CompletedMarker parse_result" where
  "property_def rc p = do {
     let (m, p) = open_node p;
     p \<leftarrow> bump p;
     (_, p) \<leftarrow> expect_identifier PropertyName p;
     p \<leftarrow> property_param_list rc p;
     p \<leftarrow> (if at WhereKw p then where_clause rc p else Some p);
     p \<leftarrow> (if at LBrace p then do { (_, p) \<leftarrow> rc NBlockExpr p; Some p } else Some p);
     complete m PropertyDef p
   }"

section \<open>Items and source files\<close>

definition unexpected_item :: "Parser \<Rightarrow> CompletedMarker option parse_result" where
  "unexpected_item p = do {
     p \<leftarrow> error_recover ''expected item'' ITEM_RECOVERY p;
     Some (None, p)
   }"

definition item_at ::
  "subparsers \<Rightarrow> bool \<Rightarrow> SyntaxKind \<Rightarrow> Parser \<Rightarrow> CompletedMarker option parse_result" where
  "item_at rc is_pub start p =
     (if start = TypeKw then do { (cm, p) \<leftarrow> type_def rc is_pub p; Some (Some cm, p) }
      else if start = TraitKw then do { (cm, p) \<leftarrow> trait_def rc is_pub p; Some (Some cm, p) }
      else if start = ImplKw then
        if is_pub then unexpected_item p
        else do { (cm, p) \<leftarrow> impl_def rc p; Some (Some cm, p) }
      else if start = FnKw then do { (cm, p) \<leftarrow> fn_def rc is_pub False p; Some (Some cm, p) }
      else if start = CapKw then do {
        let p = error ''`cap` is no longer supported; use `effect`'' p;
        p \<leftarrow> bump p;
        Some (None, p)
      }
      else if start = EffectKw then do { (cm, p) \<leftarrow> effect_def rc is_pub p; Some (Some cm, p) }
      else if start = PropertyKw then
        if is_pub then unexpected_item p
        else do { (cm, p) \<leftarrow> property_def rc p; Some (Some cm, p) }
      else if start = LetKw then
        if is_pub then unexpected_item p
        else do { (cm, p) \<leftarrow> let_binding rc p; Some (Some cm, p) }
      else if start = VarKw then
        if is_pub then unexpected_item p
        else do {
          let (err, p) = open_node p;
          let p = error ''top-level `var` bindings are not allowed'' p;
          (_, p) \<leftarrow> var_binding rc p;
          (_, p) \<leftarrow> complete err ErrorNode p;
          Some (None, p)
        }
      else unexpected_item p)"

definition item :: "subparsers \<Rightarrow> Parser \<Rightarrow> CompletedMarker option parse_result" where
  "item rc p =
     (if at PubKw p then item_at rc True (current_after_pub p) p
      else item_at rc False (current p) p)"

definition module_step :: "Parser \<Rightarrow> (Parser \<times> bool) option" where
  "module_step p =
     (if at ModuleKw p then do { p \<leftarrow> recover_invalid_module_decl p; Some (p, True) }
      else Some (p, False))"

definition import_step :: "Parser \<Rightarrow> (Parser \<times> bool) option" where
  "import_step p =
     (if at ImportKw p \<or> at FromKw p then do { (_, p) \<leftarrow> import_decl p; Some (p, True) }
      else Some (p, False))"

definition item_step :: "subparsers \<Rightarrow> Parser \<Rightarrow> (Parser \<times> bool) option" where
  "item_step rc start =
     (if at_eof start then Some (start, False)
      else if at ModuleKw start then do {
        p \<leftarrow> recover_invalid_module_decl start;
        Some (p, True)
      }
      else do {
        (_, p) \<leftarrow> item rc start;
        p \<leftarrow> force_progress (token_pos start) p;
        Some (p, True)
      })"

definition source_file :: "subparsers \<Rightarrow> Parser \<Rightarrow> Parser option" where
  "source_file rc p = do {
     let (m, p) = open_node p;
     p \<leftarrow> loop_p module_step p;
     p \<leftarrow> loop_p import_step p;
     p \<leftarrow> loop_p (item_step rc) p;
     (_, p) \<leftarrow> complete m SourceFile p;
     Some p
   }"

section \<open>Tying the recursion\<close>

definition some_marker ::
  "CompletedMarker parse_result \<Rightarrow> CompletedMarker option parse_result" where
  "some_marker x = do { (cm, p) \<leftarrow> x; Some (Some cm, p) }"

fun subparse :: "nat \<Rightarrow> subparsers" where
  "subparse 0 nt p = None"
| "subparse (Suc n) nt p =
     (case nt of
        NExprBp min_bp \<Rightarrow> expr_bp (subparse n) min_bp p
      | NBlockExpr \<Rightarrow> some_marker (block_expr (subparse n) p)
      | NIfExpr \<Rightarrow> some_marker (if_expr (subparse n) p)
      | NTypeExpr \<Rightarrow> type_expr (subparse n) p
      | NPattern role \<Rightarrow> pattern_with_role (subparse n) role p)"

definition parse :: "Input \<Rightarrow> (Event list \<times> ParseError list) option" where
  "parse i = do {
     let p = parser_new i;
     p \<leftarrow> source_file (subparse (Suc (remaining p))) p;
     Some (finish p)
   }"

end
