(* ===== verification/Grammar_Total.thy ===== *)
theory Grammar_Total
  imports Parser_Engine Grammar_Items
begin

text \<open>
  Every grammar function returns, whatever the tokens are: it never trips an assertion of the
  engine, never loops, closes every node it opens and keeps the state invariant.

  The interface between a grammar function and the cyclic functions it calls is the locale
  \<open>subparser_contract\<close>: the calls are safe from every state with less than \<open>n\<close> tokens left.
  Inside the locale each grammar function gets a weakest-precondition rule; together they show that
  \<open>subparse (Suc n)\<close> meets the contract with \<open>Suc n\<close> when \<open>subparse n\<close> meets it with \<open>n\<close>.  The
  interpretation at the end discharges the contract for \<open>subparse\<close> at every depth.
\<close>

section \<open>The contract of the cyclic functions\<close>

definition entry_ok :: "nonterm \<Rightarrow> Parser \<Rightarrow> bool" where
  "entry_ok nt p \<longleftrightarrow> (nt = NBlockExpr \<or> nt = NIfExpr \<longrightarrow> \<not> at_eof p)"

text \<open>
  From a state that is related to \<open>p0\<close>, a cyclic call is allowed when \<open>p0\<close> itself has less than
  \<open>n\<close> tokens left, or has at most \<open>n\<close> and something has been consumed since.
\<close>

definition calls_ok :: "nat \<Rightarrow> Parser \<Rightarrow> bool \<Rightarrow> bool" where
  "calls_ok n p0 c \<longleftrightarrow> remaining p0 < n \<or> c \<and> remaining p0 \<le> n"

locale subparser_contract =
  fixes rc :: subparsers and n :: nat
  assumes rc_returns: "st b p ms False p \<Longrightarrow> remaining p < n \<Longrightarrow> entry_ok nt p \<Longrightarrow>
    wp (rc nt p) (\<lambda>(r, q). st b p ms (r \<noteq> None) q \<and> (\<forall>cm. r = Some cm \<longrightarrow> cm \<in> starts b q))"
begin

lemma wp_rc [pwp]:
  assumes "st b p0 ms c p" and "calls_ok n p0 c" and "entry_ok nt p"
    and "\<And>r q. st b p0 ms (c \<or> r \<noteq> None) q \<Longrightarrow> (\<And>cm. r = Some cm \<Longrightarrow> cm \<in> starts b q) \<Longrightarrow> Q (r, q)"
  shows "wp (rc nt p) Q"
proof -
  have "remaining p < n" using assms(1,2) by (auto simp: calls_ok_def st_def)
  from rc_returns [OF st_rebase [OF assms(1)] this assms(3)] show ?thesis
    by (rule wp_mono) (use assms(1,4) in \<open>auto dest: st_trans\<close>)
qed

lemma wp_expr [pwp]:
  assumes "st b p0 ms c p" and "calls_ok n p0 c"
    and "\<And>r q. st b p0 ms (c \<or> r \<noteq> None) q \<Longrightarrow> (\<And>cm. r = Some cm \<Longrightarrow> cm \<in> starts b q) \<Longrightarrow> Q (r, q)"
  shows "wp (expr rc p) Q"
  unfolding expr_def using assms by (intro wp_rc) (auto simp: entry_ok_def)

lemma wp_pattern [pwp]:
  assumes "st b p0 ms c p" and "calls_ok n p0 c"
    and "\<And>r q. st b p0 ms (c \<or> r \<noteq> None) q \<Longrightarrow> Q (r, q)"
  shows "wp (pattern rc p) Q"
  unfolding pattern_def using assms by (intro wp_rc) (auto simp: entry_ok_def)

lemma wp_binding_pattern [pwp]:
  assumes "st b p0 ms c p" and "calls_ok n p0 c"
    and "\<And>r q. st b p0 ms (c \<or> r \<noteq> None) q \<Longrightarrow> Q (r, q)"
  shows "wp (binding_pattern rc p) Q"
  unfolding binding_pattern_def using assms by (intro wp_rc) (auto simp: entry_ok_def)

section \<open>Paths and types\<close>

lemma wp_parse_path [pwp]:
  assumes "st b p0 ms c p"
    and "\<And>cm q. st b p0 ms (c \<or> at_ident_like p) q \<Longrightarrow> cm \<in> starts b q \<Longrightarrow> Q (cm, q)"
  shows "wp (parse_path p) Q"
  using assms(1) unfolding parse_path_def
  by - (rule wp_intros assms(2) | erule pwp | simp add: at_ident_like_def current_def; fail)+

lemma wp_parse_single_path [pwp]:
  assumes "st b p0 ms c p"
    and "\<And>cm q. st b p0 ms (c \<or> at_ident_like p) q \<Longrightarrow> cm \<in> starts b q \<Longrightarrow> Q (cm, q)"
  shows "wp (parse_single_path p) Q"
  using assms(1) unfolding parse_single_path_def
  by - (rule wp_intros assms(2) | erule pwp | simp add: at_ident_like_def current_def; fail)+

lemmas gside = calls_ok_def entry_ok_def at_ident_like_def

lemma wp_record_field [pwp]:
  assumes "st b p0 ms c p" and "calls_ok n p0 c" and "\<And>q. st b p0 ms c q \<Longrightarrow> Q q"
  shows "wp (record_field rc p) Q"
  using assms(1,2) unfolding record_field_def
  by - (rule wp_intros assms(3) | erule pwp | auto simp: gside pside; fail)+

lemma wp_fn_type [pwp]:
  assumes "st b p0 ms c p" and "remaining p0 \<le> n" and "\<not> at_eof p"
    and "\<And>cm q. st b p0 ms True q \<Longrightarrow> cm \<in> starts b q \<Longrightarrow> Q (cm, q)"
  shows "wp (fn_type rc p) Q"
  using assms(1,2,3) unfolding fn_type_def
  by - (rule wp_intros assms(4) | erule pwp | auto simp: gside pside; fail)+

lemma wp_brace_type [pwp]:
  assumes "st b p0 ms c p" and "remaining p0 \<le> n" and "\<not> at_eof p"
    and "\<And>cm q. st b p0 ms True q \<Longrightarrow> cm \<in> starts b q \<Longrightarrow> Q (cm, q)"
  shows "wp (brace_type rc p) Q"
  using assms(1,2,3) unfolding brace_type_def
  by - (rule wp_intros assms(4) | erule pwp | auto simp: gside pside; fail)+

lemma wp_type_arg_list [pwp]:
  assumes "st b p0 ms c p" and "remaining p0 \<le> n" and "\<not> at_eof p"
    and "\<And>q. st b p0 ms True q \<Longrightarrow> Q q"
  shows "wp (type_arg_list rc p) Q"
  using assms(1,2,3) unfolding type_arg_list_def
  by - (rule wp_intros assms(4) | erule pwp | auto simp: gside pside; fail)+

lemma wp_name_type [pwp]:
  assumes "st b p0 ms c p" and "remaining p0 \<le> n" and "at_ident_like p"
    and "\<And>cm q. st b p0 ms True q \<Longrightarrow> cm \<in> starts b q \<Longrightarrow> Q (cm, q)"
  shows "wp (name_type rc p) Q"
  using assms(1,2,3) unfolding name_type_def
  by - (rule wp_intros assms(4) | erule pwp | auto simp: gside pside; fail)+

lemma wp_type_expr:
  assumes "st b p0 ms c p" and "remaining p0 \<le> n"
    and "\<And>r q. st b p0 ms (c \<or> r \<noteq> None) q \<Longrightarrow> (\<And>cm. r = Some cm \<Longrightarrow> cm \<in> starts b q) \<Longrightarrow> Q (r, q)"
  shows "wp (type_expr rc p) Q"
  using assms(1,2) unfolding type_expr_def
  by - (rule wp_intros assms(3) | erule pwp | auto simp: gside pside; fail)+

section \<open>Patterns\<close>


lemma wp_wildcard_pat [pwp]:
  assumes "st b p0 ms c p" and "\<not> at_eof p"
    and "\<And>cm q. st b p0 ms True q \<Longrightarrow> cm \<in> starts b q \<Longrightarrow> Q (cm, q)"
  shows "wp (wildcard_pat p) Q"
  using assms(1,2) unfolding wildcard_pat_def
  by - (rule wp_intros assms(3) | erule pwp | auto simp: gside pside; fail)+

lemma wp_literal_pat [pwp]:
  assumes "st b p0 ms c p" and "\<not> at_eof p"
    and "\<And>cm q. st b p0 ms True q \<Longrightarrow> cm \<in> starts b q \<Longrightarrow> Q (cm, q)"
  shows "wp (literal_pat p) Q"
  using assms(1,2) unfolding literal_pat_def
  by - (rule wp_intros assms(3) | erule pwp | auto simp: gside pside; fail)+

lemma wp_record_pat_tail [pwp]:
  assumes "st b p0 (m # ms) c p"
    and "\<And>q. st b p0 ms (c \<or> at LBrace p) q \<Longrightarrow> m \<in> starts b q \<Longrightarrow> Q (m, q)"
  shows "wp (record_pat_tail m p) Q"
  using assms(1) unfolding record_pat_tail_def
  by - (rule wp_intros assms(2) | erule pwp wp_expect_strict | auto simp: gside pside; fail)+

lemma wp_record_pat [pwp]:
  assumes "st b p0 ms c p" and "\<And>cm. path = Some cm \<Longrightarrow> cm \<in> starts b p"
    and "\<And>cm q. st b p0 ms (c \<or> at LBrace p) q \<Longrightarrow> cm \<in> starts b q \<Longrightarrow> Q (cm, q)"
  shows "wp (record_pat path p) Q"
proof (cases path)
  case None
  show ?thesis
    using assms(1) unfolding record_pat_def None option.case
    by - (rule assms(3) | erule pwp | simp add: pside; fail)+
next
  case (Some cm)
  show ?thesis
    using assms(1) assms(2) [OF Some] unfolding record_pat_def Some option.case
    by - (rule wp_intros assms(3) | erule pwp | simp add: pside; fail)+
qed

lemma wp_pat_list [pwp]:
  assumes "st b p0 ms c p" and "calls_ok n p0 c" and "\<And>q. st b p0 ms c q \<Longrightarrow> Q q"
  shows "wp (pat_list rc p) Q"
  using assms(1,2) unfolding pat_list_def
  by - (rule wp_intros assms(3) | erule pwp | auto simp: gside; fail)+

lemma wp_ident_or_constructor_pat [pwp]:
  assumes "st b p0 ms c p" and "remaining p0 \<le> n" and "at_ident_like p"
    and "\<And>cm q. st b p0 ms True q \<Longrightarrow> cm \<in> starts b q \<Longrightarrow> Q (cm, q)"
  shows "wp (ident_or_constructor_pat rc p) Q"
  using assms(1,2,3) unfolding ident_or_constructor_pat_def
  by - (rule wp_intros assms(4) | erule pwp | auto simp: gside pside; fail)+

lemma wp_pattern_with_role:
  assumes "st b p0 ms c p" and "remaining p0 \<le> n"
    and "\<And>r q. st b p0 ms (c \<or> r \<noteq> None) q \<Longrightarrow> (\<And>cm. r = Some cm \<Longrightarrow> cm \<in> starts b q) \<Longrightarrow> Q (r, q)"
  shows "wp (pattern_with_role rc role p) Q"
  using assms(1,2) unfolding pattern_with_role_def
  by - (rule wp_intros assms(3) | erule pwp | auto simp: gside pside; fail)+


section \<open>Expressions\<close>


text \<open>A named argument is entered only when a colon follows the name.\<close>


lemma wp_arg [pwp]:
  assumes "st b p0 ms c p" and "calls_ok n p0 c" and "\<And>q. st b p0 ms c q \<Longrightarrow> Q q"
  shows "wp (arg rc p) Q"
  using assms(1,2) unfolding arg_def
  by - (rule wp_intros assms(3) | erule pwp | auto simp: gside pside; fail)+

lemma wp_arg_list [pwp]:
  assumes "st b p0 ms c p" and "remaining p0 \<le> n" and "\<not> at_eof p"
    and "\<And>q. st b p0 ms True q \<Longrightarrow> Q q"
  shows "wp (arg_list rc p) Q"
  using assms(1,2,3) unfolding arg_list_def
  by - (rule wp_intros assms(4) | erule pwp | auto simp: gside pside; fail)+

lemma wp_record_expr_field [pwp]:
  assumes "st b p0 ms c p" and "calls_ok n p0 c" and "\<And>q. st b p0 ms c q \<Longrightarrow> Q q"
  shows "wp (record_expr_field rc p) Q"
  using assms(1,2) unfolding record_expr_field_def
  by - (rule wp_intros assms(3) | erule pwp | auto simp: gside pside; fail)+

lemma wp_record_expr_field_list [pwp]:
  assumes "st b p0 ms c p" and "remaining p0 \<le> n" and "\<not> at_eof p"
    and "\<And>q. st b p0 ms True q \<Longrightarrow> Q q"
  shows "wp (record_expr_field_list rc p) Q"
  using assms(1,2,3) unfolding record_expr_field_list_def
  by - (rule wp_intros assms(4) | erule pwp | auto simp: gside pside; fail)+

lemma wp_ident_or_path_or_record [pwp]:
  assumes "st b p0 ms c p" and "remaining p0 \<le> n" and "at_ident_like p"
    and "\<And>cm q. st b p0 ms True q \<Longrightarrow> cm \<in> starts b q \<Longrightarrow> Q (cm, q)"
  shows "wp (ident_or_path_or_record rc p) Q"
  using assms(1,2,3) unfolding ident_or_path_or_record_def
  by - (rule wp_intros assms(4) | erule pwp | auto simp: gside pside; fail)+


lemma wp_let_binding [pwp]:
  assumes "st b p0 ms c p" and "remaining p0 \<le> n" and "\<not> at_eof p"
    and "\<And>cm q. st b p0 ms True q \<Longrightarrow> cm \<in> starts b q \<Longrightarrow> Q (cm, q)"
  shows "wp (let_binding rc p) Q"
  using assms(1,2,3) unfolding let_binding_def
  by - (rule wp_intros assms(4) | erule pwp | auto simp: gside pside; fail)+

lemma wp_var_binding [pwp]:
  assumes "st b p0 ms c p" and "remaining p0 \<le> n" and "\<not> at_eof p"
    and "\<And>cm q. st b p0 ms True q \<Longrightarrow> cm \<in> starts b q \<Longrightarrow> Q (cm, q)"
  shows "wp (var_binding rc p) Q"
  using assms(1,2,3) unfolding var_binding_def
  by - (rule wp_intros assms(4) | erule pwp | auto simp: gside pside; fail)+

lemma wp_break_stmt [pwp]:
  assumes "st b p0 ms c p" and "\<not> at_eof p"
    and "\<And>cm q. st b p0 ms True q \<Longrightarrow> cm \<in> starts b q \<Longrightarrow> Q (cm, q)"
  shows "wp (break_stmt p) Q"
  using assms(1,2) unfolding break_stmt_def
  by - (rule wp_intros assms(3) | erule pwp | auto simp: gside pside; fail)+

lemma wp_continue_stmt [pwp]:
  assumes "st b p0 ms c p" and "\<not> at_eof p"
    and "\<And>cm q. st b p0 ms True q \<Longrightarrow> cm \<in> starts b q \<Longrightarrow> Q (cm, q)"
  shows "wp (continue_stmt p) Q"
  using assms(1,2) unfolding continue_stmt_def
  by - (rule wp_intros assms(3) | erule pwp | auto simp: gside pside; fail)+

lemma wp_while_stmt [pwp]:
  assumes "st b p0 ms c p" and "remaining p0 \<le> n" and "\<not> at_eof p"
    and "\<And>cm q. st b p0 ms True q \<Longrightarrow> cm \<in> starts b q \<Longrightarrow> Q (cm, q)"
  shows "wp (while_stmt rc p) Q"
  using assms(1,2,3) unfolding while_stmt_def
  by - (rule wp_intros assms(4) | erule pwp | auto simp: gside pside; fail)+

lemma wp_for_stmt [pwp]:
  assumes "st b p0 ms c p" and "remaining p0 \<le> n" and "\<not> at_eof p"
    and "\<And>cm q. st b p0 ms True q \<Longrightarrow> cm \<in> starts b q \<Longrightarrow> Q (cm, q)"
  shows "wp (for_stmt rc p) Q"
  using assms(1,2,3) unfolding for_stmt_def
  by - (rule wp_intros assms(4) | erule pwp | auto simp: gside pside; fail)+

lemma wp_eat_semicolons [pwp]:
  assumes "st b p0 ms c p" and "\<And>q. st b p0 ms c q \<Longrightarrow> Q q"
  shows "wp (eat_semicolons p) Q"
  using assms(1) unfolding eat_semicolons_def
  by - (rule wp_intros assms(2) | erule pwp | simp; fail)+

lemma wp_block_step:
  assumes "st b p1 ms False p1" and "remaining p1 < n"
  shows "wp (block_step rc p1) (\<lambda>(p2, go). st b p1 ms go p2)"
  using assms unfolding block_step_def
  by - (rule wp_intros wp_case_option | erule pwp | auto simp: gside pside; fail)+


lemma wp_block_expr [pwp]:
  assumes "st b p0 ms c p" and "remaining p0 \<le> n" and "\<not> at_eof p"
    and "\<And>cm q. st b p0 ms True q \<Longrightarrow> cm \<in> starts b q \<Longrightarrow> Q (cm, q)"
  shows "wp (block_expr rc p) Q"
  using assms(1,2,3) unfolding block_expr_def
  by - (rule wp_intros assms(4) | erule pwp wp_block_step | auto simp: gside; fail)+


lemma wp_brace_expr [pwp]:
  assumes "st b p0 ms c p" and "remaining p0 \<le> n" and "\<not> at_eof p"
    and "\<And>cm q. st b p0 ms True q \<Longrightarrow> cm \<in> starts b q \<Longrightarrow> Q (cm, q)"
  shows "wp (brace_expr rc p) Q"
  using assms(1,2,3) unfolding brace_expr_def
  by - (rule wp_intros assms(4) | erule pwp | auto simp: gside pside; fail)+

lemma wp_literal_expr [pwp]:
  assumes "st b p0 ms c p" and "\<not> at_eof p"
    and "\<And>cm q. st b p0 ms True q \<Longrightarrow> cm \<in> starts b q \<Longrightarrow> Q (cm, q)"
  shows "wp (literal_expr p) Q"
  using assms(1,2) unfolding literal_expr_def
  by - (rule wp_intros assms(3) | erule pwp | auto simp: gside pside; fail)+

lemma wp_hole_expr [pwp]:
  assumes "st b p0 ms c p" and "\<not> at_eof p"
    and "\<And>cm q. st b p0 ms True q \<Longrightarrow> cm \<in> starts b q \<Longrightarrow> Q (cm, q)"
  shows "wp (hole_expr p) Q"
  using assms(1,2) unfolding hole_expr_def
  by - (rule wp_intros assms(3) | erule pwp | auto simp: gside pside; fail)+

lemma wp_paren_expr [pwp]:
  assumes "st b p0 ms c p" and "remaining p0 \<le> n" and "\<not> at_eof p"
    and "\<And>cm q. st b p0 ms True q \<Longrightarrow> cm \<in> starts b q \<Longrightarrow> Q (cm, q)"
  shows "wp (paren_expr rc p) Q"
  using assms(1,2,3) unfolding paren_expr_def
  by - (rule wp_intros assms(4) | erule pwp | auto simp: gside pside; fail)+

lemma wp_if_expr [pwp]:
  assumes "st b p0 ms c p" and "remaining p0 \<le> n" and "\<not> at_eof p"
    and "\<And>cm q. st b p0 ms True q \<Longrightarrow> cm \<in> starts b q \<Longrightarrow> Q (cm, q)"
  shows "wp (if_expr rc p) Q"
  using assms(1,2,3) unfolding if_expr_def
  by - (rule wp_intros assms(4) | erule pwp | auto simp: gside pside; fail)+

lemma wp_match_arm [pwp]:
  assumes "st b p0 ms c p" and "calls_ok n p0 c" and "\<And>q. st b p0 ms c q \<Longrightarrow> Q q"
  shows "wp (match_arm rc p) Q"
  using assms(1,2) unfolding match_arm_def
  by - (rule wp_intros assms(3) | erule pwp | auto simp: gside pside; fail)+

lemma wp_match_arm_step:
  assumes "st b p1 ms False p1" and "remaining p1 < n"
  shows "wp (match_arm_step rc p1) (\<lambda>(p2, go). st b p1 ms go p2)"
  using assms unfolding match_arm_step_def
  by - (rule wp_intros | erule pwp wp_force_progress [OF _ assms(1)] | auto simp: gside; fail)+


lemma wp_match_arm_list [pwp]:
  assumes "st b p0 ms c p" and "calls_ok n p0 c" and "\<And>q. st b p0 ms c q \<Longrightarrow> Q q"
  shows "wp (match_arm_list rc p) Q"
  using assms(1,2) unfolding match_arm_list_def
  by - (rule wp_intros assms(3) | erule pwp wp_match_arm_step | auto simp: gside; fail)+


lemma wp_match_expr [pwp]:
  assumes "st b p0 ms c p" and "remaining p0 \<le> n" and "\<not> at_eof p"
    and "\<And>cm q. st b p0 ms True q \<Longrightarrow> cm \<in> starts b q \<Longrightarrow> Q (cm, q)"
  shows "wp (match_expr rc p) Q"
  using assms(1,2,3) unfolding match_expr_def
  by - (rule wp_intros assms(4) | erule pwp | auto simp: gside pside; fail)+

lemma wp_return_expr [pwp]:
  assumes "st b p0 ms c p" and "remaining p0 \<le> n" and "\<not> at_eof p"
    and "\<And>cm q. st b p0 ms True q \<Longrightarrow> cm \<in> starts b q \<Longrightarrow> Q (cm, q)"
  shows "wp (return_expr rc p) Q"
  using assms(1,2,3) unfolding return_expr_def
  by - (rule wp_intros assms(4) | erule pwp | auto simp: gside pside; fail)+

lemma wp_old_expr [pwp]:
  assumes "st b p0 ms c p" and "remaining p0 \<le> n" and "\<not> at_eof p"
    and "\<And>cm q. st b p0 ms True q \<Longrightarrow> cm \<in> starts b q \<Longrightarrow> Q (cm, q)"
  shows "wp (old_expr rc p) Q"
  using assms(1,2,3) unfolding old_expr_def
  by - (rule wp_intros assms(4) | erule pwp | auto simp: gside pside; fail)+

lemma wp_lambda_param [pwp]:
  assumes "st b p0 ms c p" and "calls_ok n p0 c" and "\<And>q. st b p0 ms c q \<Longrightarrow> Q q"
  shows "wp (lambda_param rc p) Q"
  using assms(1,2) unfolding lambda_param_def
  by - (rule wp_intros assms(3) | erule pwp | auto simp: gside pside; fail)+

lemma wp_lambda_expr [pwp]:
  assumes "st b p0 ms c p" and "remaining p0 \<le> n" and "\<not> at_eof p"
    and "\<And>cm q. st b p0 ms True q \<Longrightarrow> cm \<in> starts b q \<Longrightarrow> Q (cm, q)"
  shows "wp (lambda_expr rc p) Q"
  using assms(1,2,3) unfolding lambda_expr_def
  by - (rule wp_intros assms(4) | erule pwp | auto simp: gside pside; fail)+

lemma wp_primary [pwp]:
  assumes "st b p0 ms c p" and "remaining p0 \<le> n"
    and "\<And>r q. st b p0 ms (c \<or> r \<noteq> None) q \<Longrightarrow> (\<And>cm. r = Some cm \<Longrightarrow> cm \<in> starts b q) \<Longrightarrow> Q (r, q)"
  shows "wp (primary rc p) Q"
  using assms(1,2) unfolding primary_def
  by - (rule wp_intros assms(3) | erule pwp | auto simp: gside pside; fail)+

lemma wp_lhs [pwp]:
  assumes "st b p0 ms c p" and "remaining p0 \<le> n"
    and "\<And>r q. st b p0 ms (c \<or> r \<noteq> None) q \<Longrightarrow> (\<And>cm. r = Some cm \<Longrightarrow> cm \<in> starts b q) \<Longrightarrow> Q (r, q)"
  shows "wp (lhs rc p) Q"
  using assms(1,2) unfolding lhs_def
  by - (rule wp_intros assms(3) | erule pwp | auto simp: gside pside; fail)+


text \<open>
  The two loops of precedence climbing carry the marker of the left operand, which stays the
  index of a start event.
\<close>

lemma wp_postfix_step:
  assumes "st b p1 ms False p1" and "remaining p1 < n" and "l \<in> starts b p1"
  shows "wp (postfix_step rc min_bp (l, p1))
    (\<lambda>((l2, p2), go). st b p1 ms go p2 \<and> l2 \<in> starts b p2)"
  using assms unfolding postfix_step_def prod.case
  by - (rule wp_intros conjI | erule pwp | auto simp: gside pside; fail)+

lemma wp_infix_step:
  assumes "st b p1 ms False p1" and "remaining p1 < n" and "l \<in> starts b p1"
  shows "wp (infix_step rc min_bp (l, p1))
    (\<lambda>((l2, p2), go). st b p1 ms go p2 \<and> l2 \<in> starts b p2)"
proof (cases "infix_binding_power (current p1)")
  case None
  with assms show ?thesis by (simp add: infix_step_def)
next
  case (Some lr)
  obtain left_bp right_bp where lr: "lr = (left_bp, right_bp)" by (cases lr)
  have "current p1 \<noteq> Eof" using Some by (rule infix_binding_power_not_Eof)
  then have ne: "\<not> at_eof p1" by (rule not_eof_if_kind)
  show ?thesis
    using assms ne unfolding infix_step_def prod.case Some lr option.case
    by - (rule wp_intros conjI | erule pwp | auto simp: gside; fail)+
qed

lemma wp_expr_bp:
  assumes "st b p0 ms c p" and "remaining p0 \<le> n"
    and "\<And>r q. st b p0 ms (c \<or> r \<noteq> None) q \<Longrightarrow> (\<And>cm. r = Some cm \<Longrightarrow> cm \<in> starts b q) \<Longrightarrow> Q (r, q)"
  shows "wp (expr_bp rc min_bp p) Q"
proof -
  have fin: "st b p0 ms True q \<Longrightarrow> l \<in> starts b q \<Longrightarrow> Q (Some l, q)" for l q
    by (rule assms(3)) (auto elim: st_weaken)
  have rest: "wp (do {
         (l, p) \<leftarrow> loop_with (postfix_step rc min_bp) (l, q);
         (l, p) \<leftarrow> loop_with (infix_step rc min_bp) (l, p);
         Some (Some l, p)
       }) Q" if q: "st b p0 ms True q" and l: "l \<in> starts b q" for l q
  proof (rule wp_bindI, rule wp_loop_with_inv [where I = "\<lambda>l q. l \<in> starts b q"
        and E = "\<lambda>l q. l \<in> starts b q", OF q l])
    fix l2 q2 assume q2: "st b p0 ms True q2" and l2: "l2 \<in> starts b q2"
    show "wp (case (l2, q2) of (l, p) \<Rightarrow> loop_with (infix_step rc min_bp) (l, p)
        \<bind> (\<lambda>(l, p). Some (Some l, p))) Q"
      unfolding prod.case
      by (rule wp_bindI, rule wp_loop_with_inv [where I = "\<lambda>l q. l \<in> starts b q"
            and E = "\<lambda>l q. l \<in> starts b q", OF q2 l2])
        (use assms(2) in \<open>auto intro!: wp_infix_step fin\<close>)
  qed (use assms(2) in \<open>auto intro!: wp_postfix_step\<close>)
  show ?thesis
    using assms(1,2) unfolding expr_bp_def
    by - (rule wp_intros wp_case_option assms(3) rest | erule pwp | auto; fail)+
qed


section \<open>Items\<close>


lemma wp_recover_invalid_module_decl [pwp]:
  assumes "st b p0 ms c p" and "\<not> at_eof p"
    and "\<And>q. st b p0 ms True q \<Longrightarrow> Q q"
  shows "wp (recover_invalid_module_decl p) Q"
  using assms(1,2) unfolding recover_invalid_module_decl_def
  by - (rule wp_intros assms(3) | erule pwp | auto simp: gside pside; fail)+

lemma wp_import_alias [pwp]:
  assumes "st b p0 ms c p" and "\<not> at_eof p"
    and "\<And>q. st b p0 ms True q \<Longrightarrow> Q q"
  shows "wp (import_alias p) Q"
  using assms(1,2) unfolding import_alias_def
  by - (rule wp_intros assms(3) | erule pwp | auto simp: gside pside; fail)+

lemma wp_import_member [pwp]:
  assumes "st b p0 ms c p" and "\<And>q. st b p0 ms c q \<Longrightarrow> Q q"
  shows "wp (import_member p) Q"
  using assms(1) unfolding import_member_def
  by - (rule wp_intros assms(2) | erule pwp | auto simp: gside pside; fail)+

lemma wp_import_member_list [pwp]:
  assumes "st b p0 ms c p" and "\<And>q. st b p0 ms c q \<Longrightarrow> Q q"
  shows "wp (import_member_list p) Q"
  using assms(1) unfolding import_member_list_def
  by - (rule wp_intros assms(2) | erule pwp | auto simp: gside pside; fail)+

lemma wp_relative_import_path [pwp]:
  assumes "st b p0 ms c p" and "\<And>q. st b p0 ms c q \<Longrightarrow> Q q"
  shows "wp (relative_import_path p) Q"
  using assms(1) unfolding relative_import_path_def
  by - (rule wp_intros assms(2) | erule pwp | auto simp: gside pside; fail)+

lemma wp_import_decl [pwp]:
  assumes "st b p0 ms c p" and "\<not> at_eof p"
    and "\<And>cm q. st b p0 ms True q \<Longrightarrow> cm \<in> starts b q \<Longrightarrow> Q (cm, q)"
  shows "wp (import_decl p) Q"
  using assms(1,2) unfolding import_decl_def
  by - (rule wp_intros assms(3) | erule pwp | auto simp: gside pside; fail)+

lemma wp_trait_ref [pwp]:
  assumes "st b p0 ms c p" and "remaining p0 \<le> n" and "\<And>q. st b p0 ms c q \<Longrightarrow> Q q"
  shows "wp (trait_ref rc p) Q"
  using assms(1,2) unfolding trait_ref_def
  by - (rule wp_intros assms(3) | erule pwp | auto simp: gside pside; fail)+

lemma wp_type_param_bound_list [pwp]:
  assumes "st b p0 ms c p" and "remaining p0 \<le> n" and "\<not> at_eof p"
    and "\<And>q. st b p0 ms True q \<Longrightarrow> Q q"
  shows "wp (type_param_bound_list rc p) Q"
  using assms(1,2,3) unfolding type_param_bound_list_def
  by - (rule wp_intros assms(4) | erule pwp | auto simp: gside pside; fail)+

lemma wp_type_param [pwp]:
  assumes "st b p0 ms c p" and "remaining p0 \<le> n" and "\<And>q. st b p0 ms c q \<Longrightarrow> Q q"
  shows "wp (type_param rc p) Q"
  using assms(1,2) unfolding type_param_def
  by - (rule wp_intros assms(3) | erule pwp | auto simp: gside pside; fail)+

lemma wp_type_param_list [pwp]:
  assumes "st b p0 ms c p" and "remaining p0 \<le> n" and "\<not> at_eof p"
    and "\<And>q. st b p0 ms True q \<Longrightarrow> Q q"
  shows "wp (type_param_list rc p) Q"
  using assms(1,2,3) unfolding type_param_list_def
  by - (rule wp_intros assms(4) | erule pwp | auto simp: gside pside; fail)+

lemma wp_derive_clause [pwp]:
  assumes "st b p0 ms c p" and "remaining p0 \<le> n" and "\<not> at_eof p"
    and "\<And>q. st b p0 ms True q \<Longrightarrow> Q q"
  shows "wp (derive_clause rc p) Q"
  using assms(1,2,3) unfolding derive_clause_def
  by - (rule wp_intros assms(4) | erule pwp | auto simp: gside pside; fail)+

lemma wp_variant_field [pwp]:
  assumes "st b p0 ms c p" and "calls_ok n p0 c" and "\<And>q. st b p0 ms c q \<Longrightarrow> Q q"
  shows "wp (variant_field rc p) Q"
  using assms(1,2) unfolding variant_field_def
  by - (rule wp_intros assms(3) | erule pwp | auto simp: gside pside; fail)+

lemma wp_variant_field_list [pwp]:
  assumes "st b p0 ms c p" and "remaining p0 \<le> n" and "\<not> at_eof p"
    and "\<And>q. st b p0 ms True q \<Longrightarrow> Q q"
  shows "wp (variant_field_list rc p) Q"
  using assms(1,2,3) unfolding variant_field_list_def
  by - (rule wp_intros assms(4) | erule pwp | auto simp: gside pside; fail)+

lemma wp_variant [pwp]:
  assumes "st b p0 ms c p" and "remaining p0 \<le> n" and "\<And>q. st b p0 ms c q \<Longrightarrow> Q q"
  shows "wp (variant rc p) Q"
  using assms(1,2) unfolding variant_def
  by - (rule wp_intros assms(3) | erule pwp | auto simp: gside pside; fail)+

lemma wp_variant_list_step [pwp]:
  assumes "st b p1 ms False p1" and "remaining p1 \<le> n"
  shows "wp (variant_list_step rc p1) (\<lambda>(p2, go). st b p1 ms go p2)"
  using assms unfolding variant_list_step_def
  by - (rule wp_intros | erule pwp | auto simp: gside pside; fail)+

lemma wp_variant_list [pwp]:
  assumes "st b p0 ms c p" and "remaining p0 \<le> n" and "\<And>q. st b p0 ms c q \<Longrightarrow> Q q"
  shows "wp (variant_list rc p) Q"
  using assms(1,2) unfolding variant_list_def
  by - (rule wp_intros assms(3) | erule pwp | auto simp: gside pside; fail)+

lemma wp_type_body [pwp]:
  assumes "st b p0 ms c p" and "calls_ok n p0 c" and "\<And>q. st b p0 ms c q \<Longrightarrow> Q q"
  shows "wp (type_body rc p) Q"
  using assms(1,2) unfolding type_body_def
  by - (rule wp_intros assms(3) | erule pwp | auto simp: gside pside; fail)+

lemma wp_type_def [pwp]:
  assumes "st b p0 ms c p" and "remaining p0 \<le> n" and "\<not> at_eof p"
    and "is_pub \<Longrightarrow> nth_kind p 1 \<noteq> Eof"
    and "\<And>cm q. st b p0 ms True q \<Longrightarrow> cm \<in> starts b q \<Longrightarrow> Q (cm, q)"
  shows "wp (type_def rc is_pub p) Q"
  using assms(1,2,3,4) unfolding type_def_def
  by - (rule wp_intros assms(5) | erule pwp | auto simp: gside pside; fail)+

lemma wp_param [pwp]:
  assumes "st b p0 ms c p" and "remaining p0 \<le> n" and "\<And>q. st b p0 ms c q \<Longrightarrow> Q q"
  shows "wp (param rc p) Q"
  using assms(1,2) unfolding param_def
  by - (rule wp_intros assms(3) | erule pwp | auto simp: gside pside; fail)+

lemma wp_param_list [pwp]:
  assumes "st b p0 ms c p" and "remaining p0 \<le> n" and "\<And>q. st b p0 ms c q \<Longrightarrow> Q q"
  shows "wp (param_list rc p) Q"
  using assms(1,2) unfolding param_list_def
  by - (rule wp_intros assms(3) | erule pwp | auto simp: gside pside; fail)+

lemma wp_return_type [pwp]:
  assumes "st b p0 ms c p" and "remaining p0 \<le> n" and "\<not> at_eof p"
    and "\<And>q. st b p0 ms True q \<Longrightarrow> Q q"
  shows "wp (return_type rc p) Q"
  using assms(1,2,3) unfolding return_type_def
  by - (rule wp_intros assms(4) | erule pwp | auto simp: gside pside; fail)+

lemma wp_parse_parenthesized_clause_expr [pwp]:
  assumes "st b p0 ms c p" and "remaining p0 \<le> n" and "\<And>q. st b p0 ms c q \<Longrightarrow> Q q"
  shows "wp (parse_parenthesized_clause_expr rc msg p) Q"
  using assms(1,2) unfolding parse_parenthesized_clause_expr_def
  by - (rule wp_intros assms(3) | erule pwp | auto simp: gside pside; fail)+

lemma wp_requires_clause [pwp]:
  assumes "st b p0 ms c p" and "remaining p0 \<le> n" and "\<not> at_eof p"
    and "\<And>q. st b p0 ms True q \<Longrightarrow> Q q"
  shows "wp (requires_clause rc p) Q"
  using assms(1,2,3) unfolding requires_clause_def
  by - (rule wp_intros assms(4) | erule pwp | auto simp: gside pside; fail)+

lemma wp_ensures_clause [pwp]:
  assumes "st b p0 ms c p" and "remaining p0 \<le> n" and "\<not> at_eof p"
    and "\<And>q. st b p0 ms True q \<Longrightarrow> Q q"
  shows "wp (ensures_clause rc p) Q"
  using assms(1,2,3) unfolding ensures_clause_def
  by - (rule wp_intros assms(4) | erule pwp | auto simp: gside pside; fail)+

lemma wp_invariant_clause [pwp]:
  assumes "st b p0 ms c p" and "remaining p0 \<le> n" and "\<not> at_eof p"
    and "\<And>q. st b p0 ms True q \<Longrightarrow> Q q"
  shows "wp (invariant_clause rc p) Q"
  using assms(1,2,3) unfolding invariant_clause_def
  by - (rule wp_intros assms(4) | erule pwp | auto simp: gside pside; fail)+

lemma wp_with_clause [pwp]:
  assumes "st b p0 ms c p" and "remaining p0 \<le> n" and "\<not> at_eof p"
    and "\<And>q. st b p0 ms True q \<Longrightarrow> Q q"
  shows "wp (with_clause rc p) Q"
  using assms(1,2,3) unfolding with_clause_def
  by - (rule wp_intros assms(4) | erule pwp | auto simp: gside pside; fail)+

lemma wp_consume_misplaced_clause_expr [pwp]:
  assumes "st b p0 ms c p" and "remaining p0 \<le> n" and "\<And>q. st b p0 ms c q \<Longrightarrow> Q q"
  shows "wp (consume_misplaced_clause_expr rc p) Q"
  using assms(1,2) unfolding consume_misplaced_clause_expr_def
  by - (rule wp_intros assms(3) | erule pwp | auto simp: gside pside; fail)+

lemma wp_misplaced_contract_clause_with_name [pwp]:
  assumes "st b p0 ms c p" and "remaining p0 \<le> n" and "\<not> at_eof p"
    and "\<And>q. st b p0 ms True q \<Longrightarrow> Q q"
  shows "wp (misplaced_contract_clause_with_name rc name kind p) Q"
  using assms(1,2,3) unfolding misplaced_contract_clause_with_name_def
  by - (rule wp_intros assms(4) | erule pwp | auto simp: gside pside; fail)+

lemma wp_misplaced_contract_clause [pwp]:
  assumes "st b p0 ms c p" and "remaining p0 \<le> n"
    and "current p \<in> {RequiresKw, EnsuresKw, InvariantKw}" and "\<And>q. st b p0 ms True q \<Longrightarrow> Q q"
  shows "wp (misplaced_contract_clause rc p) Q"
  using assms(1,2,3) unfolding misplaced_contract_clause_def
  by - (rule wp_intros assms(4) | erule pwp | auto simp: pside; fail)+

lemma wp_contract_section_step [pwp]:
  assumes "st b p1 ms False p1" and "remaining p1 \<le> n"
  shows "wp (contract_section_step rc (a, p1)) (\<lambda>((a2, p2), go). st b p1 ms go p2)"
proof (cases "contract_clause_rank_and_name (current p1)")
  case None
  with assms show ?thesis by (simp add: contract_section_step_def)
next
  case (Some rn)
  then have cur: "current p1 \<in> {RequiresKw, EnsuresKw, InvariantKw}"
    by (auto simp: contract_clause_rank_and_name_def split: if_splits)
  then have ne: "\<not> at_eof p1" by (intro not_eof_if_kind) auto
  obtain rank name where rn: "rn = (rank, name)" by (cases rn)
  show ?thesis
    using assms cur ne unfolding contract_section_step_def Some rn prod.case option.case
    by - (rule wp_intros wp_case_option | erule pwp | auto simp: current_def; fail)+
qed


lemma wp_contract_section [pwp]:
  assumes "st b p0 ms c p" and "remaining p0 \<le> n" and "\<not> at_eof p"
    and "\<And>q. st b p0 ms True q \<Longrightarrow> Q q"
  shows "wp (contract_section rc p) Q"
  using assms(1,2,3) unfolding contract_section_def
  by - (rule wp_intros assms(4) | erule pwp | auto simp: gside pside; fail)+

lemma wp_with_clauses_step [pwp]:
  assumes "st b p1 ms False p1" and "remaining p1 \<le> n"
  shows "wp (with_clauses_step rc (a, p1)) (\<lambda>((a2, p2), go). st b p1 ms go p2)"
  using assms unfolding with_clauses_step_def prod.case
  by - (rule wp_intros | erule pwp | auto simp: pside; fail)+


lemma wp_misplaced_clauses_step [pwp]:
  assumes "st b p1 ms False p1" and "remaining p1 \<le> n"
  shows "wp (misplaced_clauses_step rc p1) (\<lambda>(p2, go). st b p1 ms go p2)"
  using assms unfolding misplaced_clauses_step_def
  by - (rule wp_intros | erule pwp | auto simp: gside pside; fail)+

lemma wp_fn_contract [pwp]:
  assumes "st b p0 ms c p" and "remaining p0 \<le> n" and "\<And>q. st b p0 ms c q \<Longrightarrow> Q q"
  shows "wp (fn_contract rc p) Q"
  using assms(1,2) unfolding fn_contract_def
  by - (rule wp_intros assms(3) | erule pwp | auto simp: gside pside; fail)+

lemma wp_fn_def [pwp]:
  assumes "st b p0 ms c p" and "remaining p0 \<le> n" and "\<not> at_eof p"
    and "is_pub \<Longrightarrow> nth_kind p 1 \<noteq> Eof"
    and "\<And>cm q. st b p0 ms True q \<Longrightarrow> cm \<in> starts b q \<Longrightarrow> Q (cm, q)"
  shows "wp (fn_def rc is_pub allow_bodyless p) Q"
  using assms(1,2,3,4) unfolding fn_def_def
  by - (rule wp_intros assms(5) | erule pwp | auto simp: gside pside; fail)+

lemma wp_supertrait_list [pwp]:
  assumes "st b p0 ms c p" and "remaining p0 \<le> n" and "\<not> at_eof p"
    and "\<And>q. st b p0 ms True q \<Longrightarrow> Q q"
  shows "wp (supertrait_list rc p) Q"
  using assms(1,2,3) unfolding supertrait_list_def
  by - (rule wp_intros assms(4) | erule pwp | auto simp: gside pside; fail)+

lemma wp_trait_method_sig [pwp]:
  assumes "st b p0 ms c p" and "remaining p0 \<le> n" and "\<not> at_eof p"
    and "\<And>q. st b p0 ms True q \<Longrightarrow> Q q"
  shows "wp (trait_method_sig rc p) Q"
  using assms(1,2,3) unfolding trait_method_sig_def
  by - (rule wp_intros assms(4) | erule pwp | auto simp: gside pside; fail)+

lemma wp_trait_step [pwp]:
  assumes "st b p1 ms False p1" and "remaining p1 \<le> n"
  shows "wp (trait_step rc p1) (\<lambda>(p2, go). st b p1 ms go p2)"
  using assms unfolding trait_step_def
  by - (rule wp_intros | erule pwp | auto simp: gside pside ts_contains_new; fail)+

lemma wp_trait_def [pwp]:
  assumes "st b p0 ms c p" and "remaining p0 \<le> n" and "\<not> at_eof p"
    and "is_pub \<Longrightarrow> nth_kind p 1 \<noteq> Eof"
    and "\<And>cm q. st b p0 ms True q \<Longrightarrow> cm \<in> starts b q \<Longrightarrow> Q (cm, q)"
  shows "wp (trait_def rc is_pub p) Q"
  using assms(1,2,3,4) unfolding trait_def_def
  by - (rule wp_intros assms(5) | erule pwp | auto simp: gside pside; fail)+

lemma wp_impl_method_def [pwp]:
  assumes "st b p0 ms c p" and "remaining p0 \<le> n" and "\<not> at_eof p"
    and "\<And>q. st b p0 ms True q \<Longrightarrow> Q q"
  shows "wp (impl_method_def rc p) Q"
  using assms(1,2,3) unfolding impl_method_def_def
  by - (rule wp_intros assms(4) | erule pwp | auto simp: gside pside; fail)+

lemma wp_impl_step [pwp]:
  assumes "st b p1 ms False p1" and "remaining p1 \<le> n"
  shows "wp (impl_step rc p1) (\<lambda>(p2, go). st b p1 ms go p2)"
  using assms unfolding impl_step_def
  by - (rule wp_intros | erule pwp | auto simp: gside pside ts_contains_new; fail)+

lemma wp_impl_def [pwp]:
  assumes "st b p0 ms c p" and "remaining p0 \<le> n" and "\<not> at_eof p"
    and "\<And>cm q. st b p0 ms True q \<Longrightarrow> cm \<in> starts b q \<Longrightarrow> Q (cm, q)"
  shows "wp (impl_def rc p) Q"
  using assms(1,2,3) unfolding impl_def_def
  by - (rule wp_intros assms(4) | erule pwp | auto simp: gside pside; fail)+

lemma wp_effect_body_step [pwp]:
  assumes "st b p1 ms False p1"
  shows "wp (effect_body_step p1) (\<lambda>(p2, go). st b p1 ms go p2)"
  using assms unfolding effect_body_step_def
  by - (rule wp_intros | erule pwp | auto; fail)+


lemma wp_effect_def [pwp]:
  assumes "st b p0 ms c p" and "remaining p0 \<le> n" and "\<not> at_eof p"
    and "is_pub \<Longrightarrow> nth_kind p 1 \<noteq> Eof"
    and "\<And>cm q. st b p0 ms True q \<Longrightarrow> cm \<in> starts b q \<Longrightarrow> Q (cm, q)"
  shows "wp (effect_def rc is_pub p) Q"
  using assms(1,2,3,4) unfolding effect_def_def
  by - (rule wp_intros assms(5) | erule pwp | auto simp: gside pside; fail)+

lemma wp_property_param [pwp]:
  assumes "st b p0 ms c p" and "calls_ok n p0 c" and "\<And>q. st b p0 ms c q \<Longrightarrow> Q q"
  shows "wp (property_param rc p) Q"
  using assms(1,2) unfolding property_param_def
  by - (rule wp_intros assms(3) | erule pwp | auto simp: gside pside; fail)+

lemma wp_property_param_list [pwp]:
  assumes "st b p0 ms c p" and "calls_ok n p0 c" and "\<And>q. st b p0 ms c q \<Longrightarrow> Q q"
  shows "wp (property_param_list rc p) Q"
  using assms(1,2) unfolding property_param_list_def
  by - (rule wp_intros assms(3) | erule pwp | auto simp: gside pside; fail)+

lemma wp_where_clause [pwp]:
  assumes "st b p0 ms c p" and "remaining p0 \<le> n" and "\<not> at_eof p"
    and "\<And>q. st b p0 ms True q \<Longrightarrow> Q q"
  shows "wp (where_clause rc p) Q"
  using assms(1,2,3) unfolding where_clause_def
  by - (rule wp_intros assms(4) | erule pwp | auto simp: gside pside; fail)+

lemma wp_property_def [pwp]:
  assumes "st b p0 ms c p" and "remaining p0 \<le> n" and "\<not> at_eof p"
    and "\<And>cm q. st b p0 ms True q \<Longrightarrow> cm \<in> starts b q \<Longrightarrow> Q (cm, q)"
  shows "wp (property_def rc p) Q"
  using assms(1,2,3) unfolding property_def_def
  by - (rule wp_intros assms(4) | erule pwp | auto simp: gside pside; fail)+

lemma wp_unexpected_item [pwp]:
  assumes "st b p0 ms c p" and "\<And>q. st b p0 ms c q \<Longrightarrow> Q (None, q)"
  shows "wp (unexpected_item p) Q"
  using assms(1) unfolding unexpected_item_def
  by - (rule wp_intros assms(2) | erule pwp | simp; fail)+

lemma wp_item_at [pwp]:
  assumes "st b p0 ms c p" and "remaining p0 \<le> n" and "\<not> at_eof p"
    and "is_pub \<Longrightarrow> start = nth_kind p 1"
    and "\<And>r q. st b p0 ms c q \<Longrightarrow> Q (r, q)"
  shows "wp (item_at rc is_pub start p) Q"
  using assms(1,2,3,4) unfolding item_at_def
  by - (rule wp_intros assms(5) | erule pwp | auto; fail)+

lemma wp_item [pwp]:
  assumes "st b p0 ms c p" and "remaining p0 \<le> n" and "\<not> at_eof p"
    and "\<And>r q. st b p0 ms c q \<Longrightarrow> Q (r, q)"
  shows "wp (item rc p) Q"
  using assms(1,2,3) unfolding item_def current_after_pub_def
  by - (rule wp_intros assms(4) | erule pwp | auto; fail)+

lemma wp_item_step:
  assumes "st b p1 ms False p1" and "remaining p1 \<le> n"
  shows "wp (item_step rc p1) (\<lambda>(p2, go). st b p1 ms go p2 \<and> (if go then True else at_eof p2))"
  using assms unfolding item_step_def
  by - (rule wp_intros conjI | erule pwp wp_force_progress [OF _ assms(1)] | auto; fail)+

lemma wp_items:
  assumes "st b p0 ms c p" and "remaining p0 \<le> n" and "\<And>q. st b p0 ms c q \<Longrightarrow> at_eof q \<Longrightarrow> Q q"
  shows "wp (loop_p (item_step rc) p) Q"
  using assms(1)
proof (rule wp_loop_p_inv [where I = "\<lambda>_. True" and E = at_eof])
  fix p1 assume "st b p1 ms False p1" and "remaining p1 \<le> remaining p0"
  with assms(2) show "wp (item_step rc p1)
      (\<lambda>(p2, go). st b p1 ms go p2 \<and> (if go then True else at_eof p2))"
    by (intro wp_item_step) simp_all
qed (use assms(3) in auto)

end

section \<open>The recursion meets the contract\<close>

text \<open>
  One more level of nesting meets the contract for one more token: the cases below are the
  rules of the locale for the bodies of the cyclic functions.
\<close>

lemma wp_some_marker:
  "wp x (\<lambda>(cm, q). Q (Some cm, q)) \<Longrightarrow> wp (some_marker x) Q"
  unfolding some_marker_def by (auto elim!: wp_mono)

lemma subparse_contract: "subparser_contract (subparse n) n"
proof (induction n)
  case 0
  show ?case by unfold_locales simp
next
  case (Suc n)
  show ?case
  proof
    fix b p ms nt
    assume s: "st b p ms False p" and "remaining p < Suc n" and e: "entry_ok nt p"
    then have r: "remaining p \<le> n" by simp
    let ?Q = "\<lambda>(r, q). st b p ms (r \<noteq> None) q \<and> (\<forall>cm. r = Some cm \<longrightarrow> cm \<in> starts b q)"
    show "wp (subparse (Suc n) nt p) ?Q"
    proof (cases nt)
      case (NExprBp bp)
      show ?thesis unfolding NExprBp subparse.simps nonterm.case
        by (rule subparser_contract.wp_expr_bp [OF Suc.IH s r]) auto
    next
      case NBlockExpr
      show ?thesis unfolding NBlockExpr subparse.simps nonterm.case
        by (rule wp_some_marker, rule subparser_contract.wp_block_expr [OF Suc.IH s r])
          (use e NBlockExpr in \<open>auto simp: entry_ok_def\<close>)
    next
      case NIfExpr
      show ?thesis unfolding NIfExpr subparse.simps nonterm.case
        by (rule wp_some_marker, rule subparser_contract.wp_if_expr [OF Suc.IH s r])
          (use e NIfExpr in \<open>auto simp: entry_ok_def\<close>)
    next
      case NTypeExpr
      show ?thesis unfolding NTypeExpr subparse.simps nonterm.case
        by (rule subparser_contract.wp_type_expr [OF Suc.IH s r]) auto
    next
      case (NPattern role)
      show ?thesis unfolding NPattern subparse.simps nonterm.case
        by (rule subparser_contract.wp_pattern_with_role [OF Suc.IH s r]) auto
    qed
  qed
qed

interpretation depth: subparser_contract "subparse n" n for n
  by (rule subparse_contract)

section \<open>Source files\<close>

lemma wp_module_step:
  assumes "st b p1 ms False p1"
  shows "wp (module_step p1) (\<lambda>(p2, go). st b p1 ms go p2)"
  using assms unfolding module_step_def
  by - (rule wp_intros | erule pwp depth.wp_recover_invalid_module_decl | auto simp: pside; fail)+

lemma wp_import_step:
  assumes "st b p1 ms False p1"
  shows "wp (import_step p1) (\<lambda>(p2, go). st b p1 ms go p2)"
  using assms unfolding import_step_def
  by - (rule wp_intros | erule pwp depth.wp_import_decl | auto simp: pside; fail)+

text \<open>
  The interior of a source file is parsed from index 1 on, below the root marker 0.
\<close>

lemma wp_source_file_interior:
  assumes "st 1 p0 [] False p" and "remaining p0 \<le> n"
    and "\<And>q. st 1 p0 [] False q \<Longrightarrow> at_eof q \<Longrightarrow> Q q"
  shows "wp (do {
     p \<leftarrow> loop_p module_step p;
     p \<leftarrow> loop_p import_step p;
     loop_p (item_step (subparse n)) p
   }) Q"
  using assms(1,2)
  by - (rule wp_intros assms(3) | erule pwp wp_module_step wp_import_step depth.wp_items | assumption)+

lemma parse_returns:
  "\<exists>es errs. parse i = Some (StartNode SourceFile None # es @ [FinishNode], errs)
     \<and> scan 1 [] es = Some [] \<and> token_events es = map (\<lambda>k. (k, 1)) (kinds i)
     \<and> error_events es = map message errs \<and> sorted (map err_token_pos errs)
     \<and> (\<forall>e\<in>set errs. err_token_pos e \<le> input_len i)"
proof -
  let ?p = "parser_new i"
  define r where "r = snd (open_node ?p)"
  have p0: "input r = i" "events r = [StartNode ErrorNode None]" "remaining r = remaining ?p"
    and root: "open_node ?p = (0, r)"
    by (simp_all add: r_def open_node_def parser_new_def remaining_def)
  have s0: "st 1 r [] False r"
    by (rule stI_refl) (simp_all add: r_def ok_def stk_def open_node_def parser_new_def)
  have "wp (do {
     p \<leftarrow> loop_p module_step r;
     p \<leftarrow> loop_p import_step p;
     loop_p (item_step (subparse (Suc (remaining ?p)))) p
   }) (\<lambda>q. st 1 r [] False q \<and> at_eof q)"
    by (rule wp_source_file_interior [OF s0]) (simp_all add: p0)
  then obtain q where q: "do {
     p \<leftarrow> loop_p module_step r;
     p \<leftarrow> loop_p import_step p;
     loop_p (item_step (subparse (Suc (remaining ?p)))) p } = Some q"
    and sq: "st 1 r [] False q" and eof: "at_eof q"
    by (rule wpE) blast
  obtain es where ev: "events q = StartNode ErrorNode None # es"
    using sq p0(2) by (cases "events q") (auto simp: st_def ok_def)
  have close: "complete 0 SourceFile q =
      Some (0, q\<lparr>events := StartNode SourceFile None # es @ [FinishNode]\<rparr>)"
    by (simp add: complete_def ev)
  from q obtain q1 q2 where "loop_p module_step r = Some q1" "loop_p import_step q1 = Some q2"
    "loop_p (item_step (subparse (Suc (remaining ?p)))) q2 = Some q"
    by (auto simp: bind_eq_Some_conv)
  then have src: "source_file (subparse (Suc (remaining ?p))) ?p =
      Some (q\<lparr>events := StartNode SourceFile None # es @ [FinishNode]\<rparr>)"
    by (simp add: source_file_def root close)
  have "pos q = input_len i" using sq eof p0 by (auto simp: st_def ok_def at_eof_def)
  with sq ev p0 have "token_events es = map (\<lambda>k. (k, 1)) (kinds i)" and "scan 1 [] es = Some []"
    and "error_events es = map message (errors q)" and "sorted (map err_token_pos (errors q))"
    and "\<forall>e\<in>set (errors q). err_token_pos e \<le> input_len i"
    by (auto simp: st_def ok_def stk_def)
  with src show ?thesis
    by (simp add: parse_def finish_def Let_def)
qed

end
