(* ===== verification/Lexer.thy ===== *)
theory Lexer
  imports Syntax_Kind
begin

text \<open>
  The lexer (\<open>syntax/src/lexer.rs\<close>).

  The automaton that matches the next token is generated by the \<open>logos\<close> library from the patterns
  declared on \<open>enum Token\<close>; it is an argument here, \<open>logos\<close>: on the rest of the source it gives the
  matched rule, or \<open>None\<close> for an unknown input, and the number of bytes matched.  What the crate
  adds is modelled: the callback that scans nested block comments, the choice of the kind of a
  token, keywords included, and the loop.

  Texts are byte strings.  The two bytes the comment scanner looks for never occur inside a
  multi-byte character, so scanning bytes and scanning characters consume the same.
\<close>

section \<open>Tokens of the automaton\<close>

datatype LogosToken =
    TWhitespace | TLineComment | TBlockComment | TFloatLiteral | TIntLiteral | TStringLiteral
  | TCharLiteral | TIdent | TAmpAmp | TPipePipe | TDotDotLt | TPipeGt | TArrow | TFatArrow
  | TEqEq | TBangEq | TGtEq | TLeftArrow | TLtEq | TLtLt | TGtGt | TEq | TBang | TGt | TLt
  | TPlus | TMinus | TStar | TSlash | TPercent | TPipe | TAmp | TCaret | TTilde | TQuestion
  | TLParen | TRParen | TLBrace | TRBrace | TLBracket | TRBracket | TComma | TColon
  | TSemicolon | TDot

fun into_syntax_kind :: "LogosToken \<Rightarrow> string \<Rightarrow> SyntaxKind" where
  "into_syntax_kind TWhitespace txt = Whitespace"
| "into_syntax_kind TLineComment txt = LineComment"
| "into_syntax_kind TBlockComment txt = BlockComment"
| "into_syntax_kind TFloatLiteral txt = FloatLiteral"
| "into_syntax_kind TIntLiteral txt = IntLiteral"
| "into_syntax_kind TStringLiteral txt = StringLiteral"
| "into_syntax_kind TCharLiteral txt = CharLiteral"
| "into_syntax_kind TIdent txt =
     (if txt = ''_'' then Underscore
      else (case from_keyword txt of Some k \<Rightarrow> k | None \<Rightarrow> Ident))"
| "into_syntax_kind TAmpAmp txt = AmpAmp"
| "into_syntax_kind TPipePipe txt = PipePipe"
| "into_syntax_kind TDotDotLt txt = DotDotLt"
| "into_syntax_kind TPipeGt txt = PipeGt"
| "into_syntax_kind TArrow txt = Arrow"
| "into_syntax_kind TFatArrow txt = FatArrow"
| "into_syntax_kind TEqEq txt = EqEq"
| "into_syntax_kind TBangEq txt = BangEq"
| "into_syntax_kind TGtEq txt = GtEq"
| "into_syntax_kind TLeftArrow txt = LeftArrow"
| "into_syntax_kind TLtEq txt = LtEq"
| "into_syntax_kind TLtLt txt = LtLt"
| "into_syntax_kind TGtGt txt = GtGt"
| "into_syntax_kind TEq txt = Eq"
| "into_syntax_kind TBang txt = Bang"
| "into_syntax_kind TGt txt = Gt"
| "into_syntax_kind TLt txt = Lt"
| "into_syntax_kind TPlus txt = Plus"
| "into_syntax_kind TMinus txt = Minus"
| "into_syntax_kind TStar txt = Star"
| "into_syntax_kind TSlash txt = Slash"
| "into_syntax_kind TPercent txt = Percent"
| "into_syntax_kind TPipe txt = Pipe"
| "into_syntax_kind TAmp txt = Amp"
| "into_syntax_kind TCaret txt = Caret"
| "into_syntax_kind TTilde txt = Tilde"
| "into_syntax_kind TQuestion txt = Question"
| "into_syntax_kind TLParen txt = LParen"
| "into_syntax_kind TRParen txt = RParen"
| "into_syntax_kind TLBrace txt = LBrace"
| "into_syntax_kind TRBrace txt = RBrace"
| "into_syntax_kind TLBracket txt = LBracket"
| "into_syntax_kind TRBracket txt = RBracket"
| "into_syntax_kind TComma txt = Comma"
| "into_syntax_kind TColon txt = Colon"
| "into_syntax_kind TSemicolon txt = Semicolon"
| "into_syntax_kind TDot txt = Dot"

section \<open>Nested block comments\<close>

text \<open>
  \<open>block_comment_scan depth rest\<close> is the number of bytes the callback consumes after the opening
  of a comment, from nesting depth \<open>depth\<close>; an unterminated comment takes everything.
\<close>

definition starts_with :: "char \<Rightarrow> string \<Rightarrow> bool" where
  "starts_with c s \<longleftrightarrow> (case s of [] \<Rightarrow> False | d # _ \<Rightarrow> d = c)"

function block_comment_scan :: "nat \<Rightarrow> string \<Rightarrow> nat" where
  "block_comment_scan 0 rest = 0"
| "block_comment_scan (Suc depth) [] = 0"
| "block_comment_scan (Suc depth) (c # cs) =
     (if c = CHR ''/'' \<and> starts_with CHR ''*'' cs
      then 2 + block_comment_scan (Suc (Suc depth)) (tl cs)
      else if c = CHR ''*'' \<and> starts_with CHR ''/'' cs
      then 2 + block_comment_scan depth (tl cs)
      else 1 + block_comment_scan (Suc depth) cs)"
  by pat_completeness auto

termination
  by (relation "measure (\<lambda>(depth, s). length s)") auto

definition block_comment :: "string \<Rightarrow> nat" where
  "block_comment rest = block_comment_scan 1 rest"

section \<open>The loop\<close>

record LexToken =
  tkind :: SyntaxKind
  tok_text :: string

type_synonym matcher = "string \<Rightarrow> LogosToken option \<times> nat"

definition lex_token :: "matcher \<Rightarrow> string \<Rightarrow> LexToken" where
  "lex_token logos rest =
     (case logos rest of
        (Some tok, n) \<Rightarrow>
          (let n = (if tok = TBlockComment then n + block_comment (drop n rest) else n);
               txt = take n rest
           in \<lparr>tkind = into_syntax_kind tok txt, tok_text = txt\<rparr>)
      | (None, n) \<Rightarrow> \<lparr>tkind = Error, tok_text = take n rest\<rparr>)"

fun lex_upto :: "nat \<Rightarrow> matcher \<Rightarrow> string \<Rightarrow> LexToken list option" where
  "lex_upto 0 logos rest = None"
| "lex_upto (Suc fuel) logos rest =
     (if rest = [] then Some []
      else do {
        let tok = lex_token logos rest;
        toks \<leftarrow> lex_upto fuel logos (drop (length (tok_text tok)) rest);
        Some (tok # toks)
      })"

definition lex_source :: "matcher \<Rightarrow> string \<Rightarrow> LexToken list option" where
  "lex_source logos source = lex_upto (Suc (length source)) logos source"

section \<open>Block comments\<close>

text \<open>
  The reference: \<open>comment_depth d cs\<close> replays the delimiters of a comment body from depth \<open>d\<close>, and
  is \<open>None\<close> once the depth has come back to zero with bytes left.
\<close>

function comment_depth :: "nat \<Rightarrow> string \<Rightarrow> nat option" where
  "comment_depth d [] = Some d"
| "comment_depth 0 (c # cs) = None"
| "comment_depth (Suc d) (c # cs) =
     (if c = CHR ''/'' \<and> starts_with CHR ''*'' cs then comment_depth (Suc (Suc d)) (tl cs)
      else if c = CHR ''*'' \<and> starts_with CHR ''/'' cs then comment_depth d (tl cs)
      else comment_depth (Suc d) cs)"
  by pat_completeness auto

termination
  by (relation "measure (\<lambda>(depth, s). length s)") auto

lemma starts_with_Nil [simp]: "\<not> starts_with c []"
  by (simp add: starts_with_def)

lemma starts_with_Cons [simp]: "starts_with c (d # ds) \<longleftrightarrow> d = c"
  by (simp add: starts_with_def)

lemma block_comment_scan_le: "block_comment_scan depth rest \<le> length rest"
proof (induction depth rest rule: block_comment_scan.induct)
  case (3 depth c cs)
  then show ?case by (cases cs) simp_all
qed simp_all

text \<open>A comment that is closed is consumed to its end and no further.\<close>

lemma block_comment_scan_closed:
  "comment_depth d xs = Some 0 \<Longrightarrow> block_comment_scan d (xs @ ys) = length xs"
proof (induction d xs rule: comment_depth.induct)
  case (1 d)
  then show ?case by simp
next
  case (3 d c cs)
  from "3.prems" obtain c' ds where cs: "cs = c' # ds" by (cases cs) (simp_all split: if_splits)
  let ?up = "c = CHR ''/'' \<and> c' = CHR ''*''" and ?down = "c = CHR ''*'' \<and> c' = CHR ''/''"
  consider (up) ?up | (down) ?down "\<not> ?up" | (same) "\<not> ?up" "\<not> ?down" by blast
  then show ?case
  proof cases
    case up
    with 3 cs show ?thesis by simp
  next
    case down
    with 3 cs show ?thesis by simp
  next
    case same
    then have "comment_depth (Suc d) cs = Some 0" using "3.prems" cs by auto
    with 3 cs same have "block_comment_scan (Suc d) (cs @ ys) = length cs" by auto
    moreover have "block_comment_scan (Suc d) (c # cs @ ys) = 1 + block_comment_scan (Suc d) (cs @ ys)"
      using same cs by (subst block_comment_scan.simps) auto
    ultimately show ?thesis by simp
  qed
qed simp

text \<open>A comment the scanner does not take to the end of the source is closed.\<close>

lemma block_comment_scan_open:
  "block_comment_scan d rest < length rest \<Longrightarrow>
   comment_depth d (take (block_comment_scan d rest) rest) = Some 0"
proof (induction d rest rule: block_comment_scan.induct)
  case (3 d c cs)
  then show ?case
  proof (cases cs)
    case (Cons c' ds)
    show ?thesis
    proof (cases "c = CHR ''/'' \<and> c' = CHR ''*'' \<or> c = CHR ''*'' \<and> c' = CHR ''/''")
      case True
      with 3 Cons show ?thesis by auto
    next
      case False
      then have s: "block_comment_scan (Suc d) (c # cs) = 1 + block_comment_scan (Suc d) cs"
        using Cons by auto
      then have IH: "comment_depth (Suc d) (take (block_comment_scan (Suc d) cs) cs) = Some 0"
        using 3 Cons False by auto
      then obtain n where n: "block_comment_scan (Suc d) cs = Suc n"
        by (cases "block_comment_scan (Suc d) cs") simp_all
      have "comment_depth (Suc d) (c # c' # take n ds) = comment_depth (Suc d) (c' # take n ds)"
        using False by (subst comment_depth.simps) auto
      with IH n Cons s show ?thesis by simp
    qed
  qed simp
qed simp_all

section \<open>Totality and losslessness\<close>

text \<open>
  What the crate relies on: a match is not empty and stays inside the source.
\<close>

definition matcher_ok :: "matcher \<Rightarrow> bool" where
  "matcher_ok logos \<longleftrightarrow> (\<forall>s. s \<noteq> [] \<longrightarrow> 0 < snd (logos s) \<and> snd (logos s) \<le> length s)"

lemma lex_token_take: "\<exists>n \<ge> snd (logos rest). tok_text (lex_token logos rest) = take n rest"
  by (auto simp: lex_token_def Let_def split: prod.splits option.splits intro: le_add1)

lemma lex_token_prefix:
  assumes "matcher_ok logos" and "rest \<noteq> []"
  shows "tok_text (lex_token logos rest) \<noteq> []"
    and "tok_text (lex_token logos rest) @ drop (length (tok_text (lex_token logos rest))) rest = rest"
proof -
  obtain n where n: "snd (logos rest) \<le> n" and t: "tok_text (lex_token logos rest) = take n rest"
    using lex_token_take by blast
  from assms have "0 < snd (logos rest)" by (auto simp: matcher_ok_def)
  with n t assms(2) show "tok_text (lex_token logos rest) \<noteq> []" by simp
  show "tok_text (lex_token logos rest) @ drop (length (tok_text (lex_token logos rest))) rest = rest"
    by (simp add: t min_def)
qed

lemma lex_upto_lossless:
  "matcher_ok logos \<Longrightarrow> length rest < fuel \<Longrightarrow>
   \<exists>toks. lex_upto fuel logos rest = Some toks \<and> concat (map tok_text toks) = rest
     \<and> (\<forall>t\<in>set toks. tok_text t \<noteq> [])"
proof (induction fuel arbitrary: rest)
  case (Suc fuel)
  show ?case
  proof (cases "rest = []")
    case False
    let ?t = "tok_text (lex_token logos rest)"
    have ne: "?t \<noteq> []" and app: "?t @ drop (length ?t) rest = rest"
      by (rule lex_token_prefix [OF Suc.prems(1) False])+
    from ne have "0 < length ?t" by simp
    with Suc.prems(2) False have "length (drop (length ?t) rest) < fuel"
      by (cases rest) (simp_all del: length_greater_0_conv)
    from Suc.IH [OF Suc.prems(1) this] obtain toks where
      "lex_upto fuel logos (drop (length ?t) rest) = Some toks"
      "concat (map tok_text toks) = drop (length ?t) rest" "\<forall>t\<in>set toks. tok_text t \<noteq> []"
      by blast
    with False ne app show ?thesis by simp
  qed simp
qed simp

lemma lex_source_lossless:
  "matcher_ok logos \<Longrightarrow>
   \<exists>toks. lex_source logos source = Some toks \<and> concat (map tok_text toks) = source
     \<and> (\<forall>t\<in>set toks. tok_text t \<noteq> [])"
  unfolding lex_source_def by (rule lex_upto_lossless) simp_all

end
