(* ===== verification/Bridge_Tree.thy ===== *)
theory Bridge_Tree
  imports Bridge
begin

text \<open>
  What the bridge guarantees.

  \<^item> Resolving forward parents only moves start events to the left: the other events keep their
    order, no node kind is lost or invented, no tombstone and no forward parent is left, and a
    stream that was nested under one root still is (\<open>resolve_from\<close>).
  \<^item> Walking the resolved events with the raw tokens gives builder calls nested under one root
    whose leaves are exactly the raw tokens, trivia included (\<open>bridge_events_rooted\<close>).
\<close>

section \<open>Views of an event stream\<close>

definition others :: "Event list \<Rightarrow> Event list" where
  "others = filter (\<lambda>e. \<not> is_start e \<and> e \<noteq> Tombstone)"

fun start_kinds :: "Event list \<Rightarrow> SyntaxKind list" where
  "start_kinds [] = []"
| "start_kinds (StartNode k fp # es) = k # start_kinds es"
| "start_kinds (e # es) = start_kinds es"

text \<open>
  \<open>rooted d es\<close>: with \<open>d\<close> nodes open above the root, \<open>es\<close> closes the root with its last event and
  not before.
\<close>

fun rooted :: "nat \<Rightarrow> Event list \<Rightarrow> bool" where
  "rooted d [] = False"
| "rooted d (StartNode k fp # es) = rooted (Suc d) es"
| "rooted d (FinishNode # es) = (case d of 0 \<Rightarrow> es = [] | Suc d' \<Rightarrow> rooted d' es)"
| "rooted d (Token k n # es) = rooted d es"
| "rooted d (Error msg # es) = rooted d es"
| "rooted d (Tombstone # es) = rooted d es"

fun plain :: "Event \<Rightarrow> bool" where
  "plain (StartNode k fp) = (fp = None)"
| "plain Tombstone = False"
| "plain e = True"

lemma others_simps [simp]:
  "others [] = []"
  "others (StartNode k fp # es) = others es"
  "others (FinishNode # es) = FinishNode # others es"
  "others (Token t n # es) = Token t n # others es"
  "others (Error msg # es) = Error msg # others es"
  "others (Tombstone # es) = others es"
  "others (xs @ ys) = others xs @ others ys"
  by (simp_all add: others_def)

lemma start_kinds_append [simp]: "start_kinds (xs @ ys) = start_kinds xs @ start_kinds ys"
  by (induction xs rule: start_kinds.induct) simp_all

lemma others_starts [simp]: "others (map (\<lambda>k. StartNode k None) ks) = []"
  by (induction ks) simp_all

lemma start_kinds_starts [simp]: "start_kinds (map (\<lambda>k. StartNode k None) ks) = ks"
  by (induction ks) simp_all

lemma rooted_starts [simp]:
  "rooted d (map (\<lambda>k. StartNode k None) ks @ es) = rooted (d + length ks) es"
  by (induction ks arbitrary: d) simp_all

lemma token_events_others: "token_events es = token_events (others es)"
  by (induction es rule: token_events.induct) simp_all

text \<open>Removing a start event is made up for by one more open node.\<close>

lemma rooted_drop_start:
  "rooted d (xs @ StartNode k fp # ys) \<Longrightarrow> rooted (Suc d) (xs @ Tombstone # ys)"
  by (induction d xs rule: rooted.induct) (auto split: nat.splits)

lemma scan_rooted:
  "scan i s es = Some s' \<Longrightarrow> s' = [] \<Longrightarrow> rooted (length s) (es @ [FinishNode])"
  by (induction i s es rule: scan.induct) (auto split: list.splits)

section \<open>Resolving forward parents\<close>

text \<open>
  \<open>lifts i evs c evs'\<close>: start events of the kinds \<open>c\<close>, at \<open>i\<close> or after it, have been taken out of
  \<open>evs\<close>.
\<close>

definition lifts :: "nat \<Rightarrow> Event list \<Rightarrow> SyntaxKind list \<Rightarrow> Event list \<Rightarrow> bool" where
  "lifts i evs c evs' \<longleftrightarrow>
     length evs' = length evs
     \<and> others (drop i evs') = others (drop i evs)
     \<and> mset (start_kinds (drop i evs)) = mset c + mset (start_kinds (drop i evs'))
     \<and> (\<forall>d. rooted d (drop i evs) \<longrightarrow> rooted (d + length c) (drop i evs'))
     \<and> (\<forall>j < length evs. evs ! j = Tombstone \<longrightarrow> evs' ! j = Tombstone)"

lemma lifts_refl [simp]: "lifts i evs [] evs"
  by (simp add: lifts_def)

lemma lifts_trans: "lifts i evs c evs' \<Longrightarrow> lifts i evs' c' evs'' \<Longrightarrow> lifts i evs (c @ c') evs''"
  unfolding lifts_def by (auto simp: add.assoc [symmetric])

lemma lifts_step:
  assumes "i \<le> idx" and "idx < length evs" and "evs ! idx = StartNode k fp"
  shows "lifts i evs [k] (evs[idx := Tombstone])"
proof -
  let ?xs = "take (idx - i) (drop i evs)" and ?ys = "drop (Suc idx) evs"
  have d: "drop i evs = ?xs @ StartNode k fp # ?ys"
    using assms id_take_nth_drop [of "idx - i" "drop i evs"] by simp
  have d': "drop i (evs[idx := Tombstone]) = ?xs @ Tombstone # ?ys"
    using assms by (simp add: list_update_split drop_take)
  have "\<forall>e. rooted e (drop i evs) \<longrightarrow> rooted (Suc e) (?xs @ Tombstone # ?ys)"
    by (subst d) (auto dest: rooted_drop_start)
  moreover have "others (drop i evs) = others ?xs @ others ?ys"
    "start_kinds (drop i evs) = start_kinds ?xs @ k # start_kinds ?ys"
    by (subst d, simp)+
  ultimately show ?thesis
    using assms(2) unfolding lifts_def d' by (auto simp: nth_list_update)
qed

lemma chase_lifts:
  "i \<le> idx \<Longrightarrow> chase evs idx chain = (chain', evs') \<Longrightarrow> \<exists>c. chain' = chain @ c \<and> lifts i evs c evs'"
proof (induction evs idx chain arbitrary: chain' evs' rule: chase.induct)
  case (1 evs idx chain)
  show ?case
  proof (cases "idx < length evs \<and> is_start (evs ! idx)")
    case False
    with "1.prems"(2) have "chain' = chain @ [] \<and> lifts i evs [] evs'"
      by (subst (asm) chase.simps) (auto split: Event.splits if_splits)
    then show ?thesis by blast
  next
    case True
    then obtain k fp where b: "idx < length evs" and e: "evs ! idx = StartNode k fp"
      by (auto simp: is_start_iff)
    note step = lifts_step [OF "1.prems"(1) b e]
    show ?thesis
    proof (cases "\<exists>delta. fp = Some delta \<and> idx + delta < length evs")
      case True
      then obtain delta where fp: "fp = Some delta" and l: "idx + delta < length evs" by blast
      have "chase (evs[idx := Tombstone]) (idx + delta) (chain @ [k]) = (chain', evs')"
        using "1.prems"(2) b e fp l by (subst (asm) chase.simps) simp
      with "1.IH" [OF b e fp] "1.prems"(1) l
      obtain c where "chain' = (chain @ [k]) @ c" and "lifts i (evs[idx := Tombstone]) c evs'"
        by fastforce
      then have "chain' = chain @ (k # c) \<and> lifts i evs ([k] @ c) evs'"
        using lifts_trans [OF step] by simp
      then show ?thesis by (metis append_Cons append_Nil)
    next
      case False
      with "1.prems"(2) b e have "chain' = chain @ [k]" and "evs' = evs[idx := Tombstone]"
        by (subst (asm) chase.simps, auto split: option.splits if_splits)+
      with step show ?thesis by blast
    qed
  qed
qed

lemma chase_start:
  assumes "i < length evs" and "evs ! i = StartNode k fp" and "chase evs i [] = (c, evs')"
  shows "lifts i evs c evs' \<and> evs' ! i = Tombstone"
proof -
  have "evs' ! i = Tombstone"
  proof (cases "\<exists>delta. fp = Some delta \<and> i + delta < length evs")
    case True
    then obtain delta where fp: "fp = Some delta" "i + delta < length evs" by blast
    then have "chase (evs[i := Tombstone]) (i + delta) [k] = (c, evs')"
      using assms by (subst (asm) chase.simps) simp
    from chase_lifts [OF le_add1 this] assms(1) show ?thesis by (auto simp: lifts_def)
  next
    case False
    with assms show ?thesis by (subst (asm) chase.simps) (auto split: option.splits if_splits)
  qed
  with chase_lifts [OF order_refl assms(3)] show ?thesis by auto
qed

text \<open>
  \<open>resolved es r\<close> is the contract of the resolution of \<open>es\<close> into \<open>r\<close>.
\<close>

definition resolved :: "Event list \<Rightarrow> Event list \<Rightarrow> bool" where
  "resolved es r \<longleftrightarrow>
     others r = others es
     \<and> mset (start_kinds r) = mset (start_kinds es)
     \<and> (\<forall>d. rooted d es \<longrightarrow> rooted d r)
     \<and> (\<forall>e\<in>set r. plain e)"

lemma resolved_Nil [simp]: "resolved [] []"
  by (simp add: resolved_def)

lemma resolved_Tombstone: "resolved es r \<Longrightarrow> resolved (Tombstone # es) r"
  by (simp add: resolved_def)

lemma plain_empty: "\<forall>e\<in>set r. plain e \<Longrightarrow> others r = [] \<Longrightarrow> start_kinds r = [] \<Longrightarrow> r = []"
  by (induction r rule: start_kinds.induct) simp_all

lemma resolved_Cons: "plain e \<Longrightarrow> resolved es r \<Longrightarrow> resolved (e # es) (e # r)"
  by (cases e) (auto simp: resolved_def plain_empty split: nat.splits)

lemma resolved_chain:
  assumes "lifts i evs c evs'" and "resolved (drop i evs') r"
  shows "resolved (drop i evs) (map (\<lambda>k. StartNode k None) (rev c) @ r)"
  using assms by (auto simp: resolved_def lifts_def)

lemma resolve_from:
  "i \<le> length evs \<Longrightarrow>
   \<exists>r'. snd (fold resolve_step [i..<length evs] (evs, r)) = r @ r' \<and> resolved (drop i evs) r'"
proof (induction "length evs - i" arbitrary: i evs r)
  case 0
  then show ?case by simp
next
  case (Suc n)
  then have i: "i < length evs" by simp
  have up: "[i..<length evs] = i # [Suc i..<length evs]" using i by (rule upt_conv_Cons)
  have d: "drop i evs = evs ! i # drop (Suc i) evs" using i by (simp add: Cons_nth_drop_Suc)
  have next_ev: "\<exists>r'. snd (fold resolve_step [Suc i..<length evs] (es, r0)) = r0 @ r'
      \<and> resolved (drop (Suc i) es) r'" if "length es = length evs" for es r0
    using Suc.hyps(1) [of es "Suc i" r0] Suc.hyps(2) i that by simp
  show ?case
  proof (cases "\<exists>k delta. evs ! i = StartNode k (Some delta)")
    case True
    then obtain k delta where e: "evs ! i = StartNode k (Some delta)" by blast
    obtain c evs' where ch: "chase evs i [] = (c, evs')" by fastforce
    from chase_start [OF i e ch] have l: "lifts i evs c evs'" and t: "evs' ! i = Tombstone"
      by auto
    then have len: "length evs' = length evs" by (simp add: lifts_def)
    have d': "drop i evs' = Tombstone # drop (Suc i) evs'"
      using i t len by (metis Cons_nth_drop_Suc)
    obtain r' where "snd (fold resolve_step [Suc i..<length evs]
        (evs', r @ map (\<lambda>k. StartNode k None) (rev c))) = (r @ map (\<lambda>k. StartNode k None) (rev c)) @ r'"
      and "resolved (drop (Suc i) evs') r'"
      using next_ev [OF len] by blast
    moreover from this(2) have "resolved (drop i evs) (map (\<lambda>k. StartNode k None) (rev c) @ r')"
      unfolding d' [symmetric] by (intro resolved_chain [OF l]) (simp add: d' resolved_Tombstone)
    ultimately show ?thesis
      by (simp add: up resolve_step_def e ch)
  next
    case False
    show ?thesis
    proof (cases "evs ! i = Tombstone")
      case True
      then show ?thesis using next_ev [of evs r]
        by (auto simp: up resolve_step_def d intro: resolved_Tombstone)
    next
      case nt: False
      with False have p: "plain (evs ! i)" by (cases "evs ! i") auto
      have "resolve_step i (evs, r) = (evs, r @ [evs ! i])"
        using nt False by (auto simp: resolve_step_def split: Event.splits option.splits)
      then show ?thesis using next_ev [of evs "r @ [evs ! i]"] resolved_Cons [OF p]
        by (auto simp: up d)
    qed
  qed
qed

lemma resolve_resolved: "resolved evs (resolve_forward_parents evs)"
  using resolve_from [of 0 evs "[]"] by (simp add: resolve_forward_parents_def)

text \<open>A root without forward parent stays where it is.\<close>

lemma resolve_root:
  "\<exists>r. resolve_forward_parents (StartNode k None # es) = StartNode k None # r \<and> resolved es r"
proof -
  let ?evs = "StartNode k None # es"
  have "fold resolve_step [0..<length ?evs] (?evs, []) =
      fold resolve_step [1..<length ?evs] (?evs, [StartNode k None])"
    by (subst upt_conv_Cons) (simp_all add: resolve_step_def)
  with resolve_from [of 1 ?evs "[StartNode k None]"] show ?thesis
    by (auto simp: resolve_forward_parents_def)
qed

section \<open>Views of the builder calls\<close>

fun leaves :: "BuilderCall list \<Rightarrow> (nat \<times> string) list" where
  "leaves [] = []"
| "leaves (BToken k txt # cs) = (k, txt) # leaves cs"
| "leaves (_ # cs) = leaves cs"

fun opened :: "BuilderCall list \<Rightarrow> nat list" where
  "opened [] = []"
| "opened (BStart k # cs) = k # opened cs"
| "opened (_ # cs) = opened cs"

fun calls_rooted :: "nat \<Rightarrow> BuilderCall list \<Rightarrow> bool" where
  "calls_rooted d [] = False"
| "calls_rooted d (BStart k # cs) = calls_rooted (Suc d) cs"
| "calls_rooted d (BFinish # cs) = (case d of 0 \<Rightarrow> cs = [] | Suc d' \<Rightarrow> calls_rooted d' cs)"
| "calls_rooted d (BToken k txt # cs) = calls_rooted d cs"

text \<open>
  \<open>tidy a cs\<close>: in the calls \<open>cs\<close> made after the call \<open>a\<close>, trivia never opens a node other than a
  source file, and never ends a node other than the one closed by the last call.
\<close>

fun trivia_call :: "BuilderCall \<Rightarrow> bool" where
  "trivia_call (BToken k txt) = is_trivia (SyntaxKind k)"
| "trivia_call _ = False"

fun inner_start :: "BuilderCall \<Rightarrow> bool" where
  "inner_start (BStart k) = (k \<noteq> kind_to_raw SourceFile)"
| "inner_start _ = False"

fun tidy :: "BuilderCall \<Rightarrow> BuilderCall list \<Rightarrow> bool" where
  "tidy a [] = True"
| "tidy a (c # cs) =
     (\<not> (inner_start a \<and> trivia_call c)
      \<and> \<not> (trivia_call a \<and> c = BFinish \<and> cs \<noteq> [])
      \<and> tidy c cs)"

definition token_call :: "LexToken \<Rightarrow> BuilderCall" where
  "token_call t = BToken (kind_to_raw (tkind t)) (tok_text t)"

definition token_leaf :: "LexToken \<Rightarrow> nat \<times> string" where
  "token_leaf t = (kind_to_raw (tkind t), tok_text t)"

definition significant :: "LexToken list \<Rightarrow> SyntaxKind list" where
  "significant ts = filter (\<lambda>k. \<not> is_trivia k) (map tkind ts)"

lemma significant_simps [simp]:
  "significant [] = []"
  "significant (t # ts) = (if is_trivia (tkind t) then significant ts else tkind t # significant ts)"
  by (simp_all add: significant_def)

lemma trivia_call_token [simp]: "trivia_call (token_call t) \<longleftrightarrow> is_trivia (tkind t)"
  by (simp add: token_call_def kind_to_raw_def)

lemma inner_start_token [simp]: "\<not> inner_start (token_call t)"
  by (simp add: token_call_def)

lemma token_call_not_finish [simp]: "token_call t \<noteq> BFinish"
  by (simp add: token_call_def)

lemma calls_tokens [simp]:
  "leaves (map token_call ts @ cs) = map token_leaf ts @ leaves cs"
  "opened (map token_call ts @ cs) = opened cs"
  "calls_rooted d (map token_call ts @ cs) = calls_rooted d cs"
  by (induction ts) (simp_all add: token_call_def token_leaf_def)

lemma calls_token [simp]:
  "leaves (token_call t # cs) = token_leaf t # leaves cs"
  "opened (token_call t # cs) = opened cs"
  "calls_rooted d (token_call t # cs) = calls_rooted d cs"
  by (simp_all add: token_call_def token_leaf_def)

lemma tidy_trivia:
  "\<forall>t\<in>set ts. is_trivia (tkind t) \<Longrightarrow> ts = [] \<or> \<not> inner_start a \<Longrightarrow>
   \<not> trivia_call c \<Longrightarrow> c \<noteq> BFinish \<or> cs = [] \<Longrightarrow> tidy a (map token_call ts @ c # cs) = tidy c cs"
  by (induction ts arbitrary: a) auto

section \<open>Walking the events\<close>

lemma push_token_drop:
  assumes "drop (raw_pos s) tokens = t # ts"
  shows "push_token tokens s = s\<lparr>builder := builder s @ [token_call t], raw_pos := raw_pos s + 1\<rparr>"
    and "drop (raw_pos s + 1) tokens = ts"
proof -
  from assms have l: "raw_pos s < length tokens" by (metis drop_all linorder_not_le list.distinct(1))
  with assms have "tokens ! raw_pos s = t" by (metis nth_via_drop)
  with l show "push_token tokens s = s\<lparr>builder := builder s @ [token_call t], raw_pos := raw_pos s + 1\<rparr>"
    by (simp add: push_token_def token_call_def)
  from assms show "drop (raw_pos s + 1) tokens = ts" by (metis drop_Suc Suc_eq_plus1 tl_drop list.sel(3))
qed

lemma attach_trivia_eq:
  assumes "drop (raw_pos s) tokens = us @ vs" and "\<forall>t\<in>set us. is_trivia (tkind t)"
    and "vs = [] \<or> \<not> is_trivia (tkind (hd vs))"
  shows "attach_trivia tokens s =
    s\<lparr>builder := builder s @ map token_call us, raw_pos := raw_pos s + length us\<rparr>"
  using assms
proof (induction us arbitrary: s)
  case Nil
  have "\<not> (raw_pos s < length tokens \<and> is_trivia (tkind (tokens ! raw_pos s)))"
  proof
    assume a: "raw_pos s < length tokens \<and> is_trivia (tkind (tokens ! raw_pos s))"
    with Nil.prems(1) have "vs = tokens ! raw_pos s # drop (Suc (raw_pos s)) tokens"
      by (simp add: Cons_nth_drop_Suc)
    with a Nil.prems(3) show False by auto
  qed
  then show ?case by (subst attach_trivia.simps) auto
next
  case (Cons u us)
  then have d: "drop (raw_pos s) tokens = u # (us @ vs)" by simp
  then have l: "raw_pos s < length tokens" by (metis drop_all linorder_not_le list.distinct(1))
  moreover from d have "tokens ! raw_pos s = u" by (metis nth_via_drop)
  ultimately have "attach_trivia tokens s = attach_trivia tokens (push_token tokens s)"
    using Cons.prems(2) by (subst attach_trivia.simps) simp
  with Cons.IH [of "push_token tokens s"] Cons.prems(2,3) push_token_drop [OF d]
  show ?case by simp
qed

text \<open>The trivia at the current position and what follows it.\<close>

lemma trivia_split:
  obtains us vs where "xs = us @ vs" and "\<forall>t\<in>set us. is_trivia (tkind t)"
    and "vs = [] \<or> \<not> is_trivia (tkind (hd vs))" and "significant vs = significant xs"
proof -
  let ?us = "takeWhile (\<lambda>t. is_trivia (tkind t)) xs" and ?vs = "dropWhile (\<lambda>t. is_trivia (tkind t)) xs"
  have "xs = ?us @ ?vs" by simp
  moreover have "\<forall>t\<in>set ?us. is_trivia (tkind t)" by (auto dest: set_takeWhileD)
  moreover have "?vs = [] \<or> \<not> is_trivia (tkind (hd ?vs))" 
    using hd_dropWhile [of "\<lambda>t. is_trivia (tkind t)" xs] by blast
  moreover have "significant ?vs = significant xs" by (induction xs) simp_all
  ultimately show thesis by (rule that)
qed

text \<open>
  From a state with \<open>d\<close> nodes open above the root, the last call made being \<open>a\<close>, the walk returns
  and adds the calls \<open>cs\<close>.
\<close>

definition walk :: "LexToken list \<Rightarrow> Event list \<Rightarrow> Bridge \<Rightarrow> nat \<Rightarrow> BuilderCall \<Rightarrow> bool" where
  "walk tokens es s d a \<longleftrightarrow>
     (\<exists>s' cs. bridge_events tokens es s = Some s' \<and> builder s' = builder s @ cs
        \<and> calls_rooted d cs \<and> opened cs = map kind_to_raw (start_kinds es)
        \<and> leaves cs = map token_leaf (drop (raw_pos s) tokens) \<and> tidy a cs)"

definition at_trivia :: "LexToken list \<Rightarrow> Bridge \<Rightarrow> bool" where
  "at_trivia tokens s \<longleftrightarrow>
     (case drop (raw_pos s) tokens of [] \<Rightarrow> False | t # _ \<Rightarrow> is_trivia (tkind t))"

lemma walk_step:
  assumes "bridge_event tokens e s = Some s1" and "walk tokens es s1 d' c"
    and "builder s1 = builder s @ map token_call us @ [c]"
    and "drop (raw_pos s) tokens = us @ vs" and "\<forall>t\<in>set us. is_trivia (tkind t)"
    and "inner_start a \<longrightarrow> \<not> at_trivia tokens s" and "\<not> trivia_call a"
    and "\<not> trivia_call c" and "c = BFinish \<Longrightarrow> us = []"
    and "\<And>cs. calls_rooted d' cs \<Longrightarrow> calls_rooted d (c # cs)"
    and "opened [c] = map kind_to_raw (start_kinds [e])"
    and "leaves [c] @ map token_leaf (drop (raw_pos s1) tokens) = map token_leaf vs"
  shows "walk tokens (e # es) s d a"
proof -
  from assms(2) obtain s' cs where w: "bridge_events tokens es s1 = Some s'"
    "builder s' = builder s1 @ cs" "calls_rooted d' cs" "opened cs = map kind_to_raw (start_kinds es)"
    "leaves cs = map token_leaf (drop (raw_pos s1) tokens)" "tidy c cs"
    by (auto simp: walk_def)
  have "us = [] \<or> \<not> inner_start a"
    using assms(4-6) by (cases us) (auto simp: at_trivia_def)
  then have "tidy a (map token_call us @ c # cs)"
    using assms(5,7,8,9) w(6) by (cases "c = BFinish") (auto simp: tidy_trivia)
  moreover have "leaves (c # cs) = leaves [c] @ leaves cs" by (cases c) simp_all
  moreover have "opened (c # cs) = opened [c] @ opened cs" by (cases c) simp_all
  moreover have "start_kinds (e # es) = start_kinds [e] @ start_kinds es" by (cases e) simp_all
  ultimately have "bridge_events tokens (e # es) s = Some s'
      \<and> builder s' = builder s @ (map token_call us @ c # cs)
      \<and> calls_rooted d (map token_call us @ c # cs)
      \<and> opened (map token_call us @ c # cs) = map kind_to_raw (start_kinds (e # es))
      \<and> leaves (map token_call us @ c # cs) = map token_leaf (drop (raw_pos s) tokens)
      \<and> tidy a (map token_call us @ c # cs)"
    using w assms(1,3,4,10-12) by simp
  then show ?thesis unfolding walk_def by blast
qed

definition ready :: "LexToken list \<Rightarrow> Event list \<Rightarrow> Bridge \<Rightarrow> nat \<Rightarrow> BuilderCall \<Rightarrow> bool" where
  "ready tokens es s d a \<longleftrightarrow>
     rooted d es \<and> depth s = Suc d
     \<and> token_events es = map (\<lambda>k. (k, 1)) (significant (drop (raw_pos s) tokens))
     \<and> (inner_start a \<longrightarrow> \<not> at_trivia tokens s) \<and> \<not> trivia_call a"

lemma drop_prefix: "drop n xs = us @ vs \<Longrightarrow> drop (n + length us) xs = vs"
  by (metis add.commute append_eq_conv_conj drop_drop)

lemma walk_start:
  assumes IH: "\<And>s a. ready tokens es s (Suc d) a \<Longrightarrow> walk tokens es s (Suc d) a"
    and r: "ready tokens (StartNode k fp # es) s d a"
  shows "walk tokens (StartNode k fp # es) s d a"
proof -
  obtain us vs where d: "drop (raw_pos s) tokens = us @ vs" and us: "\<forall>t\<in>set us. is_trivia (tkind t)"
    and vs: "vs = [] \<or> \<not> is_trivia (tkind (hd vs))"
    and sig: "significant vs = significant (drop (raw_pos s) tokens)"
    by (rule trivia_split)
  define us' where "us' = (if k = SourceFile then [] else us)"
  define vs' where "vs' = (if k = SourceFile then us @ vs else vs)"
  define s1 where "s1 = s\<lparr>builder := builder s @ map token_call us' @ [BStart (kind_to_raw k)],
    raw_pos := raw_pos s + length us', depth := Suc (Suc d)\<rparr>"
  have d1: "drop (raw_pos s1) tokens = vs'"
    using d drop_prefix [OF d] by (simp add: s1_def us'_def vs'_def)
  have b: "bridge_event tokens (StartNode k fp) s = Some s1"
    using attach_trivia_eq [OF d us vs] r by (simp add: bridge_event_def s1_def us'_def ready_def)
  have at: "inner_start (BStart (kind_to_raw k)) \<longrightarrow> \<not> at_trivia tokens s1"
    using vs by (auto simp: at_trivia_def d1 vs'_def split: list.splits)
  have "significant vs' = significant (drop (raw_pos s) tokens)"
    using sig d by (simp add: vs'_def)
  with r at d1 have "ready tokens es s1 (Suc d) (BStart (kind_to_raw k))"
    by (simp add: ready_def s1_def)
  from b IH [OF this] show ?thesis
    by (rule walk_step [where us = us' and vs = vs'])
      (use d d1 us r in \<open>auto simp: s1_def us'_def vs'_def ready_def\<close>)
qed

lemma walk_last:
  assumes r: "ready tokens [FinishNode] s 0 a"
  shows "walk tokens [FinishNode] s 0 a"
proof -
  obtain us vs where d: "drop (raw_pos s) tokens = us @ vs" and us: "\<forall>t\<in>set us. is_trivia (tkind t)"
    and vs: "vs = [] \<or> \<not> is_trivia (tkind (hd vs))"
    and sig: "significant vs = significant (drop (raw_pos s) tokens)"
    by (rule trivia_split)
  have v: "vs = []" using r sig vs by (cases vs) (auto simp: ready_def split: if_splits)
  have "us = [] \<or> \<not> inner_start a"
    using d us r by (cases us) (auto simp: at_trivia_def ready_def)
  with tidy_trivia [OF us, of a BFinish "[]"] have "tidy a (map token_call us @ [BFinish])" by simp
  moreover have "bridge_events tokens [FinishNode] s =
      Some (s\<lparr>builder := builder s @ map token_call us @ [BFinish],
              raw_pos := raw_pos s + length us, depth := 0\<rparr>)"
    using attach_trivia_eq [OF d us vs] r by (simp add: bridge_event_def ready_def)
  ultimately show ?thesis using d v by (auto simp: walk_def)
qed

lemma walk_finish:
  assumes IH: "\<And>s a. ready tokens es s d a \<Longrightarrow> walk tokens es s d a"
    and r: "ready tokens (FinishNode # es) s (Suc d) a"
  shows "walk tokens (FinishNode # es) s (Suc d) a"
proof -
  define s1 where "s1 = s\<lparr>builder := builder s @ [BFinish], depth := Suc d\<rparr>"
  have "bridge_event tokens FinishNode s = Some s1"
    using r by (simp add: bridge_event_def s1_def ready_def)
  moreover have "walk tokens es s1 d BFinish"
    by (rule IH) (use r in \<open>simp add: s1_def ready_def\<close>)
  ultimately show ?thesis
    by (rule walk_step [where us = "[]" and vs = "drop (raw_pos s) tokens"])
      (use r in \<open>auto simp: s1_def ready_def\<close>)
qed

lemma walk_token:
  assumes IH: "\<And>s a. ready tokens es s d a \<Longrightarrow> walk tokens es s d a"
    and r: "ready tokens (Token k n # es) s d a"
  shows "walk tokens (Token k n # es) s d a"
proof -
  obtain us vs where d: "drop (raw_pos s) tokens = us @ vs" and us: "\<forall>t\<in>set us. is_trivia (tkind t)"
    and vs: "vs = [] \<or> \<not> is_trivia (tkind (hd vs))"
    and sig: "significant vs = significant (drop (raw_pos s) tokens)"
    by (rule trivia_split)
  from r sig obtain v ws where v: "vs = v # ws" by (cases vs) (auto simp: ready_def)
  with vs r sig [symmetric] have nt: "\<not> is_trivia (tkind v)" and n: "n = 1"
    and te: "token_events es = map (\<lambda>k. (k, 1)) (significant ws)"
    by (auto simp: ready_def split: if_splits)
  let ?s0 = "s\<lparr>builder := builder s @ map token_call us, raw_pos := raw_pos s + length us\<rparr>"
  define s1 where "s1 = s\<lparr>builder := builder s @ map token_call us @ [token_call v],
    raw_pos := raw_pos s + length us + 1\<rparr>"
  have d0: "drop (raw_pos ?s0) tokens = v # ws" using drop_prefix [OF d] v by simp
  have d1: "drop (raw_pos s1) tokens = ws"
    using push_token_drop(2) [OF d0] by (simp add: s1_def)
  have b: "bridge_event tokens (Token k n) s = Some s1"
    using attach_trivia_eq [OF d us vs] n push_token_drop(1) [OF d0]
    by (simp add: bridge_event_def s1_def)
  have "walk tokens es s1 d (token_call v)"
    by (rule IH) (use r te d1 nt in \<open>simp add: s1_def ready_def\<close>)
  with b show ?thesis
    by (rule walk_step [where us = us and vs = vs])
      (use d d1 us v nt r in \<open>auto simp: s1_def ready_def\<close>)
qed

lemma bridge_events_rooted: "ready tokens es s d a \<Longrightarrow> walk tokens es s d a"
proof (induction es arbitrary: s d a)
  case Nil
  then show ?case by (simp add: ready_def)
next
  case (Cons e es)
  show ?case
  proof (cases e)
    case (StartNode k fp)
    with Cons show ?thesis by (simp add: walk_start)
  next
    case FinishNode
    show ?thesis
    proof (cases d)
      case 0
      with Cons.prems FinishNode have "es = []" by (simp add: ready_def)
      with 0 Cons.prems FinishNode show ?thesis by (simp add: walk_last)
    next
      case (Suc d')
      with Cons FinishNode show ?thesis by (simp add: walk_finish)
    qed
  next
    case (Token k n)
    with Cons show ?thesis by (simp add: walk_token)
  next
    case (Error msg)
    with Cons.prems have "ready tokens es s d a" by (simp add: ready_def)
    with Cons.IH Error show ?thesis by (fastforce simp: walk_def bridge_event_def)
  next
    case Tombstone
    with Cons.prems have "ready tokens es s d a" by (simp add: ready_def)
    with Cons.IH Tombstone show ?thesis by (fastforce simp: walk_def bridge_event_def)
  qed
qed

end
