(* ===== verification/Syntax_Lib.thy ===== *)
theory Syntax_Lib
  imports Bridge_Tree
begin

text \<open>
  The entry point of the syntax crate (\<open>syntax/src/lib.rs\<close>): from lexed tokens to the parser's
  input, through the parser and the bridge, to the tree and the located errors.  It never fails;
  the tree is lossless and every error range covers one token or the end of the source.
\<close>

section \<open>Parsing a token list\<close>

fun line_breaks_before :: "LexToken list \<Rightarrow> bool \<Rightarrow> bool list" where
  "line_breaks_before [] saw = []"
| "line_breaks_before (tok # toks) saw =
     (if is_trivia (tkind tok) then
        line_breaks_before toks
          (saw \<or> CHR 0x0A \<in> set (tok_text tok) \<or> CHR 0x0D \<in> set (tok_text tok))
      else saw # line_breaks_before toks False)"

fun byte_offsets :: "LexToken list \<Rightarrow> u32 \<Rightarrow> u32 list" where
  "byte_offsets [] offset = [offset]"
| "byte_offsets (tok # toks) offset =
     offset # byte_offsets toks (offset + of_nat (length (tok_text tok)))"

definition locate_error :: "LexToken list \<Rightarrow> Input \<Rightarrow> ParseError \<Rightarrow> ParseError option" where
  "locate_error tokens i e =
     (let offsets = byte_offsets tokens 0 in
      if err_token_pos e < input_len i then do {
        raw \<leftarrow> raw_index i (err_token_pos e);
        Some (e\<lparr>range_start := offsets ! raw,
                range_end := offsets ! raw + of_nat (length (tok_text (tokens ! raw)))\<rparr>)
      }
      else Some (e\<lparr>range_start := last offsets, range_end := last offsets\<rparr>))"

fun locate_errors :: "LexToken list \<Rightarrow> Input \<Rightarrow> ParseError list \<Rightarrow> ParseError list option" where
  "locate_errors tokens i [] = Some []"
| "locate_errors tokens i (e # es) = do {
     e' \<leftarrow> locate_error tokens i e;
     es' \<leftarrow> locate_errors tokens i es;
     Some (e' # es')
   }"

record Parse =
  green :: "BuilderCall list"
  parse_errors :: "ParseError list"

definition parse_tokens :: "LexToken list \<Rightarrow> Parse option" where
  "parse_tokens tokens = do {
     i \<leftarrow> new_with_line_breaks (map tkind tokens) (line_breaks_before tokens False);
     (evs, errs) \<leftarrow> parse i;
     errs \<leftarrow> locate_errors tokens i errs;
     calls \<leftarrow> build_tree evs tokens;
     Some \<lparr>green = calls, parse_errors = errs\<rparr>
   }"

text \<open>\<open>parse(source)\<close>: the lexer, then the rest.\<close>

definition syntax_parse :: "matcher \<Rightarrow> string \<Rightarrow> Parse option" where
  "syntax_parse logos source = do {
     tokens \<leftarrow> lex_source logos source;
     parse_tokens tokens
   }"

section \<open>The parser input\<close>

definition text_of :: "LexToken list \<Rightarrow> string" where
  "text_of tokens = concat (map tok_text tokens)"

lemma text_of_simps [simp]:
  "text_of [] = []" "text_of (t # ts) = tok_text t @ text_of ts"
  by (simp_all add: text_of_def)

lemma length_line_breaks [simp]:
  "length (line_breaks_before toks saw) = length (significant toks)"
  by (induction toks saw rule: line_breaks_before.induct) simp_all

lemma filter_enumerate:
  "map (\<lambda>r. raws ! (r - n)) (map fst (filter (\<lambda>(i, k). P k) (enumerate n raws))) = filter P raws"
proof (induction raws arbitrary: n)
  case (Cons k raws)
  have "map (\<lambda>r. (k # raws) ! (r - n)) (map fst (filter (\<lambda>(i, k). P k) (enumerate (Suc n) raws)))
      = map (\<lambda>r. raws ! (r - Suc n)) (map fst (filter (\<lambda>(i, k). P k) (enumerate (Suc n) raws)))"
    by (auto simp: in_set_enumerate_eq nth_Cons' diff_Suc split: nat.splits)
  with Cons.IH show ?case by (simp add: enumerate_simps)
qed simp

lemma input_of_tokens:
  obtains i where
    "new_with_line_breaks (map tkind tokens) (line_breaks_before tokens saw) = Some i"
    and "kinds i = significant tokens"
    and "\<forall>r \<in> set (non_trivia_to_raw i). r < length tokens"
proof -
  let ?raws = "map tkind tokens"
  let ?to_raw = "map fst (filter (\<lambda>(i, k). \<not> is_trivia k) (enumerate 0 ?raws))"
  have k: "map (\<lambda>r. ?raws ! r) ?to_raw = significant tokens"
    using filter_enumerate [of ?raws 0 "\<lambda>k. \<not> is_trivia k"] by (simp add: significant_def)
  then have "length ?to_raw = length (significant tokens)" by (metis length_map)
  moreover have "\<forall>r \<in> set ?to_raw. r < length tokens"
    by (auto simp: in_set_enumerate_eq)
  ultimately show thesis
    using k by (intro that [of "\<lparr>raw_kinds = ?raws, non_trivia_to_raw = ?to_raw,
        line_break_before_non_trivia = line_breaks_before tokens saw\<rparr>"])
      (simp_all add: new_with_line_breaks_def kinds_def)
qed

definition has_line_break :: "LexToken \<Rightarrow> bool" where
  "has_line_break t \<longleftrightarrow> CHR 0x0A \<in> set (tok_text t) \<or> CHR 0x0D \<in> set (tok_text t)"

lemma line_breaks_run:
  "\<forall>u\<in>set us. is_trivia (tkind u) \<Longrightarrow> \<not> is_trivia (tkind t) \<Longrightarrow>
   line_breaks_before (us @ t # ys) saw =
     (saw \<or> (\<exists>u\<in>set us. has_line_break u)) # line_breaks_before ys False"
  by (induction us arbitrary: saw) (auto simp: has_line_break_def)

lemma line_breaks_append:
  "xs \<noteq> [] \<Longrightarrow> \<not> is_trivia (tkind (last xs)) \<Longrightarrow>
   line_breaks_before (xs @ ys) saw = line_breaks_before xs saw @ line_breaks_before ys False"
  by (induction xs arbitrary: saw) (auto split: if_splits)

section \<open>Error ranges\<close>

lemma byte_offsets_nth:
  "j \<le> length tokens \<Longrightarrow> byte_offsets tokens offset ! j = offset + of_nat (length (text_of (take j tokens)))"
proof (induction tokens arbitrary: offset j)
  case (Cons t tokens)
  then show ?case by (cases j) (simp_all add: algebra_simps)
qed simp

lemma length_byte_offsets [simp]: "length (byte_offsets tokens offset) = Suc (length tokens)"
  by (induction tokens offset rule: byte_offsets.induct) simp_all

lemma last_byte_offsets:
  "last (byte_offsets tokens offset) = offset + of_nat (length (text_of tokens))"
proof -
  have "byte_offsets tokens offset \<noteq> []" by (cases tokens) simp_all
  then have "last (byte_offsets tokens offset) = byte_offsets tokens offset ! length tokens"
    by (simp add: last_conv_nth)
  then show ?thesis by (simp add: byte_offsets_nth)
qed

lemma text_of_split:
  "r < length tokens \<Longrightarrow>
   text_of tokens = text_of (take r tokens) @ tok_text (tokens ! r) @ text_of (drop (Suc r) tokens)"
  by (subst id_take_nth_drop [of r tokens]) (simp_all add: text_of_def)

text \<open>
  \<open>located tokens e\<close>: the range of \<open>e\<close> is that of one non-trivia token, or empty at the end.
\<close>

definition located :: "LexToken list \<Rightarrow> ParseError \<Rightarrow> bool" where
  "located tokens e \<longleftrightarrow>
     (\<exists>xs t ys. tokens = xs @ t # ys \<and> \<not> is_trivia (tkind t)
        \<and> unat (range_start e) = length (text_of xs)
        \<and> unat (range_end e) = length (text_of xs) + length (tok_text t))
     \<or> unat (range_start e) = length (text_of tokens) \<and> unat (range_end e) = length (text_of tokens)"

lemma unat_of_nat_u32: "n < 2 ^ 32 \<Longrightarrow> unat (of_nat n :: u32) = n"
  by (simp add: unat_of_nat take_bit_nat_eq_self)

lemma locate_error_located:
  assumes "map tkind tokens = raw_kinds i" and "\<forall>r \<in> set (non_trivia_to_raw i). r < length tokens"
    and "\<forall>k \<in> set (kinds i). \<not> is_trivia k"
  shows "\<exists>e'. locate_error tokens i e = Some e' \<and> message e' = message e
    \<and> (length (text_of tokens) < 2 ^ 32 \<longrightarrow> located tokens e')"
proof (cases "err_token_pos e < input_len i")
  case True
  define r where "r = non_trivia_to_raw i ! err_token_pos e"
  from True have r: "r \<in> set (non_trivia_to_raw i)" by (simp add: r_def input_len_def)
  then have rl: "r < length tokens" using assms(2) by blast
  have "raw_kinds i ! r \<in> set (kinds i)" using r by (auto simp: kinds_def)
  with assms(1,3) rl have nt: "\<not> is_trivia (tkind (tokens ! r))" by (metis nth_map)
  let ?n = "length (text_of (take r tokens))" and ?m = "length (tok_text (tokens ! r))"
  have lt: "?n + ?m \<le> length (text_of tokens)" by (subst text_of_split [OF rl]) simp
  have e: "locate_error tokens i e = Some (e\<lparr>range_start := of_nat ?n, range_end := of_nat (?n + ?m)\<rparr>)"
    using True rl by (simp add: locate_error_def raw_index_def input_len_def r_def byte_offsets_nth)
  have "located tokens (e\<lparr>range_start := of_nat ?n, range_end := of_nat (?n + ?m)\<rparr>)"
    if "length (text_of tokens) < 2 ^ 32"
  proof -
    from that lt have "unat (of_nat ?n :: u32) = ?n" "unat (of_nat (?n + ?m) :: u32) = ?n + ?m"
      by (simp_all only: unat_of_nat_u32)
    moreover have "tokens = take r tokens @ tokens ! r # drop (Suc r) tokens"
      using rl by (rule id_take_nth_drop)
    ultimately show ?thesis
      using nt unfolding located_def
      by (intro disjI1 exI [of _ "take r tokens"] exI [of _ "tokens ! r"]
          exI [of _ "drop (Suc r) tokens"]) simp
  qed
  with e show ?thesis by simp
next
  case False
  then show ?thesis by (simp add: locate_error_def last_byte_offsets located_def unat_of_nat_u32)
qed

lemma locate_errors_located:
  assumes "map tkind tokens = raw_kinds i" and "\<forall>r \<in> set (non_trivia_to_raw i). r < length tokens"
    and "\<forall>k \<in> set (kinds i). \<not> is_trivia k"
  shows "\<exists>es'. locate_errors tokens i es = Some es' \<and> map message es' = map message es
    \<and> (length (text_of tokens) < 2 ^ 32 \<longrightarrow> list_all (located tokens) es')"
proof (induction es)
  case (Cons e es)
  with locate_error_located [OF assms, of e] show ?case by auto
qed simp

section \<open>The whole parse\<close>

lemma build_tree_rooted:
  assumes "scan 1 [] es = Some []" and "token_events es = map (\<lambda>k. (k, 1)) (significant tokens)"
  shows "\<exists>cs. build_tree (StartNode SourceFile None # es @ [FinishNode]) tokens =
      Some (BStart (kind_to_raw SourceFile) # cs)
    \<and> calls_rooted 0 cs \<and> leaves cs = map token_leaf tokens
    \<and> mset (opened cs) = image_mset kind_to_raw (mset (start_kinds es))
    \<and> tidy (BStart (kind_to_raw SourceFile)) cs"
proof -
  obtain r where r: "resolve_forward_parents (StartNode SourceFile None # es @ [FinishNode]) =
      StartNode SourceFile None # r" and res: "resolved (es @ [FinishNode]) r"
    using resolve_root by blast
  let ?s = "\<lparr>builder = [BStart (kind_to_raw SourceFile)], raw_pos = 0, depth = 1\<rparr>"
  have "rooted 0 (es @ [FinishNode])" using scan_rooted [OF assms(1)] by simp
  moreover have "token_events r = token_events (es @ [FinishNode])"
    using res by (metis token_events_others resolved_def)
  ultimately have "ready tokens r ?s 0 (BStart (kind_to_raw SourceFile))"
    using res assms(2) by (simp add: ready_def resolved_def)
  from bridge_events_rooted [OF this] obtain s' cs where
    w: "bridge_events tokens r ?s = Some s'" "builder s' = BStart (kind_to_raw SourceFile) # cs"
      "calls_rooted 0 cs" "opened cs = map kind_to_raw (start_kinds r)"
      "leaves cs = map token_leaf tokens" "tidy (BStart (kind_to_raw SourceFile)) cs"
    by (auto simp: walk_def)
  have "build_tree (StartNode SourceFile None # es @ [FinishNode]) tokens = Some (builder s')"
    using w(1) by (simp add: build_tree_def r bridge_event_def)
  moreover have "mset (opened cs) = image_mset kind_to_raw (mset (start_kinds es))"
    using res w(4) by (simp add: resolved_def)
  ultimately show ?thesis using w by auto
qed

text \<open>
  \<open>parse_tokens_spec tokens P\<close>: what the entry point promises of its result \<open>P\<close>.
\<close>

definition parse_tokens_spec :: "LexToken list \<Rightarrow> Parse \<Rightarrow> bool" where
  "parse_tokens_spec tokens P \<longleftrightarrow>
     (\<exists>cs. green P = BStart (kind_to_raw SourceFile) # cs
        \<and> calls_rooted 0 cs \<and> leaves cs = map token_leaf tokens
        \<and> tidy (BStart (kind_to_raw SourceFile)) cs)
     \<and> (length (text_of tokens) < 2 ^ 32 \<longrightarrow> list_all (located tokens) (parse_errors P))"

lemma parse_tokens_meets_spec: "\<exists>P. parse_tokens tokens = Some P \<and> parse_tokens_spec tokens P"
proof -
  obtain i where i: "new_with_line_breaks (map tkind tokens) (line_breaks_before tokens False) = Some i"
    and k: "kinds i = significant tokens" and r: "\<forall>r \<in> set (non_trivia_to_raw i). r < length tokens"
    by (rule input_of_tokens)
  obtain es errs where p: "parse i = Some (StartNode SourceFile None # es @ [FinishNode], errs)"
    and sc: "scan 1 [] es = Some []" and te: "token_events es = map (\<lambda>k. (k, 1)) (significant tokens)"
    using parse_returns [of i] k by auto
  have "map tkind tokens = raw_kinds i" using i by (auto simp: new_with_line_breaks_def Let_def split: if_splits)
  moreover have "\<forall>k \<in> set (kinds i). \<not> is_trivia k" using k by (auto simp: significant_def)
  ultimately obtain errs' where e: "locate_errors tokens i errs = Some errs'"
    and l: "length (text_of tokens) < 2 ^ 32 \<longrightarrow> list_all (located tokens) errs'"
    using locate_errors_located r by blast
  from build_tree_rooted [OF sc te] obtain cs where
    "build_tree (StartNode SourceFile None # es @ [FinishNode]) tokens =
      Some (BStart (kind_to_raw SourceFile) # cs)" "calls_rooted 0 cs"
    "leaves cs = map token_leaf tokens" "tidy (BStart (kind_to_raw SourceFile)) cs"
    by auto
  with i p e l show ?thesis
    by (simp add: parse_tokens_def parse_tokens_spec_def)
qed

lemma parse_tokens_specD: "parse_tokens tokens = Some P \<Longrightarrow> parse_tokens_spec tokens P"
  using parse_tokens_meets_spec [of tokens] by auto

lemma leaves_text: "concat (map snd (map token_leaf tokens)) = text_of tokens"
  by (induction tokens) (simp_all add: token_leaf_def)

end
