(* ===== verification/Syntax_Properties.thy ===== *)
theory Syntax_Properties
  imports Syntax_Lib
begin

text \<open>
  The properties of the syntax front end: the parser engine, the grammar, the bridge and the entry
  point of the syntax crate, with a concrete instance for every property that has a premise.
\<close>

section \<open>Sample inputs\<close>

text \<open>The tokens of \<open>let x = 1\<close>, and of the ill-formed \<open>let = )\<close>.\<close>

definition let_tokens :: "LexToken list" where
  "let_tokens =
     [\<lparr>tkind = LetKw, tok_text = ''let''\<rparr>, \<lparr>tkind = Whitespace, tok_text = '' ''\<rparr>,
      \<lparr>tkind = Ident, tok_text = ''x''\<rparr>, \<lparr>tkind = Whitespace, tok_text = '' ''\<rparr>,
      \<lparr>tkind = Eq, tok_text = ''=''\<rparr>, \<lparr>tkind = Whitespace, tok_text = '' ''\<rparr>,
      \<lparr>tkind = IntLiteral, tok_text = ''1''\<rparr>]"

definition bad_input :: Input where
  "bad_input = \<lparr>raw_kinds = [LetKw, Eq, RParen], non_trivia_to_raw = [0, 1, 2],
     line_break_before_non_trivia = [False, False, False]\<rparr>"

definition bad_events :: "Event list" where
  "bad_events =
     [StartNode SourceFile None, StartNode LetBinding None, Token LetKw 1,
      Error ''expected pattern'', Token Eq 1, Error ''expected expression'', FinishNode,
      StartNode ErrorNode None, Error ''expected item'', Token RParen 1, FinishNode, FinishNode]"

definition bad_errors :: "ParseError list" where
  "bad_errors =
     [\<lparr>message = ''expected pattern'', range_start = 0, range_end = 0, err_token_pos = 1\<rparr>,
      \<lparr>message = ''expected expression'', range_start = 0, range_end = 0, err_token_pos = 2\<rparr>,
      \<lparr>message = ''expected item'', range_start = 0, range_end = 0, err_token_pos = 2\<rparr>]"

lemma bad_input_parse: "parse bad_input = Some (bad_events, bad_errors)"
  by code_simp

section \<open>The parser\<close>

text \<open>
  C1. The parser returns on every token stream: no assertion fails, no index is out of range, no
  loop and no recursion runs forever.  The events it returns open one source file first and close
  it last, every node in between is closed where it was opened, and the token events are exactly
  the significant tokens of the input, each once and in order.
\<close>

theorem parse_total:
  "\<exists>es errs. parse i = Some (StartNode SourceFile None # es @ [FinishNode], errs)
     \<and> scan 1 [] es = Some [] \<and> token_events es = map (\<lambda>k. (k, 1)) (kinds i)"
  using parse_returns [of i] by blast

text \<open>
  The error list is in step with the event stream: the same messages in the same order, at
  token positions that never go back and never pass the end of the input.
\<close>

theorem parse_errors_in_order:
  assumes "parse i = Some (evs, errs)"
  shows "error_events evs = map message errs \<and> sorted (map err_token_pos errs)
    \<and> list_all (\<lambda>e. err_token_pos e \<le> input_len i) errs"
  using parse_returns [of i] assms by (auto simp: list_all_iff)

text \<open>
  One more level of fuel than there are tokens left is enough for every cyclic part of the
  grammar: from a consistent state it returns, keeps what was there before, leaves the markers of
  its caller open and no others, gives no token back, and has consumed a token whenever it reports
  that it parsed something.
\<close>

theorem subparse_enough_fuel:
  assumes "st b p ms False p" and "remaining p < n" and "entry_ok nt p"
  shows "\<exists>r q. subparse n nt p = Some (r, q) \<and> st b p ms (r \<noteq> None) q"
  using depth.rc_returns [OF assms] by (auto simp: wp_iff)

definition start_parser :: Parser where
  "start_parser = parser_new \<lparr>raw_kinds = [IntLiteral], non_trivia_to_raw = [0],
     line_break_before_non_trivia = [False]\<rparr>"

text \<open>
  \<open>expect\<close> on any state that has no half token pending: it consumes the expected token
  silently; otherwise it reports one error at the current position and either stays (at the end and
  at a closing brace) or wraps the offending token in an error node.
\<close>

theorem expect_cases:
  assumes "pending_virtual_gt p = 0" and "k \<noteq> Eof"
  shows "expect k p =
    (let msg = ''expected '' @ kind_debug k;
         err = \<lparr>message = msg, range_start = 0, range_end = 0, err_token_pos = pos p\<rparr>
     in if at k p then Some (True, p\<lparr>events := events p @ [Token k 1], pos := pos p + 1\<rparr>)
        else if at_eof p \<or> at RBrace p
        then Some (False, p\<lparr>events := events p @ [Error msg], errors := errors p @ [err]\<rparr>)
        else Some (False, p\<lparr>pos := pos p + 1, errors := errors p @ [err],
               events := events p @ [StartNode ErrorNode None, Error msg, Token (current p) 1,
                                     FinishNode]\<rparr>))"
proof (cases "at k p")
  case True
  with assms at_not_eof [of k p] show ?thesis
    by (simp add: expect_def eat_def bump_def do_bump_def at_def)
next
  case False
  then show ?thesis
    using assms
    by (simp add: expect_def eat_def error_recover_def ts_contains_EMPTY error_def open_node_def
        bump_def do_bump_def complete_def at_eof_def current_def nth_kind_def Let_def
        list_update_append)
qed

text \<open>
  Closing two type argument lists on one \<open>>>\<close>: the first close consumes the raw token and shows
  a \<open>>\<close>, the second consumes that, and the tree gets the one raw token.
\<close>

theorem type_args_split_shift:
  assumes "pending_virtual_gt p = 0" and "at GtGt p"
  shows "\<exists>q r. eat_type_arg_rangle p = Some (True, q) \<and> current q = Gt
    \<and> eat_type_arg_rangle q = Some (True, r)
    \<and> r = p\<lparr>events := events p @ [Token GtGt 1], pos := pos p + 1\<rparr>"
proof -
  from assms(2) have c: "current p = GtGt" and ng: "\<not> at Gt p" by (simp_all add: at_def)
  have ne: "\<not> at_eof p" by (rule at_not_eof [OF assms(2)]) simp
  let ?q = "p\<lparr>events := events p @ [Token GtGt 1], pos := pos p + 1, pending_virtual_gt := 1\<rparr>"
  have "eat_type_arg_rangle p = Some (True, ?q)"
    using assms c ng ne by (simp add: eat_type_arg_rangle_def eat_def bump_def do_bump_def)
  moreover have "current ?q = Gt" by (simp add: current_def nth_kind_def)
  moreover have "eat_type_arg_rangle ?q = Some (True, ?q\<lparr>pending_virtual_gt := 0\<rparr>)"
    by (simp add: eat_type_arg_rangle_def eat_def bump_def at_def current_def nth_kind_def)
  ultimately show ?thesis using assms(1) by simp
qed

section \<open>The tree\<close>

text \<open>
  Resolving forward parents, on any event stream: tokens, errors and finish events stay as they
  are and in order, every node kind occurs as often as before, no tombstone and no forward parent
  is left, and a stream that closes its root with its last event still does.
\<close>

theorem resolve_forward_parents_contract:
  "others (resolve_forward_parents evs) = others evs
   \<and> mset (start_kinds (resolve_forward_parents evs)) = mset (start_kinds evs)
   \<and> list_all plain (resolve_forward_parents evs)
   \<and> {d. rooted d evs} \<subseteq> {d. rooted d (resolve_forward_parents evs)}"
  using resolve_resolved [of evs] by (auto simp: resolved_def list_all_iff)

text \<open>
  The entry point returns on every list of lexed tokens, and the calls it makes on the tree
  builder open one source file node first and close it with the last call.
\<close>

theorem parse_tokens_single_root:
  "\<exists>P cs. parse_tokens tokens = Some P \<and> green P = BStart (kind_to_raw SourceFile) # cs
     \<and> calls_rooted 0 cs"
  using parse_tokens_meets_spec [of tokens] by (auto simp: parse_tokens_spec_def)

text \<open>
  C2. The whole front end returns on every source and its tree is lossless, for every automaton
  whose matches are not empty and stay inside the source: the leaves of the tree, read from left to
  right, are the lexed tokens, none of them empty, and their texts make up the source.
\<close>

theorem syntax_parse_lossless:
  assumes "matcher_ok logos"
  shows "\<exists>tokens P. lex_source logos source = Some tokens \<and> syntax_parse logos source = Some P
    \<and> leaves (green P) = map token_leaf tokens \<and> [] \<notin> set (map tok_text tokens)
    \<and> concat (map snd (leaves (green P))) = source"
proof -
  obtain tokens where t: "lex_source logos source = Some tokens" "text_of tokens = source"
    "\<forall>t\<in>set tokens. tok_text t \<noteq> []"
    using lex_source_lossless [OF assms] by (auto simp: text_of_def)
  obtain P where "parse_tokens tokens = Some P" "parse_tokens_spec tokens P"
    using parse_tokens_meets_spec by blast
  then have "syntax_parse logos source = Some P" and "leaves (green P) = map token_leaf tokens"
    using t(1) by (auto simp: syntax_parse_def parse_tokens_spec_def)
  with t show ?thesis using leaves_text [of tokens] by force
qed

text \<open>
  A matcher for the witness: the longest run of white space, of letters or of digits, else one
  byte.
\<close>

definition sample_matcher :: matcher where
  "sample_matcher s =
     (let ws = length (takeWhile (\<lambda>c. c = CHR '' '') s);
          ident = length (takeWhile (\<lambda>c. c \<in> set ''abcdefghijklmnopqrstuvwxyz'') s);
          digits = length (takeWhile (\<lambda>c. c \<in> set ''0123456789'') s)
      in if 0 < ws then (Some TWhitespace, ws)
         else if 0 < ident then (Some TIdent, ident)
         else if 0 < digits then (Some TIntLiteral, digits)
         else if take 1 s = ''='' then (Some TEq, 1)
         else (None, 1))"

lemma sample_matcher_ok: "matcher_ok sample_matcher"
  by (auto simp: matcher_ok_def sample_matcher_def Let_def length_takeWhile_le Suc_le_eq)

theorem syntax_parse_lossless_witness:
  "lex_source sample_matcher ''let x = 1'' = Some let_tokens
   \<and> (\<exists>tokens P. lex_source sample_matcher ''let x = 1'' = Some tokens
        \<and> syntax_parse sample_matcher ''let x = 1'' = Some P
        \<and> leaves (green P) = map token_leaf tokens \<and> [] \<notin> set (map tok_text tokens)
        \<and> concat (map snd (leaves (green P))) = ''let x = 1'')"
proof -
  have "lex_source sample_matcher ''let x = 1'' = Some let_tokens" by code_simp
  with syntax_parse_lossless [OF sample_matcher_ok, of "''let x = 1''"] show ?thesis by blast
qed

text \<open>
  C3. Where trivia goes: whitespace and comments stay outside the nodes they surround.  Below the
  root no node begins with trivia and none ends with it.
\<close>

theorem trivia_between_nodes:
  assumes "parse_tokens tokens = Some P"
  shows "tidy (hd (green P)) (tl (green P))"
  using parse_tokens_specD [OF assms] by (auto simp: parse_tokens_spec_def)

definition let_parse :: Parse where
  "let_parse = \<lparr>green =
     [BStart 82, BStart 94, BToken 19 ''let'', BToken 2 '' '', BStart 153,
      BStart 86, BToken 9 ''x'', BFinish, BFinish, BToken 2 '' '',
      BToken 58 ''='', BToken 2 '' '', BStart 123, BToken 5 ''1'', BFinish,
      BFinish, BFinish], parse_errors = []\<rparr>"

theorem trivia_between_nodes_witness:
  "parse_tokens let_tokens = Some let_parse \<and> tidy (hd (green let_parse)) (tl (green let_parse))"
proof -
  have "parse_tokens let_tokens = Some let_parse" by code_simp
  with trivia_between_nodes show ?thesis by blast
qed

text \<open>
  C4. Every reported error range is the byte range of one significant token of the source, or
  empty at its end, as long as the source is shorter than four gigabytes, the limit of the 32-bit
  offsets.
\<close>

theorem error_ranges_located:
  assumes "parse_tokens tokens = Some P" and "length (text_of tokens) < 2 ^ 32"
  shows "list_all (located tokens) (parse_errors P)"
  using parse_tokens_specD [OF assms(1)] assms(2) by (simp add: parse_tokens_spec_def)

definition bad_tokens :: "LexToken list" where
  "bad_tokens = [\<lparr>tkind = LetKw, tok_text = ''let''\<rparr>, \<lparr>tkind = Whitespace, tok_text = '' ''\<rparr>,
     \<lparr>tkind = Eq, tok_text = ''=''\<rparr>]"

definition bad_parse :: Parse where
  "bad_parse = \<lparr>green =
     [BStart 82, BStart 94, BToken 19 ''let'', BToken 2 '' '', BToken 58 ''='', BFinish, BFinish],
     parse_errors =
       [\<lparr>message = ''expected pattern'', range_start = 4, range_end = 5, err_token_pos = 1\<rparr>,
        \<lparr>message = ''expected expression'', range_start = 5, range_end = 5, err_token_pos = 2\<rparr>]\<rparr>"

theorem error_ranges_located_witness:
  "parse_tokens bad_tokens = Some bad_parse \<and> length (parse_errors bad_parse) = 2
   \<and> list_all (located bad_tokens) (parse_errors bad_parse)"
proof -
  have p: "parse_tokens bad_tokens = Some bad_parse" by code_simp
  moreover have "length (text_of bad_tokens) < 2 ^ 32" by (simp add: bad_tokens_def)
  ultimately have "list_all (located bad_tokens) (parse_errors bad_parse)"
    by (rule error_ranges_located)
  with p show ?thesis by (simp add: bad_parse_def)
qed

text \<open>
  The line-break flags the parser reads: the flag of a significant token is set iff the trivia
  between it and the significant token before it contains a line feed or a carriage return.
\<close>

theorem line_break_flag:
  assumes "xs = [] \<or> \<not> is_trivia (tkind (last xs))" and "list_all (\<lambda>u. is_trivia (tkind u)) us"
    and "\<not> is_trivia (tkind t)"
  shows "line_breaks_before (xs @ us @ t # ys) False ! length (significant xs)
    \<longleftrightarrow> list_ex has_line_break us"
proof (cases "xs = []")
  case True
  with assms show ?thesis by (simp add: line_breaks_run list_all_iff list_ex_iff)
next
  case False
  then have "line_breaks_before (xs @ us @ t # ys) False =
      line_breaks_before xs False @ list_ex has_line_break us # line_breaks_before ys False"
    using assms by (simp add: line_breaks_append line_breaks_run list_all_iff list_ex_iff)
  then show ?thesis by (simp add: nth_append)
qed

text \<open>
  Nested block comments: after the opening delimiter the scanner consumes a body that closes
  every comment it opens, to its end and no further; a body that never closes takes the rest of the
  source.
\<close>

theorem block_comment_nesting:
  "(\<forall>ys. comment_depth 1 xs = Some 0 \<longrightarrow> block_comment (xs @ ys) = length xs)
   \<and> ((\<forall>n. comment_depth 1 (take n xs) \<noteq> Some 0) \<longrightarrow> block_comment xs = length xs)"
  using block_comment_scan_closed [of 1 xs] block_comment_scan_open [of 1 xs]
    block_comment_scan_le [of 1 xs]
  unfolding block_comment_def by (metis le_neq_implies_less)

section \<open>Kinds\<close>

text \<open>
  Recovery sets are sets: a bitset built from a list of kinds contains exactly the kinds of the
  list, and a union exactly the kinds of both.
\<close>

lemma token_set_membership:
  assumes "list_all valid_kind ks" and "list_all valid_kind ls"
  shows "ts_contains (ts_union (ts_new ks) (ts_new ls)) k \<longleftrightarrow> k \<in> set ks \<union> set ls"
  unfolding ts_new_def
  by (rule ts.mem_un_lists) (use assms in \<open>auto simp: list_all_iff valid_kind_def\<close>)

lemma keyword_tables_agree:
  "filter (\<lambda>(s, k). k \<noteq> ModuleKw) from_keyword_table =
     map (\<lambda>(k, s). (s, k)) (filter (\<lambda>(k, s). k \<noteq> AllKw) keyword_table)"
  by code_simp

lemma keyword_tables_distinct:
  "distinct (map fst from_keyword_table)" "distinct (map fst keyword_table)"
  by code_simp+

text \<open>
  The keyword table and the keyword texts are inverse to each other on every kind but two:
  \<open>module\<close>, which is looked up but is also an identifier, and \<open>all\<close>, which has a text but is never
  looked up.
\<close>

lemma keyword_round_trip:
  assumes "k \<noteq> AllKw" and "k \<noteq> ModuleKw"
  shows "from_keyword s = Some k \<longleftrightarrow> keyword_text k = Some s"
proof -
  have "(s, k) \<in> set from_keyword_table \<longleftrightarrow>
      (s, k) \<in> set (filter (\<lambda>(s, k). k \<noteq> ModuleKw) from_keyword_table)"
    using assms(2) by simp
  also have "\<dots> \<longleftrightarrow> (k, s) \<in> set (filter (\<lambda>(k, s). k \<noteq> AllKw) keyword_table)"
    unfolding keyword_tables_agree by auto
  also have "\<dots> \<longleftrightarrow> (k, s) \<in> set keyword_table" using assms(1) by simp
  finally show ?thesis
    by (simp add: from_keyword_def keyword_text_def map_of_eq_Some_iff keyword_tables_distinct)
qed

text \<open>The keyword \<open>all\<close> has a text that the keyword lookup does not know.\<close>

lemma all_keyword_not_looked_up:
  "is_keyword AllKw \<and> keyword_text AllKw = Some ''all'' \<and> from_keyword ''all'' = None
   \<and> \<not> is_reserved_keyword_text ''all''"
  by code_simp

end
