(* ===== verification/Unify.thy ===== *)
theory Unify
  imports Types
begin

text \<open>
  The unification table (\<open>hir-ty/src/unify.rs\<close>).

  The table is the list of bindings, \<open>None\<close> for an unbound variable.  An index out of range
  panics in the source and is \<open>None\<close> here.  Deep resolution, the occurs check and unification
  recurse through bindings; they carry a fuel that bounds the nesting of calls, and the theory
  \<open>Unify_Correct\<close> shows that on every well-formed table some fuel is enough.
\<close>

type_synonym UnificationTable = "Ty option list"

record BindingSnapshot =
  entries :: "(TyVarId \<times> Ty option) list"

section \<open>Variables and snapshots\<close>

definition table_new :: UnificationTable where
  "table_new = []"

definition fresh_var :: "UnificationTable \<Rightarrow> Ty \<times> UnificationTable" where
  "fresh_var vars = (TVar (length vars), vars @ [None])"

fun restore_entries :: "(TyVarId \<times> Ty option) list \<Rightarrow> UnificationTable \<Rightarrow> UnificationTable option" where
  "restore_entries [] vars = Some vars"
| "restore_entries ((vid, binding) # rest) vars =
     (if vid < length vars then restore_entries rest (vars[vid := binding]) else None)"

definition restore :: "BindingSnapshot \<Rightarrow> UnificationTable \<Rightarrow> UnificationTable option" where
  "restore snap vars = restore_entries (entries snap) vars"

section \<open>Following bindings\<close>

text \<open>
  The loop of \<open>resolve_var_chain\<close>; \<open>budget\<close> is the number of steps the guard still allows.
\<close>

fun resolve_loop ::
  "nat \<Rightarrow> UnificationTable \<Rightarrow> TyVarId \<Rightarrow> TyVarId list \<Rightarrow> (Ty \<times> TyVarId list) option" where
  "resolve_loop 0 vars current path = Some (TVar current, path)"
| "resolve_loop (Suc budget) vars current path =
     (if current < length vars then
        (case vars ! current of
           Some (TVar next_id) \<Rightarrow> resolve_loop budget vars next_id (path @ [current])
         | Some bound \<Rightarrow> Some (bound, path @ [current])
         | None \<Rightarrow> Some (TVar current, path))
      else None)"

definition resolve_var_chain :: "UnificationTable \<Rightarrow> TyVarId \<Rightarrow> (Ty \<times> TyVarId list) option" where
  "resolve_var_chain vars vid = resolve_loop (length vars + 1) vars vid []"

fun compress_path :: "TyVarId list \<Rightarrow> Ty \<Rightarrow> UnificationTable \<Rightarrow> UnificationTable" where
  "compress_path [] resolved vars = vars"
| "compress_path (vid # path) resolved vars = compress_path path resolved (vars[vid := Some resolved])"

definition resolve_with_compression :: "UnificationTable \<Rightarrow> Ty \<Rightarrow> (Ty \<times> UnificationTable) option" where
  "resolve_with_compression vars ty =
     (case ty of
        TVar vid \<Rightarrow> do {
          (resolved, path) \<leftarrow> resolve_var_chain vars vid;
          Some (resolved, compress_path path resolved vars)
        }
      | _ \<Rightarrow> Some (ty, vars))"

definition resolve_ty :: "UnificationTable \<Rightarrow> Ty \<Rightarrow> Ty option" where
  "resolve_ty vars ty =
     (case ty of
        TVar vid \<Rightarrow> map_option fst (resolve_var_chain vars vid)
      | _ \<Rightarrow> Some ty)"

text \<open>\<open>iter().map(..).collect()\<close> over calls that may fail.\<close>

fun map_opt :: "('a \<Rightarrow> 'b option) \<Rightarrow> 'a list \<Rightarrow> 'b list option" where
  "map_opt f [] = Some []"
| "map_opt f (x # xs) = do { y \<leftarrow> f x; ys \<leftarrow> map_opt f xs; Some (y # ys) }"

fun resolve_deep :: "nat \<Rightarrow> UnificationTable \<Rightarrow> Ty \<Rightarrow> Ty option" where
  "resolve_deep 0 vars ty = None"
| "resolve_deep (Suc n) vars ty = do {
     ty \<leftarrow> resolve_ty vars ty;
     (case ty of
        TAdt def args \<Rightarrow> do { args \<leftarrow> map_opt (resolve_deep n vars) args; Some (TAdt def args) }
      | TRecord flds \<Rightarrow> do {
          flds \<leftarrow> map_opt (\<lambda>(nm, t). do { t \<leftarrow> resolve_deep n vars t; Some (nm, t) }) flds;
          Some (TRecord flds)
        }
      | TFn params ret \<Rightarrow> do {
          params \<leftarrow> map_opt (resolve_deep n vars) params;
          ret \<leftarrow> resolve_deep n vars ret;
          Some (TFn params ret)
        }
      | _ \<Rightarrow> Some ty)
   }"

section \<open>The occurs check\<close>

text \<open>\<open>iter().any(..)\<close> with a closure that updates the table.\<close>

fun any_st :: "('a \<Rightarrow> 's \<Rightarrow> (bool \<times> 's) option) \<Rightarrow> 'a list \<Rightarrow> 's \<Rightarrow> (bool \<times> 's) option" where
  "any_st f [] s = Some (False, s)"
| "any_st f (x # xs) s = do {
     (b, s) \<leftarrow> f x s;
     if b then Some (True, s) else any_st f xs s
   }"

fun occurs :: "nat \<Rightarrow> TyVarId \<Rightarrow> Ty \<Rightarrow> UnificationTable \<Rightarrow> (bool \<times> UnificationTable) option" where
  "occurs 0 v ty vars = None"
| "occurs (Suc n) v ty vars = do {
     (ty, vars) \<leftarrow> resolve_with_compression vars ty;
     (case ty of
        TVar vid \<Rightarrow> Some (vid = v, vars)
      | TAdt def args \<Rightarrow> any_st (occurs n v) args vars
      | TRecord flds \<Rightarrow> any_st (\<lambda>f. occurs n v (snd f)) flds vars
      | TFn params ret \<Rightarrow> do {
          (b, vars) \<leftarrow> any_st (occurs n v) params vars;
          if b then Some (True, vars) else occurs n v ret vars
        }
      | _ \<Rightarrow> Some (False, vars))
   }"

section \<open>Unification\<close>

text \<open>\<open>for (x, y) in zip(..) { if !f(x, y) { return false; } }\<close>\<close>

fun all_st :: "('a \<Rightarrow> 'b \<Rightarrow> 's \<Rightarrow> (bool \<times> 's) option) \<Rightarrow> 'a list \<Rightarrow> 'b list \<Rightarrow> 's \<Rightarrow> (bool \<times> 's) option" where
  "all_st f (x # xs) (y # ys) s = do {
     (b, s) \<leftarrow> f x y s;
     if b then all_st f xs ys s else Some (False, s)
   }"
| "all_st f _ _ s = Some (True, s)"

text \<open>The index of the first field of the name \<open>n1\<close> that is not used yet.\<close>

fun find_unused :: "Name \<Rightarrow> (Name \<times> Ty) list \<Rightarrow> bool list \<Rightarrow> nat \<Rightarrow> nat option" where
  "find_unused n1 ((n2, _) # fs) (u # us) idx =
     (if \<not> u \<and> n1 = n2 then Some idx else find_unused n1 fs us (Suc idx))"
| "find_unused n1 _ _ idx = None"

fun unify_fields ::
  "(Ty \<Rightarrow> Ty \<Rightarrow> UnificationTable \<Rightarrow> (bool \<times> UnificationTable) option) \<Rightarrow>
   (Name \<times> Ty) list \<Rightarrow> (Name \<times> Ty) list \<Rightarrow> bool list \<Rightarrow> UnificationTable \<Rightarrow>
   (bool \<times> UnificationTable) option" where
  "unify_fields f [] f2 used vars = Some (True, vars)"
| "unify_fields f ((n1, t1) # f1) f2 used vars =
     (case find_unused n1 f2 used 0 of
        None \<Rightarrow> Some (False, vars)
      | Some idx \<Rightarrow> do {
          (b, vars) \<leftarrow> f t1 (snd (f2 ! idx)) vars;
          if b then unify_fields f f1 f2 (used[idx := True]) vars else Some (False, vars)
        })"

definition bind_var :: "nat \<Rightarrow> TyVarId \<Rightarrow> Ty \<Rightarrow> UnificationTable \<Rightarrow> (bool \<times> UnificationTable) option" where
  "bind_var n v ty vars = do {
     (b, vars) \<leftarrow> occurs n v ty vars;
     if b then Some (False, vars)
     else if v < length vars then Some (True, vars[v := Some ty])
     else None
   }"

text \<open>The case analysis on the two resolved types; \<open>rc\<close> is the recursive call.\<close>

definition unify_heads ::
  "nat \<Rightarrow> (Ty \<Rightarrow> Ty \<Rightarrow> UnificationTable \<Rightarrow> (bool \<times> UnificationTable) option) \<Rightarrow>
   Ty \<Rightarrow> Ty \<Rightarrow> UnificationTable \<Rightarrow> (bool \<times> UnificationTable) option" where
  "unify_heads n rc a b vars =
     (if is_poison a \<or> is_poison b then Some (True, vars)
      else
        (case (a, b) of
           (TVar va, _) \<Rightarrow> if b = TVar va then Some (True, vars) else bind_var n va b vars
         | (_, TVar vb) \<Rightarrow> bind_var n vb a vars
         | (TInt, TInt) \<Rightarrow> Some (True, vars)
         | (TFloat, TFloat) \<Rightarrow> Some (True, vars)
         | (TString, TString) \<Rightarrow> Some (True, vars)
         | (TChar, TChar) \<Rightarrow> Some (True, vars)
         | (TBool, TBool) \<Rightarrow> Some (True, vars)
         | (TUnit, TUnit) \<Rightarrow> Some (True, vars)
         | (TAdt d1 a1, TAdt d2 a2) \<Rightarrow>
             if d1 = d2 \<and> length a1 = length a2 then all_st rc a1 a2 vars
             else Some (False, vars)
         | (TRecord f1, TRecord f2) \<Rightarrow>
             if length f1 \<noteq> length f2 then Some (False, vars)
             else unify_fields rc f1 f2 (replicate (length f2) False) vars
         | (TFn p1 r1, TFn p2 r2) \<Rightarrow>
             if length p1 = length p2 then do {
               (b, vars) \<leftarrow> all_st rc p1 p2 vars;
               if b then rc r1 r2 vars else Some (False, vars)
             }
             else Some (False, vars)
         | _ \<Rightarrow> Some (False, vars)))"

primrec unify :: "nat \<Rightarrow> Ty \<Rightarrow> Ty \<Rightarrow> UnificationTable \<Rightarrow> (bool \<times> UnificationTable) option" where
  "unify 0 a b vars = None"
| "unify (Suc n) a b vars = do {
     (a, vars) \<leftarrow> resolve_with_compression vars a;
     (b, vars) \<leftarrow> resolve_with_compression vars b;
     unify_heads n (unify n) a b vars
   }"

section \<open>Snapshots of reachable bindings\<close>

fun mark_path :: "TyVarId list \<Rightarrow> bool list \<Rightarrow> TyVarId list \<Rightarrow> (bool list \<times> TyVarId list) option" where
  "mark_path [] seen out = Some (seen, out)"
| "mark_path (vid # path) seen out =
     (if vid < length seen then
        if seen ! vid then mark_path path seen out
        else mark_path path (seen[vid := True]) (out @ [vid])
      else None)"

text \<open>A loop that threads the accumulators through fallible calls.\<close>

fun fold_opt :: "('a \<Rightarrow> 's \<Rightarrow> 's option) \<Rightarrow> 'a list \<Rightarrow> 's \<Rightarrow> 's option" where
  "fold_opt f [] s = Some s"
| "fold_opt f (x # xs) s = do { s \<leftarrow> f x s; fold_opt f xs s }"

fun collect_reachable_var_ids ::
  "nat \<Rightarrow> UnificationTable \<Rightarrow> Ty \<Rightarrow> bool list \<times> TyVarId list \<Rightarrow> (bool list \<times> TyVarId list) option" where
  "collect_reachable_var_ids 0 vars ty acc = None"
| "collect_reachable_var_ids (Suc n) vars ty acc =
     (case ty of
        TVar vid \<Rightarrow> do {
          (resolved, path) \<leftarrow> resolve_var_chain vars vid;
          (seen, out) \<leftarrow> mark_path path (fst acc) (snd acc);
          (case resolved of
             TVar final_id \<Rightarrow> mark_path [final_id] seen out
           | other \<Rightarrow> collect_reachable_var_ids n vars other (seen, out))
        }
      | TAdt _ args \<Rightarrow> fold_opt (collect_reachable_var_ids n vars) args acc
      | TRecord flds \<Rightarrow> fold_opt (\<lambda>f. collect_reachable_var_ids n vars (snd f)) flds acc
      | TFn params ret \<Rightarrow> do {
          acc \<leftarrow> fold_opt (collect_reachable_var_ids n vars) params acc;
          collect_reachable_var_ids n vars ret acc
        }
      | _ \<Rightarrow> Some acc)"

definition snapshot_reachable_bindings ::
  "nat \<Rightarrow> UnificationTable \<Rightarrow> Ty list \<Rightarrow> BindingSnapshot option" where
  "snapshot_reachable_bindings n vars tys = do {
     (seen, ids) \<leftarrow> fold_opt (collect_reachable_var_ids n vars) tys (replicate (length vars) False, []);
     Some \<lparr>entries = map (\<lambda>vid. (vid, vars ! vid)) ids\<rparr>
   }"

end
