(* ===== verification/Unify_Correct.thy ===== *)
theory Unify_Correct
  imports Unify "HOL-Library.Multiset"
begin

text \<open>
  Correctness of the unification table.

  The table is read as a set of equations: \<open>sols T\<close> are the assignments of types to variables that
  satisfy every binding.  Types are compared after instantiation and up to the order of record
  fields, which \<open>inst\<close> removes by sorting them.  \<open>wf_table T\<close> says that the bindings are in range and
  have no cycle.  On such tables path compression changes no solution, the occurs check decides
  occurrence in the deeply resolved type, and \<open>unify\<close> returns and keeps exactly the solutions that
  solve the equation.
\<close>

section \<open>Types as terms\<close>

fun kids :: "Ty \<Rightarrow> Ty list" where
  "kids (TAdt _ args) = args"
| "kids (TRecord fs) = map snd fs"
| "kids (TFn params ret) = params @ [ret]"
| "kids _ = []"

fun is_var :: "Ty \<Rightarrow> bool" where
  "is_var (TVar _) = True"
| "is_var _ = False"

lemma is_var_iff: "is_var t \<longleftrightarrow> (\<exists>v. t = TVar v)"
  by (cases t) auto

lemma kids_size: "s \<in> set (kids t) \<Longrightarrow> size s < size t"
proof (induction t rule: kids.induct)
  case (1 d args)
  then show ?case by (simp add: size_list_estimation' less_Suc_eq_le)
next
  case (2 fs)
  then obtain n where "(n, s) \<in> set fs" by auto
  then have "size_prod (\<lambda>_. 0) size (n, s) \<le> size_list (size_prod (\<lambda>_. 0) size) fs"
    by (rule size_list_estimation') simp
  then show ?case by simp
next
  case (3 ps r)
  then show ?case by (auto simp: size_list_estimation' less_Suc_eq_le trans_le_add1)
qed simp_all

lemma kids_induct [case_names kids]:
  "(\<And>t. (\<And>s. s \<in> set (kids t) \<Longrightarrow> P s) \<Longrightarrow> P t) \<Longrightarrow> P t"
  by (induction "size t" arbitrary: t rule: less_induct) (metis kids_size)

lemma tvars_kids: "\<not> is_var t \<Longrightarrow> tvars t = (\<Union>s\<in>set (kids t). tvars s)"
  by (cases t) auto

section \<open>Instantiation up to field order\<close>

definition named :: "Name \<Rightarrow> (Name \<times> 'a) list \<Rightarrow> 'a list" where
  "named n fs = map snd (filter (\<lambda>f. fst f = n) fs)"

lemma named_simps [simp]:
  "named n [] = []"
  "named n ((m, t) # fs) = (if m = n then t # named n fs else named n fs)"
  "named n (fs @ gs) = named n fs @ named n gs"
  by (simp_all add: named_def)

lemma named_map: "named n (map (\<lambda>f. (fst f, g (snd f))) fs) = map g (named n fs)"
  by (induction fs) auto

lemma named_sort [simp]: "named n (sort_key fst fs) = named n fs"
  by (simp add: named_def sort_key_stable)

lemma filter_named: "filter (\<lambda>f. fst f = n) fs = map (Pair n) (named n fs)"
  by (induction fs) auto

lemma sort_fields_eq_iff: "sort_key fst fs = sort_key fst gs \<longleftrightarrow> (\<forall>n. named n fs = named n gs)"
proof
  assume "\<forall>n. named n fs = named n gs"
  then have f: "filter (\<lambda>f. fst f = n) fs = filter (\<lambda>f. fst f = n) gs" for n
    by (simp add: filter_named)
  have "count (mset fs) x = count (mset gs) x" for x
  proof -
    have "count (mset xs) x = count (mset (filter (\<lambda>f. fst f = fst x) xs)) x" for xs
      by (simp add: count_filter_mset mset_filter)
    with f [of "fst x"] show ?thesis by metis
  qed
  then have "mset fs = mset gs" by (rule multiset_eqI)
  moreover have "filter (\<lambda>x. fst k = fst x) (sort_key fst gs) = filter (\<lambda>x. fst k = fst x) fs" for k
    using f [of "fst k"] sort_key_stable [of fst "fst k" gs] by (simp add: eq_commute)
  ultimately show "sort_key fst fs = sort_key fst gs"
    by (intro properties_for_sort_key) simp_all
qed (metis named_sort)

primrec inst :: "(nat \<Rightarrow> Ty) \<Rightarrow> Ty \<Rightarrow> Ty" where
  "inst s (TVar v) = s v"
| "inst s TInt = TInt"
| "inst s TFloat = TFloat"
| "inst s TString = TString"
| "inst s TChar = TChar"
| "inst s TBool = TBool"
| "inst s TUnit = TUnit"
| "inst s (TAdt d args) = TAdt d (map (inst s) args)"
| "inst s (TRecord fs) = TRecord (sort_key fst (map (map_prod id (inst s)) fs))"
| "inst s (TFn params ret) = TFn (map (inst s) params) (inst s ret)"
| "inst s TError = TError"
| "inst s TNever = TNever"

lemma inst_record [simp]:
  "named n (map (map_prod id (inst s)) fs) = map (inst s) (named n fs)"
  by (induction fs) auto

lemma inst_kids: "\<not> is_var t \<Longrightarrow> set (kids (inst s t)) = inst s ` set (kids t)"
  by (cases t) (force simp: image_iff)+

lemma inst_not_var: "\<not> is_var t \<Longrightarrow> \<not> is_var (inst s t)"
  by (cases t) auto

lemma inst_cong: "(\<And>v. v \<in> tvars t \<Longrightarrow> s v = s' v) \<Longrightarrow> inst s t = inst s' t"
proof (induction t)
  case (TAdt d args)
  then show ?case by (auto intro!: map_cong)
next
  case (TRecord fs)
  have "inst s (snd f) = inst s' (snd f)" if "f \<in> set fs" for f
    by (rule TRecord.IH [OF that]) (use that TRecord.prems in \<open>auto simp: snds.simps\<close>)
  then have "map (map_prod id (inst s)) fs = map (map_prod id (inst s')) fs"
    by (force simp: map_prod_def)
  then show ?case by (simp only: inst.simps)
next
  case (TFn ps r)
  then show ?case by (auto intro!: map_cong)
qed auto

lemma inst_inst: "inst s (inst s' t) = inst (\<lambda>v. inst s (s' v)) t"
proof (induction t)
  case (TRecord fs)
  have "map (inst s) (map (inst s') (named n fs)) = map (inst (\<lambda>v. inst s (s' v))) (named n fs)" for n
    using TRecord by (auto simp: named_def)
  then show ?case
    by (auto simp: sort_fields_eq_iff simp del: map_map)
qed auto

lemma tvars_inst: "tvars (inst s t) = (\<Union>v\<in>tvars t. tvars (s v))"
proof (induction t rule: kids_induct)
  case (kids t)
  show ?case
  proof (cases "is_var t")
    case False
    then have "tvars (inst s t) = (\<Union>k\<in>set (kids t). tvars (inst s k))"
      by (simp add: tvars_kids inst_not_var inst_kids)
    with kids False show ?thesis by (simp add: tvars_kids)
  qed (auto simp: is_var_iff)
qed

section \<open>Depth\<close>

primrec depth_le :: "nat \<Rightarrow> Ty \<Rightarrow> bool" where
  "depth_le 0 t = (kids t = [])"
| "depth_le (Suc n) t = (\<forall>s\<in>set (kids t). depth_le n s)"

lemma depth_le_mono: "depth_le n t \<Longrightarrow> n \<le> m \<Longrightarrow> depth_le m t"
proof (induction n arbitrary: t m)
  case 0
  then show ?case by (cases m) simp_all
next
  case (Suc n)
  then show ?case by (cases m) auto
qed

lemma depth_le_exists: "\<exists>n. depth_le n t"
proof (induction t rule: kids_induct)
  case (kids t)
  then obtain f where f: "\<forall>s\<in>set (kids t). depth_le (f s) s" by metis
  have "\<forall>s\<in>set (kids t). depth_le (Max (f ` set (kids t))) s"
  proof
    fix s assume s: "s \<in> set (kids t)"
    with f have "depth_le (f s) s" by blast
    then show "depth_le (Max (f ` set (kids t))) s"
      by (rule depth_le_mono) (use s in simp)
  qed
  then have "depth_le (Suc (Max (f ` set (kids t)))) t" by simp
  then show ?case ..
qed

lemma depth_le_inst_kids:
  "depth_le (Suc n) (inst s t) \<Longrightarrow> \<not> is_var t \<Longrightarrow> k \<in> set (kids t) \<Longrightarrow> depth_le n (inst s k)"
  by (simp add: inst_kids)

lemma depth_le_0_kids: "depth_le 0 (inst s t) \<Longrightarrow> \<not> is_var t \<Longrightarrow> kids t = []"
  using inst_kids [of t s] by auto

text \<open>No type is its own proper part: the reason for the occurs check.\<close>

lemma occurs_depth:
  "v \<in> tvars t \<Longrightarrow> depth_le n (inst s t) \<Longrightarrow> depth_le n (s v)
   \<and> (\<not> is_var t \<longrightarrow> (\<exists>m. n = Suc m \<and> depth_le m (s v)))"
proof (induction t arbitrary: n rule: kids_induct)
  case (kids t)
  show ?case
  proof (cases "is_var t")
    case True
    with kids.prems show ?thesis by (auto simp: is_var_iff)
  next
    case False
    with kids.prems(1) obtain k where k: "k \<in> set (kids t)" "v \<in> tvars k"
      by (auto simp: tvars_kids)
    then obtain m where n: "n = Suc m"
      using kids.prems(2) False depth_le_0_kids by (cases n) fastforce+
    with kids.prems(2) False k have "depth_le m (inst s k)" by (simp add: inst_kids)
    with kids.IH [OF k] have "depth_le m (s v)" by blast
    moreover from this have "depth_le n (s v)" by (rule depth_le_mono) (simp add: n)
    ultimately show ?thesis using n by blast
  qed
qed

lemma occurs_no_solution: "v \<in> tvars t \<Longrightarrow> \<not> is_var t \<Longrightarrow> s v \<noteq> inst s t"
proof
  assume v: "v \<in> tvars t" "\<not> is_var t" and eq: "s v = inst s t"
  let ?n = "LEAST n. depth_le n (s v)"
  have n: "depth_le ?n (s v)" using depth_le_exists by (rule LeastI_ex)
  with eq occurs_depth [OF v(1), of ?n s] v(2) obtain m where "?n = Suc m" "depth_le m (s v)" by auto
  moreover from this(2) have "?n \<le> m" by (rule Least_le)
  ultimately show False by simp
qed

section \<open>Tables as equations\<close>

definition sols :: "UnificationTable \<Rightarrow> (nat \<Rightarrow> Ty) set" where
  "sols T = {s. \<forall>v < length T. \<forall>t. T ! v = Some t \<longrightarrow> s v = inst s t}"

definition unbound :: "UnificationTable \<Rightarrow> nat set" where
  "unbound T = {v. v < length T \<and> T ! v = None}"

definition scoped :: "UnificationTable \<Rightarrow> Ty \<Rightarrow> bool" where
  "scoped T ty \<longleftrightarrow> tvars ty \<subseteq> {..<length T}"

definition ranked :: "(nat \<Rightarrow> nat) \<Rightarrow> UnificationTable \<Rightarrow> bool" where
  "ranked rk T \<longleftrightarrow> (\<forall>v < length T. \<forall>t. T ! v = Some t \<longrightarrow> scoped T t \<and> (\<forall>y\<in>tvars t. rk y < rk v))"

definition wf_table :: "UnificationTable \<Rightarrow> bool" where
  "wf_table T \<longleftrightarrow> (\<exists>rk. ranked rk T)"

definition canon :: "UnificationTable \<Rightarrow> (nat \<Rightarrow> Ty) \<Rightarrow> bool" where
  "canon T s \<longleftrightarrow> s \<in> sols T \<and> (\<forall>v\<in>unbound T. s v = TVar v)"

lemma finite_unbound [simp]: "finite (unbound T)"
  by (simp add: unbound_def)

lemma rankedD: "ranked rk T \<Longrightarrow> v < length T \<Longrightarrow> T ! v = Some t \<Longrightarrow> y \<in> tvars t \<Longrightarrow>
   y < length T \<and> rk y < rk v"
  by (auto simp: ranked_def scoped_def)

lemma solsD: "s \<in> sols T \<Longrightarrow> v < length T \<Longrightarrow> T ! v = Some t \<Longrightarrow> s v = inst s t"
  by (simp add: sols_def)

text \<open>Every well-formed table has a solution that moves bound variables only.\<close>

primrec expand :: "nat \<Rightarrow> UnificationTable \<Rightarrow> nat \<Rightarrow> Ty" where
  "expand 0 T v = TVar v"
| "expand (Suc n) T v =
     (if v < length T then (case T ! v of None \<Rightarrow> TVar v | Some t \<Rightarrow> inst (expand n T) t) else TVar v)"

lemma expand_stable:
  "ranked rk T \<Longrightarrow> rk v < n \<Longrightarrow> rk v < m \<Longrightarrow> expand n T v = expand m T v"
proof (induction "rk v" arbitrary: v n m rule: less_induct)
  case less
  from less.prems obtain n' m' where [simp]: "n = Suc n'" "m = Suc m'"
    by (metis less_imp_Suc_add)
  have "inst (expand n' T) t = inst (expand m' T) t" if "v < length T" "T ! v = Some t" for t
  proof (rule inst_cong)
    fix y assume "y \<in> tvars t"
    with that less.prems(1) have "rk y < rk v" by (auto dest: rankedD)
    with less.prems show "expand n' T y = expand m' T y" by (intro less.hyps) simp_all
  qed
  then show ?case by (simp split: option.splits)
qed

lemma canon_exists: "wf_table T \<Longrightarrow> \<exists>s. canon T s"
proof -
  assume "wf_table T"
  then obtain rk where r: "ranked rk T" by (auto simp: wf_table_def)
  let ?s = "\<lambda>v. expand (Suc (rk v)) T v"
  have "?s v = inst ?s t" if "v < length T" "T ! v = Some t" for v t
  proof -
    have "inst (expand (rk v) T) t = inst ?s t"
    proof (rule inst_cong)
      fix y assume "y \<in> tvars t"
      with that r have "rk y < rk v" by (auto dest: rankedD)
      then show "expand (rk v) T y = ?s y" by (intro expand_stable [OF r]) simp_all
    qed
    with that show ?thesis by simp
  qed
  then have "canon T ?s" unfolding canon_def sols_def unbound_def by simp
  then show ?thesis by (rule exI [of "canon T"])
qed

text \<open>Every solution is an instance of that one.\<close>

lemma sols_canon:
  assumes "ranked rk T" and "canon T c" and "s \<in> sols T" and "v < length T"
  shows "inst s (c v) = s v"
  using assms(4)
proof (induction "rk v" arbitrary: v rule: less_induct)
  case less
  show ?case
  proof (cases "T ! v")
    case None
    with assms(2) less.prems show ?thesis by (simp add: canon_def unbound_def)
  next
    case (Some t)
    have "c v = inst c t" using Some assms(2) less.prems by (auto simp: canon_def dest: solsD)
    then have "inst s (c v) = inst (\<lambda>y. inst s (c y)) t" by (simp add: inst_inst)
    also have "\<dots> = inst s t"
    proof (rule inst_cong)
      fix y assume "y \<in> tvars t"
      with assms(1) Some less.prems have "rk y < rk v" "y < length T" by (auto dest: rankedD)
      then show "inst s (c y) = s y" by (rule less.hyps)
    qed
    also have "\<dots> = s v" using solsD [OF assms(3) less.prems Some] by simp
    finally show ?thesis .
  qed
qed

lemma sols_canon_inst:
  assumes "wf_table T" and "canon T c" and "s \<in> sols T" and "scoped T t"
  shows "inst s (inst c t) = inst s t"
proof -
  obtain rk where "ranked rk T" using assms(1) by (auto simp: wf_table_def)
  then have "inst (\<lambda>v. inst s (c v)) t = inst s t"
    using assms by (intro inst_cong sols_canon) (auto simp: scoped_def)
  then show ?thesis by (simp add: inst_inst)
qed

section \<open>Equivalent tables\<close>

text \<open>
  \<open>teq T T'\<close>: the same equations in another form.  \<open>frame S T T'\<close>: when \<open>S\<close> is closed under the
  bindings of \<open>T\<close>, nothing outside of \<open>S\<close> differs in \<open>T'\<close> and \<open>S\<close> is closed under its bindings.
\<close>

definition teq :: "UnificationTable \<Rightarrow> UnificationTable \<Rightarrow> bool" where
  "teq T T' \<longleftrightarrow> length T' = length T \<and> wf_table T' \<and> unbound T' = unbound T \<and> sols T' = sols T
     \<and> (\<forall>t. Some t \<in> set T' \<longrightarrow> Some t \<in> set T \<or> is_var t)"

definition closed :: "nat set \<Rightarrow> UnificationTable \<Rightarrow> bool" where
  "closed S T \<longleftrightarrow> (\<forall>v < length T. v \<in> S \<longrightarrow> (\<forall>t. T ! v = Some t \<longrightarrow> tvars t \<subseteq> S))"

definition frame :: "nat set \<Rightarrow> UnificationTable \<Rightarrow> UnificationTable \<Rightarrow> bool" where
  "frame S T T' \<longleftrightarrow> length T' = length T \<and>
     (closed S T \<longrightarrow> closed S T' \<and> (\<forall>v < length T. v \<notin> S \<longrightarrow> T' ! v = T ! v))"

lemma teq_refl: "wf_table T \<Longrightarrow> teq T T"
  by (simp add: teq_def)

lemma teq_trans: "teq T T' \<Longrightarrow> teq T' T'' \<Longrightarrow> teq T T''"
  by (auto simp: teq_def)

lemma teq_canon: "teq T T' \<Longrightarrow> canon T' c \<longleftrightarrow> canon T c"
  by (simp add: teq_def canon_def)

lemma teq_scoped: "teq T T' \<Longrightarrow> scoped T' t \<longleftrightarrow> scoped T t"
  by (simp add: teq_def scoped_def)

lemma frame_refl [simp]: "frame S T T"
  by (simp add: frame_def)

lemma frame_trans: "frame S T T' \<Longrightarrow> frame S T' T'' \<Longrightarrow> frame S T T''"
  by (auto simp: frame_def)

section \<open>Following bindings\<close>

text \<open>\<open>links T v path r\<close>: \<open>path\<close> are the bound variables from \<open>v\<close> on, and they lead to \<open>r\<close>.\<close>

inductive links :: "UnificationTable \<Rightarrow> nat \<Rightarrow> nat list \<Rightarrow> Ty \<Rightarrow> bool" for T where
  stop: "v \<in> unbound T \<Longrightarrow> links T v [] (TVar v)"
| final: "v < length T \<Longrightarrow> T ! v = Some t \<Longrightarrow> \<not> is_var t \<Longrightarrow> links T v [v] t"
| step: "v < length T \<Longrightarrow> T ! v = Some (TVar y) \<Longrightarrow> links T y ps r \<Longrightarrow> links T v (v # ps) r"

lemma links_head: "links T y ps r \<Longrightarrow> y \<in> set ps \<or> r = TVar y"
  by (cases rule: links.cases) auto

lemma resolve_loop_links:
  assumes "ranked rk T" and "v < length T" and "seen \<subseteq> {..<length T}" and "\<forall>x\<in>seen. rk v < rk x"
    and "card seen + budget = length T + 1"
  shows "\<exists>r path'. resolve_loop budget T v path = Some (r, path @ path') \<and> links T v path' r"
  using assms(2-5)
proof (induction budget arbitrary: v seen path)
  case 0
  have "card seen \<le> length T" using 0(2) by (metis card_lessThan card_mono finite_lessThan)
  with 0(4) show ?case by simp
next
  case (Suc budget)
  show ?case
  proof (cases "\<exists>y. T ! v = Some (TVar y)")
    case True
    then obtain y where y: "T ! v = Some (TVar y)" by blast
    with assms(1) Suc.prems(1) have yy: "y < length T" "rk y < rk v" by (auto dest: rankedD)
    have nv: "v \<notin> seen" using Suc.prems(3) by auto
    have fin: "finite seen" using Suc.prems(2) finite_subset by blast
    have "\<exists>r path'. resolve_loop budget T y (path @ [v]) = Some (r, (path @ [v]) @ path') \<and> links T y path' r"
      by (rule Suc.IH [of y "insert v seen"]) (use Suc.prems nv fin yy in \<open>auto intro: less_trans\<close>)
    then obtain r path' where "resolve_loop budget T y (path @ [v]) = Some (r, (path @ [v]) @ path')"
      and "links T y path' r" by blast
    with y Suc.prems(1) have "resolve_loop (Suc budget) T v path = Some (r, path @ v # path')"
      "links T v (v # path') r"
      by (simp_all add: links.step)
    then show ?thesis by blast
  next
    case False
    show ?thesis
    proof (cases "T ! v")
      case None
      with Suc.prems(1) have "links T v [] (TVar v)" by (simp add: links.stop unbound_def)
      with None Suc.prems(1) show ?thesis by fastforce
    next
      case (Some t)
      with False have nv: "\<not> is_var t" by (auto simp: is_var_iff)
      have "resolve_loop (Suc budget) T v path = Some (t, path @ [v])"
        using Some nv Suc.prems(1) by (cases t) simp_all
      moreover have "links T v [v] t" using Some nv Suc.prems(1) by (simp add: links.final)
      ultimately show ?thesis by blast
    qed
  qed
qed

lemma resolve_var_chain_links:
  assumes "wf_table T" and "v < length T"
  shows "\<exists>r path. resolve_var_chain T v = Some (r, path) \<and> links T v path r"
proof -
  obtain rk where "ranked rk T" using assms(1) by (auto simp: wf_table_def)
  from resolve_loop_links [OF this assms(2), of "{}" "length T + 1" "[]"] show ?thesis
    by (simp add: resolve_var_chain_def)
qed

lemma links_sols: "links T v path r \<Longrightarrow> s \<in> sols T \<Longrightarrow> x \<in> insert v (set path) \<Longrightarrow> s x = inst s r"
proof (induction arbitrary: x rule: links.induct)
  case (final v t)
  then show ?case by (auto dest: solsD)
next
  case (step v y ps r)
  then have "s v = s y" by (auto dest: solsD)
  with step show ?case by auto
qed simp

lemma links_props:
  "links T v path r \<Longrightarrow> ranked rk T \<Longrightarrow>
   scoped T r \<and> (\<forall>w. r = TVar w \<longrightarrow> w \<in> unbound T)
   \<and> (\<forall>p\<in>set path. p < length T \<and> p \<notin> unbound T \<and> (\<forall>y\<in>tvars r. rk y < rk p))"
proof (induction rule: links.induct)
  case (stop v)
  then show ?case by (auto simp: scoped_def unbound_def)
next
  case (final v t)
  then show ?case by (auto simp: ranked_def unbound_def)
next
  case (step v y ps r)
  then have IH: "\<forall>p\<in>set ps. \<forall>z\<in>tvars r. rk z < rk p" by blast
  have "rk y < rk v" using rankedD [OF step.prems step.hyps(1,2)] by simp
  moreover have "\<forall>z\<in>tvars r. rk z \<le> rk y" using links_head [OF step.hyps(3)] IH by fastforce
  ultimately show ?case using step by (fastforce simp: unbound_def)
qed

lemma links_closed:
  "links T v path r \<Longrightarrow> closed S T \<Longrightarrow> v \<in> S \<Longrightarrow> set path \<subseteq> S \<and> tvars r \<subseteq> S"
proof (induction rule: links.induct)
  case (step v y ps r)
  then have "y \<in> S" by (auto simp: closed_def)
  with step show ?case by auto
qed (auto simp: closed_def)

section \<open>Path compression\<close>

lemma length_compress_path [simp]: "length (compress_path path r T) = length T"
  by (induction path r T rule: compress_path.induct) simp_all

lemma nth_compress_path:
  "\<forall>p\<in>set path. p < length T \<Longrightarrow>
   compress_path path r T ! x = (if x \<in> set path then Some r else T ! x)"
  by (induction path r T rule: compress_path.induct) (auto simp: nth_list_update)

text \<open>A compressed table still forces what the chain forced.\<close>

lemma links_step:
  "links T v path r \<Longrightarrow> p \<in> set path \<Longrightarrow>
   T ! p = Some r \<or> (\<exists>y. T ! p = Some (TVar y) \<and> (y \<in> set path \<or> r = TVar y))"
  by (induction rule: links.induct) (use links_head in auto)

lemma links_bound: "links T v path r \<Longrightarrow> Some r \<in> set T \<or> is_var r"
  by (induction rule: links.induct) (simp_all add: in_set_conv_nth, metis)

lemma compress_teq:
  assumes "wf_table T" and l: "links T v path r"
  shows "teq T (compress_path path r T)"
proof -
  let ?T = "compress_path path r T"
  obtain rk where rk: "ranked rk T" using assms(1) by (auto simp: wf_table_def)
  note props = links_props [OF l rk]
  have nth: "?T ! x = (if x \<in> set path then Some r else T ! x)" for x
    using props by (simp add: nth_compress_path)
  have "ranked rk ?T" using rk props by (auto simp: ranked_def scoped_def nth split: if_splits)
  moreover have "unbound ?T = unbound T" using props by (auto simp: unbound_def nth split: if_splits)
  moreover have "sols T \<subseteq> sols ?T"
    using links_sols [OF l] by (auto simp: sols_def nth split: if_splits)
  moreover have "s \<in> sols T" if s: "s \<in> sols ?T" for s
    unfolding sols_def
  proof (clarify)
    fix x t assume x: "x < length T" "T ! x = Some t"
    show "s x = inst s t"
    proof (cases "x \<in> set path")
      case True
      have p: "s z = inst s r" if "z \<in> set path" for z
        using that s props by (auto simp: sols_def nth)
      from links_step [OF l True] x(2) p True show ?thesis by auto
    next
      case False
      with s x show ?thesis by (auto simp: sols_def nth)
    qed
  qed
  moreover have "Some t \<in> set T \<or> is_var t" if "Some t \<in> set ?T" for t
    using that links_bound [OF l] by (auto simp: in_set_conv_nth nth split: if_splits)
  ultimately show ?thesis by (auto simp: teq_def wf_table_def)
qed

lemma compress_frame:
  assumes "wf_table T" and l: "links T v path r" and "v \<in> S"
  shows "frame S T (compress_path path r T)"
proof -
  obtain rk where rk: "ranked rk T" using assms(1) by (auto simp: wf_table_def)
  have nth: "compress_path path r T ! x = (if x \<in> set path then Some r else T ! x)" for x
    using links_props [OF l rk] by (simp add: nth_compress_path)
  show ?thesis
    using links_closed [OF l _ assms(3)] by (auto simp: frame_def closed_def nth split: if_splits)
qed

text \<open>The contract of \<open>resolve_with_compression\<close>, and of \<open>resolve_ty\<close>.\<close>

lemma resolve_with_compression_spec:
  assumes "wf_table T" and "scoped T ty"
  shows "\<exists>r T'. resolve_with_compression T ty = Some (r, T') \<and> teq T T' \<and> scoped T r
    \<and> (\<forall>w. r = TVar w \<longrightarrow> w \<in> unbound T) \<and> (\<forall>s\<in>sols T. inst s r = inst s ty)
    \<and> (\<forall>S. tvars ty \<subseteq> S \<longrightarrow> frame S T T' \<and> (closed S T \<longrightarrow> tvars r \<subseteq> S))
    \<and> (r = ty \<or> Some r \<in> set T \<or> is_var r)"
proof (cases ty)
  case (TVar v)
  with assms(2) have "v < length T" by (simp add: scoped_def)
  then obtain r path where c: "resolve_var_chain T v = Some (r, path)" and l: "links T v path r"
    using resolve_var_chain_links [OF assms(1)] by blast
  obtain rk where rk: "ranked rk T" using assms(1) by (auto simp: wf_table_def)
  have "\<forall>s\<in>sols T. inst s r = inst s ty" using links_sols [OF l, of _ v] TVar by simp
  moreover have "frame S T (compress_path path r T) \<and> (closed S T \<longrightarrow> tvars r \<subseteq> S)" if "tvars ty \<subseteq> S" for S
    using that TVar compress_frame [OF assms(1) l] links_closed [OF l] by auto
  ultimately show ?thesis
    using c compress_teq [OF assms(1) l] links_props [OF l rk] links_bound [OF l]
    by (simp add: resolve_with_compression_def TVar)
qed (use assms teq_refl in \<open>auto simp: resolve_with_compression_def\<close>)

section \<open>The occurs check\<close>

lemma any_st_map: "any_st f (map g xs) s = any_st (\<lambda>x. f (g x)) xs s"
  by (induction xs arbitrary: s) (auto intro!: Option.bind_cong)

lemma any_st_snoc:
  "any_st f (xs @ [x]) s = do { (b, s) \<leftarrow> any_st f xs s; if b then Some (True, s) else f x s }"
proof (induction xs arbitrary: s)
  case Nil
  then show ?case by (cases "f x s") auto
next
  case (Cons y ys)
  then show ?case by (cases "f y s") auto
qed

lemma any_st_spec:
  assumes "\<And>x s. x \<in> set xs \<Longrightarrow> I s \<Longrightarrow> \<exists>s'. f x s = Some (P x, s') \<and> I s'" and "I s"
  shows "\<exists>s'. any_st f xs s = Some (\<exists>x\<in>set xs. P x, s') \<and> I s'"
  using assms
proof (induction xs arbitrary: s)
  case (Cons x xs)
  then obtain s' where "f x s = Some (P x, s')" "I s'" by fastforce
  with Cons show ?case by auto
qed simp

lemma occurs_Suc:
  "occurs (Suc n) v ty T = do {
     (r, T) \<leftarrow> resolve_with_compression T ty;
     if is_var r then Some (r = TVar v, T) else any_st (occurs n v) (kids r) T
   }"
proof (cases "resolve_with_compression T ty")
  case (Some p)
  then show ?thesis by (cases p, cases "fst p") (auto simp: any_st_map any_st_snoc)
qed simp

declare occurs.simps(2) [simp del]

definition frame_on :: "nat set \<Rightarrow> UnificationTable \<Rightarrow> UnificationTable \<Rightarrow> bool" where
  "frame_on V T T' \<longleftrightarrow> (\<forall>S. V \<subseteq> S \<longrightarrow> closed S T \<longrightarrow> frame S T T')"

definition covers :: "UnificationTable \<Rightarrow> nat set \<Rightarrow> nat set \<Rightarrow> bool" where
  "covers T V W \<longleftrightarrow> (\<forall>S. V \<subseteq> S \<longrightarrow> closed S T \<longrightarrow> W \<subseteq> S)"

lemma frame_closed: "frame S T T' \<Longrightarrow> closed S T \<Longrightarrow> closed S T'"
  by (simp add: frame_def)

lemma frame_on_refl [simp]: "frame_on V T T"
  by (simp add: frame_on_def)

lemma frame_on_trans:
  "frame_on V T T1 \<Longrightarrow> covers T V W \<Longrightarrow> frame_on W T1 T' \<Longrightarrow> frame_on V T T'"
  unfolding frame_on_def covers_def by (meson frame_closed frame_trans)

lemma covers_sub: "W \<subseteq> V \<Longrightarrow> covers T V W"
  by (auto simp: covers_def)

text \<open>The resolved head of a type, with what is known of it.\<close>

lemma resolve_head:
  assumes "wf_table T" and "scoped T ty" and "canon T c"
  obtains r T' where "resolve_with_compression T ty = Some (r, T')" and "teq T T'" and "scoped T r"
    and "\<forall>s\<in>sols T. inst s r = inst s ty" and "frame_on (tvars ty) T T'" and "covers T (tvars ty) (tvars r)"
    and "is_var r \<Longrightarrow> \<exists>w\<in>unbound T. r = TVar w \<and> c w = TVar w"
    and "r = ty \<or> Some r \<in> set T \<or> is_var r"
proof -
  from resolve_with_compression_spec [OF assms(1,2)] obtain r T' where
    "resolve_with_compression T ty = Some (r, T')" "teq T T'" "scoped T r"
    "\<forall>s\<in>sols T. inst s r = inst s ty" "\<forall>w. r = TVar w \<longrightarrow> w \<in> unbound T"
    and b: "r = ty \<or> Some r \<in> set T \<or> is_var r"
    and S: "\<forall>S. tvars ty \<subseteq> S \<longrightarrow> frame S T T' \<and> (closed S T \<longrightarrow> tvars r \<subseteq> S)"
    by (elim exE conjE)
  moreover from S have "frame_on (tvars ty) T T'" "covers T (tvars ty) (tvars r)"
    by (simp_all add: frame_on_def covers_def)
  ultimately show thesis using assms(3) b
    by (intro that) (auto simp: is_var_iff canon_def)
qed

lemma occurs_kids:
  assumes IH: "\<And>k T2. k \<in> set (kids r) \<Longrightarrow> teq T T2 \<Longrightarrow>
      \<exists>T'. f k T2 = Some (v \<in> tvars (inst c k), T') \<and> teq T2 T' \<and> frame_on (tvars k) T2 T'"
    and "wf_table T" and "\<not> is_var r"
  shows "\<exists>T'. any_st f (kids r) T = Some (v \<in> tvars (inst c r), T') \<and> teq T T' \<and> frame_on (tvars r) T T'"
proof -
  have "\<exists>T'. any_st f (kids r) T = Some (\<exists>k\<in>set (kids r). v \<in> tvars (inst c k), T')
      \<and> (teq T T' \<and> frame_on (tvars r) T T')"
  proof (rule any_st_spec)
    fix k T2 assume k: "k \<in> set (kids r)" and I: "teq T T2 \<and> frame_on (tvars r) T T2"
    with IH obtain T' where "f k T2 = Some (v \<in> tvars (inst c k), T')" "teq T2 T'" "frame_on (tvars k) T2 T'"
      by blast
    moreover have "covers T (tvars r) (tvars k)" using k assms(3) by (intro covers_sub) (auto simp: tvars_kids)
    ultimately show "\<exists>T'. f k T2 = Some (v \<in> tvars (inst c k), T') \<and> (teq T T' \<and> frame_on (tvars r) T T')"
      using I teq_trans frame_on_trans by blast
  qed (use assms(2) in \<open>simp add: teq_refl\<close>)
  moreover have "v \<in> tvars (inst c r) \<longleftrightarrow> (\<exists>k\<in>set (kids r). v \<in> tvars (inst c k))"
    using assms(3) by (auto simp: tvars_inst tvars_kids)
  ultimately show ?thesis by simp
qed

lemma occurs_spec:
  assumes "wf_table T" and "scoped T ty" and "canon T c" and "v \<in> unbound T" and "depth_le n (inst c ty)"
  shows "\<exists>T'. occurs (Suc n) v ty T = Some (v \<in> tvars (inst c ty), T') \<and> teq T T' \<and> frame_on (tvars ty) T T'"
  using assms
proof (induction n arbitrary: ty T)
  case (0 ty T)
  obtain r T' where r: "resolve_with_compression T ty = Some (r, T')" "teq T T'"
    "\<forall>s\<in>sols T. inst s r = inst s ty" "frame_on (tvars ty) T T'"
    "is_var r \<Longrightarrow> \<exists>w\<in>unbound T. r = TVar w \<and> c w = TVar w"
    using resolve_head [OF "0.prems"(1-3)] by metis
  have i: "inst c r = inst c ty" using r(3) "0.prems"(3) by (simp add: canon_def)
  show ?case
  proof (cases "is_var r")
    case True
    with r i show ?thesis by (auto simp: occurs_Suc simp flip: i)
  next
    case False
    with "0.prems"(5) i have "kids r = []" by (metis depth_le_0_kids)
    with False have "v \<notin> tvars (inst c ty)" by (simp add: tvars_inst tvars_kids flip: i)
    with \<open>kids r = []\<close> r False show ?thesis by (simp add: occurs_Suc)
  qed
next
  case (Suc n ty T)
  obtain r T1 where r: "resolve_with_compression T ty = Some (r, T1)" "teq T T1" "scoped T r"
    "\<forall>s\<in>sols T. inst s r = inst s ty" "frame_on (tvars ty) T T1" "covers T (tvars ty) (tvars r)"
    "is_var r \<Longrightarrow> \<exists>w\<in>unbound T. r = TVar w \<and> c w = TVar w"
    using resolve_head [OF Suc.prems(1-3)] by metis
  have i: "inst c r = inst c ty" using r(4) Suc.prems(3) by (simp add: canon_def)
  show ?case
  proof (cases "is_var r")
    case True
    with r i show ?thesis by (auto simp: occurs_Suc simp flip: i)
  next
    case False
    have "\<exists>T'. any_st (occurs (Suc n) v) (kids r) T1 = Some (v \<in> tvars (inst c r), T')
        \<and> teq T1 T' \<and> frame_on (tvars r) T1 T'"
    proof (rule occurs_kids)
      fix k T2 assume k: "k \<in> set (kids r)" and "teq T1 T2"
      with r(2) have t: "teq T T2" using teq_trans by blast
      then have "scoped T2 k" "wf_table T2" "v \<in> unbound T2" "canon T2 c"
        using r(3) k False Suc.prems(3,4) by (auto simp: scoped_def tvars_kids teq_canon teq_def)
      moreover have "depth_le n (inst c k)" using Suc.prems(5) i k False by (metis depth_le_inst_kids)
      ultimately show "\<exists>T'. occurs (Suc n) v k T2 = Some (v \<in> tvars (inst c k), T')
          \<and> teq T2 T' \<and> frame_on (tvars k) T2 T'"
        by (intro Suc.IH)
    qed (use r(2) False in \<open>simp_all add: teq_def\<close>)
    then show ?thesis
      using r(1,2,5,6) False teq_trans frame_on_trans by (fastforce simp: occurs_Suc i)
  qed
qed

end
