(* ===== verification/Unify_Main.thy ===== *)
theory Unify_Main
  imports Unify_Correct
begin

text \<open>
  The theorem on \<open>unify\<close>: on a well-formed table it returns, whatever the fuel from some bound on,
  with the same answer and the same table.  The new table is well formed; it keeps every solution
  of the old one that solves the equation, and \<open>true\<close> means that all its solutions do, up to the
  poison types, which match anything.  A failed occurs check or a clash means that there is no
  solution.  Only variables reachable from the two types are written.
\<close>

section \<open>Agreement up to poison\<close>

inductive compat :: "Ty \<Rightarrow> Ty \<Rightarrow> bool" where
  refl: "compat t t"
| poison_left: "is_poison s \<Longrightarrow> compat s t"
| poison_right: "is_poison t \<Longrightarrow> compat s t"
| adt: "list_all2 compat as bs \<Longrightarrow> compat (TAdt d as) (TAdt d bs)"
| record_fields: "(\<And>n. list_all2 compat (named n fs) (named n gs)) \<Longrightarrow> compat (TRecord fs) (TRecord gs)"
| fn_type: "list_all2 compat ps qs \<Longrightarrow> compat r r' \<Longrightarrow> compat (TFn ps r) (TFn qs r')"

fun poison_free :: "Ty \<Rightarrow> bool" where
  "poison_free (TAdt _ args) = list_all poison_free args"
| "poison_free (TRecord fs) = list_all (\<lambda>f. poison_free (snd f)) fs"
| "poison_free (TFn params ret) = (list_all poison_free params \<and> poison_free ret)"
| "poison_free ty = (\<not> is_poison ty)"

definition clean :: "UnificationTable \<Rightarrow> bool" where
  "clean T \<longleftrightarrow> (\<forall>t. Some t \<in> set T \<longrightarrow> poison_free t)"

lemma poison_free_kids: "poison_free t \<Longrightarrow> k \<in> set (kids t) \<Longrightarrow> poison_free k"
  by (cases t) (auto simp: list_all_iff)

lemma poison_free_var: "is_var t \<Longrightarrow> poison_free t"
  by (auto simp: is_var_iff is_poison_def)

lemma poison_free_not_poison: "poison_free t \<Longrightarrow> \<not> is_poison t"
  by (cases t) (auto simp: is_poison_def)

lemma teq_clean: "teq T T' \<Longrightarrow> clean T \<Longrightarrow> clean T'"
  unfolding teq_def clean_def using poison_free_var by blast

section \<open>Evolution of a table\<close>

definition evolves :: "UnificationTable \<Rightarrow> UnificationTable \<Rightarrow> bool" where
  "evolves T T' \<longleftrightarrow> length T' = length T \<and> wf_table T' \<and> sols T' \<subseteq> sols T
     \<and> unbound T' \<subseteq> unbound T \<and> (unbound T' = unbound T \<longrightarrow> sols T' = sols T)"

lemma teq_evolves: "teq T T' \<Longrightarrow> evolves T T'"
  by (simp add: teq_def evolves_def)

lemma evolves_trans: "evolves T T' \<Longrightarrow> evolves T' T'' \<Longrightarrow> evolves T T''"
  unfolding evolves_def by (metis subset_antisym subset_trans)

lemma evolves_scoped: "evolves T T' \<Longrightarrow> scoped T' t = scoped T t"
  by (simp add: evolves_def scoped_def)

text \<open>Binding an unbound variable to a type it does not occur in.\<close>

lemma bind_evolves:
  assumes "wf_table T" and "canon T c" and "v \<in> unbound T" and "scoped T t" and "v \<notin> tvars (inst c t)"
  shows "evolves T (T[v := Some t])" and "sols (T[v := Some t]) = {s \<in> sols T. s v = inst s t}"
proof -
  let ?T = "T[v := Some t]"
  obtain rk where rk: "ranked rk T" using assms(1) by (auto simp: wf_table_def)
  have v: "v < length T" "T ! v = None" "c v = TVar v"
    using assms(2,3) by (auto simp: unbound_def canon_def)
  define K where "K = Suc (Max (rk ` {..<length T}))"
  have K: "rk y < K" if "y < length T" for y
    using that by (simp add: K_def less_Suc_eq_le)
  define rk' where "rk' x = (if v \<in> tvars (c x) then rk x + K else rk x)" for x
  have old: "rk' y < rk' x" if "x < length T" "T ! x = Some u" "y \<in> tvars u" for x y u
  proof -
    have "tvars (c y) \<subseteq> tvars (c x)"
      using that assms(2) solsD [of c T x u] by (auto simp: canon_def tvars_inst)
    with rankedD [OF rk that] show ?thesis by (auto simp: rk'_def)
  qed
  have new: "rk' y < rk' v" if "y \<in> tvars t" for y
  proof -
    have "v \<notin> tvars (c y)" using that assms(5) by (auto simp: tvars_inst)
    moreover have "rk y < K" using that assms(4) by (intro K) (auto simp: scoped_def)
    ultimately show ?thesis by (simp add: rk'_def v)
  qed
  have "ranked rk' ?T"
    unfolding ranked_def
  proof (intro allI impI)
    fix x u assume x: "x < length ?T" "?T ! x = Some u"
    show "scoped ?T u \<and> (\<forall>y\<in>tvars u. rk' y < rk' x)"
    proof (cases "x = v")
      case True
      with x v have "u = t" by simp
      with True new assms(4) show ?thesis by (simp add: scoped_def)
    next
      case False
      with x have "T ! x = Some u" "x < length T" by simp_all
      with old rk show ?thesis by (auto simp: ranked_def scoped_def)
    qed
  qed
  then have wf: "wf_table ?T" by (auto simp: wf_table_def)
  show s: "sols ?T = {s \<in> sols T. s v = inst s t}"
    using v by (auto simp: sols_def nth_list_update)
  have "unbound ?T = unbound T - {v}" using v by (auto simp: unbound_def nth_list_update split: if_splits)
  with wf s assms(3) show "evolves T ?T" by (auto simp: evolves_def)
qed

lemma bind_frame:
  assumes "v < length T"
  shows "frame_on (insert v (tvars t)) T (T[v := Some t])"
  using assms by (auto simp: frame_on_def frame_def closed_def nth_list_update split: if_splits)

section \<open>What unification achieves for a list of equations\<close>

definition pvars :: "(Ty \<times> Ty) list \<Rightarrow> nat set" where
  "pvars ps = (\<Union>(a, b)\<in>set ps. tvars a \<union> tvars b)"

definition solves :: "(nat \<Rightarrow> Ty) \<Rightarrow> (Ty \<times> Ty) list \<Rightarrow> bool" where
  "solves s ps \<longleftrightarrow> (\<forall>(a, b)\<in>set ps. inst s a = inst s b)"

definition agrees :: "(nat \<Rightarrow> Ty) \<Rightarrow> (Ty \<times> Ty) list \<Rightarrow> bool" where
  "agrees s ps \<longleftrightarrow> (\<forall>(a, b)\<in>set ps. compat (inst s a) (inst s b))"

definition clean_pairs :: "(Ty \<times> Ty) list \<Rightarrow> bool" where
  "clean_pairs ps \<longleftrightarrow> (\<forall>(a, b)\<in>set ps. poison_free a \<and> poison_free b)"

definition unified :: "(Ty \<times> Ty) list \<Rightarrow> UnificationTable \<Rightarrow> bool \<Rightarrow> UnificationTable \<Rightarrow> bool" where
  "unified ps T ok T' \<longleftrightarrow>
     evolves T T' \<and> frame_on (pvars ps) T T'
     \<and> (ok \<longrightarrow> (\<forall>s\<in>sols T'. agrees s ps))
     \<and> (\<forall>s\<in>sols T. solves s ps \<longrightarrow> ok \<and> s \<in> sols T')
     \<and> (clean T \<longrightarrow> clean_pairs ps \<longrightarrow> clean T' \<and> (ok \<longrightarrow> (\<forall>s\<in>sols T'. solves s ps)))"

lemmas pairs_defs = pvars_def solves_def agrees_def clean_pairs_def

lemma pairs_append [simp]:
  "pvars (ps @ qs) = pvars ps \<union> pvars qs" "solves s (ps @ qs) \<longleftrightarrow> solves s ps \<and> solves s qs"
  "agrees s (ps @ qs) \<longleftrightarrow> agrees s ps \<and> agrees s qs"
  "clean_pairs (ps @ qs) \<longleftrightarrow> clean_pairs ps \<and> clean_pairs qs"
  by (auto simp: pairs_defs)

lemma unified_Nil: "wf_table T \<Longrightarrow> unified [] T True T"
  by (simp add: unified_def evolves_def pairs_defs)

lemma frame_on_mono: "V \<subseteq> W \<Longrightarrow> frame_on V T T' \<Longrightarrow> frame_on W T T'"
  by (auto simp: frame_on_def)

lemma frame_on_seq: "frame_on V T T1 \<Longrightarrow> frame_on V T1 T2 \<Longrightarrow> frame_on V T T2"
  by (rule frame_on_trans) (simp_all add: covers_sub)

lemma unified_fail: "unified ps T False T' \<Longrightarrow> unified (ps @ qs) T False T'"
  using frame_on_mono [of "pvars ps" "pvars (ps @ qs)"] by (auto simp: unified_def)

lemma unified_append:
  assumes "unified ps T True T1" and "unified qs T1 ok T2"
  shows "unified (ps @ qs) T ok T2"
proof -
  have e: "evolves T T1" "evolves T1 T2" using assms by (auto simp: unified_def)
  then have s: "sols T2 \<subseteq> sols T1" by (simp add: evolves_def)
  have "frame_on (pvars (ps @ qs)) T T1"
    by (rule frame_on_mono [of "pvars ps"]) (use assms(1) in \<open>auto simp: unified_def\<close>)
  moreover have "frame_on (pvars (ps @ qs)) T1 T2"
    by (rule frame_on_mono [of "pvars qs"]) (use assms(2) in \<open>auto simp: unified_def\<close>)
  ultimately have "frame_on (pvars (ps @ qs)) T T2" by (rule frame_on_seq)
  with assms s evolves_trans [OF e] show ?thesis by (auto simp: unified_def)
qed

text \<open>Equations may be replaced by equivalent ones over the same variables, the table by an equal one.\<close>

lemma unified_transfer:
  assumes "unified ps T1 ok T'" and "teq T T1" and "frame_on V T T1" and "covers T V (pvars ps)"
    and "V \<subseteq> pvars qs" and "\<And>s. s \<in> sols T \<Longrightarrow> solves s qs \<longleftrightarrow> solves s ps"
    and "\<And>s. s \<in> sols T \<Longrightarrow> agrees s ps \<Longrightarrow> agrees s qs"
    and "clean T \<Longrightarrow> clean_pairs qs \<Longrightarrow> clean_pairs ps"
  shows "unified qs T ok T'"
proof -
  have e: "evolves T T1" "evolves T1 T'" using assms(1) teq_evolves [OF assms(2)] by (auto simp: unified_def)
  then have s: "sols T' \<subseteq> sols T" by (auto simp: evolves_def)
  have "frame_on V T T'" using assms(1,3,4) frame_on_trans by (auto simp: unified_def)
  then have "frame_on (pvars qs) T T'" by (rule frame_on_mono [OF assms(5)])
  moreover have "sols T1 = sols T" using assms(2) by (simp add: teq_def)
  moreover have "clean T \<Longrightarrow> clean T1" by (rule teq_clean [OF assms(2)])
  ultimately show ?thesis
    using assms(1,6-8) s evolves_trans [OF e] unfolding unified_def by (simp add: subset_iff)
qed

section \<open>Matching record fields\<close>

text \<open>The pairs of field types the loop compares, and whether every field finds a partner.\<close>

fun match_fields :: "(Name \<times> Ty) list \<Rightarrow> (Name \<times> Ty) list \<Rightarrow> bool list \<Rightarrow> (Ty \<times> Ty) list \<times> bool" where
  "match_fields [] f2 used = ([], True)"
| "match_fields ((n1, t1) # f1) f2 used =
     (case find_unused n1 f2 used 0 of
        None \<Rightarrow> ([], False)
      | Some idx \<Rightarrow>
          (let (ps, ok) = match_fields f1 f2 (used[idx := True]) in ((t1, snd (f2 ! idx)) # ps, ok)))"

abbreviation all_pairs where
  "all_pairs f ps s \<equiv> all_st f (map fst ps) (map snd ps) s"

lemma unify_fields_match:
  "unify_fields f f1 f2 used T =
     (let (ps, ok) = match_fields f1 f2 used
      in do { (b, T') \<leftarrow> all_pairs f ps T; Some (b \<and> ok, T') })"
proof (induction f1 f2 used arbitrary: T rule: match_fields.induct)
  case (2 n1 t1 f1 f2 used)
  show ?case
  proof (cases "find_unused n1 f2 used 0")
    case (Some idx)
    then show ?thesis
      by (cases "f t1 (snd (f2 ! idx)) T") (auto simp: "2.IH" Let_def split: prod.splits)
  qed simp
qed simp

definition unused :: "(Name \<times> Ty) list \<Rightarrow> bool list \<Rightarrow> (Name \<times> Ty) list" where
  "unused f2 used = map fst (filter (\<lambda>p. \<not> snd p) (zip f2 used))"

lemma unused_simps [simp]:
  "unused [] us = []" "unused fs [] = []"
  "unused (f # fs) (u # us) = (if u then unused fs us else f # unused fs us)"
  by (simp_all add: unused_def)

lemma find_unused_None:
  "length fs = length us \<Longrightarrow> find_unused n fs us k = None \<longleftrightarrow> named n (unused fs us) = []"
  by (induction n fs us k rule: find_unused.induct) auto

lemma find_unused_Some:
  "length fs = length us \<Longrightarrow> find_unused n fs us k = Some idx \<Longrightarrow>
   k \<le> idx \<and> idx - k < length fs \<and>
   (\<exists>xs ys. unused fs us = xs @ (n, snd (fs ! (idx - k))) # ys
      \<and> unused fs (us[idx - k := True]) = xs @ ys \<and> named n xs = [])"
proof (induction n fs us k rule: find_unused.induct)
  case (1 n n2 t fs u us k)
  show ?case
  proof (cases "\<not> u \<and> n = n2")
    case True
    with "1.prems" have k: "idx = k" by simp
    have "\<exists>xs ys. unused ((n2, t) # fs) (u # us) = xs @ (n, snd (((n2, t) # fs) ! (idx - k))) # ys
      \<and> unused ((n2, t) # fs) ((u # us)[idx - k := True]) = xs @ ys \<and> named n xs = []"
      by (rule exI [of _ "[]"], rule exI [of _ "unused fs us"]) (use True k in simp)
    with k show ?thesis by simp
  next
    case False
    with 1 have le: "Suc k \<le> idx" and lt: "idx - Suc k < length fs"
      and ex: "\<exists>xs ys. unused fs us = xs @ (n, snd (fs ! (idx - Suc k))) # ys
        \<and> unused fs (us[idx - Suc k := True]) = xs @ ys \<and> named n xs = []"
      by auto
    then obtain j where j: "idx - k = Suc j" "idx - Suc k = j" by (metis Suc_diff_Suc Suc_le_lessD)
    from ex obtain xs ys where xy: "unused fs us = xs @ (n, snd (fs ! j)) # ys"
      "unused fs (us[j := True]) = xs @ ys" "named n xs = []" unfolding j(2) by blast
    have "\<exists>xs ys. unused ((n2, t) # fs) (u # us) = xs @ (n, snd (((n2, t) # fs) ! (idx - k))) # ys
      \<and> unused ((n2, t) # fs) ((u # us)[idx - k := True]) = xs @ ys \<and> named n xs = []"
      by (rule exI [of _ "if u then xs else (n2, t) # xs"], rule exI [of _ ys])
        (use False j xy in auto)
    with j lt le show ?thesis by auto
  qed
qed auto

lemma match_fields_iff:
  assumes "length f2 = length used" and "length f1 = length (unused f2 used)"
    and "match_fields f1 f2 used = (ps, ok)"
  shows "ok \<and> (\<forall>(a, b)\<in>set ps. R a b) \<longleftrightarrow>
    (\<forall>n. list_all2 R (named n f1) (named n (unused f2 used)))"
  using assms
proof (induction f1 f2 used arbitrary: ps ok rule: match_fields.induct)
  case (2 n1 t1 f1 f2 used)
  show ?case
  proof (cases "find_unused n1 f2 used 0")
    case None
    with "2.prems" have "named n1 (unused f2 used) = []" by (simp add: find_unused_None)
    then have "\<not> list_all2 R (named n1 ((n1, t1) # f1)) (named n1 (unused f2 used))" by simp
    with None "2.prems" show ?thesis by auto
  next
    case (Some idx)
    obtain ps' ok' where m: "match_fields f1 f2 (used[idx := True]) = (ps', ok')" by fastforce
    from find_unused_Some [OF "2.prems"(1) Some] obtain xs ys where
      u: "unused f2 used = xs @ (n1, snd (f2 ! idx)) # ys"
      and u': "unused f2 (used[idx := True]) = xs @ ys" and x: "named n1 xs = []" by auto
    have "ok' \<and> (\<forall>(a, b)\<in>set ps'. R a b) \<longleftrightarrow> (\<forall>n. list_all2 R (named n f1) (named n (xs @ ys)))"
      using "2.IH" [OF Some _ _ m] "2.prems" u u' by simp
    moreover have "list_all2 R (named n ((n1, t1) # f1)) (named n (unused f2 used)) \<longleftrightarrow>
        (n = n1 \<longrightarrow> R t1 (snd (f2 ! idx))) \<and> list_all2 R (named n f1) (named n (xs @ ys))" for n
      unfolding u using x by (cases "n = n1") simp_all
    moreover have "ok = ok'" "ps = (t1, snd (f2 ! idx)) # ps'" using Some m "2.prems"(3) by simp_all
    ultimately show ?thesis by auto
  qed
qed auto

lemma match_fields_kids:
  "length f2 = length used \<Longrightarrow> match_fields f1 f2 used = (ps, ok) \<Longrightarrow> (a, b) \<in> set ps \<Longrightarrow>
   a \<in> snd ` set f1 \<and> b \<in> snd ` set f2"
proof (induction f1 f2 used arbitrary: ps ok rule: match_fields.induct)
  case (2 n1 t1 f1 f2 used)
  show ?case
  proof (cases "find_unused n1 f2 used 0")
    case (Some idx)
    obtain ps' ok' where m: "match_fields f1 f2 (used[idx := True]) = (ps', ok')" by fastforce
    have "idx < length f2" using find_unused_Some [OF "2.prems"(1) Some] by simp
    moreover have "(a, b) = (t1, snd (f2 ! idx)) \<or> (a, b) \<in> set ps'"
      using "2.prems"(2,3) Some m by auto
    moreover have "a \<in> snd ` set f1 \<and> b \<in> snd ` set f2" if "(a, b) \<in> set ps'"
      by (rule "2.IH" [OF Some _ m that]) (simp add: "2.prems"(1))
    ultimately show ?thesis by (auto simp: image_iff intro: nth_mem)
  qed (use "2.prems" in simp)
qed simp

section \<open>The recursive calls\<close>

text \<open>\<open>settles ps T\<close>: from some fuel on, the equations \<open>ps\<close> are processed with one and the same result.\<close>

definition settles :: "(Ty \<times> Ty) list \<Rightarrow> UnificationTable \<Rightarrow> bool" where
  "settles ps T \<longleftrightarrow>
     (\<exists>N ok T'. (\<forall>n\<ge>N. all_pairs (unify n) ps T = Some (ok, T')) \<and> unified ps T ok T')"

lemma all_st_single: "all_st f [a] [b] s = f a b s"
  by (cases "f a b s") auto

lemma settles_single:
  "settles [(a, b)] T \<longleftrightarrow>
     (\<exists>N ok T'. (\<forall>n\<ge>N. unify n a b T = Some (ok, T')) \<and> unified [(a, b)] T ok T')"
  unfolding settles_def by (simp only: list.map fst_conv snd_conv all_st_single)

lemma settles_list:
  assumes "wf_table T"
    and "\<And>a b T1. (a, b) \<in> set ps \<Longrightarrow> evolves T T1 \<Longrightarrow> settles [(a, b)] T1"
  shows "settles ps T"
  using assms
proof (induction ps arbitrary: T)
  case Nil
  then show ?case by (auto simp: settles_def intro: unified_Nil)
next
  case (Cons p ps)
  obtain a b where p: "p = (a, b)" by fastforce
  have "evolves T T" using Cons.prems(1) by (simp add: evolves_def)
  with Cons.prems(2) [of a b T] p obtain N ok T1 where
    u: "\<forall>n\<ge>N. unify n a b T = Some (ok, T1)" and r: "unified [(a, b)] T ok T1"
    by (auto simp: settles_single)
  show ?case
  proof (cases ok)
    case False
    with r have "unified (p # ps) T False T1" using unified_fail [of "[(a, b)]" T T1 ps] p by simp
    moreover have "\<forall>n\<ge>N. all_pairs (unify n) (p # ps) T = Some (False, T1)" using u p False by simp
    ultimately show ?thesis unfolding settles_def by blast
  next
    case True
    have e: "evolves T T1" using r by (simp add: unified_def)
    then have "settles ps T1"
      by (intro Cons.IH Cons.prems(2)) (auto simp: evolves_def intro: evolves_trans)
    then obtain M ok' T2 where v: "\<forall>n\<ge>M. all_pairs (unify n) ps T1 = Some (ok', T2)"
      and q: "unified ps T1 ok' T2" by (auto simp: settles_def)
    have "\<forall>n\<ge>max N M. all_pairs (unify n) (p # ps) T = Some (ok', T2)" using u v p True by simp
    moreover have "unified (p # ps) T ok' T2" using unified_append [of "[(a, b)]" T T1 ps] r q True p by simp
    ultimately show ?thesis unfolding settles_def by blast
  qed
qed

section \<open>Binding a variable\<close>

lemma any_st_mono:
  "(\<And>x s r. f x s = Some r \<Longrightarrow> g x s = Some r) \<Longrightarrow> any_st f xs s = Some r \<Longrightarrow> any_st g xs s = Some r"
proof (induction xs arbitrary: s)
  case (Cons x xs)
  from Cons.prems(2) obtain b s' where f: "f x s = Some (b, s')" by (auto simp: bind_eq_Some_conv)
  then have g: "g x s = Some (b, s')" by (rule Cons.prems(1))
  from Cons.prems(2) f have "if b then r = (True, s') else any_st f xs s' = Some r"
    by (simp split: if_splits)
  then show ?case using g Cons.IH [OF Cons.prems(1)] by (simp split: if_splits)
qed simp

lemma occurs_mono: "occurs n v t T = Some r \<Longrightarrow> n \<le> m \<Longrightarrow> occurs m v t T = Some r"
proof (induction n arbitrary: t T r m)
  case (Suc n)
  from Suc.prems(2) obtain m' where m: "m = Suc m'" "n \<le> m'" by (cases m) auto
  have k: "any_st (occurs n v) ks T' = Some r' \<Longrightarrow> any_st (occurs m' v) ks T' = Some r'" for ks T' r'
    by (erule any_st_mono [rotated]) (rule Suc.IH [OF _ m(2)])
  show ?case
  proof (cases "resolve_with_compression T t")
    case (Some p)
    with Suc.prems(1) k show ?thesis by (cases p) (auto simp: m(1) occurs_Suc split: if_splits)
  qed (use Suc.prems(1) in \<open>simp add: occurs_Suc\<close>)
qed simp

lemma inst_var_solution:
  "s \<in> sols T \<Longrightarrow> wf_table T \<Longrightarrow> canon T c \<Longrightarrow> scoped T t \<Longrightarrow> \<not> is_var t \<Longrightarrow> v \<in> tvars (inst c t) \<Longrightarrow>
   s v \<noteq> inst s t"
  using occurs_no_solution [of v "inst c t" s] sols_canon_inst [of T c s t] inst_not_var by metis

lemma bind_var_unified:
  assumes "wf_table T" and "canon T c" and "v \<in> unbound T" and "scoped T t" and "t \<noteq> TVar v"
    and "depth_le d (inst c t)" and "is_var t \<Longrightarrow> \<exists>w\<in>unbound T. t = TVar w \<and> c w = TVar w"
    and "\<not> is_poison t"
  shows "\<exists>ok T'. (\<forall>n\<ge>Suc d. bind_var n v t T = Some (ok, T')) \<and> unified [(TVar v, t)] T ok T'"
proof -
  obtain T1 where o1: "occurs (Suc d) v t T = Some (v \<in> tvars (inst c t), T1)"
    and t1: "teq T T1" and f1: "frame_on (tvars t) T T1"
    using occurs_spec [OF assms(1,4,2,3,6)] by blast
  have o: "occurs n v t T = Some (v \<in> tvars (inst c t), T1)" if "Suc d \<le> n" for n
    using occurs_mono [OF o1 that] .
  have v1: "v \<in> unbound T1" "v < length T1" "sols T1 = sols T" "wf_table T1" "canon T1 c" "scoped T1 t"
    using t1 assms(2-4) by (auto simp: teq_def unbound_def canon_def scoped_def)
  have pv: "pvars [(TVar v, t)] = insert v (tvars t)" by (auto simp: pvars_def)
  have f1': "frame_on (insert v (tvars t)) T T1" by (rule frame_on_mono [OF _ f1]) auto
  show ?thesis
  proof (cases "v \<in> tvars (inst c t)")
    case True
    with assms(5,7) have "\<not> is_var t" by fastforce
    then have "\<forall>s\<in>sols T. s v \<noteq> inst s t" using True inst_var_solution assms(1,2,4) by blast
    then have "unified [(TVar v, t)] T False T1"
      using f1' teq_evolves [OF t1] teq_clean [OF t1] by (auto simp: unified_def solves_def pv)
    moreover have "\<forall>n\<ge>Suc d. bind_var n v t T = Some (False, T1)" using o True by (simp add: bind_var_def)
    ultimately show ?thesis by blast
  next
    case False
    let ?T = "T1[v := Some t]"
    note b = bind_evolves [OF v1(4,5,1,6) False]
    have "evolves T ?T" using evolves_trans [OF teq_evolves [OF t1] b(1)] .
    moreover have "frame_on (insert v (tvars t)) T ?T"
      by (rule frame_on_seq [OF f1' bind_frame [OF v1(2)]])
    moreover have "sols ?T = {s \<in> sols T. s v = inst s t}" using b(2) v1(3) by simp
    moreover have "clean ?T" if "clean T" "poison_free t"
      using teq_clean [OF t1 that(1)] that(2) set_update_subset_insert [of T1 v "Some t"]
      unfolding clean_def by blast
    ultimately have "unified [(TVar v, t)] T True ?T"
      by (auto simp: unified_def solves_def agrees_def clean_pairs_def pv intro: compat.refl)
    moreover have "\<forall>n\<ge>Suc d. bind_var n v t T = Some (True, ?T)"
      using o False v1(2) by (simp add: bind_var_def)
    ultimately show ?thesis by blast
  qed
qed

section \<open>Resolved heads\<close>

lemma compat_sym: "compat s t \<Longrightarrow> compat t s"
proof (induction rule: compat.induct)
  case (adt as bs d)
  then have "list_all2 compat bs as" by (auto simp: list_all2_conv_all_nth)
  then show ?case by (rule compat.adt)
next
  case (record_fields fs gs)
  then have "list_all2 compat (named n gs) (named n fs)" for n by (auto simp: list_all2_conv_all_nth)
  then show ?case by (rule compat.record_fields)
next
  case (fn_type ps qs r r')
  then have "list_all2 compat qs ps" by (auto simp: list_all2_conv_all_nth)
  with fn_type show ?case by (intro compat.fn_type)
qed (auto intro: compat.intros)

lemma unified_swap: "unified [(a, b)] T ok T' \<Longrightarrow> unified [(b, a)] T ok T'"
  by (auto simp: unified_def pairs_defs Un_commute eq_commute [of "inst _ a"] intro: compat_sym)

lemma unified_same: "wf_table T \<Longrightarrow> unified [(a, a)] T True T"
  by (auto simp: unified_def pairs_defs evolves_def intro: compat.refl)

lemma unified_clash: "wf_table T \<Longrightarrow> (\<And>s. inst s a \<noteq> inst s b) \<Longrightarrow> unified [(a, b)] T False T"
  by (auto simp: unified_def pairs_defs evolves_def)

lemma unified_poison: "wf_table T \<Longrightarrow> is_poison a \<or> is_poison b \<Longrightarrow> unified [(a, b)] T True T"
  by (auto simp: unified_def pairs_defs evolves_def is_poison_def
      intro: compat.poison_left compat.poison_right)

text \<open>Decomposition: the equation of two terms and the equations of their parts.\<close>

lemma unified_decompose:
  assumes "unified ps T ok T'" and "\<not> is_var a" and "\<not> is_var b"
    and "\<And>x y. (x, y) \<in> set ps \<Longrightarrow> x \<in> set (kids a) \<and> y \<in> set (kids b)"
    and "\<And>s. solves s [(a, b)] \<longleftrightarrow> solves s ps" and "\<And>s. agrees s ps \<Longrightarrow> agrees s [(a, b)]"
  shows "unified [(a, b)] T ok T'"
proof -
  have "pvars ps \<subseteq> pvars [(a, b)]"
    using assms(2-4) by (fastforce simp: pvars_def tvars_kids)
  then have "frame_on (pvars [(a, b)]) T T'"
    using assms(1) by (auto simp: unified_def intro: frame_on_mono)
  moreover have "clean_pairs [(a, b)] \<Longrightarrow> clean_pairs ps"
    using assms(4) poison_free_kids by (fastforce simp: clean_pairs_def)
  ultimately show ?thesis using assms(1,5,6) by (auto simp: unified_def)
qed

lemma zip_solves:
  "length as = length bs \<Longrightarrow> solves s (zip as bs) \<longleftrightarrow> map (inst s) as = map (inst s) bs"
  "length as = length bs \<Longrightarrow>
     agrees s (zip as bs) \<longleftrightarrow> list_all2 compat (map (inst s) as) (map (inst s) bs)"
  by (induction as bs rule: list_induct2) (auto simp: solves_def agrees_def)

lemma record_solves:
  assumes "length f1 = length f2" and "match_fields f1 f2 (replicate (length f2) False) = (ps, ok)"
  shows "ok \<and> solves s ps \<longleftrightarrow> inst s (TRecord f1) = inst s (TRecord f2)"
    and "ok \<Longrightarrow> agrees s ps \<Longrightarrow> compat (inst s (TRecord f1)) (inst s (TRecord f2))"
proof -
  have u: "unused f2 (replicate (length f2) False) = f2" by (induction f2) simp_all
  note m = match_fields_iff [where used = "replicate (length f2) False", OF _ _ assms(2), unfolded u]
  have "ok \<and> solves s ps \<longleftrightarrow> (\<forall>n. map (inst s) (named n f1) = map (inst s) (named n f2))"
    using m [of "\<lambda>a b. inst s a = inst s b"] assms(1)
    by (simp add: solves_def list_all2_eq list_all2_map1 list_all2_map2)
  then show "ok \<and> solves s ps \<longleftrightarrow> inst s (TRecord f1) = inst s (TRecord f2)"
    by (simp add: sort_fields_eq_iff)
  show "compat (inst s (TRecord f1)) (inst s (TRecord f2))" if "ok" "agrees s ps"
    using m [of "\<lambda>a b. compat (inst s a) (inst s b)"] assms(1) that
    by (auto simp: agrees_def list_all2_map1 list_all2_map2 intro!: compat.record_fields)
qed

definition heads_settle :: "Ty \<Rightarrow> Ty \<Rightarrow> UnificationTable \<Rightarrow> bool" where
  "heads_settle a b T \<longleftrightarrow>
     (\<exists>N ok T'. (\<forall>n\<ge>N. unify_heads n (unify n) a b T = Some (ok, T')) \<and> unified [(a, b)] T ok T')"

lemma heads_settleI:
  "(\<And>n. N \<le> n \<Longrightarrow> unify_heads n (unify n) a b T = Some (ok, T')) \<Longrightarrow> unified [(a, b)] T ok T' \<Longrightarrow>
   heads_settle a b T"
  unfolding heads_settle_def by blast

lemma all_st_snoc:
  "length xs = length ys \<Longrightarrow> all_st f (xs @ [x]) (ys @ [y]) s =
     do { (b, s) \<leftarrow> all_st f xs ys s; if b then f x y s else Some (False, s) }"
proof (induction xs ys arbitrary: s rule: list_induct2)
  case Nil
  then show ?case by (cases "f x y s") auto
next
  case (Cons a xs b ys)
  then show ?case by (cases "f a b s") auto
qed

lemma heads_adt:
  assumes "settles (zip a1 a2) T" and "length a1 = length a2"
  shows "heads_settle (TAdt d a1) (TAdt d a2) T"
proof -
  from assms obtain N ok T' where n: "\<forall>n\<ge>N. all_st (unify n) a1 a2 T = Some (ok, T')"
    and u: "unified (zip a1 a2) T ok T'" by (auto simp: settles_def)
  show ?thesis
  proof (rule heads_settleI)
    show "unify_heads n (unify n) (TAdt d a1) (TAdt d a2) T = Some (ok, T')" if "N \<le> n" for n
      using n that assms(2) by (simp add: unify_heads_def is_poison_def)
    show "unified [(TAdt d a1, TAdt d a2)] T ok T'"
      by (rule unified_decompose [OF u])
        (use assms(2) in \<open>auto simp: zip_solves solves_def [of _ "[_]"] agrees_def [of _ "[_]"]
          dest: set_zip_leftD set_zip_rightD intro: compat.adt\<close>)
  qed
qed

lemma heads_fn:
  assumes "settles (zip (p1 @ [r1]) (p2 @ [r2])) T" and "length p1 = length p2"
  shows "heads_settle (TFn p1 r1) (TFn p2 r2) T"
proof -
  from assms obtain N ok T' where n: "\<forall>n\<ge>N. all_st (unify n) (p1 @ [r1]) (p2 @ [r2]) T = Some (ok, T')"
    and u: "unified (zip (p1 @ [r1]) (p2 @ [r2])) T ok T'" by (auto simp: settles_def)
  show ?thesis
  proof (rule heads_settleI)
    show "unify_heads n (unify n) (TFn p1 r1) (TFn p2 r2) T = Some (ok, T')" if "N \<le> n" for n
      using n that assms(2) by (simp add: unify_heads_def is_poison_def all_st_snoc)
    show "unified [(TFn p1 r1, TFn p2 r2)] T ok T'"
      by (rule unified_decompose [OF u])
        (use assms(2) zip_solves [of "p1 @ [r1]" "p2 @ [r2]"] in
          \<open>auto simp: solves_def [of _ "[_]"] agrees_def [of _ "[_]"] list_all2_append
            dest: set_zip_leftD set_zip_rightD intro: compat.fn_type\<close>)
  qed
qed

lemma heads_record:
  assumes "settles ps T" and "length f1 = length f2"
    and m: "match_fields f1 f2 (replicate (length f2) False) = (ps, fit)"
  shows "heads_settle (TRecord f1) (TRecord f2) T"
proof -
  from assms obtain N ok T' where n: "\<forall>n\<ge>N. all_pairs (unify n) ps T = Some (ok, T')"
    and u: "unified ps T ok T'" by (auto simp: settles_def)
  note r = record_solves [OF assms(2) m]
  have k: "x \<in> set (kids (TRecord f1)) \<and> y \<in> set (kids (TRecord f2))" if "(x, y) \<in> set ps" for x y
    using match_fields_kids [OF _ m that] by auto
  have h: "unify_heads n (unify n) (TRecord f1) (TRecord f2) T = Some (ok \<and> fit, T')" if "N \<le> n" for n
    using n that assms(2) m by (simp add: unify_heads_def is_poison_def unify_fields_match)
  show ?thesis
  proof (cases fit)
    case True
    have "unified [(TRecord f1, TRecord f2)] T ok T'"
      by (rule unified_decompose [OF u _ _ k])
        (use r True in \<open>auto simp: solves_def [of _ "[_]"] agrees_def [of _ "[_]"]\<close>)
    with h True show ?thesis by (intro heads_settleI) auto
  next
    case False
    then have ne: "inst s (TRecord f1) \<noteq> inst s (TRecord f2)" for s using r(1) [of s] by blast
    have "pvars ps \<subseteq> pvars [(TRecord f1, TRecord f2)]"
      using k by (fastforce simp: pvars_def)
    then have "frame_on (pvars [(TRecord f1, TRecord f2)]) T T'"
      using u by (auto simp: unified_def intro: frame_on_mono)
    moreover have "clean_pairs ps" if "poison_free (TRecord f1)" "poison_free (TRecord f2)"
      unfolding clean_pairs_def using poison_free_kids [OF that(1)] poison_free_kids [OF that(2)] k
      by blast
    ultimately have "unified [(TRecord f1, TRecord f2)] T False T'"
      using u ne unfolding unified_def
      by (simp add: solves_def [of _ "[_]"] clean_pairs_def [of "[_]"] del: poison_free.simps inst.simps)
    with h False show ?thesis by (intro heads_settleI) auto
  qed
qed

lemma heads_cases:
  assumes "\<not> is_var a" and "\<not> is_var b" and "\<not> is_poison a" and "\<not> is_poison b"
  obtains (adt) d a1 a2 where "a = TAdt d a1" "b = TAdt d a2" "length a1 = length a2"
    | (record_fields) f1 f2 where "a = TRecord f1" "b = TRecord f2" "length f1 = length f2"
    | (fn_type) p1 r1 p2 r2 where "a = TFn p1 r1" "b = TFn p2 r2" "length p1 = length p2"
    | (same) "a = b" "\<And>n rc T. unify_heads n rc a b T = Some (True, T)"
    | (clash) "\<And>s. inst s a \<noteq> inst s b" "\<And>n rc T. unify_heads n rc a b T = Some (False, T)"
proof -
  consider (A) d1 a1 d2 a2 where "a = TAdt d1 a1" "b = TAdt d2 a2"
    | (R) f1 f2 where "a = TRecord f1" "b = TRecord f2"
    | (F) p1 r1 p2 r2 where "a = TFn p1 r1" "b = TFn p2 r2"
    | (O) "a = b \<and> (\<forall>n rc T. unify_heads n rc a b T = Some (True, T))
           \<or> (\<forall>s. inst s a \<noteq> inst s b) \<and> (\<forall>n rc T. unify_heads n rc a b T = Some (False, T))"
    using assms by (cases a; cases b) (auto simp: unify_heads_def is_poison_def)
  then show thesis
  proof cases
    case A
    show thesis
    proof (cases "d1 = d2 \<and> length a1 = length a2")
      case True
      with A show thesis by (intro that(1) [of d1 a1 a2]) auto
    next
      case False
      then have "map (inst s) a1 \<noteq> map (inst s) a2 \<or> d1 \<noteq> d2" for s by (metis length_map)
      with A False show thesis by (intro that(5)) (auto simp: unify_heads_def is_poison_def)
    qed
  next
    case R
    show thesis
    proof (cases "length f1 = length f2")
      case True
      with R show thesis by (rule that(2))
    next
      case False
      then have "sort_key fst (map (map_prod id (inst s)) f1) \<noteq> sort_key fst (map (map_prod id (inst s)) f2)"
        for s by (metis length_map length_sort)
      with R False show thesis by (intro that(5)) (auto simp: unify_heads_def is_poison_def)
    qed
  next
    case F
    show thesis
    proof (cases "length p1 = length p2")
      case True
      with F show thesis by (rule that(3))
    next
      case False
      then have "map (inst s) p1 \<noteq> map (inst s) p2" for s by (metis length_map)
      with F False show thesis by (intro that(5)) (auto simp: unify_heads_def is_poison_def)
    qed
  next
    case O
    then show thesis
    proof (elim disjE conjE)
      assume "a = b" "\<forall>n rc T. unify_heads n rc a b T = Some (True, T)"
      then show thesis by (intro that(4)) simp_all
    next
      assume "\<forall>s. inst s a \<noteq> inst s b" "\<forall>n rc T. unify_heads n rc a b T = Some (False, T)"
      then show thesis by (intro that(5)) simp_all
    qed
  qed
qed

lemma heads_settle_ok:
  assumes wf: "wf_table T" and c: "canon T c" and "scoped T a" and "scoped T b"
    and va: "is_var a \<Longrightarrow> \<exists>w\<in>unbound T. a = TVar w \<and> c w = TVar w"
    and vb: "is_var b \<Longrightarrow> \<exists>w\<in>unbound T. b = TVar w \<and> c w = TVar w"
    and rc: "\<And>x y T1. x \<in> set (kids a) \<Longrightarrow> y \<in> set (kids b) \<Longrightarrow> evolves T T1 \<Longrightarrow> settles [(x, y)] T1"
  shows "heads_settle a b T"
proof -
  consider (poison) "is_poison a \<or> is_poison b" | (var_a) "\<not> is_poison b" "is_var a"
    | (var_b) "\<not> is_poison a" "\<not> is_var a" "is_var b"
    | (rigid) "\<not> is_poison a" "\<not> is_poison b" "\<not> is_var a" "\<not> is_var b"
    by (auto simp: is_var_iff)
  then show ?thesis
  proof cases
    case poison
    then show ?thesis
      by (intro heads_settleI [where ok = True and T' = T]) (simp_all add: unify_heads_def unified_poison wf)
  next
    case var_a
    then obtain w where w: "a = TVar w" "w \<in> unbound T" using va by blast
    obtain d where d: "depth_le d (inst c b)" using depth_le_exists by blast
    show ?thesis
    proof (cases "b = a")
      case True
      with w show ?thesis
        by (intro heads_settleI [where ok = True and T' = T])
          (auto simp: unify_heads_def is_poison_def unified_same wf)
    next
      case False
      then obtain ok T' where "\<forall>n\<ge>Suc d. bind_var n w b T = Some (ok, T')" "unified [(TVar w, b)] T ok T'"
        using bind_var_unified [OF wf c w(2) assms(4) _ d vb var_a(1)] w by auto
      with w False var_a show ?thesis
        by (intro heads_settleI [where N = "Suc d"]) (auto simp: unify_heads_def is_poison_def)
    qed
  next
    case var_b
    then obtain w where w: "b = TVar w" "w \<in> unbound T" using vb by blast
    obtain d where d: "depth_le d (inst c a)" using depth_le_exists by blast
    obtain ok T' where n: "\<forall>n\<ge>Suc d. bind_var n w a T = Some (ok, T')" "unified [(TVar w, a)] T ok T'"
      using bind_var_unified [OF wf c w(2) assms(3) _ d va var_b(1)] var_b(2) by (auto simp: is_var_iff)
    have "unify_heads n (unify n) a b T = bind_var n w a T" for n
      using var_b w by (cases a) (auto simp: unify_heads_def is_poison_def)
    with n w unified_swap show ?thesis by (intro heads_settleI [where N = "Suc d"]) auto
  next
    case rigid
    from rigid(3,4,1,2) show ?thesis
    proof (cases rule: heads_cases)
      case (adt d a1 a2)
      have "settles (zip a1 a2) T"
        by (rule settles_list [OF wf rc])
          (use adt in \<open>auto dest: set_zip_leftD set_zip_rightD\<close>)
      with adt show ?thesis by (simp add: heads_adt)
    next
      case (record_fields f1 f2)
      obtain ps fit where m: "match_fields f1 f2 (replicate (length f2) False) = (ps, fit)" by fastforce
      have "settles ps T"
        by (rule settles_list [OF wf rc]) (use record_fields match_fields_kids [OF _ m] in auto)
      with record_fields m show ?thesis by (simp add: heads_record)
    next
      case (fn_type p1 r1 p2 r2)
      have "settles (zip (p1 @ [r1]) (p2 @ [r2])) T"
        by (rule settles_list [OF wf rc])
          (use fn_type in \<open>auto dest: set_zip_leftD set_zip_rightD\<close>)
      with fn_type show ?thesis by (simp add: heads_fn)
    next
      case same
      then show ?thesis by (intro heads_settleI) (auto intro: unified_same wf)
    next
      case clash
      then show ?thesis by (intro heads_settleI) (auto intro: unified_clash wf)
    qed
  qed
qed

section \<open>Termination and correctness\<close>

lemma unify_resolve:
  assumes wf: "wf_table T" and "scoped T a" and "scoped T b" and c: "canon T c"
  shows "\<exists>ra rb T'. teq T T' \<and> scoped T ra \<and> scoped T rb \<and> inst c ra = inst c a
    \<and> (\<forall>n. unify (Suc n) a b T = unify_heads n (unify n) ra rb T')
    \<and> (is_var ra \<longrightarrow> (\<exists>w\<in>unbound T. ra = TVar w \<and> c w = TVar w))
    \<and> (is_var rb \<longrightarrow> (\<exists>w\<in>unbound T. rb = TVar w \<and> c w = TVar w))
    \<and> (\<forall>ok U. unified [(ra, rb)] T' ok U \<longrightarrow> unified [(a, b)] T ok U)"
proof -
  obtain ra T1 where ra: "resolve_with_compression T a = Some (ra, T1)" "teq T T1" "scoped T ra"
    "\<forall>s\<in>sols T. inst s ra = inst s a" "frame_on (tvars a) T T1" "covers T (tvars a) (tvars ra)"
    "is_var ra \<Longrightarrow> \<exists>w\<in>unbound T. ra = TVar w \<and> c w = TVar w" "ra = a \<or> Some ra \<in> set T \<or> is_var ra"
    by (rule resolve_head [OF assms(1,2,4)]) (rule that; blast)
  have t1: "wf_table T1" "scoped T1 b" "canon T1 c" "unbound T1 = unbound T" "sols T1 = sols T"
    using ra(2) assms(3,4) by (auto simp: teq_def scoped_def teq_canon)
  obtain rb T2 where rb: "resolve_with_compression T1 b = Some (rb, T2)" "teq T1 T2" "scoped T1 rb"
    "\<forall>s\<in>sols T1. inst s rb = inst s b" "frame_on (tvars b) T1 T2" "covers T1 (tvars b) (tvars rb)"
    "is_var rb \<Longrightarrow> \<exists>w\<in>unbound T1. rb = TVar w \<and> c w = TVar w" "rb = b \<or> Some rb \<in> set T1 \<or> is_var rb"
    by (rule resolve_head [OF t1(1-3)]) (rule that; blast)
  let ?V = "tvars a \<union> tvars b"
  have t2: "teq T T2" using ra(2) rb(2) by (rule teq_trans)
  have f: "frame_on ?V T T1" "frame_on ?V T1 T2"
    using frame_on_mono [OF _ ra(5), of ?V] frame_on_mono [OF _ rb(5), of ?V] by auto
  have cov: "covers T ?V (pvars [(ra, rb)])"
    unfolding covers_def
  proof (intro allI impI)
    fix S assume S: "?V \<subseteq> S" "closed S T"
    then have "closed S T1" using f(1) by (auto simp: frame_on_def intro: frame_closed)
    with S ra(6) rb(6) show "pvars [(ra, rb)] \<subseteq> S" by (simp add: covers_def pvars_def)
  qed
  have "unified [(a, b)] T ok U" if "unified [(ra, rb)] T2 ok U" for ok U
    using that t2 frame_on_seq [OF f] cov
  proof (rule unified_transfer)
    show "?V \<subseteq> pvars [(a, b)]" by (simp add: pvars_def)
    show "solves s [(a, b)] \<longleftrightarrow> solves s [(ra, rb)]" if "s \<in> sols T" for s
      using that ra(4) rb(4) t1(5) by (simp add: solves_def)
    show "agrees s [(a, b)]" if "s \<in> sols T" "agrees s [(ra, rb)]" for s
      using that ra(4) rb(4) t1(5) by (simp add: agrees_def)
    show "clean_pairs [(ra, rb)]" if "clean T" "clean_pairs [(a, b)]"
      using that ra(8) rb(8) teq_clean [OF ra(2)] poison_free_var by (auto simp: clean_pairs_def clean_def)
  qed
  moreover have "unify (Suc n) a b T = unify_heads n (unify n) ra rb T2" for n using ra(1) rb(1) by simp
  moreover have "inst c ra = inst c a" using ra(4) c by (simp add: canon_def)
  moreover have "scoped T rb" using rb(3) ra(2) by (simp add: teq_scoped)
  ultimately show ?thesis using t2 ra(3,7) rb(7) t1(4) by auto
qed

lemma unify_step:
  assumes wf: "wf_table T" and "scoped T a" and "scoped T b" and c: "canon T c"
    and rc: "\<And>ra x y T1. inst c ra = inst c a \<Longrightarrow> \<not> is_var ra \<Longrightarrow> x \<in> set (kids ra) \<Longrightarrow>
      scoped T x \<Longrightarrow> scoped T y \<Longrightarrow> evolves T T1 \<Longrightarrow> settles [(x, y)] T1"
  shows "settles [(a, b)] T"
proof -
  obtain ra rb T' where r: "teq T T'" "scoped T ra" "scoped T rb" "inst c ra = inst c a"
    "\<forall>n. unify (Suc n) a b T = unify_heads n (unify n) ra rb T'"
    "is_var ra \<longrightarrow> (\<exists>w\<in>unbound T. ra = TVar w \<and> c w = TVar w)"
    "is_var rb \<longrightarrow> (\<exists>w\<in>unbound T. rb = TVar w \<and> c w = TVar w)"
    "\<forall>ok U. unified [(ra, rb)] T' ok U \<longrightarrow> unified [(a, b)] T ok U"
    using unify_resolve [OF assms(1-4)] by (elim exE conjE)
  have "heads_settle ra rb T'"
  proof (rule heads_settle_ok)
    fix x y T1 assume x: "x \<in> set (kids ra)" and y: "y \<in> set (kids rb)" and e: "evolves T' T1"
    have "\<not> is_var ra" "\<not> is_var rb" using x y by (auto simp: is_var_iff)
    moreover from this x y r(2,3) have "scoped T x" "scoped T y" by (auto simp: scoped_def tvars_kids)
    moreover have "evolves T T1" using evolves_trans [OF teq_evolves [OF r(1)] e] .
    ultimately show "settles [(x, y)] T1" using rc r(4) x by blast
  qed (use r assms in \<open>auto simp: teq_canon teq_scoped teq_def\<close>)
  then obtain N ok U where "\<forall>n\<ge>N. unify_heads n (unify n) ra rb T' = Some (ok, U)"
    and "unified [(ra, rb)] T' ok U" by (auto simp: heads_settle_def)
  moreover have "unify n a b T = Some (ok, U)" if "Suc N \<le> n" for n
    using that calculation(1) r(5) by (cases n) auto
  ultimately show ?thesis using r(8) unfolding settles_single by blast
qed

lemma unify_settles:
  assumes "wf_table T" and "scoped T a" and "scoped T b"
  shows "settles [(a, b)] T"
  using assms
proof (induction "card (unbound T)" arbitrary: T a b rule: less_induct)
  case (less T a b)
  obtain c where c: "canon T c" using canon_exists [OF less.prems(1)] by blast
  have smaller: "settles [(x, y)] T1"
    if "evolves T T1" "unbound T1 \<noteq> unbound T" "scoped T x" "scoped T y" for T1 x y
  proof (rule less.hyps)
    show "card (unbound T1) < card (unbound T)"
      using that(1,2) by (intro psubset_card_mono) (auto simp: evolves_def)
  qed (use that evolves_scoped in \<open>auto simp: evolves_def\<close>)
  have "settles [(x, y)] T1" if "evolves T T1" "scoped T x" "scoped T y" "depth_le d (inst c x)" for d T1 x y
    using that
  proof (induction d arbitrary: T1 x y)
    case (0 T1 x y)
    show ?case
    proof (cases "unbound T1 = unbound T")
      case True
      have t1: "wf_table T1" "canon T1 c" using "0.prems"(1) True c by (auto simp: evolves_def canon_def)
      show ?thesis
      proof (rule unify_step [OF t1(1) _ _ t1(2)])
        fix ra k assume "inst c ra = inst c x" "\<not> is_var ra" "k \<in> set (kids ra)"
        with "0.prems"(4) have False by (metis depth_le_0_kids empty_iff empty_set)
        then show "settles [(k, l)] T2" for l T2 ..
      qed (use "0.prems" evolves_scoped in auto)
    qed (use "0.prems" smaller in blast)
  next
    case (Suc d T1 x y)
    show ?case
    proof (cases "unbound T1 = unbound T")
      case True
      have t1: "wf_table T1" "canon T1 c" using Suc.prems(1) True c by (auto simp: evolves_def canon_def)
      show ?thesis
      proof (rule unify_step [OF t1(1) _ _ t1(2)])
        fix ra k l T2 assume k: "inst c ra = inst c x" "\<not> is_var ra" "k \<in> set (kids ra)"
          and e: "evolves T1 T2" and sc: "scoped T1 k" "scoped T1 l"
        have "depth_le d (inst c k)" using k Suc.prems(4) by (metis depth_le_inst_kids)
        with sc show "settles [(k, l)] T2"
          using evolves_scoped [OF Suc.prems(1)] evolves_trans [OF Suc.prems(1) e]
          by (intro Suc.IH) simp_all
      qed (use Suc.prems evolves_scoped in auto)
    qed (use Suc.prems smaller in blast)
  qed
  moreover obtain d where "depth_le d (inst c a)" using depth_le_exists by blast
  moreover have "evolves T T" using less.prems(1) by (simp add: evolves_def)
  ultimately show ?case using less.prems by blast
qed

end
