(* ===== verification/Unify_Snapshot.thy ===== *)
theory Unify_Snapshot
  imports Unify_Main
begin

text \<open>
  Fresh variables, deep resolution, and snapshots: the variables a snapshot records are closed
  under the bindings, so restoring it undoes whatever unification did.
\<close>

section \<open>Fresh variables\<close>

lemma wf_table_new: "wf_table table_new"
  by (simp add: wf_table_def ranked_def table_new_def)

lemma fresh_var_wf:
  assumes "wf_table T" shows "wf_table (snd (fresh_var T))"
proof -
  obtain rk where "ranked rk T" using assms by (auto simp: wf_table_def)
  then have "ranked rk (T @ [None])"
    by (fastforce simp: ranked_def scoped_def nth_append less_Suc_eq split: if_splits)
  then show ?thesis by (auto simp: wf_table_def fresh_var_def)
qed

lemma fresh_var_sols: "sols (snd (fresh_var T)) = sols T"
  by (auto simp: sols_def fresh_var_def nth_append less_Suc_eq)

section \<open>Deep resolution\<close>

lemma map_opt_spec:
  assumes "\<And>x. x \<in> set xs \<Longrightarrow> \<exists>y. f x = Some y \<and> P x y"
  shows "\<exists>ys. map_opt f xs = Some ys \<and> list_all2 P xs ys"
  using assms
proof (induction xs)
  case (Cons x xs)
  then obtain y ys where "f x = Some y" "P x y" "map_opt f xs = Some ys" "list_all2 P xs ys" by fastforce
  then show ?case by auto
qed simp

lemma resolve_ty_spec:
  assumes "wf_table T" and "scoped T ty"
  shows "\<exists>r. resolve_ty T ty = Some r \<and> scoped T r \<and> (\<forall>w. r = TVar w \<longrightarrow> w \<in> unbound T)
    \<and> (\<forall>s\<in>sols T. inst s r = inst s ty)"
proof (cases ty)
  case (TVar v)
  with assms(2) have "v < length T" by (simp add: scoped_def)
  then obtain r path where c: "resolve_var_chain T v = Some (r, path)" and l: "links T v path r"
    using resolve_var_chain_links [OF assms(1)] by blast
  obtain rk where "ranked rk T" using assms(1) by (auto simp: wf_table_def)
  with c links_props [OF l] links_sols [OF l, of _ v] show ?thesis
    by (auto simp: resolve_ty_def TVar)
qed (use assms in \<open>auto simp: resolve_ty_def\<close>)

definition resolves :: "UnificationTable \<Rightarrow> Ty \<Rightarrow> Ty \<Rightarrow> bool" where
  "resolves T t t' \<longleftrightarrow> tvars t' \<subseteq> unbound T \<and> (\<forall>s\<in>sols T. inst s t' = inst s t)"

lemma resolves_list:
  "list_all2 (resolves T) xs ys \<Longrightarrow>
   (\<Union>t\<in>set ys. tvars t) \<subseteq> unbound T \<and> (\<forall>s\<in>sols T. map (inst s) ys = map (inst s) xs)"
  by (induction rule: list_all2_induct) (auto simp: resolves_def)

lemma resolves_fields:
  "list_all2 (\<lambda>f g. fst g = fst f \<and> resolves T (snd f) (snd g)) fs gs \<Longrightarrow>
   (\<Union>f\<in>set gs. tvars (snd f)) \<subseteq> unbound T
   \<and> (\<forall>s\<in>sols T. map (map_prod id (inst s)) gs = map (map_prod id (inst s)) fs)"
  by (induction rule: list_all2_induct) (auto simp: resolves_def)

lemma resolve_deep_spec:
  assumes "wf_table T" and "canon T c" and "scoped T ty" and "depth_le n (inst c ty)"
  shows "\<exists>t. resolve_deep (Suc n) T ty = Some t \<and> resolves T ty t"
  using assms(3,4)
proof (induction n arbitrary: ty)
  case (0 ty)
  obtain r where r: "resolve_ty T ty = Some r" "\<forall>w. r = TVar w \<longrightarrow> w \<in> unbound T"
    "\<forall>s\<in>sols T. inst s r = inst s ty"
    using resolve_ty_spec [OF assms(1) "0.prems"(1)] by blast
  have "inst c r = inst c ty" using r(3) assms(2) by (simp add: canon_def)
  with "0.prems"(2) have "\<not> is_var r \<longrightarrow> kids r = []" by (metis depth_le_0_kids)
  then have "resolve_deep (Suc 0) T ty = Some r" using r(1) by (cases r) auto
  moreover have "tvars r \<subseteq> unbound T"
    using r(2) \<open>\<not> is_var r \<longrightarrow> kids r = []\<close> by (cases "is_var r") (auto simp: is_var_iff tvars_kids)
  ultimately show ?case using r(3) by (simp add: resolves_def)
next
  case (Suc n ty)
  obtain r where r: "resolve_ty T ty = Some r" "scoped T r" "\<forall>w. r = TVar w \<longrightarrow> w \<in> unbound T"
    "\<forall>s\<in>sols T. inst s r = inst s ty"
    using resolve_ty_spec [OF assms(1) Suc.prems(1)] by blast
  have i: "inst c r = inst c ty" using r(4) assms(2) by (simp add: canon_def)
  have kid: "\<exists>t. resolve_deep (Suc n) T k = Some t \<and> resolves T k t" if "k \<in> set (kids r)" "\<not> is_var r" for k
  proof (rule Suc.IH)
    show "scoped T k" using that r(2) by (auto simp: scoped_def tvars_kids)
    show "depth_le n (inst c k)" using that i Suc.prems(2) by (metis depth_le_inst_kids)
  qed
  have res: "resolves T ty t \<longleftrightarrow> resolves T r t" for t using r(4) by (simp add: resolves_def)
  show ?case
  proof (cases r)
    case (TAdt d args)
    from map_opt_spec [of args "resolve_deep (Suc n) T" "resolves T"] kid TAdt
    obtain ts where m: "map_opt (resolve_deep (Suc n) T) args = Some ts" "list_all2 (resolves T) args ts" by auto
    have "resolves T r (TAdt d ts)" using resolves_list [OF m(2)] TAdt by (simp add: resolves_def)
    then show ?thesis using r(1) m(1) TAdt by (simp add: res del: resolve_deep.simps add: resolve_deep.simps(2) [of "Suc n"])
  next
    case (TFn ps q)
    from map_opt_spec [of ps "resolve_deep (Suc n) T" "resolves T"] kid TFn
    obtain ts where m: "map_opt (resolve_deep (Suc n) T) ps = Some ts" "list_all2 (resolves T) ps ts" by auto
    obtain u where u: "resolve_deep (Suc n) T q = Some u" "resolves T q u" using kid TFn by auto
    have "resolves T r (TFn ts u)" using resolves_list [OF m(2)] u(2) TFn by (auto simp: resolves_def)
    then show ?thesis using r(1) m(1) u(1) TFn
      by (simp add: res del: resolve_deep.simps add: resolve_deep.simps(2) [of "Suc n"])
  next
    case (TRecord fs)
    let ?f = "\<lambda>(nm, t). do { t \<leftarrow> resolve_deep (Suc n) T t; Some (nm, t) }"
    have "\<exists>y. ?f x = Some y \<and> (fst y = fst x \<and> resolves T (snd x) (snd y))" if "x \<in> set fs" for x
    proof -
      obtain nm u where x: "x = (nm, u)" by fastforce
      with that TRecord have "u \<in> set (kids r)" "\<not> is_var r" by force+
      with kid obtain t where "resolve_deep (Suc n) T u = Some t" "resolves T u t" by blast
      with x show ?thesis by (simp del: resolve_deep.simps)
    qed
    from map_opt_spec [of fs ?f, OF this] obtain gs where m: "map_opt ?f fs = Some gs"
      "list_all2 (\<lambda>f g. fst g = fst f \<and> resolves T (snd f) (snd g)) fs gs" by blast
    have "resolves T r (TRecord gs)" using resolves_fields [OF m(2)] TRecord by (simp add: resolves_def)
    then show ?thesis using r(1) m(1) TRecord
      by (simp add: res del: resolve_deep.simps add: resolve_deep.simps(2) [of "Suc n"])
  qed (use r in \<open>auto simp: resolves_def\<close>)
qed

section \<open>Snapshots\<close>

definition in_sync :: "UnificationTable \<Rightarrow> bool list \<times> nat list \<Rightarrow> bool" where
  "in_sync T acc \<longleftrightarrow> length (fst acc) = length T \<and> set (snd acc) = {i. i < length T \<and> fst acc ! i}"

lemma mark_path_spec:
  assumes "in_sync T (seen, out)" and "\<forall>p\<in>set path. p < length T"
  shows "\<exists>acc. mark_path path seen out = Some acc \<and> in_sync T acc \<and> set (snd acc) = set out \<union> set path"
  using assms
proof (induction path seen out rule: mark_path.induct)
  case (2 v path seen out)
  then have v: "v < length seen" by (auto simp: in_sync_def)
  show ?case
  proof (cases "seen ! v")
    case True
    then have "v \<in> set out" using 2 v by (auto simp: in_sync_def)
    moreover have "\<exists>acc. mark_path path seen out = Some acc \<and> in_sync T acc
        \<and> set (snd acc) = set out \<union> set path"
      using "2.IH"(1) [OF v True "2.prems"(1)] "2.prems"(2) by simp
    ultimately show ?thesis using v True by auto
  next
    case False
    have "in_sync T (seen[v := True], out @ [v])"
      using "2.prems"(1) v by (auto simp: in_sync_def nth_list_update)
    then have "\<exists>acc. mark_path path (seen[v := True]) (out @ [v]) = Some acc \<and> in_sync T acc
        \<and> set (snd acc) = set (out @ [v]) \<union> set path"
      using "2.IH"(2) [OF v False] "2.prems"(2) by simp
    then show ?thesis using v False by auto
  qed
qed auto

text \<open>
  What collecting from one or several types achieves.  While a chain is being marked, the set is
  closed only up to the variables \<open>X\<close> still to come.
\<close>

definition closed_upto :: "nat set \<Rightarrow> nat set \<Rightarrow> UnificationTable \<Rightarrow> bool" where
  "closed_upto X S T \<longleftrightarrow> (\<forall>v < length T. v \<in> S \<longrightarrow> (\<forall>t. T ! v = Some t \<longrightarrow> tvars t \<subseteq> S \<union> X))"

definition collected :: "UnificationTable \<Rightarrow> nat set \<Rightarrow> bool list \<times> nat list \<Rightarrow> bool list \<times> nat list \<Rightarrow> bool" where
  "collected T V acc acc' \<longleftrightarrow> in_sync T acc' \<and> set (snd acc) \<union> V \<subseteq> set (snd acc')
     \<and> (\<forall>X. closed_upto X (set (snd acc)) T \<longrightarrow> closed_upto X (set (snd acc')) T)"

lemma collected_refl: "in_sync T acc \<Longrightarrow> collected T {} acc acc"
  by (simp add: collected_def)

lemma collected_trans:
  "collected T V acc acc1 \<Longrightarrow> collected T W acc1 acc2 \<Longrightarrow> collected T (V \<union> W) acc acc2"
  by (auto simp: collected_def)

lemma fold_opt_collected:
  assumes "\<And>x acc. x \<in> set xs \<Longrightarrow> in_sync T acc \<Longrightarrow> \<exists>acc'. f x acc = Some acc' \<and> collected T (V x) acc acc'"
    and "in_sync T acc"
  shows "\<exists>acc'. fold_opt f xs acc = Some acc' \<and> collected T (\<Union>x\<in>set xs. V x) acc acc'"
  using assms
proof (induction xs arbitrary: acc)
  case Nil
  then show ?case by (simp add: collected_refl)
next
  case (Cons x xs)
  from Cons.prems(1) [of x acc] Cons.prems(2) obtain acc1 where
    1: "f x acc = Some acc1" "collected T (V x) acc acc1" by auto
  then have "in_sync T acc1" by (simp add: collected_def)
  then have "\<exists>acc'. fold_opt f xs acc1 = Some acc' \<and> collected T (\<Union>x\<in>set xs. V x) acc1 acc'"
    by (rule Cons.IH [OF Cons.prems(1), rotated -1]) simp_all
  then obtain acc2 where 2: "fold_opt f xs acc1 = Some acc2" "collected T (\<Union>x\<in>set xs. V x) acc1 acc2"
    by blast
  have "collected T (\<Union>x\<in>set (x # xs). V x) acc acc2" using collected_trans [OF 1(2) 2(2)] by simp
  with 1 2 show ?case by simp
qed

lemma fold_opt_map: "fold_opt f (map g xs) s = fold_opt (\<lambda>x. f (g x)) xs s"
  by (induction xs arbitrary: s) (auto intro!: Option.bind_cong)

lemma fold_opt_snoc: "fold_opt f (xs @ [x]) s = do { s \<leftarrow> fold_opt f xs s; f x s }"
  by (induction xs arbitrary: s) (auto intro!: Option.bind_cong split: Option.bind_splits)

lemma collect_kids:
  "\<not> is_var ty \<Longrightarrow>
   collect_reachable_var_ids (Suc n) T ty acc = fold_opt (collect_reachable_var_ids n T) (kids ty) acc"
  by (cases ty) (auto simp: fold_opt_map fold_opt_snoc)

lemma collect_rigid:
  assumes "\<not> is_var ty" and "in_sync T acc"
    and "\<And>k acc. k \<in> set (kids ty) \<Longrightarrow> in_sync T acc \<Longrightarrow>
      \<exists>acc'. collect_reachable_var_ids n T k acc = Some acc' \<and> collected T (tvars k) acc acc'"
  shows "\<exists>acc'. collect_reachable_var_ids (Suc n) T ty acc = Some acc' \<and> collected T (tvars ty) acc acc'"
  using fold_opt_collected [of "kids ty" T "collect_reachable_var_ids n T" tvars acc] assms
  by (simp add: collect_kids tvars_kids del: collect_reachable_var_ids.simps)

lemma links_closed_upto:
  assumes "links T v path r" and "closed_upto X S T"
  shows "closed_upto (X \<union> tvars r) (S \<union> set path) T"
  using links_step [OF assms(1)] assms(2) by (fastforce simp: closed_upto_def)

lemma closed_upto_done: "closed_upto (X \<union> V) S T \<Longrightarrow> V \<subseteq> S \<Longrightarrow> closed_upto X S T"
  by (fastforce simp: closed_upto_def)

lemma collected_var:
  assumes l: "links T v path r" and acc1: "set (snd acc1) = set (snd acc) \<union> set path"
    and c: "collected T (tvars r) acc1 acc2"
  shows "collected T {v} acc acc2"
proof -
  have sub: "set (snd acc) \<union> set path \<union> tvars r \<subseteq> set (snd acc2)"
    using c acc1 by (auto simp: collected_def)
  have "closed_upto X (set (snd acc2)) T" if "closed_upto X (set (snd acc)) T" for X
  proof -
    have "closed_upto (X \<union> tvars r) (set (snd acc1)) T"
      unfolding acc1 by (rule links_closed_upto [OF l that])
    then have "closed_upto (X \<union> tvars r) (set (snd acc2)) T" using c by (simp add: collected_def)
    then show ?thesis using sub by (auto intro: closed_upto_done)
  qed
  moreover have "v \<in> set (snd acc2)" using sub links_head [OF l] by auto
  ultimately show ?thesis using c sub by (auto simp: collected_def)
qed

lemma collect_rigid_depth:
  assumes IH: "\<And>e ty acc n. e < d \<Longrightarrow> scoped T ty \<Longrightarrow> depth_le e (inst c ty) \<Longrightarrow> in_sync T acc \<Longrightarrow>
      2 * e + 2 \<le> n \<Longrightarrow>
      \<exists>acc'. collect_reachable_var_ids n T ty acc = Some acc' \<and> collected T (tvars ty) acc acc'"
    and r: "\<not> is_var r" "scoped T r" "depth_le d (inst c r)" "in_sync T acc" "2 * d + 1 \<le> m"
  shows "\<exists>acc'. collect_reachable_var_ids m T r acc = Some acc' \<and> collected T (tvars r) acc acc'"
proof -
  obtain m' where m: "m = Suc m'" using r(5) by (cases m) auto
  show ?thesis unfolding m
  proof (rule collect_rigid [OF r(1,4)])
    fix k acc1 assume k: "k \<in> set (kids r)" and s: "in_sync T acc1"
    then obtain e where d: "d = Suc e" using r(1,3) depth_le_0_kids [of c r] by (cases d) fastforce+
    have "scoped T k" using k r(1,2) by (auto simp: scoped_def tvars_kids)
    moreover have "depth_le e (inst c k)" using k r(1,3) unfolding d by (metis depth_le_inst_kids)
    ultimately show "\<exists>acc'. collect_reachable_var_ids m' T k acc1 = Some acc' \<and> collected T (tvars k) acc1 acc'"
      using r(5) m d s by (intro IH [of e]) auto
  qed
qed

lemma collect_spec:
  assumes wf: "wf_table T" and c: "canon T c"
  shows "scoped T ty \<Longrightarrow> depth_le d (inst c ty) \<Longrightarrow> in_sync T acc \<Longrightarrow> 2 * d + 2 \<le> n \<Longrightarrow>
    \<exists>acc'. collect_reachable_var_ids n T ty acc = Some acc' \<and> collected T (tvars ty) acc acc'"
proof (induction d arbitrary: ty acc n rule: less_induct)
  case (less d ty acc n)
  have rigid: "\<exists>acc''. collect_reachable_var_ids m T r acc' = Some acc'' \<and> collected T (tvars r) acc' acc''"
    if "\<not> is_var r" "scoped T r" "depth_le d (inst c r)" "in_sync T acc'" "2 * d + 1 \<le> m" for r acc' m
    by (rule collect_rigid_depth [where c = c and d = d, OF less.IH that])
  show ?case
  proof (cases "is_var ty")
    case False
    with less.prems show ?thesis by (intro rigid) auto
  next
    case True
    then obtain v where ty: "ty = TVar v" by (auto simp: is_var_iff)
    obtain n' where n: "n = Suc n'" "2 * d + 1 \<le> n'" using less.prems(4) by (cases n) auto
    have "v < length T" using ty less.prems(1) by (simp add: scoped_def)
    then obtain r path where ch: "resolve_var_chain T v = Some (r, path)" and l: "links T v path r"
      using resolve_var_chain_links [OF wf] by blast
    obtain rk where "ranked rk T" using wf by (auto simp: wf_table_def)
    note p = links_props [OF l this]
    obtain acc1 where m: "mark_path path (fst acc) (snd acc) = Some acc1" "in_sync T acc1"
      "set (snd acc1) = set (snd acc) \<union> set path"
      using mark_path_spec [of T "fst acc" "snd acc" path] less.prems(3) p by auto
    show ?thesis
    proof (cases "is_var r")
      case True
      then obtain w where w: "r = TVar w" "w \<in> unbound T" using p by (auto simp: is_var_iff)
      obtain acc2 where a: "mark_path [w] (fst acc1) (snd acc1) = Some acc2" "in_sync T acc2"
        "set (snd acc2) = set (snd acc1) \<union> {w}"
        using mark_path_spec [of T "fst acc1" "snd acc1" "[w]"] m(2) w(2) by (auto simp: unbound_def)
      then have "collected T (tvars r) acc1 acc2"
        using w by (auto simp: collected_def closed_upto_def unbound_def)
      then have "collected T {v} acc acc2" by (rule collected_var [OF l m(3)])
      moreover have "collect_reachable_var_ids n T ty acc = Some acc2"
        using ch m(1) a(1) w(1) by (cases acc1) (simp add: n ty del: mark_path.simps)
      ultimately show ?thesis using ty by simp
    next
      case False
      have "inst c r = inst c ty" using links_sols [OF l, of c v] c ty by (simp add: canon_def)
      with False p less.prems(2) m(2) n(2) obtain acc2 where
        a: "collect_reachable_var_ids n' T r acc1 = Some acc2" "collected T (tvars r) acc1 acc2"
        using rigid [of r acc1 n'] by auto
      have "collected T {v} acc acc2" by (rule collected_var [OF l m(3) a(2)])
      moreover have "collect_reachable_var_ids n T ty acc = Some acc2"
        using ch m(1) a(1) False by (cases acc1; cases r) (simp_all add: n ty)
      ultimately show ?thesis using ty by simp
    qed
  qed
qed

lemma restore_entries_spec:
  "\<forall>i\<in>set ids. i < length T' \<Longrightarrow>
   \<exists>R. restore_entries (map (\<lambda>i. (i, T ! i)) ids) T' = Some R \<and> length R = length T'
     \<and> (\<forall>i < length T'. R ! i = (if i \<in> set ids then T ! i else T' ! i))"
proof (induction ids arbitrary: T')
  case (Cons j ids)
  then have "\<exists>R. restore_entries (map (\<lambda>i. (i, T ! i)) ids) (T'[j := T ! j]) = Some R
      \<and> length R = length T' \<and> (\<forall>i < length T'. R ! i = (if i \<in> set ids then T ! i else T'[j := T ! j] ! i))"
    using Cons.IH [of "T'[j := T ! j]"] by simp
  then obtain R where "restore_entries (map (\<lambda>i. (i, T ! i)) ids) (T'[j := T ! j]) = Some R"
    "length R = length T'" "\<forall>i < length T'. R ! i = (if i \<in> set ids then T ! i else T'[j := T ! j] ! i)"
    by blast
  with Cons.prems show ?case by (auto simp: nth_list_update)
qed simp

lemma snapshot_spec:
  assumes wf: "wf_table T" and sc: "\<forall>t\<in>set tys. scoped T t"
  shows "\<exists>N. \<forall>n\<ge>N. \<exists>snap. snapshot_reachable_bindings n T tys = Some snap
    \<and> (\<forall>T'. frame_on (\<Union>t\<in>set tys. tvars t) T T' \<longrightarrow> restore snap T' = Some T)"
proof -
  obtain c where c: "canon T c" using canon_exists [OF wf] by blast
  define d where "d t = (SOME n. depth_le n (inst c t))" for t
  have d: "depth_le (d t) (inst c t)" for t unfolding d_def by (rule someI_ex) (rule depth_le_exists)
  let ?N = "2 * Max (insert 0 (d ` set tys)) + 2"
  have "\<exists>snap. snapshot_reachable_bindings n T tys = Some snap
      \<and> (\<forall>T'. frame_on (\<Union>t\<in>set tys. tvars t) T T' \<longrightarrow> restore snap T' = Some T)" if n: "?N \<le> n" for n
  proof -
    have "\<exists>acc'. collect_reachable_var_ids n T t acc = Some acc' \<and> collected T (tvars t) acc acc'"
      if "t \<in> set tys" "in_sync T acc" for t acc
    proof (rule collect_spec [OF wf c])
      have "d t \<le> Max (insert 0 (d ` set tys))" using that(1) by (intro Max_ge) auto
      with n show "2 * d t + 2 \<le> n" by simp
    qed (use that sc d in auto)
    then obtain acc where a: "fold_opt (collect_reachable_var_ids n T) tys (replicate (length T) False, []) = Some acc"
      "collected T (\<Union>t\<in>set tys. tvars t) (replicate (length T) False, []) acc"
      using fold_opt_collected [of tys T "collect_reachable_var_ids n T" tvars "(replicate (length T) False, [])"]
      by (auto simp: in_sync_def)
    have "closed_upto {} (set (snd acc)) T"
      using a(2) unfolding collected_def by (simp add: closed_upto_def [of "{}" "{}"])
    then have cl: "closed (set (snd acc)) T" by (simp add: closed_upto_def closed_def)
    have ids: "\<forall>i\<in>set (snd acc). i < length T" using a(2) by (auto simp: collected_def in_sync_def)
    have "restore \<lparr>entries = map (\<lambda>i. (i, T ! i)) (snd acc)\<rparr> T' = Some T"
      if f: "frame_on (\<Union>t\<in>set tys. tvars t) T T'" for T'
    proof -
      have fr: "frame (set (snd acc)) T T'" using f a(2) cl by (auto simp: frame_on_def collected_def)
      then obtain R where R: "restore_entries (map (\<lambda>i. (i, T ! i)) (snd acc)) T' = Some R" "length R = length T"
        "\<forall>i < length T. R ! i = (if i \<in> set (snd acc) then T ! i else T' ! i)"
        using restore_entries_spec [of "snd acc" T' T] ids by (auto simp: frame_def)
      have "R = T" by (rule nth_equalityI) (use R fr cl in \<open>auto simp: frame_def\<close>)
      with R(1) show ?thesis by (simp add: restore_def)
    qed
    with a(1) show ?thesis by (cases acc) (simp add: snapshot_reachable_bindings_def)
  qed
  then show ?thesis by blast
qed

section \<open>More fuel, same result\<close>

definition extends :: "('a \<Rightarrow> 'b \<Rightarrow> 's \<Rightarrow> 'r option) \<Rightarrow> ('a \<Rightarrow> 'b \<Rightarrow> 's \<Rightarrow> 'r option) \<Rightarrow> bool" where
  "extends f g \<longleftrightarrow> (\<forall>x y s r. f x y s = Some r \<longrightarrow> g x y s = Some r)"

lemma all_st_mono: "extends f g \<Longrightarrow> all_st f xs ys s = Some r \<Longrightarrow> all_st g xs ys s = Some r"
proof (induction xs arbitrary: ys s)
  case (Cons x xs)
  show ?case
  proof (cases ys)
    case (Cons y ys')
    with Cons.prems(2) obtain b s' where f: "f x y s = Some (b, s')" by (auto simp: bind_eq_Some_conv)
    then have "g x y s = Some (b, s')" using Cons.prems(1) by (simp add: extends_def)
    with f Cons Cons.IH [OF Cons.prems(1)] Cons.prems(2) show ?thesis by (simp split: if_splits)
  qed (use Cons.prems in simp)
qed simp

lemma bind_var_mono:
  assumes "bind_var n v t T = Some r" and "n \<le> m"
  shows "bind_var m v t T = Some r"
proof -
  from assms(1) obtain b T' where o: "occurs n v t T = Some (b, T')"
    by (auto simp: bind_var_def bind_eq_Some_conv)
  with assms(1) occurs_mono [OF o assms(2)] show ?thesis by (simp add: bind_var_def)
qed

lemma unify_fields_mono:
  assumes "extends f g" and "unify_fields f f1 f2 used T = Some r"
  shows "unify_fields g f1 f2 used T = Some r"
proof -
  obtain ps ok where m: "match_fields f1 f2 used = (ps, ok)" by fastforce
  with assms(2) obtain p where a: "all_pairs f ps T = Some p"
    by (auto simp: unify_fields_match bind_eq_Some_conv)
  with assms(2) m all_st_mono [OF assms(1) a] show ?thesis by (simp add: unify_fields_match)
qed

lemma unify_heads_mono:
  assumes "extends f g" and "n \<le> m" and "unify_heads n f a b T = Some r"
  shows "unify_heads m g a b T = Some r"
proof (cases "\<exists>p1 r1 p2 r2. a = TFn p1 r1 \<and> b = TFn p2 r2")
  case True
  then obtain p1 r1 p2 r2 where ab: "a = TFn p1 r1" "b = TFn p2 r2" by blast
  have h: "unify_heads k h a b T = (if length p1 = length p2 then all_st h (p1 @ [r1]) (p2 @ [r2]) T
      else Some (False, T))" for k h
    using ab by (simp add: unify_heads_def is_poison_def all_st_snoc)
  show ?thesis
    using assms(3) all_st_mono [OF assms(1)] unfolding h by (simp split: if_splits)
next
  case False
  with assms(3) show ?thesis
    unfolding unify_heads_def
    by (cases a; cases b)
      (auto split: if_splits intro: bind_var_mono [OF _ assms(2)] all_st_mono [OF assms(1)]
        unify_fields_mono [OF assms(1)])
qed

lemma unify_mono: "unify n a b T = Some r \<Longrightarrow> n \<le> m \<Longrightarrow> unify m a b T = Some r"
proof (induction n arbitrary: a b T r m)
  case (Suc n)
  from Suc.prems(2) obtain m' where m: "m = Suc m'" "n \<le> m'" by (cases m) auto
  have "extends (unify n) (unify m')" using Suc.IH [OF _ m(2)] by (auto simp: extends_def)
  then have h: "unify_heads n (unify n) x y U = Some r \<Longrightarrow> unify_heads m' (unify m') x y U = Some r" for x y U
    by (rule unify_heads_mono [OF _ m(2)])
  from Suc.prems(1) obtain ra T1 rb T2 where
    "resolve_with_compression T a = Some (ra, T1)" "resolve_with_compression T1 b = Some (rb, T2)"
    "unify_heads n (unify n) ra rb T2 = Some r"
    by (auto simp: bind_eq_Some_conv)
  with h show ?case by (simp add: m(1))
qed simp

text \<open>So whatever fuel lets \<open>unify\<close> return, what it returns is the settled result.\<close>

lemma unify_unified:
  assumes "wf_table T" and "scoped T a" and "scoped T b" and "unify n a b T = Some (ok, T')"
  shows "unified [(a, b)] T ok T'"
proof -
  obtain N ok1 T1 where u: "\<forall>n\<ge>N. unify n a b T = Some (ok1, T1)" and r: "unified [(a, b)] T ok1 T1"
    using unify_settles [OF assms(1-3)] by (auto simp: settles_single)
  have "unify (max n N) a b T = Some (ok, T')" by (rule unify_mono [OF assms(4)]) simp
  with u have "ok = ok1" "T' = T1" by simp_all
  with r show ?thesis by simp
qed

end
