(* ===== verification/Type_Properties.thy ===== *)
theory Type_Properties
  imports Unify_Snapshot
begin

text \<open>
  The properties of the unification table, with the interface its clients rely on: type inference
  posts one equation after the other and needs that the order does not matter.
\<close>

section \<open>Posting a list of constraints\<close>

fun solve_all :: "('e \<Rightarrow> 's \<Rightarrow> (bool \<times> 's) option) \<Rightarrow> 'e list \<Rightarrow> 's \<Rightarrow> (bool \<times> 's) option" where
  "solve_all solve [] s = Some (True, s)"
| "solve_all solve (e # es) s = do {
     (b, s) \<leftarrow> solve e s;
     if b then solve_all solve es s else Some (False, s)
   }"

text \<open>
  The contract of a constraint store: each call keeps the invariant, success restricts the models
  to those that satisfy the constraint, failure means that there are none, and a store always has
  a model.
\<close>

locale constraint_store =
  fixes inv :: "'s \<Rightarrow> bool" and fits :: "'s \<Rightarrow> 'e \<Rightarrow> bool" and models :: "'s \<Rightarrow> 'm set"
    and sat :: "'m \<Rightarrow> 'e \<Rightarrow> bool" and solve :: "'e \<Rightarrow> 's \<Rightarrow> (bool \<times> 's) option"
  assumes keeps: "inv s \<Longrightarrow> fits s e \<Longrightarrow> solve e s = Some (b, s') \<Longrightarrow> inv s' \<and> fits s' = fits s"
    and solved: "inv s \<Longrightarrow> fits s e \<Longrightarrow> solve e s = Some (True, s') \<Longrightarrow> models s' = {m \<in> models s. sat m e}"
    and failed: "inv s \<Longrightarrow> fits s e \<Longrightarrow> solve e s = Some (False, s') \<Longrightarrow> m \<in> models s \<Longrightarrow> \<not> sat m e"
    and consistent: "inv s \<Longrightarrow> models s \<noteq> {}"
begin

lemma solve_all_correct:
  "inv s \<Longrightarrow> \<forall>e\<in>set es. fits s e \<Longrightarrow> solve_all solve es s = Some (b, s') \<Longrightarrow>
   inv s' \<and> (if b then models s' = {m \<in> models s. \<forall>e\<in>set es. sat m e}
             else {m \<in> models s. \<forall>e\<in>set es. sat m e} = {})"
proof (induction es arbitrary: s)
  case (Cons e es)
  from Cons.prems(3) obtain c t where c: "solve e s = Some (c, t)" by (auto simp: bind_eq_Some_conv)
  then have t: "inv t" "fits t = fits s" using keeps [OF Cons.prems(1) _ c] Cons.prems(2) by simp_all
  show ?case
  proof (cases c)
    case True
    have m: "models t = {m \<in> models s. sat m e}" using solved [OF Cons.prems(1)] Cons.prems(2) c True by simp
    have "solve_all solve es t = Some (b, s')" using Cons.prems(3) c True by simp
    from Cons.IH [OF t(1) _ this] Cons.prems(2) t(2) m show ?thesis by (auto split: if_splits)
  next
    case False
    have "b = False" "s' = t" using Cons.prems(3) c False by simp_all
    with t(1) failed [OF Cons.prems(1)] Cons.prems(2) c False show ?thesis by auto
  qed
qed auto

lemma order_irrelevant:
  assumes "inv s" and "\<forall>e\<in>set es. fits s e" and "set fs = set es"
    and "solve_all solve es s = Some (b, s1)" and "solve_all solve fs s = Some (c, s2)"
  shows "b = c \<and> (b \<longrightarrow> models s1 = models s2)"
  using solve_all_correct [OF assms(1,2,4)] solve_all_correct [OF assms(1) _ assms(5)]
    consistent [of s1] consistent [of s2] assms(2,3) by (auto split: if_splits)

end

definition store_ok :: "UnificationTable \<Rightarrow> bool" where
  "store_ok T \<longleftrightarrow> wf_table T \<and> clean T"

definition pair_fits :: "UnificationTable \<Rightarrow> Ty \<times> Ty \<Rightarrow> bool" where
  "pair_fits T p \<longleftrightarrow> scoped T (fst p) \<and> scoped T (snd p) \<and> poison_free (fst p) \<and> poison_free (snd p)"

definition satisfies :: "(nat \<Rightarrow> Ty) \<Rightarrow> Ty \<times> Ty \<Rightarrow> bool" where
  "satisfies s p \<longleftrightarrow> inst s (fst p) = inst s (snd p)"

lemma unify_store:
  assumes "store_ok T" and "pair_fits T p" and "unify n (fst p) (snd p) T = Some (ok, T')"
  shows "store_ok T' \<and> pair_fits T' = pair_fits T
    \<and> (ok \<longrightarrow> sols T' = {s \<in> sols T. satisfies s p}) \<and> (\<not> ok \<longrightarrow> (\<forall>s\<in>sols T. \<not> satisfies s p))"
proof -
  have "unified [(fst p, snd p)] T ok T'"
    using assms by (intro unify_unified) (auto simp: store_ok_def pair_fits_def)
  then show ?thesis
    using assms(1,2)
    by (auto simp: unified_def evolves_def store_ok_def pair_fits_def satisfies_def solves_def
        clean_pairs_def scoped_def fun_eq_iff)
qed

interpretation table: constraint_store store_ok pair_fits sols satisfies "\<lambda>p. unify n (fst p) (snd p)" for n
proof
  fix T assume "store_ok T"
  then show "sols T \<noteq> {}" using canon_exists [of T] by (auto simp: store_ok_def canon_def)
qed (use unify_store in blast)+

section \<open>Properties\<close>

text \<open>
  C5. Unification terminates: on a well-formed table and types over its variables, every fuel from
  some bound on gives one and the same answer and table, and the table is well formed again.
\<close>

theorem unify_terminates:
  assumes "wf_table T" and "scoped T a" and "scoped T b"
  shows "\<exists>N ok T'. (\<forall>n\<ge>N. unify n a b T = Some (ok, T')) \<and> wf_table T' \<and> length T' = length T"
proof -
  obtain N ok T' where "\<forall>n\<ge>N. unify n a b T = Some (ok, T')" "unified [(a, b)] T ok T'"
    using unify_settles [OF assms] by (auto simp: settles_single)
  moreover from this(2) have "wf_table T' \<and> length T' = length T" by (simp add: unified_def evolves_def)
  ultimately show ?thesis by blast
qed

definition two_vars :: UnificationTable where
  "two_vars = [None, None]"

lemma wf_table_unbound: "set T \<subseteq> {None} \<Longrightarrow> wf_table T"
proof -
  assume T: "set T \<subseteq> {None}"
  have "T ! v = None" if "v < length T" for v using nth_mem [OF that] T by blast
  then show "wf_table T" by (auto simp: wf_table_def ranked_def)
qed

lemma two_vars_wf: "wf_table two_vars" "clean two_vars"
  by (auto simp: two_vars_def clean_def intro: wf_table_unbound)

theorem unify_terminates_witness:
  "\<exists>N ok T'. (\<forall>n\<ge>N. unify n (TFn [TVar 0] TInt) (TFn [TBool] (TVar 1)) two_vars = Some (ok, T'))
     \<and> wf_table T' \<and> length T' = length two_vars"
  by (rule unify_terminates [OF two_vars_wf(1)]) (simp_all add: scoped_def two_vars_def)

text \<open>
  C6. Unification is sound and most general: on a table and types without poison, success leaves
  exactly the solutions that make the two types equal up to field order, and failure means that
  there is none.
\<close>

theorem unify_most_general:
  assumes "wf_table T" and "clean T" and "scoped T a" and "scoped T b" and "poison_free a"
    and "poison_free b" and "unify n a b T = Some (ok, T')"
  shows "if ok then sols T' = {s \<in> sols T. inst s a = inst s b}
    else {s \<in> sols T. inst s a = inst s b} = {}"
  using unify_store [of T "(a, b)" n ok T'] assms
  by (auto simp: store_ok_def pair_fits_def satisfies_def)

theorem unify_most_general_witness:
  "unify 3 (TFn [TVar 0] TInt) (TFn [TBool] (TVar 1)) two_vars = Some (True, [Some TBool, Some TInt])
   \<and> sols [Some TBool, Some TInt] =
       {s \<in> sols two_vars. inst s (TFn [TVar 0] TInt) = inst s (TFn [TBool] (TVar 1))}"
proof -
  have u: "unify 3 (TFn [TVar 0] TInt) (TFn [TBool] (TVar 1)) two_vars = Some (True, [Some TBool, Some TInt])"
    by code_simp
  from unify_most_general [OF two_vars_wf _ _ _ _ u] u show ?thesis
    by (auto simp: scoped_def two_vars_def is_poison_def)
qed

text \<open>
  With poison in play success still means agreement: under every solution of the new table the
  two types are equal up to field order and up to parts where one side is poison.  No solution of
  the equation is ever lost.
\<close>

theorem unify_agrees:
  assumes "wf_table T" and "scoped T a" and "scoped T b" and "unify n a b T = Some (True, T')"
  shows "sols T' \<subseteq> {s \<in> sols T. compat (inst s a) (inst s b)}
    \<and> {s \<in> sols T. inst s a = inst s b} \<subseteq> sols T' \<and> sols T' \<noteq> {}"
proof -
  have u: "unified [(a, b)] T True T'" using assms by (rule unify_unified)
  then have "wf_table T'" by (simp add: unified_def evolves_def)
  then have "sols T' \<noteq> {}" using canon_exists by (auto simp: canon_def)
  with u show ?thesis by (auto simp: unified_def evolves_def agrees_def solves_def)
qed

text \<open>
  C7. The order in which inference posts its equations does not matter: two runs over the same set
  of equations, on a table without poison, succeed or fail together and leave the same solutions.
\<close>

theorem unify_order_irrelevant:
  assumes "store_ok T" and "list_all (pair_fits T) ps" and "set qs = set ps"
    and "solve_all (\<lambda>p. unify n (fst p) (snd p)) ps T = Some (b, T1)"
    and "solve_all (\<lambda>p. unify n (fst p) (snd p)) qs T = Some (c, T2)"
  shows "b = c \<and> (b \<longrightarrow> sols T1 = sols T2)"
  using table.order_irrelevant [OF assms(1) _ assms(3-5)] assms(2) by (simp add: list_all_iff)

theorem unify_order_irrelevant_witness:
  "sols [Some (TVar 1), Some TInt] = sols [Some TInt, Some TInt]"
proof -
  let ?ps = "[(TVar 0, TVar 1), (TVar 1, TInt)]" and ?qs = "[(TVar 1, TInt), (TVar 0, TVar 1)]"
  have "store_ok two_vars" "list_all (pair_fits two_vars) ?ps" "set ?qs = set ?ps"
    using two_vars_wf by (auto simp: store_ok_def pair_fits_def scoped_def two_vars_def is_poison_def)
  moreover have "solve_all (\<lambda>p. unify 3 (fst p) (snd p)) ?ps two_vars = Some (True, [Some (TVar 1), Some TInt])"
    "solve_all (\<lambda>p. unify 3 (fst p) (snd p)) ?qs two_vars = Some (True, [Some TInt, Some TInt])"
    by code_simp+
  ultimately show ?thesis using unify_order_irrelevant by blast
qed

text \<open>
  The occurs check decides whether an unbound variable occurs in the fully resolved type, and
  changes no solution.
\<close>

lemma occurs_decides:
  assumes "wf_table T" and "scoped T ty" and "v \<in> unbound T" and "canon T c" and "depth_le d (inst c ty)"
  shows "\<exists>T'. occurs (Suc d) v ty T = Some (v \<in> tvars (inst c ty), T') \<and> sols T' = sols T"
  using occurs_spec [OF assms(1,2,4,3,5)] by (auto simp: teq_def)

text \<open>
  Deep resolution returns a type over unbound variables only that stands for the same type
  under every solution; a type without unbound variables comes out fully resolved.
\<close>

lemma resolve_deep_correct:
  assumes "wf_table T" and "scoped T ty"
  shows "\<exists>n t. resolve_deep n T ty = Some t \<and> tvars t \<subseteq> unbound T
    \<and> sols T \<subseteq> {s. inst s t = inst s ty} \<and> (unbound T = {} \<longrightarrow> is_fully_resolved t)"
proof -
  obtain c where c: "canon T c" using canon_exists [OF assms(1)] by blast
  obtain d where "depth_le d (inst c ty)" using depth_le_exists by blast
  from resolve_deep_spec [OF assms(1) c assms(2) this] obtain t where
    "resolve_deep (Suc d) T ty = Some t" "resolves T ty t" by blast
  then show ?thesis by (fastforce simp: resolves_def fully_resolved_iff)
qed

text \<open>
  A snapshot of the bindings reachable from two types undoes unification of them: restoring it
  gives back the table of before, whatever the outcome was.
\<close>

theorem snapshot_undoes_unify:
  assumes "wf_table T" and "scoped T a" and "scoped T b"
  shows "\<exists>N. \<forall>n\<ge>N. \<exists>snap ok T'. snapshot_reachable_bindings n T [a, b] = Some snap
    \<and> unify n a b T = Some (ok, T') \<and> restore snap T' = Some T"
proof -
  obtain N where N: "\<forall>n\<ge>N. \<exists>snap. snapshot_reachable_bindings n T [a, b] = Some snap
      \<and> (\<forall>T'. frame_on (tvars a \<union> tvars b) T T' \<longrightarrow> restore snap T' = Some T)"
    using snapshot_spec [of T "[a, b]"] assms by auto
  obtain M ok T' where M: "\<forall>n\<ge>M. unify n a b T = Some (ok, T')" and u: "unified [(a, b)] T ok T'"
    using unify_settles [OF assms] by (auto simp: settles_single)
  have "frame_on (tvars a \<union> tvars b) T T'" using u by (simp add: unified_def pvars_def)
  with N M have "\<exists>snap ok T'. snapshot_reachable_bindings n T [a, b] = Some snap
    \<and> unify n a b T = Some (ok, T') \<and> restore snap T' = Some T" if "max N M \<le> n" for n
    using that by fastforce
  then show ?thesis by blast
qed

end
