(* ===== verification/Exhaustive.thy ===== *)
theory Exhaustive
  imports Hir Unify
begin

text \<open>
  Exhaustiveness and redundancy of match arms (\<open>hir-ty/src/exhaustiveness.rs\<close>).  Hash sets are
  sets, the hash map of partial boolean coverage is a map.  The variable \<open>wildcard_seen_at\<close>, which
  the code only writes, is left out.  A panic on an arena index is \<^const>\<open>None\<close>, as is running out
  of the fuel of \<^const>\<open>resolve_deep\<close>.
\<close>

section \<open>Data\<close>

datatype TyDiagnosticData =
    RedundantMatchArm
  | MissingMatchArms "string list"

datatype DiagLoc = LocExpr ExprIdx | LocPat PatIdx

type_synonym Diags = "(TyDiagnosticData \<times> DiagLoc) list"

record AdtExhaustivenessInput =
  in_type_idx :: TypeItemIdx
  in_arms :: "MatchArm list"
  in_pats :: "Pat list"
  in_pat_types :: "PatIdx \<rightharpoonup> Ty"
  in_table :: UnificationTable
  in_types :: "TypeItem list"
  in_interner :: "Name \<Rightarrow> string"
  in_match_expr_idx :: ExprIdx

record BoolCoverage =
  bc_arity :: nat
  bc_seen :: "64 word set"

record Coverage =
  covered :: "nat set"
  bool_coverage :: "nat \<rightharpoonup> BoolCoverage"
  has_wildcard :: bool
  out_diags :: Diags

section \<open>Boolean sub-patterns\<close>

definition set_bit_at :: "nat \<Rightarrow> 64 word \<Rightarrow> 64 word" where
  "set_bit_at idx w = or w (push_bit idx 1)"

fun expand_assignments :: "nat \<Rightarrow> 64 word list \<Rightarrow> 64 word list" where
  "expand_assignments idx [] = []"
| "expand_assignments idx (a # as) = a # set_bit_at idx a # expand_assignments idx as"

fun assignments_loop ::
    "nat \<Rightarrow> Pat list \<Rightarrow> (PatIdx \<rightharpoonup> Ty) \<Rightarrow> UnificationTable \<Rightarrow> nat \<Rightarrow> PatIdx list \<Rightarrow> 64 word list \<Rightarrow>
     64 word list option option" where
  "assignments_loop fuel pats pat_types table idx [] assignments = Some (Some assignments)"
| "assignments_loop fuel pats pat_types table idx (arg # args) assignments =
     (case pat_types arg of
        None \<Rightarrow> Some None
      | Some ty \<Rightarrow>
          (case resolve_deep fuel table ty of
             None \<Rightarrow> None
           | Some rty \<Rightarrow>
               if rty \<noteq> TBool then Some None
               else
                 (case arena_get pats arg of
                    None \<Rightarrow> None
                  | Some (PLiteral (LBool v)) \<Rightarrow>
                      assignments_loop fuel pats pat_types table (Suc idx) args
                        (if v then map (set_bit_at idx) assignments else assignments)
                  | Some PWildcard \<Rightarrow>
                      assignments_loop fuel pats pat_types table (Suc idx) args
                        (expand_assignments idx assignments)
                  | Some (PBind _) \<Rightarrow>
                      assignments_loop fuel pats pat_types table (Suc idx) args
                        (expand_assignments idx assignments)
                  | Some _ \<Rightarrow> Some None)))"

definition bool_assignments ::
    "nat \<Rightarrow> PatIdx list \<Rightarrow> Pat list \<Rightarrow> (PatIdx \<rightharpoonup> Ty) \<Rightarrow> UnificationTable \<Rightarrow>
     (nat \<times> 64 word list) option option" where
  "bool_assignments fuel args pats pat_types table =
     (if args = [] \<or> 64 < length args then Some None
      else map_option (map_option (\<lambda>as. (length args, as)))
             (assignments_loop fuel pats pat_types table 0 args [0]))"

section \<open>The check on algebraic types\<close>

definition push_redundant :: "AdtExhaustivenessInput \<Rightarrow> Coverage \<Rightarrow> Coverage" where
  "push_redundant inp st =
     st\<lparr>out_diags := out_diags st @ [(RedundantMatchArm, LocExpr (in_match_expr_idx inp))]\<rparr>"

fun irrefutable :: "Pat \<Rightarrow> bool" where
  "irrefutable PWildcard = True"
| "irrefutable (PBind _) = True"
| "irrefutable _ = False"

fun args_irrefutable :: "Pat list \<Rightarrow> PatIdx list \<Rightarrow> bool option" where
  "args_irrefutable pats [] = Some True"
| "args_irrefutable pats (arg # args) =
     (case arena_get pats arg of
        None \<Rightarrow> None
      | Some p \<Rightarrow> if irrefutable p then args_irrefutable pats args else Some False)"

definition checked_shl :: "nat \<Rightarrow> nat option" where
  "checked_shl arity = (if arity < 64 then Some (2 ^ arity) else None)"

definition record_assignments ::
    "AdtExhaustivenessInput \<Rightarrow> nat \<Rightarrow> nat \<Rightarrow> 64 word list \<Rightarrow> Coverage \<Rightarrow> Coverage" where
  "record_assignments inp variant_idx arity assignments st =
     (case checked_shl arity of
        None \<Rightarrow> st
      | Some domain_size \<Rightarrow>
          let entry = (case bool_coverage st variant_idx of
                         Some e \<Rightarrow> e
                       | None \<Rightarrow> \<lparr>bc_arity = arity, bc_seen = {}\<rparr>);
              st1 = st\<lparr>bool_coverage := (bool_coverage st)(variant_idx \<mapsto> entry)\<rparr>
          in if bc_arity entry \<noteq> arity then st1
             else
               let added_any = (\<exists>a\<in>set assignments. a \<notin> bc_seen entry);
                   seen = bc_seen entry \<union> set assignments;
                   st2 = st\<lparr>bool_coverage := (bool_coverage st)(variant_idx \<mapsto> entry\<lparr>bc_seen := seen\<rparr>)\<rparr>
               in if \<not> added_any then push_redundant inp st2
                  else if card seen = domain_size then st2\<lparr>covered := insert variant_idx (covered st)\<rparr>
                  else st2)"

definition check_constructor_arm ::
    "nat \<Rightarrow> AdtExhaustivenessInput \<Rightarrow> VariantDef list \<Rightarrow> Path \<Rightarrow> PatIdx list \<Rightarrow> Coverage \<Rightarrow> Coverage option" where
  "check_constructor_arm fuel inp variants path args st =
     (if has_wildcard st then Some (push_redundant inp st)
      else
        case last_opt path of
          None \<Rightarrow> Some st
        | Some name \<Rightarrow>
            (case position (\<lambda>v. in_interner inp (v_name v) = in_interner inp name) variants of
               None \<Rightarrow> Some st
             | Some variant_idx \<Rightarrow>
                 if variant_idx \<in> covered st then Some (push_redundant inp st)
                 else
                   (case args_irrefutable (in_pats inp) args of
                      None \<Rightarrow> None
                    | Some True \<Rightarrow> Some (st\<lparr>covered := insert variant_idx (covered st)\<rparr>)
                    | Some False \<Rightarrow>
                        (case bool_assignments fuel args (in_pats inp) (in_pat_types inp) (in_table inp) of
                           None \<Rightarrow> None
                         | Some None \<Rightarrow> Some st
                         | Some (Some (arity, assignments)) \<Rightarrow>
                             Some (record_assignments inp variant_idx arity assignments st)))))"

definition check_arm ::
    "nat \<Rightarrow> AdtExhaustivenessInput \<Rightarrow> VariantDef list \<Rightarrow> MatchArm \<Rightarrow> Coverage \<Rightarrow> Coverage option" where
  "check_arm fuel inp variants arm st =
     (case arena_get (in_pats inp) (arm_pat arm) of
        None \<Rightarrow> None
      | Some (PConstructor path args) \<Rightarrow> check_constructor_arm fuel inp variants path args st
      | Some p \<Rightarrow>
          if irrefutable p then
            let st1 = (if has_wildcard st \<or> card (covered st) = length variants
                       then push_redundant inp st else st)
            in Some (st1\<lparr>has_wildcard := True\<rparr>)
          else Some st)"

fun check_arms ::
    "nat \<Rightarrow> AdtExhaustivenessInput \<Rightarrow> VariantDef list \<Rightarrow> MatchArm list \<Rightarrow> Coverage \<Rightarrow> Coverage option" where
  "check_arms fuel inp variants [] st = Some st"
| "check_arms fuel inp variants (arm # arms) st =
     Option.bind (check_arm fuel inp variants arm st) (check_arms fuel inp variants arms)"

definition missing_variants :: "AdtExhaustivenessInput \<Rightarrow> VariantDef list \<Rightarrow> nat set \<Rightarrow> string list" where
  "missing_variants inp variants cov =
     map (\<lambda>(_, v). in_interner inp (v_name v))
       (filter (\<lambda>(i, _). i \<notin> cov) (enumerate 0 variants))"

definition coverage_init :: "Diags \<Rightarrow> Coverage" where
  "coverage_init diags =
     \<lparr>covered = {}, bool_coverage = Map.empty, has_wildcard = False, out_diags = diags\<rparr>"

definition check_exhaustiveness :: "nat \<Rightarrow> AdtExhaustivenessInput \<Rightarrow> Diags \<Rightarrow> Diags option" where
  "check_exhaustiveness fuel inp diags =
     (case arena_get (in_types inp) (in_type_idx inp) of
        None \<Rightarrow> None
      | Some item \<Rightarrow>
          (case ti_kind item of
             AdtDef variants \<Rightarrow>
               map_option
                 (\<lambda>st. if \<not> has_wildcard st \<and> card (covered st) < length variants
                       then out_diags st @
                         [(MissingMatchArms (missing_variants inp variants (covered st)),
                           LocExpr (in_match_expr_idx inp))]
                       else out_diags st)
                 (check_arms fuel inp variants (in_arms inp) (coverage_init diags))
           | _ \<Rightarrow> Some diags))"

section \<open>The check on other types\<close>

fun any_arm :: "(Pat \<Rightarrow> bool) \<Rightarrow> Pat list \<Rightarrow> MatchArm list \<Rightarrow> bool option" where
  "any_arm P pats [] = Some False"
| "any_arm P pats (arm # arms) =
     (case arena_get pats (arm_pat arm) of
        None \<Rightarrow> None
      | Some p \<Rightarrow> if P p then Some True else any_arm P pats arms)"

fun bool_literals :: "Pat list \<Rightarrow> MatchArm list \<Rightarrow> bool \<times> bool \<Rightarrow> (bool \<times> bool) option" where
  "bool_literals pats [] seen = Some seen"
| "bool_literals pats (arm # arms) (has_true, has_false) =
     (case arena_get pats (arm_pat arm) of
        None \<Rightarrow> None
      | Some (PLiteral (LBool v)) \<Rightarrow>
          bool_literals pats arms (if v then (True, has_false) else (has_true, True))
      | Some _ \<Rightarrow> bool_literals pats arms (has_true, has_false))"

definition is_bool_literal_exhaustive :: "Ty \<Rightarrow> MatchArm list \<Rightarrow> Pat list \<Rightarrow> bool option" where
  "is_bool_literal_exhaustive scrutinee_ty arms pats =
     (if scrutinee_ty \<noteq> TBool then Some False
      else map_option (\<lambda>(has_true, has_false). has_true \<and> has_false)
             (bool_literals pats arms (False, False)))"

fun catches_all :: "Pat \<Rightarrow> bool" where
  "catches_all PWildcard = True"
| "catches_all (PBind _) = True"
| "catches_all (PRecord _ _) = True"
| "catches_all _ = False"

definition check_non_adt_exhaustiveness ::
    "Ty \<Rightarrow> MatchArm list \<Rightarrow> Pat list \<Rightarrow> Diags \<Rightarrow> ExprIdx \<Rightarrow> Diags option" where
  "check_non_adt_exhaustiveness scrutinee_ty arms pats diags match_expr_idx =
     (if is_poison scrutinee_ty then Some diags
      else
        case any_arm catches_all pats arms of
          None \<Rightarrow> None
        | Some True \<Rightarrow> Some diags
        | Some False \<Rightarrow>
            map_option
              (\<lambda>ok. if ok then diags
                    else diags @ [(MissingMatchArms [''_''], LocExpr match_expr_idx)])
              (is_bool_literal_exhaustive scrutinee_ty arms pats))"

end
