(* ===== verification/Exhaustive_Correct.thy ===== *)
theory Exhaustive_Correct
  imports Exhaustive Match_Eval Unify_Snapshot
begin

text \<open>
  What the coverage computation means for the interpreter: the masks recorded for boolean
  sub-patterns are exactly the argument tuples the arm accepts, a covered variant is matched
  by an earlier arm, and an arm reported as redundant is never selected.
\<close>

section \<open>Masks of boolean tuples\<close>

abbreviation bits :: "bool list \<Rightarrow> 64 word" where
  "bits bs \<equiv> horner_sum of_bool 2 bs"

lemma push_bits_Cons:
  "push_bit n (bits (b # bs)) = or (if b then push_bit n 1 else 0) (push_bit (Suc n) (bits bs))"
proof (rule bit_word_eqI)
  fix i assume "i < LENGTH(64)"
  then show "bit (push_bit n (bits (b # bs))) i =
      bit (or (if b then push_bit n 1 else 0) (push_bit (Suc n) (bits bs))) i"
    unfolding bit_or_iff bit_push_bit_iff bit_horner_sum_bit_word_iff
    by (auto simp: bit_simps nth_Cons' bit_horner_sum_bit_word_iff simp del: horner_sum_simps)
qed

lemma bits_inj:
  assumes "length bs = n" and "length cs = n" and "n \<le> 64" and "bits bs = bits cs"
  shows "bs = cs"
proof (rule nth_equalityI)
  fix i assume "i < length bs"
  then show "bs ! i = cs ! i"
    using assms bit_horner_sum_bit_word_iff [of bs i, where 'a = 64]
      bit_horner_sum_bit_word_iff [of cs i, where 'a = 64]
    by auto
qed (use assms in simp)

lemma card_bits:
  assumes "n \<le> 64"
  shows "card (bits ` {bs. length bs = n}) = 2 ^ n" and "finite (bits ` {bs. length bs = n})"
proof -
  have fin: "finite {bs :: bool list. length bs = n}" and c: "card {bs :: bool list. length bs = n} = 2 ^ n"
    using finite_lists_length_eq [of "UNIV :: bool set" n] card_lists_length_eq [of "UNIV :: bool set" n]
    by auto
  have "inj_on bits {bs. length bs = n}" using bits_inj [OF _ _ assms] by (auto intro: inj_onI)
  with c show "card (bits ` {bs. length bs = n}) = 2 ^ n" by (simp add: card_image)
  from fin show "finite (bits ` {bs. length bs = n})" by simp
qed

section \<open>Arms that accept boolean tuples\<close>

fun bool_accepts :: "Pat \<Rightarrow> bool \<Rightarrow> bool" where
  "bool_accepts (PLiteral (LBool v)) b \<longleftrightarrow> v = b"
| "bool_accepts p b \<longleftrightarrow> irrefutable p"

definition accepted :: "Pat list \<Rightarrow> PatIdx list \<Rightarrow> bool list set" where
  "accepted pats args = {bs. list_all2 (\<lambda>a b. bool_accepts (pats ! a) b) args bs}"

lemma set_expand_assignments: "set (expand_assignments n as) = set as \<union> set_bit_at n ` set as"
  by (induction as) auto

lemma accepted_Cons:
  "accepted pats (a # as) = {b # bs |b bs. bool_accepts (pats ! a) b \<and> bs \<in> accepted pats as}"
  by (auto simp: accepted_def list_all2_Cons1)

lemma accepted_Nil [simp]: "accepted pats [] = {[]}"
  by (auto simp: accepted_def)

lemma assignments_loop_masks:
  assumes "assignments_loop fuel pats pat_types table idx args as = Some (Some out)"
  shows "set out = {or a (push_bit idx (bits bs)) |a bs. a \<in> set as \<and> bs \<in> accepted pats args}"
  using assms
proof (induction args arbitrary: idx as)
  case (Cons arg args)
  have step: ?case
    if loop: "assignments_loop fuel pats pat_types table (Suc idx) args as' = Some (Some out)"
      and S: "set as' = (\<Union>b\<in>{b. bool_accepts (pats ! arg) b}. (\<lambda>a. or a (if b then push_bit idx 1 else 0)) ` set as)"
    for as'
  proof -
    have "set out = {or a (push_bit idx (bits (b # bs))) |a b bs.
        a \<in> set as \<and> bool_accepts (pats ! arg) b \<and> bs \<in> accepted pats args}"
      unfolding Cons.IH [OF loop] S push_bits_Cons or.assoc [symmetric] by blast
    then show ?thesis unfolding accepted_Cons by blast
  qed
  from Cons.prems show ?case
    by (auto split: option.splits if_splits Pat.splits Literal.splits intro!: step
        simp: set_expand_assignments set_bit_at_def UNIV_bool)
qed simp

lemma match_bool_args:
  assumes "length bs = length args" and "\<forall>a\<in>set args. a < length pats"
    and "\<forall>a\<in>set args. \<exists>v. pats ! a = PLiteral (LBool v) \<or> irrefutable (pats ! a)"
  shows "\<exists>b'. match_pats pats scope args (map VBool bs) b = Some (bs \<in> accepted pats args, b')"
  using assms
proof (induction args arbitrary: bs b)
  case (Cons a args)
  then obtain c cs where bs: "bs = c # cs" by (cases bs) auto
  have IH: "\<exists>b'. match_pats pats scope args (map VBool cs) b = Some (cs \<in> accepted pats args, b')" for b
    using Cons bs by auto
  have "\<exists>b'. match_pat pats scope a (VBool c) b = Some (bool_accepts (pats ! a) c, b')"
    using Cons.prems by (auto simp: match_pat.simps arena_get_def split: Pat.splits)
  with IH show ?case by (fastforce simp: bs accepted_Cons)
qed simp

lemma assignments_loop_patterns:
  assumes "assignments_loop fuel pats pat_types table idx args as = Some (Some out)" and "a \<in> set args"
  shows "a < length pats \<and> (\<exists>v. pats ! a = PLiteral (LBool v) \<or> irrefutable (pats ! a))
    \<and> (\<exists>ty. pat_types a = Some ty \<and> resolve_deep fuel table ty = Some TBool)"
  using assms
proof (induction args arbitrary: idx as)
  case (Cons arg args)
  then show ?case
    by (cases "a = arg") (auto split: option.splits if_splits Pat.splits Literal.splits)
qed simp

lemma bool_assignments_args:
  assumes "bool_assignments fuel args pats pat_types table = Some (Some (arity, out))"
  shows "arity = length args" and "arity \<le> 64" and "set out = bits ` accepted pats args"
    and "\<forall>a\<in>set args. a < length pats \<and> (\<exists>v. pats ! a = PLiteral (LBool v) \<or> irrefutable (pats ! a))
      \<and> (\<exists>ty. pat_types a = Some ty \<and> resolve_deep fuel table ty = Some TBool)"
proof -
  from assms have l: "assignments_loop fuel pats pat_types table 0 args [0] = Some (Some out)"
    by (auto simp: bool_assignments_def split: if_splits)
  show "arity = length args" and "arity \<le> 64" using assms by (auto simp: bool_assignments_def split: if_splits)
  show "set out = bits ` accepted pats args" using assignments_loop_masks [OF l] by auto
  show "\<forall>a\<in>set args. a < length pats \<and> (\<exists>v. pats ! a = PLiteral (LBool v) \<or> irrefutable (pats ! a))
      \<and> (\<exists>ty. pat_types a = Some ty \<and> resolve_deep fuel table ty = Some TBool)"
    using assignments_loop_patterns [OF l] by blast
qed

lemma args_irrefutable_True:
  "args_irrefutable pats args = Some True \<Longrightarrow> a \<in> set args \<Longrightarrow> a < length pats \<and> irrefutable (pats ! a)"
  by (induction args) (auto split: option.splits if_splits)

lemma match_irrefutable:
  assumes "p < length pats" and "irrefutable (pats ! p)"
  shows "\<exists>b'. match_pat pats scope p v b = Some (True, b')"
  using assms by (auto simp: match_pat.simps arena_get_def split: Pat.splits)

lemma match_irrefutable_args:
  assumes "\<And>a. a \<in> set args \<Longrightarrow> a < length pats \<and> irrefutable (pats ! a)" and "length args = length vs"
  shows "\<exists>b'. match_pats pats scope args vs b = Some (True, b')"
  using assms
proof (induction args arbitrary: vs b)
  case (Cons a args)
  then obtain w ws where vs: "vs = w # ws" by (cases vs) auto
  obtain b1 where "match_pat pats scope a w b = Some (True, b1)"
    using match_irrefutable Cons.prems by (metis list.set_intros(1))
  moreover obtain b2 where "match_pats pats scope args ws b1 = Some (True, b2)"
    using Cons vs by fastforce
  ultimately show ?case by (simp add: vs)
qed simp

section \<open>Agreement of the checker and the interpreter\<close>

text \<open>
  The checker finds a constructor by the last segment of its path among the variants of the
  scrutinee's type; the interpreter resolves the path in the module scope.  An arm resolves when
  both give the same variant.
\<close>

definition variant_of :: "AdtExhaustivenessInput \<Rightarrow> VariantDef list \<Rightarrow> Path \<Rightarrow> nat option" where
  "variant_of inp variants path =
     Option.bind (last_opt path)
       (\<lambda>name. position (\<lambda>v. in_interner inp (v_name v) = in_interner inp name) variants)"

definition arm_resolves :: "AdtExhaustivenessInput \<Rightarrow> ModuleScope \<Rightarrow> VariantDef list \<Rightarrow> MatchArm \<Rightarrow> bool" where
  "arm_resolves inp scope variants arm =
     (case in_pats inp ! arm_pat arm of
        PConstructor path args \<Rightarrow>
          (case variant_of inp variants path of
             None \<Rightarrow> True
           | Some vi \<Rightarrow> resolve_constructor_path scope path = Some (in_type_idx inp, vi))
      | _ \<Rightarrow> True)"

text \<open>
  The fields of a value fit an arm when an arm for their variant has as many arguments and an
  argument pattern of type \<open>Bool\<close> meets a boolean.
\<close>

fun is_VBool :: "Value \<Rightarrow> bool" where
  "is_VBool (VBool _) = True"
| "is_VBool _ = False"

definition bool_typed :: "nat \<Rightarrow> AdtExhaustivenessInput \<Rightarrow> PatIdx \<Rightarrow> bool" where
  "bool_typed fuel inp a =
     (case in_pat_types inp a of None \<Rightarrow> False | Some ty \<Rightarrow> resolve_deep fuel (in_table inp) ty = Some TBool)"

definition arm_fits :: "nat \<Rightarrow> AdtExhaustivenessInput \<Rightarrow> VariantDef list \<Rightarrow> nat \<Rightarrow> Value list \<Rightarrow> MatchArm \<Rightarrow> bool" where
  "arm_fits fuel inp variants vi vals arm =
     (case in_pats inp ! arm_pat arm of
        PConstructor path args \<Rightarrow>
          variant_of inp variants path = Some vi \<longrightarrow>
            list_all2 (\<lambda>a v. bool_typed fuel inp a \<longrightarrow> is_VBool v) args vals
      | _ \<Rightarrow> True)"

definition hits :: "AdtExhaustivenessInput \<Rightarrow> ModuleScope \<Rightarrow> MatchArm list \<Rightarrow> Value \<Rightarrow> bool" where
  "hits inp scope arms v \<longleftrightarrow>
     (\<exists>arm\<in>set arms. \<exists>b. match_pat (in_pats inp) scope (arm_pat arm) v [] = Some (True, b))"

definition seen_ok ::
    "AdtExhaustivenessInput \<Rightarrow> ModuleScope \<Rightarrow> MatchArm list \<Rightarrow> nat \<Rightarrow> BoolCoverage \<Rightarrow> bool" where
  "seen_ok inp scope arms vi e \<longleftrightarrow> bc_arity e < 64 \<and>
     bc_seen e \<subseteq> {bits bs |bs. length bs = bc_arity e \<and>
       hits inp scope arms (VAdt (in_type_idx inp) vi (map VBool bs))}"

definition coverage_inv ::
    "nat \<Rightarrow> AdtExhaustivenessInput \<Rightarrow> ModuleScope \<Rightarrow> VariantDef list \<Rightarrow> MatchArm list \<Rightarrow> Coverage \<Rightarrow> bool" where
  "coverage_inv fuel inp scope variants arms st \<longleftrightarrow>
     (has_wildcard st \<longrightarrow> (\<forall>v. hits inp scope arms v)) \<and>
     covered st \<subseteq> {..<length variants} \<and>
     (\<forall>vi\<in>covered st. \<forall>vals. list_all (arm_fits fuel inp variants vi vals) arms \<longrightarrow>
        hits inp scope arms (VAdt (in_type_idx inp) vi vals)) \<and>
     (\<forall>vi e. bool_coverage st vi = Some e \<longrightarrow> seen_ok inp scope arms vi e)"

lemma hits_mono: "hits inp scope arms v \<Longrightarrow> set arms \<subseteq> set arms' \<Longrightarrow> hits inp scope arms' v"
  by (auto simp: hits_def)

lemma hits_snoc:
  "hits inp scope (arms @ [arm]) v \<longleftrightarrow>
     hits inp scope arms v \<or> (\<exists>b. match_pat (in_pats inp) scope (arm_pat arm) v [] = Some (True, b))"
  by (auto simp: hits_def)

lemma seen_ok_more: "seen_ok inp scope arms vi e \<Longrightarrow> seen_ok inp scope (arms @ [arm]) vi e"
  by (auto simp: seen_ok_def hits_snoc)

lemma coverage_inv_more:
  "coverage_inv fuel inp scope variants arms st \<Longrightarrow> coverage_inv fuel inp scope variants (arms @ [arm]) st"
  by (simp add: coverage_inv_def hits_snoc seen_ok_more)

lemma coverage_inv_diags [simp]:
  "coverage_inv fuel inp scope variants arms (push_redundant inp st) =
   coverage_inv fuel inp scope variants arms st"
  by (simp add: coverage_inv_def push_redundant_def)

text \<open>What a constructor arm matches, once it resolves.\<close>

lemma match_constructor:
  assumes "arm_pat arm < length (in_pats inp)" and "in_pats inp ! arm_pat arm = PConstructor path args"
    and "arm_resolves inp scope variants arm" and "variant_of inp variants path = Some vi"
  shows "match_pat (in_pats inp) scope (arm_pat arm) (VAdt ti wi vals) b =
     (if ti = in_type_idx inp \<and> wi = vi \<and> length args = length vals
      then match_pats (in_pats inp) scope args vals b else Some (False, b))"
  using assms by (auto simp: match_pat.simps arena_get_def arm_resolves_def)


section \<open>One arm\<close>

definition redundant_ok ::
    "nat \<Rightarrow> AdtExhaustivenessInput \<Rightarrow> ModuleScope \<Rightarrow> VariantDef list \<Rightarrow> MatchArm list \<Rightarrow> MatchArm \<Rightarrow> bool" where
  "redundant_ok fuel inp scope variants arms arm \<longleftrightarrow>
     (\<forall>vi<length variants. \<forall>vals b. list_all (arm_fits fuel inp variants vi vals) (arms @ [arm]) \<longrightarrow>
        match_pat (in_pats inp) scope (arm_pat arm) (VAdt (in_type_idx inp) vi vals) [] = Some (True, b) \<longrightarrow>
        hits inp scope arms (VAdt (in_type_idx inp) vi vals))"

definition step_ok ::
    "nat \<Rightarrow> AdtExhaustivenessInput \<Rightarrow> ModuleScope \<Rightarrow> VariantDef list \<Rightarrow> MatchArm list \<Rightarrow> MatchArm \<Rightarrow>
     Coverage \<Rightarrow> Coverage \<Rightarrow> bool" where
  "step_ok fuel inp scope variants arms arm st st' \<longleftrightarrow>
     coverage_inv fuel inp scope variants (arms @ [arm]) st' \<and>
     (out_diags st' = out_diags st \<or>
      out_diags st' = out_diags st @ [(RedundantMatchArm, LocExpr (in_match_expr_idx inp))] \<and>
      redundant_ok fuel inp scope variants arms arm)"

lemma step_ok_same: "coverage_inv fuel inp scope variants arms st \<Longrightarrow>
  step_ok fuel inp scope variants arms arm st st"
  by (simp add: step_ok_def coverage_inv_more)

lemma step_ok_redundant: "coverage_inv fuel inp scope variants arms st \<Longrightarrow>
  redundant_ok fuel inp scope variants arms arm \<Longrightarrow>
  step_ok fuel inp scope variants arms arm st (push_redundant inp st)"
  using coverage_inv_more by (simp add: step_ok_def) (simp add: push_redundant_def)

lemma wildcard_redundant: "coverage_inv fuel inp scope variants arms st \<Longrightarrow> has_wildcard st \<Longrightarrow>
  redundant_ok fuel inp scope variants arms arm"
  by (simp add: coverage_inv_def redundant_ok_def)

lemma full_redundant:
  assumes "coverage_inv fuel inp scope variants arms st" and "card (covered st) = length variants"
  shows "redundant_ok fuel inp scope variants arms arm"
proof -
  have "covered st = {..<length variants}"
    using assms by (intro card_subset_eq) (auto simp: coverage_inv_def)
  with assms(1) show ?thesis by (auto simp: coverage_inv_def redundant_ok_def)
qed

lemma covered_redundant:
  assumes "coverage_inv fuel inp scope variants arms st" and "vi \<in> covered st"
    and "arm_pat arm < length (in_pats inp)" and "in_pats inp ! arm_pat arm = PConstructor path args"
    and "arm_resolves inp scope variants arm" and "variant_of inp variants path = Some vi"
  shows "redundant_ok fuel inp scope variants arms arm"
  using assms(1,2) by (auto simp: redundant_ok_def coverage_inv_def match_constructor [OF assms(3-6)]
      split: if_splits)

lemma cover_variant:
  assumes "coverage_inv fuel inp scope variants (arms @ [arm]) st" and "vi < length variants"
    and "\<And>vals. list_all (arm_fits fuel inp variants vi vals) (arms @ [arm]) \<Longrightarrow>
      hits inp scope (arms @ [arm]) (VAdt (in_type_idx inp) vi vals)"
  shows "coverage_inv fuel inp scope variants (arms @ [arm]) (st\<lparr>covered := insert vi (covered st)\<rparr>)"
  using assms by (auto simp: coverage_inv_def)

lemma arm_fits_length:
  assumes "arm_fits fuel inp variants vi vals arm" and "in_pats inp ! arm_pat arm = PConstructor path args"
    and "variant_of inp variants path = Some vi"
  shows "length args = length vals"
  using assms by (auto simp: arm_fits_def dest: list_all2_lengthD)

lemma arm_fits_bools:
  assumes "arm_fits fuel inp variants vi vals arm" and "in_pats inp ! arm_pat arm = PConstructor path args"
    and "variant_of inp variants path = Some vi"
    and "\<forall>a\<in>set args. \<exists>ty. in_pat_types inp a = Some ty \<and> resolve_deep fuel (in_table inp) ty = Some TBool"
  shows "\<exists>bs. vals = map VBool bs \<and> length bs = length args"
proof -
  have "list_all2 (\<lambda>a v. bool_typed fuel inp a \<longrightarrow> is_VBool v) args vals"
    using assms(1-3) by (simp add: arm_fits_def)
  then show ?thesis using assms(4)
  proof (induction args vals rule: list_all2_induct)
    case (Cons a as v vs)
    then obtain bs where "vs = map VBool bs" "length bs = length as" by auto
    moreover have "bool_typed fuel inp a" using Cons.prems by (auto simp: bool_typed_def)
    with Cons.hyps obtain b where "v = VBool b" by (cases v) auto
    ultimately show ?case by (intro exI [of _ "b # bs"]) simp
  qed simp
qed

lemma seen_ok_hits:
  assumes "seen_ok inp scope arms vi e" and "bits bs \<in> bc_seen e" and "length bs = bc_arity e"
  shows "hits inp scope arms (VAdt (in_type_idx inp) vi (map VBool bs))"
proof -
  from assms obtain cs where "bits bs = bits cs" "length cs = bc_arity e"
      "hits inp scope arms (VAdt (in_type_idx inp) vi (map VBool cs))" and "bc_arity e < 64"
    by (auto simp: seen_ok_def)
  with assms(3) bits_inj [of bs "bc_arity e" cs] show ?thesis by simp
qed

lemma seen_ok_full:
  assumes "seen_ok inp scope arms vi e" and "card (bc_seen e) = 2 ^ bc_arity e" and "length bs = bc_arity e"
  shows "hits inp scope arms (VAdt (in_type_idx inp) vi (map VBool bs))"
proof -
  have "bc_seen e = bits ` {bs. length bs = bc_arity e}"
    using assms card_bits [of "bc_arity e"] by (intro card_subset_eq) (auto simp: seen_ok_def)
  with assms show ?thesis by (intro seen_ok_hits) auto
qed

text \<open>A constructor arm all of whose arguments are boolean patterns.\<close>

definition bool_arm ::
    "nat \<Rightarrow> AdtExhaustivenessInput \<Rightarrow> ModuleScope \<Rightarrow> VariantDef list \<Rightarrow> MatchArm \<Rightarrow> nat \<Rightarrow> nat \<Rightarrow> 64 word list \<Rightarrow> bool" where
  "bool_arm fuel inp scope variants arm vi arity out \<longleftrightarrow> vi < length variants \<and>
     (\<forall>wi vals b. match_pat (in_pats inp) scope (arm_pat arm) (VAdt (in_type_idx inp) wi vals) [] = Some (True, b)
        \<longrightarrow> wi = vi) \<and>
     (\<forall>vals. arm_fits fuel inp variants vi vals arm \<longrightarrow> (\<exists>bs. vals = map VBool bs \<and> length bs = arity)) \<and>
     (\<forall>bs. length bs = arity \<longrightarrow>
        ((\<exists>b. match_pat (in_pats inp) scope (arm_pat arm) (VAdt (in_type_idx inp) vi (map VBool bs)) [] =
           Some (True, b)) \<longleftrightarrow> bits bs \<in> set out)) \<and>
     set out \<subseteq> bits ` {bs. length bs = arity}"

lemma bool_armI:
  assumes arm: "arm_pat arm < length (in_pats inp)" "in_pats inp ! arm_pat arm = PConstructor path args"
      "arm_resolves inp scope variants arm" "variant_of inp variants path = Some vi"
    and ba: "bool_assignments fuel args (in_pats inp) (in_pat_types inp) (in_table inp) =
      Some (Some (arity, out))"
  shows "bool_arm fuel inp scope variants arm vi arity out"
  unfolding bool_arm_def
proof (intro conjI allI impI)
  note args = bool_assignments_args [OF ba]
  have len: "bs \<in> accepted (in_pats inp) args \<Longrightarrow> length bs = arity" for bs
    using args(1) by (auto simp: accepted_def dest: list_all2_lengthD)
  show "vi < length variants"
    using arm(4) by (auto simp: variant_of_def bind_eq_Some_conv dest: position_length)
  show "wi = vi" if "match_pat (in_pats inp) scope (arm_pat arm) (VAdt (in_type_idx inp) wi vals) [] =
      Some (True, b)" for wi vals b
    using that by (auto simp: match_constructor [OF arm] split: if_splits)
  show "\<exists>bs. vals = map VBool bs \<and> length bs = arity" if "arm_fits fuel inp variants vi vals arm" for vals
    using arm_fits_bools [OF that arm(2,4)] args(1,4) by auto
  show "set out \<subseteq> bits ` {bs. length bs = arity}" using len args(3) by auto
  show "(\<exists>b. match_pat (in_pats inp) scope (arm_pat arm) (VAdt (in_type_idx inp) vi (map VBool bs)) [] =
      Some (True, b)) \<longleftrightarrow> bits bs \<in> set out" if l: "length bs = arity" for bs
  proof -
    have "bits bs \<in> set out \<longleftrightarrow> bs \<in> accepted (in_pats inp) args"
      using args(2,3) len bits_inj [OF l] by auto
    then show ?thesis
      using match_bool_args [of bs args "in_pats inp" scope "[]"] l args(1,4)
      by (auto simp: match_constructor [OF arm])
  qed
qed

lemma bool_arm_seen:
  assumes "bool_arm fuel inp scope variants arm vi (bc_arity e) out" and "seen_ok inp scope arms vi e"
  shows "seen_ok inp scope (arms @ [arm]) vi (e\<lparr>bc_seen := bc_seen e \<union> set out\<rparr>)"
proof -
  have "set out \<subseteq> {bits bs |bs. length bs = bc_arity e \<and>
      hits inp scope (arms @ [arm]) (VAdt (in_type_idx inp) vi (map VBool bs))}"
    using assms(1) unfolding bool_arm_def hits_snoc by blast
  then show ?thesis using seen_ok_more [OF assms(2), of arm] by (simp add: seen_ok_def)
qed

lemma bool_arm_redundant:
  assumes "bool_arm fuel inp scope variants arm vi (bc_arity e) out" and "seen_ok inp scope arms vi e"
    and "set out \<subseteq> bc_seen e"
  shows "redundant_ok fuel inp scope variants arms arm"
proof (unfold redundant_ok_def, intro allI impI)
  fix wi vals b
  assume fits: "list_all (arm_fits fuel inp variants wi vals) (arms @ [arm])"
    and m: "match_pat (in_pats inp) scope (arm_pat arm) (VAdt (in_type_idx inp) wi vals) [] = Some (True, b)"
  have wi: "wi = vi" using assms(1) m unfolding bool_arm_def by blast
  with fits have "arm_fits fuel inp variants vi vals arm" by simp
  then obtain bs where bs: "vals = map VBool bs" "length bs = bc_arity e"
    using assms(1) unfolding bool_arm_def by blast
  with m wi assms(1) have "bits bs \<in> set out" unfolding bool_arm_def by blast
  with assms(2,3) bs wi show "hits inp scope arms (VAdt (in_type_idx inp) wi vals)"
    using seen_ok_hits by blast
qed

lemma record_assignments_ok:
  assumes inv: "coverage_inv fuel inp scope variants arms st"
    and arm: "bool_arm fuel inp scope variants arm vi arity out"
  shows "step_ok fuel inp scope variants arms arm st (record_assignments inp vi arity out st)"
proof (cases "arity < 64")
  case False
  with inv show ?thesis by (simp add: record_assignments_def checked_shl_def step_ok_same)
next
  case True
  define entry where "entry = (case bool_coverage st vi of Some e \<Rightarrow> e | None \<Rightarrow> \<lparr>bc_arity = arity, bc_seen = {}\<rparr>)"
  have entry: "seen_ok inp scope arms vi entry"
    using inv True by (auto simp: entry_def seen_ok_def coverage_inv_def split: option.splits)
  have put: "coverage_inv fuel inp scope variants (arms @ [arm])
      (st\<lparr>bool_coverage := (bool_coverage st)(vi \<mapsto> e)\<rparr>)"
    if "seen_ok inp scope (arms @ [arm]) vi e" for e
    using coverage_inv_more [OF inv] that by (auto simp: coverage_inv_def)
  show ?thesis
  proof (cases "bc_arity entry = arity")
    case False
    with True put [OF seen_ok_more [OF entry]] show ?thesis
      by (simp add: record_assignments_def checked_shl_def entry_def [symmetric] step_ok_def)
  next
    case same: True
    define e where "e = entry\<lparr>bc_seen := bc_seen entry \<union> set out\<rparr>"
    define st2 where "st2 = st\<lparr>bool_coverage := (bool_coverage st)(vi \<mapsto> e)\<rparr>"
    have e: "seen_ok inp scope (arms @ [arm]) vi e"
      using bool_arm_seen [of fuel inp scope variants arm vi entry] arm entry same by (simp add: e_def)
    have st2: "coverage_inv fuel inp scope variants (arms @ [arm]) st2" "out_diags st2 = out_diags st"
      "covered st2 = covered st"
      using put [OF e] by (simp_all add: st2_def)
    have "record_assignments inp vi arity out st =
        (if set out \<subseteq> bc_seen entry then push_redundant inp st2
         else if card (bc_seen e) = 2 ^ arity then st2\<lparr>covered := insert vi (covered st2)\<rparr> else st2)"
      using True same st2(3)
      by (auto simp: record_assignments_def checked_shl_def entry_def [symmetric] e_def st2_def Let_def)
    moreover have "redundant_ok fuel inp scope variants arms arm" if "set out \<subseteq> bc_seen entry"
      using bool_arm_redundant [OF _ entry that] arm same by simp
    moreover have "coverage_inv fuel inp scope variants (arms @ [arm]) (st2\<lparr>covered := insert vi (covered st2)\<rparr>)"
      if "card (bc_seen e) = 2 ^ arity"
      using arm seen_ok_full [OF e] that same
      by (intro cover_variant [OF st2(1)]) (auto simp: bool_arm_def e_def)
    ultimately show ?thesis using st2 by (auto simp: step_ok_def push_redundant_def coverage_inv_def)
  qed
qed


lemma check_constructor_arm_ok:
  assumes inv: "coverage_inv fuel inp scope variants arms st"
    and arm: "arm_pat arm < length (in_pats inp)" "in_pats inp ! arm_pat arm = PConstructor path args"
      "arm_resolves inp scope variants arm"
    and run: "check_constructor_arm fuel inp variants path args st = Some st'"
  shows "step_ok fuel inp scope variants arms arm st st'"
proof (cases "has_wildcard st \<or> variant_of inp variants path = None")
  case True
  with run inv show ?thesis
    by (auto simp: check_constructor_arm_def variant_of_def bind_eq_None_conv
        intro: step_ok_same step_ok_redundant wildcard_redundant split: option.splits if_splits)
next
  case False
  then obtain vi where vi: "variant_of inp variants path = Some vi" and nw: "\<not> has_wildcard st" by auto
  then have lt: "vi < length variants" by (auto simp: variant_of_def bind_eq_Some_conv dest: position_length)
  have run': "(if vi \<in> covered st then Some (push_redundant inp st)
     else case args_irrefutable (in_pats inp) args of
        None \<Rightarrow> None
      | Some True \<Rightarrow> Some (st\<lparr>covered := insert vi (covered st)\<rparr>)
      | Some False \<Rightarrow>
          (case bool_assignments fuel args (in_pats inp) (in_pat_types inp) (in_table inp) of
             None \<Rightarrow> None
           | Some None \<Rightarrow> Some st
           | Some (Some (arity, out)) \<Rightarrow> Some (record_assignments inp vi arity out st))) = Some st'"
    using run vi nw by (auto simp: check_constructor_arm_def variant_of_def bind_eq_Some_conv)
  have full: "step_ok fuel inp scope variants arms arm st (st\<lparr>covered := insert vi (covered st)\<rparr>)"
    if irr: "args_irrefutable (in_pats inp) args = Some True"
  proof -
    have "hits inp scope (arms @ [arm]) (VAdt (in_type_idx inp) vi vals)"
      if "list_all (arm_fits fuel inp variants vi vals) (arms @ [arm])" for vals
    proof -
      have "length args = length vals" using that arm_fits_length [OF _ arm(2) vi] by auto
      with match_irrefutable_args [of args "in_pats inp" vals scope "[]", OF args_irrefutable_True [OF irr]]
      show ?thesis by (simp add: hits_snoc match_constructor [OF arm vi])
    qed
    then show ?thesis using cover_variant [OF coverage_inv_more [OF inv] lt] by (simp add: step_ok_def)
  qed
  from run' show ?thesis
    using inv full covered_redundant [OF inv _ arm vi] record_assignments_ok [OF inv bool_armI [OF arm vi]]
    by (auto intro: step_ok_same step_ok_redundant split: if_splits option.splits bool.splits)
qed

lemma check_irrefutable_ok:
  assumes inv: "coverage_inv fuel inp scope variants arms st"
    and p: "arm_pat arm < length (in_pats inp)" "irrefutable (in_pats inp ! arm_pat arm)"
    and st': "st' = (if has_wildcard st \<or> card (covered st) = length variants then push_redundant inp st
      else st)\<lparr>has_wildcard := True\<rparr>"
  shows "step_ok fuel inp scope variants arms arm st st'"
proof -
  have "hits inp scope (arms @ [arm]) v" for v
    using match_irrefutable [OF p] by (simp add: hits_snoc)
  then have "coverage_inv fuel inp scope variants (arms @ [arm]) (st\<lparr>has_wildcard := True\<rparr>)"
    using coverage_inv_more [OF inv] by (simp add: coverage_inv_def)
  then show ?thesis
    using wildcard_redundant [OF inv] full_redundant [OF inv]
    by (auto simp: st' step_ok_def push_redundant_def coverage_inv_def)
qed

lemma check_arm_ok:
  assumes inv: "coverage_inv fuel inp scope variants arms st"
    and arm: "arm_resolves inp scope variants arm"
    and run: "check_arm fuel inp variants arm st = Some st'"
  shows "step_ok fuel inp scope variants arms arm st st'"
proof -
  have lt: "arm_pat arm < length (in_pats inp)" using run by (auto simp: check_arm_def split: option.splits)
  consider path args where "in_pats inp ! arm_pat arm = PConstructor path args"
    | "irrefutable (in_pats inp ! arm_pat arm)"
    | "\<not> irrefutable (in_pats inp ! arm_pat arm)" "\<nexists>path args. in_pats inp ! arm_pat arm = PConstructor path args"
    by blast
  then show ?thesis
  proof cases
    case 1
    with run check_constructor_arm_ok [OF inv lt _ arm] show ?thesis
      by (auto simp: check_arm_def split: option.splits)
  next
    case 2
    with run show ?thesis
      by (intro check_irrefutable_ok [OF inv lt]) (auto simp: check_arm_def split: option.splits Pat.splits)
  next
    case 3
    with run have "st' = st" by (auto simp: check_arm_def split: option.splits Pat.splits)
    with step_ok_same [OF inv] show ?thesis by simp
  qed
qed

section \<open>All arms\<close>

lemma check_arms_append:
  "check_arms fuel inp variants (as @ bs) st =
     Option.bind (check_arms fuel inp variants as st) (check_arms fuel inp variants bs)"
  by (induction as arbitrary: st) (auto split: Option.bind_splits)

lemma coverage_init_inv: "coverage_inv fuel inp scope variants [] (coverage_init diags)"
  by (simp add: coverage_inv_def coverage_init_def)

lemma check_arms_inv:
  assumes "check_arms fuel inp variants arms (coverage_init diags) = Some st"
    and "list_all (arm_resolves inp scope variants) arms"
  shows "coverage_inv fuel inp scope variants arms st"
  using assms
proof (induction arms arbitrary: st rule: rev_induct)
  case Nil
  then show ?case using coverage_init_inv by auto
next
  case (snoc arm arms)
  from snoc.prems(1) obtain st1 where "check_arms fuel inp variants arms (coverage_init diags) = Some st1"
      "check_arm fuel inp variants arm st1 = Some st"
    by (auto simp: check_arms_append bind_eq_Some_conv)
  with snoc check_arm_ok show ?case by (fastforce simp: step_ok_def)
qed

lemma record_assignments_diags:
  "out_diags (record_assignments inp vi arity out st) \<in>
     {out_diags st, out_diags st @ [(RedundantMatchArm, LocExpr (in_match_expr_idx inp))]}"
  by (simp add: record_assignments_def push_redundant_def Let_def split: option.split)

lemma check_arm_diags:
  assumes "check_arm fuel inp variants arm st = Some st'"
  shows "out_diags st' \<in> {out_diags st, out_diags st @ [(RedundantMatchArm, LocExpr (in_match_expr_idx inp))]}"
  using assms
  by (auto simp: check_arm_def check_constructor_arm_def push_redundant_def Let_def
      split: option.splits Pat.splits if_splits bool.splits)
    (use record_assignments_diags in blast)

lemma check_arms_diags:
  assumes "check_arms fuel inp variants arms st = Some st'"
  shows "\<exists>n. out_diags st' = out_diags st @ replicate n (RedundantMatchArm, LocExpr (in_match_expr_idx inp))"
  using assms
proof (induction arms arbitrary: st)
  case Nil
  then show ?case by (auto intro: exI [of _ 0])
next
  case (Cons arm arms)
  then obtain st1 where "check_arm fuel inp variants arm st = Some st1" and
    "check_arms fuel inp variants arms st1 = Some st'"
    by (auto simp: bind_eq_Some_conv)
  with Cons.IH check_arm_diags show ?case by (fastforce simp: replicate_Suc [symmetric] simp del: replicate_Suc)
qed

lemma hits_select:
  assumes "hits inp scope arms v" and "\<And>arm. arm \<in> set arms \<Longrightarrow> match_pat (in_pats inp) scope (arm_pat arm) v [] \<noteq> None"
  shows "\<exists>arm b. arm \<in> set arms \<and> select_arm (in_pats inp) scope v arms = Some (Inr (arm, b))"
  using assms
proof (induction arms)
  case (Cons arm arms)
  obtain ok b where r: "match_pat (in_pats inp) scope (arm_pat arm) v [] = Some (ok, b)"
    using Cons.prems(2) [of arm] by auto
  show ?case
  proof (cases ok)
    case False
    with Cons r have "\<exists>arm b. arm \<in> set arms \<and> select_arm (in_pats inp) scope v arms = Some (Inr (arm, b))"
      by (auto simp: hits_def)
    with False r show ?thesis by auto
  qed (use r in auto)
qed (simp add: hits_def)

text \<open>Matching returns when every index of the pattern arena is in range.\<close>

definition arena_ok :: "Pat list \<Rightarrow> bool" where
  "arena_ok pats = list_all (\<lambda>p. case p of PConstructor _ args \<Rightarrow> list_all (\<lambda>a. a < length pats) args | _ \<Rightarrow> True) pats"

lemma arena_okD: "arena_ok pats \<Longrightarrow> p < length pats \<Longrightarrow> pats ! p = PConstructor path args \<Longrightarrow>
  list_all (\<lambda>a. a < length pats) args"
  by (auto simp: arena_ok_def list_all_length)

lemma match_returns:
  shows "arena_ok pats \<Longrightarrow> p < length pats \<Longrightarrow> match_pat pats scope p v b \<noteq> None"
    and "arena_ok pats \<Longrightarrow> list_all (\<lambda>a. a < length pats) ps \<Longrightarrow> match_pats pats scope ps vs b \<noteq> None"
proof (induction pats scope p v b and pats scope ps vs b rule: match_pat_match_pats.induct)
  case (1 pats scope p v b)
  then show ?case
    by (subst match_pat.simps) (auto simp: arena_get_def arena_okD split: Pat.splits Value.splits option.splits)
next
  case (2 pats scope p ps v vs b)
  then obtain ok b' where "match_pat pats scope p v b = Some (ok, b')" by auto
  with 2 show ?case by auto
qed auto


lemma select_arm_append:
  "select_arm pats scope v (as @ bs) =
     (case select_arm pats scope v as of Some (Inl _) \<Rightarrow> select_arm pats scope v bs | r \<Rightarrow> r)"
  by (induction as) (auto split: option.splits sum.splits)

section \<open>The check returns\<close>

lemma resolve_deep_returns:
  assumes "wf_table T" and "scoped T ty"
  shows "\<exists>N. \<forall>n\<ge>N. resolve_deep n T ty \<noteq> None"
proof -
  obtain c where c: "canon T c" using canon_exists [OF assms(1)] by blast
  obtain d where d: "depth_le d (inst c ty)" using depth_le_exists by blast
  have "resolve_deep n T ty \<noteq> None" if "Suc d \<le> n" for n
  proof -
    from that obtain m where m: "n = Suc m" "d \<le> m" by (cases n) auto
    with d have "depth_le m (inst c ty)" using depth_le_mono by blast
    with resolve_deep_spec [OF assms(1) c assms(2)] m(1) show ?thesis by fastforce
  qed
  then show ?thesis by blast
qed

lemma eventually_all:
  assumes "finite A" and "\<And>x. x \<in> A \<Longrightarrow> \<exists>N :: nat. \<forall>n\<ge>N. P n x"
  shows "\<exists>N. \<forall>n\<ge>N. \<forall>x\<in>A. P n x"
  using assms
proof (induction A rule: finite_induct)
  case (insert x A)
  then obtain N M where "\<forall>n\<ge>N. \<forall>x\<in>A. P n x" and "\<forall>n\<ge>M. P n x" by fastforce
  then have "\<forall>n\<ge>max N M. \<forall>y\<in>insert x A. P n y" by auto
  then show ?case by blast
qed simp

definition types_resolve :: "nat \<Rightarrow> AdtExhaustivenessInput \<Rightarrow> bool" where
  "types_resolve fuel inp \<longleftrightarrow> (\<forall>a<length (in_pats inp). \<forall>ty. in_pat_types inp a = Some ty \<longrightarrow>
     resolve_deep fuel (in_table inp) ty \<noteq> None)"

lemma types_resolve_eventually:
  assumes "wf_table (in_table inp)" and "\<And>a ty. in_pat_types inp a = Some ty \<Longrightarrow> scoped (in_table inp) ty"
  shows "\<exists>N. \<forall>n\<ge>N. types_resolve n inp"
proof -
  have "\<exists>N. \<forall>n\<ge>N. \<forall>a\<in>{..<length (in_pats inp)}. \<forall>ty. in_pat_types inp a = Some ty \<longrightarrow>
      resolve_deep n (in_table inp) ty \<noteq> None"
  proof (rule eventually_all)
    fix a
    show "\<exists>N. \<forall>n\<ge>N. \<forall>ty. in_pat_types inp a = Some ty \<longrightarrow> resolve_deep n (in_table inp) ty \<noteq> None"
      using resolve_deep_returns [OF assms(1) assms(2)] by (cases "in_pat_types inp a") auto
  qed simp
  then show ?thesis by (simp add: types_resolve_def Ball_def)
qed

lemma assignments_loop_returns:
  assumes "types_resolve fuel inp" and "list_all (\<lambda>a. a < length (in_pats inp)) args"
  shows "assignments_loop fuel (in_pats inp) (in_pat_types inp) (in_table inp) idx args as \<noteq> None"
  using assms(2)
proof (induction args arbitrary: idx as)
  case (Cons a args)
  with assms(1) show ?case
    by (auto simp: types_resolve_def arena_get_def split: option.splits Pat.splits Literal.splits)
qed simp

lemma args_irrefutable_returns:
  "list_all (\<lambda>a. a < length pats) args \<Longrightarrow> args_irrefutable pats args \<noteq> None"
  by (induction args) (auto simp: arena_get_def)

lemma check_arm_returns:
  assumes "types_resolve fuel inp" and "arena_ok (in_pats inp)" and "arm_pat arm < length (in_pats inp)"
  shows "check_arm fuel inp variants arm st \<noteq> None"
proof (cases "in_pats inp ! arm_pat arm")
  case (PConstructor path args)
  have ok: "list_all (\<lambda>a. a < length (in_pats inp)) args" using arena_okD [OF assms(2,3) PConstructor] .
  have "bool_assignments fuel args (in_pats inp) (in_pat_types inp) (in_table inp) \<noteq> None"
    using assignments_loop_returns [OF assms(1) ok] by (auto simp: bool_assignments_def)
  with PConstructor assms(3) args_irrefutable_returns [OF ok] show ?thesis
    by (auto simp: check_arm_def arena_get_def check_constructor_arm_def split: option.splits bool.splits)
qed (use assms(3) in \<open>auto simp: check_arm_def arena_get_def Let_def\<close>)

lemma check_arms_returns:
  assumes "types_resolve fuel inp" and "arena_ok (in_pats inp)"
    and "list_all (\<lambda>arm. arm_pat arm < length (in_pats inp)) arms"
  shows "check_arms fuel inp variants arms st \<noteq> None"
  using assms(3)
proof (induction arms arbitrary: st)
  case (Cons arm arms)
  then obtain st1 where "check_arm fuel inp variants arm st = Some st1"
    using check_arm_returns [OF assms(1,2)] by fastforce
  with Cons show ?case by auto
qed simp

end
