(* ===== verification/Match_Properties.thy ===== *)
theory Match_Properties
  imports Exhaustive_Correct
begin

text \<open>
  The checker of match arms against the interpreter that runs them.
\<close>

lemma check_exhaustiveness_run:
  assumes "check_exhaustiveness fuel inp diags = Some out"
    and "ti_kind (in_types inp ! in_type_idx inp) = AdtDef variants"
  shows "\<exists>st n. check_arms fuel inp variants (in_arms inp) (coverage_init diags) = Some st \<and>
    out = diags @ replicate n (RedundantMatchArm, LocExpr (in_match_expr_idx inp)) @
      (if \<not> has_wildcard st \<and> card (covered st) < length variants
       then [(MissingMatchArms (missing_variants inp variants (covered st)), LocExpr (in_match_expr_idx inp))]
       else [])"
proof -
  from assms obtain st where st: "check_arms fuel inp variants (in_arms inp) (coverage_init diags) = Some st"
    and out: "out = (if \<not> has_wildcard st \<and> card (covered st) < length variants
       then out_diags st @
         [(MissingMatchArms (missing_variants inp variants (covered st)), LocExpr (in_match_expr_idx inp))]
       else out_diags st)"
    by (auto simp: check_exhaustiveness_def split: option.splits)
  from check_arms_diags [OF st] show ?thesis using st out by (auto simp: coverage_init_def)
qed

text \<open>
  C8. A match the checker accepts is exhaustive when it runs: if the check of the arms reports no
  missing arm and every constructor pattern resolves in the module scope to the variant the checker
  took it for, then on every value of the type whose fields fit the types of the patterns the
  interpreter selects an arm, and does not fail.
\<close>

theorem accepted_match_selects_an_arm:
  assumes "check_exhaustiveness fuel inp [] = Some diags" and "list_all (\<lambda>(d, _). d = RedundantMatchArm) diags"
    and "ti_kind (in_types inp ! in_type_idx inp) = AdtDef variants" and "arena_ok (in_pats inp)"
    and "list_all (\<lambda>arm. arm_pat arm < length (in_pats inp)) (in_arms inp)"
    and "list_all (arm_resolves inp scope variants) (in_arms inp)"
    and "vi < length variants" and "list_all (arm_fits fuel inp variants vi vals) (in_arms inp)"
  shows "\<exists>arm b. arm \<in> set (in_arms inp) \<and>
    select_arm (in_pats inp) scope (VAdt (in_type_idx inp) vi vals) (in_arms inp) = Some (Inr (arm, b))"
proof (rule hits_select)
  obtain st n where st: "check_arms fuel inp variants (in_arms inp) (coverage_init []) = Some st"
    and out: "diags = replicate n (RedundantMatchArm, LocExpr (in_match_expr_idx inp)) @
      (if \<not> has_wildcard st \<and> card (covered st) < length variants
       then [(MissingMatchArms (missing_variants inp variants (covered st)), LocExpr (in_match_expr_idx inp))]
       else [])"
    using check_exhaustiveness_run [OF assms(1,3)] by auto
  have inv: "coverage_inv fuel inp scope variants (in_arms inp) st"
    using check_arms_inv [OF st assms(6)] .
  show "hits inp scope (in_arms inp) (VAdt (in_type_idx inp) vi vals)"
  proof (cases "has_wildcard st")
    case True
    with inv show ?thesis by (simp add: coverage_inv_def)
  next
    case False
    with out assms(2) have "length variants \<le> card (covered st)" by (auto split: if_splits)
    then have "covered st = {..<length variants}"
      using inv by (intro card_seteq) (auto simp: coverage_inv_def)
    with inv assms(7,8) show ?thesis by (auto simp: coverage_inv_def)
  qed
  show "match_pat (in_pats inp) scope (arm_pat arm) (VAdt (in_type_idx inp) vi vals) [] \<noteq> None"
    if "arm \<in> set (in_arms inp)" for arm
    using that assms(4,5) match_returns(1) by (metis list_all_iff)
qed

definition flag_variants :: "VariantDef list" where
  "flag_variants = [\<lparr>v_name = 0, v_fields = [TRPath [5] []]\<rparr>, \<lparr>v_name = 1, v_fields = []\<rparr>]"

definition flag_item :: TypeItem where
  "flag_item = \<lparr>ti_name = 9, ti_type_params = [], ti_kind = AdtDef flag_variants\<rparr>"

definition flag_name :: "Name \<Rightarrow> string" where
  "flag_name n = (if n = 0 then ''Some'' else if n = 1 then ''None'' else if n = 2 then ''Nope'' else ''S'')"

definition flag_scope :: ModuleScope where
  "flag_scope = \<lparr>ms_types = Map.empty, ms_type_variants = Map.empty,
     ms_constructors = [0 \<mapsto> (0, 0), 1 \<mapsto> (0, 1), 3 \<mapsto> (0, 0)], ms_imports = Map.empty,
     ms_namespaces = Map.empty, ms_synthetic_modules = Map.empty, ms_imported_modules = {}\<rparr>"

definition flag_match :: "Pat list \<Rightarrow> MatchArm list \<Rightarrow> AdtExhaustivenessInput" where
  "flag_match pats arms = \<lparr>in_type_idx = 0, in_arms = arms, in_pats = pats,
     in_pat_types = [0 \<mapsto> TBool, 1 \<mapsto> TBool, 5 \<mapsto> TBool], in_table = [],
     in_types = [flag_item], in_interner = flag_name, in_match_expr_idx = 7\<rparr>"

definition flag_pats :: "Pat list" where
  "flag_pats = [PLiteral (LBool True), PLiteral (LBool False), PConstructor [0] [0], PConstructor [0] [1],
     PConstructor [1] [], PWildcard, PConstructor [0] [5]]"

definition arms_at :: "nat list \<Rightarrow> MatchArm list" where
  "arms_at = map (\<lambda>p. \<lparr>arm_pat = p, arm_body = p\<rparr>)"

lemma flag_match_inputs:
  "ti_kind (in_types (flag_match flag_pats arms) ! in_type_idx (flag_match flag_pats arms)) = AdtDef flag_variants"
  "arena_ok (in_pats (flag_match flag_pats arms))"
  by (simp_all add: flag_match_def flag_item_def flag_pats_def arena_ok_def)

theorem accepted_match_selects_an_arm_witness:
  "\<exists>arm b. arm \<in> set (arms_at [2, 4, 3]) \<and>
    select_arm flag_pats flag_scope (VAdt 0 0 [VBool False]) (arms_at [2, 4, 3]) = Some (Inr (arm, b))"
proof -
  let ?inp = "flag_match flag_pats (arms_at [2, 4, 3])"
  have run: "check_exhaustiveness 1 ?inp [] = Some []" by code_simp
  have arms: "list_all (\<lambda>arm. arm_pat arm < length (in_pats ?inp)) (in_arms ?inp)"
    and paths: "list_all (arm_resolves ?inp flag_scope flag_variants) (in_arms ?inp)"
    and fits: "list_all (arm_fits 1 ?inp flag_variants 0 [VBool False]) (in_arms ?inp)"
    by code_simp+
  have "\<exists>arm b. arm \<in> set (in_arms ?inp) \<and> select_arm (in_pats ?inp) flag_scope
      (VAdt (in_type_idx ?inp) 0 [VBool False]) (in_arms ?inp) = Some (Inr (arm, b))"
    by (rule accepted_match_selects_an_arm [OF run _ flag_match_inputs arms paths _ fits])
      (simp_all add: flag_variants_def)
  then show ?thesis by (simp add: flag_match_def)
qed

text \<open>
  C9. An arm reported as redundant is never reached: whenever the check of an arm adds a diagnostic,
  leaving that arm out changes neither the selected arm nor the outcome of the match, on any value
  of the type whose fields fit the patterns.
\<close>

theorem redundant_arm_unreachable:
  assumes "check_arms fuel inp variants arms (coverage_init diags) = Some st"
    and "check_arm fuel inp variants arm st = Some st'" and "out_diags st' \<noteq> out_diags st"
    and "arena_ok (in_pats inp)" and "list_all (\<lambda>arm. arm_pat arm < length (in_pats inp)) arms"
    and "list_all (arm_resolves inp scope variants) (arms @ [arm])"
    and "vi < length variants" and "list_all (arm_fits fuel inp variants vi vals) (arms @ [arm])"
  shows "select_arm (in_pats inp) scope (VAdt (in_type_idx inp) vi vals) (arms @ arm # rest) =
    select_arm (in_pats inp) scope (VAdt (in_type_idx inp) vi vals) (arms @ rest)"
proof (cases "hits inp scope arms (VAdt (in_type_idx inp) vi vals)")
  case True
  then obtain a b where "select_arm (in_pats inp) scope (VAdt (in_type_idx inp) vi vals) arms = Some (Inr (a, b))"
    using hits_select assms(4,5) match_returns(1) by (metis (no_types, lifting) list_all_iff)
  then show ?thesis by (simp add: select_arm_append)
next
  case False
  have "coverage_inv fuel inp scope variants arms st"
    using check_arms_inv [OF assms(1)] assms(6) by simp
  then have "redundant_ok fuel inp scope variants arms arm"
    using check_arm_ok [OF _ _ assms(2)] assms(3,6) by (auto simp: step_ok_def)
  with False assms(7,8) have no: "match_pat (in_pats inp) scope (arm_pat arm) (VAdt (in_type_idx inp) vi vals) [] \<noteq>
      Some (True, b)" for b
    unfolding redundant_ok_def by blast
  have "arm_pat arm < length (in_pats inp)" using assms(2) by (auto simp: check_arm_def split: option.splits)
  with match_returns(1) [OF assms(4)] no
  obtain b where "match_pat (in_pats inp) scope (arm_pat arm) (VAdt (in_type_idx inp) vi vals) [] = Some (False, b)"
    by (metis (full_types) not_None_eq surj_pair)
  then show ?thesis by (simp add: select_arm_append split: option.split sum.split)
qed

theorem redundant_arm_unreachable_witness:
  "select_arm flag_pats flag_scope (VAdt 0 0 [VBool True]) (arms_at [2, 3] @ hd (arms_at [6]) # arms_at [4]) =
   select_arm flag_pats flag_scope (VAdt 0 0 [VBool True]) (arms_at [2, 3] @ arms_at [4])"
proof -
  let ?inp = "flag_match flag_pats []"
  have "case check_arms 1 ?inp flag_variants (arms_at [2, 3]) (coverage_init []) of
      None \<Rightarrow> False
    | Some st \<Rightarrow> (case check_arm 1 ?inp flag_variants (hd (arms_at [6])) st of
        None \<Rightarrow> False
      | Some st' \<Rightarrow> out_diags st' \<noteq> out_diags st)"
    by code_simp
  then obtain st st' where st: "check_arms 1 ?inp flag_variants (arms_at [2, 3]) (coverage_init []) = Some st"
    "check_arm 1 ?inp flag_variants (hd (arms_at [6])) st = Some st'" "out_diags st' \<noteq> out_diags st"
    by (auto split: option.splits)
  have arms: "list_all (\<lambda>arm. arm_pat arm < length (in_pats ?inp)) (arms_at [2, 3])"
    and paths: "list_all (arm_resolves ?inp flag_scope flag_variants) (arms_at [2, 3] @ [hd (arms_at [6])])"
    and fits: "list_all (arm_fits 1 ?inp flag_variants 0 [VBool True]) (arms_at [2, 3] @ [hd (arms_at [6])])"
    by code_simp+
  have "select_arm (in_pats ?inp) flag_scope (VAdt (in_type_idx ?inp) 0 [VBool True])
      (arms_at [2, 3] @ hd (arms_at [6]) # arms_at [4]) =
    select_arm (in_pats ?inp) flag_scope (VAdt (in_type_idx ?inp) 0 [VBool True]) (arms_at [2, 3] @ arms_at [4])"
    by (rule redundant_arm_unreachable [OF st flag_match_inputs(2) arms paths _ fits])
      (simp add: flag_variants_def)
  then show ?thesis by (simp add: flag_match_def)
qed

text \<open>
  The check of a match returns: on a well-formed table, pattern types over its variables and
  indices in range, every fuel from some bound on gives its diagnostics.
\<close>

theorem exhaustiveness_check_returns:
  assumes "wf_table (in_table inp)" and "ran (in_pat_types inp) \<subseteq> {ty. scoped (in_table inp) ty}"
    and "arena_ok (in_pats inp)" and "list_all (\<lambda>arm. arm_pat arm < length (in_pats inp)) (in_arms inp)"
    and "in_type_idx inp < length (in_types inp)"
  shows "\<exists>N. \<forall>n\<ge>N. \<exists>out. check_exhaustiveness n inp diags = Some out"
proof -
  obtain N where N: "\<forall>n\<ge>N. types_resolve n inp"
    using types_resolve_eventually [OF assms(1)] assms(2) by (auto simp: ran_def)
  have "\<exists>out. check_exhaustiveness n inp diags = Some out" if "N \<le> n" for n
  proof (cases "ti_kind (in_types inp ! in_type_idx inp)")
    case (AdtDef variants)
    with check_arms_returns [OF _ assms(3,4)] N that assms(5) show ?thesis
      by (auto simp: check_exhaustiveness_def arena_get_def)
  qed (use assms(5) in \<open>auto simp: check_exhaustiveness_def arena_get_def\<close>)
  then show ?thesis by blast
qed

section \<open>Paths of constructor patterns\<close>

text \<open>The pattern with another path for its constructor.\<close>

fun with_path :: "(Path \<Rightarrow> Path) \<Rightarrow> Pat \<Rightarrow> Pat" where
  "with_path f (PConstructor path args) = PConstructor (f path) args"
| "with_path f p = p"




lemma irrefutable_with_path [simp]: "irrefutable (with_path f p) = irrefutable p"
  by (cases p) simp_all










end
