(* ===== verification/Type_Resolve.thy ===== *)
theory Type_Resolve
  imports Hir Unify
begin

text \<open>
  From surface type references to types (\<open>hir-ty/src/resolve.rs\<close>), and effect sets
  (\<open>hir-ty/src/effects.rs\<close>).  The environment's item tree is its arena of type definitions.
  An index outside that arena is a panic, \<^const>\<open>None\<close>.  The recursion ends because every alias is
  expanded at most once on a branch: the termination proof is over the aliases not yet being
  resolved and then the size of the reference.
\<close>

record TyResolutionEnv =
  env_types :: "TypeItem list"
  env_scope :: ModuleScope
  env_interner :: "Name \<Rightarrow> string"
  env_type_params :: "(Name \<times> Ty) list"
  env_resolving :: "TypeItemIdx list"

fun fresh_vars :: "'a list \<Rightarrow> UnificationTable \<Rightarrow> Ty list \<times> UnificationTable" where
  "fresh_vars [] T = ([], T)"
| "fresh_vars (_ # ps) T =
     (let (v, T1) = fresh_var T; (vs, T2) = fresh_vars ps T1 in (v # vs, T2))"

text \<open>
  The body a definition is expanded to: that of an alias, unless it is a record type, which keeps
  its name.
\<close>

definition alias_body :: "TypeItem \<Rightarrow> TypeRef option" where
  "alias_body item =
     (case ti_kind item of
        AliasDef (TRRecord _) \<Rightarrow> None
      | AliasDef inner \<Rightarrow> Some inner
      | _ \<Rightarrow> None)"

definition open_aliases :: "TyResolutionEnv \<Rightarrow> nat" where
  "open_aliases env = card ({..<length (env_types env)} - set (env_resolving env))"

lemma open_aliases_push:
  assumes "type_idx < length (env_types env)" and "type_idx \<notin> set (env_resolving env)"
  shows "open_aliases (env\<lparr>env_type_params := ps, env_resolving := env_resolving env @ [type_idx]\<rparr>) < open_aliases env"
  unfolding open_aliases_def using assms by (intro psubset_card_mono) auto

section \<open>Resolving references\<close>

function (sequential)
  resolve_type_ref :: "TyResolutionEnv \<Rightarrow> TypeRef \<Rightarrow> UnificationTable \<Rightarrow> (Ty \<times> UnificationTable) option"
and resolve_type_item ::
    "TyResolutionEnv \<Rightarrow> TypeItemIdx \<Rightarrow> TypeRef list \<Rightarrow> UnificationTable \<Rightarrow> (Ty \<times> UnificationTable) option"
and resolve_type_refs ::
    "TyResolutionEnv \<Rightarrow> TypeRef list \<Rightarrow> UnificationTable \<Rightarrow> (Ty list \<times> UnificationTable) option"
and resolve_fields ::
    "TyResolutionEnv \<Rightarrow> (Name \<times> TypeRef) list \<Rightarrow> UnificationTable \<Rightarrow>
     ((Name \<times> Ty) list \<times> UnificationTable) option"
and bind_type_args ::
    "TyResolutionEnv \<Rightarrow> Name list \<Rightarrow> TypeRef list \<Rightarrow> UnificationTable \<Rightarrow>
     ((Name \<times> Ty) list \<times> UnificationTable) option"
where
  "resolve_type_ref env TRError T = Some (TError, T)"
| "resolve_type_ref env (TRPath path args) T =
     (case path of
        [name] \<Rightarrow>
          (case resolve_builtin (env_interner env name) of
             Some builtin \<Rightarrow> Some (builtin, T)
           | None \<Rightarrow>
               (case map_of (env_type_params env) name of
                  Some ty \<Rightarrow> Some (ty, T)
                | None \<Rightarrow>
                    (case ms_types (env_scope env) name of
                       Some type_idx \<Rightarrow> resolve_type_item env type_idx args T
                     | None \<Rightarrow> Some (TError, T))))
      | _ \<Rightarrow>
          (case resolve_type_path (env_scope env) path of
             Some type_idx \<Rightarrow> resolve_type_item env type_idx args T
           | None \<Rightarrow> Some (TError, T)))"
| "resolve_type_ref env (TRFn params ret) T =
     do { (ps, T1) \<leftarrow> resolve_type_refs env params T;
          (r, T2) \<leftarrow> resolve_type_ref env ret T1;
          Some (TFn ps r, T2) }"
| "resolve_type_ref env (TRRecord fds) T =
     do { (fs, T1) \<leftarrow> resolve_fields env fds T;
          Some (TRecord fs, T1) }"
| "resolve_type_ref env (TRRefined _ base _) T = resolve_type_ref env base T"
| "resolve_type_item env type_idx args T =
     (if type_idx \<in> set (env_resolving env) then Some (TError, T)
      else
        case arena_get (env_types env) type_idx of
          None \<Rightarrow> None
        | Some item \<Rightarrow>
            (case alias_body item of
               Some inner \<Rightarrow>
                 do { (bound, T1) \<leftarrow> bind_type_args env (ti_type_params item) args T;
                      resolve_type_ref
                        (env\<lparr>env_type_params := env_type_params env @ bound,
                             env_resolving := env_resolving env @ [type_idx]\<rparr>) inner T1 }
             | None \<Rightarrow>
                 if args = [] \<and> ti_type_params item \<noteq> []
                 then let (vs, T1) = fresh_vars (ti_type_params item) T in Some (TAdt type_idx vs, T1)
                 else do { (ts, T1) \<leftarrow> resolve_type_refs env args T; Some (TAdt type_idx ts, T1) }))"
| "resolve_type_refs env [] T = Some ([], T)"
| "resolve_type_refs env (r # rs) T =
     do { (t, T1) \<leftarrow> resolve_type_ref env r T;
          (ts, T2) \<leftarrow> resolve_type_refs env rs T1;
          Some (t # ts, T2) }"
| "resolve_fields env [] T = Some ([], T)"
| "resolve_fields env ((n, r) # rs) T =
     do { (t, T1) \<leftarrow> resolve_type_ref env r T;
          (ts, T2) \<leftarrow> resolve_fields env rs T1;
          Some ((n, t) # ts, T2) }"
| "bind_type_args env [] args T = Some ([], T)"
| "bind_type_args env (p # ps) [] T =
     (let (v, T1) = fresh_var T
      in do { (bs, T2) \<leftarrow> bind_type_args env ps [] T1; Some ((p, v) # bs, T2) })"
| "bind_type_args env (p # ps) (a # as) T =
     do { (t, T1) \<leftarrow> resolve_type_ref env a T;
          (bs, T2) \<leftarrow> bind_type_args env ps as T1;
          Some ((p, t) # bs, T2) }"
  by pat_completeness auto
termination
  by (relation "measures
      [\<lambda>x. case x of Inl (Inl (env, _)) \<Rightarrow> open_aliases env | Inl (Inr (env, _)) \<Rightarrow> open_aliases env
         | Inr (Inl (env, _)) \<Rightarrow> open_aliases env | Inr (Inr (Inl (env, _))) \<Rightarrow> open_aliases env
         | Inr (Inr (Inr (env, _))) \<Rightarrow> open_aliases env,
       \<lambda>x. case x of Inl (Inl (_, r, _)) \<Rightarrow> 3 * size r | Inl (Inr (_, _, args, _)) \<Rightarrow> 3 * size_list size args + 2
         | Inr (Inl (_, rs, _)) \<Rightarrow> 3 * size_list size rs + 1
         | Inr (Inr (Inl (_, fs, _))) \<Rightarrow> 3 * size_list (size_prod (\<lambda>_. 0) size) fs + 1
         | Inr (Inr (Inr (_, _, args, _))) \<Rightarrow> 3 * size_list size args + 1,
       \<lambda>x. case x of Inr (Inr (Inr (_, ps, _))) \<Rightarrow> length ps | _ \<Rightarrow> 0]")
    (auto simp: open_aliases_push)

section \<open>Instantiating signatures\<close>

record FnSig =
  fs_type_params :: "Name list"
  fs_params :: "TypeRef list"
  fs_ret_type :: "TypeRef option"

definition inner_env :: "TyResolutionEnv \<Rightarrow> Name list \<Rightarrow> Ty list \<Rightarrow> TyResolutionEnv" where
  "inner_env env names vars =
     env\<lparr>env_type_params := env_type_params env @ zip names vars, env_resolving := []\<rparr>"

definition instantiate_fn_sig ::
    "FnSig \<Rightarrow> TyResolutionEnv \<Rightarrow> UnificationTable \<Rightarrow> ((Ty list \<times> Ty) \<times> UnificationTable) option" where
  "instantiate_fn_sig fn_item env T =
     (let (vars, T1) = fresh_vars (fs_type_params fn_item) T;
          inner = inner_env env (fs_type_params fn_item) vars
      in do { (param_tys, T2) \<leftarrow> resolve_type_refs inner (fs_params fn_item) T1;
              case fs_ret_type fn_item of
                None \<Rightarrow> Some ((param_tys, TUnit), T2)
              | Some r \<Rightarrow> do { (ret_ty, T3) \<leftarrow> resolve_type_ref inner r T2; Some ((param_tys, ret_ty), T3) } })"

definition instantiate_constructor ::
    "TypeItemIdx \<Rightarrow> nat \<Rightarrow> TyResolutionEnv \<Rightarrow> UnificationTable \<Rightarrow> ((Ty list \<times> Ty) \<times> UnificationTable) option" where
  "instantiate_constructor type_idx variant_idx env T =
     (case arena_get (env_types env) type_idx of
        None \<Rightarrow> None
      | Some item \<Rightarrow>
          let (vars, T1) = fresh_vars (ti_type_params item) T;
              inner = inner_env env (ti_type_params item) vars
          in (case ti_kind item of
                AdtDef variants \<Rightarrow>
                  (case arena_get variants variant_idx of
                     None \<Rightarrow> Some (([], TError), T1)
                   | Some variant \<Rightarrow>
                       do { (field_tys, T2) \<leftarrow> resolve_type_refs inner (v_fields variant) T1;
                            Some ((field_tys, TAdt type_idx vars), T2) })
              | RecordDef fds \<Rightarrow>
                  do { (field_tys, T2) \<leftarrow> resolve_type_refs inner (map snd fds) T1;
                       Some ((field_tys, TAdt type_idx vars), T2) }
              | AliasDef _ \<Rightarrow> Some (([], TAdt type_idx vars), T1)))"

section \<open>Effects\<close>

type_synonym EffectSet = "Name set"

fun from_with_effects :: "TypeRef list \<Rightarrow> EffectSet" where
  "from_with_effects [] = {}"
| "from_with_effects (TRPath path _ # rs) =
     (case last_opt path of
        Some name \<Rightarrow> insert name (from_with_effects rs)
      | None \<Rightarrow> from_with_effects rs)"
| "from_with_effects (_ # rs) = from_with_effects rs"

definition missing_from :: "EffectSet \<Rightarrow> EffectSet \<Rightarrow> Name set" where
  "missing_from effects allowed = {c \<in> effects. c \<notin> allowed}"

end
