(* ===== verification/Resolve_Properties.thy ===== *)
theory Resolve_Properties
  imports Type_Resolve Unify_Correct
begin

text \<open>
  Resolution of type references: it returns, allocates fresh variables only and stays inside the
  table; the capture of type parameters; and effect sets.
\<close>

section \<open>Tables extended by fresh variables\<close>

definition grown :: "UnificationTable \<Rightarrow> UnificationTable \<Rightarrow> bool" where
  "grown T T' \<longleftrightarrow> (\<exists>k. T' = T @ replicate k None)"

lemma grown_refl [simp, intro]: "grown T T"
  by (auto simp: grown_def intro: exI [of _ 0])

lemma grown_trans [trans]: "grown T T1 \<Longrightarrow> grown T1 T2 \<Longrightarrow> grown T T2"
  by (auto simp: grown_def replicate_add [symmetric])

lemma grown_snoc [simp, intro]: "grown T (T @ [None])"
  by (auto simp: grown_def intro: exI [of _ 1])

lemma grown_length: "grown T T' \<Longrightarrow> length T \<le> length T'"
  by (auto simp: grown_def)

lemma subset_grown: "A \<subseteq> {..<length T} \<Longrightarrow> grown T T' \<Longrightarrow> A \<subseteq> {..<length T'}"
  using grown_length by fastforce

lemma scoped_grown: "scoped T ty \<Longrightarrow> grown T T' \<Longrightarrow> scoped T' ty"
  using grown_length by (fastforce simp: scoped_def)

lemma ranked_snoc: "ranked rk T \<Longrightarrow> ranked rk (T @ [None])"
  by (fastforce simp: ranked_def scoped_def nth_append less_Suc_eq split: if_splits)

lemma wf_table_grown: "wf_table T \<Longrightarrow> grown T T' \<Longrightarrow> wf_table T'"
proof -
  have "ranked rk T \<Longrightarrow> ranked rk (T @ replicate k None)" for rk k
    using ranked_snoc by (induction k) (auto simp: replicate_append_same [symmetric] simp flip: append_assoc)
  then show "wf_table T \<Longrightarrow> grown T T' \<Longrightarrow> wf_table T'" by (auto simp: wf_table_def grown_def)
qed

lemma fresh_vars_spec:
  "fresh_vars ps T = (map TVar [length T..<length T + length ps], T @ replicate (length ps) None)"
  by (induction ps arbitrary: T)
    (simp_all add: fresh_var_def upt_conv_Cons replicate_append_same [symmetric] del: upt_Suc)

section \<open>Environments\<close>

abbreviation list_vars :: "Ty list \<Rightarrow> nat set" where
  "list_vars ts \<equiv> \<Union> (tvars ` set ts)"

abbreviation field_vars :: "(Name \<times> Ty) list \<Rightarrow> nat set" where
  "field_vars fs \<equiv> \<Union>f\<in>set fs. tvars (snd f)"

definition scope_in_range :: "ModuleScope \<Rightarrow> nat \<Rightarrow> bool" where
  "scope_in_range ms n \<longleftrightarrow> ran (ms_types ms) \<subseteq> {..<n} \<and>
     (\<forall>ns\<in>ran (ms_namespaces ms). ran (ns_types ns) \<subseteq> {..<n})"

definition env_ok :: "TyResolutionEnv \<Rightarrow> UnificationTable \<Rightarrow> bool" where
  "env_ok env T \<longleftrightarrow> scope_in_range (env_scope env) (length (env_types env)) \<and>
     field_vars (env_type_params env) \<subseteq> {..<length T}"

lemma env_ok_grown: "env_ok env T \<Longrightarrow> grown T T' \<Longrightarrow> env_ok env T'"
  unfolding env_ok_def using subset_grown by blast

lemma resolve_type_path_range:
  assumes "scope_in_range ms n" and "resolve_type_path ms path = Some i"
  shows "i < n"
proof (cases "(ms, path)" rule: resolve_type_path.cases)
  case (3 ms' ns x xs)
  then show ?thesis
    using assms by (auto simp: scope_in_range_def bind_eq_Some_conv visible_namespace_def ran_def
        split: option.splits if_splits) blast
qed (use assms in \<open>auto simp: scope_in_range_def ran_def\<close>)

text \<open>
  A resolution step returns, only adds fresh variables to the table and gives types over its
  variables.
\<close>

definition resolved :: "('a \<Rightarrow> nat set) \<Rightarrow> UnificationTable \<Rightarrow> ('a \<times> UnificationTable) option \<Rightarrow> bool" where
  "resolved vars T r \<longleftrightarrow> (\<exists>x T'. r = Some (x, T') \<and> grown T T' \<and> vars x \<subseteq> {..<length T'})"

lemma resolved_Some [simp]:
  "resolved vars T (Some (x, T')) \<longleftrightarrow> grown T T' \<and> vars x \<subseteq> {..<length T'}"
  by (auto simp: resolved_def)

lemma resolved_bind:
  assumes "resolved vars T r"
    and "\<And>x T1. r = Some (x, T1) \<Longrightarrow> grown T T1 \<Longrightarrow> vars x \<subseteq> {..<length T1} \<Longrightarrow> resolved vars' T1 (f (x, T1))"
  shows "resolved vars' T (r \<bind> f)"
proof -
  from assms(1) obtain x T1 where r: "r = Some (x, T1)" and g: "grown T T1" and v: "vars x \<subseteq> {..<length T1}"
    by (auto simp: resolved_def)
  with assms(2) obtain y T2 where "f (x, T1) = Some (y, T2)" "grown T1 T2" "vars' y \<subseteq> {..<length T2}"
    by (force simp: resolved_def)
  with r g grown_trans show ?thesis by (auto simp: resolved_def)
qed

lemma env_ok_push:
  assumes "env_ok env T" and "grown T T'" and "field_vars bound \<subseteq> {..<length T'}"
  shows "env_ok (env\<lparr>env_type_params := env_type_params env @ bound, env_resolving := rs\<rparr>) T'"
  using env_ok_grown [OF assms(1,2)] assms(3) by (simp add: env_ok_def)

lemma resolved_pair:
  assumes "resolved v1 T r1" and "\<And>x T1. r1 = Some (x, T1) \<Longrightarrow> grown T T1 \<Longrightarrow> resolved v2 T1 (r2 T1)"
    and "\<And>x y. v3 (c x y) \<subseteq> v1 x \<union> v2 y"
  shows "resolved v3 T (do { (x, T1) \<leftarrow> r1; (y, T2) \<leftarrow> r2 T1; Some (c x y, T2) })"
proof (rule resolved_bind [OF assms(1)])
  fix x T1 assume r1: "r1 = Some (x, T1)" "grown T T1" and x: "v1 x \<subseteq> {..<length T1}"
  show "resolved v3 T1 (case (x, T1) of (x, T1) \<Rightarrow> do { (y, T2) \<leftarrow> r2 T1; Some (c x y, T2) })"
    unfolding prod.case
  proof (rule resolved_bind [OF assms(2) [OF r1]])
    fix y T2 assume "grown T1 T2" "v2 y \<subseteq> {..<length T2}"
    moreover from this x have "v1 x \<subseteq> {..<length T2}" using subset_grown by blast
    ultimately show "resolved v3 T2 (case (y, T2) of (y, T2) \<Rightarrow> Some (c x y, T2))"
      using assms(3) [of x y] by auto
  qed
qed

lemma resolved_wrap:
  assumes "resolved v1 T r" and "\<And>x. v2 (c x) \<subseteq> v1 x"
  shows "resolved v2 T (do { (x, T1) \<leftarrow> r; Some (c x, T1) })"
  using assms by (intro resolved_bind [OF assms(1)]) (auto intro: subset_trans)

lemma env_ok_param: "env_ok env T \<Longrightarrow> map_of (env_type_params env) n = Some ty \<Longrightarrow> tvars ty \<subseteq> {..<length T}"
  by (fastforce simp: env_ok_def dest: map_of_SomeD)

lemma builtin_closed: "resolve_builtin n = Some ty \<Longrightarrow> tvars ty = {}"
  by (auto simp: resolve_builtin_def split: if_splits)

lemma resolve_all:
  shows "env_ok env T \<Longrightarrow> resolved tvars T (resolve_type_ref env tr T)"
    and "env_ok env T \<Longrightarrow> type_idx < length (env_types env) \<Longrightarrow> resolved tvars T (resolve_type_item env type_idx args T)"
    and "env_ok env T \<Longrightarrow> resolved list_vars T (resolve_type_refs env rs T)"
    and "env_ok env T \<Longrightarrow> resolved field_vars T (resolve_fields env fs T)"
    and "env_ok env T \<Longrightarrow> resolved field_vars T (bind_type_args env ps args T)"
proof (induction env tr T and env type_idx args T and env rs T and env fs T and env ps args T
    rule: resolve_type_ref_resolve_type_item_resolve_type_refs_resolve_fields_bind_type_args.induct)
  case (2 env path args T)
  have range: "scope_in_range (env_scope env) (length (env_types env))" using 2 by (simp add: env_ok_def)
  then have "ms_types (env_scope env) n = Some i \<Longrightarrow> i < length (env_types env)" for n i
    by (auto simp: scope_in_range_def ran_def)
  with 2 resolve_type_path_range [OF range] show ?case
    by (auto simp: builtin_closed env_ok_param simp del: resolve_type_item.simps resolve_type_path.simps(2-)
        split: list.split option.split)
next
  case (3 env params ret T)
  then show ?case by (auto intro!: resolved_pair [where ?v1.0 = list_vars and ?v2.0 = tvars] env_ok_grown)
next
  case (4 env fds T)
  then show ?case by (auto intro!: resolved_wrap [where ?v1.0 = field_vars])
next
  case (6 env type_idx args T)
  show ?case
  proof (cases "type_idx \<in> set (env_resolving env)")
    case False
    define item where "item = env_types env ! type_idx"
    have item: "env_types env ! type_idx = item" "type_idx < length (env_types env)"
      using 6 by (simp_all add: item_def)
    show ?thesis
    proof (cases "alias_body item")
      case None
      then show ?thesis using 6 False item
        by (auto simp: arena_get_def fresh_vars_spec Let_def grown_def intro!: resolved_wrap [where ?v1.0 = list_vars])
    next
      case (Some inner)
      have "resolved tvars T (do { (bound, T1) \<leftarrow> bind_type_args env (ti_type_params item) args T;
          resolve_type_ref (env\<lparr>env_type_params := env_type_params env @ bound,
            env_resolving := env_resolving env @ [type_idx]\<rparr>) inner T1 })"
      proof (rule resolved_bind [where vars = field_vars])
        show "resolved field_vars T (bind_type_args env (ti_type_params item) args T)"
          using 6 False item Some by simp
        fix bound T1
        assume b: "bind_type_args env (ti_type_params item) args T = Some (bound, T1)" "grown T T1"
          "field_vars bound \<subseteq> {..<length T1}"
        from env_ok_push [OF "6.prems"(1) this(2,3)] show "resolved tvars T1 (case (bound, T1) of (bound, T1) \<Rightarrow>
            resolve_type_ref (env\<lparr>env_type_params := env_type_params env @ bound,
              env_resolving := env_resolving env @ [type_idx]\<rparr>) inner T1)"
          using 6 False item Some b(1) by simp
      qed
      with 6 False item Some show ?thesis by (simp add: arena_get_def)
    qed
  qed simp
next
  case (8 env r rs T)
  then show ?case by (auto intro!: resolved_pair [where ?v1.0 = tvars and ?v2.0 = list_vars] env_ok_grown)
next
  case (10 env n r rs T)
  then show ?case by (auto intro!: resolved_pair [where ?v1.0 = tvars and ?v2.0 = field_vars] env_ok_grown)
next
  case (12 env p ps T)
  have "resolved field_vars (T @ [None]) (bind_type_args env ps [] (T @ [None]))"
    using 12 by (simp add: fresh_var_def env_ok_grown [OF _ grown_snoc])
  then obtain bs T2 where "bind_type_args env ps [] (T @ [None]) = Some (bs, T2)"
      "grown (T @ [None]) T2" "field_vars bs \<subseteq> {..<length T2}"
    by (auto simp: resolved_def)
  then show ?case using grown_trans [OF grown_snoc] grown_length by (fastforce simp: fresh_var_def)
next
  case (13 env p ps a as T)
  then show ?case by (auto intro!: resolved_pair [where ?v1.0 = tvars and ?v2.0 = field_vars] env_ok_grown)
qed auto


text \<open>
  C14. Resolving a type reference always returns, cyclic aliases included, when the scope's type
  indices are in range: it only adds fresh variables to the table, keeps the table well formed, and
  the type it gives is over the table's variables.
\<close>

theorem resolve_type_ref_safe:
  assumes "env_ok env T" and "wf_table T"
  shows "\<exists>ty T'. resolve_type_ref env tr T = Some (ty, T') \<and> grown T T' \<and> wf_table T' \<and> scoped T' ty"
  using resolve_all(1) [OF assms(1), of tr] wf_table_grown [OF assms(2)]
  by (auto simp: resolved_def scoped_def)

text \<open>A pair of mutually recursive aliases.\<close>

definition cyclic_env :: TyResolutionEnv where
  "cyclic_env = \<lparr>env_types = [\<lparr>ti_name = 0, ti_type_params = [], ti_kind = AliasDef (TRPath [1] [])\<rparr>,
       \<lparr>ti_name = 1, ti_type_params = [], ti_kind = AliasDef (TRFn [TRPath [0] []] (TRPath [2] []))\<rparr>],
     env_scope = \<lparr>ms_types = [0 \<mapsto> 0, 1 \<mapsto> 1], ms_type_variants = Map.empty, ms_constructors = Map.empty,
       ms_imports = Map.empty, ms_namespaces = Map.empty, ms_synthetic_modules = Map.empty,
       ms_imported_modules = {}\<rparr>,
     env_interner = (\<lambda>n. if n = 2 then ''Int'' else ''A''), env_type_params = [], env_resolving = []\<rparr>"

theorem resolve_type_ref_safe_witness:
  "\<exists>ty T'. resolve_type_ref cyclic_env (TRPath [0] []) [] = Some (ty, T') \<and> grown [] T' \<and> wf_table T' \<and> scoped T' ty"
  by (rule resolve_type_ref_safe)
    (auto simp: env_ok_def scope_in_range_def cyclic_env_def ran_def wf_table_def ranked_def split: if_splits)

lemma resolve_type_refs_length: "resolve_type_refs env rs T = Some (ts, T') \<Longrightarrow> length ts = length rs"
  by (induction rs arbitrary: T ts T') (auto simp: bind_eq_Some_conv)

lemma env_ok_inner:
  assumes "env_ok env T" and "fresh_vars names T = (vars, T1)"
  shows "env_ok (inner_env env names vars) T1" and "grown T T1"
proof -
  show g: "grown T T1" using assms(2) by (auto simp: fresh_vars_spec grown_def)
  have "field_vars (zip names vars) \<subseteq> {..<length T1}"
    using assms(2) by (auto simp: fresh_vars_spec set_zip)
  from env_ok_push [OF assms(1) g this] show "env_ok (inner_env env names vars) T1" by (simp add: inner_env_def)
qed

text \<open>
  Instantiating a constructor returns with one type per field: the constructed type is applied
  to fresh variables, the next ones of the table in order, and the field types are over the
  table's variables.
\<close>

theorem instantiate_constructor_fresh:
  assumes "env_ok env T" and "type_idx < length (env_types env)"
    and "ti_kind (env_types env ! type_idx) = AdtDef variants" and "variant_idx < length variants"
    and "n = length (ti_type_params (env_types env ! type_idx))"
  shows "\<exists>field_tys T'. instantiate_constructor type_idx variant_idx env T =
      Some ((field_tys, TAdt type_idx (map TVar [length T..<length T + n])), T')
    \<and> grown T T' \<and> length field_tys = length (v_fields (variants ! variant_idx))
    \<and> list_vars field_tys \<subseteq> {..<length T'}"
proof -
  let ?names = "ti_type_params (env_types env ! type_idx)"
  obtain vars T1 where f: "fresh_vars ?names T = (vars, T1)" by fastforce
  then have vars: "vars = map TVar [length T..<length T + n]" using assms(5) by (simp add: fresh_vars_spec)
  note ok = env_ok_inner [OF assms(1) f]
  obtain ts T2 where "resolve_type_refs (inner_env env ?names vars) (v_fields (variants ! variant_idx)) T1 = Some (ts, T2)"
      "grown T1 T2" "list_vars ts \<subseteq> {..<length T2}"
    using resolve_all(3) [OF ok(1), of "v_fields (variants ! variant_idx)"] unfolding resolved_def by blast
  with assms f ok(2) grown_trans resolve_type_refs_length show ?thesis
    by (auto simp: instantiate_constructor_def arena_get_def Let_def vars)
qed

lemma resolve_type_refs_nth:
  "resolve_type_refs env rs T = Some (ts, T') \<Longrightarrow> j < length rs \<Longrightarrow>
   \<exists>T1 T2. resolve_type_ref env (rs ! j) T1 = Some (ts ! j, T2)"
proof (induction rs arbitrary: T ts T' j)
  case (Cons r rs)
  then show ?case
    by (cases j) (fastforce simp: bind_eq_Some_conv)+
qed simp

text \<open>A reference to a name that is no built-in type, by the parameters in scope.\<close>

lemma resolve_parameter:
  assumes "resolve_builtin (env_interner env p) = None" and "map_of (env_type_params env) p = Some ty"
  shows "resolve_type_ref env (TRPath [p] []) T = Some (ty, T)"
  using assms by simp

text \<open>
  C15. Type parameters are looked up from the outermost scope in, so a parameter of the enclosing function
  captures a parameter of the same name.  When a constructor is instantiated, a field that is declared with
  the type parameter \<open>p\<close> gets the type that the enclosing scope gives to \<open>p\<close>, if it has a parameter of that
  name, and only otherwise the fresh variable that stands for \<open>p\<close> in the constructed type.  A parameter of an
  alias is captured in the same way: the argument given for it is dropped.
\<close>

theorem type_parameters_captured:
  assumes "env_ok env T" and "resolve_builtin (env_interner env p) = None"
    and "type_idx < length (env_types env)" and "env_types env ! type_idx = item"
    and "ti_type_params item ! i = p" and "i < length (ti_type_params item)" and "distinct (ti_type_params item)"
  shows "(\<forall>variants variant_idx j. ti_kind item = AdtDef variants \<longrightarrow> variant_idx < length variants \<longrightarrow>
      j < length (v_fields (variants ! variant_idx)) \<longrightarrow> v_fields (variants ! variant_idx) ! j = TRPath [p] [] \<longrightarrow>
      (\<exists>field_tys T'. instantiate_constructor type_idx variant_idx env T =
          Some ((field_tys, TAdt type_idx (map TVar [length T..<length T + length (ti_type_params item)])), T') \<and>
        field_tys ! j = (case map_of (env_type_params env) p of Some outer \<Rightarrow> outer | None \<Rightarrow> TVar (length T + i)))) \<and>
    (\<forall>args outer. ti_kind item = AliasDef (TRPath [p] []) \<longrightarrow> type_idx \<notin> set (env_resolving env) \<longrightarrow>
      map_of (env_type_params env) p = Some outer \<longrightarrow>
      (\<exists>T'. resolve_type_item env type_idx args T = Some (outer, T')))"
proof (intro conjI allI impI)
  fix variants variant_idx j
  assume variants: "ti_kind item = AdtDef variants" "variant_idx < length variants"
    and j: "j < length (v_fields (variants ! variant_idx))" "v_fields (variants ! variant_idx) ! j = TRPath [p] []"
  let ?names = "ti_type_params item"
  obtain vars T1 where f: "fresh_vars ?names T = (vars, T1)" by fastforce
  then have vars: "vars = map TVar [length T..<length T + length ?names]" by (simp add: fresh_vars_spec)
  have param: "map_of (env_type_params (inner_env env ?names vars)) p =
      Some (case map_of (env_type_params env) p of Some outer \<Rightarrow> outer | None \<Rightarrow> TVar (length T + i))"
    using map_of_zip_nth[of ?names vars i] assms(5-) by (simp add: inner_env_def vars map_add_def split: option.split)
  note ok = env_ok_inner [OF assms(1) f]
  obtain ts T2 where ts: "resolve_type_refs (inner_env env ?names vars) (v_fields (variants ! variant_idx)) T1 = Some (ts, T2)"
    using resolve_all(3) [OF ok(1), of "v_fields (variants ! variant_idx)"] unfolding resolved_def by blast
  then have "ts ! j = (case map_of (env_type_params env) p of Some outer \<Rightarrow> outer | None \<Rightarrow> TVar (length T + i))"
    using resolve_type_refs_nth[OF ts j(1)] resolve_parameter[OF _ param] assms(2) unfolding j(2)
    by (auto simp: inner_env_def)
  then show "\<exists>field_tys T'. instantiate_constructor type_idx variant_idx env T =
          Some ((field_tys, TAdt type_idx (map TVar [length T..<length T + length ?names])), T') \<and>
        field_tys ! j = (case map_of (env_type_params env) p of Some outer \<Rightarrow> outer | None \<Rightarrow> TVar (length T + i))"
    using assms(3,4) variants f ts by (simp add: instantiate_constructor_def arena_get_def Let_def vars)
next
  fix args outer
  assume al: "ti_kind item = AliasDef (TRPath [p] [])" "type_idx \<notin> set (env_resolving env)"
    and outer: "map_of (env_type_params env) p = Some outer"
  obtain bound T1 where "bind_type_args env (ti_type_params item) args T = Some (bound, T1)"
    using resolve_all(5) [OF assms(1), of "ti_type_params item" args] unfolding resolved_def by blast
  then show "\<exists>T'. resolve_type_item env type_idx args T = Some (outer, T')"
    using assms(2-4) al outer by (simp add: arena_get_def alias_body_def map_add_def)
qed

text \<open>A generic box and an alias, seen from inside a function with a parameter of the same name 7.\<close>

definition box_env :: TyResolutionEnv where
  "box_env = \<lparr>env_types =
       [\<lparr>ti_name = 1, ti_type_params = [7], ti_kind = AdtDef [\<lparr>v_name = 3, v_fields = [TRPath [7] []]\<rparr>]\<rparr>,
        \<lparr>ti_name = 2, ti_type_params = [7], ti_kind = AliasDef (TRPath [7] [])\<rparr>],
     env_scope = \<lparr>ms_types = [1 \<mapsto> 0, 2 \<mapsto> 1], ms_type_variants = Map.empty, ms_constructors = Map.empty,
       ms_imports = Map.empty, ms_namespaces = Map.empty, ms_synthetic_modules = Map.empty,
       ms_imported_modules = {}\<rparr>,
     env_interner = (\<lambda>n. if n = 9 then ''Int'' else ''T''), env_type_params = [(7, TVar 0)],
     env_resolving = []\<rparr>"

theorem type_parameters_captured_witness:
  "(\<exists>field_tys T'. instantiate_constructor 0 0 box_env [None] = Some ((field_tys, TAdt 0 [TVar 1]), T') \<and> field_tys ! 0 = TVar 0) \<and>
   (\<exists>T'. resolve_type_item box_env 1 [TRPath [9] []] [None] = Some (TVar 0, T'))"
proof -
  have ok: "env_ok box_env [None]"
    by (auto simp: env_ok_def scope_in_range_def box_env_def ran_def split: if_splits)
  have name: "resolve_builtin (env_interner box_env 7) = None"
    by code_simp
  show ?thesis
    using type_parameters_captured[OF ok name, of 0 _ 0] type_parameters_captured[OF ok name, of 1 _ 0]
    by (simp add: box_env_def)
qed

text \<open>
  The effects a call is missing are exactly those the callee declares and the caller does not:
  only the last segment of a declared path counts, and nothing is missing when the callee's effects
  are among the caller's.
\<close>

lemma effect_check:
  "missing_from (from_with_effects callee) (from_with_effects caller) =
     {name. \<exists>path args. TRPath path args \<in> set callee \<and> path \<noteq> [] \<and> last path = name} -
     {name. \<exists>path args. TRPath path args \<in> set caller \<and> path \<noteq> [] \<and> last path = name} \<and>
   (missing_from (from_with_effects callee) (from_with_effects caller) = {} \<longleftrightarrow>
     from_with_effects callee \<subseteq> from_with_effects caller)"
proof -
  have *: "from_with_effects rs = {name. \<exists>path args. TRPath path args \<in> set rs \<and> path \<noteq> [] \<and> last path = name}" for rs
    by (induction rs rule: from_with_effects.induct) (auto simp: last_opt_def)
  show ?thesis unfolding * missing_from_def by blast
qed

end
