(* ===== verification/Call_Family.thy ===== *)
theory Call_Family
  imports Hir "HOL-Library.Multiset"
begin

text \<open>
  Binding call arguments to parameters and choosing among the functions of a call family
  (\<open>hir-def/src/call_family.rs\<close>).  Indices are natural numbers; the lists are long enough where
  the code indexes them, since it compares their lengths first.
\<close>

section \<open>Data\<close>

datatype CallArg = Positional ExprIdx | Named Name ExprIdx

record FnParam =
  p_name :: Name
  p_ty :: TypeRef
  p_named_only :: bool

datatype CallShapeError =
    ArgCountMismatch nat nat
  | UnknownNamedArg Name
  | DuplicateNamedArg Name
  | PositionalAfterNamedArg
  | MissingArg Name
  | NamedOnlyArg Name

record CallArgBinding =
  arg_to_param :: "nat option list"
  param_to_arg :: "nat option list"
  errors :: "CallShapeError list"

definition is_valid :: "CallArgBinding \<Rightarrow> bool" where
  "is_valid binding \<longleftrightarrow> errors binding = []"

record BindState =
  binding :: CallArgBinding
  next_pos :: nat
  saw_named :: bool
  saw_shape_error :: bool
  suppress_missing_args :: bool

section \<open>Binding arguments\<close>

function skip_bound :: "nat option list \<Rightarrow> nat \<Rightarrow> nat" where
  "skip_bound slots pos =
     (if pos < length slots \<and> slots ! pos \<noteq> None then skip_bound slots (Suc pos) else pos)"
  by auto
termination
  by (relation "measure (\<lambda>(slots, pos). length slots - pos)") auto

declare skip_bound.simps [simp del]

definition push_error :: "CallShapeError \<Rightarrow> BindState \<Rightarrow> BindState" where
  "push_error e st =
     st\<lparr>binding := (binding st)\<lparr>errors := errors (binding st) @ [e]\<rparr>, saw_shape_error := True\<rparr>"

definition bind_slot :: "nat \<Rightarrow> nat \<Rightarrow> BindState \<Rightarrow> BindState" where
  "bind_slot arg_idx param_idx st =
     st\<lparr>binding := (binding st)
        \<lparr>arg_to_param := (arg_to_param (binding st))[arg_idx := Some param_idx],
         param_to_arg := (param_to_arg (binding st))[param_idx := Some arg_idx]\<rparr>\<rparr>"

definition bind_positional :: "FnParam list \<Rightarrow> nat \<Rightarrow> BindState \<Rightarrow> BindState" where
  "bind_positional params arg_idx st =
     (if saw_named st then (push_error PositionalAfterNamedArg st)\<lparr>suppress_missing_args := True\<rparr>
      else
        let pos = skip_bound (param_to_arg (binding st)) (next_pos st);
            st1 = st\<lparr>next_pos := pos\<rparr>
        in if length params \<le> pos then st1\<lparr>saw_shape_error := True\<rparr>
           else if p_named_only (params ! pos)
           then (push_error (NamedOnlyArg (p_name (params ! pos))) st1)
                  \<lparr>suppress_missing_args := True, next_pos := Suc pos\<rparr>
           else (bind_slot arg_idx pos st1)\<lparr>next_pos := Suc pos\<rparr>)"

definition bind_named :: "FnParam list \<Rightarrow> nat \<Rightarrow> Name \<Rightarrow> BindState \<Rightarrow> BindState" where
  "bind_named params arg_idx name st =
     (let st1 = st\<lparr>saw_named := True\<rparr>
      in case position (\<lambda>p. p_name p = name) params of
           None \<Rightarrow> push_error (UnknownNamedArg name) st1
         | Some param_idx \<Rightarrow>
             if param_to_arg (binding st1) ! param_idx \<noteq> None
             then push_error (DuplicateNamedArg name) st1
             else bind_slot arg_idx param_idx st1)"

fun bind_args :: "FnParam list \<Rightarrow> nat \<Rightarrow> CallArg list \<Rightarrow> BindState \<Rightarrow> BindState" where
  "bind_args params i [] st = st"
| "bind_args params i (Positional _ # args) st = bind_args params (Suc i) args (bind_positional params i st)"
| "bind_args params i (Named name _ # args) st = bind_args params (Suc i) args (bind_named params i name st)"

fun missing_args :: "FnParam list \<Rightarrow> nat option list \<Rightarrow> CallShapeError list" where
  "missing_args (p # ps) (a # as) = (if a = None then MissingArg (p_name p) # missing_args ps as else missing_args ps as)"
| "missing_args _ _ = []"

definition bind_call_args_to_params :: "CallArg list \<Rightarrow> FnParam list \<Rightarrow> CallArgBinding" where
  "bind_call_args_to_params args params =
     (let start = \<lparr>arg_to_param = replicate (length args) None,
                   param_to_arg = replicate (length params) None, errors = []\<rparr>
      in if length args \<noteq> length params
         then start\<lparr>errors := [ArgCountMismatch (length params) (length args)]\<rparr>
         else
           let st = bind_args params 0 args
                      \<lparr>binding = start, next_pos = 0, saw_named = False, saw_shape_error = False,
                       suppress_missing_args = False\<rparr>
           in if \<not> saw_shape_error st \<or> \<not> suppress_missing_args st
              then (binding st)\<lparr>errors := errors (binding st) @
                     missing_args params (param_to_arg (binding st))\<rparr>
              else binding st)"

section \<open>Overlapping shapes\<close>

definition shapes_overlap_at :: "FnParam list \<Rightarrow> FnParam list \<Rightarrow> nat \<Rightarrow> bool" where
  "shapes_overlap_at lhs rhs k \<longleftrightarrow>
     list_all (\<lambda>p. \<not> p_named_only p) (take k lhs) \<and> list_all (\<lambda>p. \<not> p_named_only p) (take k rhs) \<and>
     sort (map p_name (drop k lhs)) = sort (map p_name (drop k rhs))"

definition call_shapes_overlap :: "FnParam list \<Rightarrow> FnParam list \<Rightarrow> bool" where
  "call_shapes_overlap lhs rhs \<longleftrightarrow>
     length lhs = length rhs \<and> list_ex (shapes_overlap_at lhs rhs) [0..<Suc (length lhs)]"

section \<open>Choosing a candidate\<close>

datatype 'a CallFamilySelection =
    Selected 'a CallArgBinding
  | InvalidShape "CallShapeError list"
  | FamilyArgCountMismatch "nat list" nat
  | Ambiguous

record 'a Tried =
  successes :: "('a \<times> CallArgBinding) list"
  shape_failures :: "CallShapeError list list"
  expected :: "nat list"

definition try_candidate :: "CallArg list \<Rightarrow> ('a \<Rightarrow> FnParam list) \<Rightarrow> 'a \<Rightarrow> 'a Tried \<Rightarrow> 'a Tried" where
  "try_candidate args params_for candidate t =
     (let b = bind_call_args_to_params args (params_for candidate)
      in if is_valid b then t\<lparr>successes := successes t @ [(candidate, b)]\<rparr>
         else case errors b of
                [ArgCountMismatch want _] \<Rightarrow> t\<lparr>expected := expected t @ [want]\<rparr>
              | es \<Rightarrow> t\<lparr>shape_failures := shape_failures t @ [es]\<rparr>)"

definition select_call_family_candidate ::
    "CallArg list \<Rightarrow> 'a list \<Rightarrow> ('a \<Rightarrow> FnParam list) \<Rightarrow> 'a CallFamilySelection" where
  "select_call_family_candidate args candidates params_for =
     (let t = fold (try_candidate args params_for) candidates \<lparr>successes = [], shape_failures = [], expected = []\<rparr>
      in case successes t of
           [(candidate, b)] \<Rightarrow> Selected candidate b
         | _ # _ # _ \<Rightarrow> Ambiguous
         | [] \<Rightarrow>
             if shape_failures t \<noteq> [] then InvalidShape (hd (sort_key length (shape_failures t)))
             else FamilyArgCountMismatch (remdups_adj (sort (expected t))) (length args))"

end
