(* ===== verification/Call_Properties.thy ===== *)
theory Call_Properties
  imports Call_Family
begin

text \<open>
  What a valid binding is, that the overlap test is exact, and that a family without overlaps is
  never ambiguous.
\<close>

section \<open>The shape of a call\<close>

fun is_positional :: "CallArg \<Rightarrow> bool" where
  "is_positional (Positional _) = True"
| "is_positional (Named _ _) = False"

fun arg_name :: "CallArg \<Rightarrow> Name" where
  "arg_name (Named n _) = n"
| "arg_name (Positional _) = undefined"

abbreviation slots :: "BindState \<Rightarrow> nat option list" where
  "slots st \<equiv> param_to_arg (binding st)"

abbreviation errs :: "BindState \<Rightarrow> CallShapeError list" where
  "errs st \<equiv> errors (binding st)"

definition fits_shape :: "CallArg list \<Rightarrow> FnParam list \<Rightarrow> bool" where
  "fits_shape args params \<longleftrightarrow>
     (let k = length (takeWhile is_positional args)
      in length args = length params \<and> list_all (\<lambda>a. \<not> is_positional a) (drop k args) \<and>
         list_all (\<lambda>p. \<not> p_named_only p) (take k params) \<and>
         mset (map arg_name (drop k args)) = mset (map p_name (drop k params)))"

section \<open>The loop\<close>

lemma bind_args_append:
  "bind_args params i (as @ bs) st = bind_args params (i + length as) bs (bind_args params i as st)"
  by (induction params i as st rule: bind_args.induct) simp_all

lemma bind_steps_errors:
  "\<exists>es. errs (bind_positional params i st) = errs st @ es"
  "\<exists>es. errs (bind_named params i name st) = errs st @ es"
  by (auto simp: bind_positional_def bind_named_def push_error_def bind_slot_def Let_def split: option.split)

lemma bind_args_errors: "\<exists>es. errs (bind_args params i args st) = errs st @ es"
proof (induction params i args st rule: bind_args.induct)
  case (2 params i e args st)
  then show ?case using bind_steps_errors(1) [of params i st] by fastforce
next
  case (3 params i n e args st)
  then show ?case using bind_steps_errors(2) [of params i n st] by fastforce
qed simp

lemma bind_args_errorD: "errs (bind_args params i args st) = [] \<Longrightarrow> errs st = []"
  using bind_args_errors [of params i args st] by auto

lemma bind_args_suppress:
  "(suppress_missing_args st \<longrightarrow> errs st \<noteq> []) \<Longrightarrow>
   suppress_missing_args (bind_args params i args st) \<longrightarrow> errs (bind_args params i args st) \<noteq> []"
proof (induction params i args st rule: bind_args.induct)
  case (2 params i e args st)
  then show ?case by (auto simp: bind_positional_def push_error_def bind_slot_def Let_def)
next
  case (3 params i n e args st)
  then show ?case by (auto simp: bind_named_def push_error_def bind_slot_def Let_def split: option.splits)
qed simp

lemma bind_args_late_positional:
  assumes "saw_named st" and "\<exists>a\<in>set args. is_positional a"
  shows "errs (bind_args params i args st) \<noteq> []"
  using assms
proof (induction params i args st rule: bind_args.induct)
  case (2 params i e args st)
  then have "errs (bind_positional params i st) \<noteq> []" by (simp add: bind_positional_def push_error_def)
  then show ?case using bind_args_errorD by auto
next
  case (3 params i n e args st)
  have "saw_named (bind_named params i n st)"
    by (simp add: bind_named_def push_error_def bind_slot_def Let_def split: option.split)
  with 3 show ?case by auto
qed simp

lemma missing_args_Nil: "length ps = length as \<Longrightarrow> missing_args ps as = [] \<longleftrightarrow> None \<notin> set as"
  by (induction ps as rule: missing_args.induct) auto

section \<open>Positional arguments\<close>

definition pos_state :: "nat \<Rightarrow> nat \<Rightarrow> BindState" where
  "pos_state n k =
     \<lparr>binding = \<lparr>arg_to_param = map Some [0..<k] @ replicate (n - k) None,
                 param_to_arg = map Some [0..<k] @ replicate (n - k) None, errors = []\<rparr>,
      next_pos = k, saw_named = False, saw_shape_error = False, suppress_missing_args = False\<rparr>"

lemma bind_positional_pos_state:
  assumes "k < length params"
  shows "\<not> p_named_only (params ! k) \<Longrightarrow> bind_positional params k (pos_state (length params) k) = pos_state (length params) (Suc k)"
    and "p_named_only (params ! k) \<Longrightarrow> errs (bind_positional params k (pos_state (length params) k)) \<noteq> []"
proof -
  have skip: "skip_bound (slots (pos_state (length params) k)) k = k"
    using assms by (subst skip_bound.simps) (simp add: pos_state_def nth_append)
  have upd: "(map Some [0..<k] @ replicate (length params - k) None)[k := Some k] =
      map Some [0..<Suc k] @ replicate (length params - Suc k) None"
    using assms by (simp add: list_update_append Suc_diff_Suc [symmetric])
  show "\<not> p_named_only (params ! k) \<Longrightarrow> bind_positional params k (pos_state (length params) k) = pos_state (length params) (Suc k)"
    using assms skip upd by (simp add: bind_positional_def Let_def bind_slot_def pos_state_def)
  show "p_named_only (params ! k) \<Longrightarrow> errs (bind_positional params k (pos_state (length params) k)) \<noteq> []"
    using assms skip by (simp add: bind_positional_def Let_def push_error_def pos_state_def)
qed

lemma bind_positionals:
  assumes "list_all is_positional as" and "length as \<le> length params"
  shows "if list_all (\<lambda>p. \<not> p_named_only p) (take (length as) params)
    then bind_args params 0 as (pos_state (length params) 0) = pos_state (length params) (length as)
    else errs (bind_args params 0 as (pos_state (length params) 0)) \<noteq> []"
  using assms
proof (induction as rule: rev_induct)
  case (snoc a as)
  then obtain e where a: "a = Positional e" by (cases a) auto
  have k: "length as < length params" using snoc.prems by simp
  have IH: "if list_all (\<lambda>p. \<not> p_named_only p) (take (length as) params)
    then bind_args params 0 as (pos_state (length params) 0) = pos_state (length params) (length as)
    else errs (bind_args params 0 as (pos_state (length params) 0)) \<noteq> []"
    using snoc by simp
  then show ?case
    using bind_positional_pos_state [OF k] bind_steps_errors(1)
    by (auto simp: bind_args_append a take_Suc_conv_app_nth k split: if_splits) (metis append_is_Nil_conv)+
qed simp


section \<open>Named arguments\<close>

lemma position_name:
  assumes "distinct (map p_name params)"
  shows "position (\<lambda>p. p_name p = n) params = Some i \<longleftrightarrow> i < length params \<and> p_name (params ! i) = n"
  using assms by (auto simp: position_Some distinct_conv_nth)

lemma bind_named_step:
  assumes "distinct (map p_name params)" and "length (slots st) = length params" and "errs st = []"
  shows "(if n \<in> p_name ` set params \<and> (\<forall>p<length params. p_name (params ! p) = n \<longrightarrow> slots st ! p = None)
    then \<exists>p<length params. p_name (params ! p) = n \<and> slots st ! p = None \<and>
      bind_named params i n st = bind_slot i p (st\<lparr>saw_named := True\<rparr>)
    else errs (bind_named params i n st) \<noteq> [])"
proof (cases "position (\<lambda>p. p_name p = n) params")
  case None
  moreover from None have "n \<notin> p_name ` set params" unfolding position_None by blast
  ultimately show ?thesis by (simp add: bind_named_def push_error_def)
next
  case (Some p)
  then have p: "p < length params" "p_name (params ! p) = n" by (simp_all add: position_name [OF assms(1)])
  then have uniq: "q < length params \<Longrightarrow> p_name (params ! q) = n \<Longrightarrow> q = p" for q
    using assms(1) by (auto simp: distinct_conv_nth)
  have "n \<in> p_name ` set params" using p by auto
  with p uniq have "n \<in> p_name ` set params \<and> (\<forall>q<length params. p_name (params ! q) = n \<longrightarrow> slots st ! q = None)
      \<longleftrightarrow> slots st ! p = None"
    by blast
  with Some p show ?thesis by (cases "slots st ! p") (auto simp: bind_named_def push_error_def Let_def)
qed

definition named_ok :: "FnParam list \<Rightarrow> BindState \<Rightarrow> Name list \<Rightarrow> bool" where
  "named_ok params st ns \<longleftrightarrow> distinct ns \<and> set ns \<subseteq> p_name ` set params \<and>
     (\<forall>p<length params. p_name (params ! p) \<in> set ns \<longrightarrow> slots st ! p = None)"

lemma bind_args_length [simp]: "length (slots (bind_args params i args st)) = length (slots st)"
  by (induction params i args st rule: bind_args.induct)
    (auto simp: bind_positional_def bind_named_def push_error_def bind_slot_def Let_def split: option.split)

lemma named_ok_Cons:
  assumes "distinct (map p_name params)" and "length (slots st) = length params"
    and "p < length params" and "slots st ! p = None"
  shows "named_ok params st (p_name (params ! p) # ns) \<longleftrightarrow>
    named_ok params (bind_slot i p (st\<lparr>saw_named := True\<rparr>)) ns"
proof -
  have "p_name (params ! q) = p_name (params ! p) \<longleftrightarrow> q = p" if "q < length params" for q
    using assms(1,3) that by (auto simp: distinct_conv_nth)
  then show ?thesis using assms by (auto simp: named_ok_def bind_slot_def nth_list_update)
qed

lemma bind_nameds:
  assumes "distinct (map p_name params)" and "list_all (\<lambda>a. \<not> is_positional a) args"
    and "length (slots st) = length params" and "errs st = []"
  shows "(errs (bind_args params i args st) = [] \<longleftrightarrow> named_ok params st (map arg_name args)) \<and>
    (named_ok params st (map arg_name args) \<longrightarrow>
      (\<forall>p<length params. slots (bind_args params i args st) ! p \<noteq> None \<longleftrightarrow>
         slots st ! p \<noteq> None \<or> p_name (params ! p) \<in> arg_name ` set args))"
  using assms(2-)
proof (induction args arbitrary: i st)
  case (Cons a args)
  then obtain n e where a: "a = Named n e" by (cases a) auto
  note step = bind_named_step [OF assms(1) Cons.prems(2,3), of n i]
  show ?case
  proof (cases "n \<in> p_name ` set params \<and> (\<forall>p<length params. p_name (params ! p) = n \<longrightarrow> slots st ! p = None)")
    case True
    with step obtain p where p: "p < length params" "p_name (params ! p) = n" "slots st ! p = None"
        "bind_named params i n st = bind_slot i p (st\<lparr>saw_named := True\<rparr>)"
      by auto
    let ?st = "bind_slot i p (st\<lparr>saw_named := True\<rparr>)"
    have uniq: "p_name (params ! q) = n \<longleftrightarrow> q = p" if "q < length params" for q
      using assms(1) p that by (auto simp: distinct_conv_nth)
    have ok: "named_ok params st (map arg_name (a # args)) \<longleftrightarrow> named_ok params ?st (map arg_name args)"
      using named_ok_Cons [OF assms(1) Cons.prems(2) p(1,3)] p(2) by (simp add: a)
    have st: "length (slots ?st) = length params" "errs ?st = []"
      "slots ?st = (slots st)[p := Some i]"
      using Cons.prems by (simp_all add: bind_slot_def)
    with Cons.IH [of ?st "Suc i"] Cons.prems(1) ok show ?thesis
      using uniq p Cons.prems(2) by (auto simp: a nth_list_update)
  next
    case False
    with step have "errs (bind_named params i n st) \<noteq> []" by auto
    then have "errs (bind_args params i (a # args) st) \<noteq> []" using bind_args_errorD by (auto simp: a)
    moreover have "\<not> named_ok params st (map arg_name (a # args))" using False by (auto simp: a named_ok_def)
    ultimately show ?thesis by blast
  qed
qed (simp add: named_ok_def)

section \<open>Valid bindings\<close>

lemma bind_valid:
  assumes "length args = length params"
  shows "is_valid (bind_call_args_to_params args params) \<longleftrightarrow>
    errs (bind_args params 0 args (pos_state (length params) 0)) = [] \<and>
    None \<notin> set (slots (bind_args params 0 args (pos_state (length params) 0)))"
    (is "_ \<longleftrightarrow> errs ?st = [] \<and> _")
proof -
  have "suppress_missing_args ?st \<longrightarrow> errs ?st \<noteq> []"
    by (rule bind_args_suppress) (simp add: pos_state_def)
  moreover have "missing_args params (slots ?st) = [] \<longleftrightarrow> None \<notin> set (slots ?st)"
    by (rule missing_args_Nil) (simp add: pos_state_def)
  ultimately show ?thesis
    using assms by (auto simp: bind_call_args_to_params_def is_valid_def Let_def pos_state_def)
qed


lemma set_drop_nth: "set (drop k xs) = {xs ! p |p. k \<le> p \<and> p < length xs}"
proof (intro set_eqI iffI)
  fix x assume "x \<in> {xs ! p |p. k \<le> p \<and> p < length xs}"
  then obtain p where "x = xs ! p" "k \<le> p" "p < length xs" by blast
  then have "x = drop k xs ! (p - k)" "p - k < length (drop k xs)" by simp_all
  then show "x \<in> set (drop k xs)" using nth_mem by blast
qed (auto simp: in_set_conv_nth)

lemma named_ok_pos_state:
  assumes "distinct (map p_name params)" and "k \<le> length params" and "length ns = length params - k"
  shows "named_ok params (pos_state (length params) k) ns \<longleftrightarrow> mset ns = mset (map p_name (drop k params))"
proof -
  let ?late = "map p_name (drop k params)"
  have late: "set ?late = {p_name (params ! p) |p. k \<le> p \<and> p < length params}"
    by (simp add: set_drop_nth) blast
  have d: "distinct ?late" using assms(1) by (simp add: drop_map [symmetric] del: drop_map)
  have slot: "slots (pos_state (length params) k) ! p = None \<longleftrightarrow> k \<le> p" if "p < length params" for p
    using that assms(2) by (auto simp: pos_state_def nth_append)
  have "named_ok params (pos_state (length params) k) ns \<longleftrightarrow> distinct ns \<and> set ns \<subseteq> set ?late"
  proof -
    have uniq: "p_name (params ! p) = p_name (params ! q) \<longleftrightarrow> p = q" if "p < length params" "q < length params" for p q
      using assms(1) that by (auto simp: distinct_conv_nth)
    have all: "p_name ` set params = {p_name (params ! p) |p. p < length params}"
      by (auto simp: set_conv_nth)
    have "set ns \<subseteq> p_name ` set params \<and> (\<forall>p<length params. p_name (params ! p) \<in> set ns \<longrightarrow> k \<le> p) \<longleftrightarrow>
        set ns \<subseteq> set ?late"
      unfolding late all using uniq by blast
    then show ?thesis unfolding named_ok_def using slot by auto
  qed
  also have "\<dots> \<longleftrightarrow> mset ns = mset ?late"
  proof
    assume n: "distinct ns \<and> set ns \<subseteq> set ?late"
    then have "card (set ns) = card (set ?late)"
      using assms(3) distinct_card [of ns] distinct_card [OF d] by (simp del: set_map)
    with n have "set ns = set ?late" by (intro card_subset_eq) simp_all
    with n d show "mset ns = mset ?late" using set_eq_iff_mset_eq_distinct by blast
  next
    assume m: "mset ns = mset ?late"
    with d show "distinct ns \<and> set ns \<subseteq> set ?late" by (metis mset_eq_imp_distinct_iff mset_eq_setD order_refl)
  qed
  finally show ?thesis .
qed

lemma valid_iff_fits:
  assumes "distinct (map p_name params)"
  shows "is_valid (bind_call_args_to_params args params) \<longleftrightarrow> fits_shape args params"
proof (cases "length args = length params")
  case False
  then show ?thesis by (simp add: bind_call_args_to_params_def is_valid_def fits_shape_def Let_def)
next
  case len: True
  let ?pos = "takeWhile is_positional args" and ?rest = "dropWhile is_positional args"
  let ?k = "length ?pos" and ?n = "length params"
  let ?st = "bind_args params 0 ?pos (pos_state ?n 0)"
  have split: "bind_args params 0 args (pos_state ?n 0) = bind_args params ?k ?rest ?st"
    using bind_args_append [of params 0 ?pos ?rest] by simp
  have k: "?k \<le> ?n" using len length_takeWhile_le [of is_positional args] by simp
  have rest: "drop ?k args = ?rest" by (simp add: dropWhile_eq_drop)
  have lr: "length ?rest = ?n - ?k" using len by (simp add: dropWhile_eq_drop)
  have pos: "if list_all (\<lambda>p. \<not> p_named_only p) (take ?k params) then ?st = pos_state ?n ?k else errs ?st \<noteq> []"
    using k by (intro bind_positionals) (auto simp: list_all_iff dest: set_takeWhileD)
  show ?thesis
  proof (cases "list_all (\<lambda>p. \<not> p_named_only p) (take ?k params) \<and> list_all (\<lambda>a. \<not> is_positional a) ?rest")
    case True
    then have st: "?st = pos_state ?n ?k" and named: "list_all (\<lambda>a. \<not> is_positional a) ?rest" using pos by auto
    have l: "length (slots ?st) = ?n" "errs ?st = []" unfolding st using k by (simp_all add: pos_state_def)
    have ok: "named_ok params ?st (map arg_name ?rest) \<longleftrightarrow>
        mset (map arg_name ?rest) = mset (map p_name (drop ?k params))"
      using named_ok_pos_state [OF assms k, of "map arg_name ?rest"] lr by (simp add: st)
    have full: "None \<notin> set (slots (bind_args params ?k ?rest ?st))" if "named_ok params ?st (map arg_name ?rest)"
    proof -
      have "arg_name ` set ?rest = p_name ` set (drop ?k params)"
        using ok that by (metis list.set_map set_mset_mset)
      then have "slots ?st ! p \<noteq> None \<or> p_name (params ! p) \<in> arg_name ` set ?rest" if "p < ?n" for p
        unfolding st using that by (cases "p < ?k") (auto simp: set_drop_nth pos_state_def nth_append intro!: imageI)
      with bind_nameds [OF assms named l] that have "\<forall>p<?n. slots (bind_args params ?k ?rest ?st) ! p \<noteq> None"
        by blast
      then show ?thesis using l(1) by (metis bind_args_length in_set_conv_nth)
    qed
    show ?thesis
      using bind_nameds [OF assms named l, of ?k] ok full True len
      by (auto simp: bind_valid split fits_shape_def Let_def rest)
  next
    case False
    then have "errs (bind_args params ?k ?rest ?st) \<noteq> []"
    proof (cases "list_all (\<lambda>p. \<not> p_named_only p) (take ?k params)")
      case True
      with False obtain a as where r: "?rest = a # as" "\<exists>x\<in>set (a # as). is_positional x"
        by (cases ?rest) (auto simp: list_all_iff)
      then have "\<not> is_positional a" using hd_dropWhile [of is_positional args] by (metis list.distinct(1) list.sel(1))
      then obtain n e where a: "a = Named n e" by (cases a) auto
      have "saw_named (bind_named params ?k n ?st)"
        by (simp add: bind_named_def push_error_def bind_slot_def Let_def split: option.split)
      with r(2) show ?thesis unfolding r(1) a using bind_args_late_positional by (auto simp: a)
    qed (use pos bind_args_errorD in \<open>auto split: if_splits\<close>)
    with False len show ?thesis by (auto simp: bind_valid split fits_shape_def Let_def rest)
  qed
qed


section \<open>Where a valid binding sends the arguments\<close>

definition pairs_up :: "FnParam list \<Rightarrow> CallArg list \<Rightarrow> CallArgBinding \<Rightarrow> nat \<Rightarrow> nat \<Rightarrow> bool" where
  "pairs_up params args b i p \<longleftrightarrow> p < length params \<and> arg_to_param b ! i = Some p \<and> param_to_arg b ! p = Some i \<and>
     (case args ! i of Positional _ \<Rightarrow> p = i | Named n _ \<Rightarrow> p_name (params ! p) = n)"

lemma bind_nameds_pairs:
  assumes "distinct (map p_name params)" and "list_all (\<lambda>a. \<not> is_positional a) as"
    and "length (slots st) = length params" and "length (arg_to_param (binding st)) = length (used @ as)"
    and "\<forall>i<length used. \<exists>p. pairs_up params (used @ as) (binding st) i p"
    and "errs (bind_args params (length used) as st) = []"
  shows "\<forall>i<length (used @ as). \<exists>p. pairs_up params (used @ as) (binding (bind_args params (length used) as st)) i p"
  using assms(2-)
proof (induction as arbitrary: used st)
  case (Cons a as)
  then obtain n e where a: "a = Named n e" by (cases a) auto
  let ?i = "length used"
  have "errs (bind_named params ?i n st) = []" using Cons.prems(5) bind_args_errorD by (simp add: a)
  moreover have "errs st = []" using Cons.prems(5) bind_args_errorD by blast
  ultimately obtain p where p: "p < length params" "p_name (params ! p) = n" "slots st ! p = None"
      "bind_named params ?i n st = bind_slot ?i p (st\<lparr>saw_named := True\<rparr>)"
    using bind_named_step [OF assms(1) Cons.prems(2), of n ?i] by (auto split: if_splits)
  let ?st = "bind_slot ?i p (st\<lparr>saw_named := True\<rparr>)"
  have "\<exists>q. pairs_up params ((used @ [a]) @ as) (binding ?st) i q" if "i < length (used @ [a])" for i
  proof (cases "i < ?i")
    case True
    with Cons.prems(4) obtain q where "pairs_up params (used @ a # as) (binding st) i q" by blast
    with True p Cons.prems show ?thesis
      by (auto simp: pairs_up_def bind_slot_def nth_list_update intro!: exI [of _ q])
  next
    case False
    with that p Cons.prems show ?thesis
      by (auto simp: pairs_up_def bind_slot_def a less_Suc_eq intro!: exI [of _ p])
  qed
  then have "\<forall>i<length ((used @ [a]) @ as). \<exists>p. pairs_up params ((used @ [a]) @ as)
      (binding (bind_args params (length (used @ [a])) as ?st)) i p"
    using Cons.prems p(4) by (intro Cons.IH) (auto simp: a bind_slot_def)
  then show ?case using p(4) by (simp add: a)
qed simp

lemma valid_binding_run:
  assumes "is_valid (bind_call_args_to_params args params)"
  shows "length args = length params \<and>
    bind_call_args_to_params args params = binding (bind_args params 0 args (pos_state (length params) 0)) \<and>
    errs (bind_args params 0 args (pos_state (length params) 0)) = []"
  using assms by (auto simp: bind_call_args_to_params_def is_valid_def Let_def pos_state_def split: if_splits)

lemma call_binding_pairs:
  assumes "distinct (map p_name params)" and "is_valid (bind_call_args_to_params args params)" and "i < length args"
  shows "\<exists>p. pairs_up params args (bind_call_args_to_params args params) i p"
proof -
  let ?pos = "takeWhile is_positional args" and ?rest = "dropWhile is_positional args"
  let ?k = "length ?pos" and ?n = "length params"
  note run = valid_binding_run [OF assms(2)]
  have fits: "fits_shape args params" using valid_iff_fits [OF assms(1)] assms(2) by blast
  then have named: "list_all (\<lambda>a. \<not> is_positional a) ?rest" and pre: "list_all (\<lambda>p. \<not> p_named_only p) (take ?k params)"
    by (auto simp: fits_shape_def Let_def dropWhile_eq_drop)
  have k: "?k \<le> ?n" using run length_takeWhile_le [of is_positional args] by simp
  have st: "bind_args params 0 ?pos (pos_state ?n 0) = pos_state ?n ?k"
    using bind_positionals [of ?pos params] k pre by (auto simp: list_all_iff dest: set_takeWhileD)
  have split: "bind_args params 0 args (pos_state ?n 0) = bind_args params ?k ?rest (pos_state ?n ?k)"
    using bind_args_append [of params 0 ?pos ?rest] by (simp add: st)
  have "\<exists>p. pairs_up params (?pos @ ?rest) (binding (pos_state ?n ?k)) j p" if "j < ?k" for j
  proof -
    have "is_positional (args ! j)" using that nth_mem [OF that] by (metis set_takeWhileD takeWhile_nth)
    with that k show ?thesis
      by (intro exI [of _ j]) (auto simp: pairs_up_def pos_state_def nth_append split: CallArg.split)
  qed
  with bind_nameds_pairs [OF assms(1) named, of "pos_state ?n ?k" ?pos] run split assms(3) k show ?thesis
    by (auto simp: pos_state_def)
qed


definition point_params :: "FnParam list" where
  "point_params = [\<lparr>p_name = 4, p_ty = TRError, p_named_only = False\<rparr>, \<lparr>p_name = 5, p_ty = TRError, p_named_only = False\<rparr>,
     \<lparr>p_name = 6, p_ty = TRError, p_named_only = True\<rparr>]"

text \<open>
  C16. A call binds to a signature exactly when it has its shape: as many arguments as parameters,
  positional ones first, the parameters they reach not named-only, and the named ones a permutation
  of the names that are left.  The binding then pairs every argument with one parameter and back, a
  positional argument with the parameter at its position, a named one with the parameter of its
  name.
\<close>

theorem call_binding_correct:
  assumes "distinct (map p_name params)"
  shows "(is_valid (bind_call_args_to_params args params) \<longleftrightarrow> fits_shape args params) \<and>
    (fits_shape args params \<longrightarrow>
      (\<forall>i<length args. \<exists>p. pairs_up params args (bind_call_args_to_params args params) i p))"
  using valid_iff_fits [OF assms] call_binding_pairs [OF assms] by blast

theorem call_binding_correct_witness:
  "is_valid (bind_call_args_to_params [Positional 0, Named 6 1, Named 5 2] point_params) \<and>
   (\<exists>p. pairs_up point_params [Positional 0, Named 6 1, Named 5 2]
      (bind_call_args_to_params [Positional 0, Named 6 1, Named 5 2] point_params) 2 p)"
proof -
  have "distinct (map p_name point_params)" by (simp add: point_params_def)
  note call = call_binding_correct [OF this, of "[Positional 0, Named 6 1, Named 5 2]"]
  have "is_valid (bind_call_args_to_params [Positional 0, Named 6 1, Named 5 2] point_params)" by code_simp
  with call show ?thesis by simp
qed

lemma overlap_iff:
  assumes "distinct (map p_name lhs)" and "distinct (map p_name rhs)"
  shows "call_shapes_overlap lhs rhs \<longleftrightarrow>
    (\<exists>args. is_valid (bind_call_args_to_params args lhs) \<and> is_valid (bind_call_args_to_params args rhs))"
proof
  assume "call_shapes_overlap lhs rhs"
  then obtain k where len: "length lhs = length rhs" and k: "k \<le> length lhs" and at: "shapes_overlap_at lhs rhs k"
    by (auto simp: call_shapes_overlap_def list_ex_iff less_Suc_eq_le simp del: upt_Suc)
  define args where "args = replicate k (Positional 0) @ map (\<lambda>p. Named (p_name p) 0) (drop k lhs)"
  have tw: "length (takeWhile is_positional args) = k"
  proof -
    have "takeWhile is_positional (replicate k (Positional 0) @ bs) = replicate k (Positional 0) @ takeWhile is_positional bs"
      for bs by (induction k) simp_all
    then show ?thesis by (cases "drop k lhs") (simp_all add: args_def)
  qed
  have "mset (map p_name (drop k rhs)) = mset (map p_name (drop k lhs))"
    using at unfolding shapes_overlap_at_def by (metis mset_sort)
  then have "fits_shape args lhs \<and> fits_shape args rhs"
    using at k len by (simp add: fits_shape_def tw shapes_overlap_at_def)
      (auto simp: args_def list_all_iff multiset.map_comp comp_def)
  with valid_iff_fits [OF assms(1)] valid_iff_fits [OF assms(2)]
  show "\<exists>args. is_valid (bind_call_args_to_params args lhs) \<and> is_valid (bind_call_args_to_params args rhs)"
    by blast
next
  assume "\<exists>args. is_valid (bind_call_args_to_params args lhs) \<and> is_valid (bind_call_args_to_params args rhs)"
  then obtain args where fits: "fits_shape args lhs" "fits_shape args rhs"
    using valid_iff_fits [OF assms(1)] valid_iff_fits [OF assms(2)] by blast
  let ?k = "length (takeWhile is_positional args)"
  have "mset (map p_name (drop ?k lhs)) = mset (map p_name (drop ?k rhs))"
    using fits by (simp add: fits_shape_def Let_def)
  then have "sort (map p_name (drop ?k lhs)) = sort (map p_name (drop ?k rhs))"
    by (metis mset_sort properties_for_sort sorted_sort)
  moreover have "?k < Suc (length lhs)"
    using fits(1) length_takeWhile_le [of is_positional args] by (simp add: fits_shape_def Let_def)
  ultimately show "call_shapes_overlap lhs rhs"
    using fits unfolding call_shapes_overlap_def list_ex_iff
    by (auto simp: fits_shape_def Let_def shapes_overlap_at_def simp del: upt_Suc)
qed

text \<open>
  C17. The overlap test is exact: two signatures overlap exactly when some call binds to both.
\<close>

theorem overlap_exact:
  assumes "distinct (map p_name lhs)" and "distinct (map p_name rhs)"
  shows "call_shapes_overlap lhs rhs \<longleftrightarrow>
    (\<exists>args. is_valid (bind_call_args_to_params args lhs) \<and> is_valid (bind_call_args_to_params args rhs))"
  by (rule overlap_iff [OF assms])

theorem overlap_exact_witness:
  "call_shapes_overlap point_params point_params \<longleftrightarrow>
    (\<exists>args. is_valid (bind_call_args_to_params args point_params) \<and> is_valid (bind_call_args_to_params args point_params))"
  by (rule overlap_exact) (simp_all add: point_params_def)

section \<open>Selection\<close>

lemma try_candidates_successes:
  "successes (fold (try_candidate args params_for) cs t) = successes t @
     map (\<lambda>c. (c, bind_call_args_to_params args (params_for c)))
       (filter (\<lambda>c. is_valid (bind_call_args_to_params args (params_for c))) cs)"
  by (induction cs arbitrary: t)
    (auto simp: try_candidate_def Let_def split: list.split CallShapeError.split)

text \<open>
  C18. In a family whose signatures do not overlap pairwise the choice is never ambiguous, and a
  candidate is selected exactly when the call binds to it, with that binding.
\<close>

theorem family_selection:
  assumes "distinct candidates" and "list_all (\<lambda>c. distinct (map p_name (params_for c))) candidates"
    and "list_all (\<lambda>c. list_all (\<lambda>d. c = d \<or> \<not> call_shapes_overlap (params_for c) (params_for d)) candidates) candidates"
  shows "select_call_family_candidate args candidates params_for \<noteq> Ambiguous \<and>
    (select_call_family_candidate args candidates params_for = Selected c b \<longleftrightarrow>
       c \<in> set candidates \<and> is_valid b \<and> b = bind_call_args_to_params args (params_for c))"
proof -
  let ?ok = "\<lambda>c. is_valid (bind_call_args_to_params args (params_for c))"
  have uniq: "c = d" if "c \<in> set candidates" "d \<in> set candidates" "?ok c" "?ok d" for c d
    using that assms(2,3) overlap_iff [of "params_for c" "params_for d"] unfolding list_all_iff by metis
  have d: "distinct (filter ?ok candidates)" using assms(1) by simp
  consider "filter ?ok candidates = []" | d where "filter ?ok candidates = [d]"
  proof (cases "filter ?ok candidates")
    case (Cons x xs)
    moreover have "xs = []"
    proof (cases xs)
      case c: (Cons y ys)
      have "{x, y} \<subseteq> set (filter ?ok candidates)" unfolding Cons c by simp
      with uniq have "x = y" by auto
      with d Cons c show ?thesis by simp
    qed
    ultimately show ?thesis using that by blast
  qed (use that in blast)
  then show ?thesis
  proof cases
    case 1
    then have "\<not> ?ok c" if "c \<in> set candidates" for c using that by (metis filter_empty_conv)
    with 1 show ?thesis by (auto simp: select_call_family_candidate_def try_candidates_successes Let_def)
  next
    case (2 x)
    then have "set (filter ?ok candidates) = {x}" by simp
    then have "c \<in> set candidates \<Longrightarrow> ?ok c \<Longrightarrow> x = c" and "x \<in> set candidates \<and> ?ok x" for c by auto
    with 2 show ?thesis by (auto simp: select_call_family_candidate_def try_candidates_successes Let_def)
  qed
qed


definition shift_params :: "nat \<Rightarrow> FnParam list" where
  "shift_params n = take (Suc n) point_params"

theorem family_selection_witness:
  "select_call_family_candidate [Positional 0, Positional 1] [0, 1] shift_params \<noteq> Ambiguous \<and>
   (select_call_family_candidate [Positional 0, Positional 1] [0, 1] shift_params =
      Selected 1 (bind_call_args_to_params [Positional 0, Positional 1] (shift_params 1)) \<longleftrightarrow>
    1 \<in> set [0, 1 :: nat] \<and> is_valid (bind_call_args_to_params [Positional 0, Positional 1] (shift_params 1)) \<and>
    bind_call_args_to_params [Positional 0, Positional 1] (shift_params 1) =
      bind_call_args_to_params [Positional 0, Positional 1] (shift_params 1))"
  by (rule family_selection) (simp_all add: shift_params_def point_params_def call_shapes_overlap_def)

end
