(* ===== verification/Shrink.thy ===== *)
theory Shrink
  imports Choice
begin

text \<open>
  Shrinking of failing choice sequences (\<open>pbt/src/shrink.rs\<close>).  The test is a closure with state:
  it is given its state and a candidate and returns the outcome and its new state.  Every loop is a
  terminating function; the outer one ends because progress costs attempts.  Sequences have as many
  maxima as choices, as \<open>ChoiceSequence::new\<close> asserts, so draining and swapping them does not panic;
  on sequences without that invariant the candidates below say nothing of the code, which may panic.
\<close>

datatype ShrinkOutcome = StillFails | Passes | Invalid

definition MAX_ATTEMPTS :: nat where
  "MAX_ATTEMPTS = 1000"

record 't Shrinking =
  best :: ChoiceSequence
  attempts :: nat
  progress :: bool
  test_state :: 't

type_synonym 't test_fn = "'t \<Rightarrow> ChoiceSequence \<Rightarrow> ShrinkOutcome \<times> 't"

text \<open>One attempt: the candidate replaces the best sequence when it still fails.\<close>

definition attempt :: "'t test_fn \<Rightarrow> ChoiceSequence \<Rightarrow> 't Shrinking \<Rightarrow> bool \<times> 't Shrinking" where
  "attempt test candidate st =
     (let (outcome, t) = test (test_state st) candidate;
          st1 = st\<lparr>attempts := attempts st + 1, test_state := t\<rparr>
      in if outcome = StillFails then (True, st1\<lparr>best := candidate, progress := True\<rparr>)
         else (False, st1))"

lemma attempt_simps [simp]:
  "attempts (snd (attempt test c st)) = attempts st + 1"
  "best (snd (attempt test c st)) = (if fst (attempt test c st) then c else best st)"
  "progress (snd (attempt test c st)) = (progress st \<or> fst (attempt test c st))"
  by (auto simp: attempt_def Let_def split: prod.split)

section \<open>The passes\<close>

definition zero_suffix :: "nat \<Rightarrow> ChoiceSequence \<Rightarrow> ChoiceSequence" where
  "zero_suffix i s =
     \<lparr>choices = take (Suc i) (take i (choices s) @ map (\<lambda>_. 0) (drop i (choices s))),
      maxima = take (Suc i) (maxima s)\<rparr>"

definition delete_block :: "nat \<Rightarrow> nat \<Rightarrow> ChoiceSequence \<Rightarrow> ChoiceSequence" where
  "delete_block i n s =
     \<lparr>choices = take i (choices s) @ drop (i + n) (choices s),
      maxima = take i (maxima s) @ drop (i + n) (maxima s)\<rparr>"

definition set_choice :: "nat \<Rightarrow> u64 \<Rightarrow> ChoiceSequence \<Rightarrow> ChoiceSequence" where
  "set_choice i v s = s\<lparr>choices := (choices s)[i := v]\<rparr>"

definition swap_list :: "nat \<Rightarrow> 'a list \<Rightarrow> 'a list" where
  "swap_list i xs = xs[i := xs ! Suc i, Suc i := xs ! i]"

definition swap_pair :: "nat \<Rightarrow> ChoiceSequence \<Rightarrow> ChoiceSequence" where
  "swap_pair i s = \<lparr>choices = swap_list i (choices s), maxima = swap_list i (maxima s)\<rparr>"

lemma seq_len_candidates [simp]:
  "i < seq_len s \<Longrightarrow> seq_len (zero_suffix i s) = Suc i"
  "i + n \<le> seq_len s \<Longrightarrow> seq_len (delete_block i n s) = seq_len s - n"
  "seq_len (set_choice i v s) = seq_len s"
  "seq_len (swap_pair i s) = seq_len s"
  by (auto simp: seq_len_def zero_suffix_def delete_block_def set_choice_def swap_pair_def swap_list_def min_def)

function zero_suffix_pass :: "'t test_fn \<Rightarrow> nat \<Rightarrow> 't Shrinking \<Rightarrow> 't Shrinking" where
  "zero_suffix_pass test i st =
     (if i < seq_len (best st) \<and> attempts st < MAX_ATTEMPTS then
        if Suc i < seq_len (best st) then
          let (ok, st1) = attempt test (zero_suffix i (best st)) st
          in if ok then zero_suffix_pass test i st1 else zero_suffix_pass test (Suc i) st1
        else zero_suffix_pass test (Suc i) st
      else st)"
  by auto
termination
proof (relation "measure (\<lambda>(test, i, st). seq_len (best st) - i)", goal_cases)
  case (2 test i st x ok st1)
  then have "ok = fst (attempt test (zero_suffix i (best st)) st)" "st1 = snd (attempt test (zero_suffix i (best st)) st)"
    by (auto simp: prod_eq_iff)
  with 2 show ?case by auto
next
  case (3 test i st x ok st1)
  then have "ok = fst (attempt test (zero_suffix i (best st)) st)" "st1 = snd (attempt test (zero_suffix i (best st)) st)"
    by (auto simp: prod_eq_iff)
  with 3 show ?case by auto
qed auto

function delete_pass :: "'t test_fn \<Rightarrow> nat \<Rightarrow> nat \<Rightarrow> 't Shrinking \<Rightarrow> 't Shrinking" where
  "delete_pass test n i st =
     (if 0 < n \<and> i + n \<le> seq_len (best st) \<and> attempts st < MAX_ATTEMPTS then
        let (ok, st1) = attempt test (delete_block i n (best st)) st
        in if ok then delete_pass test n i st1 else delete_pass test n (Suc i) st1
      else st)"
  by auto
termination
proof (relation "measure (\<lambda>(test, n, i, st). seq_len (best st) + 1 - i)", goal_cases)
  case (2 test n i st x ok st1)
  then have "ok = fst (attempt test (delete_block i n (best st)) st)" "st1 = snd (attempt test (delete_block i n (best st)) st)"
    by (auto simp: prod_eq_iff)
  with 2 show ?case by auto
next
  case (3 test n i st x ok st1)
  then have "ok = fst (attempt test (delete_block i n (best st)) st)" "st1 = snd (attempt test (delete_block i n (best st)) st)"
    by (auto simp: prod_eq_iff)
  with 3 show ?case by auto
qed auto

lemma midpoint:
  fixes lo hi :: u64
  assumes "lo < hi"
  shows "lo \<le> lo + (hi - lo) div 2" and "lo + (hi - lo) div 2 < hi"
    and "unat (lo + (hi - lo) div 2) = unat lo + (unat hi - unat lo) div 2"
proof -
  have d: "unat (hi - lo) = unat hi - unat lo" using assms by (simp add: unat_sub less_imp_le)
  have "unat lo + (unat hi - unat lo) div 2 < unat hi" using assms by (simp add: word_less_nat_alt)
  moreover from this have "unat lo + (unat hi - unat lo) div 2 < 2 ^ 64"
    using unsigned_less [of hi, where 'a = nat] by simp
  ultimately show u: "unat (lo + (hi - lo) div 2) = unat lo + (unat hi - unat lo) div 2"
    by (simp add: unat_word_ariths unat_div d)
  then show "lo \<le> lo + (hi - lo) div 2" by (simp add: word_le_nat_alt)
  show "lo + (hi - lo) div 2 < hi"
    using assms by (simp add: word_less_nat_alt u)
qed

function minimize_choice :: "'t test_fn \<Rightarrow> nat \<Rightarrow> u64 \<Rightarrow> u64 \<Rightarrow> 't Shrinking \<Rightarrow> 't Shrinking" where
  "minimize_choice test i lo hi st =
     (if lo < hi \<and> attempts st < MAX_ATTEMPTS then
        let mid = lo + (hi - lo) div 2;
            (ok, st1) = attempt test (set_choice i mid (best st)) st
        in if ok then minimize_choice test i lo mid st1 else minimize_choice test i (mid + 1) hi st1
      else st)"
  by auto
termination
proof (relation "measure (\<lambda>(test, i, lo, hi, st). unat hi - unat lo)", goal_cases)
  case (2 test i lo hi st mid x ok st1)
  then show ?case using midpoint [of lo hi] by (auto simp: word_less_nat_alt word_le_nat_alt)
next
  case (3 test i lo hi st mid x ok st1)
  then have m: "lo \<le> mid" "mid < hi" using midpoint [of lo hi] by auto
  have "mid + 1 \<noteq> 0"
  proof
    assume "mid + 1 = 0"
    then have "mid = - 1" by (simp add: eq_neg_iff_add_eq_0)
    with m(2) show False by simp
  qed
  then have "unat (mid + 1) = Suc (unat mid)" by (metis add.commute unatSuc)
  with m show ?case by (auto simp: word_less_nat_alt word_le_nat_alt)
qed auto


declare zero_suffix_pass.simps [simp del] delete_pass.simps [simp del] minimize_choice.simps [simp del]

fun minimize_pass :: "'t test_fn \<Rightarrow> nat list \<Rightarrow> 't Shrinking \<Rightarrow> 't Shrinking" where
  "minimize_pass test [] st = st"
| "minimize_pass test (i # is) st =
     (if MAX_ATTEMPTS \<le> attempts st then st
      else if choices (best st) ! i = 0 then minimize_pass test is st
      else minimize_pass test is (minimize_choice test i 0 (choices (best st) ! i) st))"

fun swap_pass :: "'t test_fn \<Rightarrow> nat list \<Rightarrow> 't Shrinking \<Rightarrow> 't Shrinking" where
  "swap_pass test [] st = st"
| "swap_pass test (i # is) st =
     (if MAX_ATTEMPTS \<le> attempts st then st
      else if choices (best st) ! Suc i < choices (best st) ! i
      then swap_pass test is (snd (attempt test (swap_pair i (best st)) st))
      else swap_pass test is st)"

definition shrink_round :: "'t test_fn \<Rightarrow> 't Shrinking \<Rightarrow> 't Shrinking" where
  "shrink_round test st =
     (let st0 = st\<lparr>progress := False\<rparr>;
          st1 = zero_suffix_pass test 0 st0;
          st2 = fold (\<lambda>n. delete_pass test n 0) [8, 4, 2, 1] st1;
          st3 = minimize_pass test [0..<seq_len (best st2)] st2
      in if 2 \<le> seq_len (best st3) then swap_pass test [0..<seq_len (best st3) - 1] st3 else st3)"

section \<open>What every pass keeps\<close>

text \<open>
  Every pass is a run of attempts, each made below the limit on a candidate built from the best
  sequence so far.
\<close>

inductive candidate :: "ChoiceSequence \<Rightarrow> ChoiceSequence \<Rightarrow> bool" where
  "Suc i < seq_len s \<Longrightarrow> candidate s (zero_suffix i s)"
| "0 < n \<Longrightarrow> i + n \<le> seq_len s \<Longrightarrow> candidate s (delete_block i n s)"
| "i < seq_len s \<Longrightarrow> v < choices s ! i \<Longrightarrow> candidate s (set_choice i v s)"
| "Suc i < seq_len s \<Longrightarrow> choices s ! Suc i < choices s ! i \<Longrightarrow> candidate s (swap_pair i s)"

inductive steps :: "'t test_fn \<Rightarrow> 't Shrinking \<Rightarrow> 't Shrinking \<Rightarrow> bool" for test where
  steps_refl: "steps test st st"
| steps_attempt: "attempts st < MAX_ATTEMPTS \<Longrightarrow> candidate (best st) c \<Longrightarrow>
    steps test (snd (attempt test c st)) st' \<Longrightarrow> steps test st st'"

lemma steps_trans: "steps test a b \<Longrightarrow> steps test b c \<Longrightarrow> steps test a c"
  by (induction rule: steps.induct) (auto intro: steps.intros)

lemma steps_attempts: "steps test st st' \<Longrightarrow> attempts st \<le> attempts st' \<and> (attempts st \<le> MAX_ATTEMPTS \<longrightarrow> attempts st' \<le> MAX_ATTEMPTS)"
  by (induction rule: steps.induct) auto

lemma steps_progress: "steps test st st' \<Longrightarrow> progress st' \<Longrightarrow> progress st \<or> attempts st < attempts st'"
  by (induction rule: steps.induct) (auto dest: steps_attempts)

lemma steps_via: "attempt test c st = (ok, st1) \<Longrightarrow> attempts st < MAX_ATTEMPTS \<Longrightarrow> candidate (best st) c \<Longrightarrow>
  steps test st1 st' \<Longrightarrow> steps test st st'"
  by (auto intro: steps_attempt)

lemma zero_suffix_pass_steps: "steps test st (zero_suffix_pass test i st)"
proof (induction test i st rule: zero_suffix_pass.induct)
  case (1 test i st)
  obtain ok st1 where a: "attempt test (zero_suffix i (best st)) st = (ok, st1)" by fastforce
  show ?case
  proof (cases "i < seq_len (best st) \<and> attempts st < MAX_ATTEMPTS \<and> Suc i < seq_len (best st)")
    case True
    have "steps test st1 (if ok then zero_suffix_pass test i st1 else zero_suffix_pass test (Suc i) st1)"
      using True 1(1,2) a by auto
    with True show ?thesis
      by (subst zero_suffix_pass.simps) (auto simp: a intro!: steps_via [OF a] candidate.intros split: if_splits)
  qed (subst zero_suffix_pass.simps, use 1(3) in \<open>auto intro: steps_refl\<close>)
qed

lemma delete_pass_steps: "steps test st (delete_pass test n i st)"
proof (induction test n i st rule: delete_pass.induct)
  case (1 test n i st)
  obtain ok st1 where a: "attempt test (delete_block i n (best st)) st = (ok, st1)" by fastforce
  show ?case
  proof (cases "0 < n \<and> i + n \<le> seq_len (best st) \<and> attempts st < MAX_ATTEMPTS")
    case True
    have "steps test st1 (if ok then delete_pass test n i st1 else delete_pass test n (Suc i) st1)"
      using True 1 a by auto
    with True show ?thesis
      by (subst delete_pass.simps) (auto simp: a intro!: steps_via [OF a] candidate.intros split: if_splits)
  qed (subst delete_pass.simps, auto intro: steps_refl)
qed

lemma minimize_choice_steps:
  "i < seq_len (best st) \<Longrightarrow> hi \<le> choices (best st) ! i \<Longrightarrow> steps test st (minimize_choice test i lo hi st)"
proof (induction test i lo hi st rule: minimize_choice.induct)
  case (1 test i lo hi st)
  let ?mid = "lo + (hi - lo) div 2"
  obtain ok st1 where a: "attempt test (set_choice i ?mid (best st)) st = (ok, st1)" by fastforce
  then have b: "best st1 = (if ok then set_choice i ?mid (best st) else best st)"
    using attempt_simps(2) [of test "set_choice i ?mid (best st)" st] by simp
  show ?case
  proof (cases "lo < hi \<and> attempts st < MAX_ATTEMPTS")
    case True
    then have mid: "?mid < hi" using midpoint by blast
    have "i < seq_len (best st1)" and "ok \<longrightarrow> ?mid \<le> choices (best st1) ! i" and "\<not> ok \<longrightarrow> hi \<le> choices (best st1) ! i"
      using "1.prems" b by (auto simp: set_choice_def seq_len_def)
    then have "steps test st1 (if ok then minimize_choice test i lo ?mid st1 else minimize_choice test i (?mid + 1) hi st1)"
      using True 1(1,2) a by auto
    moreover have "candidate (best st) (set_choice i ?mid (best st))"
      using "1.prems" mid by (intro candidate.intros) auto
    ultimately show ?thesis
      using True by (subst minimize_choice.simps) (auto simp: a intro!: steps_via [OF a] split: if_splits)
  qed (subst minimize_choice.simps, auto intro: steps_refl)
qed

lemma minimize_choice_len: "seq_len (best (minimize_choice test i lo hi st)) = seq_len (best st)"
proof (induction test i lo hi st rule: minimize_choice.induct)
  case (1 test i lo hi st)
  let ?mid = "lo + (hi - lo) div 2"
  obtain ok st1 where a: "attempt test (set_choice i ?mid (best st)) st = (ok, st1)" by fastforce
  then have "seq_len (best st1) = seq_len (best st)"
    using attempt_simps(2) [of test "set_choice i ?mid (best st)" st] by simp
  with 1 a show ?case by (subst minimize_choice.simps) (auto simp: Let_def)
qed

lemma minimize_pass_steps: "list_all (\<lambda>i. i < seq_len (best st)) is \<Longrightarrow> steps test st (minimize_pass test is st)"
proof (induction test "is" st rule: minimize_pass.induct)
  case (2 test i "is" st)
  then show ?case by (auto intro: steps_trans minimize_choice_steps simp: minimize_choice_len steps_refl)
qed (simp add: steps_refl)

lemma swap_pass_steps: "list_all (\<lambda>i. Suc i < seq_len (best st)) is \<Longrightarrow> steps test st (swap_pass test is st)"
proof (induction test "is" st rule: swap_pass.induct)
  case (2 test i "is" st)
  have "seq_len (best (snd (attempt test (swap_pair i (best st)) st))) = seq_len (best st)" by simp
  with 2 show ?case by (auto intro: steps_attempt candidate.intros simp: steps_refl)
qed (simp add: steps_refl)

lemma delete_passes_steps: "steps test st (fold (\<lambda>n. delete_pass test n 0) ns st)"
  by (induction ns arbitrary: st) (auto intro: steps_refl steps_trans [OF delete_pass_steps])

lemma shrink_round_steps: "steps test (st\<lparr>progress := False\<rparr>) (shrink_round test st)"
proof -
  define st1 where "st1 = zero_suffix_pass test 0 (st\<lparr>progress := False\<rparr>)"
  define st2 where "st2 = fold (\<lambda>n. delete_pass test n 0) [8, 4, 2, 1] st1"
  define st3 where "st3 = minimize_pass test [0..<seq_len (best st2)] st2"
  have "steps test (st\<lparr>progress := False\<rparr>) st1" by (simp add: st1_def zero_suffix_pass_steps)
  moreover have "steps test st1 st2"
    unfolding st2_def by (rule delete_passes_steps)
  moreover have "steps test st2 st3"
    unfolding st3_def by (rule minimize_pass_steps) (simp add: list_all_iff)
  moreover have "steps test st3 (swap_pass test [0..<seq_len (best st3) - 1] st3)"
    by (rule swap_pass_steps) (auto simp: list_all_iff)
  moreover have "shrink_round test st = (if 2 \<le> seq_len (best st3)
      then swap_pass test [0..<seq_len (best st3) - 1] st3 else st3)"
    by (simp add: shrink_round_def st1_def st2_def st3_def Let_def)
  ultimately show ?thesis by (metis steps_trans)
qed

section \<open>The loop\<close>

function shrink_loop :: "'t test_fn \<Rightarrow> 't Shrinking \<Rightarrow> 't Shrinking" where
  "shrink_loop test st =
     (let st' = shrink_round test st
      in if \<not> progress st' \<or> MAX_ATTEMPTS \<le> attempts st' then st' else shrink_loop test st')"
  by auto
termination
proof (relation "measure (\<lambda>(test, st). MAX_ATTEMPTS - attempts st)", goal_cases)
  case (2 test st st')
  then show ?case using steps_progress [OF shrink_round_steps [of test st]] by auto
qed simp

declare shrink_loop.simps [simp del]

definition shrink :: "'t test_fn \<Rightarrow> 't \<Rightarrow> ChoiceSequence \<Rightarrow> ChoiceSequence \<times> 't" where
  "shrink test t initial =
     (let st = shrink_loop test \<lparr>best = initial, attempts = 0, progress = False, test_state = t\<rparr>
      in (best st, test_state st))"

end
