(* ===== verification/Shrink_Properties.thy ===== *)
theory Shrink_Properties
  imports Shrink
begin

text \<open>
  Shrinking as a run of attempts: what it keeps, in which order it descends, how many tests it makes
  and what has been tried when it stops.
\<close>

section \<open>Runs\<close>

inductive rounds :: "'t test_fn \<Rightarrow> 't Shrinking \<Rightarrow> 't Shrinking \<Rightarrow> bool" for test where
  rounds_refl: "rounds test st st"
| rounds_step: "steps test (st\<lparr>progress := False\<rparr>) st1 \<Longrightarrow> rounds test st1 st2 \<Longrightarrow> rounds test st st2"

lemma shrink_loop_rounds: "rounds test st (shrink_loop test st)"
proof (induction test st rule: shrink_loop.induct)
  case (1 test st)
  then show ?case
    by (subst shrink_loop.simps) (auto simp: Let_def intro: rounds.intros shrink_round_steps)
qed

definition wf_seq :: "ChoiceSequence \<Rightarrow> bool" where
  "wf_seq s \<longleftrightarrow> list_all2 (\<le>) (choices s) (maxima s)"

definition simpler :: "ChoiceSequence \<Rightarrow> ChoiceSequence \<Rightarrow> bool" where
  "simpler s s' \<longleftrightarrow> (choices s, choices s') \<in> lenlex {(a, b). a < b}"

lemma wf_candidate:
  assumes "candidate s c" and "wf_seq s"
  shows "wf_seq c"
  using assms(1)
proof cases
  case (1 i)
  with assms(2) show ?thesis
    by (auto simp: wf_seq_def zero_suffix_def list_all2_conv_all_nth seq_len_def nth_append min_def)
next
  case (2 n i)
  with assms(2) show ?thesis
    unfolding wf_seq_def delete_block_def by (auto intro!: list_all2_appendI simp: list_all2_takeI list_all2_dropI)
next
  case (3 i v)
  with assms(2) show ?thesis
    by (auto simp: wf_seq_def set_choice_def list_all2_conv_all_nth seq_len_def nth_list_update)
next
  case (4 i)
  with assms(2) show ?thesis
    by (auto simp: wf_seq_def swap_pair_def swap_list_def list_all2_conv_all_nth seq_len_def nth_list_update)
qed

lemma lex_update:
  assumes "i < length xs" and "(v, xs ! i) \<in> r" and "length ys = length xs" and "take i ys = take i xs" and "ys ! i = v"
  shows "(ys, xs) \<in> lenlex r"
proof -
  have "xs = take i xs @ xs ! i # drop (Suc i) xs" and "ys = take i xs @ v # drop (Suc i) ys"
    using assms id_take_nth_drop [of i ys] id_take_nth_drop [of i xs] by auto
  with assms(2,3) show ?thesis unfolding lenlex_conv lex_conv by blast
qed

lemma candidate_simpler:
  assumes "candidate s c"
  shows "simpler c s"
  using assms
proof cases
  case (1 i)
  then show ?thesis by (simp add: simpler_def lenlex_conv seq_len_def [symmetric])
next
  case (2 n i)
  then show ?thesis by (simp add: simpler_def lenlex_conv seq_len_def [symmetric])
next
  case (3 i v)
  then show ?thesis unfolding simpler_def
    by (intro lex_update [of i]) (auto simp: set_choice_def seq_len_def)
next
  case (4 i)
  then show ?thesis unfolding simpler_def
    by (intro lex_update [of i]) (auto simp: swap_pair_def swap_list_def seq_len_def nth_list_update)
qed


lemma simpler_trans: "simpler a b \<Longrightarrow> simpler b c \<Longrightarrow> simpler a c"
  unfolding simpler_def by (rule transD [OF lenlex_transI]) (auto intro: transI)

definition kept :: "'t test_fn \<Rightarrow> ChoiceSequence \<Rightarrow> ChoiceSequence \<Rightarrow> bool" where
  "kept test s s' \<longleftrightarrow> (s' = s \<or> simpler s' s \<and> (\<exists>t. fst (test t s') = StillFails)) \<and> (wf_seq s \<longrightarrow> wf_seq s')"

lemma kept_trans: "kept test a b \<Longrightarrow> kept test b c \<Longrightarrow> kept test a c"
  by (auto simp: kept_def intro: simpler_trans)

lemma attempt_kept: "candidate (best st) c \<Longrightarrow> kept test (best st) (best (snd (attempt test c st)))"
  by (auto simp: kept_def attempt_def Let_def candidate_simpler wf_candidate split: prod.split)
    (metis fst_conv)

lemma steps_kept: "steps test st st' \<Longrightarrow> kept test (best st) (best st')"
proof (induction rule: steps.induct)
  case (steps_attempt st c st')
  then show ?case using attempt_kept kept_trans by blast
qed (simp add: kept_def)

lemma rounds_kept: "rounds test st st' \<Longrightarrow> kept test (best st) (best st')"
proof (induction rule: rounds.induct)
  case (rounds_step st st1 st2)
  then show ?case using steps_kept kept_trans by fastforce
qed (simp add: kept_def)

lemma rounds_attempts: "rounds test st st' \<Longrightarrow> attempts st \<le> MAX_ATTEMPTS \<Longrightarrow> attempts st' \<le> MAX_ATTEMPTS"
  by (induction rule: rounds.induct) (auto dest: steps_attempts)

section \<open>Counting the tests\<close>

definition counting :: "(ChoiceSequence \<Rightarrow> ShrinkOutcome) \<Rightarrow> nat test_fn" where
  "counting g = (\<lambda>n c. (g c, Suc n))"

lemma attempt_counting:
  "attempt (counting g) c st = (g c = StillFails,
     st\<lparr>attempts := attempts st + 1, test_state := Suc (test_state st),
        best := if g c = StillFails then c else best st, progress := progress st \<or> g c = StillFails\<rparr>)"
  by (simp add: attempt_def counting_def Let_def)

lemma steps_count: "steps (counting g) st st' \<Longrightarrow> test_state st' + attempts st = test_state st + attempts st'"
  by (induction rule: steps.induct) (auto simp: attempt_counting)

lemma rounds_count: "rounds (counting g) st st' \<Longrightarrow> test_state st' + attempts st = test_state st + attempts st'"
  by (induction rule: rounds.induct) (auto dest: steps_count)

text \<open>
  C40. Shrinking ends and is sound: its result is the initial sequence or one that still fails and
  comes before it in the order by length and then from the first choice on; a sequence whose choices
  are within their maxima stays so; and the test runs at most \<open>MAX_ATTEMPTS\<close> times.
\<close>

theorem shrink_sound:
  assumes "shrink (counting g) 0 initial = (s, calls)"
  shows "(s = initial \<or> g s = StillFails \<and> simpler s initial) \<and> (wf_seq initial \<longrightarrow> wf_seq s) \<and> calls \<le> MAX_ATTEMPTS"
proof -
  define st0 where "st0 = \<lparr>best = initial, attempts = 0, progress = False, test_state = 0 :: nat\<rparr>"
  have r: "rounds (counting g) st0 (shrink_loop (counting g) st0)" by (rule shrink_loop_rounds)
  have s: "s = best (shrink_loop (counting g) st0)" "calls = test_state (shrink_loop (counting g) st0)"
    using assms by (simp_all add: shrink_def st0_def Let_def)
  have "kept (counting g) initial s" using rounds_kept [OF r] by (simp add: s st0_def)
  moreover have "calls \<le> MAX_ATTEMPTS"
    using rounds_count [OF r] rounds_attempts [OF r] by (simp add: s st0_def)
  ultimately show ?thesis by (auto simp: kept_def counting_def)
qed

section \<open>When shrinking stops early\<close>

lemma steps_quiet:
  "steps test st st' \<Longrightarrow> \<not> progress st' \<Longrightarrow> \<not> progress st \<and> best st' = best st"
  by (induction rule: steps.induct) auto

lemma delete_pass_quiet:
  assumes "\<not> progress (delete_pass (counting g) n i st)" and "attempts (delete_pass (counting g) n i st) < MAX_ATTEMPTS"
    and "0 < n" and "i \<le> j" and "j + n \<le> seq_len (best st)"
  shows "g (delete_block j n (best st)) \<noteq> StillFails"
  using assms
proof (induction "counting g" n i st rule: delete_pass.induct)
  case (1 n i st)
  have more: "attempts st < MAX_ATTEMPTS" using steps_attempts [OF delete_pass_steps [of "counting g" st n i]] 1(4) by simp
  obtain ok st1 where a: "attempt (counting g) (delete_block i n (best st)) st = (ok, st1)" by fastforce
  have unfold: "delete_pass (counting g) n i st =
      (if ok then delete_pass (counting g) n i st1 else delete_pass (counting g) n (Suc i) st1)"
    using more "1.prems" by (subst delete_pass.simps) (simp add: a)
  have "\<not> ok"
  proof
    assume ok
    then have "progress st1" using a by (auto simp: attempt_counting)
    with steps_quiet [OF delete_pass_steps [of "counting g" st1 n i]] unfold \<open>ok\<close> "1.prems"(1) show False by simp
  qed
  then have b: "best st1 = best st" "g (delete_block i n (best st)) \<noteq> StillFails" using a by (auto simp: attempt_counting)
  show ?case
  proof (cases "j = i")
    case False
    with 1 a b unfold \<open>\<not> ok\<close> more show ?thesis by auto
  qed (use b in simp)
qed

lemma delete_passes_quiet:
  assumes "\<not> progress (fold (\<lambda>n. delete_pass (counting g) n 0) ns st)"
    and "attempts (fold (\<lambda>n. delete_pass (counting g) n 0) ns st) < MAX_ATTEMPTS"
    and "n \<in> set ns" and "0 < n" and "j + n \<le> seq_len (best st)"
  shows "g (delete_block j n (best st)) \<noteq> StillFails"
  using assms
proof (induction ns arbitrary: st)
  case (Cons m ns)
  let ?st = "delete_pass (counting g) m 0 st"
  have r: "steps (counting g) ?st (fold (\<lambda>n. delete_pass (counting g) n 0) ns ?st)" by (rule delete_passes_steps)
  have q: "\<not> progress ?st" "attempts ?st < MAX_ATTEMPTS"
    using steps_quiet [OF r] steps_attempts [OF r] Cons.prems by auto
  have b: "best ?st = best st" using steps_quiet [OF delete_pass_steps q(1)] by blast
  show ?case
  proof (cases "n = m")
    case True
    with delete_pass_quiet [OF q] Cons.prems show ?thesis by auto
  next
    case False
    with Cons b show ?thesis by (metis fold_simps(2) set_ConsD)
  qed
qed simp

lemma shrink_loop_last:
  "\<exists>st0. shrink_loop test st = shrink_round test st0 \<and>
     (\<not> progress (shrink_round test st0) \<or> MAX_ATTEMPTS \<le> attempts (shrink_round test st0))"
proof (induction test st rule: shrink_loop.induct)
  case (1 test st)
  then show ?case by (subst shrink_loop.simps) (auto simp: Let_def)
qed


lemma minimize_choice_quiet:
  assumes "\<not> progress (minimize_choice (counting g) i lo hi st)"
    and "attempts (minimize_choice (counting g) i lo hi st) < MAX_ATTEMPTS"
    and "lo < hi" and "i < seq_len (best st)" and "hi \<le> choices (best st) ! i"
  shows "g (set_choice i (hi - 1) (best st)) \<noteq> StillFails"
  using assms
proof (induction "counting g" i lo hi st rule: minimize_choice.induct)
  case (1 i lo hi st)
  let ?mid = "lo + (hi - lo) div 2"
  note mid = midpoint [OF "1.prems"(3)]
  have more: "attempts st < MAX_ATTEMPTS"
    using steps_attempts [OF minimize_choice_steps [OF "1.prems"(4,5), of "counting g" lo]] "1.prems"(2) by simp
  obtain ok st1 where a: "attempt (counting g) (set_choice i ?mid (best st)) st = (ok, st1)" by fastforce
  have unfold: "minimize_choice (counting g) i lo hi st =
      (if ok then minimize_choice (counting g) i lo ?mid st1 else minimize_choice (counting g) i (?mid + 1) hi st1)"
    using more "1.prems"(3) by (subst minimize_choice.simps) (simp add: a Let_def)
  have "\<not> ok"
  proof
    assume ok
    then have "progress st1" "i < seq_len (best st1)" "?mid \<le> choices (best st1) ! i"
      using a "1.prems"(4) by (auto simp: attempt_counting set_choice_def seq_len_def)
    with steps_quiet [OF minimize_choice_steps, of i st1 ?mid "counting g" lo] unfold \<open>ok\<close> "1.prems"(1) show False by simp
  qed
  then have b: "best st1 = best st" "g (set_choice i ?mid (best st)) \<noteq> StillFails" using a by (auto simp: attempt_counting)
  show ?case
  proof (cases "?mid + 1 < hi")
    case True
    with 1 a b unfold \<open>\<not> ok\<close> more show ?thesis by (auto simp: Let_def)
  next
    case False
    have "hi = ?mid + 1" using False inc_le [OF mid(2)] by simp
    then have "hi - 1 = ?mid" by (metis add_diff_cancel_right')
    with b show ?thesis by metis
  qed
qed

lemma minimize_pass_quiet:
  assumes "\<not> progress (minimize_pass (counting g) is st)" and "attempts (minimize_pass (counting g) is st) < MAX_ATTEMPTS"
    and "list_all (\<lambda>i. i < seq_len (best st)) is" and "i \<in> set is" and "choices (best st) ! i \<noteq> 0"
  shows "g (set_choice i (choices (best st) ! i - 1) (best st)) \<noteq> StillFails"
  using assms
proof (induction "counting g" "is" st rule: minimize_pass.induct)
  case (2 k "is" st)
  let ?st = "if choices (best st) ! k = 0 then st else minimize_choice (counting g) k 0 (choices (best st) ! k) st"
  have more: "attempts st < MAX_ATTEMPTS"
    using steps_attempts [OF minimize_pass_steps [OF "2.prems"(3), of "counting g"]] "2.prems"(2) by simp
  then have unfold: "minimize_pass (counting g) (k # is) st = minimize_pass (counting g) is ?st" by simp
  have st: "steps (counting g) st ?st" using "2.prems"(3) by (auto intro: steps_refl minimize_choice_steps)
  have len: "seq_len (best ?st) = seq_len (best st)" by (simp add: minimize_choice_len)
  then have r: "steps (counting g) ?st (minimize_pass (counting g) is ?st)" using "2.prems"(3) by (intro minimize_pass_steps) simp
  have q: "\<not> progress ?st" "attempts ?st < MAX_ATTEMPTS"
    using steps_quiet [OF r] steps_attempts [OF r] "2.prems"(1,2) unfolding unfold by auto
  have b: "best ?st = best st" using steps_quiet [OF st q(1)] by blast
  show ?case
  proof (cases "i = k")
    case True
    with "2.prems" minimize_choice_quiet [of g k 0 "choices (best st) ! k" st] q show ?thesis
      by (auto simp: word_gt_0 split: if_splits)
  next
    case False
    have "g (set_choice i (choices (best ?st) ! i - 1) (best ?st)) \<noteq> StillFails"
    proof (cases "choices (best st) ! k = 0")
      case True
      with False 2 more unfold show ?thesis by simp
    next
      case nz: False
      with False 2 more unfold len b show ?thesis by simp
    qed
    with b show ?thesis by simp
  qed
qed simp

text \<open>
  When shrinking stops below its limit the result is minimal for one step: removing any block of
  one, two, four or eight neighbouring choices, or lowering any choice by one, no longer fails.
\<close>

theorem shrink_locally_minimal:
  assumes "shrink (counting g) 0 initial = (s, calls)" and "calls < MAX_ATTEMPTS"
  shows "(n \<in> {8, 4, 2, 1} \<and> j + n \<le> seq_len s \<longrightarrow> g (delete_block j n s) \<noteq> StillFails) \<and>
    (j < seq_len s \<and> choices s ! j \<noteq> 0 \<longrightarrow> g (set_choice j (choices s ! j - 1) s) \<noteq> StillFails)"
proof -
  define init where "init = \<lparr>best = initial, attempts = 0, progress = False, test_state = 0 :: nat\<rparr>"
  define fin where "fin = shrink_loop (counting g) init"
  have s: "s = best fin" "calls = test_state fin" using assms(1) by (simp_all add: shrink_def fin_def init_def Let_def)
  have "attempts fin = calls"
    using rounds_count [OF shrink_loop_rounds [of "counting g" init]] by (simp add: s fin_def init_def)
  then obtain st where fin: "fin = shrink_round (counting g) st" and quiet: "\<not> progress fin" "attempts fin < MAX_ATTEMPTS"
    using shrink_loop_last [of "counting g" init] assms(2) by (auto simp: fin_def)
  define st1 where "st1 = zero_suffix_pass (counting g) 0 (st\<lparr>progress := False\<rparr>)"
  define st2 where "st2 = fold (\<lambda>n. delete_pass (counting g) n 0) [8, 4, 2, 1] st1"
  define st3 where "st3 = minimize_pass (counting g) [0..<seq_len (best st2)] st2"
  have "fin = (if 2 \<le> seq_len (best st3) then swap_pass (counting g) [0..<seq_len (best st3) - 1] st3 else st3)"
    by (simp add: fin shrink_round_def st1_def st2_def st3_def Let_def)
  then have r3: "steps (counting g) st3 fin"
    using swap_pass_steps [of st3 "[0..<seq_len (best st3) - 1]" "counting g"]
    by (simp add: list_all_iff steps_refl less_diff_conv)
  have all: "list_all (\<lambda>i. i < seq_len (best st2)) [0..<seq_len (best st2)]" by (simp add: list_all_iff)
  have q3: "\<not> progress st3" "attempts st3 < MAX_ATTEMPTS" "best fin = best st3"
    using steps_quiet [OF r3] steps_attempts [OF r3] quiet by auto
  have r2: "steps (counting g) st2 st3" unfolding st3_def by (rule minimize_pass_steps [OF all])
  have q2: "\<not> progress st2" "attempts st2 < MAX_ATTEMPTS" "best st3 = best st2"
    using steps_quiet [OF r2] steps_attempts [OF r2] q3 by auto
  have "best st2 = best st1" using steps_quiet [OF delete_passes_steps q2(1) [unfolded st2_def]] by (simp add: st2_def)
  with q2 q3 have b: "s = best st1" "s = best st2" by (simp_all add: s)
  show ?thesis
    using delete_passes_quiet [OF q2(1,2) [unfolded st2_def], of n j] minimize_pass_quiet [OF q3(1,2) [unfolded st3_def] all, of j] b
    by auto
qed


definition fails_large :: "ChoiceSequence \<Rightarrow> ShrinkOutcome" where
  "fails_large c = (case choices c of x # _ \<Rightarrow> if 2 \<le> x then StillFails else Passes | [] \<Rightarrow> Invalid)"

definition two_choices :: ChoiceSequence where
  "two_choices = \<lparr>choices = [3, 1], maxima = [5, 5]\<rparr>"

lemma two_choices_shrink: "shrink (counting fails_large) 0 two_choices = (\<lparr>choices = [2], maxima = [5]\<rparr>, 8)"
  by code_simp

theorem shrink_sound_witness:
  "fails_large \<lparr>choices = [2], maxima = [5]\<rparr> = StillFails \<and> simpler \<lparr>choices = [2], maxima = [5]\<rparr> two_choices \<and>
   wf_seq \<lparr>choices = [2], maxima = [5]\<rparr> \<and> 8 \<le> MAX_ATTEMPTS"
  using shrink_sound [OF two_choices_shrink] by (simp add: two_choices_def wf_seq_def)

text \<open>
  The result need not be the smallest failing sequence: no block of three choices is ever removed.
\<close>

lemma shrink_not_smallest:
  fixes g :: "ChoiceSequence \<Rightarrow> ShrinkOutcome"
  assumes "g = (\<lambda>c. if choices c = [0, 0, 0] \<or> choices c = [] then StillFails else Passes)"
  shows "fst (shrink (counting g) 0 \<lparr>choices = [0, 0, 0], maxima = [1, 1, 1]\<rparr>) = \<lparr>choices = [0, 0, 0], maxima = [1, 1, 1]\<rparr>
    \<and> g \<lparr>choices = [], maxima = []\<rparr> = StillFails"
  unfolding assms by code_simp

end
