(* ===== verification/Map_Value.thy ===== *)
theory Map_Value
  imports Hash_Map
begin

text \<open>
  Maps of arbitrary keys (\<open>eval/src/value.rs\<close>): \<open>GenericMapValue\<close>, a vector of entries with an index
  from hashes to entry positions; \<open>MapValue\<close>, which keeps primitive keys in an ordered map and moves
  to the generic form at the first other key; and \<open>MutableMapValue\<close>, which starts empty and uses the
  hash table for primitive keys.  Keys are compared by a closure that runs interpreted code: it has
  a state, may fail with an error and may not return.  The ordered maps of the \<open>indexmap\<close> library are
  association lists in insertion order.
\<close>

section \<open>Computations that run interpreted code\<close>

type_synonym ('s, 'e, 'a) eff = "'s \<Rightarrow> (('e + 'a) \<times> 's) option"

definition ret :: "'a \<Rightarrow> ('s, 'e, 'a) eff" where
  "ret x = (\<lambda>s. Some (Inr x, s))"

definition panicking :: "'a option \<Rightarrow> ('s, 'e, 'a) eff" where
  "panicking r = (\<lambda>s. map_option (\<lambda>x. (Inr x, s)) r)"

definition andthen :: "('s, 'e, 'a) eff \<Rightarrow> ('a \<Rightarrow> ('s, 'e, 'b) eff) \<Rightarrow> ('s, 'e, 'b) eff" where
  "andthen m f = (\<lambda>s. case m s of
      None \<Rightarrow> None
    | Some (Inl e, s') \<Rightarrow> Some (Inl e, s')
    | Some (Inr x, s') \<Rightarrow> f x s')"

type_synonym ('s, 'e) eq_fn = "Value \<Rightarrow> Value \<Rightarrow> ('s, 'e, bool) eff"

definition eq_values :: "('s, 'e) eq_fn" where
  "eq_values a b = ret (a = b)"

text \<open>
  The equality \<open>==\<close> of values: floats compare as numbers, records without their type.  How two opaque
  values compare (collections by content, functions never) is an argument.
\<close>

function value_eq :: "(nat \<Rightarrow> nat \<Rightarrow> bool) \<Rightarrow> Value \<Rightarrow> Value \<Rightarrow> bool" where
  "value_eq oeq x y =
     (case x of
        VInt a \<Rightarrow> (case y of VInt b \<Rightarrow> a = b | _ \<Rightarrow> False)
      | VFloat a \<Rightarrow> (case y of VFloat b \<Rightarrow> float_eq a b | _ \<Rightarrow> False)
      | VString a \<Rightarrow> (case y of VString b \<Rightarrow> a = b | _ \<Rightarrow> False)
      | VChar a \<Rightarrow> (case y of VChar b \<Rightarrow> a = b | _ \<Rightarrow> False)
      | VBool a \<Rightarrow> (case y of VBool b \<Rightarrow> a = b | _ \<Rightarrow> False)
      | VUnit \<Rightarrow> (case y of VUnit \<Rightarrow> True | _ \<Rightarrow> False)
      | VAdt t1 v1 f1 \<Rightarrow>
          (case y of VAdt t2 v2 f2 \<Rightarrow> t1 = t2 \<and> v1 = v2 \<and> list_all2 (\<lambda>a b. value_eq oeq a b) f1 f2 | _ \<Rightarrow> False)
      | VRecord f1 _ \<Rightarrow>
          (case y of
             VRecord f2 _ \<Rightarrow> list_all2 (\<lambda>p q. fst p = fst q \<and> value_eq oeq (snd p) (snd q)) f1 f2
           | _ \<Rightarrow> False)
      | VOpaque a \<Rightarrow> (case y of VOpaque b \<Rightarrow> oeq a b | _ \<Rightarrow> False))"
  by auto
termination
proof (relation "measure (\<lambda>(_, x, _). size x)", goal_cases)
  case (2 oeq x y t1 v1 f1 t2 v2 f2 a b)
  then show ?case by (simp add: less_Suc_eq_le size_list_estimation')
next
  case (3 oeq x y f1 t1 f2 t2 p q)
  have "size (snd p) < size_prod (\<lambda>_. 0) size p" by (cases p) simp
  with 3 have "size (snd p) < size_list (size_prod (\<lambda>_. 0) size) f1" by (intro size_list_estimation [of p]) auto
  with 3 show ?case by simp
qed simp

declare value_eq.simps [simp del]

section \<open>Generic maps\<close>

record MapEntry =
  me_hash :: "64 word"
  me_key :: Value
  me_value :: Value

type_synonym buckets = "64 word \<rightharpoonup> nat list"

record GenericMapValue =
  gm_entries :: "MapEntry list"
  gm_buckets :: buckets

definition push_bucket_index :: "64 word \<Rightarrow> nat \<Rightarrow> buckets \<Rightarrow> buckets" where
  "push_bucket_index hash idx b = b(hash \<mapsto> (case b hash of Some is \<Rightarrow> is | None \<Rightarrow> []) @ [idx])"

definition list_remove :: "nat \<Rightarrow> 'a list \<Rightarrow> 'a list" where
  "list_remove i xs = take i xs @ drop (Suc i) xs"

definition remove_bucket_index :: "64 word \<Rightarrow> nat \<Rightarrow> buckets \<Rightarrow> buckets" where
  "remove_bucket_index hash idx b =
     (case b hash of
        None \<Rightarrow> b
      | Some is \<Rightarrow>
          let is' = (case position (\<lambda>i. i = idx) is of Some pos \<Rightarrow> list_remove pos is | None \<Rightarrow> is)
          in if is' = [] then b(hash := None) else b(hash \<mapsto> is'))"

definition shift_bucket_indices_after_removal :: "nat \<Rightarrow> buckets \<Rightarrow> buckets" where
  "shift_bucket_indices_after_removal removed_idx b =
     (\<lambda>hash. case b hash of
        None \<Rightarrow> None
      | Some is \<Rightarrow> if is = [] then None else Some (map (\<lambda>i. if removed_idx < i then i - 1 else i) is))"

fun index_entries :: "nat \<Rightarrow> MapEntry list \<Rightarrow> buckets \<Rightarrow> buckets" where
  "index_entries idx [] b = b"
| "index_entries idx (e # es) b = index_entries (Suc idx) es (push_bucket_index (me_hash e) idx b)"

definition from_entries :: "MapEntry list \<Rightarrow> GenericMapValue" where
  "from_entries entries = \<lparr>gm_entries = entries, gm_buckets = index_entries 0 entries Map.empty\<rparr>"

fun find_index_loop :: "('s, 'e) eq_fn \<Rightarrow> Value \<Rightarrow> MapEntry list \<Rightarrow> nat list \<Rightarrow> ('s, 'e, nat option) eff" where
  "find_index_loop eq key entries [] = ret None"
| "find_index_loop eq key entries (idx # indices) =
     andthen (panicking (arena_get entries idx))
       (\<lambda>entry. andthen (eq (me_key entry) key)
          (\<lambda>same. if same then ret (Some idx) else find_index_loop eq key entries indices))"

definition find_index_with :: "('s, 'e) eq_fn \<Rightarrow> 64 word \<Rightarrow> Value \<Rightarrow> GenericMapValue \<Rightarrow> ('s, 'e, nat option) eff" where
  "find_index_with eq hash key m =
     (case gm_buckets m hash of
        None \<Rightarrow> ret None
      | Some indices \<Rightarrow> find_index_loop eq key (gm_entries m) indices)"

definition generic_get_with :: "('s, 'e) eq_fn \<Rightarrow> 64 word \<Rightarrow> Value \<Rightarrow> GenericMapValue \<Rightarrow> ('s, 'e, Value option) eff" where
  "generic_get_with eq hash key m =
     andthen (find_index_with eq hash key m)
       (\<lambda>r. case r of
              None \<Rightarrow> ret None
            | Some idx \<Rightarrow> panicking (map_option (\<lambda>e. Some (me_value e)) (arena_get (gm_entries m) idx)))"

definition set_value :: "nat \<Rightarrow> Value \<Rightarrow> MapEntry list \<Rightarrow> MapEntry list option" where
  "set_value idx val entries =
     map_option (\<lambda>e. entries[idx := e\<lparr>me_value := val\<rparr>]) (arena_get entries idx)"

definition generic_insert_with ::
    "('s, 'e) eq_fn \<Rightarrow> 64 word \<Rightarrow> Value \<Rightarrow> Value \<Rightarrow> GenericMapValue \<Rightarrow> ('s, 'e, GenericMapValue) eff" where
  "generic_insert_with eq hash key val m =
     andthen (find_index_with eq hash key m)
       (\<lambda>r. case r of
              Some idx \<Rightarrow> panicking (map_option (\<lambda>es. m\<lparr>gm_entries := es\<rparr>) (set_value idx val (gm_entries m)))
            | None \<Rightarrow>
                ret (m\<lparr>gm_entries := gm_entries m @ [\<lparr>me_hash = hash, me_key = key, me_value = val\<rparr>],
                       gm_buckets := push_bucket_index hash (length (gm_entries m)) (gm_buckets m)\<rparr>))"

definition generic_remove_with ::
    "('s, 'e) eq_fn \<Rightarrow> 64 word \<Rightarrow> Value \<Rightarrow> GenericMapValue \<Rightarrow> ('s, 'e, GenericMapValue) eff" where
  "generic_remove_with eq hash key m =
     andthen (find_index_with eq hash key m)
       (\<lambda>r. case r of
              None \<Rightarrow> ret m
            | Some idx \<Rightarrow>
                andthen (panicking (arena_get (gm_entries m) idx))
                  (\<lambda>e. ret \<lparr>gm_entries = list_remove idx (gm_entries m),
                            gm_buckets = shift_bucket_indices_after_removal idx
                              (remove_bucket_index (me_hash e) idx (gm_buckets m))\<rparr>))"

text \<open>The persistent operations copy; an insertion that would store an equal value returns the old map.\<close>

definition generic_insert_persistent_with ::
    "(Value \<Rightarrow> Value \<Rightarrow> bool) \<Rightarrow> ('s, 'e) eq_fn \<Rightarrow> 64 word \<Rightarrow> Value \<Rightarrow> Value \<Rightarrow> GenericMapValue \<Rightarrow>
     ('s, 'e, GenericMapValue) eff" where
  "generic_insert_persistent_with veq eq hash key val m =
     andthen (find_index_with eq hash key m)
       (\<lambda>r. case r of
              Some idx \<Rightarrow>
                andthen (panicking (arena_get (gm_entries m) idx))
                  (\<lambda>e. if veq (me_value e) val then ret m
                       else ret (from_entries ((gm_entries m)[idx := e\<lparr>me_value := val\<rparr>])))
            | None \<Rightarrow>
                ret (from_entries (gm_entries m @ [\<lparr>me_hash = hash, me_key = key, me_value = val\<rparr>])))"

definition generic_remove_persistent_with ::
    "('s, 'e) eq_fn \<Rightarrow> 64 word \<Rightarrow> Value \<Rightarrow> GenericMapValue \<Rightarrow> ('s, 'e, GenericMapValue) eff" where
  "generic_remove_persistent_with eq hash key m =
     andthen (find_index_with eq hash key m)
       (\<lambda>r. case r of
              None \<Rightarrow> ret m
            | Some idx \<Rightarrow>
                andthen (panicking (arena_get (gm_entries m) idx))
                  (\<lambda>_. ret (from_entries (list_remove idx (gm_entries m)))))"

fun generic_get_loop :: "Value \<Rightarrow> MapEntry list \<Rightarrow> nat list \<Rightarrow> Value option option" where
  "generic_get_loop key entries [] = Some None"
| "generic_get_loop key entries (idx # indices) =
     (case arena_get entries idx of
        None \<Rightarrow> None
      | Some e \<Rightarrow> if me_key e = key then Some (Some (me_value e)) else generic_get_loop key entries indices)"

definition generic_get :: "MapKey \<Rightarrow> GenericMapValue \<Rightarrow> Value option option" where
  "generic_get key m =
     (case gm_buckets m (primitive_hash key) of
        None \<Rightarrow> Some None
      | Some indices \<Rightarrow> generic_get_loop (to_value key) (gm_entries m) indices)"

section \<open>Persistent maps\<close>

datatype MapValue =
    MapPrimitive "(MapKey \<times> Value) list"
  | MapGeneric GenericMapValue

definition map_new :: MapValue where
  "map_new = MapPrimitive []"

definition primitive_entries :: "(MapKey \<times> Value) list \<Rightarrow> MapEntry list" where
  "primitive_entries xs =
     map (\<lambda>(k, v). \<lparr>me_hash = primitive_hash k, me_key = to_value k, me_value = v\<rparr>) xs"

definition to_generic :: "(MapKey \<times> Value) list \<Rightarrow> GenericMapValue" where
  "to_generic xs = from_entries (primitive_entries xs)"

fun map_len :: "MapValue \<Rightarrow> nat" where
  "map_len (MapPrimitive xs) = length xs"
| "map_len (MapGeneric g) = length (gm_entries g)"

fun map_key_at :: "nat \<Rightarrow> MapValue \<Rightarrow> Value option" where
  "map_key_at idx (MapPrimitive xs) = map_option (\<lambda>(k, _). to_value k) (arena_get xs idx)"
| "map_key_at idx (MapGeneric g) = map_option me_key (arena_get (gm_entries g) idx)"

fun map_value_at :: "nat \<Rightarrow> MapValue \<Rightarrow> Value option" where
  "map_value_at idx (MapPrimitive xs) = map_option snd (arena_get xs idx)"
| "map_value_at idx (MapGeneric g) = map_option me_value (arena_get (gm_entries g) idx)"

fun map_snapshot_entries :: "MapValue \<Rightarrow> MapEntry list" where
  "map_snapshot_entries (MapPrimitive xs) = primitive_entries xs"
| "map_snapshot_entries (MapGeneric g) = gm_entries g"

fun map_get :: "MapKey \<Rightarrow> MapValue \<Rightarrow> Value option option" where
  "map_get key (MapPrimitive xs) = Some (ord_find (=) key xs)"
| "map_get key (MapGeneric g) = generic_get key g"

definition map_get_with :: "('s, 'e) eq_fn \<Rightarrow> 64 word \<Rightarrow> Value \<Rightarrow> MapValue \<Rightarrow> ('s, 'e, Value option) eff" where
  "map_get_with eq hash key m =
     (case from_value key of
        Some primitive \<Rightarrow> panicking (map_get primitive m)
      | None \<Rightarrow>
          (case m of
             MapPrimitive _ \<Rightarrow> ret None
           | MapGeneric g \<Rightarrow> generic_get_with eq hash key g))"

definition map_insert_persistent_with ::
    "(Value \<Rightarrow> Value \<Rightarrow> bool) \<Rightarrow> ('s, 'e) eq_fn \<Rightarrow> 64 word \<Rightarrow> Value \<Rightarrow> Value \<Rightarrow> MapValue \<Rightarrow> ('s, 'e, MapValue) eff" where
  "map_insert_persistent_with veq eq hash key val m =
     (case from_value key of
        Some primitive \<Rightarrow>
          (case m of
             MapPrimitive xs \<Rightarrow>
               ret (if (case ord_find (=) primitive xs of Some current \<Rightarrow> veq current val | None \<Rightarrow> False) then m
                    else MapPrimitive (ord_update (=) primitive val xs))
           | MapGeneric g \<Rightarrow> andthen (generic_insert_with eq hash key val g) (\<lambda>g'. ret (MapGeneric g')))
      | None \<Rightarrow>
          (case m of
             MapPrimitive xs \<Rightarrow>
               andthen (generic_insert_with eq hash key val (to_generic xs)) (\<lambda>g'. ret (MapGeneric g'))
           | MapGeneric g \<Rightarrow>
               andthen (generic_insert_persistent_with veq eq hash key val g) (\<lambda>g'. ret (MapGeneric g'))))"

definition map_remove_persistent_with ::
    "('s, 'e) eq_fn \<Rightarrow> 64 word \<Rightarrow> Value \<Rightarrow> MapValue \<Rightarrow> ('s, 'e, MapValue) eff" where
  "map_remove_persistent_with eq hash key m =
     (case from_value key of
        Some primitive \<Rightarrow>
          (case m of
             MapPrimitive xs \<Rightarrow>
               ret (if ord_find (=) primitive xs = None then m else MapPrimitive (ord_delete (=) primitive xs))
           | MapGeneric g \<Rightarrow> andthen (generic_remove_persistent_with eq hash key g) (\<lambda>g'. ret (MapGeneric g')))
      | None \<Rightarrow>
          (case m of
             MapPrimitive xs \<Rightarrow> ret m
           | MapGeneric g \<Rightarrow> andthen (generic_remove_persistent_with eq hash key g) (\<lambda>g'. ret (MapGeneric g'))))"

definition map_insert_with ::
    "('s, 'e) eq_fn \<Rightarrow> 64 word \<Rightarrow> Value \<Rightarrow> Value \<Rightarrow> MapValue \<Rightarrow> ('s, 'e, MapValue) eff" where
  "map_insert_with eq hash key val m =
     (case from_value key of
        Some primitive \<Rightarrow>
          (case m of
             MapPrimitive xs \<Rightarrow> ret (MapPrimitive (ord_update (=) primitive val xs))
           | MapGeneric g \<Rightarrow> andthen (generic_insert_with eq hash key val g) (\<lambda>g'. ret (MapGeneric g')))
      | None \<Rightarrow>
          (case m of
             MapPrimitive xs \<Rightarrow>
               andthen (generic_insert_with eq hash key val (to_generic xs)) (\<lambda>g'. ret (MapGeneric g'))
           | MapGeneric g \<Rightarrow> andthen (generic_insert_with eq hash key val g) (\<lambda>g'. ret (MapGeneric g'))))"

definition map_remove_with :: "('s, 'e) eq_fn \<Rightarrow> 64 word \<Rightarrow> Value \<Rightarrow> MapValue \<Rightarrow> ('s, 'e, MapValue) eff" where
  "map_remove_with eq hash key m =
     (case from_value key of
        Some primitive \<Rightarrow>
          (case m of
             MapPrimitive xs \<Rightarrow> ret (MapPrimitive (ord_delete (=) primitive xs))
           | MapGeneric g \<Rightarrow> andthen (generic_remove_with eq hash key g) (\<lambda>g'. ret (MapGeneric g')))
      | None \<Rightarrow>
          (case m of
             MapPrimitive xs \<Rightarrow> ret m
           | MapGeneric g \<Rightarrow> andthen (generic_remove_with eq hash key g) (\<lambda>g'. ret (MapGeneric g'))))"

section \<open>Mutable maps\<close>

datatype MutableMapValue =
    MutEmpty nat
  | MutPrimitive "Value PrimitiveTable"
  | MutGeneric MapValue

definition mutable_map_new :: MutableMapValue where
  "mutable_map_new = MutEmpty 0"

definition mutable_map_with_capacity :: "nat \<Rightarrow> MutableMapValue" where
  "mutable_map_with_capacity capacity_hint = MutEmpty capacity_hint"

fun mutable_map_from_map :: "nat \<Rightarrow> MapValue \<Rightarrow> MutableMapValue option" where
  "mutable_map_from_map capacity (MapPrimitive xs) = map_option MutPrimitive (from_indexmap capacity xs)"
| "mutable_map_from_map capacity (MapGeneric g) = Some (MutGeneric (MapGeneric g))"

fun mutable_map_len :: "MutableMapValue \<Rightarrow> nat" where
  "mutable_map_len (MutEmpty _) = 0"
| "mutable_map_len (MutPrimitive t) = pt_live_len t"
| "mutable_map_len (MutGeneric m) = map_len m"

fun mutable_map_snapshot :: "MutableMapValue \<Rightarrow> MapValue" where
  "mutable_map_snapshot (MutEmpty _) = map_new"
| "mutable_map_snapshot (MutPrimitive t) = MapPrimitive (table_snapshot t)"
| "mutable_map_snapshot (MutGeneric m) = m"

fun get_cloned_primitive :: "MapKey \<Rightarrow> MutableMapValue \<Rightarrow> Value option option" where
  "get_cloned_primitive key (MutEmpty _) = Some None"
| "get_cloned_primitive key (MutPrimitive t) = table_get key t"
| "get_cloned_primitive key (MutGeneric m) = map_get key m"

text \<open>The result of the inner insertion is dropped, but the map it was applied to stays updated.\<close>

fun insert_primitive :: "nat \<Rightarrow> MapKey \<Rightarrow> Value \<Rightarrow> MutableMapValue \<Rightarrow> ('s, 'e, MutableMapValue) eff" where
  "insert_primitive capacity key val (MutEmpty capacity_hint) =
     panicking (map_option MutPrimitive (map_insert capacity key val (with_capacity capacity_hint)))"
| "insert_primitive capacity key val (MutPrimitive t) =
     panicking (map_option MutPrimitive (map_insert capacity key val t))"
| "insert_primitive capacity key val (MutGeneric m) =
     andthen (map_insert_with eq_values (primitive_hash key) (to_value key) val m) (\<lambda>m'. ret (MutGeneric m'))"

fun remove_primitive :: "MapKey \<Rightarrow> MutableMapValue \<Rightarrow> ('s, 'e, MutableMapValue) eff" where
  "remove_primitive key (MutEmpty capacity_hint) = ret (MutEmpty capacity_hint)"
| "remove_primitive key (MutPrimitive t) = panicking (map_option MutPrimitive (table_remove key t))"
| "remove_primitive key (MutGeneric m) =
     andthen (map_remove_with eq_values (primitive_hash key) (to_value key) m) (\<lambda>m'. ret (MutGeneric m'))"

definition mutable_map_get_with ::
    "('s, 'e) eq_fn \<Rightarrow> 64 word \<Rightarrow> Value \<Rightarrow> MutableMapValue \<Rightarrow> ('s, 'e, Value option) eff" where
  "mutable_map_get_with eq hash key m =
     (case from_value key of
        Some primitive \<Rightarrow> panicking (get_cloned_primitive primitive m)
      | None \<Rightarrow>
          (case m of
             MutEmpty _ \<Rightarrow> ret None
           | MutPrimitive _ \<Rightarrow> ret None
           | MutGeneric g \<Rightarrow> map_get_with eq hash key g))"

definition mutable_map_insert_with ::
    "nat \<Rightarrow> ('s, 'e) eq_fn \<Rightarrow> 64 word \<Rightarrow> Value \<Rightarrow> Value \<Rightarrow> MutableMapValue \<Rightarrow> ('s, 'e, MutableMapValue) eff" where
  "mutable_map_insert_with capacity eq hash key val m =
     (case from_value key of
        Some primitive \<Rightarrow> insert_primitive capacity primitive val m
      | None \<Rightarrow>
          andthen
            (case m of
               MutEmpty _ \<Rightarrow> map_insert_with eq hash key val map_new
             | MutPrimitive t \<Rightarrow> map_insert_with eq hash key val (MapPrimitive (table_snapshot t))
             | MutGeneric g \<Rightarrow> map_insert_with eq hash key val g)
            (\<lambda>g'. ret (MutGeneric g')))"

definition mutable_map_remove_with ::
    "('s, 'e) eq_fn \<Rightarrow> 64 word \<Rightarrow> Value \<Rightarrow> MutableMapValue \<Rightarrow> ('s, 'e, MutableMapValue) eff" where
  "mutable_map_remove_with eq hash key m =
     (case from_value key of
        Some primitive \<Rightarrow> remove_primitive primitive m
      | None \<Rightarrow>
          (case m of
             MutEmpty _ \<Rightarrow> ret m
           | MutPrimitive _ \<Rightarrow> ret m
           | MutGeneric g \<Rightarrow> andthen (map_remove_with eq hash key g) (\<lambda>g'. ret (MutGeneric g'))))"

section \<open>The interpreter's entry points\<close>

text \<open>Primitive keys have their own hash; others run the \<open>Hash\<close> implementation of their type.\<close>

definition hash_for_collection_key :: "(Value \<Rightarrow> ('s, 'e, 64 word) eff) \<Rightarrow> Value \<Rightarrow> ('s, 'e, 64 word) eff" where
  "hash_for_collection_key trait_hash v =
     (case from_value v of Some key \<Rightarrow> ret (primitive_hash key) | None \<Rightarrow> trait_hash v)"

definition map_get_value ::
    "(Value \<Rightarrow> ('s, 'e, 64 word) eff) \<Rightarrow> ('s, 'e) eq_fn \<Rightarrow> Value \<Rightarrow> MapValue \<Rightarrow> ('s, 'e, Value option) eff" where
  "map_get_value trait_hash eq key m =
     (case from_value key of
        Some map_key \<Rightarrow> panicking (map_get map_key m)
      | None \<Rightarrow> andthen (hash_for_collection_key trait_hash key) (\<lambda>hash. map_get_with eq hash key m))"

definition map_insert_value ::
    "(Value \<Rightarrow> Value \<Rightarrow> bool) \<Rightarrow> (Value \<Rightarrow> ('s, 'e, 64 word) eff) \<Rightarrow> ('s, 'e) eq_fn \<Rightarrow> Value \<Rightarrow> Value \<Rightarrow> MapValue \<Rightarrow>
     ('s, 'e, MapValue) eff" where
  "map_insert_value veq trait_hash eq key val m =
     andthen (hash_for_collection_key trait_hash key) (\<lambda>hash. map_insert_persistent_with veq eq hash key val m)"

definition mutable_map_get_value ::
    "(Value \<Rightarrow> ('s, 'e, 64 word) eff) \<Rightarrow> ('s, 'e) eq_fn \<Rightarrow> Value \<Rightarrow> MutableMapValue \<Rightarrow> ('s, 'e, Value option) eff" where
  "mutable_map_get_value trait_hash eq key m =
     (case from_value key of
        Some map_key \<Rightarrow> panicking (get_cloned_primitive map_key m)
      | None \<Rightarrow> andthen (hash_for_collection_key trait_hash key) (\<lambda>hash. mutable_map_get_with eq hash key m))"

end
