(* ===== verification/Hash_Map_Correct.thy ===== *)
theory Hash_Map_Correct
  imports Hash_Map
begin

text \<open>
  The hash table implements an ordered map: the invariant that keeps every live entry reachable by
  probing and an empty slot in the table, the termination of every probe, and the refinement of
  the operations.
\<close>

section \<open>Powers of two and probe sequences\<close>

lemma next_power_of_two_exp: "\<exists>b. next_power_of_two n = 2 ^ b"
proof (induction n rule: next_power_of_two.induct)
  case (1 n)
  show ?case
  proof (cases "n \<le> 1")
    case True
    then show ?thesis by (subst next_power_of_two.simps) (auto intro: exI [of _ 0])
  next
    case False
    then obtain b where "next_power_of_two ((n + 1) div 2) = 2 ^ b" using 1 by blast
    with False show ?thesis by (subst next_power_of_two.simps) (auto intro: exI [of _ "Suc b"])
  qed
qed

lemma next_power_of_two_le: "n \<le> next_power_of_two n"
proof (induction n rule: next_power_of_two.induct)
  case (1 n)
  then show ?case by (subst next_power_of_two.simps) (cases "n \<le> 1", auto)
qed

text \<open>The lengths a table can have.\<close>

definition table_size :: "nat \<Rightarrow> bool" where
  "table_size n \<longleftrightarrow> 8 \<le> n \<and> (\<exists>b. n = 2 ^ b)"

lemma slot_count_size: "0 < n \<Longrightarrow> table_size (slot_count_for_min_live n)"
  using next_power_of_two_exp [of "max ((n * 10 + 6) div 7) 8"] next_power_of_two_le [of "max ((n * 10 + 6) div 7) 8"]
  by (auto simp: table_size_def slot_count_for_min_live_def)

lemma table_size_double: "table_size n \<Longrightarrow> table_size (n * 2)"
  by (auto simp: table_size_def intro: exI [of _ "Suc b" for b])

lemma table_size_max: "table_size a \<Longrightarrow> b = 0 \<or> table_size b \<Longrightarrow> table_size (max a b)"
  by (auto simp: max_def)

lemma probe_index_less: "table_size n \<Longrightarrow> probe_index h n < n"
proof -
  assume "table_size n"
  then obtain b where n: "n = 2 ^ b" by (auto simp: table_size_def)
  have "and h (of_nat (n - 1)) = take_bit b h"
    by (simp add: n take_bit_eq_mask mask_eq_exp_minus_1 flip: of_nat_mask_eq)
  then show ?thesis by (simp add: probe_index_def n unsigned_take_bit_eq)
qed

lemma next_slot_mod: "table_size n \<Longrightarrow> next_slot n idx = Suc idx mod n"
proof -
  assume "table_size n"
  then obtain b where n: "n = 2 ^ b" by (auto simp: table_size_def)
  have "next_slot n idx = take_bit b (Suc idx)" by (simp add: next_slot_def n take_bit_eq_mask mask_eq_exp_minus_1)
  then show ?thesis by (simp add: n take_bit_eq_mod)
qed

definition probe :: "nat \<Rightarrow> 64 word \<Rightarrow> nat \<Rightarrow> nat" where
  "probe n h j = (probe_index h n + j) mod n"

lemma probe_0: "table_size n \<Longrightarrow> probe n h 0 = probe_index h n"
  by (simp add: probe_def probe_index_less)

lemma probe_less [simp]: "table_size n \<Longrightarrow> probe n h j < n"
  by (auto simp: probe_def table_size_def)

lemma next_slot_probe: "table_size n \<Longrightarrow> next_slot n (probe n h j) = probe n h (Suc j)"
  by (simp add: next_slot_mod probe_def mod_Suc_eq)

lemma probe_covers:
  assumes "table_size n" and "s < n"
  shows "\<exists>j<n. probe n h j = s"
proof -
  let ?p = "probe_index h n"
  have p: "?p < n" by (rule probe_index_less [OF assms(1)])
  have "(?p + (if ?p \<le> s then s - ?p else n - ?p + s)) mod n = s"
    using p assms(2) by auto
  then show ?thesis
    using p assms(2) by (intro exI [of _ "if ?p \<le> s then s - ?p else n - ?p + s"]) (auto simp: probe_def)
qed

section \<open>Counting slots\<close>

fun is_occupied :: "ProbeSlot \<Rightarrow> bool" where
  "is_occupied (SlotOccupied _) = True"
| "is_occupied _ = False"

definition occupied_slots :: "ProbeSlot list \<Rightarrow> nat" where
  "occupied_slots slots = length (filter is_occupied slots)"

definition tombstone_slots :: "ProbeSlot list \<Rightarrow> nat" where
  "tombstone_slots slots = length (filter (\<lambda>s. s = SlotTombstone) slots)"

lemma length_filter_update:
  "i < length xs \<Longrightarrow> length (filter P (xs[i := y])) + (if P (xs ! i) then 1 else 0) =
     length (filter P xs) + (if P y then 1 else 0)"
proof (induction xs arbitrary: i)
  case (Cons x xs)
  then show ?case by (cases i) auto
qed simp

lemma free_slot:
  assumes "occupied_slots slots + tombstone_slots slots < length slots"
  shows "\<exists>s<length slots. slots ! s = SlotEmpty"
proof (rule ccontr)
  assume none: "\<not> ?thesis"
  then have "SlotEmpty \<notin> set slots" by (auto simp: in_set_conv_nth)
  then have "length slots = occupied_slots slots + tombstone_slots slots"
    unfolding occupied_slots_def tombstone_slots_def
  proof (induction slots)
    case (Cons x xs)
    then show ?case by (cases x) auto
  qed simp
  with assms show False by simp
qed

section \<open>The invariant\<close>

definition placed :: "ProbeSlot list \<Rightarrow> 64 word \<Rightarrow> nat \<Rightarrow> bool" where
  "placed slots h i \<longleftrightarrow> (\<exists>j<length slots. slots ! probe (length slots) h j = SlotOccupied i \<and>
     (\<forall>j'<j. slots ! probe (length slots) h j' \<noteq> SlotEmpty))"

definition slots_ok :: "'v PrimitiveEntry list \<Rightarrow> ProbeSlot list \<Rightarrow> bool" where
  "slots_ok es slots \<longleftrightarrow> table_size (length slots) \<and>
     (\<forall>s<length slots. \<forall>i. slots ! s = SlotOccupied i \<longrightarrow> i < length es \<and> pe_live (es ! i)) \<and>
     (\<forall>s<length slots. \<forall>s'<length slots. \<forall>i. slots ! s = SlotOccupied i \<longrightarrow> slots ! s' = SlotOccupied i \<longrightarrow> s = s') \<and>
     (\<forall>i<length es. pe_live (es ! i) \<longrightarrow> placed slots (pe_hash (es ! i)) i)"

definition entries_ok :: "'v PrimitiveEntry list \<Rightarrow> bool" where
  "entries_ok es \<longleftrightarrow> distinct (map pe_key (filter pe_live es)) \<and>
     list_all (\<lambda>e. pe_hash e = primitive_hash (pe_key e)) es"

definition table_inv :: "'v PrimitiveTable \<Rightarrow> bool" where
  "table_inv m \<longleftrightarrow>
     (if pt_slots m = [] then pt_entries m = [] \<and> pt_live_len m = 0 \<and> pt_tombstones m = 0
      else slots_ok (pt_entries m) (pt_slots m) \<and> entries_ok (pt_entries m) \<and>
        pt_live_len m = length (filter pe_live (pt_entries m)) \<and>
        pt_live_len m = occupied_slots (pt_slots m) \<and> pt_tombstones m = tombstone_slots (pt_slots m) \<and>
        pt_live_len m + pt_tombstones m < length (pt_slots m))"

definition content :: "'v PrimitiveTable \<Rightarrow> (MapKey \<times> 'v) list" where
  "content m = map (\<lambda>e. (pe_key e, pe_value e)) (filter pe_live (pt_entries m))"

text \<open>How far a probe runs: up to the first empty slot.\<close>

lemma first_free:
  assumes "table_size (length slots)" and "\<exists>s<length slots. slots ! s = SlotEmpty"
  shows "\<exists>E<length slots. slots ! probe (length slots) h E = SlotEmpty \<and>
    (\<forall>j<E. slots ! probe (length slots) h j \<noteq> SlotEmpty)"
proof -
  let ?P = "\<lambda>j. slots ! probe (length slots) h j = SlotEmpty"
  obtain j where j: "j < length slots" "?P j" using assms probe_covers [OF assms(1)] by metis
  with LeastI [of ?P j] Least_le [of ?P j] show ?thesis
    by (intro exI [of _ "LEAST j. ?P j"]) (auto dest: not_less_Least)
qed

section \<open>The probes end\<close>

lemma lookup_loop_run:
  assumes "table_size (length slots)" and "j \<le> E" and "slots ! probe (length slots) h E = SlotEmpty"
    and "\<forall>j<E. slots ! probe (length slots) h j \<noteq> SlotEmpty"
    and "\<forall>s<length slots. \<forall>i. slots ! s = SlotOccupied i \<longrightarrow> i < length es"
  shows "\<exists>r. lookup_loop h k es slots (probe (length slots) h j) = Some r \<and>
    (case r of
       None \<Rightarrow> \<forall>j'<E. j \<le> j' \<longrightarrow>
         (\<forall>i. slots ! probe (length slots) h j' = SlotOccupied i \<longrightarrow> \<not> entry_matches h k (es ! i))
     | Some (s, i) \<Rightarrow> s < length slots \<and> slots ! s = SlotOccupied i \<and> entry_matches h k (es ! i))"
  using assms(2)
proof (induction "E - j" arbitrary: j)
  case 0
  with assms(1,3) show ?case by (subst lookup_loop.simps) (auto simp: arena_get_def)
next
  case (Suc d)
  let ?s = "slots ! probe (length slots) h j"
  have lt: "probe (length slots) h j < length slots" by (simp add: assms(1))
  have "d = E - Suc j" "Suc j \<le> E" using Suc.hyps(2) by auto
  from Suc.hyps(1) [OF this] obtain r where
    r: "lookup_loop h k es slots (probe (length slots) h (Suc j)) = Some r"
    and post: "case r of
       None \<Rightarrow> \<forall>j'<E. Suc j \<le> j' \<longrightarrow>
         (\<forall>i. slots ! probe (length slots) h j' = SlotOccupied i \<longrightarrow> \<not> entry_matches h k (es ! i))
     | Some (s, i) \<Rightarrow> s < length slots \<and> slots ! s = SlotOccupied i \<and> entry_matches h k (es ! i)"
    by blast
  have step: ?case
    if "lookup_loop h k es slots (probe (length slots) h j) = Some r"
      and no: "\<And>i. ?s = SlotOccupied i \<Longrightarrow> \<not> entry_matches h k (es ! i)"
  proof (intro exI conjI)
    show "case r of
       None \<Rightarrow> \<forall>j'<E. j \<le> j' \<longrightarrow>
         (\<forall>i. slots ! probe (length slots) h j' = SlotOccupied i \<longrightarrow> \<not> entry_matches h k (es ! i))
     | Some (s, i) \<Rightarrow> s < length slots \<and> slots ! s = SlotOccupied i \<and> entry_matches h k (es ! i)"
      using post no by (cases r) (auto simp: Suc_le_eq le_less)
  qed (rule that(1))
  show ?case
  proof (cases ?s)
    case SlotEmpty
    then show ?thesis using assms(4) Suc.hyps(2) by auto
  next
    case SlotTombstone
    with lt r show ?thesis
      by (intro step) (subst lookup_loop.simps, simp_all add: arena_get_def next_slot_probe assms(1))
  next
    case (SlotOccupied i)
    then have i: "i < length es" using assms(5) lt by blast
    show ?thesis
    proof (cases "entry_matches h k (es ! i)")
      case True
      with SlotOccupied lt i show ?thesis by (subst lookup_loop.simps) (simp add: arena_get_def)
    next
      case False
      with SlotOccupied lt i r show ?thesis
        by (intro step) (subst lookup_loop.simps, simp_all add: arena_get_def next_slot_probe assms(1))
    qed
  qed
qed

text \<open>A slot where a new entry may go: free, and every slot the probe passes before it is taken.\<close>

definition open_at :: "ProbeSlot list \<Rightarrow> 64 word \<Rightarrow> nat \<Rightarrow> bool" where
  "open_at slots h s \<longleftrightarrow> (\<exists>j<length slots. s = probe (length slots) h j \<and> \<not> is_occupied (slots ! s) \<and>
     (\<forall>j'<j. slots ! probe (length slots) h j' \<noteq> SlotEmpty))"

lemma insert_slot_loop_run:
  assumes "table_size (length slots)" and "j \<le> E" and "E < length slots" and "slots ! probe (length slots) h E = SlotEmpty"
    and "\<forall>j<E. slots ! probe (length slots) h j \<noteq> SlotEmpty"
    and "\<forall>s<length slots. \<forall>i. slots ! s = SlotOccupied i \<longrightarrow> i < length es \<and> \<not> entry_matches h k (es ! i)"
    and "case t of None \<Rightarrow> True | Some s \<Rightarrow> open_at slots h s"
  shows "\<exists>s. insert_slot_loop h k es slots t (probe (length slots) h j) = Some s \<and> open_at slots h s"
  using assms(2,7)
proof (induction "E - j" arbitrary: j t)
  case 0
  then have "j = E" by simp
  have "open_at slots h (probe (length slots) h E)"
    unfolding open_at_def using assms(3-5) by (intro exI [of _ E]) simp
  with 0 \<open>j = E\<close> assms(1,4) show ?case
    by (subst insert_slot_loop.simps) (auto simp: arena_get_def split: option.splits)
next
  case (Suc d)
  let ?s = "slots ! probe (length slots) h j"
  have lt: "probe (length slots) h j < length slots" by (simp add: assms(1))
  have less: "d = E - Suc j" "Suc j \<le> E" using Suc.hyps(2) by auto
  show ?case
  proof (cases ?s)
    case SlotEmpty
    then show ?thesis using assms(5) less by auto
  next
    case SlotTombstone
    have "open_at slots h (probe (length slots) h j)"
      unfolding open_at_def using assms(3,5) less SlotTombstone by (intro exI [of _ j]) simp
    then have "\<exists>s. insert_slot_loop h k es slots (case t of Some t \<Rightarrow> Some t | None \<Rightarrow> Some (probe (length slots) h j))
        (probe (length slots) h (Suc j)) = Some s \<and> open_at slots h s"
      using Suc.prems(2) by (intro Suc.hyps(1) [OF less]) (auto split: option.splits)
    with SlotTombstone lt show ?thesis
      by (subst insert_slot_loop.simps) (simp add: arena_get_def next_slot_probe assms(1))
  next
    case (SlotOccupied i)
    then have "i < length es" "\<not> entry_matches h k (es ! i)" using assms(6) lt by blast+
    with SlotOccupied lt Suc.hyps(1) [OF less Suc.prems(2)] show ?thesis
      by (subst insert_slot_loop.simps) (simp add: arena_get_def next_slot_probe assms(1))
  qed
qed

lemma place_loop_run:
  assumes "table_size (length slots)" and "j \<le> E" and "E < length slots" and "slots ! probe (length slots) h E = SlotEmpty"
    and "\<forall>j<E. slots ! probe (length slots) h j \<noteq> SlotEmpty"
  shows "\<exists>s. place_loop i slots (probe (length slots) h j) = Some (slots[s := SlotOccupied i]) \<and>
    slots ! s = SlotEmpty \<and> open_at slots h s"
  using assms(2)
proof (induction "E - j" arbitrary: j)
  case 0
  then have "j = E" by simp
  have "open_at slots h (probe (length slots) h E)"
    unfolding open_at_def using assms(3-5) by (intro exI [of _ E]) simp
  with \<open>j = E\<close> assms(1,4) show ?case by (subst place_loop.simps) (auto simp: arena_get_def)
next
  case (Suc d)
  have less: "d = E - Suc j" "Suc j \<le> E" using Suc.hyps(2) by auto
  with Suc.hyps(1) [OF less] assms(5) show ?case
    by (subst place_loop.simps) (simp add: arena_get_def next_slot_probe assms(1))
qed

section \<open>Slots under updates\<close>

lemma slots_okD:
  assumes "slots_ok es slots"
  shows "table_size (length slots)"
    and "s < length slots \<Longrightarrow> slots ! s = SlotOccupied i \<Longrightarrow> i < length es \<and> pe_live (es ! i)"
    and "s < length slots \<Longrightarrow> s' < length slots \<Longrightarrow> slots ! s = SlotOccupied i \<Longrightarrow> slots ! s' = SlotOccupied i \<Longrightarrow> s = s'"
    and "i < length es \<Longrightarrow> pe_live (es ! i) \<Longrightarrow> placed slots (pe_hash (es ! i)) i"
  using assms unfolding slots_ok_def by blast+

lemma open_at_less: "table_size (length slots) \<Longrightarrow> open_at slots h s \<Longrightarrow> s < length slots"
  by (auto simp: open_at_def)

lemma placed_update:
  assumes "placed slots h i" and "table_size (length slots)" and "x \<noteq> SlotEmpty" and "s < length slots"
    and "slots ! s \<noteq> SlotOccupied i"
  shows "placed (slots[s := x]) h i"
proof -
  obtain j where "j < length slots" "slots ! probe (length slots) h j = SlotOccupied i"
    "\<forall>j'<j. slots ! probe (length slots) h j' \<noteq> SlotEmpty"
    using assms(1) unfolding placed_def by blast
  with assms(2-5) show ?thesis
    unfolding placed_def by (intro exI [of _ j]) (auto simp: nth_list_update)
qed

lemma slots_ok_empty: "table_size n \<Longrightarrow> slots_ok [] (replicate n SlotEmpty)"
  by (simp add: slots_ok_def)

lemma slots_ok_push:
  assumes ok: "slots_ok es slots" and op: "open_at slots (pe_hash e) s" and e: "pe_live e"
  shows "slots_ok (es @ [e]) (slots[s := SlotOccupied (length es)])"
proof -
  note size = slots_okD(1) [OF ok]
  have s: "s < length slots" by (rule open_at_less [OF size op])
  have fresh: "slots ! s' \<noteq> SlotOccupied (length es)" if "s' < length slots" for s'
    using slots_okD(2) [OF ok that] by blast
  have "placed (slots[s := SlotOccupied (length es)]) (pe_hash e) (length es)"
    using op s size unfolding open_at_def placed_def by (auto simp: nth_list_update)
  moreover have "placed (slots[s := SlotOccupied (length es)]) (pe_hash (es ! i)) i" if "i < length es" "pe_live (es ! i)" for i
    using slots_okD(4) [OF ok that] op s by (intro placed_update) (auto simp: size open_at_def)
  moreover have "i < Suc (length es) \<and> pe_live ((es @ [e]) ! i)"
    if "s' < length slots" "slots[s := SlotOccupied (length es)] ! s' = SlotOccupied i" for s' i
  proof (cases "s' = s")
    case True
    with that e show ?thesis by (auto simp: nth_append)
  next
    case False
    with that slots_okD(2) [OF ok that(1), of i] show ?thesis by (simp add: nth_append)
  qed
  moreover have "s' = s''" if "s' < length slots" "s'' < length slots"
    "slots[s := SlotOccupied (length es)] ! s' = SlotOccupied i"
    "slots[s := SlotOccupied (length es)] ! s'' = SlotOccupied i" for s' s'' i
    using that s fresh slots_okD(3) [OF ok that(1,2)] by (auto simp: nth_list_update split: if_splits)
  ultimately show ?thesis
    unfolding slots_ok_def using size by (auto simp: nth_append less_Suc_eq)
qed

lemma slots_ok_value:
  assumes "slots_ok es slots" and "i < length es"
  shows "slots_ok (es[i := (es ! i)\<lparr>pe_value := v\<rparr>]) slots"
  using assms unfolding slots_ok_def by (auto simp: nth_list_update)

lemma slots_ok_remove:
  assumes ok: "slots_ok es slots" and s: "s < length slots" "slots ! s = SlotOccupied i"
  shows "slots_ok (es[i := (es ! i)\<lparr>pe_live := False\<rparr>]) (slots[s := SlotTombstone])"
proof -
  note size = slots_okD(1) [OF ok]
  have other: "slots ! s' \<noteq> SlotOccupied i" if "s' < length slots" "s' \<noteq> s" for s'
    using slots_okD(3) [OF ok _ _ _ s(2)] s that by blast
  have "placed (slots[s := SlotTombstone]) (pe_hash (es ! i')) i'" if "i' < length es" "pe_live (es ! i')" "i' \<noteq> i" for i'
    using slots_okD(4) [OF ok that(1,2)] s that(3) by (intro placed_update) (auto simp: size)
  then show ?thesis
    unfolding slots_ok_def using size s slots_okD(2,3) [OF ok] other
    by (auto simp: nth_list_update split: if_splits)
qed

section \<open>Entries as an ordered map\<close>

abbreviation pairs_of :: "'v PrimitiveEntry list \<Rightarrow> (MapKey \<times> 'v) list" where
  "pairs_of es \<equiv> map (\<lambda>e. (pe_key e, pe_value e)) (filter pe_live es)"

lemma live_key:
  assumes "i < length es" and "pe_live (es ! i)"
  shows "pe_key (es ! i) \<in> pe_key ` set (filter pe_live es)"
  using assms by auto

lemma pairs_hit:
  assumes "distinct (map pe_key (filter pe_live es))" and "i < length es" and "pe_live (es ! i)" and "pe_key (es ! i) = k"
  shows "ord_find (=) k (pairs_of es) = Some (pe_value (es ! i))"
    and "pairs_of (es[i := (es ! i)\<lparr>pe_value := v\<rparr>]) = ord_update (=) k v (pairs_of es)"
    and "pairs_of (es[i := (es ! i)\<lparr>pe_live := False\<rparr>]) = ord_delete (=) k (pairs_of es)"
  using assms
proof (induction es arbitrary: i)
  case (Cons e es)
  { case 1
    then show ?case using Cons.IH(1) live_key [of _ es] by (cases i) (auto split: if_splits) }
  { case 2
    then show ?case using Cons.IH(2) live_key [of _ es] by (cases i) (auto split: if_splits) }
  { case 3
    then show ?case using Cons.IH(3) live_key [of _ es] by (cases i) (auto split: if_splits) }
qed simp_all

lemma pairs_miss: "ord_find (=) k (pairs_of es) = None \<longleftrightarrow> (\<forall>e\<in>set es. pe_live e \<longrightarrow> pe_key e \<noteq> k)"
  by (auto simp: ord_find_None)

lemma pairs_keys: "distinct (map pe_key (filter pe_live es)) \<Longrightarrow> ord_keys (=) (pairs_of es)"
  unfolding ord_keys_def sorted_wrt_map distinct_conv_nth sorted_wrt_iff_nth_less by auto

lemma filter_value_update:
  "i < length es \<Longrightarrow> map pe_key (filter pe_live (es[i := (es ! i)\<lparr>pe_value := v\<rparr>])) = map pe_key (filter pe_live es)"
proof (induction es arbitrary: i)
  case (Cons e es)
  then show ?case by (cases i) auto
qed simp

lemma filter_dead_update:
  assumes "i < length es"
  shows "filter pe_live (es[i := (es ! i)\<lparr>pe_live := False\<rparr>]) = filter pe_live (take i es) @ filter pe_live (drop (Suc i) es)"
    and "filter pe_live es = filter pe_live (take i es) @ filter pe_live [es ! i] @ filter pe_live (drop (Suc i) es)"
  using arg_cong [OF id_take_nth_drop [OF assms], of "filter pe_live"] by (simp_all add: upd_conv_take_nth_drop assms)

lemma entries_ok_updates:
  assumes "entries_ok es" and "i < length es"
  shows "entries_ok (es[i := (es ! i)\<lparr>pe_value := v\<rparr>])" and "entries_ok (es[i := (es ! i)\<lparr>pe_live := False\<rparr>])"
proof -
  show "entries_ok (es[i := (es ! i)\<lparr>pe_value := v\<rparr>])"
    using assms filter_value_update [OF assms(2), of v] by (simp add: entries_ok_def list_all_length nth_list_update)
  have "distinct (map pe_key (filter pe_live es))" using assms(1) by (simp add: entries_ok_def)
  then have "distinct (map pe_key (filter pe_live (es[i := (es ! i)\<lparr>pe_live := False\<rparr>])))"
    unfolding filter_dead_update(1) [OF assms(2)] by (subst (asm) filter_dead_update(2) [OF assms(2)]) auto
  then show "entries_ok (es[i := (es ! i)\<lparr>pe_live := False\<rparr>])"
    using assms by (simp add: entries_ok_def list_all_length nth_list_update)
qed

lemma entries_ok_push:
  assumes "entries_ok es" and "ord_find (=) k (pairs_of es) = None"
  shows "entries_ok (es @ [\<lparr>pe_hash = primitive_hash k, pe_key = k, pe_value = v, pe_live = True\<rparr>])"
  using assms by (auto simp: entries_ok_def pairs_miss)

section \<open>Lookup\<close>

lemma table_inv_slots:
  assumes "table_inv m" and "pt_slots m \<noteq> []"
  shows "slots_ok (pt_entries m) (pt_slots m)" and "entries_ok (pt_entries m)"
    and "pt_live_len m = length (filter pe_live (pt_entries m))" and "pt_live_len m = occupied_slots (pt_slots m)"
    and "pt_tombstones m = tombstone_slots (pt_slots m)" and "pt_live_len m + pt_tombstones m < length (pt_slots m)"
  using assms by (simp_all add: table_inv_def)

lemma table_inv_free:
  assumes "table_inv m" and "pt_slots m \<noteq> []"
  shows "\<exists>E<length (pt_slots m). pt_slots m ! probe (length (pt_slots m)) h E = SlotEmpty \<and>
    (\<forall>j<E. pt_slots m ! probe (length (pt_slots m)) h j \<noteq> SlotEmpty)"
  using table_inv_slots [OF assms] by (intro first_free free_slot) (auto dest: slots_okD(1))

lemma table_lookup_spec:
  assumes inv: "table_inv m"
  shows "\<exists>r. table_lookup k m = Some r \<and>
    (case r of
       None \<Rightarrow> ord_find (=) k (content m) = None
     | Some (s, i) \<Rightarrow> s < length (pt_slots m) \<and> pt_slots m ! s = SlotOccupied i \<and>
         i < length (pt_entries m) \<and> pe_live (pt_entries m ! i) \<and> pe_key (pt_entries m ! i) = k)"
proof (cases "pt_slots m = []")
  case True
  then show ?thesis using inv by (simp add: table_lookup_def table_inv_def content_def)
next
  case False
  let ?es = "pt_entries m" and ?sl = "pt_slots m" and ?h = "primitive_hash k"
  note ok = table_inv_slots [OF inv False]
  note size = slots_okD(1) [OF ok(1)]
  obtain E where E: "E < length ?sl" "?sl ! probe (length ?sl) ?h E = SlotEmpty"
    "\<forall>j<E. ?sl ! probe (length ?sl) ?h j \<noteq> SlotEmpty"
    using table_inv_free [OF inv False] by blast
  obtain r where r: "lookup_loop ?h k ?es ?sl (probe (length ?sl) ?h 0) = Some r"
    and post: "case r of
       None \<Rightarrow> \<forall>j'<E. 0 \<le> j' \<longrightarrow>
         (\<forall>i. ?sl ! probe (length ?sl) ?h j' = SlotOccupied i \<longrightarrow> \<not> entry_matches ?h k (?es ! i))
     | Some (s, i) \<Rightarrow> s < length ?sl \<and> ?sl ! s = SlotOccupied i \<and> entry_matches ?h k (?es ! i)"
    using lookup_loop_run [OF size le0 E(2,3), of ?es k] slots_okD(2) [OF ok(1)] by blast
  have look: "table_lookup k m = Some r" using r False by (simp add: table_lookup_def probe_0 [OF size])
  show ?thesis
  proof (cases r)
    case None
    have "pe_key (?es ! i) \<noteq> k" if i: "i < length ?es" "pe_live (?es ! i)" for i
    proof
      assume k: "pe_key (?es ! i) = k"
      then have h: "pe_hash (?es ! i) = ?h" using ok(2) i by (auto simp: entries_ok_def list_all_length)
      obtain j where j: "?sl ! probe (length ?sl) ?h j = SlotOccupied i"
        "\<forall>j'<j. ?sl ! probe (length ?sl) ?h j' \<noteq> SlotEmpty"
        using slots_okD(4) [OF ok(1) i] by (auto simp: placed_def h)
      then have "j < E" using E(2) by (metis ProbeSlot.distinct(3) linorder_neqE_nat)
      with None post j(1) i k h show False by (auto simp: entry_matches_def)
    qed
    then have "ord_find (=) k (content m) = None" unfolding content_def pairs_miss by (metis in_set_conv_nth)
    with look None show ?thesis by simp
  next
    case (Some p)
    with look post slots_okD(2) [OF ok(1)] show ?thesis by (auto simp: entry_matches_def split: prod.splits)
  qed
qed

lemma table_inv_distinct: "table_inv m \<Longrightarrow> distinct (map pe_key (filter pe_live (pt_entries m)))"
  by (auto simp: table_inv_def entries_ok_def split: if_splits)

lemma table_get_spec:
  assumes "table_inv m"
  shows "table_get k m = Some (ord_find (=) k (content m))"
proof -
  obtain r where r: "table_lookup k m = Some r" and post: "case r of
       None \<Rightarrow> ord_find (=) k (content m) = None
     | Some (s, i) \<Rightarrow> s < length (pt_slots m) \<and> pt_slots m ! s = SlotOccupied i \<and>
         i < length (pt_entries m) \<and> pe_live (pt_entries m ! i) \<and> pe_key (pt_entries m ! i) = k"
    using table_lookup_spec [OF assms] by blast
  show ?thesis
  proof (cases r)
    case None
    with r post show ?thesis by (simp add: table_get_def)
  next
    case (Some p)
    then obtain s i where p: "r = Some (s, i)" by (cases p) simp
    with r post pairs_hit(1) [OF table_inv_distinct [OF assms], of i k] show ?thesis
      by (simp add: table_get_def arena_get_def content_def)
  qed
qed

lemma find_slot_index_spec:
  assumes inv: "table_inv m" and ne: "pt_slots m \<noteq> []" and new: "ord_find (=) k (content m) = None"
  shows "\<exists>s. find_slot_index_for_insert k m = Some s \<and> open_at (pt_slots m) (primitive_hash k) s"
proof -
  let ?es = "pt_entries m" and ?sl = "pt_slots m" and ?h = "primitive_hash k"
  note ok = table_inv_slots [OF inv ne]
  note size = slots_okD(1) [OF ok(1)]
  obtain E where E: "E < length ?sl" "?sl ! probe (length ?sl) ?h E = SlotEmpty"
    "\<forall>j<E. ?sl ! probe (length ?sl) ?h j \<noteq> SlotEmpty"
    using table_inv_free [OF inv ne] by blast
  have "\<forall>s<length ?sl. \<forall>i. ?sl ! s = SlotOccupied i \<longrightarrow> i < length ?es \<and> \<not> entry_matches ?h k (?es ! i)"
    using slots_okD(2) [OF ok(1)] new unfolding content_def pairs_miss by (auto simp: entry_matches_def)
  from insert_slot_loop_run [OF size le0 E this, of None] show ?thesis
    by (simp add: find_slot_index_for_insert_def probe_0 [OF size])
qed

end
