(* ===== verification/Hash_Map_Refine.thy ===== *)
theory Hash_Map_Refine
  imports Hash_Map_Correct
begin

text \<open>
  Rehashing, insertion and removal keep the invariant and refine the ordered map; the interpretation
  of the map contract on the hash table.
\<close>

section \<open>Rehashing\<close>

lemma count_updates:
  assumes "s < length slots" and "\<not> is_occupied (slots ! s)"
  shows "occupied_slots (slots[s := SlotOccupied i]) = Suc (occupied_slots slots)"
    and "tombstone_slots (slots[s := SlotOccupied i]) =
      (if slots ! s = SlotTombstone then tombstone_slots slots - 1 else tombstone_slots slots)"
    and "slots ! s = SlotTombstone \<Longrightarrow> 0 < tombstone_slots slots"
  using assms length_filter_update [OF assms(1), of is_occupied "SlotOccupied i"]
    length_filter_update [OF assms(1), of "\<lambda>s. s = SlotTombstone" "SlotOccupied i"]
  by (auto simp: occupied_slots_def tombstone_slots_def)

lemma place_all_run:
  assumes "slots_ok pre slots" and "list_all pe_live es" and "occupied_slots slots = length pre"
    and "tombstone_slots slots = 0" and "length pre + length es < length slots"
  shows "\<exists>slots'. place_all (length pre) es slots = Some slots' \<and> slots_ok (pre @ es) slots' \<and>
    length slots' = length slots \<and> occupied_slots slots' = length pre + length es \<and> tombstone_slots slots' = 0"
  using assms
proof (induction es arbitrary: pre slots)
  case (Cons e es)
  note size = slots_okD(1) [OF Cons.prems(1)]
  have "\<exists>s<length slots. slots ! s = SlotEmpty" using Cons.prems(3-5) by (intro free_slot) simp
  then obtain E where E: "E < length slots" "slots ! probe (length slots) (pe_hash e) E = SlotEmpty"
    "\<forall>j<E. slots ! probe (length slots) (pe_hash e) j \<noteq> SlotEmpty"
    using first_free [OF size] by blast
  obtain s where s: "place_loop (length pre) slots (probe_index (pe_hash e) (length slots)) =
      Some (slots[s := SlotOccupied (length pre)])" "slots ! s = SlotEmpty" "open_at slots (pe_hash e) s"
    using place_loop_run [OF size le0 E, of "length pre"] by (auto simp: probe_0 [OF size])
  have less: "s < length slots" by (rule open_at_less [OF size s(3)])
  have "slots_ok (pre @ [e]) (slots[s := SlotOccupied (length pre)])"
    using Cons.prems(2) by (intro slots_ok_push [OF Cons.prems(1) s(3)]) simp
  from Cons.IH [OF this] Cons.prems(2-5) s(2) count_updates(1,2) [OF less, of "length pre"] show ?case
    by (simp add: s(1))
qed simp

lemma rehash_spec:
  assumes ok: "entries_ok (pt_entries m)" and n: "table_size n" and room: "length (filter pe_live (pt_entries m)) < n"
  shows "\<exists>m'. rehash n m = Some m' \<and> table_inv m' \<and> content m' = content m \<and> n \<le> length (pt_slots m') \<and>
    pt_tombstones m' = 0 \<and> pt_live_len m' = length (filter pe_live (pt_entries m))"
proof -
  let ?live = "filter pe_live (pt_entries m)"
  define count where
    "count = max (max n (slot_count_for_min_live (length ?live))) (if ?live = [] then 0 else 8)"
  have "table_size 8" by (auto simp: table_size_def intro: exI [of _ 3])
  moreover have "slot_count_for_min_live (length ?live) = 0 \<or> table_size (slot_count_for_min_live (length ?live))"
    using slot_count_size [of "length ?live"] by (cases "?live") (auto simp: slot_count_for_min_live_def)
  ultimately have size: "table_size count" unfolding count_def by (intro table_size_max n) auto
  then have pos: "0 < count" by (simp add: table_size_def)
  have "occupied_slots (replicate count SlotEmpty) = 0" "tombstone_slots (replicate count SlotEmpty) = 0"
    by (simp_all add: occupied_slots_def tombstone_slots_def)
  moreover have "length ?live < count" using room by (simp add: count_def)
  ultimately obtain slots where slots: "place_all 0 ?live (replicate count SlotEmpty) = Some slots"
    "slots_ok ?live slots" "length slots = count" "occupied_slots slots = length ?live" "tombstone_slots slots = 0"
    using place_all_run [OF slots_ok_empty [OF size], of ?live] by (auto simp: list_all_iff)
  have "entries_ok ?live" using ok by (auto simp: entries_ok_def list_all_iff)
  with slots pos \<open>length ?live < count\<close> show ?thesis
    by (auto simp: rehash_def Let_def count_def [symmetric] table_inv_def content_def)
      (simp_all add: count_def)
qed

lemma ensure_ready_spec:
  assumes inv: "table_inv m"
  shows "\<exists>m'. ensure_ready_for_insert cap m = Some m' \<and> table_inv m' \<and> content m' = content m \<and>
    pt_slots m' \<noteq> [] \<and> (pt_live_len m' + pt_tombstones m') * 10 < length (pt_slots m') * 7"
proof (cases "pt_slots m = []")
  case True
  then have "pt_entries m = []" using inv by (simp add: table_inv_def)
  moreover have size: "table_size (slot_count_for_min_live (max cap 1))" by (rule slot_count_size) simp
  moreover have "0 < slot_count_for_min_live (max cap 1)" using size by (simp add: table_size_def)
  ultimately obtain m' where m': "rehash (slot_count_for_min_live (max cap 1)) m = Some m'" "table_inv m'"
    "content m' = content m" "slot_count_for_min_live (max cap 1) \<le> length (pt_slots m')" "pt_tombstones m' = 0" "pt_live_len m' = 0"
    using rehash_spec [OF _ size, of m] by (auto simp: entries_ok_def)
  with True size show ?thesis by (auto simp: ensure_ready_for_insert_def table_size_def)
next
  case False
  note ok = table_inv_slots [OF inv False]
  have size: "table_size (length (pt_slots m))" by (rule slots_okD(1) [OF ok(1)])
  obtain m1 where m1: "(if pt_live_len m < pt_tombstones m then rehash (length (pt_slots m)) m else Some m) = Some m1"
    "table_inv m1" "content m1 = content m" "pt_slots m1 \<noteq> []"
    using rehash_spec [OF ok(2) size] inv False ok(3,6) by (cases "pt_live_len m < pt_tombstones m") force+
  note ok1 = table_inv_slots [OF m1(2,4)]
  let ?n = "max (length (pt_slots m1) * 2) (slot_count_for_min_live (pt_live_len m1 + 1))"
  have size1: "table_size ?n"
    using slots_okD(1) [OF ok1(1)] by (intro table_size_max table_size_double disjI2 slot_count_size) auto
  have "length (filter pe_live (pt_entries m1)) < ?n" using ok1(3,6) by simp
  from rehash_spec [OF ok1(2) size1 this] obtain m2 where m2: "rehash ?n m1 = Some m2" "table_inv m2"
    "content m2 = content m1" "?n \<le> length (pt_slots m2)" "pt_tombstones m2 = 0" "pt_live_len m2 = pt_live_len m1"
    using ok1(3) by auto
  then have "length (pt_slots m1) * 2 \<le> length (pt_slots m2)" by simp
  then have "(pt_live_len m2 + pt_tombstones m2) * 10 < length (pt_slots m2) * 7" "pt_slots m2 \<noteq> []"
    using ok1(6) m2(5,6) by (simp, auto)
  with m1 m2 False show ?thesis by (auto simp: ensure_ready_for_insert_def not_le)
qed

section \<open>Insertion\<close>

lemma update_entry_spec:
  assumes inv: "table_inv m" and i: "i < length (pt_entries m)" "pe_live (pt_entries m ! i)" "pe_key (pt_entries m ! i) = k"
  shows "table_inv (m\<lparr>pt_entries := (pt_entries m)[i := (pt_entries m ! i)\<lparr>pe_value := v\<rparr>]\<rparr>)"
    and "content (m\<lparr>pt_entries := (pt_entries m)[i := (pt_entries m ! i)\<lparr>pe_value := v\<rparr>]\<rparr>) = ord_update (=) k v (content m)"
proof -
  have ne: "pt_slots m \<noteq> []" using inv i(1) by (auto simp: table_inv_def)
  show "table_inv (m\<lparr>pt_entries := (pt_entries m)[i := (pt_entries m ! i)\<lparr>pe_value := v\<rparr>]\<rparr>)"
    using table_inv_slots [OF inv ne] ne slots_ok_value [OF _ i(1)] entries_ok_updates(1) [OF _ i(1)]
      arg_cong [OF filter_value_update [OF i(1)], of length]
    by (simp add: table_inv_def)
  show "content (m\<lparr>pt_entries := (pt_entries m)[i := (pt_entries m ! i)\<lparr>pe_value := v\<rparr>]\<rparr>) = ord_update (=) k v (content m)"
    using pairs_hit(2) [OF table_inv_distinct [OF inv] i] by (simp add: content_def)
qed

lemma push_entry_spec:
  assumes inv: "table_inv m" and new: "ord_find (=) k (content m) = None"
    and room: "(pt_live_len m + pt_tombstones m) * 10 < length (pt_slots m) * 7"
    and op: "open_at (pt_slots m) (primitive_hash k) s" and ne: "pt_slots m \<noteq> []"
  shows "\<exists>m'. push_entry k v s m = Some m' \<and> table_inv m' \<and> content m' = ord_update (=) k v (content m)"
proof -
  note ok = table_inv_slots [OF inv ne]
  note size = slots_okD(1) [OF ok(1)]
  let ?e = "\<lparr>pe_hash = primitive_hash k, pe_key = k, pe_value = v, pe_live = True\<rparr>"
  have s: "s < length (pt_slots m)" by (rule open_at_less [OF size op])
  have free: "\<not> is_occupied (pt_slots m ! s)" using op by (auto simp: open_at_def)
  have "slots_ok (pt_entries m @ [?e]) ((pt_slots m)[s := SlotOccupied (length (pt_entries m))])"
    using op by (intro slots_ok_push [OF ok(1)]) simp_all
  moreover have "entries_ok (pt_entries m @ [?e])" using new by (intro entries_ok_push [OF ok(2)]) (simp add: content_def)
  moreover have "8 \<le> length (pt_slots m)" using size by (simp add: table_size_def)
  ultimately show ?thesis
    using s ne ok(3-6) room count_updates [OF s free] ord_update_new [OF new]
    by (auto simp: push_entry_def arena_get_def table_inv_def content_def)
qed

lemma map_insert_spec:
  assumes "table_inv m0"
  shows "\<exists>m'. map_insert cap k v m0 = Some m' \<and> table_inv m' \<and> content m' = ord_update (=) k v (content m0)"
proof -
  obtain m where m: "ensure_ready_for_insert cap m0 = Some m" "table_inv m" "content m = content m0" "pt_slots m \<noteq> []"
    "(pt_live_len m + pt_tombstones m) * 10 < length (pt_slots m) * 7"
    using ensure_ready_spec [OF assms] by blast
  obtain r where r: "table_lookup k m = Some r" and post: "case r of
       None \<Rightarrow> ord_find (=) k (content m) = None
     | Some (s, i) \<Rightarrow> s < length (pt_slots m) \<and> pt_slots m ! s = SlotOccupied i \<and>
         i < length (pt_entries m) \<and> pe_live (pt_entries m ! i) \<and> pe_key (pt_entries m ! i) = k"
    using table_lookup_spec [OF m(2)] by blast
  show ?thesis
  proof (cases r)
    case None
    with post have new: "ord_find (=) k (content m) = None" by simp
    obtain s where s: "find_slot_index_for_insert k m = Some s" "open_at (pt_slots m) (primitive_hash k) s"
      using find_slot_index_spec [OF m(2,4) new] by blast
    from push_entry_spec [OF m(2) new m(5) s(2) m(4)] None m r s(1) show ?thesis
      by (simp add: map_insert_def find_slot_def)
  next
    case (Some p)
    then obtain s i where "r = Some (s, i)" by (cases p) simp
    with m r post update_entry_spec [OF m(2), of i k v] show ?thesis
      by (simp add: map_insert_def find_slot_def arena_get_def)
  qed
qed

section \<open>Removal\<close>

lemma table_remove_spec:
  assumes inv: "table_inv m"
  shows "\<exists>m'. table_remove k m = Some m' \<and> table_inv m' \<and> content m' = ord_delete (=) k (content m)"
proof -
  obtain r where r: "table_lookup k m = Some r" and post: "case r of
       None \<Rightarrow> ord_find (=) k (content m) = None
     | Some (s, i) \<Rightarrow> s < length (pt_slots m) \<and> pt_slots m ! s = SlotOccupied i \<and>
         i < length (pt_entries m) \<and> pe_live (pt_entries m ! i) \<and> pe_key (pt_entries m ! i) = k"
    using table_lookup_spec [OF inv] by blast
  show ?thesis
  proof (cases r)
    case None
    with r post inv show ?thesis by (simp add: table_remove_def ord_delete_none)
  next
    case (Some p)
    then obtain s i where p: "r = Some (s, i)" by (cases p) simp
    then have s: "s < length (pt_slots m)" "pt_slots m ! s = SlotOccupied i"
      and i: "i < length (pt_entries m)" "pe_live (pt_entries m ! i)" "pe_key (pt_entries m ! i) = k"
      using post by auto
    have ne: "pt_slots m \<noteq> []" using s by auto
    note ok = table_inv_slots [OF inv ne]
    define m1 where "m1 = m\<lparr>pt_entries := (pt_entries m)[i := (pt_entries m ! i)\<lparr>pe_live := False\<rparr>],
      pt_slots := (pt_slots m)[s := SlotTombstone], pt_live_len := pt_live_len m - 1, pt_tombstones := pt_tombstones m + 1\<rparr>"
    have content1: "content m1 = ord_delete (=) k (content m)"
      using pairs_hit(3) [OF table_inv_distinct [OF inv] i] by (simp add: m1_def content_def)
    have live: "length (filter pe_live (pt_entries m)) = Suc (length (filter pe_live (pt_entries m1)))"
      using length_filter_update [OF i(1), of pe_live "(pt_entries m ! i)\<lparr>pe_live := False\<rparr>"] i(2) by (simp add: m1_def)
    have inv1: "table_inv m1"
      using ok ne live slots_ok_remove [OF ok(1) s] entries_ok_updates(2) [OF ok(2) i(1)]
        length_filter_update [OF s(1), of is_occupied SlotTombstone]
        length_filter_update [OF s(1), of "\<lambda>s. s = SlotTombstone" SlotTombstone] s(2)
      by (simp add: table_inv_def m1_def occupied_slots_def tombstone_slots_def)
    have ne1: "pt_slots m1 \<noteq> []" using ne by (simp add: m1_def)
    note ok1 = table_inv_slots [OF inv1 ne1]
    have "\<exists>m'. rehash (length (pt_slots m1)) m1 = Some m' \<and> table_inv m' \<and> content m' = content m1"
      using rehash_spec [OF ok1(2) slots_okD(1) [OF ok1(1)]] ok1(3,6) by auto
    moreover have "table_remove k m = (if pt_live_len m1 < pt_tombstones m1 then rehash (length (pt_slots m1)) m1 else Some m1)"
      using r p i(1) ne1 by (simp add: table_remove_def arena_get_def Let_def m1_def)
    ultimately show ?thesis using content1 inv1 by (cases "pt_live_len m1 < pt_tombstones m1") auto
  qed
qed

section \<open>The interpretation\<close>

interpretation hash_map: ordered_map table_inv content "(=)" table_get "map_insert cap" table_remove
  for cap :: nat
proof
  show "equivp ((=) :: MapKey \<Rightarrow> _)" by (rule identity_equivp)
  show "table_inv m \<Longrightarrow> ord_keys (=) (content m)" for m :: "'a PrimitiveTable"
    unfolding content_def by (intro pairs_keys table_inv_distinct)
qed (rule table_get_spec map_insert_spec table_remove_spec, assumption)+

lemma with_capacity_inv: "table_inv (with_capacity hint)" and content_with_capacity: "content (with_capacity hint) = []"
proof -
  have "hint = 0 \<or> table_size (slot_count_for_min_live hint)" using slot_count_size [of hint] by auto
  then show "table_inv (with_capacity hint)"
    using slots_ok_empty [of "slot_count_for_min_live hint"]
    by (auto simp: with_capacity_def table_inv_def entries_ok_def occupied_slots_def tombstone_slots_def
        table_size_def slot_count_for_min_live_def)
  show "content (with_capacity hint) = []" by (simp add: content_def with_capacity_def)
qed

lemma table_len: "table_inv m \<Longrightarrow> pt_live_len m = length (content m)"
  by (auto simp: table_inv_def content_def split: if_splits)

lemma fold_update_fresh:
  "distinct (map pe_key es) \<Longrightarrow> pe_key ` set es \<inter> fst ` set xs = {} \<Longrightarrow>
   fold (\<lambda>e. ord_update (=) (pe_key e) (pe_value e)) es xs = xs @ map (\<lambda>e. (pe_key e, pe_value e)) es"
proof (induction es arbitrary: xs)
  case (Cons e es)
  then have "ord_find (=) (pe_key e) xs = None" by (force simp: ord_find_None)
  with Cons show ?case by (auto simp: ord_update_new)
qed simp

lemma snapshot_content: "table_inv m \<Longrightarrow> table_snapshot m = content m"
  using fold_update_fresh [OF table_inv_distinct, of m "[]"] by (simp add: table_snapshot_def content_def)

end
