(* ===== verification/Map_Value_Correct.thy ===== *)
theory Map_Value_Correct
  imports Map_Value Hash_Map_Refine
begin

text \<open>
  Generic, persistent and mutable maps implement the ordered map of their keys' equality, provided
  the closures that compare and hash keys are consistent.
\<close>

section \<open>Computations that return\<close>

definition returns :: "('s, 'e, 'a) eff \<Rightarrow> 'a \<Rightarrow> bool" where
  "returns m x \<longleftrightarrow> (\<forall>s. \<exists>s'. m s = Some (Inr x, s'))"

named_theorems returns_intros \<open>computations that return a value from every state\<close>

lemma returns_ret [returns_intros]: "returns (ret x) x"
  by (simp add: returns_def ret_def)

lemma returns_panicking [returns_intros]: "r = Some x \<Longrightarrow> returns (panicking r) x"
  by (simp add: returns_def panicking_def)

lemma returns_andthen [returns_intros]: "returns m x \<Longrightarrow> returns (f x) y \<Longrightarrow> returns (andthen m f) y"
  unfolding returns_def andthen_def by (metis (no_types, lifting) case_prod_conv option.simps(5) sum.case(2))

lemma returns_eq_values [returns_intros]: "returns (eq_values a b) (a = b)"
  unfolding eq_values_def by (rule returns_ret)

section \<open>Buckets\<close>

text \<open>The index that belongs to a vector of entries: for every hash its positions in order.\<close>

definition positions :: "MapEntry list \<Rightarrow> 64 word \<Rightarrow> nat list" where
  "positions es h = filter (\<lambda>i. me_hash (es ! i) = h) [0..<length es]"

definition bucket_of :: "MapEntry list \<Rightarrow> buckets" where
  "bucket_of es h = (if positions es h = [] then None else Some (positions es h))"

lemma positions_snoc: "positions (es @ [e]) h = positions es h @ (if me_hash e = h then [length es] else [])"
proof -
  have "filter (\<lambda>i. me_hash ((es @ [e]) ! i) = h) [0..<length es] = filter (\<lambda>i. me_hash (es ! i) = h) [0..<length es]"
    by (rule filter_cong) (auto simp: nth_append)
  then show ?thesis by (simp add: positions_def)
qed

lemma bucket_of_snoc: "bucket_of (es @ [e]) = push_bucket_index (me_hash e) (length es) (bucket_of es)"
  by (rule ext) (simp add: bucket_of_def push_bucket_index_def positions_snoc)

lemma index_entries_bucket_of: "index_entries (length pre) es (bucket_of pre) = bucket_of (pre @ es)"
proof (induction es arbitrary: pre)
  case (Cons e es)
  from Cons.IH [of "pre @ [e]"] show ?case by (simp add: bucket_of_snoc)
qed simp

lemma bucket_of_Nil: "bucket_of [] = Map.empty"
  by (simp add: fun_eq_iff bucket_of_def positions_def)

lemma from_entries_eq: "from_entries es = \<lparr>gm_entries = es, gm_buckets = bucket_of es\<rparr>"
  using index_entries_bucket_of [of "[]" es] by (simp add: from_entries_def bucket_of_Nil)

lemma positions_map: "positions es h = filter (\<lambda>i. map me_hash es ! i = h) [0..<length (map me_hash es)]"
  unfolding positions_def by (rule filter_cong) auto

lemma bucket_of_map: "map me_hash es = map me_hash es' \<Longrightarrow> bucket_of es = bucket_of es'"
  by (rule ext) (simp only: bucket_of_def positions_map)

text \<open>What removing the entry at \<open>idx\<close> does to the positions of a hash.\<close>

lemma upt_split: "idx < n \<Longrightarrow> [0..<n] = [0..<idx] @ idx # [Suc idx..<n]"
  by (metis less_imp_le_nat upt_conv_Cons upt_add_eq_append le_add_diff_inverse le0)

lemma list_remove_nth:
  "idx < length xs \<Longrightarrow> i < length xs - 1 \<Longrightarrow> list_remove idx xs ! i = (if i < idx then xs ! i else xs ! Suc i)"
  by (auto simp: list_remove_def nth_append)

lemma positions_remove:
  assumes "idx < length es"
  shows "positions (list_remove idx es) h =
    map (\<lambda>i. if idx < i then i - 1 else i) (filter (\<lambda>i. i \<noteq> idx) (positions es h))"
proof -
  let ?n = "length es" and ?f = "\<lambda>i. if idx < i then i - 1 else i"
  have len: "length (list_remove idx es) = ?n - 1" using assms by (simp add: list_remove_def)
  have "[0..<?n - 1] = [0..<idx] @ [idx..<?n - 1]"
    using upt_add_eq_append [of 0 idx "?n - 1 - idx"] assms by simp
  then have "positions (list_remove idx es) h =
      filter (\<lambda>i. me_hash (list_remove idx es ! i) = h) ([0..<idx] @ [idx..<?n - 1])"
    by (simp only: positions_def len)
  moreover have up: "[idx..<?n - 1] = map (\<lambda>i. i - 1) [Suc idx..<?n]"
    using assms by (intro nth_equalityI) auto
  moreover have "filter (\<lambda>i. me_hash (list_remove idx es ! i) = h) ([0..<idx] @ [idx..<?n - 1]) =
      filter (\<lambda>i. me_hash (es ! i) = h) [0..<idx] @
      map (\<lambda>i. i - 1) (filter (\<lambda>i. me_hash (es ! i) = h) [Suc idx..<?n])"
    unfolding filter_append up filter_map comp_def
    using assms by (intro arg_cong2 [of _ _ _ _ "(@)"] filter_cong arg_cong [of _ _ "map _"]) (auto simp: list_remove_nth)
  moreover have "\<dots> = map ?f (filter (\<lambda>i. i \<noteq> idx) (positions es h))"
    using assms by (simp add: positions_def upt_split [OF assms] filter_filter)
      (auto intro!: arg_cong2 [of _ _ _ _ "(@)"] map_cong filter_cong map_idI [symmetric] simp flip: filter_filter)
  ultimately show ?thesis by simp
qed

lemma remove_position: "distinct xs \<Longrightarrow>
  (case position (\<lambda>i. i = x) xs of Some pos \<Rightarrow> list_remove pos xs | None \<Rightarrow> xs) = filter (\<lambda>i. i \<noteq> x) xs"
proof (induction xs)
  case (Cons a xs)
  have "filter (\<lambda>i. i \<noteq> a) xs = xs" using Cons.prems by (intro filter_True) auto
  with Cons show ?case by (auto simp: list_remove_def split: option.splits)
qed simp

lemma bucket_of_remove:
  assumes "idx < length es"
  shows "shift_bucket_indices_after_removal idx (remove_bucket_index (me_hash (es ! idx)) idx (bucket_of es)) =
    bucket_of (list_remove idx es)"
proof
  fix h
  have d: "distinct (positions es h)" for h by (simp add: positions_def)
  have mem: "idx \<in> set (positions es h) \<longleftrightarrow> me_hash (es ! idx) = h" for h using assms by (auto simp: positions_def)
  have other: "me_hash (es ! idx) \<noteq> h \<Longrightarrow> filter (\<lambda>i. i \<noteq> idx) (positions es h) = positions es h"
    using mem by (intro filter_True) auto
  have some: "bucket_of es (me_hash (es ! idx)) = Some (positions es (me_hash (es ! idx)))"
    using mem [of "me_hash (es ! idx)"] by (auto simp: bucket_of_def)
  show "shift_bucket_indices_after_removal idx (remove_bucket_index (me_hash (es ! idx)) idx (bucket_of es)) h =
      bucket_of (list_remove idx es) h"
    using positions_remove [OF assms, of h] other
    by (cases "me_hash (es ! idx) = h")
      (auto simp: shift_bucket_indices_after_removal_def remove_bucket_index_def some remove_position [OF d] Let_def bucket_of_def
        split: option.splits)
qed

section \<open>Keys\<close>

lemma from_to_value [simp]: "from_value (to_value k) = Some k"
  by (cases k) simp_all

lemma from_value_Some: "from_value v = Some k \<longleftrightarrow> v = to_value k"
  by (cases v; cases k) auto

lemma to_value_inject [simp]: "to_value a = to_value b \<longleftrightarrow> a = b"
  by (metis from_to_value option.inject)

text \<open>
  What the interpreter must guarantee of the equality and the hash of keys: an equivalence that is
  identity on primitive values, and a hash that it respects and that is the primitive one there.  A
  comparison decides the equality with a key when it returns the answer for every entry.
\<close>

definition decides :: "('s, 'e) eq_fn \<Rightarrow> (Value \<Rightarrow> Value \<Rightarrow> bool) \<Rightarrow> Value \<Rightarrow> bool" where
  "decides eq R key \<longleftrightarrow> (\<forall>a. returns (eq a key) (R a key))"

definition key_laws :: "(Value \<Rightarrow> Value \<Rightarrow> bool) \<Rightarrow> (Value \<Rightarrow> 64 word) \<Rightarrow> bool" where
  "key_laws R h \<longleftrightarrow> equivp R \<and> (\<forall>a b. R a b \<longrightarrow> h a = h b) \<and> (\<forall>k. h (to_value k) = primitive_hash k) \<and>
     (\<forall>v k. R v (to_value k) \<longleftrightarrow> v = to_value k)"

lemma key_lawsD:
  assumes "key_laws R h"
  shows "equivp R" and "R a b \<Longrightarrow> h a = h b" and "h (to_value k) = primitive_hash k"
    and "R v (to_value k) \<longleftrightarrow> v = to_value k" and "R (to_value k) v \<longleftrightarrow> v = to_value k"
  using assms unfolding key_laws_def by (auto dest: equivp_symp)

section \<open>Generic maps\<close>

abbreviation entry_pairs :: "MapEntry list \<Rightarrow> (Value \<times> Value) list" where
  "entry_pairs es \<equiv> map (\<lambda>e. (me_key e, me_value e)) es"

definition generic_inv :: "(Value \<Rightarrow> Value \<Rightarrow> bool) \<Rightarrow> (Value \<Rightarrow> 64 word) \<Rightarrow> GenericMapValue \<Rightarrow> bool" where
  "generic_inv R h m \<longleftrightarrow> gm_buckets m = bucket_of (gm_entries m) \<and> ord_keys R (entry_pairs (gm_entries m)) \<and>
     list_all (\<lambda>e. me_hash e = h (me_key e)) (gm_entries m)"

abbreviation first_index :: "(Value \<Rightarrow> bool) \<Rightarrow> MapEntry list \<Rightarrow> nat option" where
  "first_index P es \<equiv> find (\<lambda>i. P (me_key (es ! i))) [0..<length es]"

lemma find_index_loop_returns:
  assumes "decides eq R key" and "list_all (\<lambda>i. i < length es) is"
  shows "returns (find_index_loop eq key es is) (find (\<lambda>i. R (me_key (es ! i)) key) is)"
  using assms(2)
proof (induction "is")
  case (Cons i "is")
  have "returns (eq (me_key (es ! i)) key) (R (me_key (es ! i)) key)" using assms(1) by (simp add: decides_def)
  with Cons have "returns (find_index_loop eq key es (i # is))
      (if R (me_key (es ! i)) key then Some i else find (\<lambda>i. R (me_key (es ! i)) key) is)"
    by (auto intro!: returns_andthen returns_panicking returns_ret simp: arena_get_def)
  then show ?case by simp
qed (simp add: returns_ret)

lemma find_filter: "(\<And>x. x \<in> set xs \<Longrightarrow> P x \<Longrightarrow> Q x) \<Longrightarrow> find P (filter Q xs) = find P xs"
  by (induction xs) auto

lemma find_positions:
  assumes "\<And>i. i < length es \<Longrightarrow> P (me_key (es ! i)) \<Longrightarrow> me_hash (es ! i) = hash"
  shows "find (\<lambda>i. P (me_key (es ! i))) (positions es hash) = first_index P es"
  unfolding positions_def by (rule find_filter) (use assms in auto)

lemma first_index_hit:
  fixes P :: "Value \<Rightarrow> bool" and es :: "MapEntry list"
  assumes "first_index P es = Some i"
  shows "i < length es" and "P (me_key (es ! i))" and "j < i \<Longrightarrow> \<not> P (me_key (es ! j))"
  using assms by (auto simp: find_Some_iff)

lemma first_index_cases:
  fixes key val :: Value and es :: "MapEntry list"
  shows "case first_index (\<lambda>k. R k key) es of
     None \<Rightarrow> ord_find R key (entry_pairs es) = None
   | Some i \<Rightarrow> i < length es \<and> ord_find R key (entry_pairs es) = Some (me_value (es ! i)) \<and>
       entry_pairs (es[i := (es ! i)\<lparr>me_value := val\<rparr>]) = ord_update R key val (entry_pairs es) \<and>
       entry_pairs (list_remove i es) = ord_delete R key (entry_pairs es)"
proof (cases "first_index (\<lambda>k. R k key) es")
  case None
  then have "\<forall>e\<in>set es. \<not> R (me_key e) key" by (auto simp: find_None_iff in_set_conv_nth)
  with None show ?thesis by (auto simp: ord_find_None)
next
  case (Some i)
  note hit = first_index_hit [OF Some]
  have "i < length (entry_pairs es)" "R (fst (entry_pairs es ! i)) key" "\<And>j. j < i \<Longrightarrow> \<not> R (fst (entry_pairs es ! j)) key"
    using hit by auto
  from ord_hit [of i "entry_pairs es" R key, OF this] Some hit(1) show ?thesis
    by (simp add: map_update list_remove_def take_map drop_map)
qed

locale keyed =
  fixes R :: "Value \<Rightarrow> Value \<Rightarrow> bool" and h :: "Value \<Rightarrow> 64 word"
  assumes laws: "key_laws R h"
begin

lemmas law = key_lawsD [OF laws]

lemma R_symp: "symp R"
  using law(1) by (simp add: equivp_reflp_symp_transp)

lemma find_index_returns:
  assumes "generic_inv R h m" and "decides eq R key"
  shows "returns (find_index_with eq (h key) key m) (first_index (\<lambda>k. R k key) (gm_entries m))"
proof -
  let ?es = "gm_entries m"
  have hash: "me_hash (?es ! i) = h key" if "i < length ?es" "R (me_key (?es ! i)) key" for i
    using assms that law(2) by (fastforce simp: generic_inv_def list_all_length)
  have "returns (find_index_loop eq key ?es (positions ?es (h key))) (find (\<lambda>i. R (me_key (?es ! i)) key) (positions ?es (h key)))"
    by (intro find_index_loop_returns assms(2)) (auto simp: positions_def list_all_iff)
  then show ?thesis
    using assms find_positions [of ?es "\<lambda>k. R k key", OF hash]
    by (cases "positions ?es (h key) = []")
      (auto simp: find_index_with_def generic_inv_def bucket_of_def returns_ret)
qed

lemma generic_get_with_returns:
  assumes "generic_inv R h m" and "decides eq R key"
  shows "returns (generic_get_with eq (h key) key m) (ord_find R key (entry_pairs (gm_entries m)))"
  unfolding generic_get_with_def
  using first_index_cases [of R key "gm_entries m"]
  by (intro returns_andthen [OF find_index_returns [OF assms]])
    (auto split: option.splits intro!: returns_ret returns_panicking simp: arena_get_def)

lemma generic_inv_set:
  assumes "generic_inv R h m" and "i < length (gm_entries m)"
    and "entry_pairs ((gm_entries m)[i := (gm_entries m ! i)\<lparr>me_value := val\<rparr>]) = ord_update R key val (entry_pairs (gm_entries m))"
  shows "generic_inv R h (m\<lparr>gm_entries := (gm_entries m)[i := (gm_entries m ! i)\<lparr>me_value := val\<rparr>]\<rparr>)"
proof -
  let ?es = "(gm_entries m)[i := (gm_entries m ! i)\<lparr>me_value := val\<rparr>]"
  have "map me_hash ?es = map me_hash (gm_entries m)" using assms(2) by (simp add: map_update list_update_same_conv)
  then have "bucket_of ?es = bucket_of (gm_entries m)" by (rule bucket_of_map)
  moreover have "ord_keys R (entry_pairs ?es)"
    unfolding assms(3) using assms(1) by (intro ord_keys_update R_symp) (simp add: generic_inv_def)
  ultimately show ?thesis using assms(1,2) by (auto simp: generic_inv_def list_all_length nth_list_update)
qed

lemma generic_inv_push:
  assumes "generic_inv R h m" and "ord_find R key (entry_pairs (gm_entries m)) = None"
  shows "generic_inv R h (from_entries (gm_entries m @ [\<lparr>me_hash = h key, me_key = key, me_value = val\<rparr>]))"
    and "entry_pairs (gm_entries m @ [\<lparr>me_hash = h key, me_key = key, me_value = val\<rparr>]) = ord_update R key val (entry_pairs (gm_entries m))"
  using assms ord_update_new [OF assms(2), of val] ord_keys_update [OF _ R_symp, of "entry_pairs (gm_entries m)" key val]
  by (simp_all add: generic_inv_def from_entries_eq)

lemma generic_insert_with_returns:
  assumes inv: "generic_inv R h m" and dec: "decides eq R key"
  shows "\<exists>m'. returns (generic_insert_with eq (h key) key val m) m' \<and> generic_inv R h m' \<and>
    entry_pairs (gm_entries m') = ord_update R key val (entry_pairs (gm_entries m))"
proof (cases "first_index (\<lambda>k. R k key) (gm_entries m)")
  case None
  let ?m' = "from_entries (gm_entries m @ [\<lparr>me_hash = h key, me_key = key, me_value = val\<rparr>])"
  have new: "ord_find R key (entry_pairs (gm_entries m)) = None"
    using None first_index_cases [of R key "gm_entries m"] by simp
  have m': "?m' = m\<lparr>gm_entries := gm_entries m @ [\<lparr>me_hash = h key, me_key = key, me_value = val\<rparr>],
      gm_buckets := push_bucket_index (h key) (length (gm_entries m)) (gm_buckets m)\<rparr>"
    using inv by (simp add: from_entries_eq generic_inv_def bucket_of_snoc)
  have "returns (generic_insert_with eq (h key) key val m) ?m'"
    unfolding generic_insert_with_def m'
    by (rule returns_andthen [OF find_index_returns [OF inv dec]]) (simp add: None returns_ret)
  with generic_inv_push [OF inv new] show ?thesis by (auto simp: from_entries_eq)
next
  case (Some i)
  with first_index_cases [of R key "gm_entries m" val]
  have i: "i < length (gm_entries m)" "entry_pairs ((gm_entries m)[i := (gm_entries m ! i)\<lparr>me_value := val\<rparr>]) =
      ord_update R key val (entry_pairs (gm_entries m))" by simp_all
  have "returns (generic_insert_with eq (h key) key val m)
      (m\<lparr>gm_entries := (gm_entries m)[i := (gm_entries m ! i)\<lparr>me_value := val\<rparr>]\<rparr>)"
    unfolding generic_insert_with_def
    by (rule returns_andthen [OF find_index_returns [OF inv dec]])
      (simp add: Some returns_panicking set_value_def arena_get_def i(1))
  with generic_inv_set [OF inv i] i(2) show ?thesis by (intro exI conjI) auto
qed

lemma generic_inv_remove:
  assumes "generic_inv R h m" and "entry_pairs (list_remove i (gm_entries m)) = ord_delete R key (entry_pairs (gm_entries m))"
  shows "generic_inv R h (from_entries (list_remove i (gm_entries m)))"
  using assms ord_keys_delete [of R "entry_pairs (gm_entries m)" key]
  by (auto simp: generic_inv_def from_entries_eq list_all_iff list_remove_def dest: in_set_takeD in_set_dropD)

lemma generic_remove_with_returns:
  assumes inv: "generic_inv R h m" and dec: "decides eq R key"
  shows "\<exists>m'. returns (generic_remove_with eq (h key) key m) m' \<and> returns (generic_remove_persistent_with eq (h key) key m) m' \<and>
    generic_inv R h m' \<and> entry_pairs (gm_entries m') = ord_delete R key (entry_pairs (gm_entries m))"
proof (cases "first_index (\<lambda>k. R k key) (gm_entries m)")
  case None
  then have "ord_find R key (entry_pairs (gm_entries m)) = None"
    using first_index_cases [of R key "gm_entries m"] by simp
  moreover have "returns (generic_remove_with eq (h key) key m) m"
    unfolding generic_remove_with_def
    by (rule returns_andthen [OF find_index_returns [OF inv dec]]) (simp add: None returns_ret)
  moreover have "returns (generic_remove_persistent_with eq (h key) key m) m"
    unfolding generic_remove_persistent_with_def
    by (rule returns_andthen [OF find_index_returns [OF inv dec]]) (simp add: None returns_ret)
  ultimately show ?thesis using inv by (auto simp: ord_delete_none)
next
  case (Some i)
  let ?m' = "from_entries (list_remove i (gm_entries m))"
  from Some first_index_cases [of R key "gm_entries m"]
  have i: "i < length (gm_entries m)" "entry_pairs (list_remove i (gm_entries m)) = ord_delete R key (entry_pairs (gm_entries m))"
    by simp_all
  have get: "returns (panicking (arena_get (gm_entries m) i) :: ('c, 'd, MapEntry) eff) (gm_entries m ! i)"
    by (rule returns_panicking) (simp add: arena_get_def i(1))
  have "returns (generic_remove_with eq (h key) key m) ?m'"
    unfolding generic_remove_with_def
    using bucket_of_remove [OF i(1)] inv
    by (intro returns_andthen [OF find_index_returns [OF inv dec]])
      (auto simp: Some from_entries_eq generic_inv_def intro!: returns_andthen [OF get] returns_ret)
  moreover have "returns (generic_remove_persistent_with eq (h key) key m) ?m'"
    unfolding generic_remove_persistent_with_def
    by (rule returns_andthen [OF find_index_returns [OF inv dec]]) (auto simp: Some intro!: returns_andthen [OF get] returns_ret)
  ultimately show ?thesis using generic_inv_remove [OF inv i(2)] i(2) by (auto simp: from_entries_eq)
qed

end

end
