(* ===== verification/Map_Value_Refine.thy ===== *)
theory Map_Value_Refine
  imports Map_Value_Correct
begin

text \<open>
  Persistent and mutable maps: the primitive forms seen as maps of values, the moves between the
  representations, and the interpretation of the map contract.
\<close>

section \<open>Primitive keys as values\<close>

abbreviation as_values :: "(MapKey \<times> Value) list \<Rightarrow> (Value \<times> Value) list" where
  "as_values xs \<equiv> map (\<lambda>(k, v). (to_value k, v)) xs"

lemma entry_pairs_primitive: "entry_pairs (primitive_entries xs) = as_values xs"
  by (auto simp: primitive_entries_def)

fun map_pairs :: "MapValue \<Rightarrow> (Value \<times> Value) list" where
  "map_pairs (MapPrimitive xs) = as_values xs"
| "map_pairs (MapGeneric g) = entry_pairs (gm_entries g)"

fun mutable_pairs :: "MutableMapValue \<Rightarrow> (Value \<times> Value) list" where
  "mutable_pairs (MutEmpty _) = []"
| "mutable_pairs (MutPrimitive t) = as_values (content t)"
| "mutable_pairs (MutGeneric m) = map_pairs m"

fun map_inv :: "(Value \<Rightarrow> Value \<Rightarrow> bool) \<Rightarrow> (Value \<Rightarrow> 64 word) \<Rightarrow> MapValue \<Rightarrow> bool" where
  "map_inv R h (MapPrimitive xs) = ord_keys (=) xs"
| "map_inv R h (MapGeneric g) = generic_inv R h g"

fun mutable_inv :: "(Value \<Rightarrow> Value \<Rightarrow> bool) \<Rightarrow> (Value \<Rightarrow> 64 word) \<Rightarrow> MutableMapValue \<Rightarrow> bool" where
  "mutable_inv R h (MutEmpty _) = True"
| "mutable_inv R h (MutPrimitive t) = table_inv t"
| "mutable_inv R h (MutGeneric m) = map_inv R h m"

text \<open>The value a computation returns, from a given state.\<close>

definition outcome :: "'s \<Rightarrow> ('s, 'e, 'a) eff \<Rightarrow> 'a option" where
  "outcome s m = (case m s of Some (Inr x, _) \<Rightarrow> Some x | _ \<Rightarrow> None)"

lemma outcome_returns: "returns m x \<Longrightarrow> outcome s m = Some x"
  unfolding returns_def outcome_def by (metis (no_types, lifting) case_prod_conv option.simps(5) sum.case(2))

lemma outcome_ex:
  assumes "\<exists>x. returns m x \<and> P x"
  shows "\<exists>x. outcome s m = Some x \<and> P x"
proof -
  obtain x where "returns m x" "P x" using assms by blast
  with outcome_returns [of m x s] show ?thesis by simp
qed

context keyed
begin

lemma find_as_values: "ord_find R (to_value k) (as_values xs) = ord_find (=) k xs"
  by (induction xs) (auto simp: law(4))

lemma update_as_values: "ord_update R (to_value k) v (as_values xs) = as_values (ord_update (=) k v xs)"
  by (induction xs) (auto simp: law(4))

lemma delete_as_values: "ord_delete R (to_value k) (as_values xs) = as_values (ord_delete (=) k xs)"
  by (induction xs) (auto simp: law(4))

lemma find_other: "from_value key = None \<Longrightarrow> ord_find R key (as_values xs) = None"
  by (auto simp: ord_find_None law(5))

lemma keys_as_values: "ord_keys R (as_values xs) \<longleftrightarrow> ord_keys (=) xs"
  unfolding ord_keys_def sorted_wrt_map by (simp add: law(4) case_prod_unfold)

lemma to_generic_inv:
  assumes "ord_keys (=) xs"
  shows "generic_inv R h (to_generic xs)"
proof -
  have "list_all (\<lambda>e. me_hash e = h (me_key e)) (primitive_entries xs)"
    by (auto simp: primitive_entries_def list_all_iff law(3))
  with assms show ?thesis
    unfolding generic_inv_def to_generic_def from_entries_eq
    by (simp only: GenericMapValue.simps entry_pairs_primitive keys_as_values simp_thms)
qed

lemma entries_to_generic: "entry_pairs (gm_entries (to_generic xs)) = as_values xs"
  by (simp add: to_generic_def from_entries_eq entry_pairs_primitive)

lemma generic_get_eq:
  assumes "generic_inv R h g"
  shows "generic_get k g = Some (ord_find R (to_value k) (entry_pairs (gm_entries g)))"
proof -
  let ?es = "gm_entries g" and ?P = "\<lambda>v. v = to_value k"
  have loop: "list_all (\<lambda>i. i < length ?es) is \<Longrightarrow> generic_get_loop (to_value k) ?es is =
      Some (map_option (\<lambda>i. me_value (?es ! i)) (find (\<lambda>i. ?P (me_key (?es ! i))) is))" for "is"
    by (induction "is") (auto simp: arena_get_def)
  have "find (\<lambda>i. ?P (me_key (?es ! i))) (positions ?es (primitive_hash k)) = first_index ?P ?es"
    using assms law(3) [of k] by (intro find_positions) (auto simp: generic_inv_def list_all_length)
  moreover have "list_all (\<lambda>i. i < length ?es) (positions ?es (primitive_hash k))"
    by (auto simp: positions_def list_all_iff)
  ultimately have "generic_get k g = Some (map_option (\<lambda>i. me_value (?es ! i)) (first_index ?P ?es))"
    using assms loop [of "positions ?es (primitive_hash k)"]
    by (cases "positions ?es (primitive_hash k) = []") (auto simp: generic_get_def generic_inv_def bucket_of_def)
  with first_index_cases [of R "to_value k" ?es VUnit] show ?thesis by (auto simp: law(4) split: option.splits)
qed

section \<open>Persistent maps\<close>

lemma map_get_eq: "map_inv R h m \<Longrightarrow> map_get k m = Some (ord_find R (to_value k) (map_pairs m))"
  by (cases m) (simp_all add: find_as_values generic_get_eq)

lemma map_get_with_returns:
  assumes "map_inv R h m" and dec: "decides eq R key"
  shows "returns (map_get_with eq (h key) key m) (ord_find R key (map_pairs m))"
proof (cases "from_value key")
  case None
  with assms show ?thesis
    by (cases m) (auto simp: map_get_with_def find_other returns_ret intro: generic_get_with_returns [OF _ dec])
next
  case (Some k)
  with map_get_eq [OF assms(1), of k] show ?thesis
    by (auto simp: map_get_with_def from_value_Some intro: returns_panicking)
qed

text \<open>An operation that returns a map in good shape with the given content.\<close>

definition yields :: "('s, 'e, MapValue) eff \<Rightarrow> (Value \<times> Value) list \<Rightarrow> bool" where
  "yields m xs \<longleftrightarrow> (\<exists>m'. returns m m' \<and> map_inv R h m' \<and> map_pairs m' = xs)"

lemma yields_ret: "map_inv R h m \<Longrightarrow> map_pairs m = xs \<Longrightarrow> yields (ret m) xs"
  by (auto simp: yields_def intro: returns_ret)

lemma yields_generic:
  "\<exists>g'. returns m g' \<and> generic_inv R h g' \<and> entry_pairs (gm_entries g') = xs \<Longrightarrow>
   yields (andthen m (\<lambda>g'. ret (MapGeneric g'))) xs"
  unfolding yields_def
  by (elim exE conjE, rule_tac x = "MapGeneric g'" in exI) (auto intro: returns_andthen returns_ret)

lemma map_insert_with_yields:
  assumes "map_inv R h m" and dec: "decides eq R key"
  shows "yields (map_insert_with eq (h key) key val m) (ord_update R key val (map_pairs m))"
proof (cases m)
  case (MapPrimitive xs)
  show ?thesis
  proof (cases "from_value key")
    case None
    with MapPrimitive assms show ?thesis
      using generic_insert_with_returns [OF to_generic_inv dec, of xs val]
      by (auto simp: map_insert_with_def entries_to_generic intro!: yields_generic)
  next
    case (Some k)
    with MapPrimitive assms show ?thesis
      by (auto simp: map_insert_with_def from_value_Some update_as_values intro!: yields_ret ord_keys_update sympI)
  qed
next
  case (MapGeneric g)
  with assms generic_insert_with_returns [OF _ dec, of g val] show ?thesis
    by (auto simp: map_insert_with_def split: option.splits intro!: yields_generic)
qed

lemma map_remove_with_yields:
  assumes "map_inv R h m" and dec: "decides eq R key"
  shows "yields (map_remove_with eq (h key) key m) (ord_delete R key (map_pairs m))"
    and "yields (map_remove_persistent_with eq (h key) key m) (ord_delete R key (map_pairs m))"
proof -
  have P: "yields (map_remove_with eq (h key) key (MapPrimitive xs)) (ord_delete R key (as_values xs)) \<and>
      yields (map_remove_persistent_with eq (h key) key (MapPrimitive xs)) (ord_delete R key (as_values xs))"
    if "ord_keys (=) xs" for xs
    using that find_other [of key xs]
    by (auto simp: map_remove_with_def map_remove_persistent_with_def from_value_Some delete_as_values ord_delete_none
        split: option.splits intro!: yields_ret ord_keys_delete)
  have G: "yields (map_remove_with eq (h key) key (MapGeneric g)) (ord_delete R key (entry_pairs (gm_entries g))) \<and>
      yields (map_remove_persistent_with eq (h key) key (MapGeneric g)) (ord_delete R key (entry_pairs (gm_entries g)))"
    if "generic_inv R h g" for g
    using generic_remove_with_returns [OF that dec]
    by (auto simp: map_remove_with_def map_remove_persistent_with_def split: option.splits intro!: yields_generic)
  show "yields (map_remove_with eq (h key) key m) (ord_delete R key (map_pairs m))"
    and "yields (map_remove_persistent_with eq (h key) key m) (ord_delete R key (map_pairs m))"
    using assms P G by (cases m; simp)+
qed

lemma generic_insert_persistent_returns:
  assumes inv: "generic_inv R h g" and dec: "decides eq R key"
  shows "\<exists>g'. returns (generic_insert_persistent_with veq eq (h key) key val g) g' \<and> generic_inv R h g' \<and>
    entry_pairs (gm_entries g') =
      (if \<exists>v. ord_find R key (entry_pairs (gm_entries g)) = Some v \<and> veq v val then entry_pairs (gm_entries g)
       else ord_update R key val (entry_pairs (gm_entries g)))"
proof (cases "first_index (\<lambda>k. R k key) (gm_entries g)")
  case None
  let ?m' = "from_entries (gm_entries g @ [\<lparr>me_hash = h key, me_key = key, me_value = val\<rparr>])"
  have new: "ord_find R key (entry_pairs (gm_entries g)) = None"
    using None first_index_cases [of R key "gm_entries g"] by simp
  have "returns (generic_insert_persistent_with veq eq (h key) key val g) ?m'"
    unfolding generic_insert_persistent_with_def
    by (rule returns_andthen [OF find_index_returns [OF inv dec]]) (simp add: None returns_ret)
  with generic_inv_push [OF inv new] new show ?thesis by (auto simp: from_entries_eq)
next
  case (Some i)
  let ?e = "gm_entries g ! i" and ?es = "(gm_entries g)[i := (gm_entries g ! i)\<lparr>me_value := val\<rparr>]"
  from Some first_index_cases [of R key "gm_entries g" val]
  have i: "i < length (gm_entries g)" "ord_find R key (entry_pairs (gm_entries g)) = Some (me_value ?e)"
    "entry_pairs ?es = ord_update R key val (entry_pairs (gm_entries g))" by simp_all
  have "generic_inv R h (from_entries ?es)"
    using generic_inv_set [OF inv i(1,3)] by (simp add: generic_inv_def from_entries_eq)
  moreover have "returns (generic_insert_persistent_with veq eq (h key) key val g)
      (if veq (me_value ?e) val then g else from_entries ?es)"
    unfolding generic_insert_persistent_with_def
    by (rule returns_andthen [OF find_index_returns [OF inv dec]])
      (auto simp: Some arena_get_def i(1) intro!: returns_andthen [OF returns_panicking] returns_ret)
  ultimately show ?thesis using inv i(2,3) by (cases "veq (me_value ?e) val") (auto simp: from_entries_eq)
qed

lemma map_insert_persistent_yields:
  assumes "map_inv R h m" and dec: "decides eq R key"
  shows "yields (map_insert_persistent_with veq eq (h key) key val m) (ord_update R key val (map_pairs m)) \<or>
    (\<exists>v. ord_find R key (map_pairs m) = Some v \<and> veq v val) \<and>
    yields (map_insert_persistent_with veq eq (h key) key val m) (map_pairs m)"
proof (cases m)
  case (MapPrimitive xs)
  show ?thesis
  proof (cases "from_value key")
    case None
    with MapPrimitive assms show ?thesis
      using generic_insert_with_returns [OF to_generic_inv dec, of xs val]
      by (auto simp: map_insert_persistent_with_def entries_to_generic intro!: yields_generic)
  next
    case (Some k)
    with MapPrimitive assms show ?thesis
      by (auto simp: map_insert_persistent_with_def from_value_Some update_as_values find_as_values
          split: option.splits intro!: yields_ret ord_keys_update sympI)
  qed
next
  case (MapGeneric g)
  show ?thesis
  proof (cases "from_value key")
    case None
    from MapGeneric assms obtain g' where "returns (generic_insert_persistent_with veq eq (h key) key val g) g'"
      "generic_inv R h g'" "entry_pairs (gm_entries g') =
      (if \<exists>v. ord_find R key (entry_pairs (gm_entries g)) = Some v \<and> veq v val then entry_pairs (gm_entries g)
       else ord_update R key val (entry_pairs (gm_entries g)))"
      using generic_insert_persistent_returns [OF _ dec, of g veq val] by auto
    with MapGeneric None show ?thesis
      by (cases "\<exists>v. ord_find R key (entry_pairs (gm_entries g)) = Some v \<and> veq v val")
        (auto simp: map_insert_persistent_with_def intro!: yields_generic)
  next
    case (Some k)
    with MapGeneric assms generic_insert_with_returns [OF _ dec, of g val] show ?thesis
      by (auto simp: map_insert_persistent_with_def intro!: disjI1 yields_generic)
  qed
qed

section \<open>Mutable maps\<close>

lemma decides_primitive: "decides eq_values R (to_value k)"
  unfolding decides_def law(4) by (simp add: returns_eq_values)

lemma mutable_map_get_returns:
  assumes "mutable_inv R h m" and dec: "decides eq R key"
  shows "returns (mutable_map_get_with eq (h key) key m) (ord_find R key (mutable_pairs m))"
proof (cases "from_value key")
  case None
  with assms show ?thesis
    by (cases m) (auto simp: mutable_map_get_with_def find_other returns_ret intro: map_get_with_returns)
next
  case (Some k)
  then have "key = to_value k" by (simp add: from_value_Some)
  with assms Some show ?thesis
    by (cases m) (auto simp: mutable_map_get_with_def find_as_values table_get_spec map_get_eq intro!: returns_panicking)
qed

lemma mutable_yields:
  "yields m xs \<Longrightarrow> \<exists>m'. returns (andthen m (\<lambda>g. ret (MutGeneric g))) m' \<and> mutable_inv R h m' \<and> mutable_pairs m' = xs"
  unfolding yields_def
  by (elim exE conjE, rule_tac x = "MutGeneric m'" in exI) (auto intro: returns_andthen returns_ret)

lemma table_yields:
  "\<exists>t'. r = Some t' \<and> table_inv t' \<and> content t' = xs \<Longrightarrow>
   \<exists>m'. returns (panicking (map_option MutPrimitive r)) m' \<and> mutable_inv R h m' \<and> mutable_pairs m' = as_values xs"
  by (elim exE conjE, rule_tac x = "MutPrimitive t'" in exI) (auto intro: returns_panicking)

lemma mutable_map_insert_returns:
  assumes "mutable_inv R h m" and dec: "decides eq R key"
  shows "\<exists>m'. returns (mutable_map_insert_with cap eq (h key) key val m) m' \<and> mutable_inv R h m' \<and>
    mutable_pairs m' = ord_update R key val (mutable_pairs m)"
proof (cases "from_value key")
  case None
  have "yields (map_insert_with eq (h key) key val (mutable_map_snapshot m)) (ord_update R key val (mutable_pairs m))"
  proof (cases m)
    case (MutEmpty hint)
    with map_insert_with_yields [OF _ dec, of "MapPrimitive []" val] show ?thesis by (simp add: map_new_def ord_keys_def)
  next
    case (MutPrimitive t)
    then have "map_inv R h (mutable_map_snapshot m)" "map_pairs (mutable_map_snapshot m) = mutable_pairs m"
      using assms(1) hash_map.content_keys [of t] by (simp_all add: snapshot_content)
    with map_insert_with_yields [OF _ dec, of "mutable_map_snapshot m" val] show ?thesis by simp
  next
    case (MutGeneric g)
    with map_insert_with_yields [OF _ dec, of g val] assms(1) show ?thesis by simp
  qed
  then have "\<exists>m'. returns (andthen (map_insert_with eq (h key) key val (mutable_map_snapshot m)) (\<lambda>g. ret (MutGeneric g))) m' \<and>
      mutable_inv R h m' \<and> mutable_pairs m' = ord_update R key val (mutable_pairs m)"
    by (rule mutable_yields)
  moreover have "mutable_map_insert_with cap eq (h key) key val m =
      andthen (map_insert_with eq (h key) key val (mutable_map_snapshot m)) (\<lambda>g. ret (MutGeneric g))"
    using None by (cases m) (simp_all add: mutable_map_insert_with_def)
  ultimately show ?thesis by simp
next
  case (Some k)
  then have key: "key = to_value k" by (simp add: from_value_Some)
  have table: "\<exists>m'. returns (panicking (map_option MutPrimitive (map_insert cap k val t))) m' \<and> mutable_inv R h m' \<and>
      mutable_pairs m' = ord_update R key val (as_values (content t))" if "table_inv t" for t
    using table_yields [OF map_insert_spec [OF that, of cap k val]] by (simp add: key update_as_values)
  show ?thesis
  proof (cases m)
    case (MutEmpty hint)
    with table [OF with_capacity_inv, of hint] Some show ?thesis
      by (simp add: mutable_map_insert_with_def content_with_capacity)
  next
    case (MutPrimitive t)
    with table [of t] assms(1) Some show ?thesis by (simp add: mutable_map_insert_with_def)
  next
    case (MutGeneric g)
    with mutable_yields [OF map_insert_with_yields [OF _ decides_primitive, of g k val]] assms(1) Some
    show ?thesis by (simp add: mutable_map_insert_with_def key law(3))
  qed
qed

lemma mutable_map_remove_returns:
  assumes "mutable_inv R h m" and dec: "decides eq R key"
  shows "\<exists>m'. returns (mutable_map_remove_with eq (h key) key m) m' \<and> mutable_inv R h m' \<and>
    mutable_pairs m' = ord_delete R key (mutable_pairs m)"
proof (cases "from_value key")
  case None
  show ?thesis
  proof (cases m)
    case (MutGeneric g)
    with mutable_yields [OF map_remove_with_yields(1) [OF _ dec, of g]] assms(1) None show ?thesis
      by (simp add: mutable_map_remove_with_def)
  qed (use None assms(1) find_other [OF None] in \<open>auto simp: mutable_map_remove_with_def ord_delete_none intro!: exI returns_ret\<close>)
next
  case (Some k)
  then have key: "key = to_value k" by (simp add: from_value_Some)
  show ?thesis
  proof (cases m)
    case (MutEmpty hint)
    with Some show ?thesis by (auto simp: mutable_map_remove_with_def intro!: exI returns_ret)
  next
    case (MutPrimitive t)
    with table_yields [OF table_remove_spec [of t k]] assms(1) Some show ?thesis
      by (simp add: mutable_map_remove_with_def key delete_as_values)
  next
    case (MutGeneric g)
    with mutable_yields [OF map_remove_with_yields(1) [OF _ decides_primitive, of g k]] assms(1) Some
    show ?thesis by (simp add: mutable_map_remove_with_def key law(3))
  qed
qed

lemma mutable_keys: "mutable_inv R h m \<Longrightarrow> ord_keys R (mutable_pairs m)"
proof (cases m)
  case (MutEmpty hint)
  then show ?thesis by (simp add: ord_keys_def)
next
  case (MutPrimitive t)
  then show "mutable_inv R h m \<Longrightarrow> ?thesis" by (simp add: keys_as_values hash_map.content_keys)
next
  case (MutGeneric g)
  then show "mutable_inv R h m \<Longrightarrow> ?thesis" by (cases g) (simp_all add: keys_as_values generic_inv_def)
qed

end

section \<open>The interpretation\<close>

locale keyed_closure = keyed R h for R :: "Value \<Rightarrow> Value \<Rightarrow> bool" and h :: "Value \<Rightarrow> 64 word" +
  fixes eq :: "('s, 'e) eq_fn" and start :: 's and cap :: nat
  assumes eq_decides: "decides eq R key"

sublocale keyed_closure \<subseteq> mutable: ordered_map "mutable_inv R h" mutable_pairs R
  "\<lambda>k m. outcome start (mutable_map_get_with eq (h k) k m)"
  "\<lambda>k v m. outcome start (mutable_map_insert_with cap eq (h k) k v m)"
  "\<lambda>k m. outcome start (mutable_map_remove_with eq (h k) k m)"
proof
  fix m k v
  assume inv: "mutable_inv R h m"
  show "ord_keys R (mutable_pairs m)" by (rule mutable_keys [OF inv])
  show "outcome start (mutable_map_get_with eq (h k) k m) = Some (ord_find R k (mutable_pairs m))"
    by (rule outcome_returns [OF mutable_map_get_returns [OF inv eq_decides]])
  show "\<exists>m'. outcome start (mutable_map_insert_with cap eq (h k) k v m) = Some m' \<and> mutable_inv R h m' \<and>
      mutable_pairs m' = ord_update R k v (mutable_pairs m)"
    by (rule outcome_ex [OF mutable_map_insert_returns [OF inv eq_decides, of cap k v]])
  show "\<exists>m'. outcome start (mutable_map_remove_with eq (h k) k m) = Some m' \<and> mutable_inv R h m' \<and>
      mutable_pairs m' = ord_delete R k (mutable_pairs m)"
    by (rule outcome_ex [OF mutable_map_remove_returns [OF inv eq_decides, of k]])
qed (rule law(1))

context keyed_closure
begin

lemmas mutable_run = mutable.run_refines
lemmas mutable_get = mutable.get_content

end

text \<open>
  Structural equality, which is what \<open>==\<close> decides on values without floats, with the hash of the
  interpreter over any hash of the other values.
\<close>

definition key_hash :: "(Value \<Rightarrow> 64 word) \<Rightarrow> Value \<Rightarrow> 64 word" where
  "key_hash g v = (case from_value v of Some k \<Rightarrow> primitive_hash k | None \<Rightarrow> g v)"

lemma hash_for_collection_key_returns:
  assumes "returns (trait_hash v) (g v)"
  shows "returns (hash_for_collection_key trait_hash v) (key_hash g v)"
  unfolding hash_for_collection_key_def key_hash_def using assms by (cases "from_value v") (simp_all add: returns_ret)

lemma structural_laws: "key_laws (=) (key_hash g)"
  by (auto simp: key_laws_def key_hash_def identity_equivp)

interpretation structural: keyed_closure "(=)" "key_hash g" eq_values start cap
  for g :: "Value \<Rightarrow> 64 word" and start :: 's and cap :: nat
  by unfold_locales (auto simp: structural_laws decides_def returns_eq_values)

end
