(* ===== verification/Map_Properties.thy ===== *)
theory Map_Properties
  imports Map_Value_Refine
begin

text \<open>
  The maps of the interpreter against the ordered map they implement.
\<close>

text \<open>
  C10. The hash table refines the ordered map: for every capacity and every sequence of insertions and
  removals all probes end and no index is out of range, the live entries are those of the ordered map
  in insertion order, the length is theirs, a snapshot gives them, and a lookup finds exactly them.
\<close>

theorem hash_table_refines:
  "\<exists>m. run_ops (map_insert cap) table_remove ops (with_capacity hint) = Some m \<and>
     table_snapshot m = ord_run (=) ops [] \<and> pt_live_len m = length (ord_run (=) ops []) \<and>
     (\<forall>k. table_get k m = Some (map_of (ord_run (=) ops []) k))"
proof -
  obtain m where m: "run_ops (map_insert cap) table_remove ops (with_capacity hint) = Some m" "table_inv m"
    "content m = ord_run (=) ops []"
    using hash_map.run_refines [OF with_capacity_inv, of cap ops hint] by (auto simp: content_with_capacity)
  with snapshot_content [OF m(2)] table_len [OF m(2)] hash_map.get_content [OF m(2)] show ?thesis
    by (simp add: ord_find_map_of)
qed

lemma map_pairs_length: "length (map_pairs m) = map_len m"
  by (cases m) simp_all

lemma mutable_pairs_length: "mutable_inv R h m \<Longrightarrow> mutable_map_len m = length (mutable_pairs m)"
  by (cases m) (simp_all add: table_len map_pairs_length)

text \<open>
  C11. Mutable maps refine the ordered map of their keys' equality through all changes of
  representation, from empty to the hash table to the generic form: when the equality of keys is an
  equivalence that is identity on primitive values, the hash respects it and the comparison closure
  decides it, every sequence of insertions and removals returns, and the content, the length and
  every lookup are those of the ordered map.
\<close>

theorem mutable_map_refines:
  assumes "key_laws R h" and "\<And>key. decides eq R key"
  shows "\<exists>m. run_ops (\<lambda>k v m. outcome s (mutable_map_insert_with cap eq (h k) k v m))
      (\<lambda>k m. outcome s (mutable_map_remove_with eq (h k) k m)) ops (mutable_map_with_capacity hint) = Some m \<and>
    mutable_pairs m = ord_run R ops [] \<and> mutable_map_len m = length (ord_run R ops []) \<and>
    map_pairs (mutable_map_snapshot m) = ord_run R ops [] \<and>
    (\<forall>k. outcome s (mutable_map_get_with eq (h k) k m) = Some (ord_find R k (ord_run R ops [])))"
proof -
  have closure: "keyed_closure R h eq"
    using assms by (simp add: keyed_closure_def keyed_closure_axioms_def keyed_def)
  obtain m where m: "run_ops (\<lambda>k v m. outcome s (mutable_map_insert_with cap eq (h k) k v m))
      (\<lambda>k m. outcome s (mutable_map_remove_with eq (h k) k m)) ops (MutEmpty hint) = Some m"
    "mutable_inv R h m" "mutable_pairs m = ord_run R ops []"
    using keyed_closure.mutable_run [OF closure, of "MutEmpty hint" s cap ops] by auto
  have "map_pairs (mutable_map_snapshot m) = mutable_pairs m"
    using m(2) by (cases m) (simp_all add: map_new_def snapshot_content)
  with m mutable_pairs_length [OF m(2)] keyed_closure.mutable_get [OF closure m(2), of s]
  show ?thesis by (simp add: mutable_map_with_capacity_def)
qed

definition mixed_ops :: "(Value, Value) map_op list" where
  "mixed_ops = [Put (VInt 1) VUnit, Put (VString ''a'') (VInt 2), Put (VAdt 0 1 [VInt 1]) (VInt 3), Del (VInt 1),
     Put (VString ''a'') (VInt 4), Put (VInt 1) (VInt 5)]"

theorem mutable_map_refines_witness:
  "\<exists>m. run_ops (\<lambda>k v m. outcome () (mutable_map_insert_with 0 (eq_values :: (unit, unit) eq_fn) (key_hash (\<lambda>_. 7) k) k v m))
      (\<lambda>k m. outcome () (mutable_map_remove_with (eq_values :: (unit, unit) eq_fn) (key_hash (\<lambda>_. 7) k) k m)) mixed_ops
      (mutable_map_with_capacity 0) = Some m \<and>
    mutable_pairs m = [(VString ''a'', VInt 4), (VAdt 0 1 [VInt 1], VInt 3), (VInt 1, VInt 5)] \<and> mutable_map_len m = 3"
proof -
  have "decides (eq_values :: (unit, unit) eq_fn) (=) key" for key by (simp add: decides_def returns_eq_values)
  note run = mutable_map_refines [OF structural_laws this, of "()" 0 "\<lambda>_. 7" mixed_ops 0]
  have "ord_run (=) mixed_ops [] = [(VString ''a'', VInt 4), (VAdt 0 1 [VInt 1], VInt 3), (VInt 1, VInt 5)]"
    by (simp add: mixed_ops_def)
  with run show ?thesis by auto
qed

text \<open>
  A persistent insertion through the interpreter returns a new map: under its key it finds the
  inserted value, or the value stored before when that one is equal, and under every other key what
  the old map has.
\<close>

theorem persistent_insert_get:
  assumes "key_laws R (key_hash g)" and "\<And>k. decides eq R k" and "\<And>v. returns (trait_hash v) (g v)"
    and "map_inv R (key_hash g) m"
  shows "\<exists>m' w. returns (map_insert_value veq trait_hash eq key val m) m' \<and> map_inv R (key_hash g) m' \<and>
    (w = val \<or> ord_find R key (map_pairs m) = Some w \<and> veq w val) \<and>
    (\<forall>k. returns (map_get_value trait_hash eq k m') (if R key k then Some w else ord_find R k (map_pairs m)))"
proof -
  let ?h = "key_hash g"
  have k: "keyed R ?h" using assms(1) by (simp add: keyed_def)
  have hash: "returns (hash_for_collection_key trait_hash v) (?h v)" for v
    by (rule hash_for_collection_key_returns) (rule assms(3))
  have get: "returns (map_get_value trait_hash eq k m') (ord_find R k (map_pairs m'))" if "map_inv R ?h m'" for k m'
  proof (cases "from_value k")
    case None
    then show ?thesis
      unfolding map_get_value_def
      by (auto intro!: returns_andthen [OF hash] keyed.map_get_with_returns [OF k that assms(2)])
  next
    case (Some p)
    with keyed.map_get_eq [OF k that, of p] show ?thesis
      by (auto simp: map_get_value_def from_value_Some intro: returns_panicking)
  qed
  have eqv: "equivp R" using assms(1) by (simp add: key_laws_def)
  have upd: "ord_find R k (ord_update R key val (map_pairs m)) = (if R key k then Some val else ord_find R k (map_pairs m))" for k
    by (rule ord_find_update [OF eqv])
  have old: "ord_find R k (map_pairs m) = Some w" if "R key k" "ord_find R key (map_pairs m) = Some w" for k w
    using that(2) ord_find_cong [OF eqv that(1), of "map_pairs m"] by simp
  from keyed.map_insert_persistent_yields [OF k assms(4,2), of veq key val]
  consider m' where "returns (map_insert_persistent_with veq eq (?h key) key val m) m'" "map_inv R ?h m'"
      "map_pairs m' = ord_update R key val (map_pairs m)"
    | m' w where "returns (map_insert_persistent_with veq eq (?h key) key val m) m'" "map_inv R ?h m'"
      "map_pairs m' = map_pairs m" "ord_find R key (map_pairs m) = Some w" "veq w val"
    by (auto simp: keyed.yields_def [OF k])
  then show ?thesis
  proof cases
    case 1
    with get [OF 1(2)] upd show ?thesis
      unfolding map_insert_value_def by (intro exI [of _ m'] exI [of _ val] conjI returns_andthen [OF hash]) auto
  next
    case 2
    have "returns (map_get_value trait_hash eq k m') (if R key k then Some w else ord_find R k (map_pairs m))" for k
      using get [OF 2(2), of k] 2(3,4) old [of k w] by (cases "R key k") auto
    with 2 show ?thesis
      unfolding map_insert_value_def by (intro exI [of _ m'] exI [of _ w] conjI returns_andthen [OF hash]) auto
  qed
qed

text \<open>
  C12. The persistent insertion compares the stored value with the new one by the equality of values and
  drops the new one when they are equal: in any map with primitive keys the value inserted under a present
  key is found afterwards exactly unless it is another value that compares equal to the stored one.  So a
  negative zero over a positive zero is lost, and so is a mutable collection over a different one that has
  the same content at that moment; the returned map still holds the old value.
\<close>

theorem persistent_insert_keeps_equal_value:
  assumes "from_value key = Some p" and "ord_find (=) p xs = Some old"
  shows "\<exists>m'. map_insert_value (value_eq same) trait_hash eq key val (MapPrimitive xs) = ret m' \<and>
    (map_get p m' = Some (Some val) \<longleftrightarrow> \<not> value_eq same old val \<or> old = val) \<and>
    (old = VFloat 0 \<and> val = VFloat 0x8000000000000000 \<or>
       (\<exists>a b. old = VOpaque a \<and> val = VOpaque b \<and> a \<noteq> b \<and> same a b) \<longrightarrow>
     old \<noteq> val \<and> map_get p m' = Some (Some old))"
proof -
  let ?m = "if value_eq same old val then MapPrimitive xs else MapPrimitive (ord_update (=) p val xs)"
  have bind: "andthen (ret x) f = f x" for x and f :: "'x \<Rightarrow> ('a, 'b, 'y) eff"
    by (simp add: andthen_def ret_def)
  have "map_insert_value (value_eq same) trait_hash eq key val (MapPrimitive xs) = ret ?m"
    using assms by (simp add: map_insert_value_def hash_for_collection_key_def bind map_insert_persistent_with_def)
  moreover have "map_get p ?m = Some (Some (if value_eq same old val then old else val))"
    using assms(2) ord_find_update[OF identity_equivp, of p p val xs] by simp
  moreover have "float_eq 0 0x8000000000000000"
    by code_simp
  ultimately show ?thesis
    by (intro exI[of _ ?m]) (auto simp: value_eq.simps)
qed

theorem persistent_insert_keeps_equal_value_witness:
  "\<exists>m'. map_insert_value (value_eq (\<lambda>_ _. False)) (\<lambda>_. ret 7) (eq_values :: (unit, unit) eq_fn) (VInt 1) (VFloat 0x8000000000000000)
      (MapPrimitive [(KInt 1, VFloat 0), (KInt 2, VUnit)]) = ret m' \<and> map_get (KInt 1) m' = Some (Some (VFloat 0))"
  using persistent_insert_keeps_equal_value[of "VInt 1" "KInt 1" "[(KInt 1, VFloat 0), (KInt 2, VUnit)]" "VFloat 0"
      "\<lambda>_ _. False" "\<lambda>_. ret 7" "eq_values :: (unit, unit) eq_fn" "VFloat 0x8000000000000000"]
  by simp blast

end
