(* ===== verification/Kir.thy ===== *)
theory Kir
  imports Type_Resolve
begin

text \<open>
  The intermediate representation (\<open>kir/src/value.rs\<close>, \<open>inst.rs\<close>, \<open>block.rs\<close>, \<open>function.rs\<close>) and its
  validator (\<open>validate.rs\<close>).  Arenas are lists and identifiers their indices.  A diagnostic keeps the
  data its message is formatted from, without the function name that all of them share; a block is
  named by its label or, without one, by its index.
\<close>

section \<open>Representation\<close>

type_synonym ValueId = nat
type_synonym BlockId = nat

datatype BinaryOp = OpRangeUntil | OpAdd | OpSub | OpMul | OpDiv | OpMod | OpEq | OpNotEq | OpLt | OpGt | OpLtEq
  | OpGtEq | OpAnd | OpOr | OpBitAnd | OpBitOr | OpBitXor | OpShl | OpShr

datatype UnaryOp = OpNot | OpNeg | OpBitNot

datatype Constant = CInt "64 word" | CFloat "64 word" | CString string | CChar "32 word" | CBool bool | CUnit

datatype CallTarget = Direct Name | Indirect ValueId | Intrinsic string

record HoleConstraint =
  expected_ty :: Ty
  hole_context :: string

datatype Inst =
    IConst Constant
  | IBinary BinaryOp ValueId ValueId
  | IUnary UnaryOp ValueId
  | IRecordCreate "(Name \<times> ValueId) list"
  | IFieldGet ValueId Name
  | IRecordUpdate ValueId "(Name \<times> ValueId) list"
  | IAdtConstruct TypeItemIdx Name "ValueId list"
  | ICall CallTarget "ValueId list"
  | IAssert ValueId string
  | IHole nat "HoleConstraint list"
  | IBlockParam BlockId nat
  | IFnParam nat
  | IAdtFieldGet ValueId nat
  | IFnRef Name
  | IClosureCreate Name "ValueId list"

record ValueDef =
  v_ty :: Ty
  v_inst :: Inst

record BlockParam =
  bp_name :: "Name option"
  bp_ty :: Ty
  bp_value :: ValueId

record BranchTarget =
  target_block :: BlockId
  target_args :: "ValueId list"

record SwitchCase =
  case_variant :: Name
  case_target :: BranchTarget

datatype Terminator =
    Return ValueId
  | Jump BranchTarget
  | Branch ValueId BranchTarget BranchTarget
  | Switch ValueId "SwitchCase list" "BranchTarget option"
  | Unreachable

record Block =
  b_label :: "Name option"
  b_params :: "BlockParam list"
  b_body :: "ValueId list"
  b_terminator :: "Terminator option"

record KirContracts =
  k_requires :: "ValueId list"
  k_ensures :: "ValueId list"

record KirFunction =
  k_name :: Name
  k_params :: "(Name \<times> Ty) list"
  k_closure_capture_tys :: "Ty list"
  k_ret_ty :: Ty
  k_effects :: EffectSet
  k_blocks :: "Block list"
  k_values :: "ValueDef list"
  k_entry_block :: BlockId
  k_contracts :: KirContracts

section \<open>Diagnostics\<close>

datatype BlockLabel = LName Name | LIndex nat

datatype KirError =
    InvalidEntryBlock
  | EntryBlockParams nat
  | InvalidRequires nat ValueId
  | InvalidEnsures nat ValueId
  | NoTerminator BlockLabel
  | ParamInvalidValue BlockLabel nat
  | ParamWrongBlock BlockLabel nat
  | ParamWrongIndex BlockLabel nat nat
  | ParamNotBlockParam BlockLabel nat
  | BodyInvalidValue BlockLabel ValueId
  | NoPredecessor BlockLabel nat
  | ReturnTypeMismatch BlockLabel
  | BranchNotBool BlockLabel
  | DuplicateCase BlockLabel Name
  | InvalidTargetBlock BlockLabel string
  | ArgumentCount BlockLabel string nat nat
  | ArgumentTypeMismatch BlockLabel string
  | FieldGetBase BlockLabel
  | IndirectNotFn BlockLabel
  | AssertNotBool BlockLabel
  | BlockParamIndex BlockLabel nat
  | BlockParamInvalidBlock BlockLabel
  | FnParamIndex BlockLabel nat nat
  | AdtFieldGetBase BlockLabel
  | InvalidValue BlockLabel string ValueId

definition is_valid_value :: "ValueId \<Rightarrow> KirFunction \<Rightarrow> bool" where
  "is_valid_value vid func \<longleftrightarrow> vid < length (k_values func)"

definition is_valid_block :: "BlockId \<Rightarrow> KirFunction \<Rightarrow> bool" where
  "is_valid_block bid func \<longleftrightarrow> bid < length (k_blocks func)"

definition types_compatible :: "Ty \<Rightarrow> Ty \<Rightarrow> bool" where
  "types_compatible a b \<longleftrightarrow> a = b \<or> is_poison a \<or> is_poison b"

definition check_value_exists :: "ValueId \<Rightarrow> KirFunction \<Rightarrow> BlockLabel \<Rightarrow> string \<Rightarrow> KirError list" where
  "check_value_exists vid func label ctx = (if is_valid_value vid func then [] else [InvalidValue label ctx vid])"

text \<open>The checks of a type that are made only when the value exists.\<close>

definition check_value_type :: "ValueId \<Rightarrow> KirFunction \<Rightarrow> (Ty \<Rightarrow> bool) \<Rightarrow> KirError \<Rightarrow> KirError list" where
  "check_value_type vid func ok err =
     (if is_valid_value vid func \<and> \<not> ok (v_ty (k_values func ! vid)) then [err] else [])"

section \<open>Operands\<close>

fun is_record_or_adt :: "Ty \<Rightarrow> bool" where
  "is_record_or_adt (TRecord _) = True"
| "is_record_or_adt (TAdt _ _) = True"
| "is_record_or_adt _ = False"

fun is_adt :: "Ty \<Rightarrow> bool" where
  "is_adt (TAdt _ _) = True"
| "is_adt _ = False"

fun is_fn :: "Ty \<Rightarrow> bool" where
  "is_fn (TFn _ _) = True"
| "is_fn _ = False"

fun validate_inst_operands :: "Inst \<Rightarrow> KirFunction \<Rightarrow> BlockLabel \<Rightarrow> KirError list" where
  "validate_inst_operands (IConst _) func label = []"
| "validate_inst_operands (IBinary _ lhs rhs) func label =
     check_value_exists lhs func label ''binary lhs'' @ check_value_exists rhs func label ''binary rhs''"
| "validate_inst_operands (IUnary _ operand) func label = check_value_exists operand func label ''unary operand''"
| "validate_inst_operands (IRecordCreate flds) func label =
     concat (map (\<lambda>(_, v). check_value_exists v func label ''record field'') flds)"
| "validate_inst_operands (IFieldGet base _) func label =
     check_value_exists base func label ''field_get base'' @
     check_value_type base func (\<lambda>ty. is_record_or_adt ty \<or> is_poison ty) (FieldGetBase label)"
| "validate_inst_operands (IRecordUpdate base updates) func label =
     check_value_exists base func label ''record_update base'' @
     concat (map (\<lambda>(_, v). check_value_exists v func label ''record_update field'') updates)"
| "validate_inst_operands (IAdtConstruct _ _ flds) func label =
     concat (map (\<lambda>v. check_value_exists v func label ''adt field'') flds)"
| "validate_inst_operands (ICall target args) func label =
     (case target of
        Indirect v \<Rightarrow>
          check_value_exists v func label ''call target'' @
          check_value_type v func (\<lambda>ty. is_fn ty \<or> is_poison ty) (IndirectNotFn label)
      | _ \<Rightarrow> []) @
     concat (map (\<lambda>v. check_value_exists v func label ''call arg'') args)"
| "validate_inst_operands (IAssert condition _) func label =
     check_value_exists condition func label ''assert condition'' @
     check_value_type condition func (\<lambda>ty. types_compatible ty TBool) (AssertNotBool label)"
| "validate_inst_operands (IHole _ _) func label = []"
| "validate_inst_operands (IBlockParam block idx) func label =
     (if is_valid_block block func then
        if length (b_params (k_blocks func ! block)) \<le> idx then [BlockParamIndex label idx] else []
      else [BlockParamInvalidBlock label])"
| "validate_inst_operands (IFnParam idx) func label =
     (if length (k_params func) \<le> idx then [FnParamIndex label idx (length (k_params func))] else [])"
| "validate_inst_operands (IAdtFieldGet base _) func label =
     check_value_exists base func label ''adt_field_get base'' @
     check_value_type base func (\<lambda>ty. is_adt ty \<or> is_poison ty) (AdtFieldGetBase label)"
| "validate_inst_operands (IFnRef _) func label = []"
| "validate_inst_operands (IClosureCreate _ captures) func label =
     concat (map (\<lambda>v. check_value_exists v func label ''closure_create capture'') captures)"

section \<open>Terminators\<close>

definition validate_branch_target :: "BranchTarget \<Rightarrow> KirFunction \<Rightarrow> BlockLabel \<Rightarrow> string \<Rightarrow> KirError list" where
  "validate_branch_target target func label ctx =
     (if \<not> is_valid_block (target_block target) func then [InvalidTargetBlock label ctx]
      else
        let params = b_params (k_blocks func ! target_block target)
        in (if length (target_args target) \<noteq> length params
            then [ArgumentCount label ctx (length (target_args target)) (length params)] else []) @
           concat (map (\<lambda>arg. check_value_exists arg func label ctx) (target_args target)) @
           concat (map (\<lambda>(arg, param).
               check_value_type arg func (\<lambda>ty. types_compatible ty (bp_ty param)) (ArgumentTypeMismatch label ctx))
             (zip (target_args target) params)))"

fun validate_cases :: "SwitchCase list \<Rightarrow> Name set \<Rightarrow> KirFunction \<Rightarrow> BlockLabel \<Rightarrow> KirError list" where
  "validate_cases [] seen_variants func label = []"
| "validate_cases (c # cs) seen_variants func label =
     (if case_variant c \<in> seen_variants then [DuplicateCase label (case_variant c)] else []) @
     validate_branch_target (case_target c) func label ''switch case'' @
     validate_cases cs (insert (case_variant c) seen_variants) func label"

fun validate_terminator :: "Terminator \<Rightarrow> KirFunction \<Rightarrow> BlockLabel \<Rightarrow> KirError list" where
  "validate_terminator (Return v) func label =
     check_value_exists v func label ''return'' @
     check_value_type v func (\<lambda>ty. types_compatible ty (k_ret_ty func)) (ReturnTypeMismatch label)"
| "validate_terminator (Jump target) func label = validate_branch_target target func label ''jump''"
| "validate_terminator (Branch condition then_target else_target) func label =
     check_value_exists condition func label ''branch condition'' @
     check_value_type condition func (\<lambda>ty. types_compatible ty TBool) (BranchNotBool label) @
     validate_branch_target then_target func label ''branch then'' @
     validate_branch_target else_target func label ''branch else''"
| "validate_terminator (Switch scrutinee cases dflt) func label =
     check_value_exists scrutinee func label ''switch scrutinee'' @
     validate_cases cases {} func label @
     (case dflt of Some def \<Rightarrow> validate_branch_target def func label ''switch default'' | None \<Rightarrow> [])"
| "validate_terminator Unreachable func label = []"

fun collect_branch_targets :: "Terminator \<Rightarrow> BlockId set" where
  "collect_branch_targets (Return _) = {}"
| "collect_branch_targets Unreachable = {}"
| "collect_branch_targets (Jump t) = {target_block t}"
| "collect_branch_targets (Branch _ then_target else_target) = {target_block then_target, target_block else_target}"
| "collect_branch_targets (Switch _ cases dflt) =
     (\<lambda>c. target_block (case_target c)) ` set cases \<union> target_block ` set_option dflt"

section \<open>Functions\<close>

definition block_label :: "BlockId \<Rightarrow> Block \<Rightarrow> BlockLabel" where
  "block_label bid block = (case b_label block of Some n \<Rightarrow> LName n | None \<Rightarrow> LIndex bid)"

definition validate_block_param :: "KirFunction \<Rightarrow> BlockId \<Rightarrow> BlockLabel \<Rightarrow> nat \<times> BlockParam \<Rightarrow> KirError list" where
  "validate_block_param func bid label ip =
     (case ip of (i, param) \<Rightarrow>
        if \<not> is_valid_value (bp_value param) func then [ParamInvalidValue label i]
        else
          (case v_inst (k_values func ! bp_value param) of
             IBlockParam bp_block idx \<Rightarrow>
               (if bp_block \<noteq> bid then [ParamWrongBlock label i] else []) @
               (if idx \<noteq> i then [ParamWrongIndex label i idx] else [])
           | _ \<Rightarrow> [ParamNotBlockParam label i]))"

definition validate_body_value :: "KirFunction \<Rightarrow> BlockLabel \<Rightarrow> ValueId \<Rightarrow> KirError list" where
  "validate_body_value func label vid =
     (if \<not> is_valid_value vid func then [BodyInvalidValue label vid]
      else validate_inst_operands (v_inst (k_values func ! vid)) func label)"

definition validate_block :: "KirFunction \<Rightarrow> nat \<times> Block \<Rightarrow> KirError list" where
  "validate_block func ib =
     (case ib of (bid, block) \<Rightarrow>
        case b_terminator block of
          None \<Rightarrow> [NoTerminator (block_label bid block)]
        | Some term \<Rightarrow>
            concat (map (validate_block_param func bid (block_label bid block)) (enumerate 0 (b_params block))) @
            concat (map (validate_body_value func (block_label bid block)) (b_body block)) @
            validate_terminator term func (block_label bid block))"

definition predecessors :: "KirFunction \<Rightarrow> BlockId set" where
  "predecessors func =
     (\<Union>block\<in>set (k_blocks func). case b_terminator block of Some term \<Rightarrow> collect_branch_targets term | None \<Rightarrow> {})"

definition validate_predecessors :: "KirFunction \<Rightarrow> nat \<times> Block \<Rightarrow> KirError list" where
  "validate_predecessors func ib =
     (case ib of (bid, block) \<Rightarrow>
        if bid \<noteq> k_entry_block func \<and> b_params block \<noteq> [] \<and> bid \<notin> predecessors func \<and>
           b_terminator block \<noteq> Some Unreachable
        then [NoPredecessor (block_label bid block) (length (b_params block))] else [])"

definition validate_function :: "KirFunction \<Rightarrow> KirError list" where
  "validate_function func =
     (if \<not> is_valid_block (k_entry_block func) func then [InvalidEntryBlock]
      else
        let entry = k_blocks func ! k_entry_block func
        in (if b_params entry \<noteq> [] then [EntryBlockParams (length (b_params entry))] else []) @
           concat (map (\<lambda>(i, vid). if is_valid_value vid func then [] else [InvalidRequires i vid])
             (enumerate 0 (k_requires (k_contracts func)))) @
           concat (map (\<lambda>(i, vid). if is_valid_value vid func then [] else [InvalidEnsures i vid])
             (enumerate 0 (k_ensures (k_contracts func)))) @
           concat (map (validate_block func) (enumerate 0 (k_blocks func))) @
           concat (map (validate_predecessors func) (enumerate 0 (k_blocks func))))"

end
