(* ===== verification/Kir_Build.thy ===== *)
theory Kir_Build
  imports Kir
begin

text \<open>
  The builder of functions (\<open>kir/src/build.rs\<close>).  An operation that panics (no current block, a
  block index out of range) is \<^const>\<open>None\<close>.  The index of a block parameter is a natural number; the
  code casts it to 32 bits, which agrees up to 4294967296 parameters.
\<close>

record KirBuilder =
  kb_blocks :: "Block list"
  kb_values :: "ValueDef list"
  kb_current :: "BlockId option"

definition builder_new :: KirBuilder where
  "builder_new = \<lparr>kb_blocks = [], kb_values = [], kb_current = None\<rparr>"

definition block_new :: "Name option \<Rightarrow> Block" where
  "block_new label = \<lparr>b_label = label, b_params = [], b_body = [], b_terminator = None\<rparr>"

definition new_block :: "Name option \<Rightarrow> KirBuilder \<Rightarrow> BlockId \<times> KirBuilder" where
  "new_block label b = (length (kb_blocks b), b\<lparr>kb_blocks := kb_blocks b @ [block_new label]\<rparr>)"

definition switch_to :: "BlockId \<Rightarrow> KirBuilder \<Rightarrow> KirBuilder" where
  "switch_to block b = b\<lparr>kb_current := Some block\<rparr>"

definition alloc_value :: "Ty \<Rightarrow> Inst \<Rightarrow> KirBuilder \<Rightarrow> ValueId \<times> KirBuilder" where
  "alloc_value ty inst b = (length (kb_values b), b\<lparr>kb_values := kb_values b @ [\<lparr>v_ty = ty, v_inst = inst\<rparr>]\<rparr>)"

definition update_block :: "BlockId \<Rightarrow> (Block \<Rightarrow> Block) \<Rightarrow> KirBuilder \<Rightarrow> KirBuilder option" where
  "update_block bid f b =
     map_option (\<lambda>block. b\<lparr>kb_blocks := (kb_blocks b)[bid := f block]\<rparr>) (arena_get (kb_blocks b) bid)"

definition add_block_param :: "BlockId \<Rightarrow> Name option \<Rightarrow> Ty \<Rightarrow> KirBuilder \<Rightarrow> (ValueId \<times> KirBuilder) option" where
  "add_block_param bid name ty b =
     (case arena_get (kb_blocks b) bid of
        None \<Rightarrow> None
      | Some block \<Rightarrow>
          let (v, b1) = alloc_value ty (IBlockParam bid (length (b_params block))) b
          in map_option (\<lambda>b2. (v, b2))
               (update_block bid
                  (\<lambda>block. block\<lparr>b_params := b_params block @ [\<lparr>bp_name = name, bp_ty = ty, bp_value = v\<rparr>]\<rparr>) b1))"

definition push_value :: "Ty \<Rightarrow> Inst \<Rightarrow> KirBuilder \<Rightarrow> (ValueId \<times> KirBuilder) option" where
  "push_value ty inst b =
     (let (vid, b1) = alloc_value ty inst b
      in case kb_current b1 of
           None \<Rightarrow> None
         | Some block \<Rightarrow>
             map_option (\<lambda>b2. (vid, b2)) (update_block block (\<lambda>bl. bl\<lparr>b_body := b_body bl @ [vid]\<rparr>) b1))"

definition push_const :: "Constant \<Rightarrow> Ty \<Rightarrow> KirBuilder \<Rightarrow> (ValueId \<times> KirBuilder) option" where
  "push_const c ty = push_value ty (IConst c)"

definition push_binary :: "BinaryOp \<Rightarrow> ValueId \<Rightarrow> ValueId \<Rightarrow> Ty \<Rightarrow> KirBuilder \<Rightarrow> (ValueId \<times> KirBuilder) option" where
  "push_binary op lhs rhs ty = push_value ty (IBinary op lhs rhs)"

definition push_unary :: "UnaryOp \<Rightarrow> ValueId \<Rightarrow> Ty \<Rightarrow> KirBuilder \<Rightarrow> (ValueId \<times> KirBuilder) option" where
  "push_unary op operand ty = push_value ty (IUnary op operand)"

definition push_record_create :: "(Name \<times> ValueId) list \<Rightarrow> Ty \<Rightarrow> KirBuilder \<Rightarrow> (ValueId \<times> KirBuilder) option" where
  "push_record_create flds ty = push_value ty (IRecordCreate flds)"

definition push_field_get :: "ValueId \<Rightarrow> Name \<Rightarrow> Ty \<Rightarrow> KirBuilder \<Rightarrow> (ValueId \<times> KirBuilder) option" where
  "push_field_get base field ty = push_value ty (IFieldGet base field)"

definition push_record_update ::
    "ValueId \<Rightarrow> (Name \<times> ValueId) list \<Rightarrow> Ty \<Rightarrow> KirBuilder \<Rightarrow> (ValueId \<times> KirBuilder) option" where
  "push_record_update base updates ty = push_value ty (IRecordUpdate base updates)"

definition push_adt_construct ::
    "TypeItemIdx \<Rightarrow> Name \<Rightarrow> ValueId list \<Rightarrow> Ty \<Rightarrow> KirBuilder \<Rightarrow> (ValueId \<times> KirBuilder) option" where
  "push_adt_construct type_def variant flds ty = push_value ty (IAdtConstruct type_def variant flds)"

definition push_call :: "CallTarget \<Rightarrow> ValueId list \<Rightarrow> Ty \<Rightarrow> KirBuilder \<Rightarrow> (ValueId \<times> KirBuilder) option" where
  "push_call target args ty = push_value ty (ICall target args)"

definition push_assert :: "ValueId \<Rightarrow> string \<Rightarrow> Ty \<Rightarrow> KirBuilder \<Rightarrow> (ValueId \<times> KirBuilder) option" where
  "push_assert condition message ty = push_value ty (IAssert condition message)"

definition push_hole :: "nat \<Rightarrow> HoleConstraint list \<Rightarrow> Ty \<Rightarrow> KirBuilder \<Rightarrow> (ValueId \<times> KirBuilder) option" where
  "push_hole hole_id constraints ty = push_value ty (IHole hole_id constraints)"

definition push_adt_field_get :: "ValueId \<Rightarrow> nat \<Rightarrow> Ty \<Rightarrow> KirBuilder \<Rightarrow> (ValueId \<times> KirBuilder) option" where
  "push_adt_field_get base field_index ty = push_value ty (IAdtFieldGet base field_index)"

definition push_fn_ref :: "Name \<Rightarrow> Ty \<Rightarrow> KirBuilder \<Rightarrow> (ValueId \<times> KirBuilder) option" where
  "push_fn_ref name ty = push_value ty (IFnRef name)"

definition push_closure_create :: "Name \<Rightarrow> ValueId list \<Rightarrow> Ty \<Rightarrow> KirBuilder \<Rightarrow> (ValueId \<times> KirBuilder) option" where
  "push_closure_create name captures ty = push_value ty (IClosureCreate name captures)"

definition block_has_terminator :: "KirBuilder \<Rightarrow> bool option" where
  "block_has_terminator b =
     (case kb_current b of
        None \<Rightarrow> Some False
      | Some bid \<Rightarrow> map_option (\<lambda>block. b_terminator block \<noteq> None) (arena_get (kb_blocks b) bid))"

definition value_ty :: "ValueId \<Rightarrow> KirBuilder \<Rightarrow> Ty option" where
  "value_ty vid b = map_option v_ty (arena_get (kb_values b) vid)"

definition set_terminator :: "Terminator \<Rightarrow> KirBuilder \<Rightarrow> KirBuilder option" where
  "set_terminator term b =
     (case kb_current b of
        None \<Rightarrow> None
      | Some block \<Rightarrow> update_block block (\<lambda>bl. bl\<lparr>b_terminator := Some term\<rparr>) b)"

definition set_return :: "ValueId \<Rightarrow> KirBuilder \<Rightarrow> KirBuilder option" where
  "set_return v = set_terminator (Return v)"

definition set_jump :: "BranchTarget \<Rightarrow> KirBuilder \<Rightarrow> KirBuilder option" where
  "set_jump target = set_terminator (Jump target)"

definition set_branch :: "ValueId \<Rightarrow> BranchTarget \<Rightarrow> BranchTarget \<Rightarrow> KirBuilder \<Rightarrow> KirBuilder option" where
  "set_branch condition then_target else_target = set_terminator (Branch condition then_target else_target)"

definition set_unreachable :: "KirBuilder \<Rightarrow> KirBuilder option" where
  "set_unreachable = set_terminator Unreachable"

definition build_with_captures ::
    "Name \<Rightarrow> (Name \<times> Ty) list \<Rightarrow> Ty list \<Rightarrow> Ty \<Rightarrow> EffectSet \<Rightarrow> BlockId \<Rightarrow> KirContracts \<Rightarrow> KirBuilder \<Rightarrow> KirFunction" where
  "build_with_captures name params closure_capture_tys ret_ty effects entry_block contracts b =
     \<lparr>k_name = name, k_params = params, k_closure_capture_tys = closure_capture_tys, k_ret_ty = ret_ty,
      k_effects = effects, k_blocks = kb_blocks b, k_values = kb_values b, k_entry_block = entry_block,
      k_contracts = contracts\<rparr>"

definition build ::
    "Name \<Rightarrow> (Name \<times> Ty) list \<Rightarrow> Ty \<Rightarrow> EffectSet \<Rightarrow> BlockId \<Rightarrow> KirContracts \<Rightarrow> KirBuilder \<Rightarrow> KirFunction" where
  "build name params ret_ty effects entry_block contracts =
     build_with_captures name params [] ret_ty effects entry_block contracts"

text \<open>The states a client of the builder can reach; every \<open>push_\<close> operation is a \<^const>\<open>push_value\<close>.\<close>

inductive built :: "KirBuilder \<Rightarrow> bool" where
  built_new: "built builder_new"
| built_block: "built b \<Longrightarrow> new_block label b = (bid, b') \<Longrightarrow> built b'"
| built_switch: "built b \<Longrightarrow> built (switch_to bid b)"
| built_param: "built b \<Longrightarrow> add_block_param bid name ty b = Some (v, b') \<Longrightarrow> built b'"
| built_alloc: "built b \<Longrightarrow> alloc_value ty inst b = (v, b') \<Longrightarrow> built b'"
| built_push: "built b \<Longrightarrow> push_value ty inst b = Some (v, b') \<Longrightarrow> built b'"
| built_terminator: "built b \<Longrightarrow> set_terminator term b = Some b' \<Longrightarrow> built b'"

end
