(* ===== verification/Kir_Properties.thy ===== *)
theory Kir_Properties
  imports Kir_Build "HOL-Library.Multiset"
begin

text \<open>
  The validator against a specification of well-formed functions, what a validated function
  guarantees along control flow, and what the builder guarantees before any validation.
\<close>

section \<open>Well-formed functions\<close>

fun operands :: "Inst \<Rightarrow> ValueId list" where
  "operands (IBinary _ lhs rhs) = [lhs, rhs]"
| "operands (IUnary _ v) = [v]"
| "operands (IRecordCreate flds) = map snd flds"
| "operands (IFieldGet base _) = [base]"
| "operands (IRecordUpdate base updates) = base # map snd updates"
| "operands (IAdtConstruct _ _ flds) = flds"
| "operands (ICall target args) = (case target of Indirect v \<Rightarrow> v # args | _ \<Rightarrow> args)"
| "operands (IAssert condition _) = [condition]"
| "operands (IAdtFieldGet base _) = [base]"
| "operands (IClosureCreate _ captures) = captures"
| "operands _ = []"

abbreviation ty_of :: "KirFunction \<Rightarrow> ValueId \<Rightarrow> Ty" where
  "ty_of f v \<equiv> v_ty (k_values f ! v)"

fun operand_types_ok :: "KirFunction \<Rightarrow> Inst \<Rightarrow> bool" where
  "operand_types_ok f (IFieldGet base _) = (is_record_or_adt (ty_of f base) \<or> is_poison (ty_of f base))"
| "operand_types_ok f (ICall (Indirect v) _) = (is_fn (ty_of f v) \<or> is_poison (ty_of f v))"
| "operand_types_ok f (IAssert condition _) = types_compatible (ty_of f condition) TBool"
| "operand_types_ok f (IBlockParam bid i) = (bid < length (k_blocks f) \<and> i < length (b_params (k_blocks f ! bid)))"
| "operand_types_ok f (IFnParam i) = (i < length (k_params f))"
| "operand_types_ok f (IAdtFieldGet base _) = (is_adt (ty_of f base) \<or> is_poison (ty_of f base))"
| "operand_types_ok f _ = True"

definition inst_ok :: "KirFunction \<Rightarrow> Inst \<Rightarrow> bool" where
  "inst_ok f inst \<longleftrightarrow> list_all (\<lambda>v. v < length (k_values f)) (operands inst) \<and> operand_types_ok f inst"

definition target_ok :: "KirFunction \<Rightarrow> BranchTarget \<Rightarrow> bool" where
  "target_ok f t \<longleftrightarrow> target_block t < length (k_blocks f) \<and>
     list_all2 (\<lambda>arg param. arg < length (k_values f) \<and> types_compatible (ty_of f arg) (bp_ty param))
       (target_args t) (b_params (k_blocks f ! target_block t))"

fun branch_targets :: "Terminator \<Rightarrow> BranchTarget list" where
  "branch_targets (Jump t) = [t]"
| "branch_targets (Branch _ t e) = [t, e]"
| "branch_targets (Switch _ cases dflt) = map case_target cases @ (case dflt of Some d \<Rightarrow> [d] | None \<Rightarrow> [])"
| "branch_targets _ = []"

fun term_value_ok :: "KirFunction \<Rightarrow> Terminator \<Rightarrow> bool" where
  "term_value_ok f (Return v) = (v < length (k_values f) \<and> types_compatible (ty_of f v) (k_ret_ty f))"
| "term_value_ok f (Branch c _ _) = (c < length (k_values f) \<and> types_compatible (ty_of f c) TBool)"
| "term_value_ok f (Switch s cases _) = (s < length (k_values f) \<and> distinct (map case_variant cases))"
| "term_value_ok f _ = True"

definition term_ok :: "KirFunction \<Rightarrow> Terminator \<Rightarrow> bool" where
  "term_ok f t \<longleftrightarrow> term_value_ok f t \<and> list_all (target_ok f) (branch_targets t)"

definition params_ok :: "ValueDef list \<Rightarrow> BlockId \<Rightarrow> BlockParam list \<Rightarrow> bool" where
  "params_ok values bid params \<longleftrightarrow>
     (\<forall>i<length params. bp_value (params ! i) < length values \<and>
        v_inst (values ! bp_value (params ! i)) = IBlockParam bid i)"

definition block_ok :: "KirFunction \<Rightarrow> BlockId \<Rightarrow> bool" where
  "block_ok f bid \<longleftrightarrow>
     (let bl = k_blocks f ! bid
      in params_ok (k_values f) bid (b_params bl) \<and>
         list_all (\<lambda>v. v < length (k_values f) \<and> inst_ok f (v_inst (k_values f ! v))) (b_body bl) \<and>
         (case b_terminator bl of Some t \<Rightarrow> term_ok f t | None \<Rightarrow> False))"

definition entered :: "KirFunction \<Rightarrow> BlockId \<Rightarrow> bool" where
  "entered f bid \<longleftrightarrow> (\<exists>bl\<in>set (k_blocks f). \<exists>t. b_terminator bl = Some t \<and> bid \<in> target_block ` set (branch_targets t))"

definition function_ok :: "KirFunction \<Rightarrow> bool" where
  "function_ok f \<longleftrightarrow> k_entry_block f < length (k_blocks f) \<and> b_params (k_blocks f ! k_entry_block f) = [] \<and>
     list_all (\<lambda>v. v < length (k_values f)) (k_requires (k_contracts f) @ k_ensures (k_contracts f)) \<and>
     (\<forall>bid<length (k_blocks f). block_ok f bid \<and>
        (bid = k_entry_block f \<or> b_params (k_blocks f ! bid) = [] \<or>
         b_terminator (k_blocks f ! bid) = Some Unreachable \<or> entered f bid))"

section \<open>The validator decides it\<close>

lemma concat_map_Nil: "concat (map g xs) = [] \<longleftrightarrow> list_all (\<lambda>x. g x = []) xs"
  by (induction xs) auto

lemma list_all_enumerate: "list_all P (enumerate n xs) \<longleftrightarrow> (\<forall>i<length xs. P (n + i, xs ! i))"
  by (auto simp: list_all_length nth_enumerate_eq)

lemma check_exists_Nil [simp]: "check_value_exists v f label ctx = [] \<longleftrightarrow> v < length (k_values f)"
  by (simp add: check_value_exists_def is_valid_value_def)

lemma check_type_Nil [simp]: "check_value_type v f ok err = [] \<longleftrightarrow> (v < length (k_values f) \<longrightarrow> ok (ty_of f v))"
  by (simp add: check_value_type_def is_valid_value_def)

lemma check_all_Nil:
  "concat (map (\<lambda>v. check_value_exists v f label ctx) vs) = [] \<longleftrightarrow> list_all (\<lambda>v. v < length (k_values f)) vs"
  "concat (map (\<lambda>(n, v). check_value_exists v f label ctx) nvs) = [] \<longleftrightarrow>
     list_all (\<lambda>v. v < length (k_values f)) (map snd nvs)"
  by (induction vs) (simp, simp, induction nvs, auto)

lemma validate_operands_iff: "validate_inst_operands inst f label = [] \<longleftrightarrow> inst_ok f inst"
  by (cases inst)
    (auto simp: inst_ok_def check_all_Nil is_valid_block_def not_le simp del: concat_eq_Nil_conv split: CallTarget.split)

lemma zip_all2:
  "length xs = length ys \<Longrightarrow> list_all (\<lambda>(x, y). P x y) (zip xs ys) \<longleftrightarrow> list_all2 P xs ys"
  by (auto simp: list_all2_iff list_all_iff)

lemma validate_target_iff: "validate_branch_target t f label ctx = [] \<longleftrightarrow> target_ok f t"
  by (auto simp: validate_branch_target_def target_ok_def is_valid_block_def check_all_Nil concat_map_Nil Let_def
      list_all2_conv_all_nth list_all_length simp del: concat_eq_Nil_conv split: if_splits)

lemma validate_cases_iff:
  "validate_cases cs seen f label = [] \<longleftrightarrow> distinct (map case_variant cs) \<and>
     case_variant ` set cs \<inter> seen = {} \<and> list_all (target_ok f) (map case_target cs)"
  by (induction cs arbitrary: seen) (auto simp: validate_target_iff)

lemma validate_terminator_iff: "validate_terminator t f label = [] \<longleftrightarrow> term_ok f t"
  by (cases t) (auto simp: term_ok_def validate_target_iff validate_cases_iff split: option.splits)

lemma collect_branch_targets_eq: "collect_branch_targets t = target_block ` set (branch_targets t)"
  by (cases t) (auto split: option.splits)

lemma predecessors_iff: "bid \<in> predecessors f \<longleftrightarrow> entered f bid"
proof -
  have "bid \<in> (case b_terminator bl of Some t \<Rightarrow> collect_branch_targets t | None \<Rightarrow> {}) \<longleftrightarrow>
      (\<exists>t. b_terminator bl = Some t \<and> bid \<in> target_block ` set (branch_targets t))" for bl
    by (cases "b_terminator bl") (auto simp: collect_branch_targets_eq)
  then show ?thesis
    unfolding predecessors_def entered_def UN_iff by blast
qed

lemma validate_param_iff:
  "validate_block_param f bid label (i, p) = [] \<longleftrightarrow>
     bp_value p < length (k_values f) \<and> v_inst (k_values f ! bp_value p) = IBlockParam bid i"
  by (auto simp: validate_block_param_def is_valid_value_def split: Inst.splits)

lemma validate_body_iff:
  "validate_body_value f label v = [] \<longleftrightarrow> v < length (k_values f) \<and> inst_ok f (v_inst (k_values f ! v))"
  by (auto simp: validate_body_value_def is_valid_value_def validate_operands_iff)

lemma validate_block_iff: "validate_block f (bid, k_blocks f ! bid) = [] \<longleftrightarrow> block_ok f bid"
  by (auto simp: validate_block_def block_ok_def params_ok_def concat_map_Nil list_all_enumerate validate_param_iff
      validate_body_iff validate_terminator_iff Let_def simp del: concat_eq_Nil_conv split: option.split)

lemma validate_predecessors_iff:
  "validate_predecessors f (bid, bl) = [] \<longleftrightarrow>
     bid = k_entry_block f \<or> b_params bl = [] \<or> b_terminator bl = Some Unreachable \<or> entered f bid"
  by (auto simp: validate_predecessors_def predecessors_iff)

lemma contract_values_iff:
  "concat (map (\<lambda>(i, vid). if is_valid_value vid f then [] else [err i vid]) (enumerate n vs)) = [] \<longleftrightarrow>
     list_all (\<lambda>v. v < length (k_values f)) vs"
  by (auto simp: concat_map_Nil list_all_length nth_enumerate_eq is_valid_value_def simp del: concat_eq_Nil_conv)

lemma validate_function_iff: "validate_function f = [] \<longleftrightarrow> function_ok f"
proof (cases "k_entry_block f < length (k_blocks f)")
  case True
  have "validate_function f = [] \<longleftrightarrow> b_params (k_blocks f ! k_entry_block f) = [] \<and>
      list_all (\<lambda>v. v < length (k_values f)) (k_requires (k_contracts f)) \<and>
      list_all (\<lambda>v. v < length (k_values f)) (k_ensures (k_contracts f)) \<and>
      list_all (\<lambda>ib. validate_block f ib = []) (enumerate 0 (k_blocks f)) \<and>
      list_all (\<lambda>ib. validate_predecessors f ib = []) (enumerate 0 (k_blocks f))"
    using True unfolding validate_function_def Let_def is_valid_block_def append_is_Nil_conv
    by (simp only: if_False not_True_eq_False append_is_Nil_conv contract_values_iff) (simp add: concat_map_Nil del: concat_eq_Nil_conv)
  then show ?thesis
    using True by (auto simp: function_ok_def list_all_enumerate validate_block_iff validate_predecessors_iff)
next
  case False
  then show ?thesis
    by (simp add: validate_function_def function_ok_def is_valid_block_def)
qed

section \<open>Control flow of a validated function\<close>

text \<open>A block is entered with the arguments its predecessor passes; the entry block is entered with none.\<close>

inductive enters :: "KirFunction \<Rightarrow> BlockId \<Rightarrow> ValueId list \<Rightarrow> bool" for f where
  enters_entry: "enters f (k_entry_block f) []"
| enters_branch: "enters f bid args \<Longrightarrow> arena_get (k_blocks f) bid = Some bl \<Longrightarrow> b_terminator bl = Some t \<Longrightarrow>
    target \<in> set (branch_targets t) \<Longrightarrow> enters f (target_block target) (target_args target)"

lemma function_ok_block:
  assumes "function_ok f" "bid < length (k_blocks f)"
  shows "block_ok f bid"
  using assms by (simp add: function_ok_def)

lemma block_ok_terminator:
  assumes "block_ok f bid" obtains t where "b_terminator (k_blocks f ! bid) = Some t" "term_ok f t"
  using assms by (auto simp: block_ok_def Let_def split: option.splits)

lemma enters_target_ok:
  assumes "enters f bid args" "function_ok f"
  shows "target_ok f \<lparr>target_block = bid, target_args = args\<rparr>"
  using assms
proof (induction rule: enters.induct)
  case enters_entry
  then show ?case
    by (simp add: function_ok_def target_ok_def)
next
  case (enters_branch bid args bl t target)
  have bid: "bid < length (k_blocks f)" "bl = k_blocks f ! bid"
    using enters_branch.hyps(2) by (simp_all add: arena_get_def split: if_splits)
  have "term_ok f t"
    using block_ok_terminator[OF function_ok_block[OF enters_branch.prems bid(1)]] enters_branch.hyps(3) bid(2)
    by fastforce
  then have "target_ok f target"
    using enters_branch.hyps(4) by (simp add: term_ok_def list_all_iff)
  then show ?case
    by (simp add: target_ok_def)
qed

section \<open>The builder\<close>

definition defined :: "Block list \<Rightarrow> ValueId list" where
  "defined blocks = concat (map (\<lambda>bl. map bp_value (b_params bl) @ b_body bl) blocks)"

definition params_typed :: "ValueDef list \<Rightarrow> BlockId \<Rightarrow> BlockParam list \<Rightarrow> bool" where
  "params_typed values bid params \<longleftrightarrow> params_ok values bid params \<and>
     list_all (\<lambda>p. v_ty (values ! bp_value p) = bp_ty p) params"

definition builder_ok :: "KirBuilder \<Rightarrow> bool" where
  "builder_ok b \<longleftrightarrow> (\<forall>bid<length (kb_blocks b). params_typed (kb_values b) bid (b_params (kb_blocks b ! bid))) \<and>
     distinct (defined (kb_blocks b)) \<and> list_all (\<lambda>v. v < length (kb_values b)) (defined (kb_blocks b))"

lemma params_typed_Nil [simp]: "params_typed values bid []"
  by (simp add: params_typed_def params_ok_def)

lemma params_typed_alloc: "params_typed values bid params \<Longrightarrow> params_typed (values @ [d]) bid params"
  by (fastforce simp: params_typed_def params_ok_def nth_append list_all_length)

lemma params_typed_snoc:
  assumes "params_typed values bid params"
  shows "params_typed (values @ [\<lparr>v_ty = ty, v_inst = IBlockParam bid (length params)\<rparr>]) bid
    (params @ [\<lparr>bp_name = name, bp_ty = ty, bp_value = length values\<rparr>])"
  using assms by (fastforce simp: params_typed_def params_ok_def nth_append list_all_length less_Suc_eq)

lemma mset_concat_update:
  assumes "i < length xs" "mset (g y) = add_mset v (mset (g (xs ! i)))"
  shows "mset (concat (map g (xs[i := y]))) = add_mset v (mset (concat (map g xs)))"
  using assms by (induction xs arbitrary: i) (auto split: nat.split)

lemma defined_new_block [simp]: "defined (blocks @ [block_new label]) = defined blocks"
  by (simp add: defined_def block_new_def)

lemma defined_fresh:
  assumes "bid < length blocks" "mset (map bp_value (b_params bl) @ b_body bl) =
      add_mset v (mset (map bp_value (b_params (blocks ! bid)) @ b_body (blocks ! bid)))"
    "list_all (\<lambda>u. u < v) (defined blocks)" "distinct (defined blocks)"
  shows "distinct (defined (blocks[bid := bl]))" "list_all (\<lambda>u. u < Suc v) (defined (blocks[bid := bl]))"
proof -
  have m: "mset (defined (blocks[bid := bl])) = add_mset v (mset (defined blocks))"
    unfolding defined_def by (rule mset_concat_update[OF assms(1)]) (use assms(2) in simp)
  have "v \<notin> set (defined blocks)"
    using assms(3) by (auto simp: list_all_iff)
  then have "distinct (v # defined blocks)"
    using assms(4) by simp
  then show "distinct (defined (blocks[bid := bl]))"
    using m by (metis mset.simps(2) mset_eq_imp_distinct_iff)
  have "set (defined (blocks[bid := bl])) = insert v (set (defined blocks))"
    using m by (metis set_mset_mset set_mset_add_mset_insert)
  then show "list_all (\<lambda>u. u < Suc v) (defined (blocks[bid := bl]))"
    using assms(3) by (auto simp: list_all_iff less_Suc_eq)
qed

lemma update_block_Some:
  assumes "update_block bid g b = Some b'"
  shows "bid < length (kb_blocks b)" "b' = b\<lparr>kb_blocks := (kb_blocks b)[bid := g (kb_blocks b ! bid)]\<rparr>"
  using assms by (auto simp: update_block_def arena_get_def split: if_splits)

lemma builder_ok_fresh:
  assumes ok: "builder_ok b" and bid: "bid < length (kb_blocks b)"
    and bl: "mset (map bp_value (b_params bl) @ b_body bl) = add_mset (length (kb_values b))
        (mset (map bp_value (b_params (kb_blocks b ! bid)) @ b_body (kb_blocks b ! bid)))"
    and params: "params_typed (kb_values b @ [d]) bid (b_params bl)"
  shows "builder_ok (b\<lparr>kb_values := kb_values b @ [d], kb_blocks := (kb_blocks b)[bid := bl]\<rparr>)"
proof -
  have "params_typed (kb_values b @ [d]) i (b_params ((kb_blocks b)[bid := bl] ! i))" if "i < length (kb_blocks b)" for i
    using params that ok by (cases "i = bid") (simp_all add: builder_ok_def params_typed_alloc)
  then show ?thesis
    using defined_fresh[OF bid bl] ok by (simp add: builder_ok_def)
qed

lemma builder_ok_param:
  assumes "builder_ok b" "add_block_param bid name ty b = Some (v, b')"
  shows "builder_ok b'"
proof -
  have bid: "bid < length (kb_blocks b)"
    using assms(2) by (auto simp: add_block_param_def arena_get_def split: if_splits)
  let ?bl = "kb_blocks b ! bid"
  let ?p = "\<lparr>bp_name = name, bp_ty = ty, bp_value = length (kb_values b)\<rparr>"
  have b': "b' = b\<lparr>kb_values := kb_values b @ [\<lparr>v_ty = ty, v_inst = IBlockParam bid (length (b_params ?bl))\<rparr>],
      kb_blocks := (kb_blocks b)[bid := ?bl\<lparr>b_params := b_params ?bl @ [?p]\<rparr>]\<rparr>"
    using assms(2) bid by (auto simp: add_block_param_def alloc_value_def update_block_def arena_get_def)
  show ?thesis
    unfolding b'
    by (rule builder_ok_fresh[OF assms(1) bid]) (use assms(1) bid in \<open>auto simp: builder_ok_def intro: params_typed_snoc\<close>)
qed

lemma builder_ok_push:
  assumes "builder_ok b" "push_value ty inst b = Some (v, b')"
  shows "builder_ok b'"
proof -
  obtain bid where bid: "bid < length (kb_blocks b)"
    and b': "b' = b\<lparr>kb_values := kb_values b @ [\<lparr>v_ty = ty, v_inst = inst\<rparr>],
      kb_blocks := (kb_blocks b)[bid := (kb_blocks b ! bid)\<lparr>b_body := b_body (kb_blocks b ! bid) @ [length (kb_values b)]\<rparr>]\<rparr>"
    using assms(2)
    by (auto simp: push_value_def alloc_value_def update_block_def arena_get_def split: option.splits if_splits)
  show ?thesis
    unfolding b'
    by (rule builder_ok_fresh[OF assms(1) bid]) (use assms(1) bid in \<open>auto simp: builder_ok_def params_typed_alloc\<close>)
qed

lemma builder_ok_terminator:
  assumes "builder_ok b" "set_terminator term b = Some b'"
  shows "builder_ok b'"
proof -
  obtain bid where bid: "bid < length (kb_blocks b)"
    and b': "b' = b\<lparr>kb_blocks := (kb_blocks b)[bid := (kb_blocks b ! bid)\<lparr>b_terminator := Some term\<rparr>]\<rparr>"
    using assms(2) by (auto simp: set_terminator_def update_block_def arena_get_def split: option.splits if_splits)
  have "defined (kb_blocks b') = defined (kb_blocks b)"
    using bid unfolding defined_def b' by - (rule arg_cong[where f = concat], rule nth_equalityI, auto simp: nth_list_update)
  moreover have "b_params (kb_blocks b' ! i) = b_params (kb_blocks b ! i)" if "i < length (kb_blocks b)" for i
    using that bid by (simp add: b' nth_list_update)
  ultimately show ?thesis
    using assms(1) by (simp add: builder_ok_def b')
qed

lemma builder_ok_values:
  assumes "builder_ok b"
  shows "builder_ok (b\<lparr>kb_values := kb_values b @ [d]\<rparr>)"
  using assms by (auto simp: builder_ok_def params_typed_alloc list_all_iff)

lemma built_ok: "built b \<Longrightarrow> builder_ok b"
proof (induction rule: built.induct)
  case built_new
  show ?case
    by (simp add: builder_ok_def builder_new_def defined_def)
next
  case (built_block b label bid b')
  then show ?case
    by (auto simp: new_block_def builder_ok_def nth_append block_new_def[symmetric]) (auto simp: block_new_def)
next
  case (built_switch b bid)
  then show ?case
    by (simp add: switch_to_def builder_ok_def)
next
  case (built_alloc b ty inst v b')
  then show ?case
    using builder_ok_values by (auto simp: alloc_value_def)
qed (blast intro: builder_ok_param builder_ok_push builder_ok_terminator)+

text \<open>The diagnostics about the places where values are defined.\<close>

fun structural :: "KirError \<Rightarrow> bool" where
  "structural (ParamInvalidValue _ _) = True"
| "structural (ParamWrongBlock _ _) = True"
| "structural (ParamWrongIndex _ _ _) = True"
| "structural (ParamNotBlockParam _ _) = True"
| "structural (BodyInvalidValue _ _) = True"
| "structural _ = False"

lemma operands_not_structural: "e \<in> set (validate_inst_operands inst f label) \<Longrightarrow> \<not> structural e"
  by (cases inst)
    (auto simp: check_value_exists_def check_value_type_def split: if_splits CallTarget.splits)

lemma target_not_structural: "e \<in> set (validate_branch_target t f label ctx) \<Longrightarrow> \<not> structural e"
  by (auto simp: validate_branch_target_def check_value_exists_def check_value_type_def Let_def split: if_splits)

lemma cases_not_structural: "e \<in> set (validate_cases cs seen f label) \<Longrightarrow> \<not> structural e"
  by (induction cs arbitrary: seen) (auto dest: target_not_structural split: if_splits)

lemma terminator_not_structural: "e \<in> set (validate_terminator t f label) \<Longrightarrow> \<not> structural e"
  by (cases t) (auto simp: check_value_exists_def check_value_type_def
      dest: target_not_structural cases_not_structural split: if_splits option.splits)

lemma block_not_structural:
  assumes "params_ok (k_values f) bid (b_params (k_blocks f ! bid))"
    "list_all (\<lambda>v. v < length (k_values f)) (b_body (k_blocks f ! bid))"
    "e \<in> set (validate_block f (bid, k_blocks f ! bid))"
  shows "\<not> structural e"
proof -
  have "list_all (\<lambda>ip. validate_block_param f bid label ip = []) (enumerate 0 (b_params (k_blocks f ! bid)))" for label
    using assms(1) by (simp add: list_all_enumerate validate_param_iff params_ok_def)
  then show ?thesis
    using assms(2,3)
    by (auto simp: validate_block_def validate_body_value_def is_valid_value_def list_all_iff
        dest: operands_not_structural terminator_not_structural split: option.splits if_splits)
qed

lemma built_not_structural:
  assumes "built b" "e \<in> set (validate_function (build_with_captures name params caps ret effs entry contracts b))"
  shows "\<not> structural e"
proof -
  let ?f = "build_with_captures name params caps ret effs entry contracts b"
  have ok: "params_ok (k_values ?f) bid (b_params (k_blocks ?f ! bid)) \<and>
      list_all (\<lambda>v. v < length (k_values ?f)) (b_body (k_blocks ?f ! bid))" if "bid < length (k_blocks ?f)" for bid
  proof -
    have "set (b_body (kb_blocks b ! bid)) \<subseteq> set (defined (kb_blocks b))"
      using that by (auto simp: defined_def build_with_captures_def intro: nth_mem)
    then show ?thesis
      using built_ok[OF assms(1)] that
      by (auto simp: builder_ok_def build_with_captures_def params_typed_def list_all_iff)
  qed
  consider "\<exists>bid<length (k_blocks ?f). e \<in> set (validate_block ?f (bid, k_blocks ?f ! bid))" | "\<not> structural e"
    using assms(2)
    by (auto simp: validate_function_def validate_predecessors_def Let_def set_zip enumerate_eq_zip split: if_splits)
  then show ?thesis
    using block_not_structural ok by cases blast+
qed

section \<open>Properties\<close>

text \<open>
  C19. \<open>validate_function\<close> reports nothing exactly on the well-formed functions: the entry block
  exists and takes no parameters, contract values exist, every block has a terminator, its parameters
  are defined by block-parameter values of its own positions, operands exist and have the type their
  instruction needs, every branch passes existing arguments of the right number and compatible types,
  switch cases are distinct, and a block with parameters has a predecessor or is unreachable.
\<close>

theorem validate_function_exact: "validate_function f = [] \<longleftrightarrow> function_ok f"
  by (rule validate_function_iff)

text \<open>
  C20. In a validated function control flow never leaves the function: every block that can be entered
  exists, is entered with one existing, type-compatible argument for each of its parameters, executes
  only instructions whose operands exist, and ends in a terminator.
\<close>

theorem validated_flow_safe:
  assumes "validate_function f = []" and "enters f bid args"
  shows "\<exists>bl t. arena_get (k_blocks f) bid = Some bl \<and> b_terminator bl = Some t \<and> term_value_ok f t \<and>
     list_all2 (\<lambda>arg param. arg < length (k_values f) \<and> types_compatible (ty_of f arg) (bp_ty param)) args (b_params bl) \<and>
     list_all (\<lambda>v. v < length (k_values f) \<and> inst_ok f (v_inst (k_values f ! v))) (b_body bl)"
proof -
  have ok: "function_ok f"
    using assms(1) by (simp add: validate_function_iff)
  have target: "target_ok f \<lparr>target_block = bid, target_args = args\<rparr>"
    by (rule enters_target_ok[OF assms(2) ok])
  then have bid: "bid < length (k_blocks f)"
    by (simp add: target_ok_def)
  have block: "block_ok f bid"
    by (rule function_ok_block[OF ok bid])
  then obtain t where "b_terminator (k_blocks f ! bid) = Some t" "term_ok f t"
    by (rule block_ok_terminator)
  then show ?thesis
    using bid block target
    by (intro exI[of _ "k_blocks f ! bid"] exI[of _ t])
      (simp add: arena_get_def term_ok_def target_ok_def block_ok_def Let_def)
qed

definition demo_function :: KirFunction where
  "demo_function =
     \<lparr>k_name = 0, k_params = [], k_closure_capture_tys = [], k_ret_ty = TInt, k_effects = {},
      k_blocks = [\<lparr>b_label = None, b_params = [], b_body = [0],
           b_terminator = Some (Jump \<lparr>target_block = 1, target_args = [0]\<rparr>)\<rparr>,
         \<lparr>b_label = None, b_params = [\<lparr>bp_name = None, bp_ty = TInt, bp_value = 1\<rparr>], b_body = [],
           b_terminator = Some (Return 1)\<rparr>],
      k_values = [\<lparr>v_ty = TInt, v_inst = IConst (CInt 7)\<rparr>, \<lparr>v_ty = TInt, v_inst = IBlockParam 1 0\<rparr>],
      k_entry_block = 0, k_contracts = \<lparr>k_requires = [], k_ensures = []\<rparr>\<rparr>"

lemma demo_function_valid: "validate_function demo_function = []"
  by (simp add: demo_function_def validate_function_def validate_block_def validate_block_param_def
      validate_body_value_def validate_branch_target_def validate_predecessors_def predecessors_def
      check_value_exists_def check_value_type_def is_valid_value_def is_valid_block_def types_compatible_def)

lemma demo_function_enters: "enters demo_function 1 [0]"
  using enters_branch[OF enters_entry, of demo_function _ _ "\<lparr>target_block = 1, target_args = [0]\<rparr>"]
  by (simp add: demo_function_def)

theorem validated_flow_safe_witness:
  "validate_function demo_function = [] \<and> enters demo_function 1 [0] \<and>
   (\<exists>bl t. arena_get (k_blocks demo_function) 1 = Some bl \<and> b_terminator bl = Some t)"
  using validated_flow_safe[OF demo_function_valid demo_function_enters] demo_function_valid demo_function_enters
  by blast

text \<open>
  C21. Whatever sequence of builder operations produced it, a function has each value defined at one
  place only, block parameters whose values carry the position and the type of the parameter, and no
  diagnostic about block parameters or body values: such diagnostics always point to a later change.
\<close>

theorem builder_defines_once:
  assumes "built b"
  shows "distinct (defined (kb_blocks b)) \<and>
    list_all (\<lambda>bl. list_all (\<lambda>p. value_ty (bp_value p) b = Some (bp_ty p)) (b_params bl)) (kb_blocks b) \<and>
    list_all (\<lambda>e. \<not> structural e) (validate_function (build_with_captures name params caps ret effs entry contracts b))"
proof (intro conjI)
  show "distinct (defined (kb_blocks b))"
    using built_ok[OF assms] by (simp add: builder_ok_def)
  have "params_typed (kb_values b) i (b_params (kb_blocks b ! i))" if "i < length (kb_blocks b)" for i
    using built_ok[OF assms] that by (simp add: builder_ok_def)
  then show "list_all (\<lambda>bl. list_all (\<lambda>p. value_ty (bp_value p) b = Some (bp_ty p)) (b_params bl)) (kb_blocks b)"
    by (simp add: list_all_length params_typed_def params_ok_def value_ty_def arena_get_def)
  show "list_all (\<lambda>e. \<not> structural e) (validate_function (build_with_captures name params caps ret effs entry contracts b))"
    using built_not_structural[OF assms] by (auto simp: list_all_iff)
qed

definition demo_builder :: KirBuilder where
  "demo_builder = snd (the (push_const (CInt 7) TInt (switch_to 0 (snd (new_block None builder_new)))))"

lemma demo_builder_built: "built demo_builder"
proof -
  have "built (switch_to 0 (snd (new_block None builder_new)))"
    by (rule built_switch, rule built_block[OF built_new, of None 0]) (simp add: new_block_def builder_new_def)
  then show ?thesis
    unfolding demo_builder_def
    by (rule built_push[of _ TInt "IConst (CInt 7)" 0])
      (simp add: push_const_def push_value_def alloc_value_def switch_to_def new_block_def builder_new_def update_block_def
        arena_get_def)
qed

theorem builder_defines_once_witness:
  "built demo_builder \<and> distinct (defined (kb_blocks demo_builder))"
  using builder_defines_once[OF demo_builder_built] demo_builder_built by blast

end
