(* ===== verification/Merge_Sort.thy ===== *)
theory Merge_Sort
  imports Map_Value "HOL-Library.Sorting_Algorithms"
begin

text \<open>
  The stable merge sort behind \<open>sort\<close> and \<open>sort_by\<close> (\<open>eval/src/interpreter.rs\<close>).  The comparison runs
  interpreted code, so it has a state and may fail; \<open>std::cmp::Ordering\<close> is the library's \<^typ>\<open>comp\<close>.
\<close>

type_synonym ('s, 'e, 'a) cmp_fn = "'a \<Rightarrow> 'a \<Rightarrow> ('s, 'e, comp) eff"

function merge_loop ::
    "('s, 'e, 'a) cmp_fn \<Rightarrow> 'a list \<Rightarrow> 'a list \<Rightarrow> nat \<Rightarrow> nat \<Rightarrow> 'a list \<Rightarrow> ('s, 'e, 'a list) eff" where
  "merge_loop cmp left right i j merged =
     (if i < length left \<and> j < length right then
        andthen (cmp (left ! i) (right ! j))
          (\<lambda>ord. if ord = Greater then merge_loop cmp left right i (j + 1) (merged @ [right ! j])
                 else merge_loop cmp left right (i + 1) j (merged @ [left ! i]))
      else ret (merged @ drop i left @ drop j right))"
  by pat_completeness auto
termination
  by (relation "measure (\<lambda>(_, left, right, i, j, _). (length left - i) + (length right - j))") auto

definition merge_sorted_runs :: "('s, 'e, 'a) cmp_fn \<Rightarrow> 'a list \<Rightarrow> 'a list \<Rightarrow> ('s, 'e, 'a list) eff" where
  "merge_sorted_runs cmp left right = merge_loop cmp left right 0 0 []"

function stable_merge_sort_by :: "('s, 'e, 'a) cmp_fn \<Rightarrow> 'a list \<Rightarrow> ('s, 'e, 'a list) eff" where
  "stable_merge_sort_by cmp items =
     (if length items \<le> 1 then ret items
      else
        let mid = length items div 2
        in andthen (stable_merge_sort_by cmp (take mid items))
             (\<lambda>left. andthen (stable_merge_sort_by cmp (drop mid items))
               (\<lambda>right. merge_sorted_runs cmp left right)))"
  by pat_completeness auto
termination
  by (relation "measure (\<lambda>(_, items). length items)") auto

declare merge_loop.simps [simp del] stable_merge_sort_by.simps [simp del]

end
