(* ===== verification/Sort_Properties.thy ===== *)
theory Sort_Properties
  imports Merge_Sort Map_Value_Correct "HOL-Library.Log_Nat"
begin

text \<open>The merge sort sorts stably, keeps every item, and makes at most \<open>n * \<lceil>log2 n\<rceil>\<close> comparisons.\<close>

section \<open>Result\<close>

lemma drop_less_Cons: "i < length xs \<Longrightarrow> drop i xs = xs ! i # drop (Suc i) xs"
  by (rule Cons_nth_drop_Suc[symmetric])

lemma merge_Nil2: "Sorting_Algorithms.merge c xs [] = xs"
  by (cases xs) (simp_all add: Sorting_Algorithms.merge.simps)

lemma merge_loop_returns:
  assumes "\<And>a b. returns (cmp a b) (compare c a b)"
  shows "returns (merge_loop cmp left right i j merged)
    (merged @ Sorting_Algorithms.merge c (drop i left) (drop j right))"
  using assms
proof (induction cmp left right i j merged rule: merge_loop.induct)
  case (1 cmp left right i j merged)
  show ?case
  proof (cases "i < length left \<and> j < length right")
    case True
    let ?g = "compare c (left ! i) (right ! j) = Greater"
    have "returns (if ?g then merge_loop cmp left right i (j + 1) (merged @ [right ! j])
        else merge_loop cmp left right (i + 1) j (merged @ [left ! i]))
      (merged @ Sorting_Algorithms.merge c (drop i left) (drop j right))"
    proof (cases ?g)
      case g: True
      then show ?thesis
        using "1.IH"(1)[OF True g "1.prems"] True
        by (simp add: drop_less_Cons Sorting_Algorithms.merge.simps)
    next
      case g: False
      then show ?thesis
        using "1.IH"(2)[OF True g "1.prems"] True
        by (simp add: drop_less_Cons Sorting_Algorithms.merge.simps)
    qed
    then show ?thesis
      unfolding merge_loop.simps[of cmp left right i j merged] if_P[OF True]
      by (rule returns_andthen[OF "1.prems"])
  next
    case False
    then have "drop i left = [] \<or> drop j right = []"
      by auto
    then have "Sorting_Algorithms.merge c (drop i left) (drop j right) = drop i left @ drop j right"
      by (auto simp: Sorting_Algorithms.merge.simps merge_Nil2)
    then show ?thesis
      unfolding merge_loop.simps[of cmp left right i j merged] if_not_P[OF False] by (simp add: returns_ret)
  qed
qed

lemma merge_sort_returns:
  assumes "\<And>a b. returns (cmp a b) (compare c a b)"
  shows "returns (stable_merge_sort_by cmp items) (Sorting_Algorithms.sort c items)"
  using assms
proof (induction cmp items rule: stable_merge_sort_by.induct)
  case (1 cmp items)
  show ?case
  proof (cases "length items \<le> 1")
    case True
    then have "Sorting_Algorithms.sort c items = items"
      by (cases items) auto
    then show ?thesis
      using True by (simp add: stable_merge_sort_by.simps[of cmp items] returns_ret)
  next
    case False
    let ?mid = "length items div 2"
    have "returns (merge_sorted_runs cmp (Sorting_Algorithms.sort c (take ?mid items)) (Sorting_Algorithms.sort c (drop ?mid items)))
        (Sorting_Algorithms.sort c items)"
      using merge_loop_returns[OF "1.prems", of _ _ 0 0 "[]"]
      by (simp add: merge_sorted_runs_def sort_by_mergesort_rec[of c items])
    then show ?thesis
      unfolding stable_merge_sort_by.simps[of cmp items] Let_def if_not_P[OF False]
      by (intro returns_andthen[OF "1.IH"(1)[OF False refl "1.prems"]] returns_andthen[OF "1.IH"(2)[OF False refl "1.prems"]])
  qed
qed

section \<open>Every comparison\<close>

text \<open>What holds of the sort whatever the comparison does.\<close>

lemma andthen_SomeE:
  assumes "andthen m f s = Some (Inr y, s'')"
  obtains x s' where "m s = Some (Inr x, s')" "f x s' = Some (Inr y, s'')"
  using assms by (auto simp: andthen_def split: option.splits sum.splits)

lemma merge_loop_perm:
  "merge_loop cmp left right i j merged s = Some (Inr ys, s') \<Longrightarrow>
    mset ys = mset merged + mset (drop i left) + mset (drop j right)"
proof (induction cmp left right i j merged arbitrary: s rule: merge_loop.induct)
  case (1 cmp left right i j merged)
  show ?case
  proof (cases "i < length left \<and> j < length right")
    case True
    obtain ord t where run: "(if ord = Greater then merge_loop cmp left right i (j + 1) (merged @ [right ! j])
        else merge_loop cmp left right (i + 1) j (merged @ [left ! i])) t = Some (Inr ys, s')"
      using "1.prems" unfolding merge_loop.simps[of cmp left right i j merged] if_P[OF True]
      by (rule andthen_SomeE)
    then show ?thesis
      using "1.IH"(1)[OF True, of ord t] "1.IH"(2)[OF True, of ord t] True
      by (cases "ord = Greater") (simp_all add: drop_less_Cons)
  next
    case False
    then show ?thesis
      using "1.prems" unfolding merge_loop.simps[of cmp left right i j merged] if_not_P[OF False]
      by (auto simp: ret_def)
  qed
qed

lemma merge_sort_perm: "stable_merge_sort_by cmp items s = Some (Inr ys, s') \<Longrightarrow> mset ys = mset items"
proof (induction cmp items arbitrary: s s' ys rule: stable_merge_sort_by.induct)
  case (1 cmp items)
  show ?case
  proof (cases "length items \<le> 1")
    case True
    then show ?thesis
      using "1.prems" by (simp add: stable_merge_sort_by.simps[of cmp items] ret_def)
  next
    case False
    let ?mid = "length items div 2"
    obtain l t where l: "stable_merge_sort_by cmp (take ?mid items) s = Some (Inr l, t)"
      and rest: "andthen (stable_merge_sort_by cmp (drop ?mid items)) (merge_sorted_runs cmp l) t = Some (Inr ys, s')"
      using "1.prems" unfolding stable_merge_sort_by.simps[of cmp items] Let_def if_not_P[OF False]
      by (rule andthen_SomeE)
    obtain r u where r: "stable_merge_sort_by cmp (drop ?mid items) t = Some (Inr r, u)"
      and m: "merge_sorted_runs cmp l r u = Some (Inr ys, s')"
      using rest by (rule andthen_SomeE)
    have "mset ys = mset (take ?mid items) + mset (drop ?mid items)"
      using "1.IH"(1)[OF False refl l] "1.IH"(2)[OF False refl r] merge_loop_perm[OF m[unfolded merge_sorted_runs_def]]
      by simp
    then show ?thesis
      by (simp flip: mset_append)
  qed
qed

section \<open>Number of comparisons\<close>

text \<open>A comparison that counts itself.\<close>

definition counting :: "('a \<Rightarrow> 'a \<Rightarrow> comp) \<Rightarrow> (nat, unit, 'a) cmp_fn" where
  "counting f a b = (\<lambda>n. Some (Inr (f a b), Suc n))"

lemma merge_loop_count:
  "\<exists>ys m. merge_loop (counting f) left right i j merged n = Some (Inr ys, m) \<and>
     m \<le> n + (if i < length left \<and> j < length right then (length left - i) + (length right - j) - 1 else 0)"
proof (induction "(length left - i) + (length right - j)" arbitrary: i j merged n rule: less_induct)
  case less
  show ?case
  proof (cases "i < length left \<and> j < length right")
    case True
    have lt: "(length left - i) + (length right - (j + 1)) < (length left - i) + (length right - j)"
        "(length left - (i + 1)) + (length right - j) < (length left - i) + (length right - j)"
      using True by linarith+
    obtain ys m where right: "merge_loop (counting f) left right i (j + 1) (merged @ [right ! j]) (Suc n) = Some (Inr ys, m)"
        "m \<le> Suc n + (if i < length left \<and> j + 1 < length right then (length left - i) + (length right - (j + 1)) - 1 else 0)"
      using less.hyps[OF lt(1), of "merged @ [right ! j]" "Suc n"] by blast
    obtain zs k where left: "merge_loop (counting f) left right (i + 1) j (merged @ [left ! i]) (Suc n) = Some (Inr zs, k)"
        "k \<le> Suc n + (if i + 1 < length left \<and> j < length right then (length left - (i + 1)) + (length right - j) - 1 else 0)"
      using less.hyps[OF lt(2), of "merged @ [left ! i]" "Suc n"] by blast
    have "m \<le> n + ((length left - i) + (length right - j) - 1)" "k \<le> n + ((length left - i) + (length right - j) - 1)"
      using left(2) right(2) True by (auto split: if_splits)
    then show ?thesis
      unfolding merge_loop.simps[of "counting f" left right i j merged] if_P[OF True]
      using left(1) right(1) True by (simp add: andthen_def counting_def)
  next
    case False
    then show ?thesis
      unfolding merge_loop.simps[of "counting f" left right i j merged] by (auto simp: ret_def)
  qed
qed

lemma merge_sort_count:
  "\<exists>ys m. stable_merge_sort_by (counting f) items n = Some (Inr ys, m) \<and> length ys = length items \<and>
     m \<le> n + length items * ceillog2 (length items)"
proof (induction "length items" arbitrary: items n rule: less_induct)
  case less
  show ?case
  proof (cases "length items \<le> 1")
    case True
    then show ?thesis
      by (simp add: stable_merge_sort_by.simps[of _ items] ret_def)
  next
    case False
    let ?k = "length items" and ?mid = "length items div 2"
    let ?l = "ceillog2 ((?k + 1) div 2)"
    have log: "ceillog2 ?k = ?l + 1" "ceillog2 ?mid \<le> ?l"
      using False ceillog2_rec[of ?k] ceillog2_mono[of ?mid "(?k + 1) div 2"] by simp_all
    have lt: "length (take ?mid items) < ?k" "length (drop ?mid items) < ?k"
      using False by auto
    obtain l m1 where l: "stable_merge_sort_by (counting f) (take ?mid items) n = Some (Inr l, m1)" "length l = ?mid"
      "m1 \<le> n + ?mid * ceillog2 ?mid"
      using less.hyps[of "take ?mid items", OF lt(1), of n] by auto
    obtain r m2 where r: "stable_merge_sort_by (counting f) (drop ?mid items) m1 = Some (Inr r, m2)" "length r = ?k - ?mid"
      "m2 \<le> m1 + (?k - ?mid) * ceillog2 (?k - ?mid)"
      using less.hyps[of "drop ?mid items", OF lt(2), of m1] by auto
    obtain ys m where m: "merge_sorted_runs (counting f) l r m2 = Some (Inr ys, m)" "m \<le> m2 + (?k - 1)"
      using merge_loop_count[of f l r 0 0 "[]" m2] l(2) r(2) by (fastforce simp: merge_sorted_runs_def split: if_splits)
    have run: "stable_merge_sort_by (counting f) items n = Some (Inr ys, m)"
      unfolding stable_merge_sort_by.simps[of _ items] Let_def if_not_P[OF False]
      using l r m by (simp add: andthen_def)
    have half: "?k - ?mid = (?k + 1) div 2"
      by linarith
    have "?mid * ceillog2 ?mid \<le> ?mid * ?l"
      using log(2) by (rule mult_le_mono2)
    then have "m \<le> n + ?mid * ?l + (?k - ?mid) * ?l + (?k - 1)"
      using l(3) r(3) m(2) unfolding half by linarith
    also have "\<dots> = n + ?k * ?l + (?k - 1)"
      by (simp flip: add_mult_distrib)
    also have "\<dots> \<le> n + ?k * ceillog2 ?k"
      by (simp add: log(1))
    finally show ?thesis
      using run merge_sort_perm[OF run] by (metis size_mset)
  qed
qed

section \<open>Properties\<close>

text \<open>
  C36. When the comparison always returns and agrees with a total preorder, \<open>stable_merge_sort_by\<close>
  returns the list in ascending order with equal items in their original order, which is what the
  library's stable sort specifies.
\<close>

theorem merge_sort_stable:
  assumes "\<And>a b. returns (cmp a b) (compare c a b)"
  shows "returns (stable_merge_sort_by cmp items) (Sorting_Algorithms.sort c items)"
  using assms by (rule merge_sort_returns)

definition demo_compare :: "(unit, unit, nat) cmp_fn" where
  "demo_compare a b = (\<lambda>s. Some (Inr (compare default a b), s))"

theorem merge_sort_stable_witness: "returns (stable_merge_sort_by demo_compare [3, 1, 2]) [1, 2, 3]"
proof -
  have "Sorting_Algorithms.sort (default :: nat comparator) [3, 1, 2] = [1, 2, 3]"
    by simp
  then show ?thesis
    using merge_sort_stable[of demo_compare default "[3, 1, 2]"] by (simp add: demo_compare_def returns_def)
qed

text \<open>
  Sorting a list of \<open>n\<close> items with a comparison that does not fail compares at most
  \<open>n * \<lceil>log2 n\<rceil>\<close> times and keeps every item, whatever the comparison answers: a comparison that counts
  its calls ends with at most so many.
\<close>

theorem merge_sort_comparisons:
  "\<exists>ys m. stable_merge_sort_by (counting f) items 0 = Some (Inr ys, m) \<and> mset ys = mset items \<and>
     m \<le> length items * ceillog2 (length items)"
proof -
  obtain ys m where "stable_merge_sort_by (counting f) items 0 = Some (Inr ys, m)" "m \<le> length items * ceillog2 (length items)"
    using merge_sort_count[of f items 0] by auto
  then show ?thesis
    using merge_sort_perm[of "counting f" items 0 ys m] by blast
qed

end
