(* ===== verification/Priority_Queue.thy ===== *)
theory Priority_Queue
  imports Map_Value
begin

text \<open>
  Mutable priority queues: the data of \<open>eval/src/value.rs\<close> and the operations of
  \<open>eval/src/interpreter.rs\<close>, a binary heap in a vector.  Priorities are compared by
  \<open>trait_compare_values\<close>, which may run interpreted code.  The queue is borrowed for the whole
  operation, so it is the part of the state that the comparison cannot touch; a comparison that
  fails leaves the queue as it is at that moment.
\<close>

datatype PriorityQueueDirection = DirMin | DirMax

record PriorityQueueEntry =
  pq_priority :: Value
  pq_value :: Value
  pq_seq :: "64 word"

record MutablePriorityQueueValue =
  pq_direction :: PriorityQueueDirection
  pq_next_seq :: "64 word"
  pq_entries :: "PriorityQueueEntry list"

definition priority_queue_new :: "PriorityQueueDirection \<Rightarrow> MutablePriorityQueueValue" where
  "priority_queue_new direction = \<lparr>pq_direction = direction, pq_next_seq = 0, pq_entries = []\<rparr>"

type_synonym ('s, 'e) compare_fn = "Value \<Rightarrow> Value \<Rightarrow> ('s, 'e, 64 word) eff"

definition priority_queue_is_better ::
    "('s, 'e) compare_fn \<Rightarrow> PriorityQueueDirection \<Rightarrow> PriorityQueueEntry \<Rightarrow> PriorityQueueEntry \<Rightarrow> ('s, 'e, bool) eff" where
  "priority_queue_is_better cmp direction lhs rhs =
     andthen (cmp (pq_priority lhs) (pq_priority rhs))
       (\<lambda>ord. ret (if ord \<noteq> 0 then (case direction of DirMin \<Rightarrow> sint ord < 0 | DirMax \<Rightarrow> 0 < sint ord)
                   else pq_seq lhs < pq_seq rhs))"

text \<open>A comparison of two entries of the borrowed queue, and the changes of the queue.\<close>

type_synonym ('s, 'e, 'a) queue_eff = "('s \<times> MutablePriorityQueueValue, 'e, 'a) eff"

definition better_at :: "('s, 'e) compare_fn \<Rightarrow> nat \<Rightarrow> nat \<Rightarrow> ('s, 'e, bool) queue_eff" where
  "better_at cmp i j = (\<lambda>(s, q).
     map_option (\<lambda>(r, s'). (r, s', q))
       (priority_queue_is_better cmp (pq_direction q) (pq_entries q ! i) (pq_entries q ! j) s))"

definition change :: "(PriorityQueueEntry list \<Rightarrow> PriorityQueueEntry list) \<Rightarrow> ('s, 'e, unit) queue_eff" where
  "change f = (\<lambda>(s, q). Some (Inr (), s, q\<lparr>pq_entries := f (pq_entries q)\<rparr>))"

definition swap_at :: "nat \<Rightarrow> nat \<Rightarrow> 'a list \<Rightarrow> 'a list" where
  "swap_at i j xs = xs[i := xs ! j, j := xs ! i]"

function priority_queue_bubble_up :: "('s, 'e) compare_fn \<Rightarrow> nat \<Rightarrow> ('s, 'e, unit) queue_eff" where
  "priority_queue_bubble_up cmp idx =
     (if 0 < idx then
        let parent = (idx - 1) div 2
        in andthen (better_at cmp idx parent)
             (\<lambda>b. if \<not> b then ret ()
                  else andthen (change (swap_at idx parent)) (\<lambda>_. priority_queue_bubble_up cmp parent))
      else ret ())"
  by pat_completeness auto
termination
  by (relation "measure snd") auto

function bubble_down_loop :: "('s, 'e) compare_fn \<Rightarrow> nat \<Rightarrow> nat \<Rightarrow> ('s, 'e, unit) queue_eff" where
  "bubble_down_loop cmp len idx =
     (let left = idx * 2 + 1; right = left + 1
      in if len \<le> left then ret ()
         else
           andthen (if right < len then better_at cmp right left else ret False)
             (\<lambda>r. let best = (if r then right else left)
                  in andthen (better_at cmp best idx)
                       (\<lambda>b. if \<not> b then ret ()
                            else andthen (change (swap_at idx best)) (\<lambda>_. bubble_down_loop cmp len best))))"
  by pat_completeness auto
termination
  by (relation "measure (\<lambda>(_, len, idx). len - idx)") (auto simp: Let_def)

definition priority_queue_bubble_down :: "('s, 'e) compare_fn \<Rightarrow> nat \<Rightarrow> ('s, 'e, unit) queue_eff" where
  "priority_queue_bubble_down cmp idx = (\<lambda>(s, q). bubble_down_loop cmp (length (pq_entries q)) idx (s, q))"

declare priority_queue_bubble_up.simps [simp del] bubble_down_loop.simps [simp del]

definition priority_queue_push :: "('s, 'e) compare_fn \<Rightarrow> Value \<Rightarrow> Value \<Rightarrow> ('s, 'e, unit) queue_eff" where
  "priority_queue_push cmp priority val = (\<lambda>(s, q).
     let q1 = q\<lparr>pq_next_seq := pq_next_seq q + 1,
                pq_entries := pq_entries q @ [\<lparr>pq_priority = priority, pq_value = val, pq_seq = pq_next_seq q\<rparr>]\<rparr>
     in priority_queue_bubble_up cmp (length (pq_entries q1) - 1) (s, q1))"

definition priority_queue_peek :: "('s, 'e, PriorityQueueEntry option) queue_eff" where
  "priority_queue_peek = (\<lambda>(s, q).
     Some (Inr (case pq_entries q of [] \<Rightarrow> None | e # _ \<Rightarrow> Some e), s, q))"

definition priority_queue_pop :: "('s, 'e) compare_fn \<Rightarrow> ('s, 'e, PriorityQueueEntry option) queue_eff" where
  "priority_queue_pop cmp = (\<lambda>(s, q).
     if pq_entries q = [] then Some (Inr None, s, q)
     else
       let lst = last (pq_entries q); rest = butlast (pq_entries q)
       in if rest = [] then Some (Inr (Some lst), s, q\<lparr>pq_entries := rest\<rparr>)
          else
            let root = hd rest
            in andthen (priority_queue_bubble_down cmp 0) (\<lambda>_. ret (Some root)) (s, q\<lparr>pq_entries := rest[0 := lst]\<rparr>))"

definition priority_queue_make_payload :: "Name \<Rightarrow> Name \<Rightarrow> PriorityQueueEntry \<Rightarrow> Value" where
  "priority_queue_make_payload priority_name value_name entry =
     VRecord [(priority_name, pq_priority entry), (value_name, pq_value entry)] None"

end
