(* ===== verification/Queue_Properties.thy ===== *)
theory Queue_Properties
  imports Priority_Queue Map_Value_Correct "HOL-Library.Sorting_Algorithms"
begin

text \<open>
  The priority queue against its specification: a list in the order in which items leave, where a new
  item goes behind all items of the same or a better priority.
\<close>

section \<open>Binary heaps over an order\<close>

locale heap_order =
  fixes lt :: "'a \<Rightarrow> 'a \<Rightarrow> bool"
  assumes asym: "lt a b \<Longrightarrow> \<not> lt b a"
    and not_less_trans: "\<not> lt b a \<Longrightarrow> \<not> lt c b \<Longrightarrow> \<not> lt c a"
begin

abbreviation parent :: "nat \<Rightarrow> nat" where
  "parent i \<equiv> (i - 1) div 2"

definition heap_except :: "nat set \<Rightarrow> 'a list \<Rightarrow> bool" where
  "heap_except X xs \<longleftrightarrow> (\<forall>i<length xs. 0 < i \<longrightarrow> i \<notin> X \<longrightarrow> \<not> lt (xs ! i) (xs ! parent i))"

abbreviation heap :: "'a list \<Rightarrow> bool" where
  "heap \<equiv> heap_except {}"

lemma heap_root: "heap xs \<Longrightarrow> i < length xs \<Longrightarrow> \<not> lt (xs ! i) (xs ! 0)"
proof (induction i rule: less_induct)
  case (less i)
  show ?case
  proof (cases "i = 0")
    case True
    then show ?thesis
      using asym by blast
  next
    case False
    then have p: "parent i < i"
      by linarith
    have "\<not> lt (xs ! i) (xs ! parent i)"
      using less.prems False by (simp add: heap_except_def)
    then show ?thesis
      using less.prems p by (intro not_less_trans[OF less.IH[OF p]]) simp_all
  qed
qed

function up :: "'a list \<Rightarrow> nat \<Rightarrow> 'a list" where
  "up xs i = (if 0 < i \<and> lt (xs ! i) (xs ! parent i) then up (swap_at i (parent i) xs) (parent i) else xs)"
  by pat_completeness auto
termination
  by (relation "measure snd") auto

function down :: "nat \<Rightarrow> 'a list \<Rightarrow> nat \<Rightarrow> 'a list" where
  "down len xs i =
     (let l = i * 2 + 1; best = (if l + 1 < len \<and> lt (xs ! (l + 1)) (xs ! l) then l + 1 else l)
      in if l < len \<and> lt (xs ! best) (xs ! i) then down len (swap_at i best xs) best else xs)"
  by pat_completeness auto
termination
  by (relation "measure (\<lambda>(len, _, i). len - i)") (auto simp: Let_def)

declare up.simps [simp del] down.simps [simp del]

end

lemma length_swap_at [simp]: "length (swap_at i j xs) = length xs"
  by (simp add: swap_at_def)

lemma mset_swap_at: "i < length xs \<Longrightarrow> j < length xs \<Longrightarrow> mset (swap_at i j xs) = mset xs"
  by (simp add: swap_at_def mset_swap)

lemma nth_swap_at:
  "i < length xs \<Longrightarrow> j < length xs \<Longrightarrow> k < length xs \<Longrightarrow>
    swap_at i j xs ! k = (if k = j then xs ! i else if k = i then xs ! j else xs ! k)"
  by (simp add: swap_at_def nth_list_update)

context heap_order
begin

text \<open>Only \<open>i\<close> may be better than its parent, and its children are not better than its parent.\<close>

definition up_inv :: "'a list \<Rightarrow> nat \<Rightarrow> bool" where
  "up_inv xs i \<longleftrightarrow> i < length xs \<and> heap_except {i} xs \<and>
     (\<forall>k<length xs. 0 < i \<longrightarrow> 0 < k \<longrightarrow> parent k = i \<longrightarrow> \<not> lt (xs ! k) (xs ! parent i))"

lemma up_inv_swap:
  assumes "up_inv xs i" "0 < i" "lt (xs ! i) (xs ! parent i)"
  shows "up_inv (swap_at i (parent i) xs) (parent i)"
proof -
  let ?p = "parent i" and ?ys = "swap_at i (parent i) xs"
  have i: "i < length xs" "?p < i"
    using assms by (auto simp: up_inv_def)
  have ys: "?ys ! k = (if k = ?p then xs ! i else if k = i then xs ! ?p else xs ! k)" if "k < length xs" for k
    using nth_swap_at[of i xs ?p k] that i by simp
  have old: "\<not> lt (xs ! k) (xs ! parent k)" if "k < length xs" "0 < k" "k \<noteq> i" for k
    using assms(1) that by (simp add: up_inv_def heap_except_def)
  have "\<not> lt (?ys ! k) (?ys ! parent k)" if k: "k < length xs" "0 < k" "k \<noteq> ?p" for k
  proof -
    have pk: "parent k < length xs" "parent k < k"
      using k by linarith+
    consider "k = i" | "k \<noteq> i" "parent k = i" | "k \<noteq> i" "parent k = ?p" | "k \<noteq> i" "parent k \<noteq> i" "parent k \<noteq> ?p"
      by blast
    then show ?thesis
    proof cases
      case 1
      then show ?thesis
        using asym[OF assms(3)] ys[of i] ys[of ?p] i by simp
    next
      case 2
      then show ?thesis
        using assms(1,2) k ys[of k] ys[of i] i by (simp add: up_inv_def)
    next
      case 3
      then have "\<not> lt (xs ! k) (xs ! ?p)"
        using old[of k] k by simp
      then have "\<not> lt (xs ! k) (xs ! i)"
        using asym[OF assms(3)] not_less_trans by blast
      then show ?thesis
        using 3 ys[of k] ys[of ?p] k i by simp
    next
      case 4
      then show ?thesis
        using old[of k] ys[of k] ys[of "parent k"] k pk by simp
    qed
  qed
  moreover have "\<not> lt (?ys ! k) (?ys ! parent ?p)" if k: "k < length xs" "0 < ?p" "0 < k" "parent k = ?p" for k
  proof -
    have pp: "parent ?p < ?p"
      using k(2) by linarith
    have root: "\<not> lt (xs ! ?p) (xs ! parent ?p)"
      using old[of ?p] i k(2) by simp
    have "\<not> lt (xs ! k) (xs ! parent ?p)" if "k \<noteq> i"
      using old[of k] root not_less_trans that k by metis
    then show ?thesis
      using ys[of k] ys[of "parent ?p"] root k i pp by auto
  qed
  ultimately show ?thesis
    using i by (auto simp: up_inv_def heap_except_def)
qed

lemma up_correct: "up_inv xs i \<Longrightarrow> heap (up xs i) \<and> mset (up xs i) = mset xs"
proof (induction xs i rule: up.induct)
  case (1 xs i)
  show ?case
  proof (cases "0 < i \<and> lt (xs ! i) (xs ! parent i)")
    case True
    moreover have "i < length xs" "parent i < length xs"
      using "1.prems" by (auto simp: up_inv_def)
    ultimately show ?thesis
      using "1.IH"[OF True up_inv_swap[OF "1.prems"]] by (simp add: up.simps[of xs i] mset_swap_at)
  next
    case False
    then have "heap xs"
      using "1.prems" by (auto simp: up_inv_def heap_except_def)
    then show ?thesis
      unfolding up.simps[of xs i] if_not_P[OF False] by simp
  qed
qed

lemma up_inv_snoc: "heap xs \<Longrightarrow> up_inv (xs @ [x]) (length xs)"
  unfolding up_inv_def heap_except_def
proof (intro conjI allI impI)
  fix k
  assume k: "k < length (xs @ [x])" "0 < length xs" "0 < k" "parent k = length xs"
  then have "parent k < k"
    by linarith
  then show "\<not> lt ((xs @ [x]) ! k) ((xs @ [x]) ! parent (length xs))"
    using k by simp
qed (auto simp: nth_append less_Suc_eq)

text \<open>Only the children of \<open>i\<close> may be better than their parent, and they are not better than the parent of \<open>i\<close>.\<close>

definition down_inv :: "'a list \<Rightarrow> nat \<Rightarrow> bool" where
  "down_inv xs i \<longleftrightarrow> i < length xs \<and> heap_except {k. parent k = i} xs \<and>
     (\<forall>k<length xs. 0 < i \<longrightarrow> 0 < k \<longrightarrow> parent k = i \<longrightarrow> \<not> lt (xs ! k) (xs ! parent i))"

lemma down_inv_swap:
  assumes inv: "down_inv xs i" and b: "b < length xs" "0 < b" "parent b = i" "lt (xs ! b) (xs ! i)"
    and best: "\<And>k. k < length xs \<Longrightarrow> 0 < k \<Longrightarrow> parent k = i \<Longrightarrow> \<not> lt (xs ! k) (xs ! b)"
  shows "down_inv (swap_at i b xs) b"
proof -
  let ?ys = "swap_at i b xs"
  have i: "i < length xs" "i < b"
    using inv b by (auto simp: down_inv_def)
  have ys: "?ys ! k = (if k = b then xs ! i else if k = i then xs ! b else xs ! k)" if "k < length xs" for k
    using nth_swap_at[of i xs b k] that i b by simp
  have old: "\<not> lt (xs ! k) (xs ! parent k)" if "k < length xs" "0 < k" "parent k \<noteq> i" for k
    using inv that by (simp add: down_inv_def heap_except_def)
  have "\<not> lt (?ys ! k) (?ys ! parent k)" if k: "k < length xs" "0 < k" "parent k \<noteq> b" for k
  proof -
    have pk: "parent k < length xs" "parent k < k"
      using k by linarith+
    consider "k = i" | "k \<noteq> i" "parent k = i" | "k \<noteq> i" "parent k \<noteq> i"
      by blast
    then show ?thesis
    proof cases
      case 1
      then have "\<not> lt (xs ! b) (xs ! parent i)" "parent i \<noteq> i" "parent i \<noteq> b"
        using inv b k pk i by (auto simp: down_inv_def)
      then show ?thesis
        using 1 ys[of i] ys[of "parent i"] i pk by simp
    next
      case 2
      then show ?thesis
        using best[of k] asym[OF b(4)] ys[of k] ys[of i] k i by auto
    next
      case 3
      then show ?thesis
        using old[of k] ys[of k] ys[of "parent k"] k pk b by auto
    qed
  qed
  moreover have "\<not> lt (?ys ! k) (?ys ! parent b)" if k: "k < length xs" "0 < k" "parent k = b" for k
  proof -
    have "parent k < k"
      using k by linarith
    then show ?thesis
      using old[of k] ys[of k] ys[of i] k i b by auto
  qed
  ultimately show ?thesis
    using b by (auto simp: down_inv_def heap_except_def)
qed

lemma children: "0 < k \<Longrightarrow> parent k = i \<longleftrightarrow> k = i * 2 + 1 \<or> k = i * 2 + 2"
  by auto

lemma irrefl: "\<not> lt a a"
  using asym by blast

lemma best_child:
  assumes "k < length xs" "0 < k" "parent k = i"
  shows "\<not> lt (xs ! k) (xs ! (if i * 2 + 1 + 1 < length xs \<and> lt (xs ! (i * 2 + 1 + 1)) (xs ! (i * 2 + 1))
    then i * 2 + 1 + 1 else i * 2 + 1))"
proof -
  consider "k = i * 2 + 1" | "k = i * 2 + 2"
    using assms children by blast
  then show ?thesis
    using assms(1) by cases (simp_all add: irrefl asym)
qed

lemma down_correct: "len = length xs \<Longrightarrow> down_inv xs i \<Longrightarrow> heap (down len xs i) \<and> mset (down len xs i) = mset xs"
proof (induction len xs i rule: down.induct)
  case (1 len xs i)
  let ?l = "i * 2 + 1"
  let ?b = "if ?l + 1 < len \<and> lt (xs ! (?l + 1)) (xs ! ?l) then ?l + 1 else ?l"
  show ?case
  proof (cases "?l < len \<and> lt (xs ! ?b) (xs ! i)")
    case True
    have b: "?b < length xs" "0 < ?b" "parent ?b = i"
      using True "1.prems"(1) by auto
    have inv: "down_inv (swap_at i ?b xs) ?b"
      using conjunct2[OF True] unfolding "1.prems"(1)
      by (intro down_inv_swap[OF "1.prems"(2) b[unfolded "1.prems"(1)]] best_child)
    have "down len xs i = down len (swap_at i ?b xs) ?b"
      unfolding down.simps[of len xs i] Let_def if_P[OF True] ..
    then show ?thesis
      using "1.IH"[OF refl refl True _ inv] b(1) "1.prems" by (simp add: mset_swap_at down_inv_def)
  next
    case False
    have "\<not> lt (xs ! k) (xs ! i)" if k: "k < length xs" "0 < k" "parent k = i" for k
    proof -
      have "\<not> lt (xs ! ?b) (xs ! i)"
        using False k children[of k i] "1.prems"(1) by auto
      moreover have "\<not> lt (xs ! k) (xs ! ?b)"
        using k unfolding "1.prems"(1) by (rule best_child)
      ultimately show ?thesis
        by (rule not_less_trans)
    qed
    then have "heap xs"
      using "1.prems" by (auto simp: down_inv_def heap_except_def)
    then show ?thesis
      unfolding down.simps[of len xs i] Let_def if_not_P[OF False] by simp
  qed
qed

lemma down_inv_replace_root:
  assumes "heap xs" "butlast xs \<noteq> []"
  shows "down_inv ((butlast xs)[0 := x]) 0"
proof -
  have "\<not> lt ((butlast xs)[0 := x] ! k) ((butlast xs)[0 := x] ! parent k)"
    if "k < length xs - 1" "0 < k" "parent k \<noteq> 0" for k
  proof -
    have "parent k < length xs - 1"
      using that by linarith
    then show ?thesis
      using assms(1) that by (simp add: heap_except_def nth_butlast)
  qed
  then show ?thesis
    using assms(2) length_greater_0_conv[of "butlast xs"] by (simp add: down_inv_def heap_except_def)
qed

end

section \<open>The order of entries\<close>

definition entry_less :: "PriorityQueueDirection \<Rightarrow> Value comparator \<Rightarrow> PriorityQueueEntry \<Rightarrow> PriorityQueueEntry \<Rightarrow> bool" where
  "entry_less dir c a b \<longleftrightarrow>
     (case compare c (pq_priority a) (pq_priority b) of
        Less \<Rightarrow> dir = DirMin | Greater \<Rightarrow> dir = DirMax | Equiv \<Rightarrow> pq_seq a < pq_seq b)"

text \<open>The direction turned into the comparator.\<close>

definition directed :: "PriorityQueueDirection \<Rightarrow> Value comparator \<Rightarrow> Value comparator" where
  "directed dir c = (case dir of DirMin \<Rightarrow> c | DirMax \<Rightarrow> reversed c)"

lemma compare_flip:
  "compare c b a = (case compare c a b of Less \<Rightarrow> Greater | Greater \<Rightarrow> Less | Equiv \<Rightarrow> Equiv)"
proof (cases "compare c a b")
  case Less
  then show ?thesis
    using compare.greater_iff_sym_less[of c b a] by simp
next
  case Equiv
  then show ?thesis
    using compare.sym[of c b a] by simp
next
  case Greater
  then show ?thesis
    using compare.greater_iff_sym_less[of c a b] by simp
qed

lemma entry_less_directed:
  "entry_less dir c a b \<longleftrightarrow> compare (directed dir c) (pq_priority a) (pq_priority b) = Less \<or>
     compare (directed dir c) (pq_priority a) (pq_priority b) = Equiv \<and> pq_seq a < pq_seq b"
  by (cases dir; cases "compare c (pq_priority a) (pq_priority b)")
    (simp_all add: entry_less_def directed_def compare_flip[of c "pq_priority b" "pq_priority a"])

lemma not_entry_less:
  "\<not> entry_less dir c a b \<longleftrightarrow> compare (directed dir c) (pq_priority b) (pq_priority a) = Less \<or>
     compare (directed dir c) (pq_priority b) (pq_priority a) = Equiv \<and> pq_seq b \<le> pq_seq a"
  unfolding entry_less_directed compare_flip[of _ "pq_priority b" "pq_priority a"]
  by (cases "compare (directed dir c) (pq_priority a) (pq_priority b)") (simp_all add: not_less)

interpretation entries: heap_order "entry_less dir c" for dir c
proof
  fix a b d
  show "entry_less dir c a b \<Longrightarrow> \<not> entry_less dir c b a"
    unfolding not_entry_less[of dir c b a] entry_less_directed[of dir c a b] by (auto intro: less_imp_le)
  show "\<not> entry_less dir c b a \<Longrightarrow> \<not> entry_less dir c d b \<Longrightarrow> \<not> entry_less dir c d a"
    unfolding not_entry_less
    by (auto intro: compare.trans_less compare.trans_equiv compare.trans_equiv_less compare.trans_less_equiv)
qed

section \<open>The operations on the heap\<close>

text \<open>A comparison that always returns, with the sign of a total preorder of the priorities.\<close>

definition agrees :: "('s, 'e) compare_fn \<Rightarrow> Value comparator \<Rightarrow> bool" where
  "agrees cmp c \<longleftrightarrow> (\<forall>a b s. \<exists>w s'. cmp a b s = Some (Inr w, s') \<and>
     (sint w < 0 \<longleftrightarrow> compare c a b = Less) \<and> (0 < sint w \<longleftrightarrow> compare c a b = Greater))"

lemma is_better_agrees:
  assumes "agrees cmp c"
  shows "\<exists>s'. priority_queue_is_better cmp dir a b s = Some (Inr (entry_less dir c a b), s')"
proof -
  obtain w s' where w: "cmp (pq_priority a) (pq_priority b) s = Some (Inr w, s')"
    "sint w < 0 \<longleftrightarrow> compare c (pq_priority a) (pq_priority b) = Less"
    "0 < sint w \<longleftrightarrow> compare c (pq_priority a) (pq_priority b) = Greater"
    using assms unfolding agrees_def by blast
  have "w = 0 \<longleftrightarrow> sint w = 0"
    by (metis signed_0 signed_word_eqI)
  then show ?thesis
    using w by (cases "compare c (pq_priority a) (pq_priority b)"; cases dir)
      (auto simp: priority_queue_is_better_def andthen_def ret_def entry_less_def)
qed

lemma better_at_agrees:
  assumes "agrees cmp c"
  shows "\<exists>s'. better_at cmp i j (s, q) =
    Some (Inr (entry_less (pq_direction q) c (pq_entries q ! i) (pq_entries q ! j)), s', q)"
  using is_better_agrees[OF assms, of "pq_direction q" "pq_entries q ! i" "pq_entries q ! j" s]
  by (auto simp: better_at_def)

lemma bubble_up_agrees:
  assumes "agrees cmp c"
  shows "\<exists>s'. priority_queue_bubble_up cmp i (s, q) =
    Some (Inr (), s', q\<lparr>pq_entries := entries.up (pq_direction q) c (pq_entries q) i\<rparr>)"
proof (induction i arbitrary: s q rule: less_induct)
  case (less i)
  show ?case
  proof (cases "0 < i")
    case True
    let ?p = "(i - 1) div 2" and ?b = "entry_less (pq_direction q) c (pq_entries q ! i) (pq_entries q ! ((i - 1) div 2))"
    obtain s1 where s1: "better_at cmp i ?p (s, q) = Some (Inr ?b, s1, q)"
      using better_at_agrees[OF assms, of i ?p s q] by blast
    have run: "priority_queue_bubble_up cmp i (s, q) =
        (if ?b then priority_queue_bubble_up cmp ?p (s1, q\<lparr>pq_entries := swap_at i ?p (pq_entries q)\<rparr>) else Some (Inr (), s1, q))"
      using True s1 by (simp add: priority_queue_bubble_up.simps[of cmp i] Let_def andthen_def ret_def change_def)
    have "?p < i"
      using True by linarith
    from less.IH[OF this, of s1 "q\<lparr>pq_entries := swap_at i ?p (pq_entries q)\<rparr>"] show ?thesis
      using True unfolding run entries.up.simps[of _ _ "pq_entries q" i] by auto
  next
    case False
    then show ?thesis
      unfolding priority_queue_bubble_up.simps[of cmp i] entries.up.simps[of _ _ "pq_entries q" i] by (simp add: ret_def)
  qed
qed

lemma bubble_down_agrees:
  assumes "agrees cmp c"
  shows "\<exists>s'. bubble_down_loop cmp len i (s, q) =
    Some (Inr (), s', q\<lparr>pq_entries := entries.down (pq_direction q) c len (pq_entries q) i\<rparr>)"
proof (induction "len - i" arbitrary: i s q rule: less_induct)
  case less
  let ?l = "i * 2 + 1" and ?lt = "entry_less (pq_direction q) c" and ?es = "pq_entries q"
  show ?case
  proof (cases "?l < len")
    case True
    let ?r = "?l + 1 < len \<and> ?lt (?es ! (?l + 1)) (?es ! ?l)"
    let ?b = "if ?r then ?l + 1 else ?l"
    obtain s1 where s1: "(if ?l + 1 < len then better_at cmp (?l + 1) ?l else ret False) (s, q) = Some (Inr ?r, s1, q)"
      using better_at_agrees[OF assms, of "?l + 1" ?l s q] by (cases "?l + 1 < len") (auto simp: ret_def)
    obtain s2 where s2: "better_at cmp ?b i (s1, q) = Some (Inr (?lt (?es ! ?b) (?es ! i)), s2, q)"
      using better_at_agrees[OF assms, of ?b i s1 q] by blast
    have run: "bubble_down_loop cmp len i (s, q) =
        (if ?lt (?es ! ?b) (?es ! i) then bubble_down_loop cmp len ?b (s2, q\<lparr>pq_entries := swap_at i ?b ?es\<rparr>)
         else Some (Inr (), s2, q))"
      unfolding bubble_down_loop.simps[of cmp len i] Let_def
      using True s1 s2 by (simp add: andthen_def ret_def change_def)
    have "len - ?b < len - i"
      using True by auto
    from less.hyps[OF this, of s2 "q\<lparr>pq_entries := swap_at i ?b ?es\<rparr>"] show ?thesis
      unfolding run entries.down.simps[of _ _ len ?es i] Let_def using True by auto
  next
    case False
    then show ?thesis
      unfolding bubble_down_loop.simps[of cmp len i] entries.down.simps[of _ _ len ?es i] by (simp add: Let_def ret_def)
  qed
qed

section \<open>The specification\<close>

datatype QueueOp = QPush Value Value | QPeek | QPop

text \<open>The waiting items in the order in which they leave.\<close>

fun spec_step :: "Value comparator \<Rightarrow> QueueOp \<Rightarrow> (Value \<times> Value) list \<Rightarrow> (Value \<times> Value) option \<times> (Value \<times> Value) list" where
  "spec_step c (QPush p v) q =
     (None, takeWhile (\<lambda>x. compare c p (fst x) \<noteq> Less) q @ (p, v) # dropWhile (\<lambda>x. compare c p (fst x) \<noteq> Less) q)"
| "spec_step c QPeek q = (case q of [] \<Rightarrow> None | x # _ \<Rightarrow> Some x, q)"
| "spec_step c QPop q = (case q of [] \<Rightarrow> (None, []) | x # xs \<Rightarrow> (Some x, xs))"

fun spec_run :: "Value comparator \<Rightarrow> QueueOp list \<Rightarrow> (Value \<times> Value) list \<Rightarrow> (Value \<times> Value) option list" where
  "spec_run c [] q = []"
| "spec_run c (op # ops) q = (let (out, q') = spec_step c op q in out # spec_run c ops q')"

text \<open>The same operations on the queue itself.\<close>

definition payload :: "PriorityQueueEntry \<Rightarrow> Value \<times> Value" where
  "payload e = (pq_priority e, pq_value e)"

fun queue_step :: "('s, 'e) compare_fn \<Rightarrow> QueueOp \<Rightarrow> ('s, 'e, (Value \<times> Value) option) queue_eff" where
  "queue_step cmp (QPush p v) = andthen (priority_queue_push cmp p v) (\<lambda>_. ret None)"
| "queue_step cmp QPeek = andthen priority_queue_peek (\<lambda>r. ret (map_option payload r))"
| "queue_step cmp QPop = andthen (priority_queue_pop cmp) (\<lambda>r. ret (map_option payload r))"

fun queue_run :: "('s, 'e) compare_fn \<Rightarrow> QueueOp list \<Rightarrow> ('s, 'e, (Value \<times> Value) option list) queue_eff" where
  "queue_run cmp [] = ret []"
| "queue_run cmp (op # ops) = andthen (queue_step cmp op) (\<lambda>out. andthen (queue_run cmp ops) (\<lambda>outs. ret (out # outs)))"

section \<open>Refinement\<close>

text \<open>The entries of a heap in their order; the sequence numbers are below the next one.\<close>

definition waiting :: "Value comparator \<Rightarrow> MutablePriorityQueueValue \<Rightarrow> PriorityQueueEntry list \<Rightarrow> bool" where
  "waiting c q es \<longleftrightarrow> entries.heap (pq_direction q) c (pq_entries q) \<and> mset es = mset (pq_entries q) \<and>
     sorted_wrt (entry_less (pq_direction q) c) es \<and> (\<forall>e\<in>set es. pq_seq e < pq_next_seq q)"

lemma entry_less_trans: "entry_less dir c a b \<Longrightarrow> entry_less dir c b d \<Longrightarrow> entry_less dir c a d"
  using entries.not_less_trans entries.asym by blast

lemma waiting_root:
  assumes "waiting c q (e # es)"
  shows "pq_entries q \<noteq> []" "pq_entries q ! 0 = e"
proof -
  have m: "mset (e # es) = mset (pq_entries q)"
    using assms by (simp add: waiting_def)
  then show ne: "pq_entries q \<noteq> []"
    by auto
  then have "pq_entries q ! 0 \<in> set (e # es)"
    using m by (metis length_greater_0_conv nth_mem set_mset_mset)
  moreover have "e \<in> set (pq_entries q)"
    using m by (metis list.set_intros(1) set_mset_mset)
  then have "\<not> entry_less (pq_direction q) c e (pq_entries q ! 0)"
    using entries.heap_root assms by (metis in_set_conv_nth waiting_def)
  ultimately show "pq_entries q ! 0 = e"
    using assms by (auto simp: waiting_def)
qed

lemma mset_insert_at: "mset (takeWhile P xs @ e # dropWhile P xs) = add_mset e (mset xs)"
  by (induction xs) auto

lemma set_insert_at: "set (takeWhile P xs @ e # dropWhile P xs) = insert e (set xs)"
  by (induction xs) auto

lemma sorted_insert_new:
  assumes "sorted_wrt (entry_less dir c) es" "\<forall>x\<in>set es. pq_seq x < pq_seq e"
  shows "sorted_wrt (entry_less dir c)
    (takeWhile (\<lambda>x. \<not> entry_less dir c e x) es @ e # dropWhile (\<lambda>x. \<not> entry_less dir c e x) es)"
  using assms
proof (induction es)
  case (Cons x es)
  have x: "entry_less dir c e x \<or> entry_less dir c x e"
    using Cons.prems(2) not_entry_less[of dir c e x] entry_less_directed[of dir c x e] by auto
  let ?ys = "takeWhile (\<lambda>x. \<not> entry_less dir c e x) es @ e # dropWhile (\<lambda>x. \<not> entry_less dir c e x) es"
  have "\<forall>y\<in>set ?ys. entry_less dir c x y" if "entry_less dir c x e"
    using Cons.prems(1) that unfolding set_insert_at by auto
  moreover have "sorted_wrt (entry_less dir c) ?ys"
    using Cons by simp
  ultimately show ?case
  proof (cases "entry_less dir c e x")
    case True
    have "entry_less dir c e y" if "y \<in> set es" for y
      using entry_less_trans[OF True] Cons.prems(1) that by simp
    then show ?thesis
      using True Cons.prems(1) by simp
  qed (use x in simp)
qed simp

lemma new_is_last:
  assumes "pq_seq x < pq_seq e"
  shows "entry_less dir c e x \<longleftrightarrow> compare (directed dir c) (pq_priority e) (pq_priority x) = Less"
  using assms by (auto simp: entry_less_directed)

lemma waiting_push:
  assumes "agrees cmp c" "waiting c q es" "unat (pq_next_seq q) < 2 ^ 64 - 1"
  shows "\<exists>s' q' es'. priority_queue_push cmp p v (s, q) = Some (Inr (), s', q') \<and> waiting c q' es' \<and>
    pq_direction q' = pq_direction q \<and> unat (pq_next_seq q') = Suc (unat (pq_next_seq q)) \<and>
    map payload es' = snd (spec_step (directed (pq_direction q) c) (QPush p v) (map payload es))"
proof -
  let ?dir = "pq_direction q"
  let ?e = "\<lparr>pq_priority = p, pq_value = v, pq_seq = pq_next_seq q\<rparr>"
  let ?q1 = "q\<lparr>pq_next_seq := pq_next_seq q + 1, pq_entries := pq_entries q @ [?e]\<rparr>"
  let ?P = "\<lambda>x. \<not> entry_less ?dir c ?e x"
  let ?es = "takeWhile ?P es @ ?e # dropWhile ?P es"
  obtain s' where run: "priority_queue_bubble_up cmp (length (pq_entries q)) (s, ?q1) =
      Some (Inr (), s', ?q1\<lparr>pq_entries := entries.up ?dir c (pq_entries q @ [?e]) (length (pq_entries q))\<rparr>)"
    using bubble_up_agrees[OF assms(1), of "length (pq_entries q)" s ?q1] by auto
  have heap: "entries.heap ?dir c (pq_entries q)" and old: "mset es = mset (pq_entries q)"
    "sorted_wrt (entry_less ?dir c) es" "\<forall>x\<in>set es. pq_seq x < pq_next_seq q"
    using assms(2) by (simp_all add: waiting_def)
  have seq: "unat (pq_next_seq q + 1) = Suc (unat (pq_next_seq q))"
    using assms(3) by (subst unat_add_lem[THEN iffD1]) simp_all
  have up: "entries.heap ?dir c (entries.up ?dir c (pq_entries q @ [?e]) (length (pq_entries q)))"
    "mset (entries.up ?dir c (pq_entries q @ [?e]) (length (pq_entries q))) = add_mset ?e (mset (pq_entries q))"
    using entries.up_correct[OF entries.up_inv_snoc[OF heap, of ?e]] by simp_all
  have "\<forall>x\<in>set ?es. pq_seq x < pq_next_seq q + 1"
    using old(3) seq unfolding set_insert_at by (auto simp: word_less_nat_alt)
  then have wait: "waiting c (?q1\<lparr>pq_entries := entries.up ?dir c (pq_entries q @ [?e]) (length (pq_entries q))\<rparr>) ?es"
    using up old(1) sorted_insert_new[OF old(2), of ?e] old(3) by (simp only: waiting_def mset_insert_at) simp
  have P: "?P x \<longleftrightarrow> compare (directed ?dir c) p (fst (payload x)) \<noteq> Less" if "x \<in> set es" for x
    using new_is_last[of x ?e ?dir c] old(3) that by (simp add: payload_def)
  have "map payload (takeWhile ?P es) = takeWhile (\<lambda>x. compare (directed ?dir c) p (fst x) \<noteq> Less) (map payload es)"
    "map payload (dropWhile ?P es) = dropWhile (\<lambda>x. compare (directed ?dir c) p (fst x) \<noteq> Less) (map payload es)"
    using P by (simp_all add: takeWhile_map dropWhile_map o_def cong: takeWhile_cong dropWhile_cong)
  then show ?thesis
    using run wait seq by (auto simp: priority_queue_push_def payload_def)
qed

lemma waiting_pop:
  assumes "agrees cmp c" "waiting c q es"
  shows "\<exists>r s' q' es'. priority_queue_pop cmp (s, q) = Some (Inr r, s', q') \<and> waiting c q' es' \<and>
    pq_direction q' = pq_direction q \<and> pq_next_seq q' = pq_next_seq q \<and>
    (map_option payload r, map payload es') = spec_step (directed (pq_direction q) c) QPop (map payload es)"
proof (cases es)
  case Nil
  then have "pq_entries q = []"
    using assms(2) by (simp add: waiting_def)
  then show ?thesis
    using assms(2) Nil by (auto simp: priority_queue_pop_def)
next
  case (Cons e es1)
  let ?xs = "pq_entries q" and ?dir = "pq_direction q"
  have root: "?xs \<noteq> []" "?xs ! 0 = e"
    using waiting_root assms(2) Cons by blast+
  have old: "entries.heap ?dir c ?xs" "mset es = mset ?xs" "sorted_wrt (entry_less ?dir c) es1"
      "\<forall>x\<in>set es1. pq_seq x < pq_next_seq q"
    using assms(2) Cons by (simp_all add: waiting_def)
  show ?thesis
  proof (cases "butlast ?xs = []")
    case True
    then have "?xs = [e]"
      using root by (cases ?xs) (auto split: if_splits)
    then show ?thesis
      using old Cons by (auto simp: priority_queue_pop_def waiting_def entries.heap_except_def payload_def)
  next
    case False
    let ?ys = "(butlast ?xs)[0 := last ?xs]"
    have "butlast ?xs ! 0 = e"
      using False root(2) length_greater_0_conv[of "butlast ?xs"] nth_butlast[of 0 ?xs] by simp
    then obtain ts where bl: "butlast ?xs = e # ts"
      using False by (cases "butlast ?xs") auto
    have "mset ?xs = mset (butlast ?xs @ [last ?xs])"
      using root(1) by simp
    then have "add_mset e (mset es1) = add_mset e (add_mset (last ?xs) (mset ts))"
      using old(2) Cons bl by (simp add: add_mset_commute)
    then have ys: "mset ?ys = mset es1"
      using bl by simp
    obtain s' where run: "bubble_down_loop cmp (length ?ys) 0 (s, q\<lparr>pq_entries := ?ys\<rparr>) =
        Some (Inr (), s', q\<lparr>pq_entries := entries.down ?dir c (length ?ys) ?ys 0\<rparr>)"
      using bubble_down_agrees[OF assms(1), of "length ?ys" 0 s "q\<lparr>pq_entries := ?ys\<rparr>"] by auto
    have down: "entries.heap ?dir c (entries.down ?dir c (length ?ys) ?ys 0)"
      "mset (entries.down ?dir c (length ?ys) ?ys 0) = mset es1"
      using entries.down_correct[OF refl entries.down_inv_replace_root[OF old(1) False]] ys by auto
    have "priority_queue_pop cmp (s, q) =
        Some (Inr (Some e), s', q\<lparr>pq_entries := entries.down ?dir c (length ?ys) ?ys 0\<rparr>)"
      using root(1) bl run by (simp add: priority_queue_pop_def priority_queue_bubble_down_def andthen_def ret_def)
    then show ?thesis
      using down old Cons by (auto simp: waiting_def payload_def)
  qed
qed

lemma waiting_peek:
  assumes "waiting c q es"
  shows "map_option payload (case pq_entries q of [] \<Rightarrow> None | e # _ \<Rightarrow> Some e) =
    (case map payload es of [] \<Rightarrow> None | x # _ \<Rightarrow> Some x)"
proof (cases es)
  case Nil
  then show ?thesis
    using assms by (simp add: waiting_def)
next
  case (Cons e es1)
  then obtain xs where "pq_entries q = e # xs"
    using waiting_root[of c q e es1] assms by (cases "pq_entries q") auto
  then show ?thesis
    using Cons by simp
qed

lemma waiting_step:
  assumes "agrees cmp c" "waiting c q es" "unat (pq_next_seq q) < 2 ^ 64 - 1"
  shows "\<exists>out s' q' es'. queue_step cmp op (s, q) = Some (Inr out, s', q') \<and> waiting c q' es' \<and>
    pq_direction q' = pq_direction q \<and> unat (pq_next_seq q') \<le> Suc (unat (pq_next_seq q)) \<and>
    (out, map payload es') = spec_step (directed (pq_direction q) c) op (map payload es)"
proof (cases op)
  case (QPush p v)
  then show ?thesis
    using waiting_push[OF assms, of p v s] by (auto simp: andthen_def ret_def)
next
  case QPeek
  then show ?thesis
    using waiting_peek[OF assms(2)] assms(2) by (auto simp: andthen_def ret_def priority_queue_peek_def)
next
  case QPop
  then show ?thesis
    using waiting_pop[OF assms(1,2), of s] by (auto simp: andthen_def ret_def)
qed

lemma queue_run_refines:
  assumes "agrees cmp c" "waiting c q es" "unat (pq_next_seq q) + length ops < 2 ^ 64"
  shows "\<exists>s'. queue_run cmp ops (s, q) =
    Some (Inr (spec_run (directed (pq_direction q) c) ops (map payload es)), s')"
  using assms(2,3)
proof (induction ops arbitrary: s q es)
  case Nil
  then show ?case
    by (simp add: ret_def)
next
  case (Cons op ops)
  have "unat (pq_next_seq q) < 2 ^ 64 - 1"
    using Cons.prems(2) by simp
  from waiting_step[OF assms(1) Cons.prems(1) this, of op s] obtain out s' q' es' where
    step: "queue_step cmp op (s, q) = Some (Inr out, s', q')" "waiting c q' es'" "pq_direction q' = pq_direction q"
      "unat (pq_next_seq q') \<le> Suc (unat (pq_next_seq q))"
      "(out, map payload es') = spec_step (directed (pq_direction q) c) op (map payload es)"
    by blast
  have "unat (pq_next_seq q') + length ops < 2 ^ 64"
    using step(4) Cons.prems(2) by simp
  from Cons.IH[OF step(2) this, of s'] obtain s'' where
    "queue_run cmp ops (s', q') = Some (Inr (spec_run (directed (pq_direction q) c) ops (map payload es')), s'')"
    using step(3) by auto
  then show ?case
    using step(1) by (simp add: andthen_def ret_def flip: step(5))
qed

section \<open>Properties\<close>

text \<open>
  C35. Whatever pushes, peeks and pops are made on a new queue, each answers as the list of waiting
  items does: items leave in the order of their priority in the direction of the queue, and items of
  equal priority in the order they came.  The comparison always returns and follows a total preorder,
  and fewer than \<open>2^64\<close> operations are made.
\<close>

theorem priority_queue_refines:
  assumes "agrees cmp c" and "length ops < 2 ^ 64"
  shows "\<exists>s'. queue_run cmp ops (s, priority_queue_new dir) = Some (Inr (spec_run (directed dir c) ops []), s')"
proof -
  have "waiting c (priority_queue_new dir) []"
    by (simp add: waiting_def priority_queue_new_def entries.heap_except_def)
  then show ?thesis
    using queue_run_refines[OF assms(1), of "priority_queue_new dir" "[]" ops s] assms(2)
    by (simp add: priority_queue_new_def)
qed

definition demo_cmp :: "(unit, unit) compare_fn" where
  "demo_cmp a b = (\<lambda>s. Some (Inr (case (a, b) of (VInt x, VInt y) \<Rightarrow> if x < y then - 1 else if y < x then 1 else 0
     | (VInt _, _) \<Rightarrow> - 1 | (_, VInt _) \<Rightarrow> 1 | _ \<Rightarrow> 0), s))"

definition rank :: "Value \<Rightarrow> nat" where
  "rank v = (case v of VInt x \<Rightarrow> unat x | _ \<Rightarrow> 2 ^ 64)"

lemma demo_cmp_agrees: "agrees demo_cmp (key rank default)"
proof -
  have "unat x < 2 ^ 64" for x :: "64 word"
    using unsigned_less[of x, where 'a = nat] by simp
  then show ?thesis
    by (auto simp: agrees_def demo_cmp_def rank_def word_less_nat_alt not_less le_less split: Value.split)
qed

theorem priority_queue_refines_witness:
  "\<exists>s'. queue_run demo_cmp [QPush (VInt 2) VUnit, QPush (VInt 1) (VBool True), QPush (VInt 2) (VBool False), QPop, QPop, QPop]
      ((), priority_queue_new DirMin) =
    Some (Inr [None, None, None, Some (VInt 1, VBool True), Some (VInt 2, VUnit), Some (VInt 2, VBool False)], s')"
  using priority_queue_refines[OF demo_cmp_agrees, of "[QPush (VInt 2) VUnit, QPush (VInt 1) (VBool True),
      QPush (VInt 2) (VBool False), QPop, QPop, QPop]" "()" DirMin]
  by (simp add: directed_def rank_def)

end
