(* ===== verification/Env.thy ===== *)
theory Env
  imports Match_Eval
begin

text \<open>
  The environment of the interpreter (\<open>eval/src/env.rs\<close>): all bindings in one vector, with the index
  at which each open scope starts.  A binding that was moved out keeps its place.  Indices are
  natural numbers; the code computes them in \<open>usize\<close>, where \<open>depth + 1\<close> overflows for the largest
  depth only, which no resolved slot has.
\<close>

datatype BindingValue = Live Value | Moved

record Env =
  env_bindings :: "(Name \<times> BindingValue) list"
  scope_starts :: "nat list"

definition env_new :: Env where
  "env_new = \<lparr>env_bindings = [], scope_starts = [0]\<rparr>"

definition push_scope :: "Env \<Rightarrow> Env" where
  "push_scope env = env\<lparr>scope_starts := scope_starts env @ [length (env_bindings env)]\<rparr>"

definition pop_scope :: "Env \<Rightarrow> Env" where
  "pop_scope env =
     (if scope_starts env = [] then env
      else env\<lparr>env_bindings := take (last (scope_starts env)) (env_bindings env), scope_starts := butlast (scope_starts env)\<rparr>)"

definition env_bind :: "Name \<Rightarrow> Value \<Rightarrow> Env \<Rightarrow> Env" where
  "env_bind name v env = env\<lparr>env_bindings := env_bindings env @ [(name, Live v)]\<rparr>"

fun binding_value :: "BindingValue \<Rightarrow> Value option" where
  "binding_value (Live v) = Some v"
| "binding_value Moved = None"

definition env_lookup :: "Env \<Rightarrow> Name \<Rightarrow> Value option" where
  "env_lookup env name = Option.bind (map_of (rev (env_bindings env)) name) binding_value"

text \<open>The position of a lexical slot, as computed by all three slot operations.\<close>

definition slot_index :: "Env \<Rightarrow> nat \<Rightarrow> nat \<Rightarrow> nat option" where
  "slot_index env depth slot =
     (if length (scope_starts env) < depth + 1 then None
      else
        let scope_idx = length (scope_starts env) - (depth + 1);
            binding_idx = scope_starts env ! scope_idx + slot;
            scope_end = (if scope_idx + 1 < length (scope_starts env) then scope_starts env ! (scope_idx + 1)
                         else length (env_bindings env))
        in if scope_end \<le> binding_idx then None
           else if binding_idx < length (env_bindings env) then Some binding_idx else None)"

definition lookup_slot :: "Env \<Rightarrow> nat \<Rightarrow> nat \<Rightarrow> Value option" where
  "lookup_slot env depth slot = Option.bind (slot_index env depth slot) (\<lambda>i. binding_value (snd (env_bindings env ! i)))"

definition set_binding :: "nat \<Rightarrow> BindingValue \<Rightarrow> Env \<Rightarrow> Env" where
  "set_binding i v env = env\<lparr>env_bindings := (env_bindings env)[i := (fst (env_bindings env ! i), v)]\<rparr>"

definition take_slot :: "nat \<Rightarrow> nat \<Rightarrow> Env \<Rightarrow> Value option \<times> Env" where
  "take_slot depth slot env =
     (case slot_index env depth slot of
        None \<Rightarrow> (None, env)
      | Some i \<Rightarrow> (binding_value (snd (env_bindings env ! i)), set_binding i Moved env))"

definition set_slot :: "nat \<Rightarrow> nat \<Rightarrow> Value \<Rightarrow> Env \<Rightarrow> unit option \<times> Env" where
  "set_slot depth slot v env =
     (case slot_index env depth slot of
        None \<Rightarrow> (None, env)
      | Some i \<Rightarrow> (Some (), set_binding i (Live v) env))"

end
