(* ===== verification/Env_Properties.thy ===== *)
theory Env_Properties
  imports Env
begin

text \<open>
  The flat environment implements a stack of scopes: its bindings are those of the open scopes one
  after the other, behind what was bound while no scope was open.
\<close>

section \<open>A stack of scopes\<close>

text \<open>The scopes, innermost first, and the bindings below them.\<close>

type_synonym scope = "(Name \<times> BindingValue) list"
type_synonym stack = "scope list \<times> scope"

datatype EnvOp =
    OpPush | OpPop | OpBind Name Value | OpLookup Name | OpLookupSlot nat nat | OpTakeSlot nat nat | OpSetSlot nat nat Value

definition slot_of :: "stack \<Rightarrow> nat \<Rightarrow> nat \<Rightarrow> (Name \<times> BindingValue) option" where
  "slot_of st d i = (if d < length (fst st) \<and> i < length (fst st ! d) then Some (fst st ! d ! i) else None)"

definition write_slot :: "nat \<Rightarrow> nat \<Rightarrow> BindingValue \<Rightarrow> stack \<Rightarrow> stack" where
  "write_slot d i v st =
     (case slot_of st d i of None \<Rightarrow> st | Some (n, _) \<Rightarrow> ((fst st)[d := (fst st ! d)[i := (n, v)]], snd st))"

fun spec_env :: "EnvOp \<Rightarrow> stack \<Rightarrow> Value option \<times> stack" where
  "spec_env OpPush st = (None, [] # fst st, snd st)"
| "spec_env OpPop st = (None, tl (fst st), snd st)"
| "spec_env (OpBind n v) st =
     (None, case fst st of [] \<Rightarrow> ([], snd st @ [(n, Live v)]) | sc # scs \<Rightarrow> ((sc @ [(n, Live v)]) # scs, snd st))"
| "spec_env (OpLookup n) st =
     (Option.bind (map_of (concat (map rev (fst st)) @ rev (snd st)) n) binding_value, st)"
| "spec_env (OpLookupSlot d i) st = (Option.bind (slot_of st d i) (\<lambda>b. binding_value (snd b)), st)"
| "spec_env (OpTakeSlot d i) st = (Option.bind (slot_of st d i) (\<lambda>b. binding_value (snd b)), write_slot d i Moved st)"
| "spec_env (OpSetSlot d i v) st = (map_option (\<lambda>_. VUnit) (slot_of st d i), write_slot d i (Live v) st)"

fun env_step :: "EnvOp \<Rightarrow> Env \<Rightarrow> Value option \<times> Env" where
  "env_step OpPush env = (None, push_scope env)"
| "env_step OpPop env = (None, pop_scope env)"
| "env_step (OpBind n v) env = (None, env_bind n v env)"
| "env_step (OpLookup n) env = (env_lookup env n, env)"
| "env_step (OpLookupSlot d i) env = (lookup_slot env d i, env)"
| "env_step (OpTakeSlot d i) env = take_slot d i env"
| "env_step (OpSetSlot d i v) env = (case set_slot d i v env of (r, env') \<Rightarrow> (map_option (\<lambda>_. VUnit) r, env'))"

fun outputs :: "('op \<Rightarrow> 'st \<Rightarrow> 'out \<times> 'st) \<Rightarrow> 'op list \<Rightarrow> 'st \<Rightarrow> 'out list" where
  "outputs step [] st = []"
| "outputs step (op # ops) st = (case step op st of (out, st') \<Rightarrow> out # outputs step ops st')"

section \<open>The abstraction\<close>

text \<open>Cut the bindings at the starts, given innermost first.\<close>

fun cut_scopes :: "'a list \<Rightarrow> nat list \<Rightarrow> 'a list list \<times> 'a list" where
  "cut_scopes bs [] = ([], bs)"
| "cut_scopes bs (s # rs) = (drop s bs # fst (cut_scopes (take s bs) rs), snd (cut_scopes (take s bs) rs))"

fun starts_ok :: "nat \<Rightarrow> nat list \<Rightarrow> bool" where
  "starts_ok n [] = True"
| "starts_ok n (s # rs) = (s \<le> n \<and> starts_ok s rs)"

definition env_abs :: "Env \<Rightarrow> stack" where
  "env_abs env = cut_scopes (env_bindings env) (rev (scope_starts env))"

definition env_ok :: "Env \<Rightarrow> bool" where
  "env_ok env \<longleftrightarrow> starts_ok (length (env_bindings env)) (rev (scope_starts env))"

lemma starts_ok_mono: "starts_ok n rs \<Longrightarrow> n \<le> m \<Longrightarrow> starts_ok m rs"
  by (cases rs) auto

lemma cut_lookup: "concat (map rev (fst (cut_scopes bs rs))) @ rev (snd (cut_scopes bs rs)) = rev bs"
proof (induction rs arbitrary: bs)
  case (Cons s rs)
  have "rev bs = rev (drop s bs) @ rev (take s bs)"
    by (simp flip: rev_append)
  then show ?case
    using Cons.IH[of "take s bs"] by (simp split: prod.split)
qed simp

lemma length_cut [simp]: "length (fst (cut_scopes bs rs)) = length rs"
  by (induction rs arbitrary: bs) auto

definition scope_end :: "nat \<Rightarrow> nat list \<Rightarrow> nat \<Rightarrow> nat" where
  "scope_end n rs d = (if d = 0 then n else rs ! (d - 1))"

lemma scope_end_Suc [simp]: "scope_end n (r # rs) (Suc k) = scope_end r rs k"
  by (simp add: scope_end_def nth_Cons')

lemma starts_ok_nth_both:
  "starts_ok n rs \<Longrightarrow> d < length rs \<Longrightarrow> rs ! d \<le> scope_end n rs d \<and> scope_end n rs d \<le> n"
proof (induction rs arbitrary: n d)
  case (Cons r rs)
  show ?case
  proof (cases d)
    case 0
    then show ?thesis
      using Cons.prems by (simp add: scope_end_def)
  next
    case (Suc k)
    then show ?thesis
      using Cons.IH[of r k] Cons.prems by auto
  qed
qed simp

lemmas starts_ok_nth = starts_ok_nth_both[THEN conjunct1] starts_ok_nth_both[THEN conjunct2]

lemma cut_nth:
  assumes "starts_ok (length bs) rs" "d < length rs"
  shows "fst (cut_scopes bs rs) ! d = drop (rs ! d) (take (scope_end (length bs) rs d) bs)"
  using assms
proof (induction rs arbitrary: bs d)
  case (Cons s rs)
  show ?case
  proof (cases d)
    case 0
    then show ?thesis
      by (simp add: scope_end_def)
  next
    case (Suc k)
    have k: "starts_ok s rs" "k < length rs" "min (length bs) s = s"
      using Cons.prems Suc by auto
    then have "min (scope_end s rs k) s = scope_end s rs k"
      using starts_ok_nth(2)[OF k(1,2)] by simp
    then show ?thesis
      using Cons.IH[of "take s bs" k] Suc k by (simp add: take_take)
  qed
qed simp

lemma cut_length_nth:
  assumes "starts_ok (length bs) rs" "d < length rs"
  shows "length (fst (cut_scopes bs rs) ! d) = scope_end (length bs) rs d - rs ! d"
  using starts_ok_nth[OF assms] by (simp add: cut_nth[OF assms] min_absorb2)

lemma cut_nth_nth:
  assumes "starts_ok (length bs) rs" "d < length rs" "rs ! d + i < scope_end (length bs) rs d"
  shows "fst (cut_scopes bs rs) ! d ! i = bs ! (rs ! d + i)"
  using starts_ok_nth[OF assms(1,2)] assms(3) by (simp add: cut_nth[OF assms(1,2)])

lemma cut_update:
  assumes "starts_ok (length bs) rs" "d < length rs" "rs ! d + i < scope_end (length bs) rs d"
  shows "cut_scopes (bs[rs ! d + i := b]) rs =
    ((fst (cut_scopes bs rs))[d := (fst (cut_scopes bs rs) ! d)[i := b]], snd (cut_scopes bs rs))"
  using assms
proof (induction rs arbitrary: bs d)
  case (Cons s rs)
  show ?case
  proof (cases d)
    case 0
    then show ?thesis
      by (simp add: drop_update_swap take_update_cancel)
  next
    case (Suc k)
    have k: "k < length rs" "starts_ok (length (take s bs)) rs" "s \<le> length bs"
      using Cons.prems Suc by (simp_all add: min_absorb2)
    have i: "rs ! k + i < scope_end (length (take s bs)) rs k"
      using Cons.prems(3) Suc k(3) by (simp add: min_absorb2)
    then have "rs ! k + i < s"
      using starts_ok_nth(2)[OF k(2,1)] k(3) by (simp add: min_absorb2)
    then show ?thesis
      using Cons.IH[OF k(2,1) i] Suc by (simp add: take_update_swap)
  qed
qed simp

lemma slot_index_abs:
  assumes "env_ok env"
  shows "(case slot_index env d i of None \<Rightarrow> slot_of (env_abs env) d i = None
    | Some j \<Rightarrow> slot_of (env_abs env) d i = Some (env_bindings env ! j) \<and> d < length (scope_starts env) \<and>
        j = rev (scope_starts env) ! d + i \<and>
        j < scope_end (length (env_bindings env)) (rev (scope_starts env)) d)"
proof (cases "d < length (scope_starts env)")
  case True
  let ?bs = "env_bindings env" and ?ss = "scope_starts env"
  have d: "rev ?ss ! d = ?ss ! (length ?ss - Suc d)"
    using True by (simp add: rev_nth)
  have e: "scope_end (length ?bs) (rev ?ss) d = (if length ?ss - Suc d + 1 < length ?ss then ?ss ! (length ?ss - Suc d + 1) else length ?bs)"
    using True by (cases d) (auto simp: scope_end_def rev_nth Suc_diff_Suc)
  have ok: "starts_ok (length ?bs) (rev ?ss)" "d < length (rev ?ss)"
    using assms True by (simp_all add: env_ok_def)
  show ?thesis
  proof (cases "rev ?ss ! d + i < scope_end (length ?bs) (rev ?ss) d")
    case j: True
    then have "slot_index env d i = Some (rev ?ss ! d + i)"
      using True starts_ok_nth(2)[OF ok] by (simp add: slot_index_def Let_def d e)
    then show ?thesis
      using j True cut_length_nth[OF ok] cut_nth_nth[OF ok j] by (simp add: slot_of_def env_abs_def)
  next
    case j: False
    then have "slot_index env d i = None"
      using True by (simp add: slot_index_def Let_def d e)
    then show ?thesis
      using j cut_length_nth[OF ok] by (simp add: slot_of_def env_abs_def less_diff_conv add.commute)
  qed
next
  case False
  then show ?thesis
    by (simp add: slot_index_def slot_of_def env_abs_def)
qed

lemma env_update:
  assumes "env_ok env" "slot_index env d i = Some j"
  shows "write_slot d i v (env_abs env) = env_abs (set_binding j v env) \<and> env_ok (set_binding j v env)"
proof -
  let ?bs = "env_bindings env" and ?rs = "rev (scope_starts env)"
  have j: "slot_of (env_abs env) d i = Some (?bs ! j)" "d < length ?rs" "j = ?rs ! d + i" "j < scope_end (length ?bs) ?rs d"
    using slot_index_abs[OF assms(1), of d i] assms(2) by simp_all
  have ok: "starts_ok (length ?bs) ?rs"
    using assms(1) by (simp add: env_ok_def)
  have "write_slot d i v (env_abs env) =
      ((fst (env_abs env))[d := (fst (env_abs env) ! d)[i := (fst (?bs ! j), v)]], snd (env_abs env))"
    using j(1) by (simp add: write_slot_def split: prod.split)
  then show ?thesis
    using cut_update[OF ok j(2), of i "(fst (?bs ! j), v)"] j(3,4) ok
    by (simp add: env_abs_def set_binding_def env_ok_def)
qed

lemma env_step_simulates:
  assumes "env_ok env" "env_step op env = (out, env')"
  shows "spec_env op (env_abs env) = (out, env_abs env') \<and> env_ok env'"
proof (cases op)
  case OpPush
  then show ?thesis
    using assms by (auto simp: push_scope_def env_ok_def env_abs_def)
next
  case OpPop
  show ?thesis
  proof (cases "scope_starts env" rule: rev_cases)
    case Nil
    then show ?thesis
      using assms OpPop by (auto simp: pop_scope_def env_abs_def env_ok_def)
  next
    case (snoc ss s)
    then show ?thesis
      using assms OpPop by (auto simp: pop_scope_def env_abs_def env_ok_def min_absorb2)
  qed
next
  case (OpBind n v)
  show ?thesis
  proof (cases "rev (scope_starts env)")
    case Nil
    then show ?thesis
      using assms OpBind by (auto simp: env_bind_def env_abs_def env_ok_def)
  next
    case (Cons s rs)
    then show ?thesis
      using assms OpBind by (auto simp: env_bind_def env_abs_def env_ok_def)
  qed
next
  case (OpLookup n)
  then show ?thesis
    using assms cut_lookup[of "env_bindings env" "rev (scope_starts env)"]
    by (auto simp: env_lookup_def env_abs_def)
next
  case (OpLookupSlot d i)
  then show ?thesis
    using assms slot_index_abs[OF assms(1), of d i] by (auto simp: lookup_slot_def split: option.splits)
next
  case (OpTakeSlot d i)
  show ?thesis
  proof (cases "slot_index env d i")
    case None
    then show ?thesis
      using assms OpTakeSlot slot_index_abs[OF assms(1), of d i] by (auto simp: take_slot_def write_slot_def)
  next
    case (Some j)
    then show ?thesis
      using assms OpTakeSlot slot_index_abs[OF assms(1), of d i] env_update[OF assms(1), of d i j Moved]
      by (auto simp: take_slot_def)
  qed
next
  case (OpSetSlot d i v)
  show ?thesis
  proof (cases "slot_index env d i")
    case None
    then show ?thesis
      using assms OpSetSlot slot_index_abs[OF assms(1), of d i] by (auto simp: set_slot_def write_slot_def)
  next
    case (Some j)
    then show ?thesis
      using assms OpSetSlot slot_index_abs[OF assms(1), of d i] env_update[OF assms(1), of d i j "Live v"]
      by (auto simp: set_slot_def)
  qed
qed

section \<open>Properties\<close>

text \<open>
  C34. Every sequence of operations on a new environment answers as the stack of scopes does: a name
  finds its innermost binding, a slot the binding of its scope and position; a binding that was moved
  out answers nothing and still hides older bindings of its name, and closing a scope drops exactly
  its bindings.
\<close>

theorem env_refines: "outputs env_step ops env_new = outputs spec_env ops ([[]], [])"
proof -
  have "outputs env_step ops env = outputs spec_env ops (env_abs env)" if "env_ok env" for env
    using that
  proof (induction ops arbitrary: env)
    case (Cons op ops)
    obtain out env' where step: "env_step op env = (out, env')"
      by (cases "env_step op env")
    then show ?case
      using env_step_simulates[OF Cons.prems step] Cons.IH[of env'] by simp
  qed simp
  moreover have "env_ok env_new" "env_abs env_new = ([[]], [])"
    by (simp_all add: env_ok_def env_abs_def env_new_def)
  ultimately show ?thesis
    by metis
qed

end
