(* ===== verification/Seq.thy ===== *)
theory Seq
  imports Map_Value
begin

text \<open>
  Lazy sequences of the interpreter: plans (\<open>SeqPlan\<close> and \<open>SeqSource\<close> of \<open>eval/src/value.rs\<close>), their
  iterators (\<open>seq_iter_from_plan\<close>, \<open>seq_source_iter_next\<close> and \<open>seq_iter_next\<close> of
  \<open>eval/src/interpreter.rs\<close>), which are pulled item by item, and their traversal
  (\<open>seq_for_each_control\<close>), which pushes every item into a closure that may stop it.

  Runtime values appear here with the collections that sequences range over.  Mutable collections are
  addresses; persistent maps and sets are their entries in order.  Strings are lists of Unicode scalar
  values that are indexed by their byte positions in UTF-8.
\<close>

section \<open>Values and plans\<close>

type_synonym rstr = "32 word list"

record BitSetValue =
  bs_size_bits :: nat
  bs_words :: "64 word list"

datatype RVal =
    RInt "64 word" | RFloat "64 word" | RString rstr | RChar "32 word" | RBool bool | RUnit
  | RAdt TypeItemIdx nat "RVal list"
  | RRecord "(Name \<times> RVal) list" "TypeItemIdx option"
  | RList "RVal list"
  | RDeque "RVal list"
  | RMutableList nat
  | RMutableDeque nat
  | RSeq SeqPlan
  | RFn nat
  | ROther nat
and SeqPlan =
    PSource SeqSource
  | PMap SeqPlan RVal
  | PFlatMap SeqPlan RVal
  | PFilter SeqPlan RVal
  | PScan SeqPlan RVal RVal
  | PUnfold RVal RVal
  | PEnumerate SeqPlan
  | PZip SeqPlan SeqPlan
  | PChunks SeqPlan "64 word"
  | PWindows SeqPlan "64 word"
and SeqSource =
    SrcRange "64 word" "64 word"
  | SrcFromList "RVal list"
  | SrcFromDeque "RVal list"
  | SrcStringSplit rstr rstr
  | SrcStringLines rstr
  | SrcStringChars rstr
  | SrcMapKeys "(RVal \<times> RVal) list"
  | SrcMapValues "(RVal \<times> RVal) list"
  | SrcSetValues "RVal list"
  | SrcBitSetValues BitSetValue

section \<open>Strings\<close>

definition len_utf8 :: "32 word \<Rightarrow> nat" where
  "len_utf8 c = (if c < 0x80 then 1 else if c < 0x800 then 2 else if c < 0x10000 then 3 else 4)"

definition str_len :: "rstr \<Rightarrow> nat" where
  "str_len s = sum_list (map len_utf8 s)"

text \<open>\<open>&s[i..]\<close> and \<open>&s[..n]\<close>, which panic unless the position is a character boundary.\<close>

fun slice_from :: "rstr \<Rightarrow> nat \<Rightarrow> rstr option" where
  "slice_from s 0 = Some s"
| "slice_from [] (Suc n) = None"
| "slice_from (c # s) (Suc n) = (if len_utf8 c \<le> Suc n then slice_from s (Suc n - len_utf8 c) else None)"

fun slice_to :: "rstr \<Rightarrow> nat \<Rightarrow> rstr option" where
  "slice_to s 0 = Some []"
| "slice_to [] (Suc n) = None"
| "slice_to (c # s) (Suc n) =
     (if len_utf8 c \<le> Suc n then map_option ((#) c) (slice_to s (Suc n - len_utf8 c)) else None)"

definition slice :: "rstr \<Rightarrow> nat \<Rightarrow> nat \<Rightarrow> rstr option" where
  "slice s i j = (if i \<le> j then Option.bind (slice_from s i) (\<lambda>r. slice_to r (j - i)) else None)"

fun is_prefix :: "'a list \<Rightarrow> 'a list \<Rightarrow> bool" where
  "is_prefix [] ys = True"
| "is_prefix (x # xs) [] = False"
| "is_prefix (x # xs) (y # ys) = (x = y \<and> is_prefix xs ys)"

text \<open>\<open>str::find\<close>: the byte position of the first occurrence.\<close>

fun str_find :: "rstr \<Rightarrow> rstr \<Rightarrow> nat option" where
  "str_find delim s =
     (if is_prefix delim s then Some 0
      else case s of [] \<Rightarrow> None | c # s' \<Rightarrow> map_option ((+) (len_utf8 c)) (str_find delim s'))"

text \<open>\<open>str::split\<close> and \<open>str::lines\<close> of the standard library.\<close>

fun split_at :: "rstr \<Rightarrow> rstr \<Rightarrow> (rstr \<times> rstr) option" where
  "split_at delim s =
     (if is_prefix delim s then Some ([], drop (length delim) s)
      else case s of [] \<Rightarrow> None | c # s' \<Rightarrow> map_option (\<lambda>(l, r). (c # l, r)) (split_at delim s'))"

lemma split_at_shorter: "split_at delim s = Some (l, r) \<Longrightarrow> delim \<noteq> [] \<Longrightarrow> length r < length s"
proof (induction delim s arbitrary: l rule: split_at.induct)
  case (1 delim s)
  show ?case
  proof (cases "is_prefix delim s")
    case True
    then show ?thesis
      using "1.prems" by (cases delim; cases s) auto
  next
    case False
    then obtain c s' where s: "s = c # s'"
      using "1.prems" by (cases s) auto
    then obtain l' where "split_at delim s' = Some (l', r)"
      using "1.prems" False by auto
    then show ?thesis
      using "1.IH"[OF False s] "1.prems"(2) s by fastforce
  qed
qed

declare split_at.simps [simp del] str_find.simps [simp del]

function split_parts :: "rstr \<Rightarrow> rstr \<Rightarrow> rstr list" where
  "split_parts delim s =
     (if delim = [] then [s]
      else case split_at delim s of None \<Rightarrow> [s] | Some (l, r) \<Rightarrow> l # split_parts delim r)"
  by pat_completeness auto
termination
  by (relation "measure (\<lambda>(_, s). length s)") (auto dest: split_at_shorter)

declare split_parts.simps [simp del]

definition str_split :: "rstr \<Rightarrow> rstr \<Rightarrow> rstr list" where
  "str_split s delim = (if delim = [] then [] # map (\<lambda>c. [c]) s @ [[]] else split_parts delim s)"

definition newline :: "32 word" where
  "newline = 10"

definition strip_cr :: "rstr \<Rightarrow> rstr" where
  "strip_cr l = (if l \<noteq> [] \<and> last l = 13 then butlast l else l)"

function str_lines :: "rstr \<Rightarrow> rstr list" where
  "str_lines s =
     (if s = [] then []
      else case dropWhile ((\<noteq>) newline) s of
          [] \<Rightarrow> [s]
        | _ # rest \<Rightarrow> strip_cr (takeWhile ((\<noteq>) newline) s) # str_lines rest)"
  by pat_completeness auto
termination
proof (relation "measure length", goal_cases)
  case (2 s c rest)
  then show ?case
    using length_dropWhile_le[of "(\<noteq>) newline" s] by simp
qed simp

declare str_lines.simps [simp del]

text \<open>\<open>s.split('\n')\<close>\<close>

fun split_newline :: "rstr \<Rightarrow> rstr list" where
  "split_newline [] = [[]]"
| "split_newline (c # s) =
     (if c = newline then [] # split_newline s else (c # hd (split_newline s)) # tl (split_newline s))"

lemma split_newline_not_Nil [simp]: "split_newline s \<noteq> []"
  by (induction s) auto

text \<open>\<open>char::is_whitespace\<close>\<close>

definition is_whitespace :: "32 word \<Rightarrow> bool" where
  "is_whitespace c \<longleftrightarrow>
     9 \<le> c \<and> c \<le> 13 \<or> c = 32 \<or> c = 0x85 \<or> c = 0xA0 \<or> c = 0x1680 \<or> 0x2000 \<le> c \<and> c \<le> 0x200A \<or>
     c = 0x2028 \<or> c = 0x2029 \<or> c = 0x202F \<or> c = 0x205F \<or> c = 0x3000"

section \<open>Bit sets\<close>

definition trailing_zeros :: "64 word \<Rightarrow> nat" where
  "trailing_zeros w = length (takeWhile (\<lambda>i. \<not> bit w i) [0..<64])"

unbundle bit_operations_syntax

definition clear_lowest :: "64 word \<Rightarrow> 64 word" where
  "clear_lowest w = w AND (w - 1)"

lemma clear_lowest_less: "w \<noteq> 0 \<Longrightarrow> unat (clear_lowest w) < unat w"
proof -
  assume w: "w \<noteq> 0"
  have "clear_lowest w \<le> w - 1"
    unfolding clear_lowest_def by (metis and.commute word_and_le1)
  then have "unat (clear_lowest w) \<le> unat w - 1"
    using unat_minus_one[OF w] by (simp add: word_le_nat_alt)
  moreover have "0 < unat w"
    using w by (simp add: unat_gt_0)
  ultimately show ?thesis
    by simp
qed

text \<open>The bit positions of a word in ascending order, by the loop of the traversal.\<close>

function word_bits :: "64 word \<Rightarrow> nat list" where
  "word_bits w = (if w = 0 then [] else trailing_zeros w # word_bits (clear_lowest w))"
  by pat_completeness auto
termination
  by (relation "measure unat") (auto intro: clear_lowest_less)

declare word_bits.simps [simp del]

definition bitset_indices :: "BitSetValue \<Rightarrow> nat list" where
  "bitset_indices b =
     filter (\<lambda>idx. idx < bs_size_bits b)
       (concat (map (\<lambda>(word_idx, w). map (\<lambda>bt. word_idx * 64 + bt) (word_bits w)) (enumerate 0 (bs_words b))))"

section \<open>Sources\<close>

text \<open>The items of a source in the order in which the traversal pushes them.\<close>

fun source_items :: "SeqSource \<Rightarrow> RVal list" where
  "source_items (SrcRange start end) = map (\<lambda>i. RInt (word_of_int i)) [sint start..sint end - 1]"
| "source_items (SrcFromList xs) = xs"
| "source_items (SrcFromDeque xs) = xs"
| "source_items (SrcBitSetValues b) = map (\<lambda>i. RInt (of_nat i)) (bitset_indices b)"
| "source_items (SrcStringSplit s delim) = map RString (str_split s delim)"
| "source_items (SrcStringLines s) = map RString (str_lines s)"
| "source_items (SrcStringChars s) = map RChar s"
| "source_items (SrcMapKeys es) = map fst es"
| "source_items (SrcMapValues es) = map snd es"
| "source_items (SrcSetValues es) = es"

datatype SeqSourceIter =
    ItRange "64 word" "64 word"
  | ItFromList "RVal list" nat
  | ItBitSetValues BitSetValue nat "64 word"
  | ItFromDeque "RVal list" nat
  | ItStringSplit rstr rstr nat bool bool
  | ItStringLines rstr nat bool
  | ItStringChars rstr nat
  | ItMapKeys "(RVal \<times> RVal) list" nat
  | ItMapValues "(RVal \<times> RVal) list" nat
  | ItSetValues "RVal list" nat

fun source_iter :: "SeqSource \<Rightarrow> SeqSourceIter" where
  "source_iter (SrcRange start end) = ItRange start end"
| "source_iter (SrcFromList xs) = ItFromList xs 0"
| "source_iter (SrcBitSetValues b) = ItBitSetValues b 0 (case bs_words b of [] \<Rightarrow> 0 | w # _ \<Rightarrow> w)"
| "source_iter (SrcFromDeque xs) = ItFromDeque xs 0"
| "source_iter (SrcStringSplit s delim) = ItStringSplit s delim 0 False False"
| "source_iter (SrcStringLines s) = ItStringLines s 0 False"
| "source_iter (SrcStringChars s) = ItStringChars s 0"
| "source_iter (SrcMapKeys es) = ItMapKeys es 0"
| "source_iter (SrcMapValues es) = ItMapValues es 0"
| "source_iter (SrcSetValues es) = ItSetValues es 0"

text \<open>
  The next part of a string together with the new positions and flags; a slice off a character
  boundary panics, which is \<^const>\<open>None\<close>.
\<close>

definition next_string_split_part ::
    "rstr \<Rightarrow> rstr \<Rightarrow> nat \<Rightarrow> bool \<Rightarrow> bool \<Rightarrow> (rstr option \<times> nat \<times> bool \<times> bool) option" where
  "next_string_split_part s delim next_start emitted_empty_leading emitted_empty_trailing =
     (if delim = [] then
        if \<not> emitted_empty_leading then Some (Some [], next_start, True, emitted_empty_trailing)
        else if next_start < str_len s then
          Option.bind (slice_from s next_start)
            (\<lambda>r. case r of
                   [] \<Rightarrow> Some (None, next_start, emitted_empty_leading, emitted_empty_trailing)
                 | ch # _ \<Rightarrow>
                     Some (Some [ch], next_start + len_utf8 ch, emitted_empty_leading, emitted_empty_trailing))
        else if \<not> emitted_empty_trailing then Some (Some [], next_start, emitted_empty_leading, True)
        else Some (None, next_start, emitted_empty_leading, emitted_empty_trailing)
      else if str_len s < next_start then Some (None, next_start, emitted_empty_leading, emitted_empty_trailing)
      else
        Option.bind (slice_from s next_start)
          (\<lambda>rest. case str_find delim rest of
                   Some rel \<Rightarrow>
                     map_option (\<lambda>out. (Some out, next_start + rel + str_len delim, emitted_empty_leading, emitted_empty_trailing))
                       (slice s next_start (next_start + rel))
                 | None \<Rightarrow> Some (Some rest, str_len s + 1, emitted_empty_leading, emitted_empty_trailing)))"

text \<open>The byte before a line end is a carriage return exactly when the character before it is one.\<close>

definition next_string_line :: "rstr \<Rightarrow> nat \<Rightarrow> bool \<Rightarrow> (rstr option \<times> nat \<times> bool) option" where
  "next_string_line s next_start finished =
     (if finished then Some (None, next_start, finished)
      else if str_len s \<le> next_start then Some (None, next_start, True)
      else
        Option.bind (slice_from s next_start)
          (\<lambda>rest. case str_find [newline] rest of
                   Some rel \<Rightarrow>
                     let line_end = next_start + rel
                     in Option.bind (slice s next_start line_end)
                          (\<lambda>l. let trimmed_end = (if next_start < line_end \<and> last l = 13 then line_end - 1 else line_end);
                                    next_start1 = line_end + 1
                                in map_option (\<lambda>out. (Some out, next_start1, str_len s \<le> next_start1))
                                     (slice s next_start trimmed_end))
                 | None \<Rightarrow> Some (Some rest, next_start, True)))"

definition next_string_char :: "rstr \<Rightarrow> nat \<Rightarrow> (32 word option \<times> nat) option" where
  "next_string_char s next_start =
     (if str_len s \<le> next_start then Some (None, next_start)
      else
        Option.bind (slice_from s next_start)
          (\<lambda>r. case r of [] \<Rightarrow> Some (None, next_start) | ch # _ \<Rightarrow> Some (Some ch, next_start + len_utf8 ch)))"

function bitset_next :: "BitSetValue \<Rightarrow> nat \<Rightarrow> 64 word \<Rightarrow> nat option \<times> nat \<times> 64 word" where
  "bitset_next b word_idx pending_word =
     (if length (bs_words b) \<le> word_idx then (None, word_idx, pending_word)
      else if pending_word = 0 then
        bitset_next b (word_idx + 1) (if word_idx + 1 < length (bs_words b) then bs_words b ! (word_idx + 1) else 0)
      else
        let bt = trailing_zeros pending_word; pending_word1 = clear_lowest pending_word; idx = word_idx * 64 + bt
        in if idx < bs_size_bits b then (Some idx, word_idx, pending_word1)
           else bitset_next b word_idx pending_word1)"
  by pat_completeness auto
termination
  by (relation "measures [\<lambda>(b, word_idx, _). length (bs_words b) - word_idx, \<lambda>(_, _, w). unat w]")
    (auto intro: clear_lowest_less)

declare bitset_next.simps [simp del]

definition next_at :: "'a list \<Rightarrow> nat \<Rightarrow> 'a option \<times> nat" where
  "next_at xs idx = (if idx < length xs then (Some (xs ! idx), idx + 1) else (None, idx))"

fun seq_source_iter_next :: "SeqSourceIter \<Rightarrow> (RVal option \<times> SeqSourceIter) option" where
  "seq_source_iter_next (ItRange current end) =
     Some (if sint end \<le> sint current then (None, ItRange current end)
           else (Some (RInt current), ItRange (current + 1) end))"
| "seq_source_iter_next (ItFromList items idx) =
     (case next_at items idx of (out, idx') \<Rightarrow> Some (out, ItFromList items idx'))"
| "seq_source_iter_next (ItBitSetValues b word_idx pending_word) =
     (case bitset_next b word_idx pending_word of
        (out, word_idx', pending_word') \<Rightarrow>
          Some (map_option (\<lambda>i. RInt (of_nat i)) out, ItBitSetValues b word_idx' pending_word'))"
| "seq_source_iter_next (ItFromDeque items idx) =
     (case next_at items idx of (out, idx') \<Rightarrow> Some (out, ItFromDeque items idx'))"
| "seq_source_iter_next (ItStringSplit s delim next_start lead trail) =
     map_option (\<lambda>(out, next_start', lead', trail'). (map_option RString out, ItStringSplit s delim next_start' lead' trail'))
       (next_string_split_part s delim next_start lead trail)"
| "seq_source_iter_next (ItStringLines s next_start finished) =
     map_option (\<lambda>(out, next_start', finished'). (map_option RString out, ItStringLines s next_start' finished'))
       (next_string_line s next_start finished)"
| "seq_source_iter_next (ItStringChars s next_start) =
     map_option (\<lambda>(out, next_start'). (map_option RChar out, ItStringChars s next_start')) (next_string_char s next_start)"
| "seq_source_iter_next (ItMapKeys es idx) =
     (case next_at es idx of (out, idx') \<Rightarrow> Some (map_option fst out, ItMapKeys es idx'))"
| "seq_source_iter_next (ItMapValues es idx) =
     (case next_at es idx of (out, idx') \<Rightarrow> Some (map_option snd out, ItMapValues es idx'))"
| "seq_source_iter_next (ItSetValues es idx) =
     (case next_at es idx of (out, idx') \<Rightarrow> Some (out, ItSetValues es idx'))"

end
