(* ===== verification/Seq_Iter.thy ===== *)
theory Seq_Iter
  imports Seq
begin

text \<open>
  Pulling and pushing the items of a plan.  Interpreted functions are called through the interpreter,
  which is a record of its operations over a state; they may fail and may not return.  Loops that
  interpreted code can keep running are cut by fuel: without fuel the result is \<^const>\<open>None\<close>.  Memory
  is unbounded: the panics of \<open>with_capacity\<close>, for windows when the iterator is made and for chunks when
  one is filled, at sizes that no allocation can have, are not modelled.
\<close>

section \<open>The interpreter around sequences\<close>

record 's Host =
  h_call_value_ref :: "RVal \<Rightarrow> RVal list \<Rightarrow> ('s, RuntimeError, RVal) eff"
  h_call_fn :: "nat \<Rightarrow> RVal list \<Rightarrow> ('s, RuntimeError, RVal) eff"
  h_into_seq_fn :: "RVal \<Rightarrow> 's \<Rightarrow> nat option"
  h_snapshot :: "nat \<Rightarrow> 's \<Rightarrow> RVal list"
  h_option_type :: "TypeItemIdx option"
  h_option_some :: "nat option"
  h_option_none :: "nat option"
  h_variants :: "TypeItemIdx \<Rightarrow> nat option"
  h_name :: "string \<Rightarrow> Name"

definition raise :: "RuntimeError \<Rightarrow> ('s, RuntimeError, 'a) eff" where
  "raise e = (\<lambda>s. Some (Inl e, s))"

fun from_result :: "RuntimeError + 'a \<Rightarrow> ('s, RuntimeError, 'a) eff" where
  "from_result (Inl e) = raise e"
| "from_result (Inr x) = ret x"

definition require_traversal_plan :: "'s Host \<Rightarrow> RVal \<Rightarrow> string \<Rightarrow> ('s, RuntimeError, SeqPlan) eff" where
  "require_traversal_plan h v intrinsic_name = (\<lambda>s.
     (case v of
        RSeq plan \<Rightarrow> ret plan
      | RList xs \<Rightarrow> ret (PSource (SrcFromList xs))
      | RMutableList xs \<Rightarrow> ret (PSource (SrcFromList (h_snapshot h xs s)))
      | RMutableDeque xs \<Rightarrow> ret (PSource (SrcFromDeque (h_snapshot h xs s)))
      | RDeque xs \<Rightarrow> ret (PSource (SrcFromDeque xs))
      | _ \<Rightarrow> raise (TypeError (intrinsic_name @ '' expects a traversal source''))) s)"

definition builtin_into_seq :: "'s Host \<Rightarrow> RVal \<Rightarrow> ('s, RuntimeError, RVal) eff" where
  "builtin_into_seq h v =
     andthen (require_traversal_plan h v ''IntoTraversal.into_seq'') (\<lambda>plan. ret (RSeq plan))"

definition require_into_traversal_plan :: "'s Host \<Rightarrow> RVal \<Rightarrow> string \<Rightarrow> ('s, RuntimeError, SeqPlan) eff" where
  "require_into_traversal_plan h v intrinsic_name = (\<lambda>s.
     case require_traversal_plan h v intrinsic_name s of
       Some (Inr plan, s') \<Rightarrow> Some (Inr plan, s')
     | _ \<Rightarrow>
         andthen (case h_into_seq_fn h v s of Some fn_idx \<Rightarrow> h_call_fn h fn_idx [v] | None \<Rightarrow> builtin_into_seq h v)
           (\<lambda>seq_value. require_traversal_plan h seq_value ''IntoTraversal.into_seq'') s)"

definition decode_option_some_payload :: "'s Host \<Rightarrow> RVal \<Rightarrow> string \<Rightarrow> RuntimeError + RVal option" where
  "decode_option_some_payload h v intrinsic_name =
     (case v of
        RAdt type_idx variant flds \<Rightarrow>
          (case h_option_type h of
             None \<Rightarrow> Inl (TypeError ''core type Option is unavailable'')
           | Some option_type_idx \<Rightarrow>
               if type_idx \<noteq> option_type_idx then Inl (TypeError (intrinsic_name @ '' expects an Option value''))
               else
                 (case h_variants h type_idx of
                    None \<Rightarrow> Inl (TypeError (intrinsic_name @ '' expects an Option ADT''))
                  | Some variants \<Rightarrow>
                      if variants \<le> variant
                      then Inl (TypeError (intrinsic_name @ '' received invalid Option variant index''))
                      else
                        (case h_option_some h of
                           None \<Rightarrow> Inl (TypeError ''core constructor Option::Some is unavailable'')
                         | Some some_variant \<Rightarrow>
                             (case h_option_none h of
                                None \<Rightarrow> Inl (TypeError ''core constructor Option::None is unavailable'')
                              | Some none_variant \<Rightarrow>
                                  if variant = some_variant then
                                    (case flds of
                                       [x] \<Rightarrow> Inr (Some x)
                                     | _ \<Rightarrow> Inl (TypeError (intrinsic_name @ '' expects Option::Some to carry one value'')))
                                  else if variant = none_variant then
                                    if flds = [] then Inr None
                                    else Inl (TypeError (intrinsic_name @ '' expects Option::None to carry no values''))
                                  else Inl (TypeError (intrinsic_name @ '' expects Option::Some/None variants''))))))
      | _ \<Rightarrow> Inl (TypeError (intrinsic_name @ '' expects an Option value'')))"

definition unfold_error :: RuntimeError where
  "unfold_error = TypeError ''seq_unfold: step must return Option<{ value: T, state: S }>''"

fun unfold_fields ::
    "Name \<Rightarrow> Name \<Rightarrow> (Name \<times> RVal) list \<Rightarrow> RVal option \<Rightarrow> RVal option \<Rightarrow> RuntimeError + RVal option \<times> RVal option" where
  "unfold_fields value_name state_name [] val st = Inr (val, st)"
| "unfold_fields value_name state_name ((field_name, field_value) # fs) val st =
     (if field_name = value_name then
        if val \<noteq> None then Inl unfold_error else unfold_fields value_name state_name fs (Some field_value) st
      else if field_name = state_name then
        if st \<noteq> None then Inl unfold_error else unfold_fields value_name state_name fs val (Some field_value)
      else Inl unfold_error)"

definition decode_unfold_step_payload :: "'s Host \<Rightarrow> RVal \<Rightarrow> RuntimeError + RVal \<times> RVal" where
  "decode_unfold_step_payload h payload =
     (case payload of
        RRecord flds _ \<Rightarrow>
          (case unfold_fields (h_name h ''value'') (h_name h ''state'') flds None None of
             Inl e \<Rightarrow> Inl e
           | Inr (Some val, Some st) \<Rightarrow> Inr (val, st)
           | Inr _ \<Rightarrow> Inl unfold_error)
      | _ \<Rightarrow> Inl unfold_error)"

text \<open>One step of an unfolding, shared by both ways of running it.\<close>

definition unfold_step :: "'s Host \<Rightarrow> RVal \<Rightarrow> RVal \<Rightarrow> ('s, RuntimeError, (RVal \<times> RVal) option) eff" where
  "unfold_step h step current_state =
     andthen (h_call_value_ref h step [current_state]) (\<lambda>step_out.
     andthen (from_result (decode_option_some_payload h step_out ''seq_unfold'')) (\<lambda>maybe_payload.
       case maybe_payload of
         None \<Rightarrow> ret None
       | Some payload \<Rightarrow> andthen (from_result (decode_unfold_step_payload h payload)) (\<lambda>r. ret (Some r))))"

definition index_record :: "'s Host \<Rightarrow> 64 word \<Rightarrow> RVal \<Rightarrow> RVal" where
  "index_record h current item = RRecord [(h_name h ''index'', RInt current), (h_name h ''value'', item)] None"

definition pair_record :: "'s Host \<Rightarrow> RVal \<Rightarrow> RVal \<Rightarrow> RVal" where
  "pair_record h l r = RRecord [(h_name h ''left'', l), (h_name h ''right'', r)] None"

definition checked_incr :: "64 word \<Rightarrow> ('s, RuntimeError, 64 word) eff" where
  "checked_incr idx = (if sint idx = 2 ^ 63 - 1 then raise IntegerOverflow else ret (idx + 1))"

section \<open>Iterators\<close>

datatype SeqIterState =
    ISource SeqSourceIter
  | IMap SeqIterState RVal
  | IFlatMap SeqIterState RVal "SeqIterState option"
  | IFilter SeqIterState RVal
  | IScan SeqIterState RVal RVal bool
  | IUnfold "RVal option" RVal
  | IEnumerate SeqIterState "64 word"
  | IZip SeqIterState SeqIterState
  | IChunks SeqIterState nat
  | IWindows SeqIterState nat "RVal list" bool

text \<open>\<open>usize::try_from(n).ok().filter(|&size| size > 0)\<close>\<close>

definition positive_size :: "64 word \<Rightarrow> nat option" where
  "positive_size n = (if 0 < sint n then Some (nat (sint n)) else None)"

fun seq_iter_from_plan :: "SeqPlan \<Rightarrow> RuntimeError + SeqIterState" where
  "seq_iter_from_plan (PSource source) = Inr (ISource (source_iter source))"
| "seq_iter_from_plan (PMap inp f) = map_sum id (\<lambda>it. IMap it f) (seq_iter_from_plan inp)"
| "seq_iter_from_plan (PFlatMap inp f) = map_sum id (\<lambda>it. IFlatMap it f None) (seq_iter_from_plan inp)"
| "seq_iter_from_plan (PFilter inp f) = map_sum id (\<lambda>it. IFilter it f) (seq_iter_from_plan inp)"
| "seq_iter_from_plan (PScan inp init f) = map_sum id (\<lambda>it. IScan it init f False) (seq_iter_from_plan inp)"
| "seq_iter_from_plan (PUnfold seed step) = Inr (IUnfold (Some seed) step)"
| "seq_iter_from_plan (PEnumerate inp) = map_sum id (\<lambda>it. IEnumerate it 0) (seq_iter_from_plan inp)"
| "seq_iter_from_plan (PZip left right) =
     (case seq_iter_from_plan left of
        Inl e \<Rightarrow> Inl e
      | Inr l \<Rightarrow> map_sum id (\<lambda>r. IZip l r) (seq_iter_from_plan right))"
| "seq_iter_from_plan (PChunks inp n) =
     (case positive_size n of
        None \<Rightarrow> Inl (TypeError ''seq_chunks: chunk size must be > 0'')
      | Some chunk_size \<Rightarrow> map_sum id (\<lambda>it. IChunks it chunk_size) (seq_iter_from_plan inp))"
| "seq_iter_from_plan (PWindows inp n) =
     (case positive_size n of
        None \<Rightarrow> Inl (TypeError ''seq_windows: window size must be > 0'')
      | Some window_size \<Rightarrow> map_sum id (\<lambda>it. IWindows it window_size [] False) (seq_iter_from_plan inp))"

type_synonym 's next_fn = "SeqIterState \<Rightarrow> ('s, RuntimeError, RVal option \<times> SeqIterState) eff"

text \<open>The loop that fills a chunk, and the one that fills the first window.\<close>

fun fill_chunk :: "'s next_fn \<Rightarrow> nat \<Rightarrow> SeqIterState \<Rightarrow> RVal list \<Rightarrow> ('s, RuntimeError, RVal list \<times> SeqIterState) eff" where
  "fill_chunk nxt 0 inp chunk = ret (chunk, inp)"
| "fill_chunk nxt (Suc k) inp chunk =
     andthen (nxt inp) (\<lambda>(r, inp'). case r of
         None \<Rightarrow> ret (chunk, inp')
       | Some item \<Rightarrow> fill_chunk nxt k inp' (chunk @ [item]))"

fun fill_window :: "'s next_fn \<Rightarrow> nat \<Rightarrow> SeqIterState \<Rightarrow> RVal list \<Rightarrow> ('s, RuntimeError, bool \<times> RVal list \<times> SeqIterState) eff" where
  "fill_window nxt 0 inp window = ret (True, window, inp)"
| "fill_window nxt (Suc k) inp window =
     andthen (nxt inp) (\<lambda>(r, inp'). case r of
         None \<Rightarrow> ret (False, window, inp')
       | Some item \<Rightarrow> fill_window nxt k inp' (window @ [item]))"

text \<open>One call, with the recursive calls given.\<close>

definition next_step :: "'s Host \<Rightarrow> 's next_fn \<Rightarrow> 's next_fn" where
  "next_step h nxt state =
     (case state of
        ISource source \<Rightarrow>
          andthen (panicking (seq_source_iter_next source)) (\<lambda>(r, source'). ret (r, ISource source'))
      | IMap inp f \<Rightarrow>
          andthen (nxt inp) (\<lambda>(r, inp'). case r of
              None \<Rightarrow> ret (None, IMap inp' f)
            | Some item \<Rightarrow> andthen (h_call_value_ref h f [item]) (\<lambda>mapped. ret (Some mapped, IMap inp' f)))
      | IFlatMap inp f (Some inner) \<Rightarrow>
          andthen (nxt inner) (\<lambda>(r, inner'). case r of
              Some item \<Rightarrow> ret (Some item, IFlatMap inp f (Some inner'))
            | None \<Rightarrow> nxt (IFlatMap inp f None))
      | IFlatMap inp f None \<Rightarrow>
          andthen (nxt inp) (\<lambda>(r, inp'). case r of
              None \<Rightarrow> ret (None, IFlatMap inp' f None)
            | Some outer_item \<Rightarrow>
                andthen (h_call_value_ref h f [outer_item]) (\<lambda>produced.
                andthen (require_into_traversal_plan h produced ''seq_flat_map'') (\<lambda>inner_plan.
                andthen (from_result (seq_iter_from_plan inner_plan)) (\<lambda>inner.
                  nxt (IFlatMap inp' f (Some inner))))))
      | IFilter inp f \<Rightarrow>
          andthen (nxt inp) (\<lambda>(r, inp'). case r of
              None \<Rightarrow> ret (None, IFilter inp' f)
            | Some item \<Rightarrow>
                andthen (h_call_value_ref h f [item]) (\<lambda>keep.
                  case keep of
                    RBool b \<Rightarrow> if b then ret (Some item, IFilter inp' f) else nxt (IFilter inp' f)
                  | _ \<Rightarrow> raise (TypeError ''seq_filter: predicate must return Bool'')))
      | IScan inp acc f emitted_init \<Rightarrow>
          if \<not> emitted_init then ret (Some acc, IScan inp acc f True)
          else
            andthen (nxt inp) (\<lambda>(r, inp'). case r of
                None \<Rightarrow> ret (None, IScan inp' acc f emitted_init)
              | Some item \<Rightarrow>
                  andthen (h_call_value_ref h f [acc, item]) (\<lambda>next_acc.
                    ret (Some next_acc, IScan inp' next_acc f emitted_init)))
      | IUnfold st step \<Rightarrow>
          (case st of
             None \<Rightarrow> ret (None, IUnfold None step)
           | Some current_state \<Rightarrow>
               andthen (unfold_step h step current_state) (\<lambda>r. case r of
                   Some (val, next_state) \<Rightarrow> ret (Some val, IUnfold (Some next_state) step)
                 | None \<Rightarrow> ret (None, IUnfold None step)))
      | IEnumerate inp idx \<Rightarrow>
          andthen (nxt inp) (\<lambda>(r, inp'). case r of
              None \<Rightarrow> ret (None, IEnumerate inp' idx)
            | Some item \<Rightarrow>
                andthen (checked_incr idx) (\<lambda>idx'. ret (Some (index_record h idx item), IEnumerate inp' idx')))
      | IZip left right \<Rightarrow>
          andthen (nxt left) (\<lambda>(l, left'). case l of
              None \<Rightarrow> ret (None, IZip left' right)
            | Some x \<Rightarrow>
                andthen (nxt right) (\<lambda>(r, right'). case r of
                    None \<Rightarrow> ret (None, IZip left' right')
                  | Some y \<Rightarrow> ret (Some (pair_record h x y), IZip left' right')))
      | IChunks inp n \<Rightarrow>
          andthen (fill_chunk nxt n inp []) (\<lambda>(chunk, inp').
            ret (if chunk = [] then None else Some (RList chunk), IChunks inp' n))
      | IWindows inp n window primed \<Rightarrow>
          if \<not> primed then
            andthen (fill_window nxt (n - length window) inp window) (\<lambda>(full, window', inp').
              ret (if full then Some (RList window') else None, IWindows inp' n window' full))
          else
            andthen (nxt inp) (\<lambda>(r, inp'). case r of
                None \<Rightarrow> ret (None, IWindows inp' n window primed)
              | Some next_item \<Rightarrow>
                  ret (Some (RList (tl window @ [next_item])), IWindows inp' n (tl window @ [next_item]) primed)))"

primrec seq_iter_next :: "nat \<Rightarrow> 's Host \<Rightarrow> 's next_fn" where
  "seq_iter_next 0 h = (\<lambda>_ _. None)"
| "seq_iter_next (Suc n) h = next_step h (seq_iter_next n h)"

section \<open>Traversal\<close>

datatype SeqEmitControl = SeqContinue | SeqBreak

text \<open>
  The variables that a traversal shares with the closure it passes on live in a frame; the frames of
  the traversals that are running form a stack, innermost first.
\<close>

record Frame =
  fr_acc :: RVal
  fr_idx :: "64 word"
  fr_items :: "RVal list"
  fr_broke :: bool

definition frame :: Frame where
  "frame = \<lparr>fr_acc = RUnit, fr_idx = 0, fr_items = [], fr_broke = False\<rparr>"

type_synonym ('s, 'a) run = "('s \<times> Frame list, RuntimeError, 'a) eff"
type_synonym 's emit_fn = "RVal \<Rightarrow> ('s, SeqEmitControl) run"

definition lift :: "('s, RuntimeError, 'a) eff \<Rightarrow> ('s, 'a) run" where
  "lift m = (\<lambda>(s, fs). map_option (\<lambda>(r, s'). (r, s', fs)) (m s))"

definition with_frame :: "Frame \<Rightarrow> ('s, 'a) run \<Rightarrow> ('s, 'a) run" where
  "with_frame f m = (\<lambda>(s, fs). map_option (\<lambda>(r, s', fs'). (r, s', tl fs')) (m (s, f # fs)))"

text \<open>Run code of the surrounding traversal, which does not see the innermost frame.\<close>

definition outside :: "('s, 'a) run \<Rightarrow> ('s, 'a) run" where
  "outside m = (\<lambda>(s, fs). case fs of [] \<Rightarrow> None | f # fs0 \<Rightarrow> map_option (\<lambda>(r, s', fs'). (r, s', f # fs')) (m (s, fs0)))"

definition get_frame :: "('s, Frame) run" where
  "get_frame = (\<lambda>(s, fs). case fs of [] \<Rightarrow> None | f # _ \<Rightarrow> Some (Inr f, s, fs))"

definition change_frame :: "(Frame \<Rightarrow> Frame) \<Rightarrow> ('s, unit) run" where
  "change_frame g = (\<lambda>(s, fs). case fs of [] \<Rightarrow> None | f # fs0 \<Rightarrow> Some (Inr (), s, g f # fs0))"

fun emit_all :: "RVal list \<Rightarrow> 's emit_fn \<Rightarrow> ('s, unit) run" where
  "emit_all [] emit = ret ()"
| "emit_all (x # xs) emit =
     andthen (emit x) (\<lambda>c. case c of SeqContinue \<Rightarrow> emit_all xs emit | SeqBreak \<Rightarrow> ret ())"

text \<open>Pass an item on and remember that the receiver stopped.\<close>

definition tracked :: "'s emit_fn \<Rightarrow> 's emit_fn" where
  "tracked emit item =
     andthen (outside (emit item)) (\<lambda>c. case c of
         SeqContinue \<Rightarrow> ret SeqContinue
       | SeqBreak \<Rightarrow> andthen (change_frame (fr_broke_update (\<lambda>_. True))) (\<lambda>_. ret SeqBreak))"

definition map_emit :: "'s Host \<Rightarrow> RVal \<Rightarrow> 's emit_fn \<Rightarrow> 's emit_fn" where
  "map_emit h f emit item = andthen (lift (h_call_value_ref h f [item])) emit"

definition flat_emit :: "'s Host \<Rightarrow> (SeqPlan \<Rightarrow> 's emit_fn \<Rightarrow> ('s, unit) run) \<Rightarrow> RVal \<Rightarrow> 's emit_fn \<Rightarrow> 's emit_fn" where
  "flat_emit h each f emit item =
     andthen (lift (h_call_value_ref h f [item])) (\<lambda>produced.
     andthen (lift (require_into_traversal_plan h produced ''seq_flat_map'')) (\<lambda>inner_plan.
       with_frame frame
         (andthen (each inner_plan (tracked emit)) (\<lambda>_.
          andthen get_frame (\<lambda>fr. ret (if fr_broke fr then SeqBreak else SeqContinue))))))"

definition filter_emit :: "'s Host \<Rightarrow> RVal \<Rightarrow> 's emit_fn \<Rightarrow> 's emit_fn" where
  "filter_emit h f emit item =
     andthen (lift (h_call_value_ref h f [item])) (\<lambda>keep.
       case keep of
         RBool b \<Rightarrow> if b then emit item else ret SeqContinue
       | _ \<Rightarrow> raise (TypeError ''seq_filter: predicate must return Bool''))"

definition scan_emit :: "'s Host \<Rightarrow> RVal \<Rightarrow> 's emit_fn \<Rightarrow> 's emit_fn" where
  "scan_emit h f emit item =
     andthen get_frame (\<lambda>fr.
     andthen (lift (h_call_value_ref h f [fr_acc fr, item])) (\<lambda>acc.
     andthen (change_frame (fr_acc_update (\<lambda>_. acc))) (\<lambda>_. outside (emit acc))))"

definition enumerate_emit :: "'s Host \<Rightarrow> 's emit_fn \<Rightarrow> 's emit_fn" where
  "enumerate_emit h emit item =
     andthen get_frame (\<lambda>fr.
     andthen (lift (checked_incr (fr_idx fr))) (\<lambda>idx.
     andthen (change_frame (fr_idx_update (\<lambda>_. idx))) (\<lambda>_. outside (emit (index_record h (fr_idx fr) item)))))"

definition chunk_emit :: "nat \<Rightarrow> 's emit_fn \<Rightarrow> 's emit_fn" where
  "chunk_emit chunk_size emit item =
     andthen (change_frame (fr_items_update (\<lambda>chunk. chunk @ [item]))) (\<lambda>_.
     andthen get_frame (\<lambda>fr.
       if length (fr_items fr) = chunk_size then
         andthen (change_frame (fr_items_update (\<lambda>_. []))) (\<lambda>_. tracked emit (RList (fr_items fr)))
       else ret SeqContinue))"

definition window_emit :: "nat \<Rightarrow> 's emit_fn \<Rightarrow> 's emit_fn" where
  "window_emit window_size emit item =
     andthen (change_frame (fr_items_update (\<lambda>window. window @ [item]))) (\<lambda>_.
     andthen get_frame (\<lambda>fr.
       if length (fr_items fr) < window_size then ret SeqContinue
       else
         andthen (outside (emit (RList (fr_items fr)))) (\<lambda>c. case c of
             SeqContinue \<Rightarrow> andthen (change_frame (fr_items_update tl)) (\<lambda>_. ret SeqContinue)
           | SeqBreak \<Rightarrow> ret SeqBreak)))"

primrec unfold_loop :: "nat \<Rightarrow> 's Host \<Rightarrow> RVal option \<Rightarrow> RVal \<Rightarrow> 's emit_fn \<Rightarrow> ('s, unit) run" where
  "unfold_loop 0 h st step emit = (\<lambda>_. None)"
| "unfold_loop (Suc n) h st step emit =
     (case st of
        None \<Rightarrow> ret ()
      | Some current_state \<Rightarrow>
          andthen (lift (unfold_step h step current_state)) (\<lambda>r. case r of
              None \<Rightarrow> ret ()
            | Some (val, next_state) \<Rightarrow>
                andthen (emit val) (\<lambda>c. case c of
                    SeqContinue \<Rightarrow> unfold_loop n h (Some next_state) step emit
                  | SeqBreak \<Rightarrow> ret ())))"

primrec zip_loop :: "nat \<Rightarrow> 's Host \<Rightarrow> SeqIterState \<Rightarrow> SeqIterState \<Rightarrow> 's emit_fn \<Rightarrow> ('s, unit) run" where
  "zip_loop 0 h left right emit = (\<lambda>_. None)"
| "zip_loop (Suc n) h left right emit =
     andthen (lift (seq_iter_next n h left)) (\<lambda>(l, left'). case l of
         None \<Rightarrow> ret ()
       | Some x \<Rightarrow>
           andthen (lift (seq_iter_next n h right)) (\<lambda>(r, right'). case r of
               None \<Rightarrow> ret ()
             | Some y \<Rightarrow>
                 andthen (emit (pair_record h x y)) (\<lambda>c. case c of
                     SeqContinue \<Rightarrow> zip_loop n h left' right' emit
                   | SeqBreak \<Rightarrow> ret ())))"

text \<open>The traversal of a plan; \<open>each\<close> traverses the plans that a flat map produces.\<close>

fun for_each_with ::
    "nat \<Rightarrow> 's Host \<Rightarrow> (SeqPlan \<Rightarrow> 's emit_fn \<Rightarrow> ('s, unit) run) \<Rightarrow> SeqPlan \<Rightarrow> 's emit_fn \<Rightarrow> ('s, unit) run" where
  "for_each_with n h each (PSource source) emit = emit_all (source_items source) emit"
| "for_each_with n h each (PMap inp f) emit = for_each_with n h each inp (map_emit h f emit)"
| "for_each_with n h each (PFlatMap inp f) emit = for_each_with n h each inp (flat_emit h each f emit)"
| "for_each_with n h each (PFilter inp f) emit = for_each_with n h each inp (filter_emit h f emit)"
| "for_each_with n h each (PScan inp init f) emit =
     andthen (emit init) (\<lambda>c. case c of
         SeqContinue \<Rightarrow> with_frame (frame\<lparr>fr_acc := init\<rparr>) (for_each_with n h each inp (scan_emit h f emit))
       | SeqBreak \<Rightarrow> ret ())"
| "for_each_with n h each (PUnfold seed step) emit = unfold_loop n h (Some seed) step emit"
| "for_each_with n h each (PEnumerate inp) emit = with_frame frame (for_each_with n h each inp (enumerate_emit h emit))"
| "for_each_with n h each (PZip left right) emit =
     andthen (lift (from_result (seq_iter_from_plan left))) (\<lambda>l.
     andthen (lift (from_result (seq_iter_from_plan right))) (\<lambda>r. zip_loop n h l r emit))"
| "for_each_with n h each (PChunks inp k) emit =
     (if sint k \<le> 0 then raise (TypeError ''seq_chunks: chunk size must be > 0'')
      else
        with_frame frame
          (andthen (for_each_with n h each inp (chunk_emit (nat (sint k)) emit)) (\<lambda>_.
           andthen get_frame (\<lambda>fr.
             if \<not> fr_broke fr \<and> fr_items fr \<noteq> [] then andthen (outside (emit (RList (fr_items fr)))) (\<lambda>_. ret ())
             else ret ()))))"
| "for_each_with n h each (PWindows inp k) emit =
     (if sint k \<le> 0 then raise (TypeError ''seq_windows: window size must be > 0'')
      else with_frame frame (for_each_with n h each inp (window_emit (nat (sint k)) emit)))"

primrec seq_for_each_control :: "nat \<Rightarrow> 's Host \<Rightarrow> SeqPlan \<Rightarrow> 's emit_fn \<Rightarrow> ('s, unit) run" where
  "seq_for_each_control 0 h = (\<lambda>_ _ _. None)"
| "seq_for_each_control (Suc n) h = for_each_with n h (seq_for_each_control n h)"

section \<open>Consumers\<close>

text \<open>\<open>seq_for_each\<close>, \<open>eval_seq_to_vec\<close> with the vector in a frame, and the loop that pulls an iterator dry.\<close>

definition seq_for_each :: "nat \<Rightarrow> 's Host \<Rightarrow> SeqPlan \<Rightarrow> (RVal \<Rightarrow> ('s, unit) run) \<Rightarrow> ('s, unit) run" where
  "seq_for_each n h plan emit = seq_for_each_control n h plan (\<lambda>item. andthen (emit item) (\<lambda>_. ret SeqContinue))"

definition eval_seq_to_vec :: "nat \<Rightarrow> 's Host \<Rightarrow> SeqPlan \<Rightarrow> ('s, RVal list) run" where
  "eval_seq_to_vec n h plan =
     with_frame frame
       (andthen (seq_for_each n h plan (\<lambda>item. change_frame (fr_items_update (\<lambda>out. out @ [item]))))
         (\<lambda>_. andthen get_frame (\<lambda>fr. ret (fr_items fr))))"

primrec pull_loop :: "nat \<Rightarrow> 's Host \<Rightarrow> SeqIterState \<Rightarrow> 's emit_fn \<Rightarrow> ('s, SeqEmitControl) run" where
  "pull_loop 0 h it emit = (\<lambda>_. None)"
| "pull_loop (Suc n) h it emit =
     andthen (lift (seq_iter_next n h it)) (\<lambda>(r, it'). case r of
         None \<Rightarrow> ret SeqContinue
       | Some item \<Rightarrow>
           andthen (emit item) (\<lambda>c. case c of SeqContinue \<Rightarrow> pull_loop n h it' emit | SeqBreak \<Rightarrow> ret SeqBreak))"

definition pull_all :: "nat \<Rightarrow> 's Host \<Rightarrow> SeqPlan \<Rightarrow> 's emit_fn \<Rightarrow> ('s, unit) run" where
  "pull_all n h plan emit =
     andthen (lift (from_result (seq_iter_from_plan plan)))
       (\<lambda>it. andthen (pull_loop n h it emit) (\<lambda>_. ret ()))"

end
