(* ===== verification/Seq_Limit.thy ===== *)
theory Seq_Limit
  imports Seq_Iter
begin

text \<open>
  Results without fuel.  A computation approximates its limit when more fuel never changes a result;
  the limits of iterators and loops satisfy the equations of the code.  The laws of frames let the
  proofs compute with them.
\<close>

section \<open>Approximation\<close>

definition le :: "('s, 'e, 'a) eff \<Rightarrow> ('s, 'e, 'a) eff \<Rightarrow> bool" where
  "le m m' \<longleftrightarrow> (\<forall>s x. m s = Some x \<longrightarrow> m' s = Some x)"

named_theorems le_intros \<open>monotonicity of computations\<close>

lemma leI: "(\<And>s x. m s = Some x \<Longrightarrow> m' s = Some x) \<Longrightarrow> le m m'"
  by (simp only: le_def) blast

lemma leD: "le m m' \<Longrightarrow> m s = Some x \<Longrightarrow> m' s = Some x"
  unfolding le_def by blast

lemma le_refl [le_intros, simp]: "le m m"
  by (rule leI)

lemma le_None [le_intros, simp]: "le (\<lambda>_. None) m"
  by (rule leI) simp

lemma le_trans [trans]: "le a b \<Longrightarrow> le b c \<Longrightarrow> le a c"
  by (blast intro: leI dest: leD)

lemma le_antisym:
  assumes "le a b" "le b a"
  shows "a = b"
proof (rule ext)
  fix s
  show "a s = b s"
    using leD[OF assms(1), of s] leD[OF assms(2), of s] by (cases "a s"; cases "b s") auto
qed

lemma andthen_Some:
  "andthen m f s = Some (r, t) \<longleftrightarrow>
     (\<exists>e. m s = Some (Inl e, t) \<and> r = Inl e) \<or> (\<exists>x s'. m s = Some (Inr x, s') \<and> f x s' = Some (r, t))"
proof (cases "m s")
  case (Some p)
  then show ?thesis
    by (cases p; cases "fst p") (auto simp: andthen_def)
qed (simp add: andthen_def)

lemma andthen_cases:
  assumes "andthen m f s = Some x"
  obtains e t where "m s = Some (Inl e, t)" "x = (Inl e, t)"
  | y s' where "m s = Some (Inr y, s')" "f y s' = Some x"
  using assms by (cases x) (auto simp: andthen_Some)

lemma andthen_Inl: "m s = Some (Inl e, t) \<Longrightarrow> andthen m f s = Some (Inl e, t)"
  by (simp add: andthen_Some)

lemma andthen_Inr: "m s = Some (Inr y, t) \<Longrightarrow> andthen m f s = f y t"
  by (simp add: andthen_def)

lemma le_andthen [le_intros]:
  assumes "le m m'" "\<And>x. le (f x) (f' x)"
  shows "le (andthen m f) (andthen m' f')"
proof (rule leI)
  fix s x
  assume "andthen m f s = Some x"
  then show "andthen m' f' s = Some x"
    by (rule andthen_cases) (simp_all add: andthen_Inl andthen_Inr leD[OF assms(1)] leD[OF assms(2)])
qed

definition approximates :: "(nat \<Rightarrow> ('s, 'e, 'a) eff) \<Rightarrow> ('s, 'e, 'a) eff \<Rightarrow> bool" where
  "approximates A m \<longleftrightarrow> (\<forall>n. le (A n) (A (Suc n))) \<and> (\<forall>n. le (A n) m) \<and> (\<forall>s. m s \<noteq> None \<longrightarrow> (\<exists>n. A n s \<noteq> None))"

named_theorems approx_intros \<open>computations and their limits\<close>

lemma chain_le:
  assumes "\<And>n. le (A n) (A (Suc n))" "n \<le> k"
  shows "le (A n) (A k)"
  using assms(2) by (induction rule: dec_induct) (auto intro: le_trans assms(1))

lemma approximates_step: "approximates A m \<Longrightarrow> le (A n) (A (Suc n))"
  by (simp add: approximates_def)

lemma approximates_chain: "approximates A m \<Longrightarrow> n \<le> k \<Longrightarrow> le (A n) (A k)"
  using chain_le approximates_step by blast

lemma approximates_le: "approximates A m \<Longrightarrow> le (A n) m"
  by (simp add: approximates_def)

lemma approximatesD:
  assumes "approximates A m" "m s = Some x"
  obtains n where "A n s = Some x"
proof -
  obtain n where "A n s \<noteq> None"
    using assms by (force simp: approximates_def)
  then show thesis
    using that leD[OF approximates_le[OF assms(1)], of n s] assms(2) by fastforce
qed

lemma approximates_iff:
  assumes "approximates A m"
  shows "(\<exists>n. A n s = Some x) \<longleftrightarrow> m s = Some x"
  by (blast intro: leD[OF approximates_le[OF assms]] elim: approximatesD[OF assms])

lemma approximates_least:
  assumes "approximates A m" "\<And>n. le (A n) m'"
  shows "le m m'"
proof (rule leI)
  fix s x
  assume "m s = Some x"
  then obtain n where "A n s = Some x"
    by (rule approximatesD[OF assms(1)])
  then show "m' s = Some x"
    by (rule leD[OF assms(2)])
qed

lemma approximates_unique: "approximates A m \<Longrightarrow> approximates A m' \<Longrightarrow> m = m'"
  by (blast intro: le_antisym approximates_least approximates_le)

lemma approx_const [approx_intros]: "approximates (\<lambda>_. m) m"
  by (simp add: approximates_def)

lemma approx_andthen [approx_intros]:
  assumes "approximates A m" "\<And>x. approximates (\<lambda>n. F n x) (f x)"
  shows "approximates (\<lambda>n. andthen (A n) (F n)) (andthen m f)"
  unfolding approximates_def
proof (intro conjI allI impI)
  show "le (andthen (A n) (F n)) (andthen (A (Suc n)) (F (Suc n)))" for n
    by (intro le_andthen approximates_step[OF assms(1)] approximates_step[OF assms(2)])
  show "le (andthen (A n) (F n)) (andthen m f)" for n
    by (intro le_andthen approximates_le[OF assms(1)] approximates_le[OF assms(2)])
  fix s
  assume "andthen m f s \<noteq> None"
  then obtain x where "andthen m f s = Some x"
    by blast
  then show "\<exists>n. andthen (A n) (F n) s \<noteq> None"
  proof (rule andthen_cases)
    fix e t
    assume "m s = Some (Inl e, t)"
    then obtain n where "A n s = Some (Inl e, t)"
      by (rule approximatesD[OF assms(1)])
    then show ?thesis
      by (auto dest: andthen_Inl)
  next
    fix y s'
    assume "m s = Some (Inr y, s')" "f y s' = Some x"
    then obtain i j where "A i s = Some (Inr y, s')" "F j y s' = Some x"
      using approximatesD[OF assms(1)] approximatesD[OF assms(2)] by metis
    then have "A (max i j) s = Some (Inr y, s')" "F (max i j) y s' = Some x"
      using leD[OF approximates_chain[OF assms(1), of i "max i j"]]
        leD[OF approximates_chain[OF assms(2), of j "max i j" y]] by simp_all
    then show ?thesis
      by (metis andthen_Inr not_None_eq)
  qed
qed

lemma approximates_Suc:
  assumes "approximates (\<lambda>n. A (Suc n)) m" "le (A 0) (A (Suc 0))"
  shows "approximates A m"
proof -
  have step: "le (A n) (A (Suc n))" for n
    using assms approximates_step[OF assms(1)] by (cases n) auto
  moreover have "le (A n) m" for n
    using step approximates_le[OF assms(1)] by (rule le_trans)
  ultimately show ?thesis
    using assms(1) unfolding approximates_def by blast
qed

definition lim :: "(nat \<Rightarrow> ('s, 'e, 'a) eff) \<Rightarrow> ('s, 'e, 'a) eff" where
  "lim A = (\<lambda>s. A (LEAST n. A n s \<noteq> None) s)"

lemma approximates_lim:
  assumes "\<And>n. le (A n) (A (Suc n))"
  shows "approximates A (lim A)"
proof -
  have "le (A n) (lim A)" for n
  proof (rule leI)
    fix s x
    assume x: "A n s = Some x"
    then have "A (LEAST n. A n s \<noteq> None) s \<noteq> None"
      by (intro LeastI[of "\<lambda>n. A n s \<noteq> None" n]) simp
    then obtain y where y: "A (LEAST n. A n s \<noteq> None) s = Some y"
      by blast
    have "(LEAST n. A n s \<noteq> None) \<le> n"
      using x by (simp add: Least_le)
    then have "A n s = Some y"
      by (rule leD[OF chain_le[of A, OF assms] y])
    then show "lim A s = Some x"
      using x y by (simp add: lim_def)
  qed
  moreover have "\<exists>n. A n s \<noteq> None" if "lim A s \<noteq> None" for s
    using that unfolding lim_def by blast
  ultimately show ?thesis
    using assms by (simp add: approximates_def)
qed

section \<open>Iterators without fuel\<close>

lemma le_fill_chunk [le_intros]: "(\<And>it. le (f it) (g it)) \<Longrightarrow> le (fill_chunk f k inp chunk) (fill_chunk g k inp chunk)"
  by (induction k arbitrary: inp chunk) (auto intro!: le_intros split: option.split)

lemma le_fill_window [le_intros]: "(\<And>it. le (f it) (g it)) \<Longrightarrow> le (fill_window f k inp w) (fill_window g k inp w)"
  by (induction k arbitrary: inp w) (auto intro!: le_intros split: option.split)

lemma approx_fill_chunk [approx_intros]:
  "(\<And>it. approximates (\<lambda>n. A n it) (f it)) \<Longrightarrow> approximates (\<lambda>n. fill_chunk (A n) k inp chunk) (fill_chunk f k inp chunk)"
proof (induction k arbitrary: inp chunk)
  case (Suc k)
  show ?case
    unfolding fill_chunk.simps
    by (intro approx_andthen Suc.prems) (auto intro!: approx_intros Suc split: option.split prod.split)
qed (simp add: approx_const)

lemma approx_fill_window [approx_intros]:
  "(\<And>it. approximates (\<lambda>n. A n it) (f it)) \<Longrightarrow> approximates (\<lambda>n. fill_window (A n) k inp w) (fill_window f k inp w)"
proof (induction k arbitrary: inp w)
  case (Suc k)
  show ?case
    unfolding fill_window.simps
    by (intro approx_andthen Suc.prems) (auto intro!: approx_intros Suc split: option.split prod.split)
qed (simp add: approx_const)

lemma le_next_step:
  assumes "\<And>it. le (f it) (g it)"
  shows "le (next_step h f it) (next_step h g it)"
proof (cases it)
  case (IFlatMap inp k cur)
  then show ?thesis
    by (cases cur) (auto simp: next_step_def intro!: le_intros assms split: option.split prod.split)
next
  case (IUnfold st step)
  then show ?thesis
    by (cases st) (auto simp: next_step_def)
qed (auto simp: next_step_def intro!: le_intros assms split: option.split prod.split RVal.split)

lemma le_next: "le (seq_iter_next n h it) (seq_iter_next (Suc n) h it)"
proof (induction n arbitrary: it)
  case (Suc n)
  then show ?case
    unfolding seq_iter_next.simps(2)[of "Suc n"] seq_iter_next.simps(2)[of n] by (intro le_next_step)
qed simp

definition NX :: "'s Host \<Rightarrow> 's next_fn" where
  "NX h it = lim (\<lambda>n. seq_iter_next n h it)"

lemma approx_NX [approx_intros]: "approximates (\<lambda>n. seq_iter_next n h it) (NX h it)"
  unfolding NX_def by (rule approximates_lim) (rule le_next)

lemma approx_next_step:
  assumes "\<And>it. approximates (\<lambda>n. A n it) (f it)"
  shows "approximates (\<lambda>n. next_step h (A n) it) (next_step h f it)"
proof (cases it)
  case (IFlatMap inp k cur)
  then show ?thesis
    by (cases cur) (auto simp: next_step_def intro!: approx_intros assms split: option.split prod.split)
next
  case (IUnfold st step)
  then show ?thesis
    by (cases st) (auto simp: next_step_def approx_const)
qed (auto simp: next_step_def intro!: approx_intros assms split: option.split prod.split RVal.split)

lemma NX_eq: "NX h it = next_step h (NX h) it"
proof -
  have "approximates (\<lambda>n. seq_iter_next (Suc n) h it) (next_step h (NX h) it)"
    unfolding seq_iter_next.simps(2) by (intro approx_next_step approx_NX)
  then have "approximates (\<lambda>n. seq_iter_next n h it) (next_step h (NX h) it)"
    by (rule approximates_Suc) simp
  then show ?thesis
    by (rule approximates_unique[OF approx_NX])
qed

section \<open>Laws of computations and frames\<close>

named_theorems run_laws \<open>equations of computations\<close>

lemma andthen_assoc [run_laws]: "andthen (andthen m f) g = andthen m (\<lambda>x. andthen (f x) g)"
  by (rule ext) (simp add: andthen_def split: option.split sum.split)

lemma ret_andthen [run_laws]: "andthen (ret x) f = f x"
  by (simp add: ret_def andthen_def)

lemma raise_andthen [run_laws]: "andthen (raise e) f = raise e"
  by (simp add: raise_def andthen_def)

lemma andthen_ret [run_laws]: "andthen m ret = m"
  by (rule ext) (auto simp: andthen_def ret_def split: option.split sum.split)

lemma lift_andthen [run_laws]: "lift (andthen m f) = andthen (lift m) (\<lambda>x. lift (f x))"
  by (rule ext) (auto simp: andthen_def lift_def split: option.split sum.split)

lemma lift_ret [run_laws]: "lift (ret x) = ret x"
  by (rule ext) (simp add: lift_def ret_def split: prod.split)

lemma lift_raise [run_laws]: "lift (raise e) = raise e"
  by (rule ext) (simp add: lift_def raise_def split: prod.split)

lemma with_frame_ret [run_laws]: "with_frame fr (ret x) = ret x"
  by (rule ext) (simp add: with_frame_def ret_def split: prod.split)

lemma with_frame_raise [run_laws]: "with_frame fr (raise e) = raise e"
  by (rule ext) (simp add: with_frame_def raise_def split: prod.split)

lemma with_frame_lift [run_laws]: "with_frame fr (andthen (lift m) k) = andthen (lift m) (\<lambda>x. with_frame fr (k x))"
  by (rule ext) (auto simp: with_frame_def lift_def andthen_def split: option.split sum.split)

lemma with_frame_get [run_laws]: "with_frame fr (andthen get_frame k) = with_frame fr (k fr)"
  by (rule ext) (simp add: with_frame_def get_frame_def andthen_def split: prod.split)

lemma with_frame_change [run_laws]: "with_frame fr (andthen (change_frame g) k) = with_frame (g fr) (k ())"
  by (rule ext) (simp add: with_frame_def change_frame_def andthen_def split: prod.split)

lemma with_frame_outside [run_laws]: "with_frame fr (andthen (outside m) k) = andthen m (\<lambda>x. with_frame fr (k x))"
  by (rule ext) (auto simp: with_frame_def outside_def andthen_def split: option.split sum.split)

lemma with_frame_outside_end [run_laws]: "with_frame fr (outside m) = m"
  using with_frame_outside[of fr m ret] by (simp only: andthen_ret with_frame_ret)

lemma le_lift [le_intros]: "le m m' \<Longrightarrow> le (lift m) (lift m')"
  unfolding lift_def by (rule leI) (auto dest: leD)

lemma le_with_frame [le_intros]: "le m m' \<Longrightarrow> le (with_frame fr m) (with_frame fr m')"
  unfolding with_frame_def by (rule leI) (auto dest: leD)

lemma le_outside [le_intros]: "le m m' \<Longrightarrow> le (outside m) (outside m')"
proof (rule leI)
  fix s x
  assume le: "le m m'" and x: "outside m s = Some x"
  obtain s0 fr fs where s: "s = (s0, fr # fs)"
    using x by (cases s; cases "snd s") (auto simp: outside_def)
  then obtain r s1 fs1 where "m (s0, fs) = Some (r, s1, fs1)" "x = (r, s1, fr # fs1)"
    using x by (auto simp: outside_def)
  then show "outside m' s = Some x"
    using leD[OF le] s by (auto simp: outside_def)
qed

lemma approx_run:
  assumes "approximates A m" "\<And>m m'. le m m' \<Longrightarrow> le (T m) (T m')"
    "\<And>m s. T m s \<noteq> None \<longleftrightarrow> P s \<and> m (g s) \<noteq> None"
  shows "approximates (\<lambda>n. T (A n)) (T m)"
  unfolding approximates_def
proof (intro conjI allI impI)
  show "le (T (A n)) (T (A (Suc n)))" "le (T (A n)) (T m)" for n
    using assms(2) approximates_step[OF assms(1)] approximates_le[OF assms(1)] by blast+
  fix s
  assume "T m s \<noteq> None"
  then have P: "P s" "m (g s) \<noteq> None"
    using assms(3) by blast+
  then obtain n where "A n (g s) \<noteq> None"
    using assms(1) unfolding approximates_def by blast
  then show "\<exists>n. T (A n) s \<noteq> None"
    using assms(3) P(1) by blast
qed

lemma approx_lift [approx_intros]: "approximates A m \<Longrightarrow> approximates (\<lambda>n. lift (A n)) (lift m)"
  by (rule approx_run[where T = lift and P = "\<lambda>_. True" and g = fst]) (auto intro: le_intros, auto simp: lift_def split: prod.splits)

lemma approx_with_frame [approx_intros]: "approximates A m \<Longrightarrow> approximates (\<lambda>n. with_frame fr (A n)) (with_frame fr m)"
  by (rule approx_run[where T = "with_frame fr" and P = "\<lambda>_. True" and g = "\<lambda>(s, fs). (s, fr # fs)"])
    (auto intro: le_intros, auto simp: with_frame_def split: prod.splits)

lemma approx_outside [approx_intros]: "approximates A m \<Longrightarrow> approximates (\<lambda>n. outside (A n)) (outside m)"
  by (rule approx_run[where T = outside and P = "\<lambda>(s, fs). fs \<noteq> []" and g = "\<lambda>(s, fs). (s, tl fs)"])
    (auto intro: le_intros, auto simp: outside_def split: prod.splits list.splits)

text \<open>Monotonicity with what is known of the intermediate result.\<close>

lemma le_andthen_result:
  assumes "\<And>s x s'. m s = Some (Inr x, s') \<Longrightarrow> le (f x) (f' x)"
  shows "le (andthen m f) (andthen m f')"
proof (rule leI)
  fix s x
  assume "andthen m f s = Some x"
  then show "andthen m f' s = Some x"
  proof (rule andthen_cases)
    fix y s'
    assume y: "m s = Some (Inr y, s')" "f y s' = Some x"
    then show ?thesis
      using leD[OF assms[OF y(1)]] by (simp add: andthen_Inr)
  qed (simp add: andthen_Inl)
qed

section \<open>Pulling without fuel\<close>

definition pull_step :: "'s Host \<Rightarrow> 's emit_fn \<Rightarrow> (SeqIterState \<Rightarrow> ('s, unit) run) \<Rightarrow> 's next_fn \<Rightarrow> SeqIterState \<Rightarrow> ('s, unit) run" where
  "pull_step h emit rest nxt it =
     andthen (lift (nxt it)) (\<lambda>(r, it'). case r of
         None \<Rightarrow> ret ()
       | Some item \<Rightarrow> andthen (emit item) (\<lambda>c. case c of SeqContinue \<Rightarrow> rest it' | SeqBreak \<Rightarrow> ret ()))"

definition pull_unit :: "nat \<Rightarrow> 's Host \<Rightarrow> SeqIterState \<Rightarrow> 's emit_fn \<Rightarrow> ('s, unit) run" where
  "pull_unit n h it emit = andthen (pull_loop n h it emit) (\<lambda>_. ret ())"

lemma pull_unit_0 [simp]: "pull_unit 0 h it emit = (\<lambda>_. None)"
  by (simp add: pull_unit_def andthen_def)

lemma pull_unit_Suc: "pull_unit (Suc n) h it emit = pull_step h emit (\<lambda>it'. pull_unit n h it' emit) (seq_iter_next n h) it"
proof -
  have cont: "andthen (case c of SeqContinue \<Rightarrow> m | SeqBreak \<Rightarrow> ret SeqBreak) (\<lambda>_. ret ()) =
      (case c of SeqContinue \<Rightarrow> andthen m (\<lambda>_. ret ()) | SeqBreak \<Rightarrow> ret ())" for c m
    by (cases c) (simp_all add: ret_andthen)
  show ?thesis
    unfolding pull_unit_def pull_step_def pull_loop.simps andthen_assoc
  proof (rule arg_cong[where f = "andthen (lift (seq_iter_next n h it))"], rule ext, clarify)
    fix r it'
    show "andthen (case r of None \<Rightarrow> ret SeqContinue
          | Some item \<Rightarrow> andthen (emit item) (\<lambda>c. case c of SeqContinue \<Rightarrow> pull_loop n h it' emit | SeqBreak \<Rightarrow> ret SeqBreak)) (\<lambda>_. ret ()) =
        (case r of None \<Rightarrow> ret ()
          | Some item \<Rightarrow> andthen (emit item) (\<lambda>c. case c of SeqContinue \<Rightarrow> andthen (pull_loop n h it' emit) (\<lambda>_. ret ()) | SeqBreak \<Rightarrow> ret ()))"
      by (cases r) (simp_all only: option.case andthen_assoc ret_andthen cont)
  qed
qed

lemma le_pull_step [le_intros]:
  assumes "\<And>item. le (emit item) (emit' item)" "\<And>it. le (rest it) (rest' it)" "\<And>it. le (nxt it) (nxt' it)"
  shows "le (pull_step h emit rest nxt it) (pull_step h emit' rest' nxt' it)"
  unfolding pull_step_def
  by (auto intro!: le_intros assms split: option.split prod.split SeqEmitControl.split)

lemma le_pull_unit: "(\<And>item. le (emit item) (emit' item)) \<Longrightarrow> n \<le> m \<Longrightarrow> le (pull_unit n h it emit) (pull_unit m h it emit')"
proof (induction n arbitrary: m it)
  case (Suc n)
  then obtain k where m: "m = Suc k" "n \<le> k"
    by (cases m) auto
  have "le (seq_iter_next n h it) (seq_iter_next k h it)" for it
    by (rule chain_le[where A = "\<lambda>n. seq_iter_next n h it"]) (use le_next m(2) in auto)
  then show ?case
    unfolding m(1) pull_unit_Suc by (intro le_pull_step Suc.prems(1) Suc.IH m(2))
qed simp

definition DR :: "'s Host \<Rightarrow> SeqIterState \<Rightarrow> 's emit_fn \<Rightarrow> ('s, unit) run" where
  "DR h it emit = lim (\<lambda>n. pull_unit n h it emit)"

lemma approx_DR_const: "approximates (\<lambda>n. pull_unit n h it emit) (DR h it emit)"
  unfolding DR_def by (rule approximates_lim) (rule le_pull_unit, simp_all)

lemma approx_pull_step [approx_intros]:
  assumes "\<And>item. approximates (\<lambda>n. En n item) (emit item)" "\<And>it. approximates (\<lambda>n. R n it) (rest it)"
    "\<And>it. approximates (\<lambda>n. A n it) (nxt it)"
  shows "approximates (\<lambda>n. pull_step h (En n) (R n) (A n) it) (pull_step h emit rest nxt it)"
  unfolding pull_step_def
  by (auto intro!: approx_intros assms split: option.split prod.split SeqEmitControl.split)

lemma DR_eq: "DR h it emit = pull_step h emit (\<lambda>it'. DR h it' emit) (NX h) it"
proof -
  have "approximates (\<lambda>n. pull_unit (Suc n) h it emit) (pull_step h emit (\<lambda>it'. DR h it' emit) (NX h) it)"
    unfolding pull_unit_Suc by (intro approx_pull_step approx_const approx_DR_const approx_NX)
  then have "approximates (\<lambda>n. pull_unit n h it emit) (pull_step h emit (\<lambda>it'. DR h it' emit) (NX h) it)"
    by (rule approximates_Suc) simp
  then show ?thesis
    by (rule approximates_unique[OF approx_DR_const])
qed

lemma DR_least:
  assumes "P it" "\<And>it. P it \<Longrightarrow> le (pull_step h emit F (NX h) it) (F it)"
    "\<And>it s r it' s'. P it \<Longrightarrow> NX h it s = Some (Inr (r, it'), s') \<Longrightarrow> P it'"
  shows "le (DR h it emit) (F it)"
proof (rule approximates_least[OF approx_DR_const])
  show "le (pull_unit n h it emit) (F it)" for n
    using assms(1)
  proof (induction n arbitrary: it)
    case (Suc n)
    have "le (pull_unit (Suc n) h it emit) (pull_step h emit (\<lambda>it'. pull_unit n h it' emit) (NX h) it)"
      unfolding pull_unit_Suc by (intro le_pull_step le_refl approximates_le[OF approx_NX])
    also have "le (pull_step h emit (\<lambda>it'. pull_unit n h it' emit) (NX h) it) (pull_step h emit F (NX h) it)"
      unfolding pull_step_def
    proof (rule le_andthen_result)
      fix s x s'
      assume x: "lift (NX h it) s = Some (Inr x, s')"
      obtain r it' where r: "x = (r, it')"
        by (cases x)
      have "P it'"
        using assms(3)[OF Suc.prems, of "fst s" r it'] x r by (auto simp: lift_def split: prod.splits)
      then show "le (case x of (r, it') \<Rightarrow> case r of None \<Rightarrow> ret ()
            | Some item \<Rightarrow> andthen (emit item) (\<lambda>c. case c of SeqContinue \<Rightarrow> pull_unit n h it' emit | SeqBreak \<Rightarrow> ret ()))
          (case x of (r, it') \<Rightarrow> case r of None \<Rightarrow> ret ()
            | Some item \<Rightarrow> andthen (emit item) (\<lambda>c. case c of SeqContinue \<Rightarrow> F it' | SeqBreak \<Rightarrow> ret ()))"
        unfolding r by (auto intro!: le_intros Suc.IH split: option.split SeqEmitControl.split)
    qed
    also have "le (pull_step h emit F (NX h) it) (F it)"
      using Suc.prems by (rule assms(2))
    finally show ?case .
  qed simp
qed

end
