(* ===== verification/Seq_Fused.thy ===== *)
theory Seq_Fused
  imports Seq_Limit
begin

text \<open>
  The equations of the iterators without fuel, and the plans whose iterators stay at their end: what
  the comparison of pulling and traversing needs to know of them.
\<close>

section \<open>Distribution over case distinctions\<close>

named_theorems run_dist \<open>computations commute with case distinctions\<close>

lemma lift_option [run_dist]:
  "lift (case r of None \<Rightarrow> a | Some x \<Rightarrow> f x) = (case r of None \<Rightarrow> lift a | Some x \<Rightarrow> lift (f x))"
  by (cases r) simp_all

lemma andthen_option [run_dist]:
  "andthen (case r of None \<Rightarrow> a | Some x \<Rightarrow> f x) k = (case r of None \<Rightarrow> andthen a k | Some x \<Rightarrow> andthen (f x) k)"
  by (cases r) simp_all

lemma with_frame_option [run_dist]:
  "with_frame fr (case r of None \<Rightarrow> a | Some x \<Rightarrow> f x) = (case r of None \<Rightarrow> with_frame fr a | Some x \<Rightarrow> with_frame fr (f x))"
  by (cases r) simp_all

lemma andthen_control [run_dist]:
  "andthen (case c of SeqContinue \<Rightarrow> a | SeqBreak \<Rightarrow> b) k = (case c of SeqContinue \<Rightarrow> andthen a k | SeqBreak \<Rightarrow> andthen b k)"
  by (cases c) simp_all

lemma with_frame_control [run_dist]:
  "with_frame fr (case c of SeqContinue \<Rightarrow> a | SeqBreak \<Rightarrow> b) =
    (case c of SeqContinue \<Rightarrow> with_frame fr a | SeqBreak \<Rightarrow> with_frame fr b)"
  by (cases c) simp_all

lemma lift_if [run_dist]: "lift (if b then x else y) = (if b then lift x else lift y)"
  by simp

lemma andthen_if [run_dist]: "andthen (if b then x else y) k = (if b then andthen x k else andthen y k)"
  by simp

lemma with_frame_if [run_dist]: "with_frame fr (if b then x else y) = (if b then with_frame fr x else with_frame fr y)"
  by simp

lemma lift_bool [run_dist]:
  "lift (case v of RBool b \<Rightarrow> f b | _ \<Rightarrow> x) = (case v of RBool b \<Rightarrow> lift (f b) | _ \<Rightarrow> lift x)"
  by (cases v) simp_all

lemma andthen_bool [run_dist]:
  "andthen (case v of RBool b \<Rightarrow> f b | _ \<Rightarrow> x) k = (case v of RBool b \<Rightarrow> andthen (f b) k | _ \<Rightarrow> andthen x k)"
  by (cases v) simp_all

lemmas run_congs = option.case_cong SeqEmitControl.case_cong RVal.case_cong if_cong

section \<open>Calls of each iterator\<close>

lemma NX_Source:
  "NX h (ISource src) = andthen (panicking (seq_source_iter_next src)) (\<lambda>(r, src'). ret (r, ISource src'))"
  by (subst NX_eq) (simp add: next_step_def)

lemma NX_Map:
  "NX h (IMap inp f) =
     andthen (NX h inp) (\<lambda>x. case fst x of
         None \<Rightarrow> ret (None, IMap (snd x) f)
       | Some item \<Rightarrow> andthen (h_call_value_ref h f [item]) (\<lambda>mapped. ret (Some mapped, IMap (snd x) f)))"
  by (subst NX_eq) (simp add: next_step_def case_prod_unfold cong: run_congs)

lemma NX_FlatMap_Some:
  "NX h (IFlatMap inp f (Some inner)) =
     andthen (NX h inner) (\<lambda>x. case fst x of
         Some item \<Rightarrow> ret (Some item, IFlatMap inp f (Some (snd x)))
       | None \<Rightarrow> NX h (IFlatMap inp f None))"
  by (subst NX_eq) (simp add: next_step_def case_prod_unfold cong: run_congs)

lemma NX_FlatMap_None:
  "NX h (IFlatMap inp f None) =
     andthen (NX h inp) (\<lambda>x. case fst x of
         None \<Rightarrow> ret (None, IFlatMap (snd x) f None)
       | Some outer_item \<Rightarrow>
           andthen (h_call_value_ref h f [outer_item]) (\<lambda>produced.
           andthen (require_into_traversal_plan h produced ''seq_flat_map'') (\<lambda>inner_plan.
           andthen (from_result (seq_iter_from_plan inner_plan)) (\<lambda>inner.
             NX h (IFlatMap (snd x) f (Some inner))))))"
  by (subst NX_eq) (simp add: next_step_def case_prod_unfold cong: run_congs)

lemma NX_Filter:
  "NX h (IFilter inp f) =
     andthen (NX h inp) (\<lambda>x. case fst x of
         None \<Rightarrow> ret (None, IFilter (snd x) f)
       | Some item \<Rightarrow>
           andthen (h_call_value_ref h f [item]) (\<lambda>keep.
             case keep of
               RBool b \<Rightarrow> if b then ret (Some item, IFilter (snd x) f) else NX h (IFilter (snd x) f)
             | _ \<Rightarrow> raise (TypeError ''seq_filter: predicate must return Bool'')))"
  by (subst NX_eq) (simp add: next_step_def case_prod_unfold cong: run_congs)

lemma NX_Scan:
  "NX h (IScan inp acc f False) = ret (Some acc, IScan inp acc f True)"
  "NX h (IScan inp acc f True) =
     andthen (NX h inp) (\<lambda>x. case fst x of
         None \<Rightarrow> ret (None, IScan (snd x) acc f True)
       | Some item \<Rightarrow>
           andthen (h_call_value_ref h f [acc, item]) (\<lambda>next_acc. ret (Some next_acc, IScan (snd x) next_acc f True)))"
  by (subst NX_eq, simp add: next_step_def case_prod_unfold cong: run_congs)+

lemma NX_Unfold:
  "NX h (IUnfold st step) =
     (case st of
        None \<Rightarrow> ret (None, IUnfold None step)
      | Some current_state \<Rightarrow>
          andthen (unfold_step h step current_state) (\<lambda>r. case r of
              Some (val, next_state) \<Rightarrow> ret (Some val, IUnfold (Some next_state) step)
            | None \<Rightarrow> ret (None, IUnfold None step)))"
  by (subst NX_eq) (simp add: next_step_def)

lemma NX_Enumerate:
  "NX h (IEnumerate inp idx) =
     andthen (NX h inp) (\<lambda>x. case fst x of
         None \<Rightarrow> ret (None, IEnumerate (snd x) idx)
       | Some item \<Rightarrow>
           andthen (checked_incr idx) (\<lambda>idx'. ret (Some (index_record h idx item), IEnumerate (snd x) idx')))"
  by (subst NX_eq) (simp add: next_step_def case_prod_unfold cong: run_congs)

lemma NX_Zip:
  "NX h (IZip left right) =
     andthen (NX h left) (\<lambda>x. case fst x of
         None \<Rightarrow> ret (None, IZip (snd x) right)
       | Some l \<Rightarrow>
           andthen (NX h right) (\<lambda>y. case fst y of
               None \<Rightarrow> ret (None, IZip (snd x) (snd y))
             | Some r \<Rightarrow> ret (Some (pair_record h l r), IZip (snd x) (snd y))))"
  by (subst NX_eq) (simp add: next_step_def case_prod_unfold cong: run_congs)

lemma NX_Chunks:
  "NX h (IChunks inp n) =
     andthen (fill_chunk (NX h) n inp []) (\<lambda>x. ret (if fst x = [] then None else Some (RList (fst x)), IChunks (snd x) n))"
  by (subst NX_eq) (simp add: next_step_def case_prod_unfold cong: run_congs)

lemma NX_Windows:
  "NX h (IWindows inp n window False) =
     andthen (fill_window (NX h) (n - length window) inp window) (\<lambda>x.
       ret (if fst x then Some (RList (fst (snd x))) else None, IWindows (snd (snd x)) n (fst (snd x)) (fst x)))"
  "NX h (IWindows inp n window True) =
     andthen (NX h inp) (\<lambda>x. case fst x of
         None \<Rightarrow> ret (None, IWindows (snd x) n window True)
       | Some next_item \<Rightarrow>
           ret (Some (RList (tl window @ [next_item])), IWindows (snd x) n (tl window @ [next_item]) True))"
  by (subst NX_eq, simp add: next_step_def case_prod_unfold cong: run_congs)+

lemma pull_step_unfold:
  "pull_step h emit rest nxt it =
     andthen (lift (nxt it)) (\<lambda>x. case fst x of
         None \<Rightarrow> ret ()
       | Some item \<Rightarrow> andthen (emit item) (\<lambda>c. case c of SeqContinue \<Rightarrow> rest (snd x) | SeqBreak \<Rightarrow> ret ()))"
  by (simp add: pull_step_def case_prod_unfold)

section \<open>Plans and iterators that behave\<close>

text \<open>The sizes that \<open>seq_chunks\<close> and \<open>seq_windows\<close> accept.\<close>

fun sizes_ok :: "SeqPlan \<Rightarrow> bool" where
  "sizes_ok (PSource _) = True"
| "sizes_ok (PMap inp _) = sizes_ok inp"
| "sizes_ok (PFlatMap inp _) = sizes_ok inp"
| "sizes_ok (PFilter inp _) = sizes_ok inp"
| "sizes_ok (PScan inp _ _) = sizes_ok inp"
| "sizes_ok (PUnfold _ _) = True"
| "sizes_ok (PEnumerate inp) = sizes_ok inp"
| "sizes_ok (PZip left right) = (sizes_ok left \<and> sizes_ok right)"
| "sizes_ok (PChunks inp n) = (sizes_ok inp \<and> 0 < sint n)"
| "sizes_ok (PWindows inp n) = (sizes_ok inp \<and> 0 < sint n)"

text \<open>A plan whose iterator, once at its end, runs no interpreted code when it is polled again: no zip
  at the end of the pipeline.\<close>

fun fused_plan :: "SeqPlan \<Rightarrow> bool" where
  "fused_plan (PSource _) = True"
| "fused_plan (PMap inp _) = fused_plan inp"
| "fused_plan (PFlatMap inp _) = fused_plan inp"
| "fused_plan (PFilter inp _) = fused_plan inp"
| "fused_plan (PScan inp _ _) = fused_plan inp"
| "fused_plan (PUnfold _ _) = True"
| "fused_plan (PEnumerate inp) = fused_plan inp"
| "fused_plan (PZip _ _) = False"
| "fused_plan (PChunks inp _) = fused_plan inp"
| "fused_plan (PWindows inp _) = fused_plan inp"

fun chunks_fused :: "SeqPlan \<Rightarrow> bool" where
  "chunks_fused (PSource _) = True"
| "chunks_fused (PMap inp _) = chunks_fused inp"
| "chunks_fused (PFlatMap inp _) = chunks_fused inp"
| "chunks_fused (PFilter inp _) = chunks_fused inp"
| "chunks_fused (PScan inp _ _) = chunks_fused inp"
| "chunks_fused (PUnfold _ _) = True"
| "chunks_fused (PEnumerate inp) = chunks_fused inp"
| "chunks_fused (PZip _ _) = True"
| "chunks_fused (PChunks inp _) = (chunks_fused inp \<and> fused_plan inp)"
| "chunks_fused (PWindows inp _) = chunks_fused inp"

definition plan_ok :: "SeqPlan \<Rightarrow> bool" where
  "plan_ok plan \<longleftrightarrow> sizes_ok plan \<and> chunks_fused plan"

text \<open>Interpreted code makes only such plans.\<close>

definition value_ok :: "RVal \<Rightarrow> bool" where
  "value_ok v \<longleftrightarrow> (case v of RSeq plan \<Rightarrow> plan_ok plan | _ \<Rightarrow> True)"

definition host_ok :: "'s Host \<Rightarrow> bool" where
  "host_ok h \<longleftrightarrow>
     (\<forall>f args s v s'. h_call_value_ref h f args s = Some (Inr v, s') \<longrightarrow> value_ok v) \<and>
     (\<forall>f args s v s'. h_call_fn h f args s = Some (Inr v, s') \<longrightarrow> value_ok v)"

lemma host_okD: "host_ok h \<Longrightarrow> h_call_value_ref h f args s = Some (Inr v, s') \<Longrightarrow> value_ok v"
  unfolding host_ok_def by blast

fun fused :: "SeqIterState \<Rightarrow> bool" where
  "fused (ISource _) = True"
| "fused (IMap inp _) = fused inp"
| "fused (IFlatMap inp _ _) = fused inp"
| "fused (IFilter inp _) = fused inp"
| "fused (IScan inp _ _ _) = fused inp"
| "fused (IUnfold _ _) = True"
| "fused (IEnumerate inp _) = fused inp"
| "fused (IZip _ _) = False"
| "fused (IChunks inp _) = fused inp"
| "fused (IWindows inp _ _ _) = fused inp"

fun it_ok :: "SeqIterState \<Rightarrow> bool" where
  "it_ok (ISource _) = True"
| "it_ok (IMap inp _) = it_ok inp"
| "it_ok (IFlatMap inp _ None) = it_ok inp"
| "it_ok (IFlatMap inp _ (Some inner)) = (it_ok inp \<and> it_ok inner)"
| "it_ok (IFilter inp _) = it_ok inp"
| "it_ok (IScan inp _ _ _) = it_ok inp"
| "it_ok (IUnfold _ _) = True"
| "it_ok (IEnumerate inp _) = it_ok inp"
| "it_ok (IZip _ _) = True"
| "it_ok (IChunks inp n) = (it_ok inp \<and> fused inp \<and> 0 < n)"
| "it_ok (IWindows inp n w primed) = (it_ok inp \<and> 0 < n \<and> (if primed then length w = n else length w < n))"

lemma from_plan_ok:
  "sizes_ok plan \<Longrightarrow> \<exists>it. seq_iter_from_plan plan = Inr it \<and> (chunks_fused plan \<longrightarrow> it_ok it) \<and> (fused_plan plan \<longrightarrow> fused it)"
  by (induction plan rule: sizes_ok.induct) (auto simp: positive_size_def)

lemma require_plan_ok:
  assumes "value_ok v" "require_traversal_plan h v name s = Some (Inr plan, s')"
  shows "plan_ok plan"
  using assms by (cases v) (auto simp: require_traversal_plan_def ret_def raise_def value_ok_def plan_ok_def)

lemma require_into_ok:
  assumes "host_ok h" "value_ok v" "require_into_traversal_plan h v name s = Some (Inr plan, s')"
  shows "plan_ok plan"
proof (cases "\<exists>p t. require_traversal_plan h v name s = Some (Inr p, t)")
  case True
  then show ?thesis
    using assms(3) require_plan_ok[OF assms(2)] by (auto simp: require_into_traversal_plan_def)
next
  case False
  then have "andthen (case h_into_seq_fn h v s of Some fn_idx \<Rightarrow> h_call_fn h fn_idx [v] | None \<Rightarrow> builtin_into_seq h v)
      (\<lambda>seq_value. require_traversal_plan h seq_value ''IntoTraversal.into_seq'') s = Some (Inr plan, s')"
    using assms(3) by (auto simp: require_into_traversal_plan_def split: option.splits sum.splits prod.splits)
  then show ?thesis
  proof (rule andthen_cases)
    fix y t
    assume y: "(case h_into_seq_fn h v s of Some fn_idx \<Rightarrow> h_call_fn h fn_idx [v] | None \<Rightarrow> builtin_into_seq h v) s = Some (Inr y, t)"
      and p: "require_traversal_plan h y ''IntoTraversal.into_seq'' t = Some (Inr plan, s')"
    have "value_ok y"
    proof (cases "h_into_seq_fn h v s")
      case None
      then show ?thesis
        using y require_plan_ok[OF assms(2)] by (auto simp: builtin_into_seq_def andthen_Some ret_def value_ok_def)
    next
      case (Some fn_idx)
      then show ?thesis
        using y assms(1) unfolding host_ok_def by fastforce
    qed
    then show ?thesis
      by (rule require_plan_ok[OF _ p])
  qed simp
qed

section \<open>Polling at the end\<close>

fun ended :: "SeqIterState \<Rightarrow> bool" where
  "ended (ISource src) = (seq_source_iter_next src = Some (None, src))"
| "ended (IMap inp _) = ended inp"
| "ended (IFlatMap inp _ None) = ended inp"
| "ended (IFlatMap inp _ (Some inner)) = False"
| "ended (IFilter inp _) = ended inp"
| "ended (IScan inp _ _ emitted) = (emitted \<and> ended inp)"
| "ended (IUnfold st _) = (st = None)"
| "ended (IEnumerate inp _) = ended inp"
| "ended (IZip _ _) = False"
| "ended (IChunks inp n) = (ended inp \<and> 0 < n)"
| "ended (IWindows inp n w primed) = (ended inp \<and> (primed \<or> length w < n))"

lemma bitset_next_None:
  "bitset_next b i w = (None, i', w') \<Longrightarrow> bitset_next b i' w' = (None, i', w')"
proof (induction b i w rule: bitset_next.induct)
  case (1 b i w)
  consider "length (bs_words b) \<le> i" | "\<not> length (bs_words b) \<le> i" "w = 0" | "\<not> length (bs_words b) \<le> i" "w \<noteq> 0"
    by blast
  then show ?case
  proof cases
    case 1
    then have "i' = i" "w' = w"
      using "1.prems" by (simp_all add: bitset_next.simps[of b i w])
    then show ?thesis
      using 1 by (simp add: bitset_next.simps[of b i w])
  next
    case 2
    then show ?thesis
      using "1.IH"(1)[OF 2] "1.prems" 2 unfolding bitset_next.simps[of b i w] by simp
  next
    case 3
    then show ?thesis
      using "1.IH"(2)[OF 3 refl refl refl] "1.prems"
      by (simp add: bitset_next.simps[of b i w] Let_def split: if_splits)
  qed
qed

lemma source_ends: "seq_source_iter_next src = Some (None, src') \<Longrightarrow> seq_source_iter_next src' = Some (None, src')"
proof (cases src)
  case (ItBitSetValues b i w)
  assume "seq_source_iter_next src = Some (None, src')"
  then show ?thesis
    using ItBitSetValues bitset_next_None by (auto split: prod.splits)
qed (auto simp: next_at_def next_string_split_part_def next_string_line_def next_string_char_def Let_def
    split: if_splits option.splits list.splits Option.bind_splits)

lemma fill_chunk_inv:
  assumes "\<And>it s r it' s'. P it \<Longrightarrow> nxt it s = Some (Inr (r, it'), s') \<Longrightarrow> P it'"
  shows "fill_chunk nxt k inp chunk s = Some (Inr (c, inp'), s') \<Longrightarrow> P inp \<Longrightarrow> P inp'"
proof (induction k arbitrary: inp chunk s)
  case (Suc k)
  then obtain r inp1 s1 where n: "nxt inp s = Some (Inr (r, inp1), s1)"
    and rest: "(case r of None \<Rightarrow> ret (chunk, inp1) | Some item \<Rightarrow> fill_chunk nxt k inp1 (chunk @ [item])) s1 = Some (Inr (c, inp'), s')"
    by (auto simp: andthen_Some)
  show ?case
    using rest Suc.IH[of inp1 _ s1] assms[OF Suc.prems(2) n] by (cases r) (auto simp: ret_def)
qed (simp add: ret_def)

lemma fill_window_inv:
  assumes "\<And>it s r it' s'. P it \<Longrightarrow> nxt it s = Some (Inr (r, it'), s') \<Longrightarrow> P it'"
  shows "fill_window nxt k inp w s = Some (Inr (full, w', inp'), s') \<Longrightarrow> P inp \<Longrightarrow>
    P inp' \<and> (if full then length w' = length w + k else length w' < length w + k)"
proof (induction k arbitrary: inp w s)
  case (Suc k)
  then obtain r inp1 s1 where n: "nxt inp s = Some (Inr (r, inp1), s1)"
    and rest: "(case r of None \<Rightarrow> ret (False, w, inp1) | Some item \<Rightarrow> fill_window nxt k inp1 (w @ [item])) s1 =
      Some (Inr (full, w', inp'), s')"
    by (auto simp: andthen_Some)
  show ?case
    using rest Suc.IH[of inp1 "w @ [the r]" s1] assms[OF Suc.prems(2) n] by (cases r) (auto simp: ret_def split: if_splits)
qed (simp add: ret_def)

lemma fill_chunk_nonempty:
  "fill_chunk nxt k inp chunk s = Some (Inr (c, inp'), s') \<Longrightarrow> chunk \<noteq> [] \<Longrightarrow> c \<noteq> []"
proof (induction k arbitrary: inp chunk s)
  case (Suc k)
  then show ?case
    by (force simp: andthen_Some ret_def split: option.splits)
qed (simp add: ret_def)

lemma from_result_Some: "from_result x s = Some (Inr y, t) \<longleftrightarrow> x = Inr y \<and> t = s"
  by (cases x) (auto simp: ret_def raise_def)

lemma bool_case_Inr:
  "(case v of RBool b \<Rightarrow> f b | _ \<Rightarrow> raise e) s = Some (Inr y, t) \<longleftrightarrow> (\<exists>b. v = RBool b \<and> f b s = Some (Inr y, t))"
  by (cases v) (simp_all add: raise_def)

text \<open>Pulling keeps the condition on iterators, and a fused iterator that answers with no item has ended.\<close>

lemma next_it_ok:
  assumes "host_ok h"
  shows "it_ok it \<Longrightarrow> seq_iter_next n h it s = Some (Inr (r, it'), s') \<Longrightarrow> it_ok it' \<and> fused it' = fused it"
proof (induction n arbitrary: it s r it' s')
  case (Suc n)
  note step = Suc.prems(2)[unfolded seq_iter_next.simps next_step_def]
  show ?case
  proof (cases it)
    case (ISource src)
    then show ?thesis
      using step by (auto simp: andthen_Some ret_def panicking_def)
  next
    case (IMap inp f)
    then show ?thesis
      using step Suc.prems(1) Suc.IH[of inp] by (fastforce simp: andthen_Some ret_def split: option.splits)
  next
    case (IFlatMap inp f cur)
    show ?thesis
    proof (cases cur)
      case None
      obtain r1 inp1 s1 where n1: "seq_iter_next n h inp s = Some (Inr (r1, inp1), s1)"
        and rest: "(case r1 of
              None \<Rightarrow> ret (None, IFlatMap inp1 f None)
            | Some outer_item \<Rightarrow>
                andthen (h_call_value_ref h f [outer_item]) (\<lambda>produced.
                andthen (require_into_traversal_plan h produced ''seq_flat_map'') (\<lambda>inner_plan.
                andthen (from_result (seq_iter_from_plan inner_plan)) (\<lambda>inner.
                  seq_iter_next n h (IFlatMap inp1 f (Some inner)))))) s1 = Some (Inr (r, it'), s')"
        using step IFlatMap None by (auto simp: andthen_Some)
      have inp1: "it_ok inp1" "fused inp1 = fused inp"
        using Suc.IH[OF _ n1] Suc.prems(1) IFlatMap None by simp_all
      show ?thesis
      proof (cases r1)
        case None
        then show ?thesis
          using rest inp1 IFlatMap by (auto simp: ret_def)
      next
        case (Some item)
        then obtain v s2 plan s3 inner where v: "h_call_value_ref h f [item] s1 = Some (Inr v, s2)"
          and p: "require_into_traversal_plan h v ''seq_flat_map'' s2 = Some (Inr plan, s3)"
          and inner: "seq_iter_from_plan plan = Inr inner"
          and more: "seq_iter_next n h (IFlatMap inp1 f (Some inner)) s3 = Some (Inr (r, it'), s')"
          using rest by (auto simp: andthen_Some from_result_Some)
        have "plan_ok plan"
          by (rule require_into_ok[OF assms host_okD[OF assms v] p])
        then have "it_ok inner"
          using inner from_plan_ok[of plan] by (auto simp: plan_ok_def)
        then show ?thesis
          using Suc.IH[OF _ more] inp1 IFlatMap by simp
      qed
    next
      case (Some inner)
      obtain r1 inner1 s1 where n1: "seq_iter_next n h inner s = Some (Inr (r1, inner1), s1)"
        and rest: "(case r1 of Some item \<Rightarrow> ret (Some item, IFlatMap inp f (Some inner1))
            | None \<Rightarrow> seq_iter_next n h (IFlatMap inp f None)) s1 = Some (Inr (r, it'), s')"
        using step IFlatMap Some by (auto simp: andthen_Some)
      show ?thesis
        using rest Suc.IH[OF _ n1] Suc.IH[of "IFlatMap inp f None" s1 r it' s'] Suc.prems(1) IFlatMap Some
        by (cases r1) (auto simp: ret_def)
    qed
  next
    case (IFilter inp f)
    obtain r1 inp1 s1 where n1: "seq_iter_next n h inp s = Some (Inr (r1, inp1), s1)"
      and rest: "(case r1 of None \<Rightarrow> ret (None, IFilter inp1 f)
        | Some item \<Rightarrow> andthen (h_call_value_ref h f [item]) (\<lambda>keep. case keep of
              RBool b \<Rightarrow> if b then ret (Some item, IFilter inp1 f) else seq_iter_next n h (IFilter inp1 f)
            | _ \<Rightarrow> raise (TypeError ''seq_filter: predicate must return Bool''))) s1 = Some (Inr (r, it'), s')"
      using step IFilter by (auto simp: andthen_Some)
    have inp1: "it_ok inp1" "fused inp1 = fused inp"
      using Suc.IH[OF _ n1] Suc.prems(1) IFilter by simp_all
    have more: "it_ok it' \<and> fused it' = fused inp" if "seq_iter_next n h (IFilter inp1 f) t = Some (Inr (r, it'), s')" for t
      using Suc.IH[OF _ that] inp1 by simp
    show ?thesis
      using rest inp1 IFilter more
      by (cases r1) (auto simp: andthen_Some ret_def bool_case_Inr split: if_splits)
  next
    case (IScan inp acc f emitted)
    then show ?thesis
      using step Suc.prems(1) Suc.IH[of inp] by (fastforce simp: andthen_Some ret_def split: option.splits if_splits)
  next
    case (IUnfold st step')
    then show ?thesis
      using step by (auto simp: andthen_Some ret_def split: option.splits)
  next
    case (IEnumerate inp idx)
    then show ?thesis
      using step Suc.prems(1) Suc.IH[of inp] by (fastforce simp: andthen_Some ret_def split: option.splits)
  next
    case (IZip l r)
    then show ?thesis
      using step by (auto simp: andthen_Some ret_def split: option.splits)
  next
    case (IChunks inp k)
    then obtain c inp1 s1 where fill: "fill_chunk (seq_iter_next n h) k inp [] s = Some (Inr (c, inp1), s1)"
      and it': "it' = IChunks inp1 k"
      using step by (auto simp: andthen_Some ret_def)
    have "it_ok inp1 \<and> fused inp1 = fused inp"
    proof (rule fill_chunk_inv[where P = "\<lambda>it. it_ok it \<and> fused it = fused inp", OF _ fill])
      show "it_ok it1 \<and> fused it1 = fused inp"
        if "it_ok it0 \<and> fused it0 = fused inp" "seq_iter_next n h it0 t = Some (Inr (r, it1), t')" for it0 t r it1 t'
        using Suc.IH[OF _ that(2)] that(1) by simp
    qed (use IChunks Suc.prems(1) in simp)
    then show ?thesis
      using IChunks Suc.prems(1) it' by simp
  next
    case (IWindows inp k w primed)
    show ?thesis
    proof (cases primed)
      case True
      then show ?thesis
        using step Suc.prems(1) Suc.IH[of inp] IWindows by (fastforce simp: andthen_Some ret_def split: option.splits)
    next
      case False
      then obtain full w' inp1 s1 where fill: "fill_window (seq_iter_next n h) (k - length w) inp w s = Some (Inr (full, w', inp1), s1)"
        and it': "it' = IWindows inp1 k w' full"
        using step IWindows by (auto simp: andthen_Some ret_def)
      have "(it_ok inp1 \<and> fused inp1 = fused inp) \<and>
          (if full then length w' = length w + (k - length w) else length w' < length w + (k - length w))"
      proof (rule fill_window_inv[where P = "\<lambda>it. it_ok it \<and> fused it = fused inp", OF _ fill])
        show "it_ok it1 \<and> fused it1 = fused inp"
          if "it_ok it0 \<and> fused it0 = fused inp" "seq_iter_next n h it0 t = Some (Inr (r, it1), t')" for it0 t r it1 t'
          using Suc.IH[OF _ that(2)] that(1) by simp
      qed (use IWindows Suc.prems(1) in simp)
      then show ?thesis
        using IWindows Suc.prems(1) it' False by (auto split: if_splits)
    qed
  qed
qed simp

lemma fill_chunk_empty:
  assumes "fill_chunk nxt (Suc k) inp [] s = Some (Inr ([], inp'), s')"
  shows "nxt inp s = Some (Inr (None, inp'), s')"
proof -
  obtain r inp1 s1 where n: "nxt inp s = Some (Inr (r, inp1), s1)"
    and rest: "(case r of None \<Rightarrow> ret ([], inp1) | Some item \<Rightarrow> fill_chunk nxt k inp1 ([] @ [item])) s1 = Some (Inr ([], inp'), s')"
    using assms by (auto simp: andthen_Some)
  show ?thesis
    using n rest fill_chunk_nonempty[of nxt k inp1 "[the r]" s1 "[]" inp' s'] by (cases r) (auto simp: ret_def)
qed

lemma fill_window_not_full:
  assumes "\<And>it s r it' s'. P it \<Longrightarrow> nxt it s = Some (Inr (r, it'), s') \<Longrightarrow> P it'"
    "\<And>it s it' s'. P it \<Longrightarrow> nxt it s = Some (Inr (None, it'), s') \<Longrightarrow> Q it'"
  shows "fill_window nxt k inp w s = Some (Inr (False, w', inp'), s') \<Longrightarrow> P inp \<Longrightarrow> Q inp'"
proof (induction k arbitrary: inp w s)
  case (Suc k)
  then obtain r inp1 s1 where n: "nxt inp s = Some (Inr (r, inp1), s1)"
    and rest: "(case r of None \<Rightarrow> ret (False, w, inp1) | Some item \<Rightarrow> fill_window nxt k inp1 (w @ [item])) s1 =
      Some (Inr (False, w', inp'), s')"
    by (auto simp: andthen_Some)
  show ?case
    using rest Suc.IH[of inp1 "w @ [the r]" s1] assms(1)[OF Suc.prems(2) n] assms(2)[OF Suc.prems(2)] n
    by (cases r) (auto simp: ret_def)
qed (simp add: ret_def)

lemma next_ended:
  assumes "host_ok h"
  shows "it_ok it \<Longrightarrow> fused it \<Longrightarrow> seq_iter_next n h it s = Some (Inr (None, it'), s') \<Longrightarrow> ended it'"
proof (induction n arbitrary: it s it' s')
  case (Suc n)
  note step = Suc.prems(3)[unfolded seq_iter_next.simps next_step_def]
  show ?case
  proof (cases it)
    case (ISource src)
    then show ?thesis
      using step source_ends by (auto simp: andthen_Some ret_def panicking_def)
  next
    case (IMap inp f)
    then show ?thesis
      using step Suc.prems Suc.IH[of inp] by (fastforce simp: andthen_Some ret_def split: option.splits)
  next
    case (IFlatMap inp f cur)
    show ?thesis
    proof (cases cur)
      case None
      obtain r1 inp1 s1 where n1: "seq_iter_next n h inp s = Some (Inr (r1, inp1), s1)"
        and rest: "(case r1 of
              None \<Rightarrow> ret (None, IFlatMap inp1 f None)
            | Some outer_item \<Rightarrow>
                andthen (h_call_value_ref h f [outer_item]) (\<lambda>produced.
                andthen (require_into_traversal_plan h produced ''seq_flat_map'') (\<lambda>inner_plan.
                andthen (from_result (seq_iter_from_plan inner_plan)) (\<lambda>inner.
                  seq_iter_next n h (IFlatMap inp1 f (Some inner)))))) s1 = Some (Inr (None, it'), s')"
        using step IFlatMap None by (auto simp: andthen_Some)
      have inp1: "it_ok inp1" "fused inp1"
        using next_it_ok[OF assms _ n1] Suc.prems IFlatMap None by simp_all
      show ?thesis
      proof (cases r1)
        case r1: None
        then show ?thesis
          using rest n1 Suc.IH[of inp] Suc.prems IFlatMap None by (auto simp: ret_def)
      next
        case (Some item)
        then obtain v s2 plan s3 inner where v: "h_call_value_ref h f [item] s1 = Some (Inr v, s2)"
          and p: "require_into_traversal_plan h v ''seq_flat_map'' s2 = Some (Inr plan, s3)"
          and inner: "seq_iter_from_plan plan = Inr inner"
          and more: "seq_iter_next n h (IFlatMap inp1 f (Some inner)) s3 = Some (Inr (None, it'), s')"
          using rest by (auto simp: andthen_Some from_result_Some)
        have "plan_ok plan"
          by (rule require_into_ok[OF assms host_okD[OF assms v] p])
        then have "it_ok inner"
          using inner from_plan_ok[of plan] by (auto simp: plan_ok_def)
        then show ?thesis
          using Suc.IH[OF _ _ more] inp1 by simp
      qed
    next
      case (Some inner)
      then show ?thesis
        using step Suc.prems Suc.IH[of "IFlatMap inp f None"] IFlatMap
        by (fastforce simp: andthen_Some ret_def split: option.splits)
    qed
  next
    case (IFilter inp f)
    obtain r1 inp1 s1 where n1: "seq_iter_next n h inp s = Some (Inr (r1, inp1), s1)"
      and rest: "(case r1 of None \<Rightarrow> ret (None, IFilter inp1 f)
        | Some item \<Rightarrow> andthen (h_call_value_ref h f [item]) (\<lambda>keep. case keep of
              RBool b \<Rightarrow> if b then ret (Some item, IFilter inp1 f) else seq_iter_next n h (IFilter inp1 f)
            | _ \<Rightarrow> raise (TypeError ''seq_filter: predicate must return Bool''))) s1 = Some (Inr (None, it'), s')"
      using step IFilter by (auto simp: andthen_Some)
    have inp1: "it_ok inp1" "fused inp1"
      using next_it_ok[OF assms _ n1] Suc.prems IFilter by simp_all
    have more: "ended it'" if "seq_iter_next n h (IFilter inp1 f) t = Some (Inr (None, it'), s')" for t
      using Suc.IH[OF _ _ that] inp1 by simp
    show ?thesis
      using rest n1 Suc.prems IFilter Suc.IH[of inp s inp1 s1] more
      by (cases r1) (auto simp: andthen_Some ret_def bool_case_Inr split: if_splits)
  next
    case (IScan inp acc f emitted)
    then show ?thesis
      using step Suc.prems Suc.IH[of inp] by (fastforce simp: andthen_Some ret_def split: option.splits if_splits)
  next
    case (IUnfold st step')
    then show ?thesis
      using step by (auto simp: andthen_Some ret_def split: option.splits)
  next
    case (IEnumerate inp idx)
    then show ?thesis
      using step Suc.prems Suc.IH[of inp] by (fastforce simp: andthen_Some ret_def split: option.splits)
  next
    case (IZip l r)
    then show ?thesis
      using Suc.prems by simp
  next
    case (IChunks inp k)
    then obtain inp1 where fill: "fill_chunk (seq_iter_next n h) k inp [] s = Some (Inr ([], inp1), s')" and it': "it' = IChunks inp1 k"
      using step by (auto simp: andthen_Some ret_def split: if_splits)
    have "k = Suc (k - 1)"
      using IChunks Suc.prems(1) by simp
    then have "seq_iter_next n h inp s = Some (Inr (None, inp1), s')"
      using fill fill_chunk_empty by metis
    then have "ended inp1"
      using Suc.IH[of inp s inp1 s'] IChunks Suc.prems by simp
    then show ?thesis
      using IChunks Suc.prems(1) it' by simp
  next
    case (IWindows inp k w primed)
    show ?thesis
    proof (cases primed)
      case True
      then show ?thesis
        using step Suc.prems Suc.IH[of inp] IWindows by (fastforce simp: andthen_Some ret_def split: option.splits)
    next
      case False
      then obtain w' inp1 where win: "fill_window (seq_iter_next n h) (k - length w) inp w s = Some (Inr (False, w', inp1), s')"
        "it' = IWindows inp1 k w' False"
        using step IWindows by (auto simp: andthen_Some ret_def split: if_splits)
      have "ended inp1"
      proof (rule fill_window_not_full[of "\<lambda>it. it_ok it \<and> fused it", OF _ _ win(1)])
        show "it_ok it1 \<and> fused it1" if "it_ok it0 \<and> fused it0" "seq_iter_next n h it0 t = Some (Inr (r, it1), t')" for it0 t r it1 t'
          using next_it_ok[OF assms _ that(2)] that(1) by simp
        show "ended it1" if "it_ok it0 \<and> fused it0" "seq_iter_next n h it0 t = Some (Inr (None, it1), t')" for it0 t it1 t'
          using Suc.IH[OF _ _ that(2)] that(1) by simp
      qed (use Suc.prems IWindows in simp)
      moreover have "length w' < k"
        using fill_window_inv[of "\<lambda>_. True" "seq_iter_next n h", OF _ win(1)] Suc.prems IWindows False by simp
      ultimately show ?thesis
        using win(2) by simp
    qed
  qed
qed simp

lemma NX_it_ok:
  assumes "host_ok h" "it_ok it" "NX h it s = Some (Inr (r, it'), s')"
  shows "it_ok it' \<and> fused it' = fused it"
  using approximatesD[OF approx_NX assms(3)] next_it_ok[OF assms(1,2)] by metis

lemma NX_ended:
  assumes "host_ok h" "it_ok it" "fused it" "NX h it s = Some (Inr (None, it'), s')"
  shows "ended it'"
  using approximatesD[OF approx_NX assms(4)] next_ended[OF assms(1-3)] by metis

end
