(* ===== verification/Seq_Source.thy ===== *)
theory Seq_Source
  imports Seq
begin

text \<open>Pulling the iterator of a source yields the items that the traversal of the source pushes.\<close>

inductive yields :: "SeqSourceIter \<Rightarrow> RVal list \<Rightarrow> bool" where
  yields_end: "seq_source_iter_next it = Some (None, it') \<Longrightarrow> yields it []"
| yields_item: "seq_source_iter_next it = Some (Some x, it') \<Longrightarrow> yields it' xs \<Longrightarrow> yields it (x # xs)"

section \<open>Positions in a list\<close>

lemma yields_indexed:
  assumes "\<And>i. seq_source_iter_next (St i) = Some (map_option g (fst (next_at xs i)), St (snd (next_at xs i)))"
  shows "yields (St i) (map g (drop i xs))"
proof (induction "length xs - i" arbitrary: i)
  case 0
  then show ?case
    using assms[of i] by (auto simp: next_at_def intro: yields_end)
next
  case (Suc n)
  then have i: "i < length xs"
    by simp
  then have "seq_source_iter_next (St i) = Some (Some (g (xs ! i)), St (Suc i))"
    using assms[of i] by (simp add: next_at_def)
  moreover have "yields (St (Suc i)) (map g (drop (Suc i) xs))"
    using Suc by simp
  ultimately show ?case
    using i by (simp add: Cons_nth_drop_Suc[symmetric] yields_item)
qed

section \<open>Ranges\<close>

lemma sint_incr:
  fixes c e :: "64 word"
  assumes "sint c < sint e"
  shows "sint (c + 1) = sint c + 1"
proof -
  have "sint e < 2 ^ 63"
    using sint_range_size[of e] by (simp add: word_size)
  moreover have "- (2 ^ 63) \<le> sint c"
    using sint_range_size[of c] by (simp add: word_size)
  moreover have "sint (c + 1) = signed_take_bit 63 (sint c + 1)"
    by (simp add: sint_word_ariths)
  ultimately show ?thesis
    using assms by (simp add: signed_take_bit_int_eq_self)
qed

lemma yields_range: "yields (ItRange c e) (map (\<lambda>i. RInt (word_of_int i)) [sint c..sint e - 1])"
proof (induction "nat (sint e - sint c)" arbitrary: c)
  case 0
  then show ?case
    by (auto intro: yields_end)
next
  case (Suc n)
  then have lt: "sint c < sint e"
    by simp
  then have "yields (ItRange (c + 1) e) (map (\<lambda>i. RInt (word_of_int i)) [sint c + 1..sint e - 1])"
    using Suc(1)[of "c + 1"] Suc(2) sint_incr[OF lt] by simp
  moreover have "[sint c..sint e - 1] = sint c # [sint c + 1..sint e - 1]"
    using lt by (simp add: upto_rec1)
  ultimately show ?case
    using lt by (auto intro!: yields_item)
qed

section \<open>Strings\<close>

lemma len_utf8_pos: "0 < len_utf8 c"
  by (simp add: len_utf8_def)

lemma str_len_simps [simp]: "str_len [] = 0" "str_len (c # s) = len_utf8 c + str_len s" "str_len (s @ t) = str_len s + str_len t"
  by (simp_all add: str_len_def)

lemma str_len_0 [simp]: "str_len s = 0 \<longleftrightarrow> s = []"
  using len_utf8_pos by (cases s) (auto simp: less_not_refl2)

lemma slice_from_Cons: "slice_from (c # s) (len_utf8 c + n) = slice_from s n"
  using len_utf8_pos[of c] by (cases "len_utf8 c + n") (auto, metis add_diff_cancel_left')

lemma slice_from_append [simp]: "slice_from (p @ r) (str_len p) = Some r"
  by (induction p) (simp_all add: slice_from_Cons)

lemma slice_to_Cons: "slice_to (c # s) (len_utf8 c + n) = map_option ((#) c) (slice_to s n)"
  using len_utf8_pos[of c] by (cases "len_utf8 c + n") (auto, metis add_diff_cancel_left')

lemma slice_to_append [simp]: "slice_to (p @ r) (str_len p) = Some p"
  by (induction p) (simp_all add: slice_to_Cons)

lemma slice_middle: "slice (p @ q @ r) (str_len p) (str_len p + str_len q) = Some q"
  by (simp add: slice_def)

lemma is_prefix_iff: "is_prefix xs ys \<longleftrightarrow> (\<exists>zs. ys = xs @ zs)"
  by (induction xs ys rule: is_prefix.induct) auto

lemma split_at_find:
  "(case split_at delim s of
      None \<Rightarrow> str_find delim s = None
    | Some (l, r) \<Rightarrow> str_find delim s = Some (str_len l) \<and> s = l @ delim @ r)"
proof (induction delim s rule: split_at.induct)
  case (1 delim s)
  show ?case
  proof (cases "is_prefix delim s")
    case True
    then show ?thesis
      by (auto simp: split_at.simps[of delim s] str_find.simps[of delim s] is_prefix_iff)
  next
    case False
    note step = split_at.simps[of delim s, unfolded if_not_P[OF False]] str_find.simps[of delim s, unfolded if_not_P[OF False]]
    show ?thesis
      using "1.IH"[OF False] unfolding step by (cases s) (auto split: option.splits)
  qed
qed

lemma yields_chars: "yields (ItStringChars (p @ r) (str_len p)) (map RChar r)"
proof (induction r arbitrary: p)
  case (Cons c r)
  have "seq_source_iter_next (ItStringChars (p @ c # r) (str_len p)) = Some (Some (RChar c), ItStringChars (p @ c # r) (str_len (p @ [c])))"
    using len_utf8_pos[of c] by (simp add: next_string_char_def)
  then show ?case
    using Cons[of "p @ [c]"] by (auto intro: yields_item)
qed (auto simp: next_string_char_def intro: yields_end)

lemma yields_split_chars: "yields (ItStringSplit (p @ r) [] (str_len p) True False) (map (\<lambda>c. RString [c]) r @ [RString []])"
proof (induction r arbitrary: p)
  case Nil
  then show ?case
    by (auto simp: next_string_split_part_def intro!: yields_end yields_item)
next
  case (Cons c r)
  have "seq_source_iter_next (ItStringSplit (p @ c # r) [] (str_len p) True False) =
      Some (Some (RString [c]), ItStringSplit (p @ c # r) [] (str_len (p @ [c])) True False)"
    using len_utf8_pos[of c] by (simp add: next_string_split_part_def)
  then show ?case
    using Cons[of "p @ [c]"] by (auto intro: yields_item)
qed

lemma yields_split:
  assumes "delim \<noteq> []"
  shows "yields (ItStringSplit (p @ r) delim (str_len p) a b) (map RString (split_parts delim r))"
proof (induction "length r" arbitrary: p r rule: less_induct)
  case less
  show ?case
  proof (cases "split_at delim r")
    case None
    then have "seq_source_iter_next (ItStringSplit (p @ r) delim (str_len p) a b) =
        Some (Some (RString r), ItStringSplit (p @ r) delim (str_len (p @ r) + 1) a b)"
      using split_at_find[of delim r] assms by (simp add: next_string_split_part_def)
    moreover have "yields (ItStringSplit (p @ r) delim (str_len (p @ r) + 1) a b) []"
      using assms by (auto simp: next_string_split_part_def intro: yields_end)
    ultimately show ?thesis
      using None assms by (auto simp: split_parts.simps[of delim r] intro: yields_item)
  next
    case (Some lr)
    then obtain l t where s: "split_at delim r = Some (l, t)"
      by (cases lr) auto
    then have r: "r = l @ delim @ t" and f: "str_find delim r = Some (str_len l)"
      using split_at_find[of delim r] by auto
    have "slice (p @ r) (str_len p) (str_len p + str_len l) = Some l"
      unfolding r by (rule slice_middle)
    then have "seq_source_iter_next (ItStringSplit (p @ r) delim (str_len p) a b) =
        Some (Some (RString l), ItStringSplit (p @ r) delim (str_len (p @ l @ delim)) a b)"
      using f assms by (simp add: next_string_split_part_def add.assoc)
    moreover have "yields (ItStringSplit (p @ r) delim (str_len (p @ l @ delim)) a b) (map RString (split_parts delim t))"
      using less[of t "p @ l @ delim"] split_at_shorter[OF s assms] r by simp
    ultimately show ?thesis
      using s assms by (auto simp: split_parts.simps[of delim r] intro: yields_item)
  qed
qed

lemma split_at_newline:
  assumes "dropWhile ((\<noteq>) newline) s = c # rest"
  shows "str_find [newline] s = Some (str_len (takeWhile ((\<noteq>) newline) s))" "s = takeWhile ((\<noteq>) newline) s @ newline # rest"
proof -
  show "s = takeWhile ((\<noteq>) newline) s @ newline # rest"
    using assms takeWhile_dropWhile_id[of "(\<noteq>) newline" s] hd_dropWhile[of "(\<noteq>) newline" s] by simp
  show "str_find [newline] s = Some (str_len (takeWhile ((\<noteq>) newline) s))"
    using assms
  proof (induction s)
    case (Cons a s)
    then show ?case
      by (auto simp: str_find.simps[of "[newline]" "a # s"] split: if_splits)
  qed simp
qed

lemma no_newline: "dropWhile ((\<noteq>) newline) s = [] \<Longrightarrow> str_find [newline] s = None"
  by (induction s) (simp_all add: str_find.simps split: if_splits)

lemma yields_lines: "yields (ItStringLines (p @ r) (str_len p) False) (map RString (str_lines r))"
proof (induction "length r" arbitrary: p r rule: less_induct)
  case less
  consider "r = []" | "r \<noteq> []" "dropWhile ((\<noteq>) newline) r = []" | c rest where "r \<noteq> []" "dropWhile ((\<noteq>) newline) r = c # rest"
    by (cases "dropWhile ((\<noteq>) newline) r") auto
  then show ?case
  proof cases
    case 1
    then show ?thesis
      by (auto simp: next_string_line_def str_lines.simps[of "[]"] intro: yields_end)
  next
    case 2
    then have "seq_source_iter_next (ItStringLines (p @ r) (str_len p) False) = Some (Some (RString r), ItStringLines (p @ r) (str_len p) True)"
      by (simp add: next_string_line_def no_newline)
    moreover have "yields (ItStringLines (p @ r) (str_len p) True) []"
      by (auto simp: next_string_line_def intro: yields_end)
    ultimately have "yields (ItStringLines (p @ r) (str_len p) False) [RString r]"
      by (rule yields_item)
    then show ?thesis
      unfolding str_lines.simps[of r] 2(2) using 2(1) by simp
  next
    case 3
    define l where "l = takeWhile ((\<noteq>) newline) r"
    have r: "r = l @ newline # rest" and f: "str_find [newline] r = Some (str_len l)"
      using split_at_newline[OF 3(2)] by (simp_all add: l_def)
    have nl: "len_utf8 newline = 1"
      by (simp add: len_utf8_def newline_def)
    have whole: "slice (p @ r) (str_len p) (str_len p + str_len l) = Some l"
      unfolding r by (rule slice_middle)
    have out: "slice (p @ r) (str_len p)
        (if str_len p < str_len p + str_len l \<and> last l = 13 then str_len p + str_len l - 1 else str_len p + str_len l) = Some (strip_cr l)"
    proof (cases "l \<noteq> [] \<and> last l = 13")
      case True
      then have l: "l = butlast l @ [13]"
        by (metis append_butlast_last_id)
      have "str_len l = str_len (butlast l) + 1"
        by (subst l) (simp add: len_utf8_def)
      moreover have "slice (p @ butlast l @ 13 # newline # rest) (str_len p) (str_len p + str_len (butlast l)) = Some (butlast l)"
        by (rule slice_middle)
      moreover have "p @ r = p @ butlast l @ 13 # newline # rest"
        unfolding r by (subst l) simp
      ultimately show ?thesis
        using True by (simp add: strip_cr_def)
    next
      case False
      then show ?thesis
        using whole by (auto simp: strip_cr_def simp flip: str_len_0)
    qed
    have step: "seq_source_iter_next (ItStringLines (p @ r) (str_len p) False) =
        Some (Some (RString (strip_cr l)), ItStringLines (p @ r) (str_len (p @ l @ [newline])) (rest = []))"
      using 3(1) f whole out by (simp add: next_string_line_def Let_def nl r)
    have "yields (ItStringLines (p @ r) (str_len (p @ l @ [newline])) (rest = [])) (map RString (str_lines rest))"
    proof (cases "rest = []")
      case True
      then show ?thesis
        by (auto simp: next_string_line_def str_lines.simps[of "[]"] intro: yields_end)
    next
      case False
      then show ?thesis
        using less[of rest "p @ l @ [newline]"] r by simp
    qed
    then show ?thesis
      using step 3 by (auto simp: str_lines.simps[of r] l_def intro: yields_item)
  qed
qed

section \<open>Bit sets\<close>

definition bits_from :: "BitSetValue \<Rightarrow> nat \<Rightarrow> 64 word \<Rightarrow> nat list" where
  "bits_from b i w =
     (if i < length (bs_words b) then
        filter (\<lambda>idx. idx < bs_size_bits b)
          (map (\<lambda>bt. i * 64 + bt) (word_bits w) @
           concat (map (\<lambda>(i, w). map (\<lambda>bt. i * 64 + bt) (word_bits w)) (enumerate (Suc i) (drop (Suc i) (bs_words b)))))
      else [])"

lemma bits_from_next:
  "i < length (bs_words b) \<Longrightarrow>
    bits_from b i 0 = bits_from b (Suc i) (if Suc i < length (bs_words b) then bs_words b ! Suc i else 0)"
  by (cases "Suc i < length (bs_words b)")
    (simp_all add: bits_from_def word_bits.simps[of 0] Cons_nth_drop_Suc[symmetric] del: drop_Suc)

lemma bits_from_bit:
  "i < length (bs_words b) \<Longrightarrow> w \<noteq> 0 \<Longrightarrow>
    bits_from b i w = (if i * 64 + trailing_zeros w < bs_size_bits b then [i * 64 + trailing_zeros w] else []) @ bits_from b i (clear_lowest w)"
  by (simp add: bits_from_def word_bits.simps[of w])

lemma bitset_next_spec:
  "(case bitset_next b i w of (None, _) \<Rightarrow> bits_from b i w = [] | (Some x, i', w') \<Rightarrow> bits_from b i w = x # bits_from b i' w')"
proof (induction b i w rule: bitset_next.induct)
  case (1 b i w)
  consider "length (bs_words b) \<le> i" | "\<not> length (bs_words b) \<le> i" "w = 0" | "\<not> length (bs_words b) \<le> i" "w \<noteq> 0"
    by blast
  then show ?case
  proof cases
    case 1
    then show ?thesis
      by (simp add: bitset_next.simps[of b i w] bits_from_def)
  next
    case 2
    have "bits_from b i w = bits_from b (i + 1) (if i + 1 < length (bs_words b) then bs_words b ! (i + 1) else 0)"
      using 2 bits_from_next[of i b] by simp
    then show ?thesis
      unfolding bitset_next.simps[of b i w] if_not_P[OF 2(1)] if_P[OF 2(2)] by (simp only: "1.IH"(1)[OF 2])
  next
    case 3
    then show ?thesis
      using "1.IH"(2)[OF 3 refl refl refl] bits_from_bit[of i b w]
      by (cases "i * 64 + trailing_zeros w < bs_size_bits b") (simp_all add: bitset_next.simps[of b i w] Let_def split: prod.splits option.splits)
  qed
qed

lemma yields_bits: "yields (ItBitSetValues b i w) (map (\<lambda>i. RInt (of_nat i)) (bits_from b i w))"
proof (induction "bits_from b i w" arbitrary: i w)
  case Nil
  then have "fst (bitset_next b i w) = None"
    using bitset_next_spec[of b i w] by (auto split: prod.splits option.splits)
  then show ?case
    using Nil by (cases "bitset_next b i w") (auto intro!: yields_end simp flip: Nil)
next
  case (Cons x xs)
  then obtain i' w' where "bitset_next b i w = (Some x, i', w')" "xs = bits_from b i' w'"
    using bitset_next_spec[of b i w] by (auto simp flip: Cons(2) split: prod.splits option.splits)
  then show ?case
    using Cons(1)[of i' w'] by (auto intro!: yields_item simp flip: Cons(2))
qed

lemma bitset_indices_from: "bitset_indices b = bits_from b 0 (case bs_words b of [] \<Rightarrow> 0 | w # _ \<Rightarrow> w)"
  by (cases "bs_words b") (simp_all add: bitset_indices_def bits_from_def)

section \<open>All sources\<close>

theorem source_yields: "yields (source_iter src) (source_items src)"
proof (cases src)
  case (SrcStringSplit s delim)
  have "yields (ItStringSplit s [] 0 False False) (RString [] # map (\<lambda>c. RString [c]) s @ [RString []])"
    using yields_split_chars[of "[]" s] by (intro yields_item) (auto simp: next_string_split_part_def)
  then show ?thesis
    using SrcStringSplit yields_split[of delim "[]" s False False] by (cases "delim = []") (simp_all add: str_split_def comp_def)
next
  case (SrcMapKeys es)
  then show ?thesis
    using yields_indexed[of "ItMapKeys es" fst es 0] by (simp split: prod.split)
next
  case (SrcMapValues es)
  then show ?thesis
    using yields_indexed[of "ItMapValues es" snd es 0] by (simp split: prod.split)
next
  case (SrcSetValues es)
  then show ?thesis
    using yields_indexed[of "ItSetValues es" "\<lambda>x. x" es 0] by (simp add: option.map_ident split: prod.split)
next
  case (SrcFromList es)
  then show ?thesis
    using yields_indexed[of "ItFromList es" "\<lambda>x. x" es 0] by (simp add: option.map_ident split: prod.split)
next
  case (SrcFromDeque es)
  then show ?thesis
    using yields_indexed[of "ItFromDeque es" "\<lambda>x. x" es 0] by (simp add: option.map_ident split: prod.split)
next
  case (SrcStringLines s)
  then show ?thesis
    using yields_lines[of "[]" s] by simp
next
  case (SrcStringChars s)
  then show ?thesis
    using yields_chars[of "[]" s] by simp
qed (simp_all add: yields_range yields_bits bitset_indices_from)

end
