(* ===== verification/Seq_Push.thy ===== *)
theory Seq_Push
  imports Seq_Fused Seq_Source
begin

text \<open>
  One half of the comparison: whatever a traversal computes, pulling the iterator of the plan computes
  as well.  Each adapter is compared with the iterator state of the same name, with the frame of the
  traversal holding what the iterator state holds.
\<close>

section \<open>Frames and pulling\<close>

lemma le_DR [le_intros]: "(\<And>item. le (emit item) (emit' item)) \<Longrightarrow> le (DR h it emit) (DR h it emit')"
  by (rule approximates_least[OF approx_DR_const]) (rule le_trans[OF le_pull_unit approximates_le[OF approx_DR_const]], auto)

lemma le_pull_rest:
  assumes "\<And>s item it' s'. nxt it s = Some (Inr (Some item, it'), s') \<Longrightarrow> le (rest it') (rest' it')"
  shows "le (pull_step h emit rest nxt it) (pull_step h emit rest' nxt it)"
  unfolding pull_step_def
proof (rule le_andthen_result)
  fix s x s'
  assume x: "lift (nxt it) s = Some (Inr x, s')"
  then have "le (rest (snd x)) (rest' (snd x))" if "fst x = Some item" for item
    using assms[of "fst s" item "snd x"] that by (cases x) (auto simp: lift_def split: prod.splits)
  then show "le (case x of (r, it') \<Rightarrow> case r of None \<Rightarrow> ret ()
        | Some item \<Rightarrow> andthen (emit item) (\<lambda>c. case c of SeqContinue \<Rightarrow> rest it' | SeqBreak \<Rightarrow> ret ()))
      (case x of (r, it') \<Rightarrow> case r of None \<Rightarrow> ret ()
        | Some item \<Rightarrow> andthen (emit item) (\<lambda>c. case c of SeqContinue \<Rightarrow> rest' it' | SeqBreak \<Rightarrow> ret ()))"
    by (auto intro!: le_intros split: option.split SeqEmitControl.split prod.split)
qed

text \<open>Pulling inside a context: the least solution of the equation that the context gives.\<close>

lemma DR_context_least:
  assumes "\<And>fr A m. approximates A m \<Longrightarrow> approximates (\<lambda>n. T fr (A n)) (T fr m)" "\<And>fr x. le (T fr (\<lambda>_. None)) x"
    "\<And>fr m m'. le m m' \<Longrightarrow> le (T fr m) (T fr m')"
    and step: "\<And>fr it R. P fr it \<Longrightarrow>
      (\<And>fr it. P fr it \<Longrightarrow> le (T fr (R it)) (F fr it)) \<Longrightarrow> le (T fr (pull_step h emit R (NX h) it)) (F fr it)"
    and "P fr it"
  shows "le (T fr (DR h it emit)) (F fr it)"
proof (rule approximates_least[OF assms(1)[OF approx_DR_const]])
  show "le (T fr (pull_unit n h it emit)) (F fr it)" for n
    using \<open>P fr it\<close>
  proof (induction n arbitrary: fr it)
    case (Suc n)
    have "le (T fr (pull_unit (Suc n) h it emit)) (T fr (pull_step h emit (\<lambda>it'. pull_unit n h it' emit) (NX h) it))"
      unfolding pull_unit_Suc by (intro assms(3) le_pull_step le_refl approximates_le[OF approx_NX])
    also have "le (T fr (pull_step h emit (\<lambda>it'. pull_unit n h it' emit) (NX h) it)) (F fr it)"
      by (rule step[OF Suc.prems Suc.IH])
    finally show ?case .
  qed (simp add: assms(2))
qed

definition framed :: "(unit \<Rightarrow> ('s, 'a) run) \<Rightarrow> Frame \<Rightarrow> ('s, unit) run \<Rightarrow> ('s, 'a) run" where
  "framed k fr m = with_frame fr (andthen m k)"

lemma None_andthen: "andthen (\<lambda>_. None) k = (\<lambda>_. None)"
  by (rule ext) (simp add: andthen_def)

lemma None_with_frame: "with_frame fr (\<lambda>_. None) = (\<lambda>_. None)"
  by (rule ext) (simp add: with_frame_def split: prod.split)

lemma DR_framed_least:
  assumes "\<And>fr it R. P fr it \<Longrightarrow> (\<And>fr it. P fr it \<Longrightarrow> le (framed k fr (R it)) (F fr it)) \<Longrightarrow>
      le (framed k fr (pull_step h emit R (NX h) it)) (F fr it)"
    and "P fr it"
  shows "le (framed k fr (DR h it emit)) (F fr it)"
  by (rule DR_context_least[where T = "framed k" and P = P])
    (auto simp: framed_def None_andthen None_with_frame intro!: approx_intros le_intros assms[unfolded framed_def])

lemma framed_pull:
  "framed k fr (pull_step h emit R nxt it) =
     andthen (lift (nxt it)) (\<lambda>x. case fst x of
         None \<Rightarrow> with_frame fr (k ())
       | Some item \<Rightarrow> with_frame fr (andthen (emit item) (\<lambda>c. case c of SeqContinue \<Rightarrow> andthen (R (snd x)) k | SeqBreak \<Rightarrow> k ())))"
  unfolding framed_def pull_step_unfold by (simp add: run_laws run_dist cong: run_congs)

lemma with_frame_framed: "with_frame fr m = framed ret fr m"
  by (simp add: framed_def run_laws)

section \<open>Adapters without variables\<close>

lemma DR_rest:
  "andthen (lift (NX h it)) (\<lambda>x. case fst x of
       None \<Rightarrow> ret ()
     | Some item \<Rightarrow> andthen (emit item) (\<lambda>c. case c of SeqContinue \<Rightarrow> DR h (snd x) emit | SeqBreak \<Rightarrow> ret ())) = DR h it emit"
  unfolding DR_eq[of h it] pull_step_unfold ..

lemma push_map: "le (DR h it (map_emit h f emit)) (DR h (IMap it f) emit)"
proof (rule DR_least[where P = "\<lambda>_. True" and F = "\<lambda>it. DR h (IMap it f) emit"])
  show "le (pull_step h (map_emit h f emit) (\<lambda>it. DR h (IMap it f) emit) (NX h) it) (DR h (IMap it f) emit)" for it
    unfolding DR_eq[of h "IMap it f"] pull_step_unfold NX_Map map_emit_def
    by (simp add: run_laws run_dist cong: run_congs)
qed simp_all

lemma push_filter: "le (DR h it (filter_emit h f emit)) (DR h (IFilter it f) emit)"
proof (rule DR_least[where P = "\<lambda>_. True" and F = "\<lambda>it. DR h (IFilter it f) emit"])
  show "le (pull_step h (filter_emit h f emit) (\<lambda>it. DR h (IFilter it f) emit) (NX h) it) (DR h (IFilter it f) emit)" for it
    unfolding DR_eq[of h "IFilter it f"] pull_step_unfold NX_Filter[of h it] filter_emit_def
    by (simp add: run_laws run_dist DR_rest cong: run_congs)
qed simp_all

section \<open>Adapters with variables\<close>

lemma push_scan:
  "le (with_frame fr (DR h it (scan_emit h f emit))) (DR h (IScan it (fr_acc fr) f True) emit)"
  unfolding with_frame_framed
proof (rule DR_framed_least[where P = "\<lambda>_ _. True"])
  fix fr it R
  assume R: "\<And>fr it. True \<Longrightarrow> le (framed ret fr (R it)) (DR h (IScan it (fr_acc fr) f True) emit)"
  have R': "le (with_frame fr (R it)) (DR h (IScan it (fr_acc fr) f True) emit)" for fr it
    using R by (simp add: framed_def run_laws)
  show "le (framed ret fr (pull_step h (scan_emit h f emit) R (NX h) it)) (DR h (IScan it (fr_acc fr) f True) emit)"
    unfolding framed_def DR_eq[of h "IScan it (fr_acc fr) f True"] pull_step_unfold NX_Scan scan_emit_def
    by (auto simp: run_laws run_dist cong: run_congs split: option.split SeqEmitControl.split intro!: le_intros R'[of "fr\<lparr>fr_acc := _\<rparr>", simplified])
qed simp

lemma push_enumerate:
  "le (with_frame fr (DR h it (enumerate_emit h emit))) (DR h (IEnumerate it (fr_idx fr)) emit)"
  unfolding with_frame_framed
proof (rule DR_framed_least[where P = "\<lambda>_ _. True"])
  fix fr it R
  assume R: "\<And>fr it. True \<Longrightarrow> le (framed ret fr (R it)) (DR h (IEnumerate it (fr_idx fr)) emit)"
  have R': "le (with_frame fr (R it)) (DR h (IEnumerate it (fr_idx fr)) emit)" for fr it
    using R by (simp add: framed_def run_laws)
  show "le (framed ret fr (pull_step h (enumerate_emit h emit) R (NX h) it)) (DR h (IEnumerate it (fr_idx fr)) emit)"
    unfolding framed_def DR_eq[of h "IEnumerate it (fr_idx fr)"] pull_step_unfold NX_Enumerate enumerate_emit_def
    by (auto simp: run_laws run_dist cong: run_congs split: option.split SeqEmitControl.split intro!: le_intros R'[of "fr\<lparr>fr_idx := _\<rparr>", simplified])
qed simp

text \<open>A filled window without its first item is a window that misses one.\<close>

lemma DR_Windows_primed:
  assumes "length w = n" "0 < n"
  shows "DR h (IWindows it n w True) emit = DR h (IWindows it n (tl w) False) emit"
proof -
  have "n - length (tl w) = Suc 0"
    using assms by simp
  then show ?thesis
    unfolding DR_eq[of h "IWindows it n w True"] DR_eq[of h "IWindows it n (tl w) False"] pull_step_unfold NX_Windows
    by (simp add: run_laws run_dist case_prod_unfold cong: run_congs)
qed

lemma DR_Windows_step:
  assumes "length w < n"
  shows "DR h (IWindows it n w False) emit =
    andthen (lift (NX h it)) (\<lambda>x. case fst x of
        None \<Rightarrow> ret ()
      | Some item \<Rightarrow>
          if length w + 1 < n then DR h (IWindows (snd x) n (w @ [item]) False) emit
          else andthen (emit (RList (w @ [item]))) (\<lambda>c. case c of
              SeqContinue \<Rightarrow> DR h (IWindows (snd x) n (tl (w @ [item])) False) emit
            | SeqBreak \<Rightarrow> ret ()))"
proof (cases "length w + 1 < n")
  case True
  then have m: "n - length w = Suc (n - Suc (length w))"
    by simp
  show ?thesis
    unfolding DR_eq[of h "IWindows it n w False"] DR_eq[of h "IWindows _ n (w @ [_]) False"] pull_step_unfold NX_Windows
    using True by (simp add: m run_laws run_dist case_prod_unfold cong: run_congs)
next
  case False
  then have m: "n - length w = Suc 0" "n = Suc (length w)"
    using assms by simp_all
  show ?thesis
    unfolding DR_eq[of h "IWindows it n w False"] pull_step_unfold NX_Windows
    using False by (simp add: m DR_Windows_primed run_laws run_dist case_prod_unfold cong: run_congs)
qed

lemma push_windows:
  assumes "length (fr_items fr) < n"
  shows "le (with_frame fr (DR h it (window_emit n emit))) (DR h (IWindows it n (fr_items fr) False) emit)"
  unfolding with_frame_framed
proof (rule DR_framed_least[where P = "\<lambda>fr _. length (fr_items fr) < n"])
  fix fr :: Frame and it R
  assume P: "length (fr_items fr) < n"
    and R: "\<And>(fr :: Frame) it. length (fr_items fr) < n \<Longrightarrow> le (framed ret fr (R it)) (DR h (IWindows it n (fr_items fr) False) emit)"
  have R': "le (with_frame (fr_items_update g fr) (R it)) (DR h (IWindows it n w False) emit)"
    if "w = g (fr_items fr)" "length w < n" for g w it
    using R[of "fr_items_update g fr" it] that by (simp add: framed_def run_laws)
  show "le (framed ret fr (pull_step h (window_emit n emit) R (NX h) it)) (DR h (IWindows it n (fr_items fr) False) emit)"
    unfolding framed_def DR_Windows_step[OF P] pull_step_unfold window_emit_def
    using P by (auto simp: run_laws run_dist cong: run_congs split: option.split SeqEmitControl.split
        intro!: le_intros R')
qed (rule assms)

text \<open>A chunk of which some items are there.\<close>

definition partial_chunk :: "'s Host \<Rightarrow> nat \<Rightarrow> RVal list \<Rightarrow> SeqIterState \<Rightarrow> 's emit_fn \<Rightarrow> ('s, unit) run" where
  "partial_chunk h k w it emit =
     andthen (lift (fill_chunk (NX h) (k - length w) it w)) (\<lambda>x.
       if fst x = [] then ret ()
       else andthen (emit (RList (fst x))) (\<lambda>c. case c of SeqContinue \<Rightarrow> DR h (IChunks (snd x) k) emit | SeqBreak \<Rightarrow> ret ()))"

lemma DR_Chunks: "DR h (IChunks it k) emit = partial_chunk h k [] it emit"
  unfolding DR_eq[of h "IChunks it k"] pull_step_unfold NX_Chunks partial_chunk_def
  by (simp add: run_laws run_dist if_distrib[where f = "\<lambda>x. case x of None \<Rightarrow> _ | Some y \<Rightarrow> _ y"] cong: run_congs)

lemma partial_chunk_step:
  assumes "length w < k"
  shows "partial_chunk h k w it emit =
    andthen (lift (NX h it)) (\<lambda>x. case fst x of
        None \<Rightarrow>
          if w = [] then ret ()
          else andthen (emit (RList w)) (\<lambda>c. case c of SeqContinue \<Rightarrow> DR h (IChunks (snd x) k) emit | SeqBreak \<Rightarrow> ret ())
      | Some item \<Rightarrow>
          if length w + 1 < k then partial_chunk h k (w @ [item]) (snd x) emit
          else andthen (emit (RList (w @ [item]))) (\<lambda>c. case c of
              SeqContinue \<Rightarrow> DR h (IChunks (snd x) k) emit
            | SeqBreak \<Rightarrow> ret ()))"
proof -
  have m: "k - length w = Suc (k - Suc (length w))" "\<not> length w + 1 < k \<Longrightarrow> k - Suc (length w) = 0"
    using assms by simp_all
  show ?thesis
    unfolding partial_chunk_def m(1) fill_chunk.simps
    by (cases "length w + 1 < k") (simp_all add: m(2) run_laws run_dist case_prod_unfold cong: run_congs)
qed

lemma ended_NX: "ended it \<Longrightarrow> NX h it = ret (None, it)"
proof (induction it rule: ended.induct)
  case (10 inp n)
  then obtain m where "n = Suc m"
    by (cases n) auto
  then show ?case
    using 10 by (simp add: NX_Chunks run_laws)
next
  case (11 inp n w primed)
  then obtain m where "primed \<or> n - length w = Suc m"
    by (cases "n - length w") auto
  then show ?case
    using 11 by (cases primed) (auto simp: NX_Windows run_laws)
qed (auto simp: NX_Source NX_Map NX_FlatMap_None NX_Filter NX_Scan NX_Unfold NX_Enumerate panicking_def run_laws andthen_def ret_def)

lemma ended_DR: "ended it \<Longrightarrow> DR h it emit = ret ()"
  by (simp add: DR_eq[of h it] pull_step_unfold ended_NX run_laws)

definition flush :: "'s emit_fn \<Rightarrow> ('s, unit) run" where
  "flush emit = andthen get_frame (\<lambda>fr.
     if \<not> fr_broke fr \<and> fr_items fr \<noteq> [] then andthen (outside (emit (RList (fr_items fr)))) (\<lambda>_. ret ()) else ret ())"

lemma with_frame_flush [run_laws]:
  "with_frame fr (flush emit) =
     (if \<not> fr_broke fr \<and> fr_items fr \<noteq> [] then andthen (emit (RList (fr_items fr))) (\<lambda>_. ret ()) else ret ())"
  by (simp add: flush_def run_laws run_dist)

lemma push_chunks:
  assumes "host_ok h" "it_ok it" "fused it" "length (fr_items fr) < k" "\<not> fr_broke fr"
  shows "le (with_frame fr (andthen (DR h it (chunk_emit k emit)) (\<lambda>_. flush emit))) (partial_chunk h k (fr_items fr) it emit)"
  unfolding framed_def[symmetric]
proof (rule DR_framed_least[where P = "\<lambda>fr it. it_ok it \<and> fused it \<and> length (fr_items fr) < k \<and> \<not> fr_broke fr"])
  fix fr :: Frame and it R
  assume P: "it_ok it \<and> fused it \<and> length (fr_items fr) < k \<and> \<not> fr_broke fr"
    and R: "\<And>fr it. it_ok it \<and> fused it \<and> length (fr_items fr) < k \<and> \<not> fr_broke fr \<Longrightarrow>
      le (framed (\<lambda>_. flush emit) fr (R it)) (partial_chunk h k (fr_items fr) it emit)"
  have R': "le (with_frame (fr_items_update g fr) (andthen (R it) (\<lambda>_. flush emit))) (partial_chunk h k w it emit)"
    if "w = g (fr_items fr)" "it_ok it" "fused it" "length w < k" for g w it
    using R[of it "fr_items_update g fr"] that P by (simp add: framed_def)
  show "le (framed (\<lambda>_. flush emit) fr (pull_step h (chunk_emit k emit) R (NX h) it)) (partial_chunk h k (fr_items fr) it emit)"
    unfolding framed_pull partial_chunk_step[of "fr_items fr" k h it emit, OF conjunct1[OF conjunct2[OF conjunct2[OF P]]]]
  proof (rule le_andthen_result)
    fix s x s'
    assume "lift (NX h it) s = Some (Inr x, s')"
    then have x: "NX h it (fst s) = Some (Inr (fst x, snd x), fst s')"
      by (auto simp: lift_def split: prod.splits)
    have ok: "it_ok (snd x)" "fused (snd x)"
      using NX_it_ok[OF assms(1) _ x] P by simp_all
    have "ended (snd x)" if "fst x = None"
      using NX_ended[OF assms(1), of it "fst s" "snd x" "fst s'"] x that P by simp
    then have last: "DR h (IChunks (snd x) k) emit = ret ()" if "fst x = None"
      using that P by (intro ended_DR) auto
    show "le (case fst x of None \<Rightarrow> with_frame fr (flush emit)
        | Some item \<Rightarrow> with_frame fr (andthen (chunk_emit k emit item)
            (\<lambda>c. case c of SeqContinue \<Rightarrow> andthen (R (snd x)) (\<lambda>_. flush emit) | SeqBreak \<Rightarrow> flush emit)))
      (case fst x of None \<Rightarrow> if fr_items fr = [] then ret ()
            else andthen (emit (RList (fr_items fr))) (\<lambda>c. case c of SeqContinue \<Rightarrow> DR h (IChunks (snd x) k) emit | SeqBreak \<Rightarrow> ret ())
        | Some item \<Rightarrow> if length (fr_items fr) + 1 < k then partial_chunk h k (fr_items fr @ [item]) (snd x) emit
            else andthen (emit (RList (fr_items fr @ [item])))
              (\<lambda>c. case c of SeqContinue \<Rightarrow> DR h (IChunks (snd x) k) emit | SeqBreak \<Rightarrow> ret ()))"
    proof (cases "fst x")
      case None
      then show ?thesis
        using P by (auto simp: last run_laws run_dist intro!: le_intros split: SeqEmitControl.split)
    next
      case (Some item)
      then show ?thesis
        using P ok by (auto simp: chunk_emit_def tracked_def DR_Chunks run_laws run_dist cong: run_congs
            intro!: le_intros R' split: SeqEmitControl.split)
    qed
  qed
qed (use assms in simp)

section \<open>Flat maps\<close>

text \<open>The traversal of an inner plan, and what follows it.\<close>

definition inner_then :: "('s, unit) run \<Rightarrow> Frame \<Rightarrow> ('s, unit) run \<Rightarrow> ('s, unit) run" where
  "inner_then rest fr m =
     andthen (with_frame fr (andthen m (\<lambda>_. andthen get_frame (\<lambda>fr. ret (if fr_broke fr then SeqBreak else SeqContinue)))))
       (\<lambda>c. case c of SeqContinue \<Rightarrow> rest | SeqBreak \<Rightarrow> ret ())"

lemma inner_then_pull:
  assumes "\<not> fr_broke fr"
  shows "inner_then rest fr (pull_step h (tracked emit) R nxt it) =
    andthen (lift (nxt it)) (\<lambda>x. case fst x of
        None \<Rightarrow> rest
      | Some item \<Rightarrow> andthen (emit item) (\<lambda>c. case c of SeqContinue \<Rightarrow> inner_then rest fr (R (snd x)) | SeqBreak \<Rightarrow> ret ()))"
  unfolding inner_then_def pull_step_unfold tracked_def
  using assms by (simp add: run_laws run_dist cong: run_congs)

lemma approx_inner_then [approx_intros]: "approximates A m \<Longrightarrow> approximates (\<lambda>n. inner_then rest fr (A n)) (inner_then rest fr m)"
  unfolding inner_then_def by (auto intro!: approx_intros split: SeqEmitControl.split)

lemma le_inner_then [le_intros]: "le m m' \<Longrightarrow> le rest rest' \<Longrightarrow> le (inner_then rest fr m) (inner_then rest' fr m')"
  unfolding inner_then_def by (auto intro!: le_intros split: SeqEmitControl.split)

lemma DR_FlatMap_Some:
  "DR h (IFlatMap it f (Some inner)) emit =
     andthen (lift (NX h inner)) (\<lambda>x. case fst x of
         None \<Rightarrow> DR h (IFlatMap it f None) emit
       | Some item \<Rightarrow> andthen (emit item) (\<lambda>c. case c of
             SeqContinue \<Rightarrow> DR h (IFlatMap it f (Some (snd x))) emit
           | SeqBreak \<Rightarrow> ret ()))"
  unfolding DR_eq[of h "IFlatMap it f (Some inner)"] pull_step_unfold NX_FlatMap_Some
  by (simp add: run_laws run_dist DR_rest cong: run_congs)

lemma push_inner:
  assumes "\<not> fr_broke fr"
  shows "le (inner_then (DR h (IFlatMap it f None) emit) fr (DR h inner (tracked emit))) (DR h (IFlatMap it f (Some inner)) emit)"
proof (rule DR_context_least[where P = "\<lambda>fr _. \<not> fr_broke fr" and T = "inner_then (DR h (IFlatMap it f None) emit)"
      and F = "\<lambda>_ inner. DR h (IFlatMap it f (Some inner)) emit"])
  fix fr :: Frame and inner R
  assume P: "\<not> fr_broke fr"
    and R: "\<And>fr inner. \<not> fr_broke fr \<Longrightarrow>
      le (inner_then (DR h (IFlatMap it f None) emit) fr (R inner)) (DR h (IFlatMap it f (Some inner)) emit)"
  show "le (inner_then (DR h (IFlatMap it f None) emit) fr (pull_step h (tracked emit) R (NX h) inner))
      (DR h (IFlatMap it f (Some inner)) emit)"
    unfolding inner_then_pull[OF P] DR_FlatMap_Some[of h it f inner]
    by (auto intro!: le_intros R[OF P] split: option.split SeqEmitControl.split)
qed (auto simp: inner_then_def None_andthen None_with_frame assms intro!: approx_intros le_intros split: SeqEmitControl.split)

definition PULL :: "'s Host \<Rightarrow> SeqPlan \<Rightarrow> 's emit_fn \<Rightarrow> ('s, unit) run" where
  "PULL h plan emit = andthen (lift (from_result (seq_iter_from_plan plan))) (\<lambda>it. DR h it emit)"

lemma flat_emit_then:
  "andthen (flat_emit h each f emit item) (\<lambda>c. case c of SeqContinue \<Rightarrow> rest | SeqBreak \<Rightarrow> ret ()) =
     andthen (lift (h_call_value_ref h f [item])) (\<lambda>produced.
     andthen (lift (require_into_traversal_plan h produced ''seq_flat_map'')) (\<lambda>plan.
       inner_then rest frame (each plan (tracked emit))))"
  unfolding flat_emit_def inner_then_def by (simp add: run_laws)

lemma push_flat_map: "le (DR h it (flat_emit h (PULL h) f emit)) (DR h (IFlatMap it f None) emit)"
proof (rule DR_least[where P = "\<lambda>_. True" and F = "\<lambda>it. DR h (IFlatMap it f None) emit"])
  show "le (pull_step h (flat_emit h (PULL h) f emit) (\<lambda>it. DR h (IFlatMap it f None) emit) (NX h) it) (DR h (IFlatMap it f None) emit)" for it
  proof -
    have "inner_then rest frame (PULL h plan e) =
        andthen (lift (from_result (seq_iter_from_plan plan))) (\<lambda>inner. inner_then rest frame (DR h inner e))" for rest plan e
      unfolding inner_then_def PULL_def by (simp add: run_laws)
    moreover have "\<not> fr_broke frame"
      by (simp add: frame_def)
    ultimately show ?thesis
      unfolding DR_eq[of h "IFlatMap it f None"] pull_step_unfold NX_FlatMap_None[of h it] flat_emit_then
      by (auto simp: run_laws run_dist DR_rest cong: run_congs intro!: le_intros push_inner split: option.split)
  qed
qed simp_all

section \<open>Plans\<close>

lemma panicking_Some: "panicking (Some x) = ret x"
  by (rule ext) (simp add: panicking_def ret_def)

lemma DR_yields: "yields it xs \<Longrightarrow> DR h (ISource it) emit = emit_all xs emit"
proof (induction rule: yields.induct)
  case (yields_end it it')
  then show ?case
    by (simp add: DR_eq[of h "ISource it"] pull_step_unfold NX_Source panicking_Some run_laws)
next
  case (yields_item it x it' xs)
  then show ?case
    by (simp add: DR_eq[of h "ISource it"] pull_step_unfold NX_Source panicking_Some run_laws)
qed

lemma DR_source: "DR h (ISource (source_iter src)) emit = emit_all (source_items src) emit"
  by (rule DR_yields[OF source_yields])

lemma push_unfold: "le (unfold_loop n h st step emit) (DR h (IUnfold st step) emit)"
proof (induction n arbitrary: st)
  case (Suc n)
  show ?case
    unfolding DR_eq[of h "IUnfold st step"] pull_step_unfold NX_Unfold
    by (cases st) (auto simp: run_laws run_dist case_prod_unfold cong: run_congs
        split: option.split SeqEmitControl.split intro!: le_intros Suc)
qed simp

lemma push_zip: "le (zip_loop n h l r emit) (DR h (IZip l r) emit)"
proof (induction n arbitrary: l r)
  case (Suc n)
  show ?case
    unfolding DR_eq[of h "IZip l r"] pull_step_unfold NX_Zip
    by (auto simp: run_laws run_dist case_prod_unfold cong: run_congs
        split: option.split SeqEmitControl.split intro!: le_intros Suc approximates_le[OF approx_NX])
qed simp

lemma PULL_Inr: "seq_iter_from_plan plan = Inr it \<Longrightarrow> PULL h plan emit = DR h it emit"
  by (simp add: PULL_def run_laws)

lemma le_flat_emit:
  assumes "host_ok h" "\<And>plan emit. plan_ok plan \<Longrightarrow> le (each plan emit) (each' plan emit)"
  shows "le (flat_emit h each f emit item) (flat_emit h each' f emit item)"
  unfolding flat_emit_def
proof (rule le_andthen_result, rule le_andthen_result)
  fix s v s1 t plan t'
  assume "lift (h_call_value_ref h f [item]) s = Some (Inr v, s1)"
    "lift (require_into_traversal_plan h v ''seq_flat_map'') t = Some (Inr plan, t')"
  then have "plan_ok plan"
    using require_into_ok[OF assms(1) host_okD[OF assms(1)]] by (fastforce simp: lift_def split: prod.splits)
  then show "le (with_frame frame (andthen (each plan (tracked emit))
        (\<lambda>_. andthen get_frame (\<lambda>fr. ret (if fr_broke fr then SeqBreak else SeqContinue)))))
      (with_frame frame (andthen (each' plan (tracked emit))
        (\<lambda>_. andthen get_frame (\<lambda>fr. ret (if fr_broke fr then SeqBreak else SeqContinue)))))"
    by (intro le_intros assms(2))
qed

lemma push_plan:
  assumes "host_ok h" "\<And>plan emit. plan_ok plan \<Longrightarrow> le (each plan emit) (PULL h plan emit)"
  shows "plan_ok plan \<Longrightarrow> le (for_each_with n h each plan emit) (PULL h plan emit)"
proof (induction plan arbitrary: emit rule: sizes_ok.induct)
  case (1 src)
  then show ?case
    by (simp add: PULL_def run_laws DR_source)
next
  case (2 inp f)
  then obtain it where it: "seq_iter_from_plan inp = Inr it" and ok: "plan_ok inp"
    using from_plan_ok[of inp] by (auto simp: plan_ok_def)
  show ?case
    using le_trans[OF 2(1)[OF ok] push_map[of h it f emit, folded PULL_Inr[OF it]]] it by (simp add: PULL_def run_laws)
next
  case (3 inp f)
  then obtain it where it: "seq_iter_from_plan inp = Inr it" and ok: "plan_ok inp"
    using from_plan_ok[of inp] by (auto simp: plan_ok_def)
  have "le (for_each_with n h each inp (flat_emit h each f emit)) (DR h it (flat_emit h each f emit))"
    using 3(1)[OF ok] it by (simp add: PULL_Inr)
  also have "le \<dots> (DR h it (flat_emit h (PULL h) f emit))"
    by (intro le_DR le_flat_emit assms)
  also have "le \<dots> (DR h (IFlatMap it f None) emit)"
    by (rule push_flat_map)
  finally show ?case
    using it by (simp add: PULL_def run_laws)
next
  case (4 inp f)
  then obtain it where it: "seq_iter_from_plan inp = Inr it" and ok: "plan_ok inp"
    using from_plan_ok[of inp] by (auto simp: plan_ok_def)
  show ?case
    using le_trans[OF 4(1)[OF ok] push_filter[of h it f emit, folded PULL_Inr[OF it]]] it by (simp add: PULL_def run_laws)
next
  case (5 inp init f)
  then obtain it where it: "seq_iter_from_plan inp = Inr it" and ok: "plan_ok inp"
    using from_plan_ok[of inp] by (auto simp: plan_ok_def)
  have "le (with_frame (frame\<lparr>fr_acc := init\<rparr>) (for_each_with n h each inp (scan_emit h f emit))) (DR h (IScan it init f True) emit)"
    using le_trans[OF le_with_frame[OF 5(1)[OF ok]] push_scan[of "frame\<lparr>fr_acc := init\<rparr>" h it f emit, folded PULL_Inr[OF it]]]
    by simp
  then show ?case
    using it by (auto simp: PULL_def DR_eq[of h "IScan it init f False"] pull_step_unfold NX_Scan run_laws
        intro!: le_intros split: SeqEmitControl.split)
next
  case (6 seed step)
  then show ?case
    using push_unfold by (simp add: PULL_def run_laws)
next
  case (7 inp)
  then obtain it where it: "seq_iter_from_plan inp = Inr it" and ok: "plan_ok inp"
    using from_plan_ok[of inp] by (auto simp: plan_ok_def)
  have "le (with_frame frame (for_each_with n h each inp (enumerate_emit h emit))) (DR h (IEnumerate it 0) emit)"
    using le_trans[OF le_with_frame[OF 7(1)[OF ok]] push_enumerate[of frame h it emit, folded PULL_Inr[OF it]]]
    by (simp add: frame_def)
  then show ?case
    using it by (simp add: PULL_def run_laws)
next
  case (8 l r)
  then obtain il ir where it: "seq_iter_from_plan l = Inr il" "seq_iter_from_plan r = Inr ir"
    using from_plan_ok[of l] from_plan_ok[of r] by (auto simp: plan_ok_def)
  then show ?case
    using push_zip by (simp add: PULL_def run_laws)
next
  case (9 inp k)
  then obtain it where it: "seq_iter_from_plan inp = Inr it" "it_ok it" "fused it" and ok: "plan_ok inp" and k: "0 < sint k"
    using from_plan_ok[of inp] by (auto simp: plan_ok_def)
  have "le (with_frame frame (andthen (for_each_with n h each inp (chunk_emit (nat (sint k)) emit)) (\<lambda>_. flush emit)))
      (with_frame frame (andthen (DR h it (chunk_emit (nat (sint k)) emit)) (\<lambda>_. flush emit)))"
    using 9(1)[OF ok] by (intro le_intros) (simp add: PULL_Inr[OF it(1)])
  also have "le \<dots> (partial_chunk h (nat (sint k)) (fr_items frame) it emit)"
    using k by (intro push_chunks assms it) (simp_all add: frame_def)
  finally show ?case
    using it k by (simp add: PULL_def run_laws positive_size_def DR_Chunks frame_def flush_def)
next
  case (10 inp k)
  then obtain it where it: "seq_iter_from_plan inp = Inr it" and ok: "plan_ok inp" and k: "0 < sint k"
    using from_plan_ok[of inp] by (auto simp: plan_ok_def)
  have "le (with_frame frame (for_each_with n h each inp (window_emit (nat (sint k)) emit)))
      (with_frame frame (DR h it (window_emit (nat (sint k)) emit)))"
    using 10(1)[OF ok] by (intro le_intros) (simp add: PULL_Inr[OF it])
  also have "le \<dots> (DR h (IWindows it (nat (sint k)) (fr_items frame) False) emit)"
    using k by (intro push_windows) (simp add: frame_def)
  finally show ?case
    using it k by (simp add: PULL_def run_laws positive_size_def frame_def)
qed

lemma push_below_pull: "host_ok h \<Longrightarrow> plan_ok plan \<Longrightarrow> le (seq_for_each_control n h plan emit) (PULL h plan emit)"
proof (induction n arbitrary: plan emit)
  case (Suc n)
  then show ?case
    by (simp add: push_plan)
qed simp

end
