(* ===== verification/Seq_Pull.thy ===== *)
theory Seq_Pull
  imports Seq_Push
begin

text \<open>
  The other half: whatever pulling an iterator dry computes, the traversal of what is left of its plan
  computes as well.
\<close>

section \<open>The traversal of what is left\<close>

fun left :: "'s Host \<Rightarrow> (SeqPlan \<Rightarrow> 's emit_fn \<Rightarrow> ('s, unit) run) \<Rightarrow> SeqIterState \<Rightarrow> 's emit_fn \<Rightarrow> ('s, unit) run" where
  "left h each (ISource src) emit = DR h (ISource src) emit"
| "left h each (IMap inp f) emit = left h each inp (map_emit h f emit)"
| "left h each (IFlatMap inp f None) emit = left h each inp (flat_emit h each f emit)"
| "left h each (IFlatMap inp f (Some inner)) emit =
     inner_then (left h each inp (flat_emit h each f emit)) frame (left h each inner (tracked emit))"
| "left h each (IFilter inp f) emit = left h each inp (filter_emit h f emit)"
| "left h each (IScan inp acc f emitted) emit =
     (let rest = with_frame (frame\<lparr>fr_acc := acc\<rparr>) (left h each inp (scan_emit h f emit))
      in if emitted then rest
         else andthen (emit acc) (\<lambda>c. case c of SeqContinue \<Rightarrow> rest | SeqBreak \<Rightarrow> ret ()))"
| "left h each (IUnfold st step) emit = DR h (IUnfold st step) emit"
| "left h each (IEnumerate inp idx) emit = with_frame (frame\<lparr>fr_idx := idx\<rparr>) (left h each inp (enumerate_emit h emit))"
| "left h each (IZip l r) emit = DR h (IZip l r) emit"
| "left h each (IChunks inp k) emit = with_frame frame (andthen (left h each inp (chunk_emit k emit)) (\<lambda>_. flush emit))"
| "left h each (IWindows inp n w primed) emit =
     with_frame (frame\<lparr>fr_items := (if primed then tl w else w)\<rparr>) (left h each inp (window_emit n emit))"

lemma ended_left: "ended it \<Longrightarrow> left h each it emit = ret ()"
  by (induction it arbitrary: emit rule: ended.induct) (auto simp: ended_DR run_laws frame_def Let_def)

lemma le_lift_result:
  assumes "\<And>s x s'. m s = Some (Inr x, s') \<Longrightarrow> le (f x) (f' x)"
  shows "le (andthen (lift m) f) (andthen (lift m) f')"
proof (rule le_andthen_result)
  fix s x s'
  assume "lift m s = Some (Inr x, s')"
  then have "m (fst s) = Some (Inr x, fst s')"
    by (auto simp: lift_def split: prod.splits)
  then show "le (f x) (f' x)"
    by (rule assms)
qed

text \<open>One pull of an iterator is the beginning of the traversal of what is left.\<close>

definition begins :: "'s Host \<Rightarrow> (SeqPlan \<Rightarrow> 's emit_fn \<Rightarrow> ('s, unit) run) \<Rightarrow> nat \<Rightarrow> bool" where
  "begins h each n \<longleftrightarrow>
     (\<forall>it emit. it_ok it \<longrightarrow> le (pull_step h emit (\<lambda>it'. left h each it' emit) (seq_iter_next n h) it) (left h each it emit))"

lemma beginsD:
  "begins h each n \<Longrightarrow> it_ok it \<Longrightarrow>
    le (pull_step h emit (\<lambda>it'. left h each it' emit) (seq_iter_next n h) it) (left h each it emit)"
  unfolding begins_def by blast

lemma next_Suc_simps:
  "seq_iter_next (Suc n) h it = next_step h (seq_iter_next n h) it"
  by simp

lemma begins_base:
  assumes "left h each it emit = DR h it emit" "\<And>s r it' s'. seq_iter_next n h it s = Some (Inr (r, it'), s') \<Longrightarrow>
    left h each it' emit = DR h it' emit"
  shows "le (pull_step h emit (\<lambda>it'. left h each it' emit) (seq_iter_next n h) it) (left h each it emit)"
proof -
  have "le (pull_step h emit (\<lambda>it'. left h each it' emit) (seq_iter_next n h) it)
      (pull_step h emit (\<lambda>it'. DR h it' emit) (seq_iter_next n h) it)"
    by (rule le_pull_rest) (use assms(2) in simp)
  also have "le \<dots> (pull_step h emit (\<lambda>it'. DR h it' emit) (NX h) it)"
    by (intro le_pull_step le_refl approximates_le[OF approx_NX])
  finally show ?thesis
    by (simp add: assms(1) DR_eq[symmetric])
qed

lemma begins_Source: "le (pull_step h emit (\<lambda>it'. left h each it' emit) (seq_iter_next n h) (ISource src)) (left h each (ISource src) emit)"
  by (rule begins_base, simp, cases n) (auto simp: next_step_def andthen_Some ret_def)

lemma begins_Unfold: "le (pull_step h emit (\<lambda>it'. left h each it' emit) (seq_iter_next n h) (IUnfold st step)) (left h each (IUnfold st step) emit)"
  by (rule begins_base, simp, cases n) (auto simp: next_step_def andthen_Some ret_def split: option.splits)

lemma begins_Zip: "le (pull_step h emit (\<lambda>it'. left h each it' emit) (seq_iter_next n h) (IZip l r)) (left h each (IZip l r) emit)"
  by (rule begins_base, simp, cases n) (auto simp: next_step_def andthen_Some ret_def split: option.splits)

lemma begins_Map:
  assumes "begins h each n" "it_ok inp"
  shows "le (pull_step h emit (\<lambda>it'. left h each it' emit) (seq_iter_next (Suc n) h) (IMap inp f)) (left h each (IMap inp f) emit)"
proof -
  have "pull_step h emit (\<lambda>it'. left h each it' emit) (seq_iter_next (Suc n) h) (IMap inp f) =
      pull_step h (map_emit h f emit) (\<lambda>it'. left h each it' (map_emit h f emit)) (seq_iter_next n h) inp"
    unfolding pull_step_unfold map_emit_def
    by (simp add: next_step_def case_prod_unfold run_laws run_dist map_emit_def[abs_def] cong: run_congs)
  then show ?thesis
    using beginsD[OF assms, of "map_emit h f emit"] by simp
qed

lemma begins_Filter:
  assumes "host_ok h" "begins h each n" "it_ok inp"
  shows "le (pull_step h emit (\<lambda>it'. left h each it' emit) (seq_iter_next (Suc n) h) (IFilter inp f)) (left h each (IFilter inp f) emit)"
proof -
  let ?rest = "\<lambda>it'. left h each it' (filter_emit h f emit)"
  have "le (pull_step h emit (\<lambda>it'. left h each it' emit) (seq_iter_next (Suc n) h) (IFilter inp f))
      (pull_step h (filter_emit h f emit) ?rest (seq_iter_next n h) inp)"
    unfolding pull_step_unfold[of h emit] pull_step_unfold[of h "filter_emit h f emit"]
    apply (simp add: next_step_def case_prod_unfold run_laws run_dist cong: run_congs)
    apply (rule le_lift_result)
    subgoal for s x s'
      using beginsD[OF assms(2), of "IFilter (snd x) f" emit] next_it_ok[OF assms(1,3), of n s "fst x" "snd x" s']
      by (auto simp: filter_emit_def pull_step_unfold run_laws run_dist cong: run_congs intro!: le_intros split: option.split RVal.split SeqEmitControl.split)
    done
  then show ?thesis
    using le_trans[OF _ beginsD[OF assms(2,3), of "filter_emit h f emit"]] by simp
qed

lemma begins_Scan:
  assumes "begins h each n" "it_ok inp"
  shows "le (pull_step h emit (\<lambda>it'. left h each it' emit) (seq_iter_next (Suc n) h) (IScan inp acc f emitted))
    (left h each (IScan inp acc f emitted) emit)"
proof (cases emitted)
  case True
  then have "pull_step h emit (\<lambda>it'. left h each it' emit) (seq_iter_next (Suc n) h) (IScan inp acc f emitted) =
      with_frame (frame\<lparr>fr_acc := acc\<rparr>)
        (pull_step h (scan_emit h f emit) (\<lambda>it'. left h each it' (scan_emit h f emit)) (seq_iter_next n h) inp)"
    unfolding pull_step_unfold[of h emit] pull_step_unfold[of h "scan_emit h f emit"]
    by (simp add: next_step_def case_prod_unfold run_laws run_dist scan_emit_def cong: run_congs)
  then show ?thesis
    using True beginsD[OF assms, of "scan_emit h f emit"] by (simp add: le_with_frame)
next
  case False
  then show ?thesis
    by (simp add: pull_step_unfold next_step_def run_laws Let_def)
qed

lemma begins_Enumerate:
  assumes "begins h each n" "it_ok inp"
  shows "le (pull_step h emit (\<lambda>it'. left h each it' emit) (seq_iter_next (Suc n) h) (IEnumerate inp idx))
    (left h each (IEnumerate inp idx) emit)"
proof -
  have "pull_step h emit (\<lambda>it'. left h each it' emit) (seq_iter_next (Suc n) h) (IEnumerate inp idx) =
      with_frame (frame\<lparr>fr_idx := idx\<rparr>)
        (pull_step h (enumerate_emit h emit) (\<lambda>it'. left h each it' (enumerate_emit h emit)) (seq_iter_next n h) inp)"
    unfolding pull_step_unfold[of h emit] pull_step_unfold[of h "enumerate_emit h emit"]
    by (simp add: next_step_def case_prod_unfold run_laws run_dist enumerate_emit_def cong: run_congs)
  then show ?thesis
    using beginsD[OF assms, of "enumerate_emit h emit"] by (simp add: le_with_frame)
qed

definition after_window ::
    "'s Host \<Rightarrow> (SeqPlan \<Rightarrow> 's emit_fn \<Rightarrow> ('s, unit) run) \<Rightarrow> nat \<Rightarrow> 's emit_fn \<Rightarrow> bool \<times> RVal list \<times> SeqIterState \<Rightarrow> ('s, unit) run" where
  "after_window h each k emit x =
     (if fst x then andthen (emit (RList (fst (snd x)))) (\<lambda>c. case c of
          SeqContinue \<Rightarrow> left h each (IWindows (snd (snd x)) k (fst (snd x)) True) emit
        | SeqBreak \<Rightarrow> ret ())
      else ret ())"

lemma begins_window:
  assumes "begins h each n" "it_ok inp" "length w < k" "host_ok h"
  shows "le (andthen (lift (fill_window (seq_iter_next n h) (k - length w) inp w)) (after_window h each k emit))
    (with_frame (frame\<lparr>fr_items := w\<rparr>) (left h each inp (window_emit k emit)))"
  using assms(2,3)
proof (induction "k - length w" arbitrary: w inp)
  case (Suc j)
  let ?nxt = "seq_iter_next n h"
  have more: "le (andthen (lift (fill_window ?nxt j it (w @ [item]))) (after_window h each k emit))
      (with_frame (frame\<lparr>fr_items := w @ [item]\<rparr>) (left h each it (window_emit k emit)))" if "it_ok it" "j \<noteq> 0" for it item
  proof -
    have "j = k - length (w @ [item])" "length (w @ [item]) < k"
      using Suc.hyps(2) that by simp_all
    then show ?thesis
      using Suc.hyps(1)[of "w @ [item]" it] that by metis
  qed
  have "le (andthen (lift (fill_window ?nxt (Suc j) inp w)) (after_window h each k emit))
    (with_frame (frame\<lparr>fr_items := w\<rparr>)
      (pull_step h (window_emit k emit) (\<lambda>it'. left h each it' (window_emit k emit)) ?nxt inp))"
    unfolding pull_step_unfold fill_window.simps
    apply (simp add: case_prod_unfold run_laws run_dist cong: run_congs)
    apply (rule le_lift_result)
    subgoal for s x s'
      using next_it_ok[OF assms(4) Suc.prems(1), of n s "fst x" "snd x" s'] Suc.hyps(2) Suc.prems(2) more[of "snd x"]
      by (cases "j = 0") (auto simp: window_emit_def after_window_def comp_def run_laws run_dist cong: run_congs
          intro!: le_intros split: option.split SeqEmitControl.split)
    done
  also have "le \<dots> (with_frame (frame\<lparr>fr_items := w\<rparr>) (left h each inp (window_emit k emit)))"
    by (intro le_with_frame beginsD assms Suc.prems)
  finally show ?case
    using Suc.hyps(2) by simp
qed simp

lemma begins_Windows:
  assumes "begins h each n" "it_ok (IWindows inp k w primed)" "host_ok h"
  shows "le (pull_step h emit (\<lambda>it'. left h each it' emit) (seq_iter_next (Suc n) h) (IWindows inp k w primed))
    (left h each (IWindows inp k w primed) emit)"
proof (cases primed)
  case True
  then have w: "k = length w" "w \<noteq> []" "it_ok inp"
    using assms(2) by auto
  have "pull_step h emit (\<lambda>it'. left h each it' emit) (seq_iter_next (Suc n) h) (IWindows inp k w primed) =
      with_frame (frame\<lparr>fr_items := tl w\<rparr>)
        (pull_step h (window_emit k emit) (\<lambda>it'. left h each it' (window_emit k emit)) (seq_iter_next n h) inp)"
    using True w unfolding pull_step_unfold[of h emit] pull_step_unfold[of h "window_emit k emit"]
    by (simp add: next_step_def case_prod_unfold run_laws run_dist window_emit_def comp_def cong: run_congs)
  then show ?thesis
    using True beginsD[OF assms(1) w(3), of "window_emit k emit"] by (simp add: le_with_frame)
next
  case False
  then have "pull_step h emit (\<lambda>it'. left h each it' emit) (seq_iter_next (Suc n) h) (IWindows inp k w primed) =
      andthen (lift (fill_window (seq_iter_next n h) (k - length w) inp w)) (after_window h each k emit)"
    unfolding pull_step_unfold after_window_def[abs_def]
    by (simp add: next_step_def case_prod_unfold run_laws run_dist
        if_distrib[where f = "\<lambda>x. case x of None \<Rightarrow> _ | Some y \<Rightarrow> _ y"] cong: run_congs)
  then show ?thesis
    using False begins_window[OF assms(1) _ _ assms(3)] assms(2) by simp
qed

definition after_chunk ::
    "'s Host \<Rightarrow> (SeqPlan \<Rightarrow> 's emit_fn \<Rightarrow> ('s, unit) run) \<Rightarrow> nat \<Rightarrow> 's emit_fn \<Rightarrow> RVal list \<times> SeqIterState \<Rightarrow> ('s, unit) run" where
  "after_chunk h each k emit x =
     (if fst x = [] then ret ()
      else andthen (emit (RList (fst x))) (\<lambda>c. case c of
          SeqContinue \<Rightarrow> left h each (IChunks (snd x) k) emit
        | SeqBreak \<Rightarrow> ret ()))"

lemma begins_chunk:
  assumes "begins h each n" "it_ok inp" "fused inp" "length w < k" "host_ok h"
  shows "le (andthen (lift (fill_chunk (seq_iter_next n h) (k - length w) inp w)) (after_chunk h each k emit))
    (with_frame (frame\<lparr>fr_items := w\<rparr>) (andthen (left h each inp (chunk_emit k emit)) (\<lambda>_. flush emit)))"
  using assms(2,3,4)
proof (induction "k - length w" arbitrary: w inp)
  case (Suc j)
  let ?nxt = "seq_iter_next n h"
  have more: "le (andthen (lift (fill_chunk ?nxt j it (w @ [item]))) (after_chunk h each k emit))
      (with_frame (frame\<lparr>fr_items := w @ [item]\<rparr>) (andthen (left h each it (chunk_emit k emit)) (\<lambda>_. flush emit)))"
    if "it_ok it" "fused it" "j \<noteq> 0" for it item
  proof -
    have "j = k - length (w @ [item])" "length (w @ [item]) < k"
      using Suc.hyps(2) that by simp_all
    then show ?thesis
      using Suc.hyps(1)[of "w @ [item]" it] that by metis
  qed
  have at_end: "ended (snd x)" if "seq_iter_next n h inp s = Some (Inr x, s')" "fst x = None" for s x s'
    using next_ended[OF assms(5) Suc.prems(1,2), of n s "snd x" s'] that by (cases x) auto
  have frame: "fr_items frame = []" "\<not> fr_broke frame" "frame\<lparr>fr_items := []\<rparr> = frame"
    by (simp_all add: frame_def)
  have "le (andthen (lift (fill_chunk ?nxt (Suc j) inp w)) (after_chunk h each k emit))
    (framed (\<lambda>_. flush emit) (frame\<lparr>fr_items := w\<rparr>)
      (pull_step h (chunk_emit k emit) (\<lambda>it'. left h each it' (chunk_emit k emit)) ?nxt inp))"
    unfolding framed_pull fill_chunk.simps
    apply (simp add: case_prod_unfold lift_andthen lift_ret andthen_assoc ret_andthen run_dist cong: run_congs)
    apply (rule le_lift_result)
    subgoal for s x s'
      using next_it_ok[OF assms(5) Suc.prems(1), of n s "fst x" "snd x" s'] Suc.hyps(2) Suc.prems(2,3) more[of "snd x"]
        at_end[of s x s']
      by (cases "j = 0") (auto simp: chunk_emit_def tracked_def after_chunk_def comp_def ended_left frame run_laws run_dist cong: run_congs
          intro!: le_intros split: option.split SeqEmitControl.split)
    done
  also have "le \<dots> (framed (\<lambda>_. flush emit) (frame\<lparr>fr_items := w\<rparr>) (left h each inp (chunk_emit k emit)))"
    unfolding framed_def by (intro le_intros beginsD assms Suc.prems)
  finally show ?case
    using Suc.hyps(2) by (simp add: framed_def)
qed simp

lemma begins_Chunks:
  assumes "begins h each n" "it_ok (IChunks inp k)" "host_ok h"
  shows "le (pull_step h emit (\<lambda>it'. left h each it' emit) (seq_iter_next (Suc n) h) (IChunks inp k)) (left h each (IChunks inp k) emit)"
proof -
  have "frame\<lparr>fr_items := []\<rparr> = frame"
    by (simp add: frame_def)
  moreover have "pull_step h emit (\<lambda>it'. left h each it' emit) (seq_iter_next (Suc n) h) (IChunks inp k) =
      andthen (lift (fill_chunk (seq_iter_next n h) k inp [])) (after_chunk h each k emit)"
    unfolding pull_step_unfold after_chunk_def[abs_def]
    by (simp add: next_step_def case_prod_unfold run_laws run_dist
        if_distrib[where f = "\<lambda>x. case x of None \<Rightarrow> _ | Some y \<Rightarrow> _ y"] cong: run_congs)
  ultimately show ?thesis
    using begins_chunk[OF assms(1) _ _ _ assms(3), of inp "[]" k emit] assms(2) by simp
qed

text \<open>The traversal that flat maps use for the plans they meet.\<close>

definition covers :: "'s Host \<Rightarrow> (SeqPlan \<Rightarrow> 's emit_fn \<Rightarrow> ('s, unit) run) \<Rightarrow> bool" where
  "covers h each \<longleftrightarrow>
     (\<forall>plan it emit. plan_ok plan \<longrightarrow> seq_iter_from_plan plan = Inr it \<longrightarrow> le (left h each it emit) (each plan emit))"

lemma begins_FlatMap_None:
  assumes "begins h each n" "it_ok inp" "host_ok h" "covers h each"
  shows "le (pull_step h emit (\<lambda>it'. left h each it' emit) (seq_iter_next (Suc n) h) (IFlatMap inp f None))
    (left h each (IFlatMap inp f None) emit)"
proof -
  let ?nxt = "seq_iter_next n h"
  let ?rest = "\<lambda>it'. left h each it' (flat_emit h each f emit)"
  have inner: "le (andthen (lift (from_result (seq_iter_from_plan plan)))
        (\<lambda>inner. pull_step h emit (\<lambda>it'. left h each it' emit) ?nxt (IFlatMap it f (Some inner))))
      (inner_then (?rest it) frame (each plan (tracked emit)))" if "plan_ok plan" "it_ok it" for plan it
  proof -
    have "sizes_ok plan" "chunks_fused plan"
      using that(1) by (simp_all add: plan_ok_def)
    then obtain i where i: "seq_iter_from_plan plan = Inr i" "it_ok i"
      using from_plan_ok[of plan] by blast
    have "le (pull_step h emit (\<lambda>it'. left h each it' emit) ?nxt (IFlatMap it f (Some i))) (left h each (IFlatMap it f (Some i)) emit)"
      using that i by (intro beginsD assms) simp
    also have "le \<dots> (inner_then (?rest it) frame (each plan (tracked emit)))"
      using assms(4) that(1) i(1) unfolding covers_def by (auto intro!: le_intros)
    finally show ?thesis
      using i(1) by (simp add: run_laws)
  qed
  have "le (pull_step h emit (\<lambda>it'. left h each it' emit) (seq_iter_next (Suc n) h) (IFlatMap inp f None))
      (pull_step h (flat_emit h each f emit) ?rest ?nxt inp)"
    unfolding pull_step_unfold[of h emit "\<lambda>it'. left h each it' emit" "seq_iter_next (Suc n) h"]
      pull_step_unfold[of h "flat_emit h each f emit"] flat_emit_then
    apply (simp add: next_step_def case_prod_unfold run_laws run_dist cong: run_congs)
    apply (rule le_lift_result)
    subgoal for s x s'
      apply (cases "fst x")
       apply simp
      apply simp
      apply (rule le_lift_result, rule le_lift_result)
      apply (rule inner[unfolded pull_step_unfold])
      subgoal for item t v t' t1 plan t2
        by (rule require_into_ok[OF assms(3) host_okD[OF assms(3)]])
      subgoal
        using next_it_ok[OF assms(3,2), of n s "fst x" "snd x" s'] by (cases x) simp
      done
    done
  also have "le \<dots> (left h each inp (flat_emit h each f emit))"
    by (rule beginsD[OF assms(1,2)])
  finally show ?thesis
    by simp
qed

lemma begins_FlatMap_Some:
  assumes "begins h each n" "it_ok inp" "it_ok inner"
  shows "le (pull_step h emit (\<lambda>it'. left h each it' emit) (seq_iter_next (Suc n) h) (IFlatMap inp f (Some inner)))
    (left h each (IFlatMap inp f (Some inner)) emit)"
proof -
  let ?rest = "left h each inp (flat_emit h each f emit)"
  have "le (pull_step h emit (\<lambda>it'. left h each it' emit) (seq_iter_next (Suc n) h) (IFlatMap inp f (Some inner)))
      (inner_then ?rest frame (pull_step h (tracked emit) (\<lambda>it'. left h each it' (tracked emit)) (seq_iter_next n h) inner))"
    unfolding inner_then_pull[of frame, unfolded frame_def, simplified, folded frame_def] pull_step_unfold[of h emit]
    using beginsD[OF assms(1), of "IFlatMap inp f None" emit] assms(2)
    by (auto simp: pull_step_unfold next_step_def case_prod_unfold run_laws run_dist cong: run_congs
        intro!: le_intros split: option.split SeqEmitControl.split)
  also have "le \<dots> (inner_then ?rest frame (left h each inner (tracked emit)))"
    by (intro le_intros beginsD assms)
  finally show ?thesis
    by simp
qed

lemma begins_all: "host_ok h \<Longrightarrow> covers h each \<Longrightarrow> begins h each n"
proof (induction n)
  case 0
  then show ?case
    by (simp add: begins_def pull_step_unfold lift_def andthen_def case_prod_unfold)
next
  case (Suc n)
  show ?case
    unfolding begins_def
  proof (intro allI impI)
    fix it emit
    assume "it_ok it"
    then show "le (pull_step h emit (\<lambda>it'. left h each it' emit) (seq_iter_next (Suc n) h) it) (left h each it emit)"
      using Suc
      by (cases it rule: it_ok.cases) (auto simp del: seq_iter_next.simps left.simps
          intro!: begins_Source begins_Map begins_FlatMap_None begins_FlatMap_Some begins_Filter begins_Scan begins_Unfold
            begins_Enumerate begins_Zip begins_Chunks begins_Windows)
  qed
qed

lemma pull_below_left:
  assumes "host_ok h" "covers h each" "it_ok it"
  shows "le (DR h it emit) (left h each it emit)"
proof (rule approximates_least[OF approx_DR_const])
  show "le (pull_unit n h it emit) (left h each it emit)" for n
    using assms(3)
  proof (induction n arbitrary: it)
    case (Suc n)
    have "le (pull_unit (Suc n) h it emit) (pull_step h emit (\<lambda>it'. left h each it' emit) (seq_iter_next n h) it)"
      unfolding pull_unit_Suc
      by (rule le_pull_rest) (use Suc.IH next_it_ok[OF assms(1) Suc.prems] in blast)
    also have "le \<dots> (left h each it emit)"
      by (rule beginsD[OF begins_all[OF assms(1,2)] Suc.prems])
    finally show ?case .
  qed simp
qed

end
