(* ===== verification/Seq_Properties.thy ===== *)
theory Seq_Properties
  imports Seq_Pull
begin

text \<open>
  The traversal without fuel, and the equivalence of the two ways to run a plan.
\<close>

section \<open>Monotonicity and continuity of traversals\<close>

lemma le_emit_all [le_intros]: "(\<And>item. le (emit item) (emit' item)) \<Longrightarrow> le (emit_all xs emit) (emit_all xs emit')"
  by (induction xs) (auto intro!: le_intros split: SeqEmitControl.split)

lemma approx_emit_all [approx_intros]:
  "(\<And>item. approximates (\<lambda>n. En n item) (emit item)) \<Longrightarrow> approximates (\<lambda>n. emit_all xs (En n)) (emit_all xs emit)"
  by (induction xs) (auto intro!: approx_intros split: SeqEmitControl.split)

lemma le_tracked [le_intros]: "(\<And>item. le (emit item) (emit' item)) \<Longrightarrow> le (tracked emit item) (tracked emit' item)"
  unfolding tracked_def by (intro le_intros)

lemma approx_tracked [approx_intros]:
  "(\<And>item. approximates (\<lambda>n. En n item) (emit item)) \<Longrightarrow> approximates (\<lambda>n. tracked (En n) item) (tracked emit item)"
  unfolding tracked_def by (intro approx_intros)

lemma le_map_emit [le_intros]: "(\<And>item. le (emit item) (emit' item)) \<Longrightarrow> le (map_emit h f emit item) (map_emit h f emit' item)"
  unfolding map_emit_def by (intro le_intros)

lemma approx_map_emit [approx_intros]:
  "(\<And>item. approximates (\<lambda>n. En n item) (emit item)) \<Longrightarrow> approximates (\<lambda>n. map_emit h f (En n) item) (map_emit h f emit item)"
  unfolding map_emit_def by (intro approx_intros)

lemma le_filter_emit [le_intros]:
  "(\<And>item. le (emit item) (emit' item)) \<Longrightarrow> le (filter_emit h f emit item) (filter_emit h f emit' item)"
  unfolding filter_emit_def by (auto intro!: le_intros split: RVal.split)

lemma approx_filter_emit [approx_intros]:
  "(\<And>item. approximates (\<lambda>n. En n item) (emit item)) \<Longrightarrow> approximates (\<lambda>n. filter_emit h f (En n) item) (filter_emit h f emit item)"
  unfolding filter_emit_def by (auto intro!: approx_intros split: RVal.split)

lemma le_scan_emit [le_intros]: "(\<And>item. le (emit item) (emit' item)) \<Longrightarrow> le (scan_emit h f emit item) (scan_emit h f emit' item)"
  unfolding scan_emit_def by (intro le_intros)

lemma approx_scan_emit [approx_intros]:
  "(\<And>item. approximates (\<lambda>n. En n item) (emit item)) \<Longrightarrow> approximates (\<lambda>n. scan_emit h f (En n) item) (scan_emit h f emit item)"
  unfolding scan_emit_def by (intro approx_intros)

lemma le_enumerate_emit [le_intros]:
  "(\<And>item. le (emit item) (emit' item)) \<Longrightarrow> le (enumerate_emit h emit item) (enumerate_emit h emit' item)"
  unfolding enumerate_emit_def by (intro le_intros)

lemma approx_enumerate_emit [approx_intros]:
  "(\<And>item. approximates (\<lambda>n. En n item) (emit item)) \<Longrightarrow> approximates (\<lambda>n. enumerate_emit h (En n) item) (enumerate_emit h emit item)"
  unfolding enumerate_emit_def by (intro approx_intros)

lemma le_chunk_emit [le_intros]: "(\<And>item. le (emit item) (emit' item)) \<Longrightarrow> le (chunk_emit k emit item) (chunk_emit k emit' item)"
  unfolding chunk_emit_def by (auto intro!: le_intros)

lemma approx_chunk_emit [approx_intros]:
  "(\<And>item. approximates (\<lambda>n. En n item) (emit item)) \<Longrightarrow> approximates (\<lambda>n. chunk_emit k (En n) item) (chunk_emit k emit item)"
  unfolding chunk_emit_def by (auto intro!: approx_intros)

lemma le_window_emit [le_intros]: "(\<And>item. le (emit item) (emit' item)) \<Longrightarrow> le (window_emit k emit item) (window_emit k emit' item)"
  unfolding window_emit_def by (auto intro!: le_intros)

lemma approx_window_emit [approx_intros]:
  "(\<And>item. approximates (\<lambda>n. En n item) (emit item)) \<Longrightarrow> approximates (\<lambda>n. window_emit k (En n) item) (window_emit k emit item)"
  unfolding window_emit_def by (auto intro!: approx_intros)

lemma le_flush [le_intros]: "(\<And>item. le (emit item) (emit' item)) \<Longrightarrow> le (flush emit) (flush emit')"
  unfolding flush_def by (auto intro!: le_intros)

lemma approx_flush [approx_intros]:
  "(\<And>item. approximates (\<lambda>n. En n item) (emit item)) \<Longrightarrow> approximates (\<lambda>n. flush (En n)) (flush emit)"
  unfolding flush_def by (auto intro!: approx_intros)

lemma le_unfold_loop [le_intros]:
  "(\<And>item. le (emit item) (emit' item)) \<Longrightarrow> n \<le> m \<Longrightarrow> le (unfold_loop n h st step emit) (unfold_loop m h st step emit')"
proof (induction n arbitrary: m st)
  case (Suc n)
  then obtain k where m: "m = Suc k" "n \<le> k"
    by (cases m) auto
  show ?case
    using m Suc.IH[of k] Suc.prems(1) by (cases st) (auto intro!: le_intros split: option.split prod.split SeqEmitControl.split)
qed simp

lemma approx_unfold_loop [approx_intros]:
  "(\<And>item. approximates (\<lambda>n. En n item) (emit item)) \<Longrightarrow> approximates (\<lambda>n. unfold_loop k h st step (En n)) (unfold_loop k h st step emit)"
proof (induction k arbitrary: st)
  case (Suc k)
  then show ?case
    by (cases st) (auto intro!: approx_intros split: option.split prod.split SeqEmitControl.split)
qed (simp add: approx_const)

lemma le_zip_loop [le_intros]:
  "(\<And>item. le (emit item) (emit' item)) \<Longrightarrow> n \<le> m \<Longrightarrow> le (zip_loop n h l r emit) (zip_loop m h l r emit')"
proof (induction n arbitrary: m l r)
  case (Suc n)
  then obtain k where m: "m = Suc k" "n \<le> k"
    by (cases m) auto
  have "le (seq_iter_next n h it) (seq_iter_next k h it)" for it
    by (rule approximates_chain[OF approx_NX m(2)])
  then show ?case
    using m Suc.IH[of k] Suc.prems(1) by (auto intro!: le_intros split: option.split prod.split SeqEmitControl.split)
qed simp

lemma approx_zip_loop [approx_intros]:
  "(\<And>item. approximates (\<lambda>n. En n item) (emit item)) \<Longrightarrow> approximates (\<lambda>n. zip_loop k h l r (En n)) (zip_loop k h l r emit)"
proof (induction k arbitrary: l r)
  case (Suc k)
  then show ?case
    by (auto intro!: approx_intros split: option.split prod.split SeqEmitControl.split)
qed (simp add: approx_const)

lemma le_for_each:
  assumes "\<And>plan emit emit'. (\<And>item. le (emit item) (emit' item)) \<Longrightarrow> le (each plan emit) (each' plan emit')" "n \<le> m"
  shows "(\<And>item. le (emit item) (emit' item)) \<Longrightarrow> le (for_each_with n h each plan emit) (for_each_with m h each' plan emit')"
proof (induction plan arbitrary: emit emit' rule: sizes_ok.induct)
  case (3 inp f)
  have "le (flat_emit h each f emit item) (flat_emit h each' f emit' item)" for item
    unfolding flat_emit_def by (intro le_intros assms(1) "3.prems")
  then show ?case
    by (simp add: "3.IH")
next
  case (2 inp f)
  show ?case
    unfolding for_each_with.simps using "2.prems"
    by (auto intro!: le_intros "2.IH"[OF le_map_emit] split: SeqEmitControl.split)
next
  case (4 inp f)
  show ?case
    unfolding for_each_with.simps using "4.prems"
    by (auto intro!: le_intros "4.IH"[OF le_filter_emit] split: SeqEmitControl.split)
next
  case (5 inp init f)
  show ?case
    unfolding for_each_with.simps using "5.prems"
    by (auto intro!: le_intros "5.IH"[OF le_scan_emit] split: SeqEmitControl.split)
next
  case (7 inp)
  show ?case
    unfolding for_each_with.simps using "7.prems"
    by (auto intro!: le_intros "7.IH"[OF le_enumerate_emit] split: SeqEmitControl.split)
next
  case (9 inp k)
  show ?case
    unfolding for_each_with.simps using "9.prems"
    by (auto intro!: le_intros "9.IH"[OF le_chunk_emit] split: SeqEmitControl.split)
next
  case (10 inp k)
  show ?case
    unfolding for_each_with.simps using "10.prems"
    by (auto intro!: le_intros "10.IH"[OF le_window_emit] split: SeqEmitControl.split)
qed (auto intro!: le_intros assms(2) split: SeqEmitControl.split)

lemma le_control: "(\<And>item. le (emit item) (emit' item)) \<Longrightarrow> n \<le> m \<Longrightarrow>
    le (seq_for_each_control n h plan emit) (seq_for_each_control m h plan emit')"
proof (induction n arbitrary: m plan emit emit')
  case (Suc n)
  then obtain k where m: "m = Suc k" "n \<le> k"
    by (cases m) auto
  show ?case
    unfolding m(1) seq_for_each_control.simps
    by (rule le_for_each) (auto intro: Suc m(2))
qed simp

lemma approx_for_each:
  assumes "\<And>plan En emit. (\<And>item. approximates (\<lambda>n. En n item) (emit item)) \<Longrightarrow> approximates (\<lambda>n. each plan (En n)) (each plan emit)"
  shows "(\<And>item. approximates (\<lambda>n. En n item) (emit item)) \<Longrightarrow>
    approximates (\<lambda>n. for_each_with k h each plan (En n)) (for_each_with k h each plan emit)"
proof (induction plan arbitrary: En emit rule: sizes_ok.induct)
  case (3 inp f)
  have "approximates (\<lambda>n. flat_emit h each f (En n) item) (flat_emit h each f emit item)" for item
    unfolding flat_emit_def by (intro approx_intros assms "3.prems")
  then show ?case
    by (simp add: "3.IH")
next
  case (2 inp f)
  show ?case
    unfolding for_each_with.simps using "2.prems"
    by (auto intro!: approx_intros "2.IH"[OF approx_map_emit] split: SeqEmitControl.split)
next
  case (4 inp f)
  show ?case
    unfolding for_each_with.simps using "4.prems"
    by (auto intro!: approx_intros "4.IH"[OF approx_filter_emit] split: SeqEmitControl.split)
next
  case (5 inp init f)
  show ?case
    unfolding for_each_with.simps using "5.prems"
    by (auto intro!: approx_intros "5.IH"[OF approx_scan_emit] split: SeqEmitControl.split)
next
  case (7 inp)
  show ?case
    unfolding for_each_with.simps using "7.prems"
    by (auto intro!: approx_intros "7.IH"[OF approx_enumerate_emit] split: SeqEmitControl.split)
next
  case (9 inp k)
  show ?case
    unfolding for_each_with.simps using "9.prems"
    by (auto intro!: approx_intros "9.IH"[OF approx_chunk_emit] split: SeqEmitControl.split)
next
  case (10 inp k)
  show ?case
    unfolding for_each_with.simps using "10.prems"
    by (auto intro!: approx_intros "10.IH"[OF approx_window_emit] split: SeqEmitControl.split)
qed (auto intro!: approx_intros split: SeqEmitControl.split)

lemma approx_control_emit [approx_intros]:
  "(\<And>item. approximates (\<lambda>n. En n item) (emit item)) \<Longrightarrow>
    approximates (\<lambda>n. seq_for_each_control k h plan (En n)) (seq_for_each_control k h plan emit)"
proof (induction k arbitrary: plan En emit)
  case (Suc k)
  then show ?case
    by (simp add: approx_for_each)
qed (simp add: approx_const)

section \<open>The traversal without fuel\<close>

definition EACH :: "'s Host \<Rightarrow> SeqPlan \<Rightarrow> 's emit_fn \<Rightarrow> ('s, unit) run" where
  "EACH h plan emit = lim (\<lambda>n. seq_for_each_control n h plan emit)"

lemma approx_EACH_const: "approximates (\<lambda>n. seq_for_each_control n h plan emit) (EACH h plan emit)"
  unfolding EACH_def by (rule approximates_lim) (rule le_control, simp_all)

lemma control_le_EACH: "le (seq_for_each_control n h plan emit) (EACH h plan emit)"
  by (rule approximates_le[OF approx_EACH_const])

lemma approx_EACH [approx_intros]:
  assumes "\<And>item. approximates (\<lambda>n. En n item) (emit item)"
  shows "approximates (\<lambda>n. seq_for_each_control n h plan (En n)) (EACH h plan emit)"
  unfolding approximates_def
proof (intro conjI allI impI)
  show "le (seq_for_each_control n h plan (En n)) (seq_for_each_control (Suc n) h plan (En (Suc n)))" for n
    by (rule le_control) (auto intro: approximates_step[OF assms])
  show "le (seq_for_each_control n h plan (En n)) (EACH h plan emit)" for n
    by (rule le_trans[OF le_control control_le_EACH]) (auto intro: approximates_le[OF assms])
  fix s
  assume "EACH h plan emit s \<noteq> None"
  then obtain x where "EACH h plan emit s = Some x"
    by blast
  then obtain k where "seq_for_each_control k h plan emit s = Some x"
    by (rule approximatesD[OF approx_EACH_const])
  then obtain n where n: "seq_for_each_control k h plan (En n) s = Some x"
    by (rule approximatesD[OF approx_control_emit[OF assms]])
  have "le (seq_for_each_control k h plan (En n)) (seq_for_each_control (max k n) h plan (En (max k n)))"
    by (rule le_control) (auto intro: approximates_chain[OF assms])
  then have "seq_for_each_control (max k n) h plan (En (max k n)) s = Some x"
    using n by (rule leD)
  then show "\<exists>n. seq_for_each_control n h plan (En n) s \<noteq> None"
    by blast
qed

text \<open>The limit is above every stage that a plan takes from its input.\<close>

lemma EACH_stage:
  assumes "approximates A m" "\<And>n. le (A n) (seq_for_each_control (Suc n) h plan emit)"
  shows "le m (EACH h plan emit)"
  by (rule approximates_least[OF assms(1)]) (rule le_trans[OF assms(2) control_le_EACH])

lemma control_Suc_le: "le (seq_for_each_control n h plan emit) (for_each_with n h (seq_for_each_control n h) plan emit)"
  using le_control[of emit emit n "Suc n" h plan] by simp

lemma pull_unit_next:
  "le (pull_unit (Suc n) h it emit) (pull_step h emit (\<lambda>it'. pull_unit n h it' emit) (next_step h (seq_iter_next n h)) it)"
  unfolding pull_unit_Suc using le_next[of n h] by (intro le_pull_step) simp_all

lemma pull_unfold_loop: "le (pull_unit n h (IUnfold st step) emit) (unfold_loop n h st step emit)"
proof (induction n arbitrary: st)
  case (Suc n)
  then show ?case
    by (intro le_trans[OF pull_unit_next], cases st)
      (auto simp: pull_step_unfold next_step_def case_prod_unfold run_laws run_dist cong: run_congs
        intro!: le_intros split: option.split SeqEmitControl.split)
qed simp

lemma pull_zip_loop: "le (pull_unit n h (IZip l r) emit) (zip_loop n h l r emit)"
proof (induction n arbitrary: l r)
  case (Suc n)
  then show ?case
    by (intro le_trans[OF pull_unit_next])
      (auto simp: pull_step_unfold next_step_def case_prod_unfold run_laws run_dist cong: run_congs
        intro!: le_intros split: option.split SeqEmitControl.split)
qed simp

lemma EACH_covers_plan:
  "plan_ok plan \<Longrightarrow> seq_iter_from_plan plan = Inr it \<Longrightarrow> le (left h (EACH h) it emit) (EACH h plan emit)"
proof (induction plan arbitrary: it emit rule: sizes_ok.induct)
  case (1 src)
  then show ?case
    using control_le_EACH[of "Suc 0" h "PSource src" emit] by (auto simp: DR_source)
next
  case (2 inp f)
  then obtain i where i: "seq_iter_from_plan inp = Inr i" "it = IMap i f" "plan_ok inp"
    by (auto simp: plan_ok_def map_sum_def split: sum.splits)
  have "le (left h (EACH h) i (map_emit h f emit)) (EACH h inp (map_emit h f emit))"
    by (rule "2.IH"[OF i(3,1)])
  also have "le \<dots> (EACH h (PMap inp f) emit)"
    by (rule EACH_stage[OF approx_EACH_const]) (simp add: control_Suc_le)
  finally show ?case
    by (simp add: i)
next
  case (3 inp f)
  then obtain i where i: "seq_iter_from_plan inp = Inr i" "it = IFlatMap i f None" "plan_ok inp"
    by (auto simp: plan_ok_def map_sum_def split: sum.splits)
  have flat: "approximates (\<lambda>n. flat_emit h (seq_for_each_control n h) f emit item) (flat_emit h (EACH h) f emit item)" for item
    unfolding flat_emit_def by (intro approx_intros)
  have "le (left h (EACH h) i (flat_emit h (EACH h) f emit)) (EACH h inp (flat_emit h (EACH h) f emit))"
    by (rule "3.IH"[OF i(3,1)])
  also have "le \<dots> (EACH h (PFlatMap inp f) emit)"
    by (rule EACH_stage[OF approx_EACH[OF flat]]) (simp add: control_Suc_le)
  finally show ?case
    by (simp add: i)
next
  case (4 inp f)
  then obtain i where i: "seq_iter_from_plan inp = Inr i" "it = IFilter i f" "plan_ok inp"
    by (auto simp: plan_ok_def map_sum_def split: sum.splits)
  have "le (left h (EACH h) i (filter_emit h f emit)) (EACH h inp (filter_emit h f emit))"
    by (rule "4.IH"[OF i(3,1)])
  also have "le \<dots> (EACH h (PFilter inp f) emit)"
    by (rule EACH_stage[OF approx_EACH_const]) (simp add: control_Suc_le)
  finally show ?case
    by (simp add: i)
next
  case (5 inp init f)
  then obtain i where i: "seq_iter_from_plan inp = Inr i" "it = IScan i init f False" "plan_ok inp"
    by (auto simp: plan_ok_def map_sum_def split: sum.splits)
  let ?then = "\<lambda>m. andthen (emit init) (\<lambda>c. case c of SeqContinue \<Rightarrow> with_frame (frame\<lparr>fr_acc := init\<rparr>) m | SeqBreak \<Rightarrow> ret ())"
  have "le (?then (left h (EACH h) i (scan_emit h f emit))) (?then (EACH h inp (scan_emit h f emit)))"
    by (auto intro!: le_intros "5.IH"[OF i(3,1)] split: SeqEmitControl.split)
  also have "approximates (\<lambda>n. ?then (seq_for_each_control n h inp (scan_emit h f emit))) (?then (EACH h inp (scan_emit h f emit)))"
    by (auto intro!: approx_intros split: SeqEmitControl.split)
  then have "le (?then (EACH h inp (scan_emit h f emit))) (EACH h (PScan inp init f) emit)"
    by (rule EACH_stage) (auto intro!: le_intros control_Suc_le split: SeqEmitControl.split)
  finally show ?case
    by (simp add: i Let_def)
next
  case (6 seed step)
  have "le (DR h (IUnfold (Some seed) step) emit) (EACH h (PUnfold seed step) emit)"
    by (rule EACH_stage[OF approx_DR_const]) (simp add: pull_unfold_loop)
  then show ?case
    using 6 by auto
next
  case (7 inp)
  then obtain i where i: "seq_iter_from_plan inp = Inr i" "it = IEnumerate i 0" "plan_ok inp"
    by (auto simp: plan_ok_def map_sum_def split: sum.splits)
  have "le (with_frame frame (left h (EACH h) i (enumerate_emit h emit))) (with_frame frame (EACH h inp (enumerate_emit h emit)))"
    by (intro le_intros "7.IH"[OF i(3,1)])
  also have "approximates (\<lambda>n. with_frame frame (seq_for_each_control n h inp (enumerate_emit h emit)))
      (with_frame frame (EACH h inp (enumerate_emit h emit)))"
    by (intro approx_intros)
  then have "le (with_frame frame (EACH h inp (enumerate_emit h emit))) (EACH h (PEnumerate inp) emit)"
    by (rule EACH_stage) (simp add: le_with_frame control_Suc_le)
  finally show ?case
    by (simp add: i frame_def)
next
  case (8 l r)
  then obtain il ir where i: "seq_iter_from_plan l = Inr il" "seq_iter_from_plan r = Inr ir" "it = IZip il ir"
    by (auto simp: map_sum_def split: sum.splits)
  have "le (DR h (IZip il ir) emit) (EACH h (PZip l r) emit)"
    by (rule EACH_stage[OF approx_DR_const]) (simp add: i pull_zip_loop run_laws)
  then show ?case
    by (simp add: i)
next
  case (9 inp k)
  then obtain i where i: "seq_iter_from_plan inp = Inr i" "it = IChunks i (nat (sint k))" "plan_ok inp" "0 < sint k"
    by (auto simp: plan_ok_def map_sum_def positive_size_def split: sum.splits)
  let ?e = "chunk_emit (nat (sint k)) emit"
  have "le (with_frame frame (andthen (left h (EACH h) i ?e) (\<lambda>_. flush emit))) (with_frame frame (andthen (EACH h inp ?e) (\<lambda>_. flush emit)))"
    by (intro le_intros "9.IH"[OF i(3,1)])
  also have "approximates (\<lambda>n. with_frame frame (andthen (seq_for_each_control n h inp ?e) (\<lambda>_. flush emit)))
      (with_frame frame (andthen (EACH h inp ?e) (\<lambda>_. flush emit)))"
    by (intro approx_intros)
  then have "le (with_frame frame (andthen (EACH h inp ?e) (\<lambda>_. flush emit))) (EACH h (PChunks inp k) emit)"
    by (rule EACH_stage) (use i(4) in \<open>auto simp: simp flip: flush_def intro!: le_intros control_Suc_le\<close>)
  finally show ?case
    by (simp add: i)
next
  case (10 inp k)
  then obtain i where i: "seq_iter_from_plan inp = Inr i" "it = IWindows i (nat (sint k)) [] False" "plan_ok inp" "0 < sint k"
    by (auto simp: plan_ok_def map_sum_def positive_size_def split: sum.splits)
  let ?e = "window_emit (nat (sint k)) emit"
  have "le (with_frame frame (left h (EACH h) i ?e)) (with_frame frame (EACH h inp ?e))"
    by (intro le_intros "10.IH"[OF i(3,1)])
  also have "approximates (\<lambda>n. with_frame frame (seq_for_each_control n h inp ?e)) (with_frame frame (EACH h inp ?e))"
    by (intro approx_intros)
  then have "le (with_frame frame (EACH h inp ?e)) (EACH h (PWindows inp k) emit)"
    by (rule EACH_stage) (use i(4) in \<open>simp add: le_with_frame control_Suc_le\<close>)
  finally show ?case
    by (simp add: i frame_def)
qed

lemma pull_eq_each:
  assumes "host_ok h" "plan_ok plan"
  shows "PULL h plan emit = EACH h plan emit"
proof (rule le_antisym)
  obtain it where it: "seq_iter_from_plan plan = Inr it" "it_ok it"
    using from_plan_ok[of plan] assms(2) by (auto simp: plan_ok_def)
  have "covers h (EACH h)"
    unfolding covers_def using EACH_covers_plan by blast
  then have "le (DR h it emit) (left h (EACH h) it emit)"
    by (intro pull_below_left assms it)
  also have "le \<dots> (EACH h plan emit)"
    by (rule EACH_covers_plan[OF assms(2) it(1)])
  finally show "le (PULL h plan emit) (EACH h plan emit)"
    by (simp add: PULL_Inr[OF it(1)])
  show "le (EACH h plan emit) (PULL h plan emit)"
    by (rule approximates_least[OF approx_EACH_const]) (rule push_below_pull[OF assms])
qed


section \<open>Properties\<close>

text \<open>
  C22. Traversing a plan and pulling its iterator dry are the same computation: they return in the same
  cases, with the same result or error, the same calls of interpreted functions in the same order and
  the same items passed on, however the receiver changes the state and wherever it stops.  The plan and
  the plans that interpreted code makes for flat maps have positive chunk and window sizes and no chunks
  over a zip.
\<close>

theorem traversal_equals_pulling:
  assumes "host_ok h" and "plan_ok plan"
  shows "(\<exists>n. seq_for_each_control n h plan emit st = Some r) \<longleftrightarrow> (\<exists>n. pull_all n h plan emit st = Some r)"
proof -
  obtain it where it: "seq_iter_from_plan plan = Inr it"
    using from_plan_ok[of plan] assms(2) by (auto simp: plan_ok_def)
  have "pull_all n h plan emit = pull_unit n h it emit" for n
    by (simp add: pull_all_def pull_unit_def it run_laws)
  then have "(\<exists>n. pull_all n h plan emit st = Some r) \<longleftrightarrow> PULL h plan emit st = Some r"
    unfolding PULL_Inr[OF it] by (simp add: approximates_iff[OF approx_DR_const])
  moreover have "(\<exists>n. seq_for_each_control n h plan emit st = Some r) \<longleftrightarrow> EACH h plan emit st = Some r"
    by (rule approximates_iff[OF approx_EACH_const])
  ultimately show ?thesis
    by (simp add: pull_eq_each[OF assms])
qed

text \<open>A host that counts the calls and fails on the number 3, and a receiver that collects the items.\<close>

definition demo_host :: "nat Host" where
  "demo_host = \<lparr>
     h_call_value_ref = (\<lambda>f args s.
       if args = [RInt 3] then Some (Inl DivisionByZero, s + 1)
       else Some (Inr (if f = RFn 0 then RList (args @ args) else RUnit), s + 1)),
     h_call_fn = (\<lambda>_ _ s. Some (Inr RUnit, s)), h_into_seq_fn = (\<lambda>_ _. None), h_snapshot = (\<lambda>_ _. []),
     h_option_type = None, h_option_some = None, h_option_none = None, h_variants = (\<lambda>_. None), h_name = (\<lambda>s. if s = ''left'' then 0 else 1)\<rparr>"

definition collect :: "nat emit_fn" where
  "collect item = andthen (change_frame (fr_items_update (\<lambda>out. out @ [item]))) (\<lambda>_. ret SeqContinue)"

lemma demo_host_ok: "host_ok demo_host"
  by (auto simp: host_ok_def demo_host_def value_ok_def split: if_splits)

theorem traversal_equals_pulling_witness:
  "\<exists>n. pull_all n demo_host (PChunks (PFlatMap (PSource (SrcRange 0 2)) (RFn 0)) 3) collect (0, [frame]) =
     Some (Inr (), 2, [frame\<lparr>fr_items := [RList [RInt 0, RInt 0, RInt 1], RList [RInt 1]]\<rparr>])"
proof -
  have "plan_ok (PChunks (PFlatMap (PSource (SrcRange 0 2)) (RFn 0)) 3)"
    by (simp add: plan_ok_def)
  moreover have "seq_for_each_control 5 demo_host (PChunks (PFlatMap (PSource (SrcRange 0 2)) (RFn 0)) 3) collect (0, [frame]) =
     Some (Inr (), 2, [frame\<lparr>fr_items := [RList [RInt 0, RInt 0, RInt 1], RList [RInt 1]]\<rparr>])"
    by code_simp
  ultimately show ?thesis
    using traversal_equals_pulling[OF demo_host_ok] by blast
qed

section \<open>Chunks over a zip\<close>

text \<open>
  A list mapped by an interpreted function and a shorter list beside it, both at given positions.  The
  calls of the function on the first items succeed one after the other and take the state along.
\<close>

definition mapped_at :: "RVal list \<Rightarrow> RVal \<Rightarrow> nat \<Rightarrow> SeqIterState" where
  "mapped_at xs f i = IMap (ISource (ItFromList xs i)) f"

definition list_at :: "RVal list \<Rightarrow> nat \<Rightarrow> SeqIterState" where
  "list_at ys i = ISource (ItFromList ys i)"

definition calls_succeed :: "'s Host \<Rightarrow> RVal \<Rightarrow> RVal list \<Rightarrow> (nat \<Rightarrow> RVal) \<Rightarrow> (nat \<Rightarrow> 's) \<Rightarrow> nat \<Rightarrow> bool" where
  "calls_succeed h f xs g st m \<longleftrightarrow>
     m < length xs \<and> (\<forall>i\<le>m. h_call_value_ref h f [xs ! i] (st i) = Some (Inr (g i), st (Suc i)))"

lemmas next_simps = next_step_def andthen_def panicking_def next_at_def ret_def

lemma mapped_next:
  "calls_succeed h f xs g st m \<Longrightarrow> i \<le> m \<Longrightarrow>
    seq_iter_next (Suc (Suc n)) h (mapped_at xs f i) (st i) = Some (Inr (Some (g i), mapped_at xs f (Suc i)), st (Suc i))"
  by (simp add: mapped_at_def next_simps calls_succeed_def)

lemma mapped_error:
  "h_call_value_ref h f [xs ! i] s = Some (Inl e, s') \<Longrightarrow> i < length xs \<Longrightarrow>
    seq_iter_next (Suc (Suc n)) h (mapped_at xs f i) s = Some (Inl e, s')"
  by (simp add: mapped_at_def next_simps)

lemma list_next: "i < length ys \<Longrightarrow> seq_iter_next (Suc n) h (list_at ys i) s = Some (Inr (Some (ys ! i), list_at ys (Suc i)), s)"
  by (simp add: list_at_def next_simps)

lemma list_end: "seq_iter_next (Suc n) h (list_at ys (length ys)) s = Some (Inr (None, list_at ys (length ys)), s)"
  by (simp add: list_at_def next_simps)

lemma next_zip:
  "seq_iter_next (Suc n) h (IZip l r) = andthen (seq_iter_next n h l) (\<lambda>(x, l'). case x of
      None \<Rightarrow> ret (None, IZip l' r)
    | Some a \<Rightarrow> andthen (seq_iter_next n h r) (\<lambda>(y, r'). case y of
        None \<Rightarrow> ret (None, IZip l' r')
      | Some b \<Rightarrow> ret (Some (pair_record h a b), IZip l' r')))"
  by (simp add: next_step_def)

lemma next_chunks:
  "seq_iter_next (Suc n) h (IChunks inp k) = andthen (fill_chunk (seq_iter_next n h) k inp []) (\<lambda>(chunk, inp').
      ret (if chunk = [] then None else Some (RList chunk), IChunks inp' k))"
  by (simp add: next_step_def)

lemma zip_next:
  assumes "calls_succeed h f xs g st (length ys)" and "i < length ys"
  shows "seq_iter_next (Suc (Suc (Suc n))) h (IZip (mapped_at xs f i) (list_at ys i)) (st i) =
    Some (Inr (Some (pair_record h (g i) (ys ! i)), IZip (mapped_at xs f (Suc i)) (list_at ys (Suc i))), st (Suc i))"
  using assms by (simp add: next_zip mapped_next[OF assms(1)] list_next andthen_def ret_def del: seq_iter_next.simps)

lemma zip_end:
  assumes "calls_succeed h f xs g st (length ys)"
  shows "seq_iter_next (Suc (Suc (Suc n))) h (IZip (mapped_at xs f (length ys)) (list_at ys (length ys))) (st (length ys)) =
    Some (Inr (None, IZip (mapped_at xs f (Suc (length ys))) (list_at ys (length ys))), st (Suc (length ys)))"
  by (simp add: next_zip mapped_next[OF assms] list_end andthen_def ret_def del: seq_iter_next.simps)

lemma zip_error:
  assumes "h_call_value_ref h f [xs ! i] s = Some (Inl e, s')" and "i < length xs"
  shows "seq_iter_next (Suc (Suc (Suc n))) h (IZip (mapped_at xs f i) r) s = Some (Inl e, s')"
  by (simp add: next_zip mapped_error[OF assms] andthen_def del: seq_iter_next.simps)

lemma fill_chunk_zip:
  assumes "calls_succeed h f xs g st (length ys)"
  shows "i \<le> length ys \<Longrightarrow> length ys - i < m \<Longrightarrow>
   fill_chunk (seq_iter_next (Suc (Suc (Suc n))) h) m (IZip (mapped_at xs f i) (list_at ys i)) chunk (st i) =
     Some (Inr (chunk @ map (\<lambda>i. pair_record h (g i) (ys ! i)) [i..<length ys],
       IZip (mapped_at xs f (Suc (length ys))) (list_at ys (length ys))), st (Suc (length ys)))"
proof (induction m arbitrary: i chunk)
  case (Suc m)
  show ?case
  proof (cases "i = length ys")
    case True
    then show ?thesis
      by (simp add: andthen_def zip_end[OF assms] ret_def del: seq_iter_next.simps)
  next
    case False
    then show ?thesis
      using Suc by (simp add: andthen_def zip_next[OF assms] upt_conv_Cons del: seq_iter_next.simps upt_Suc)
  qed
qed simp

lemma chunk_next:
  assumes "calls_succeed h f xs g st (length ys)" and "ys \<noteq> []" and "length ys < k"
  shows "seq_iter_next (Suc (Suc (Suc (Suc n)))) h (IChunks (IZip (mapped_at xs f 0) (list_at ys 0)) k) (st 0) =
      Some (Inr (Some (RList (map (\<lambda>i. pair_record h (g i) (ys ! i)) [0..<length ys])),
        IChunks (IZip (mapped_at xs f (Suc (length ys))) (list_at ys (length ys))) k), st (Suc (length ys)))"
  using assms(2,3) by (simp add: next_chunks andthen_def ret_def fill_chunk_zip[OF assms(1)] del: seq_iter_next.simps)

lemma chunk_error:
  assumes "h_call_value_ref h f [xs ! i] s = Some (Inl e, s')" and "i < length xs" and "0 < k"
  shows "seq_iter_next (Suc (Suc (Suc (Suc n)))) h (IChunks (IZip (mapped_at xs f i) r) k) s = Some (Inl e, s')"
  using assms(3) by (cases k) (simp_all add: next_chunks andthen_def zip_error[OF assms(1,2)] del: seq_iter_next.simps)

lemma zip_loop_chunks:
  assumes "calls_succeed h f xs g st (length ys)" and "length ys < k"
  shows "i \<le> length ys \<Longrightarrow> length (fr_items fr) = i \<Longrightarrow> length ys - i + 3 \<le> n \<Longrightarrow>
    zip_loop n h (mapped_at xs f i) (list_at ys i) (chunk_emit k emit) (st i, fr # fs) =
      Some (Inr (), st (Suc (length ys)), fr\<lparr>fr_items := fr_items fr @ map (\<lambda>i. pair_record h (g i) (ys ! i)) [i..<length ys]\<rparr> # fs)"
proof (induction n arbitrary: i fr)
  case (Suc n)
  obtain m where n: "n = Suc (Suc m)"
    using Suc.prems(3) by (metis Suc_le_D add_Suc_right numeral_3_eq_3 Suc_le_mono)
  note nexts = mapped_next[OF assms(1), of i m] list_next[of i ys "Suc m" h] list_end[of "Suc m" h ys]
  show ?case
  proof (cases "i = length ys")
    case True
    then show ?thesis
      using nexts by (simp add: andthen_def lift_def n ret_def del: seq_iter_next.simps)
  next
    case False
    then have i: "i < length ys"
      using Suc.prems(1) by simp
    let ?p = "pair_record h (g i) (ys ! i)"
    have emit: "chunk_emit k emit ?p (s, fr # fs) = Some (Inr SeqContinue, s, fr\<lparr>fr_items := fr_items fr @ [?p]\<rparr> # fs)" for s
      using Suc.prems(2) assms(2) i by (simp add: chunk_emit_def andthen_def change_frame_def get_frame_def ret_def)
    have "zip_loop (Suc n) h (mapped_at xs f i) (list_at ys i) (chunk_emit k emit) (st i, fr # fs) =
        zip_loop n h (mapped_at xs f (Suc i)) (list_at ys (Suc i)) (chunk_emit k emit)
          (st (Suc i), fr\<lparr>fr_items := fr_items fr @ [?p]\<rparr> # fs)"
      using nexts i emit[of "st (Suc i)"] by (simp add: andthen_def lift_def n del: seq_iter_next.simps)
    then show ?thesis
      using Suc.IH[of "Suc i" "fr\<lparr>fr_items := fr_items fr @ [?p]\<rparr>"] Suc.prems i
      by (simp add: upt_conv_Cons del: seq_iter_next.simps upt_Suc zip_loop.simps)
  qed
qed simp

text \<open>
  C23. Chunks over a zip, for any function, lists, chunk size and receiver: the left list is longer by at
  least two items, the right one is not empty and does not fill a chunk, and the function succeeds on the
  items that meet a partner and on the next one, but fails on the one after that.  The traversal of the plan
  ends with the right list, passes on the incomplete chunk and succeeds.  Pulling the iterator of the same plan
  polls the zip once more after it has returned that chunk, calls the function on a further item of the left
  list and fails with its error.
\<close>

theorem chunks_over_zip_differ:
  assumes "Suc (length ys) < length xs" and "ys \<noteq> []" and "int (length ys) < sint k"
    and "\<And>i. i \<le> length ys \<Longrightarrow> h_call_value_ref h f [xs ! i] (st i) = Some (Inr (g i), st (Suc i))"
    and "emit (RList (map (\<lambda>i. pair_record h (g i) (ys ! i)) [0..<length ys])) (st (Suc (length ys)), fs) =
      Some (Inr SeqContinue, s, fs')"
    and "h_call_value_ref h f [xs ! Suc (length ys)] s = Some (Inl e, s')"
  shows "(\<exists>n. seq_for_each_control n h (PChunks (PZip (PMap (PSource (SrcFromList xs)) f) (PSource (SrcFromList ys))) k) emit (st 0, fs)
      = Some (Inr (), s, fs')) \<and>
    (\<exists>n. pull_all n h (PChunks (PZip (PMap (PSource (SrcFromList xs)) f) (PSource (SrcFromList ys))) k) emit (st 0, fs)
      = Some (Inl e, s', fs'))"
proof
  have calls: "calls_succeed h f xs g st (length ys)" and k: "length ys < nat (sint k)" "0 < sint k"
    using assms(1-4) by (auto simp: calls_succeed_def)
  note at0 = mapped_at_def[of xs f 0, symmetric] list_at_def[of ys 0, symmetric]
  have "seq_for_each_control (Suc (length ys + 3)) h (PChunks (PZip (PMap (PSource (SrcFromList xs)) f) (PSource (SrcFromList ys))) k) emit (st 0, fs)
      = Some (Inr (), s, fs')"
    unfolding seq_for_each_control.simps(2)
    using k assms(2,5) zip_loop_chunks[OF calls k(1), of 0 frame "length ys + 3" emit fs]
    by (simp add: at0 frame_def andthen_def lift_def ret_def with_frame_def get_frame_def outside_def del: zip_loop.simps)
  then show "\<exists>n. seq_for_each_control n h (PChunks (PZip (PMap (PSource (SrcFromList xs)) f) (PSource (SrcFromList ys))) k) emit (st 0, fs)
      = Some (Inr (), s, fs')" ..
  have "pull_all (Suc (Suc (Suc (Suc (Suc (Suc 0)))))) h (PChunks (PZip (PMap (PSource (SrcFromList xs)) f) (PSource (SrcFromList ys))) k) emit (st 0, fs)
      = Some (Inl e, s', fs')"
    using k assms(5) chunk_next[OF calls assms(2) k(1)] chunk_error[OF assms(6,1), of "nat (sint k)"]
    by (simp add: pull_all_def positive_size_def at0 andthen_def lift_def ret_def del: seq_iter_next.simps)
  then show "\<exists>n. pull_all n h (PChunks (PZip (PMap (PSource (SrcFromList xs)) f) (PSource (SrcFromList ys))) k) emit (st 0, fs)
      = Some (Inl e, s', fs')" ..
qed

theorem chunks_over_zip_differ_witness:
  "let plan = PChunks (PZip (PMap (PSource (SrcFromList [RInt 0, RInt 1, RInt 2, RInt 3])) (RFn 1)) (PSource (SrcFromList [RUnit, RUnit]))) 3;
       items = [RList [pair_record demo_host RUnit RUnit, pair_record demo_host RUnit RUnit]]
   in (\<exists>n. seq_for_each_control n demo_host plan collect (0, [frame]) = Some (Inr (), 3, [frame\<lparr>fr_items := items\<rparr>])) \<and>
      (\<exists>n. pull_all n demo_host plan collect (0, [frame]) = Some (Inl DivisionByZero, 4, [frame\<lparr>fr_items := items\<rparr>]))"
proof -
  have call: "h_call_value_ref demo_host (RFn 1) [[RInt 0, RInt 1, RInt 2, RInt 3] ! i] i = Some (Inr RUnit, Suc i)" if le: "i \<le> 2" for i
  proof -
    consider "i = 0" | "i = 1" | "i = 2"
      using le by linarith
    then show ?thesis
      by cases (simp_all add: demo_host_def)
  qed
  show ?thesis
    using chunks_over_zip_differ[of "[RUnit, RUnit]" "[RInt 0, RInt 1, RInt 2, RInt 3]" 3 demo_host "RFn 1" "\<lambda>i. i" "\<lambda>_. RUnit" collect
        "[frame]" 3 "[frame\<lparr>fr_items := [RList [pair_record demo_host RUnit RUnit, pair_record demo_host RUnit RUnit]]\<rparr>]" DivisionByZero 4]
    using call
    by (simp add: collect_def andthen_def change_frame_def ret_def frame_def upt_rec demo_host_def)
qed

end
