(* ===== verification/Bit_Set.thy ===== *)
theory Bit_Set
  imports Seq
begin

text \<open>
  Bit sets (\<open>BitSetValue\<close> and \<open>MutableBitSetValue\<close> of \<open>eval/src/value.rs\<close>) and the intrinsics on them
  (\<open>eval/src/intrinsics.rs\<close>).  A bit set has a fixed size and keeps its bits in words of 64.  A mutable
  bit set is a cell whose content is replaced; the cells are in a store, so that two arguments can be
  the same cell.  An index outside the words would be a panic, \<^const>\<open>None\<close>.
\<close>

section \<open>Words and indices\<close>

definition bitset_word_len :: "nat \<Rightarrow> nat" where
  "bitset_word_len size_bits = (if size_bits = 0 then 0 else (size_bits + 63) div 64)"

definition bitset_last_word_mask :: "nat \<Rightarrow> 64 word" where
  "bitset_last_word_mask size_bits =
     (let remainder = size_bits mod 64 in if remainder = 0 then - 1 else push_bit remainder 1 - 1)"

definition bitset_index :: "nat \<Rightarrow> 64 word \<Rightarrow> RuntimeError + nat \<times> 64 word" where
  "bitset_index size_bits idx =
     (if 0 \<le> sint idx \<and> nat (sint idx) < size_bits
      then Inr (nat (sint idx) div 64, push_bit (nat (sint idx) mod 64) 1)
      else Inl (TypeError ''bitset index out of bounds''))"

text \<open>The word of an index with its position and the mask of the index.\<close>

definition with_index ::
    "BitSetValue \<Rightarrow> 64 word \<Rightarrow> (nat \<Rightarrow> 64 word \<Rightarrow> 64 word \<Rightarrow> 'a) \<Rightarrow> (RuntimeError + 'a) option" where
  "with_index b idx f =
     (case bitset_index (bs_size_bits b) idx of
        Inl e \<Rightarrow> Some (Inl e)
      | Inr (word_idx, msk) \<Rightarrow> map_option (\<lambda>w. Inr (f word_idx msk w)) (arena_get (bs_words b) word_idx))"

definition put_word :: "BitSetValue \<Rightarrow> nat \<Rightarrow> 64 word \<Rightarrow> BitSetValue" where
  "put_word b word_idx w = b\<lparr>bs_words := (bs_words b)[word_idx := w]\<rparr>"

section \<open>Operations\<close>

definition bitset_new :: "nat \<Rightarrow> BitSetValue" where
  "bitset_new size_bits = \<lparr>bs_size_bits = size_bits, bs_words = replicate (bitset_word_len size_bits) 0\<rparr>"

definition count_ones :: "64 word \<Rightarrow> nat" where
  "count_ones w = length (filter (bit w) [0..<64])"

definition bitset_count :: "BitSetValue \<Rightarrow> nat" where
  "bitset_count b = sum_list (map count_ones (bs_words b))"

definition bitset_is_empty :: "BitSetValue \<Rightarrow> bool" where
  "bitset_is_empty b \<longleftrightarrow> list_all (\<lambda>w. w = 0) (bs_words b)"

definition bitset_test :: "BitSetValue \<Rightarrow> 64 word \<Rightarrow> (RuntimeError + bool) option" where
  "bitset_test b idx = with_index b idx (\<lambda>_ msk w. w AND msk \<noteq> 0)"

definition bitset_set :: "BitSetValue \<Rightarrow> 64 word \<Rightarrow> (RuntimeError + BitSetValue) option" where
  "bitset_set b idx =
     with_index b idx (\<lambda>word_idx msk w. if w AND msk \<noteq> 0 then b else put_word b word_idx (w OR msk))"

definition bitset_reset :: "BitSetValue \<Rightarrow> 64 word \<Rightarrow> (RuntimeError + BitSetValue) option" where
  "bitset_reset b idx =
     with_index b idx (\<lambda>word_idx msk w. if w AND msk = 0 then b else put_word b word_idx (w AND NOT msk))"

definition bitset_flip :: "BitSetValue \<Rightarrow> 64 word \<Rightarrow> (RuntimeError + BitSetValue) option" where
  "bitset_flip b idx = with_index b idx (\<lambda>word_idx msk w. put_word b word_idx (w XOR msk))"

definition mask_last_word :: "nat \<Rightarrow> 64 word list \<Rightarrow> 64 word list" where
  "mask_last_word size_bits ws =
     (if ws = [] then [] else butlast ws @ [last ws AND bitset_last_word_mask size_bits])"

definition bitset_binary_op ::
    "(64 word \<Rightarrow> 64 word \<Rightarrow> 64 word) \<Rightarrow> BitSetValue \<Rightarrow> BitSetValue \<Rightarrow> (RuntimeError + BitSetValue) option" where
  "bitset_binary_op f b c =
     Some (if bs_size_bits b \<noteq> bs_size_bits c then Inl (TypeError ''bitset size mismatch'')
           else Inr \<lparr>bs_size_bits = bs_size_bits b,
                     bs_words = mask_last_word (bs_size_bits b) (map2 f (bs_words b) (bs_words c))\<rparr>)"

definition bitset_union :: "BitSetValue \<Rightarrow> BitSetValue \<Rightarrow> (RuntimeError + BitSetValue) option" where
  "bitset_union = bitset_binary_op (\<lambda>l r. l OR r)"

definition bitset_intersection :: "BitSetValue \<Rightarrow> BitSetValue \<Rightarrow> (RuntimeError + BitSetValue) option" where
  "bitset_intersection = bitset_binary_op (\<lambda>l r. l AND r)"

definition bitset_difference :: "BitSetValue \<Rightarrow> BitSetValue \<Rightarrow> (RuntimeError + BitSetValue) option" where
  "bitset_difference = bitset_binary_op (\<lambda>l r. l AND NOT r)"

definition bitset_xor :: "BitSetValue \<Rightarrow> BitSetValue \<Rightarrow> (RuntimeError + BitSetValue) option" where
  "bitset_xor = bitset_binary_op (\<lambda>l r. l XOR r)"

section \<open>Mutable bit sets\<close>

text \<open>What the mutable operations store in their cell, given its content and that of the other cell.\<close>

definition mutable_bitset_set :: "BitSetValue \<Rightarrow> 64 word \<Rightarrow> (RuntimeError + BitSetValue) option" where
  "mutable_bitset_set b idx = with_index b idx (\<lambda>word_idx msk w. put_word b word_idx (w OR msk))"

definition mutable_bitset_reset :: "BitSetValue \<Rightarrow> 64 word \<Rightarrow> (RuntimeError + BitSetValue) option" where
  "mutable_bitset_reset b idx = with_index b idx (\<lambda>word_idx msk w. put_word b word_idx (w AND NOT msk))"

definition mutable_bitset_flip :: "BitSetValue \<Rightarrow> 64 word \<Rightarrow> (RuntimeError + BitSetValue) option" where
  "mutable_bitset_flip b idx = with_index b idx (\<lambda>word_idx msk w. put_word b word_idx (w XOR msk))"

definition binary_assign ::
    "(64 word \<Rightarrow> 64 word \<Rightarrow> 64 word) \<Rightarrow> BitSetValue \<Rightarrow> BitSetValue \<Rightarrow> (RuntimeError + BitSetValue) option" where
  "binary_assign f b other =
     Some (if bs_size_bits b \<noteq> bs_size_bits other then Inl (TypeError ''bitset size mismatch'')
           else Inr (b\<lparr>bs_words := mask_last_word (bs_size_bits b)
                         (map2 f (bs_words b) (bs_words other) @ drop (length (bs_words other)) (bs_words b))\<rparr>))"

definition union_assign :: "BitSetValue \<Rightarrow> BitSetValue \<Rightarrow> (RuntimeError + BitSetValue) option" where
  "union_assign = binary_assign (\<lambda>l r. l OR r)"

definition intersection_assign :: "BitSetValue \<Rightarrow> BitSetValue \<Rightarrow> (RuntimeError + BitSetValue) option" where
  "intersection_assign = binary_assign (\<lambda>l r. l AND r)"

definition difference_assign :: "BitSetValue \<Rightarrow> BitSetValue \<Rightarrow> (RuntimeError + BitSetValue) option" where
  "difference_assign = binary_assign (\<lambda>l r. l AND NOT r)"

definition xor_assign :: "BitSetValue \<Rightarrow> BitSetValue \<Rightarrow> (RuntimeError + BitSetValue) option" where
  "xor_assign = binary_assign (\<lambda>l r. l XOR r)"

section \<open>Intrinsics\<close>

text \<open>
  The intrinsics by what they do with their arguments.  Arguments of the right types are assumed: a
  persistent bit set and a mutable one are given by their positions in the store.
\<close>

datatype BitChange = ChSet | ChReset | ChFlip

datatype BitCombine = CoUnion | CoIntersection | CoDifference | CoXor

datatype BitQuery = QuCount | QuSize | QuIsEmpty | QuValues

datatype BitIntrinsic =
    BitSetNew "64 word"
  | BitSetTest nat "64 word"
  | BitSetChange BitChange nat "64 word"
  | BitSetCombine BitCombine nat nat
  | BitSetQuery BitQuery nat
  | BitSetEq nat nat
  | MutableBitSetNew "64 word"
  | MutableBitSetTest nat "64 word"
  | MutableBitSetChange BitChange nat "64 word"
  | MutableBitSetCombine BitCombine nat nat
  | MutableBitSetQuery BitQuery nat
  | MutableBitSetFromBitSet nat
  | MutableBitSetToBitSet nat

datatype BitAnswer =
    AnBool bool | AnInt "64 word" | AnSeq "RVal list" | AnBitSet nat | AnMutableBitSet nat

text \<open>A store over contents of any kind: the persistent values and the cells.\<close>

type_synonym 'b bit_store = "'b list \<times> 'b list"

definition new_value :: "'b \<Rightarrow> 'b bit_store \<Rightarrow> (RuntimeError + BitAnswer) \<times> 'b bit_store" where
  "new_value b st = (Inr (AnBitSet (length (fst st))), fst st @ [b], snd st)"

definition new_cell :: "'b \<Rightarrow> 'b bit_store \<Rightarrow> (RuntimeError + BitAnswer) \<times> 'b bit_store" where
  "new_cell b st = (Inr (AnMutableBitSet (length (snd st))), fst st, snd st @ [b])"

definition put_cell :: "nat \<Rightarrow> 'b \<Rightarrow> 'b bit_store \<Rightarrow> (RuntimeError + BitAnswer) \<times> 'b bit_store" where
  "put_cell a b st = (Inr (AnMutableBitSet a), fst st, (snd st)[a := b])"

definition answer ::
    "(RuntimeError + 'a) option \<Rightarrow> ('a \<Rightarrow> 'b bit_store \<Rightarrow> (RuntimeError + BitAnswer) \<times> 'b bit_store) \<Rightarrow>
     'b bit_store \<Rightarrow> ((RuntimeError + BitAnswer) \<times> 'b bit_store) option" where
  "answer r f st = map_option (\<lambda>x. case x of Inl e \<Rightarrow> (Inl e, st) | Inr y \<Rightarrow> f y st) r"

definition say :: "('a \<Rightarrow> BitAnswer) \<Rightarrow> 'a \<Rightarrow> 'b bit_store \<Rightarrow> (RuntimeError + BitAnswer) \<times> 'b bit_store" where
  "say f x st = (Inr (f x), st)"

definition bitset_size_arg :: "64 word \<Rightarrow> (RuntimeError + nat) option" where
  "bitset_size_arg n =
     Some (if sint n < 0 then Inl (TypeError ''bitset size must be >= 0'') else Inr (nat (sint n)))"

fun bitset_change :: "BitChange \<Rightarrow> BitSetValue \<Rightarrow> 64 word \<Rightarrow> (RuntimeError + BitSetValue) option" where
  "bitset_change ChSet = bitset_set"
| "bitset_change ChReset = bitset_reset"
| "bitset_change ChFlip = bitset_flip"

fun bitset_combine :: "BitCombine \<Rightarrow> BitSetValue \<Rightarrow> BitSetValue \<Rightarrow> (RuntimeError + BitSetValue) option" where
  "bitset_combine CoUnion = bitset_union"
| "bitset_combine CoIntersection = bitset_intersection"
| "bitset_combine CoDifference = bitset_difference"
| "bitset_combine CoXor = bitset_xor"

fun mutable_bitset_change :: "BitChange \<Rightarrow> BitSetValue \<Rightarrow> 64 word \<Rightarrow> (RuntimeError + BitSetValue) option" where
  "mutable_bitset_change ChSet = mutable_bitset_set"
| "mutable_bitset_change ChReset = mutable_bitset_reset"
| "mutable_bitset_change ChFlip = mutable_bitset_flip"

fun mutable_bitset_combine :: "BitCombine \<Rightarrow> BitSetValue \<Rightarrow> BitSetValue \<Rightarrow> (RuntimeError + BitSetValue) option" where
  "mutable_bitset_combine CoUnion = union_assign"
| "mutable_bitset_combine CoIntersection = intersection_assign"
| "mutable_bitset_combine CoDifference = difference_assign"
| "mutable_bitset_combine CoXor = xor_assign"

text \<open>Lengths and sizes become integers by a cast.  The values of a mutable bit set are those of a snapshot.\<close>

fun bitset_query :: "BitQuery \<Rightarrow> BitSetValue \<Rightarrow> BitAnswer" where
  "bitset_query QuCount b = AnInt (of_nat (bitset_count b))"
| "bitset_query QuSize b = AnInt (of_nat (bs_size_bits b))"
| "bitset_query QuIsEmpty b = AnBool (bitset_is_empty b)"
| "bitset_query QuValues b = AnSeq (source_items (SrcBitSetValues b))"

fun bitset_intrinsic ::
    "BitIntrinsic \<Rightarrow> BitSetValue bit_store \<Rightarrow> ((RuntimeError + BitAnswer) \<times> BitSetValue bit_store) option" where
  "bitset_intrinsic (BitSetNew n) st = answer (bitset_size_arg n) (\<lambda>k. new_value (bitset_new k)) st"
| "bitset_intrinsic (BitSetTest a idx) st =
     Option.bind (arena_get (fst st) a) (\<lambda>b. answer (bitset_test b idx) (say AnBool) st)"
| "bitset_intrinsic (BitSetChange ch a idx) st =
     Option.bind (arena_get (fst st) a) (\<lambda>b. answer (bitset_change ch b idx) new_value st)"
| "bitset_intrinsic (BitSetCombine co a c) st =
     Option.bind (arena_get (fst st) a) (\<lambda>lhs.
     Option.bind (arena_get (fst st) c) (\<lambda>rhs. answer (bitset_combine co lhs rhs) new_value st))"
| "bitset_intrinsic (BitSetQuery q a) st =
     Option.bind (arena_get (fst st) a) (\<lambda>b. Some (say (bitset_query q) b st))"
| "bitset_intrinsic (BitSetEq a c) st =
     Option.bind (arena_get (fst st) a) (\<lambda>lhs.
     Option.bind (arena_get (fst st) c) (\<lambda>rhs. Some (say AnBool (lhs = rhs) st)))"
| "bitset_intrinsic (MutableBitSetNew n) st = answer (bitset_size_arg n) (\<lambda>k. new_cell (bitset_new k)) st"
| "bitset_intrinsic (MutableBitSetTest a idx) st =
     Option.bind (arena_get (snd st) a) (\<lambda>b. answer (bitset_test b idx) (say AnBool) st)"
| "bitset_intrinsic (MutableBitSetChange ch a idx) st =
     Option.bind (arena_get (snd st) a) (\<lambda>b. answer (mutable_bitset_change ch b idx) (put_cell a) st)"
| "bitset_intrinsic (MutableBitSetCombine co a c) st =
     Option.bind (arena_get (snd st) a) (\<lambda>lhs.
     Option.bind (arena_get (snd st) c) (\<lambda>rhs. answer (mutable_bitset_combine co lhs rhs) (put_cell a) st))"
| "bitset_intrinsic (MutableBitSetQuery q a) st =
     Option.bind (arena_get (snd st) a) (\<lambda>b. Some (say (bitset_query q) b st))"
| "bitset_intrinsic (MutableBitSetFromBitSet a) st = Option.bind (arena_get (fst st) a) (\<lambda>b. Some (new_cell b st))"
| "bitset_intrinsic (MutableBitSetToBitSet a) st = Option.bind (arena_get (snd st) a) (\<lambda>b. Some (new_value b st))"

end
