(* ===== verification/Bit_Properties.thy ===== *)
theory Bit_Properties
  imports Bit_Set
begin

text \<open>
  Bit sets against their specification: a size and a set of indices below it.
\<close>

section \<open>Bits of words\<close>

lemma bit_mask_of: "r < 64 \<Longrightarrow> bit (2 ^ r :: 64 word) n \<longleftrightarrow> n = r"
  by (auto simp: bit_simps)

lemma test_mask: "r < 64 \<Longrightarrow> (w :: 64 word) AND 2 ^ r = 0 \<longleftrightarrow> \<not> bit w r"
  using and_exp_eq_0_iff_not_bit[of w r] by simp

lemma bit_last_word_mask:
  "bit (bitset_last_word_mask n) r \<longleftrightarrow> r < 64 \<and> (n mod 64 = 0 \<or> r < n mod 64)"
proof -
  have "push_bit k 1 - 1 = (mask k :: 64 word)" for k
    by (simp add: mask_eq_exp_minus_1 push_bit_eq_mult)
  then show ?thesis
    using mod_less_divisor[of 64 n] by (auto simp: bitset_last_word_mask_def Let_def bit_simps)
qed

lemma word64_eqI: "(\<And>r. r < 64 \<Longrightarrow> bit v r = bit w r) \<Longrightarrow> v = (w :: 64 word)"
  by (rule bit_word_eqI) simp

section \<open>The abstraction\<close>

definition bit_at :: "64 word list \<Rightarrow> nat \<Rightarrow> bool" where
  "bit_at ws i \<longleftrightarrow> i div 64 < length ws \<and> bit (ws ! (i div 64)) (i mod 64)"

definition bitset_inv :: "BitSetValue \<Rightarrow> bool" where
  "bitset_inv b \<longleftrightarrow>
     length (bs_words b) = bitset_word_len (bs_size_bits b) \<and> (\<forall>i. bit_at (bs_words b) i \<longrightarrow> i < bs_size_bits b)"

type_synonym bits = "nat \<times> nat set"

definition bits_of :: "BitSetValue \<Rightarrow> bits" where
  "bits_of b = (bs_size_bits b, {i. bit_at (bs_words b) i})"

lemma word_len_less: "i < n \<Longrightarrow> i div 64 < bitset_word_len n"
  by (auto simp: bitset_word_len_def)

lemma word_len_eq: "bitset_word_len n = n div 64 + (if n mod 64 = 0 then 0 else 1)"
proof -
  have "(n + 63) div 64 = n div 64 + (n mod 64 + 63) div 64"
    using div_mult_mod_eq[of n 64] div_mult_self3[of 64 "n div 64" "n mod 64 + 63"] by (simp add: algebra_simps)
  moreover have "(n mod 64 + 63) div 64 = (if n mod 64 = 0 then 0 else 1)"
    using mod_less_divisor[of 64 n] by (auto intro: div_nat_eqI)
  ultimately show ?thesis
    by (simp add: bitset_word_len_def)
qed

lemma word_len_last:
  assumes "i div 64 < bitset_word_len n" and "n \<le> i"
  shows "i div 64 = bitset_word_len n - 1 \<and> n mod 64 \<noteq> 0 \<and> n mod 64 \<le> i mod 64"
proof -
  have q: "n div 64 \<le> i div 64"
    using assms(2) by (rule div_le_mono)
  with assms(1) have r: "n mod 64 \<noteq> 0" "i div 64 = n div 64"
    by (auto simp: word_len_eq split: if_splits)
  moreover have "n mod 64 \<le> i mod 64"
    using assms(2) r(2) div_mult_mod_eq[of n 64] div_mult_mod_eq[of i 64] by linarith
  ultimately show ?thesis
    by (simp add: word_len_eq)
qed

lemma bit_at_update:
  "bit_at (ws[k := w]) i \<longleftrightarrow> (if i div 64 = k \<and> k < length ws then bit w (i mod 64) else bit_at ws i)"
  by (auto simp: bit_at_def)

lemma bits_eq_words:
  assumes "length vs = length ws" and "{i. bit_at vs i} = {i. bit_at ws i}"
  shows "vs = ws"
proof (rule nth_equalityI)
  fix k assume k: "k < length vs"
  show "vs ! k = ws ! k"
  proof (rule word64_eqI)
    fix r :: nat assume "r < 64"
    moreover have "bit_at vs (64 * k + r) = bit_at ws (64 * k + r)"
      using assms(2) by blast
    ultimately show "bit (vs ! k) r = bit (ws ! k) r"
      using k assms(1) by (simp add: bit_at_def)
  qed
qed fact

lemma bits_of_inject: "bitset_inv b \<Longrightarrow> bitset_inv c \<Longrightarrow> bits_of b = bits_of c \<longleftrightarrow> b = c"
  using bits_eq_words[of "bs_words b" "bs_words c"] by (auto simp: bits_of_def bitset_inv_def)

section \<open>Single bits\<close>

lemma with_index_eq:
  assumes "bitset_inv b"
  shows "with_index b idx f =
    Some (if 0 \<le> sint idx \<and> nat (sint idx) < bs_size_bits b
          then let i = nat (sint idx) in Inr (f (i div 64) (push_bit (i mod 64) 1) (bs_words b ! (i div 64)))
          else Inl (TypeError ''bitset index out of bounds''))"
  using assms word_len_less[of "nat (sint idx)" "bs_size_bits b"]
  by (auto simp: with_index_def bitset_index_def arena_get_def bitset_inv_def Let_def)

text \<open>A word is replaced by one that differs in the bit of an index of the set.\<close>

lemma put_word_bits:
  assumes "bitset_inv b" and "i < bs_size_bits b" and "\<And>r. r \<noteq> i mod 64 \<Longrightarrow> bit w r = bit (bs_words b ! (i div 64)) r"
  shows "bitset_inv (put_word b (i div 64) w)"
    and "bits_of (put_word b (i div 64) w) =
      (bs_size_bits b, if bit w (i mod 64) then insert i (snd (bits_of b)) else snd (bits_of b) - {i})"
proof -
  let ?ws = "(bs_words b)[i div 64 := w]"
  have len: "i div 64 < length (bs_words b)"
    using assms(1,2) word_len_less by (simp add: bitset_inv_def)
  have "bit_at ?ws j = (if j = i then bit w (i mod 64) else bit_at (bs_words b) j)" for j
  proof (cases "j div 64 = i div 64")
    case True
    then have "j = i \<longleftrightarrow> j mod 64 = i mod 64"
      using div_mult_mod_eq[of j 64] div_mult_mod_eq[of i 64] by metis
    then show ?thesis
      using True len assms(3)[of "j mod 64"] by (simp add: bit_at_update) (simp add: bit_at_def)
  next
    case False
    then have "j \<noteq> i"
      by auto
    with False show ?thesis
      by (simp add: bit_at_update)
  qed
  then show "bitset_inv (put_word b (i div 64) w)"
    and "bits_of (put_word b (i div 64) w) =
      (bs_size_bits b, if bit w (i mod 64) then insert i (snd (bits_of b)) else snd (bits_of b) - {i})"
    using assms(1,2) by (auto simp: bitset_inv_def put_word_def bits_of_def)
qed

lemma bit_at_index: "bitset_inv b \<Longrightarrow> i < bs_size_bits b \<Longrightarrow> bit (bs_words b ! (i div 64)) (i mod 64) \<longleftrightarrow> i \<in> snd (bits_of b)"
  using word_len_less[of i "bs_size_bits b"] by (simp add: bitset_inv_def bits_of_def bit_at_def)

fun spec_change :: "BitChange \<Rightarrow> nat \<Rightarrow> nat set \<Rightarrow> nat set" where
  "spec_change ChSet i S = insert i S"
| "spec_change ChReset i S = S - {i}"
| "spec_change ChFlip i S = (if i \<in> S then S - {i} else insert i S)"

text \<open>An index that is in range, or the error.\<close>

definition checked_index :: "bits \<Rightarrow> 64 word \<Rightarrow> (nat \<Rightarrow> 'a) \<Rightarrow> (RuntimeError + 'a) option" where
  "checked_index b idx f =
     Some (if 0 \<le> sint idx \<and> nat (sint idx) < fst b then Inr (f (nat (sint idx)))
           else Inl (TypeError ''bitset index out of bounds''))"

lemma bitset_test_refines: "bitset_inv b \<Longrightarrow> bitset_test b idx = checked_index (bits_of b) idx (\<lambda>i. i \<in> snd (bits_of b))"
  using bit_at_index[of b "nat (sint idx)"]
  by (auto simp: bitset_test_def with_index_eq checked_index_def Let_def test_mask bits_of_def)

text \<open>What an operation on contents means for the abstraction.\<close>

definition implements :: "(RuntimeError + BitSetValue) option \<Rightarrow> (RuntimeError + bits) option \<Rightarrow> bool" where
  "implements r s \<longleftrightarrow>
     map_option (map_sum id bits_of) r = s \<and> (\<forall>b. r = Some (Inr b) \<longrightarrow> bitset_inv b)"

lemma implementsI: "bitset_inv b \<Longrightarrow> bits_of b = s \<Longrightarrow> implements (Some (Inr b)) (Some (Inr s))"
  by (simp add: implements_def)

definition changed :: "BitChange \<Rightarrow> nat \<Rightarrow> BitSetValue \<Rightarrow> BitSetValue \<Rightarrow> bool" where
  "changed ch i b c \<longleftrightarrow> bitset_inv c \<and> bits_of c = (bs_size_bits b, spec_change ch i (snd (bits_of b)))"

lemma change_implements:
  assumes "bitset_inv b"
    and "\<And>i. i < bs_size_bits b \<Longrightarrow> changed ch i b (f (i div 64) (2 ^ (i mod 64)) (bs_words b ! (i div 64)))"
  shows "implements (with_index b idx f)
    (checked_index (bits_of b) idx (\<lambda>i. (fst (bits_of b), spec_change ch i (snd (bits_of b)))))"
proof (cases "0 \<le> sint idx \<and> nat (sint idx) < bs_size_bits b")
  case True
  then show ?thesis
    using assms(2)[of "nat (sint idx)"]
    by (auto simp: with_index_eq[OF assms(1)] checked_index_def Let_def bits_of_def changed_def intro!: implementsI)
next
  case False
  then show ?thesis
    by (auto simp: with_index_eq[OF assms(1)] checked_index_def implements_def bits_of_def)
qed

lemma changed_same: "bitset_inv b \<Longrightarrow> spec_change ch i (snd (bits_of b)) = snd (bits_of b) \<Longrightarrow> changed ch i b b"
  by (simp add: bits_of_def changed_def)

lemma changed_word:
  assumes "bitset_inv b" and "i < bs_size_bits b" and "\<And>r. r \<noteq> i mod 64 \<Longrightarrow> bit w r = bit (bs_words b ! (i div 64)) r"
    and "bit w (i mod 64) \<longleftrightarrow> i \<in> spec_change ch i (snd (bits_of b))"
  shows "changed ch i b (put_word b (i div 64) w)"
  using put_word_bits[OF assms(1,2,3)] assms(4) by (cases ch) (auto simp: changed_def)

lemma changed_words:
  assumes "bitset_inv b" and "i < bs_size_bits b"
  shows "changed ChSet i b (put_word b (i div 64) (bs_words b ! (i div 64) OR 2 ^ (i mod 64)))"
    and "changed ChReset i b (put_word b (i div 64) (bs_words b ! (i div 64) AND NOT (2 ^ (i mod 64))))"
    and "changed ChFlip i b (put_word b (i div 64) (bs_words b ! (i div 64) XOR 2 ^ (i mod 64)))"
proof -
  have "i mod 64 < 64" by simp
  note bits = bit_mask_of[OF this] bit_at_index[OF assms] bit_or_iff bit_and_iff bit_xor_iff bit_not_iff
  show "changed ChSet i b (put_word b (i div 64) (bs_words b ! (i div 64) OR 2 ^ (i mod 64)))"
    by (rule changed_word[OF assms]) (simp_all add: bits)
  show "changed ChReset i b (put_word b (i div 64) (bs_words b ! (i div 64) AND NOT (2 ^ (i mod 64))))"
    by (rule changed_word[OF assms]) (auto simp: bits dest: bit_imp_possible_bit)
  show "changed ChFlip i b (put_word b (i div 64) (bs_words b ! (i div 64) XOR 2 ^ (i mod 64)))"
    by (rule changed_word[OF assms]) (simp_all add: bits)
qed

lemmas bit_changes = bitset_set_def bitset_reset_def bitset_flip_def mutable_bitset_set_def mutable_bitset_reset_def
  mutable_bitset_flip_def

lemma bitset_change_implements:
  assumes "bitset_inv b"
  shows "implements (bitset_change ch b idx)
      (checked_index (bits_of b) idx (\<lambda>i. (fst (bits_of b), spec_change ch i (snd (bits_of b)))))"
  by (cases ch; simp add: bit_changes del: spec_change.simps; rule change_implements[OF assms];
      auto simp: assms changed_words test_mask bit_at_index insert_absorb intro!: changed_same)

lemma mutable_change_implements:
  assumes "bitset_inv b"
  shows "implements (mutable_bitset_change ch b idx)
      (checked_index (bits_of b) idx (\<lambda>i. (fst (bits_of b), spec_change ch i (snd (bits_of b)))))"
  by (cases ch; simp add: bit_changes del: spec_change.simps; rule change_implements[OF assms];
      simp add: assms changed_words)

section \<open>Combinations\<close>

fun spec_combine :: "BitCombine \<Rightarrow> nat set \<Rightarrow> nat set \<Rightarrow> nat set" where
  "spec_combine CoUnion S T = S \<union> T"
| "spec_combine CoIntersection S T = S \<inter> T"
| "spec_combine CoDifference S T = S - T"
| "spec_combine CoXor S T = (S - T) \<union> (T - S)"

definition same_size :: "bits \<Rightarrow> bits \<Rightarrow> (nat set \<Rightarrow> nat set \<Rightarrow> nat set) \<Rightarrow> (RuntimeError + bits) option" where
  "same_size b c f =
     Some (if fst b \<noteq> fst c then Inl (TypeError ''bitset size mismatch'') else Inr (fst b, f (snd b) (snd c)))"

text \<open>Masking the last word cuts the bits off at the size.\<close>

lemma length_mask_last_word [simp]: "length (mask_last_word n ws) = length ws"
  by (cases ws) (simp_all add: mask_last_word_def)

lemma last_word_below:
  assumes "i div 64 = bitset_word_len n - 1" and "0 < bitset_word_len n"
  shows "n mod 64 = 0 \<or> i mod 64 < n mod 64 \<longleftrightarrow> i < n"
proof (cases "n \<le> i")
  case True
  then show ?thesis
    using word_len_last[of i n] assms by linarith
next
  case False
  have "i mod 64 < n mod 64" if "n mod 64 \<noteq> 0"
  proof -
    have "i div 64 = n div 64"
      using assms(1) that by (simp add: word_len_eq)
    then show ?thesis
      using False div_mult_mod_eq[of n 64] div_mult_mod_eq[of i 64] by linarith
  qed
  with False show ?thesis
    by auto
qed

lemma bit_at_masked:
  assumes "length ws = bitset_word_len n"
  shows "bit_at (mask_last_word n ws) i \<longleftrightarrow> bit_at ws i \<and> i < n"
proof (cases "ws = []")
  case False
  then have pos: "0 < length ws"
    by simp
  have nth: "mask_last_word n ws ! k = (if k = length ws - 1 then ws ! k AND bitset_last_word_mask n else ws ! k)"
    if "k < length ws" for k
    using False that by (auto simp: mask_last_word_def nth_append last_conv_nth nth_butlast)
  show ?thesis
  proof (cases "i div 64 < length ws")
    case True
    have "i < n" if "i div 64 \<noteq> length ws - 1"
      using word_len_last[of i n] True that assms by fastforce
    moreover have "n mod 64 = 0 \<or> i mod 64 < n mod 64 \<longleftrightarrow> i < n" if "i div 64 = length ws - 1"
      using last_word_below[of i n] that assms pos by simp
    ultimately show ?thesis
      using True by (auto simp: bit_at_def nth bit_and_iff bit_last_word_mask)
  next
    case False
    then show ?thesis by (simp add: bit_at_def)
  qed
qed (simp add: mask_last_word_def bit_at_def)

lemma combine_implements:
  assumes "bitset_inv b" and "bitset_inv c"
    and "\<And>v w r. r < 64 \<Longrightarrow> bit (f v w) r = P (bit v r) (bit w r)" and "\<not> P False False"
    and "\<And>S T i. i \<in> spec_combine co S T \<longleftrightarrow> P (i \<in> S) (i \<in> T)"
  shows "implements (bitset_binary_op f b c) (same_size (bits_of b) (bits_of c) (spec_combine co))"
    and "binary_assign f b c = bitset_binary_op f b c"
proof -
  let ?ws = "map2 f (bs_words b) (bs_words c)"
  have len: "length (bs_words b) = bitset_word_len (bs_size_bits b)" "length (bs_words c) = bitset_word_len (bs_size_bits c)"
    using assms(1,2) by (simp_all add: bitset_inv_def)
  then show "binary_assign f b c = bitset_binary_op f b c"
    by (simp add: binary_assign_def bitset_binary_op_def)
  show "implements (bitset_binary_op f b c) (same_size (bits_of b) (bits_of c) (spec_combine co))"
  proof (cases "bs_size_bits b = bs_size_bits c")
    case True
    let ?r = "\<lparr>bs_size_bits = bs_size_bits b, bs_words = mask_last_word (bs_size_bits b) ?ws\<rparr>"
    have lw: "length ?ws = bitset_word_len (bs_size_bits b)" using len True by simp
    have "bit_at (bs_words b) i \<Longrightarrow> i < bs_size_bits b" "bit_at (bs_words c) i \<Longrightarrow> i < bs_size_bits b" for i
      using assms(1,2) True by (simp_all add: bitset_inv_def)
    moreover have "bit_at ?ws i \<longleftrightarrow> P (bit_at (bs_words b) i) (bit_at (bs_words c) i)" for i
      using len True assms(3,4) by (cases "i div 64 < length (bs_words b)") (simp_all add: bit_at_def)
    ultimately have bits: "bit_at (mask_last_word (bs_size_bits b) ?ws) i \<longleftrightarrow> P (bit_at (bs_words b) i) (bit_at (bs_words c) i)" for i
      using bit_at_masked[OF lw, of i] assms(4) by (metis (full_types))
    have "bitset_inv ?r"
      using lw bit_at_masked[OF lw] by (simp add: bitset_inv_def)
    moreover have "bits_of ?r = (bs_size_bits b, spec_combine co (snd (bits_of b)) (snd (bits_of c)))"
      by (auto simp: bits_of_def bits assms(5))
    ultimately show ?thesis
      using True by (simp add: bitset_binary_op_def same_size_def implements_def) (simp add: bits_of_def)
  qed (simp add: bitset_binary_op_def same_size_def implements_def bits_of_def)
qed

lemma bitset_combine_implements:
  assumes "bitset_inv b" and "bitset_inv c"
  shows "implements (bitset_combine co b c) (same_size (bits_of b) (bits_of c) (spec_combine co))"
    and "mutable_bitset_combine co b c = bitset_combine co b c"
proof -
  note ops = bitset_union_def bitset_intersection_def bitset_difference_def bitset_xor_def union_assign_def
    intersection_assign_def difference_assign_def xor_assign_def
  note rule = combine_implements[OF assms, where co = co]
  note bits = bit_or_iff bit_and_iff bit_xor_iff bit_not_iff
  consider "co = CoUnion" | "co = CoIntersection" | "co = CoDifference" | "co = CoXor"
    by (cases co)
  then have "implements (bitset_combine co b c) (same_size (bits_of b) (bits_of c) (spec_combine co)) \<and>
      mutable_bitset_combine co b c = bitset_combine co b c"
  proof cases
    case 1
    then show ?thesis
      using rule[of "\<lambda>l r. l OR r" "(\<or>)"] by (simp add: ops bits)
  next
    case 2
    then show ?thesis
      using rule[of "\<lambda>l r. l AND r" "(\<and>)"] by (simp add: ops bits)
  next
    case 3
    then show ?thesis
      using rule[of "\<lambda>l r. l AND NOT r" "\<lambda>p q. p \<and> \<not> q"] by (simp add: ops bits)
  next
    case 4
    then show ?thesis
      using rule[of "\<lambda>l r. l XOR r" "(\<noteq>)"] by (auto simp: ops bits)
  qed
  then show "implements (bitset_combine co b c) (same_size (bits_of b) (bits_of c) (spec_combine co))"
    and "mutable_bitset_combine co b c = bitset_combine co b c"
    by blast+
qed

section \<open>Enumeration and counting\<close>

lemma trailing_zeros_bit:
  assumes "w \<noteq> 0"
  shows "trailing_zeros w < 64" and "bit w (trailing_zeros w)" and "n < trailing_zeros w \<Longrightarrow> \<not> bit w n"
proof -
  let ?t = "trailing_zeros w"
  from assms obtain m where m: "bit w m" "m < 64"
    using word64_eqI[of w 0] by auto
  then have "\<exists>x\<in>set [0..<64]. \<not> \<not> bit w x"
    by auto
  then have "?t < length [0..<64]"
    unfolding trailing_zeros_def
    by (metis (no_types, lifting) length_takeWhile_le nat_less_le set_takeWhileD takeWhile_eq_all_conv takeWhile_eq_take take_all_iff)
  then show t: "?t < 64" by simp
  show "bit w ?t"
    using nth_length_takeWhile[of "\<lambda>i. \<not> bit w i" "[0..<64]"] t by (simp add: trailing_zeros_def)
  show "\<not> bit w n" if "n < ?t"
    using takeWhile_nth[of n "\<lambda>i. \<not> bit w i" "[0..<64]"] nth_mem[of n "takeWhile (\<lambda>i. \<not> bit w i) [0..<64]"] that t
    by (auto simp: trailing_zeros_def dest: set_takeWhileD)
qed

lemma clear_lowest_bits:
  assumes "w \<noteq> 0"
  shows "bit (clear_lowest w) n \<longleftrightarrow> bit w n \<and> n \<noteq> trailing_zeros w"
proof -
  let ?t = "trailing_zeros w" and ?v = "unset_bit (trailing_zeros w) w"
  note t = trailing_zeros_bit[OF assms]
  have "?v AND 2 ^ ?t = 0"
    by (rule bit_eqI) (auto simp: bit_simps)
  then have "?v + 2 ^ ?t = ?v OR 2 ^ ?t"
    by (rule disjunctive_add_eq_or)
  also have "\<dots> = w"
    using t by (intro bit_eqI) (auto simp: bit_simps)
  finally have w: "?v + 2 ^ ?t = w" .
  have "?v AND mask ?t = 0"
    using t(3) by (intro bit_eqI) (auto simp: bit_simps)
  then have "?v + mask ?t = ?v OR mask ?t"
    by (rule disjunctive_add_eq_or)
  moreover have "w - 1 = ?v + mask ?t"
    using w by (simp add: mask_eq_exp_minus_1 algebra_simps)
  ultimately have "w - 1 = ?v OR mask ?t"
    by simp
  then show ?thesis
    using t(3) by (auto simp: clear_lowest_def bit_simps)
qed

lemma word_bits_correct: "sorted_wrt (<) (word_bits w) \<and> set (word_bits w) = {n. bit w n}"
proof (induction w rule: word_bits.induct)
  case (1 w)
  show ?case
  proof (cases "w = 0")
    case False
    with 1 have IH: "sorted_wrt (<) (word_bits (clear_lowest w))"
      "set (word_bits (clear_lowest w)) = {n. bit w n \<and> n \<noteq> trailing_zeros w}"
      by (simp_all add: clear_lowest_bits)
    then show ?thesis
      using False trailing_zeros_bit(2,3)[OF False]
      by (auto simp: word_bits.simps[of w] linorder_neq_iff)
  qed (simp add: word_bits.simps)
qed

text \<open>The positions of all bits, before those beyond the size are left out.\<close>

definition all_bits :: "nat \<Rightarrow> 64 word list \<Rightarrow> nat list" where
  "all_bits k ws = concat (map (\<lambda>(k, w). map (\<lambda>bt. k * 64 + bt) (word_bits w)) (enumerate k ws))"

lemma all_bits_simps:
  "all_bits k [] = []" "all_bits k (w # ws) = map (\<lambda>bt. k * 64 + bt) (word_bits w) @ all_bits (Suc k) ws"
  by (simp_all add: all_bits_def)

lemma bit_at_Cons: "bit_at (w # ws) n \<longleftrightarrow> (if n < 64 then bit w n else bit_at ws (n - 64))"
  by (cases "n < 64") (simp_all add: bit_at_def le_div_geq le_mod_geq)

lemma all_bits_set: "i \<in> set (all_bits k ws) \<longleftrightarrow> k * 64 \<le> i \<and> bit_at ws (i - k * 64)"
proof (induction ws arbitrary: k)
  case (Cons w ws)
  have here: "i \<in> set (map (\<lambda>bt. k * 64 + bt) (word_bits w)) \<longleftrightarrow> k * 64 \<le> i \<and> bit w (i - k * 64)"
    using word_bits_correct[of w] by (auto simp: image_def)
  have "n < 64" if "bit w n" for n
    using bit_imp_le_length[OF that] by simp
  then show ?case
    using Cons.IH[of "Suc k"] unfolding all_bits_simps set_append Un_iff here bit_at_Cons by (auto simp: add.commute)
qed (simp add: all_bits_simps bit_at_def)

lemma all_bits_sorted: "sorted_wrt (<) (all_bits k ws)"
proof (induction ws arbitrary: k)
  case (Cons w ws)
  have "sorted_wrt (<) (map (\<lambda>bt. k * 64 + bt) (word_bits w))"
    using word_bits_correct[of w] by (simp add: sorted_wrt_map)
  moreover have "i < j" if "i \<in> set (map (\<lambda>bt. k * 64 + bt) (word_bits w))" "j \<in> set (all_bits (Suc k) ws)" for i j
    using that word_bits_correct[of w] bit_imp_le_length[of w] unfolding all_bits_set by fastforce
  ultimately show ?case
    using Cons.IH[of "Suc k"] unfolding all_bits_simps sorted_wrt_append by blast
qed (simp add: all_bits_simps)

lemma bitset_indices_sorted:
  assumes "bitset_inv b"
  shows "sorted_list_of_set (snd (bits_of b)) = bitset_indices b"
proof -
  have "bitset_indices b = filter (\<lambda>i. i < bs_size_bits b) (all_bits 0 (bs_words b))"
    by (simp add: bitset_indices_def all_bits_def)
  then have "sorted_wrt (<) (bitset_indices b)" and "set (bitset_indices b) = snd (bits_of b)"
    using assms all_bits_sorted[of 0 "bs_words b"] all_bits_set[of _ 0 "bs_words b"]
    by (auto simp: bits_of_def bitset_inv_def sorted_wrt_filter)
  then show ?thesis
    by (metis sorted_list_of_set.idem_if_sorted_distinct strict_sorted_iff)
qed

lemma count_ones_word_bits: "count_ones w = length (word_bits w)"
proof -
  have "set (filter (bit w) [0..<64]) = set (word_bits w)"
    using word_bits_correct[of w] bit_imp_le_length[of w] by auto
  moreover have "distinct (filter (bit w) [0..<64])" "distinct (word_bits w)"
    using word_bits_correct[of w] by (simp_all add: strict_sorted_iff)
  ultimately show ?thesis
    unfolding count_ones_def by (metis distinct_card)
qed

lemma bitset_count_card: "bitset_count b = card (snd (bits_of b))"
proof -
  have "sum_list (map count_ones ws) = length (all_bits k ws)" for k ws
    by (induction ws arbitrary: k) (simp_all add: count_ones_word_bits all_bits_simps)
  then have "bitset_count b = length (all_bits 0 (bs_words b))"
    by (simp add: bitset_count_def)
  also have "\<dots> = card (set (all_bits 0 (bs_words b)))"
    using all_bits_sorted[of 0 "bs_words b"] by (simp add: strict_sorted_iff distinct_card)
  also have "set (all_bits 0 (bs_words b)) = snd (bits_of b)"
    using all_bits_set[of _ 0 "bs_words b"] by (auto simp: bits_of_def)
  finally show ?thesis .
qed

lemma bitset_is_empty_iff: "bitset_is_empty b \<longleftrightarrow> snd (bits_of b) = {}"
proof
  assume "bitset_is_empty b"
  then show "snd (bits_of b) = {}"
    by (auto simp: bitset_is_empty_def bits_of_def bit_at_def list_all_length)
next
  assume "snd (bits_of b) = {}"
  then have "bs_words b = replicate (length (bs_words b)) 0"
    by (intro bits_eq_words) (auto simp: bits_of_def bit_at_def)
  then show "bitset_is_empty b"
    unfolding bitset_is_empty_def list_all_iff by (metis in_set_replicate)
qed

section \<open>The specification\<close>

fun spec_query :: "BitQuery \<Rightarrow> bits \<Rightarrow> BitAnswer" where
  "spec_query QuCount b = AnInt (of_nat (card (snd b)))"
| "spec_query QuSize b = AnInt (of_nat (fst b))"
| "spec_query QuIsEmpty b = AnBool (snd b = {})"
| "spec_query QuValues b = AnSeq (map (\<lambda>i. RInt (of_nat i)) (sorted_list_of_set (snd b)))"

text \<open>Mutable bit sets do what the persistent ones do, in place.\<close>

fun spec_bitset :: "BitIntrinsic \<Rightarrow> bits bit_store \<Rightarrow> ((RuntimeError + BitAnswer) \<times> bits bit_store) option" where
  "spec_bitset (BitSetNew n) st = answer (bitset_size_arg n) (\<lambda>k. new_value (k, {})) st"
| "spec_bitset (BitSetTest a idx) st =
     Option.bind (arena_get (fst st) a) (\<lambda>b. answer (checked_index b idx (\<lambda>i. i \<in> snd b)) (say AnBool) st)"
| "spec_bitset (BitSetChange ch a idx) st =
     Option.bind (arena_get (fst st) a)
       (\<lambda>b. answer (checked_index b idx (\<lambda>i. (fst b, spec_change ch i (snd b)))) new_value st)"
| "spec_bitset (BitSetCombine co a c) st =
     Option.bind (arena_get (fst st) a) (\<lambda>lhs.
     Option.bind (arena_get (fst st) c) (\<lambda>rhs. answer (same_size lhs rhs (spec_combine co)) new_value st))"
| "spec_bitset (BitSetQuery q a) st = Option.bind (arena_get (fst st) a) (\<lambda>b. Some (say (spec_query q) b st))"
| "spec_bitset (BitSetEq a c) st =
     Option.bind (arena_get (fst st) a) (\<lambda>lhs.
     Option.bind (arena_get (fst st) c) (\<lambda>rhs. Some (say AnBool (lhs = rhs) st)))"
| "spec_bitset (MutableBitSetNew n) st = answer (bitset_size_arg n) (\<lambda>k. new_cell (k, {})) st"
| "spec_bitset (MutableBitSetTest a idx) st =
     Option.bind (arena_get (snd st) a) (\<lambda>b. answer (checked_index b idx (\<lambda>i. i \<in> snd b)) (say AnBool) st)"
| "spec_bitset (MutableBitSetChange ch a idx) st =
     Option.bind (arena_get (snd st) a)
       (\<lambda>b. answer (checked_index b idx (\<lambda>i. (fst b, spec_change ch i (snd b)))) (put_cell a) st)"
| "spec_bitset (MutableBitSetCombine co a c) st =
     Option.bind (arena_get (snd st) a) (\<lambda>lhs.
     Option.bind (arena_get (snd st) c) (\<lambda>rhs. answer (same_size lhs rhs (spec_combine co)) (put_cell a) st))"
| "spec_bitset (MutableBitSetQuery q a) st = Option.bind (arena_get (snd st) a) (\<lambda>b. Some (say (spec_query q) b st))"
| "spec_bitset (MutableBitSetFromBitSet a) st = Option.bind (arena_get (fst st) a) (\<lambda>b. Some (new_cell b st))"
| "spec_bitset (MutableBitSetToBitSet a) st = Option.bind (arena_get (snd st) a) (\<lambda>b. Some (new_value b st))"

section \<open>The refinement\<close>

definition bits_ok :: "BitSetValue bit_store \<Rightarrow> bool" where
  "bits_ok st \<longleftrightarrow> list_all bitset_inv (fst st) \<and> list_all bitset_inv (snd st)"

definition bits_abs :: "BitSetValue bit_store \<Rightarrow> bits bit_store" where
  "bits_abs st = (map bits_of (fst st), map bits_of (snd st))"

text \<open>One step of the code against one step of the specification.\<close>

definition refines ::
    "((RuntimeError + BitAnswer) \<times> BitSetValue bit_store) option \<Rightarrow>
     ((RuntimeError + BitAnswer) \<times> bits bit_store) option \<Rightarrow> bool" where
  "refines r s \<longleftrightarrow>
     map_option (map_prod id bits_abs) r = s \<and> (\<forall>out st. r = Some (out, st) \<longrightarrow> bits_ok st)"

lemma bitset_new_ok: "bitset_inv (bitset_new n)" "bits_of (bitset_new n) = (n, {})"
  by (auto simp: bitset_inv_def bitset_new_def bits_of_def bit_at_def)

lemma refines_get:
  assumes "list_all bitset_inv xs" and "\<And>b. arena_get xs a = Some b \<Longrightarrow> bitset_inv b \<Longrightarrow> refines (f b) (g (bits_of b))"
  shows "refines (Option.bind (arena_get xs a) f) (Option.bind (arena_get (map bits_of xs) a) g)"
  using assms by (auto simp: arena_get_def refines_def list_all_length)

lemma refines_answer:
  assumes "bits_ok st" and "implements r s"
    and "\<And>b. bitset_inv b \<Longrightarrow> refines (Some (f b st)) (Some (g (bits_of b) (bits_abs st)))"
  shows "refines (answer r f st) (answer s g (bits_abs st))"
  using assms by (cases r) (auto simp: implements_def answer_def refines_def split: sum.splits)

lemma refines_say:
  assumes "bits_ok st"
  shows "refines (answer r (say f) st) (answer r (say f) (bits_abs st))"
    and "f x = g y \<Longrightarrow> refines (Some (say f x st)) (Some (say g y (bits_abs st)))"
proof -
  show "refines (answer r (say f) st) (answer r (say f) (bits_abs st))"
    using assms by (cases r; cases "the r") (auto simp: refines_def answer_def say_def)
  show "f x = g y \<Longrightarrow> refines (Some (say f x st)) (Some (say g y (bits_abs st)))"
    using assms by (cases st) (simp add: refines_def say_def)
qed

lemma refines_new:
  assumes "bits_ok st" and "bitset_inv b" and "bits_of b = s"
  shows "refines (Some (new_value b st)) (Some (new_value s (bits_abs st)))"
    and "refines (Some (new_cell b st)) (Some (new_cell s (bits_abs st)))"
    and "refines (Some (put_cell a b st)) (Some (put_cell a s (bits_abs st)))"
  using assms
  by (auto simp: refines_def new_value_def new_cell_def put_cell_def bits_abs_def bits_ok_def map_update
      list_all_iff dest: set_update_subset_insert[THEN subsetD])

lemma bitset_query_refines: "bitset_inv b \<Longrightarrow> bitset_query q b = spec_query q (bits_of b)"
  by (cases q) (simp_all add: bitset_count_card bitset_is_empty_iff bitset_indices_sorted, simp add: bits_of_def)

lemma bitset_intrinsic_refines:
  assumes "bits_ok st"
  shows "refines (bitset_intrinsic op st) (spec_bitset op (bits_abs st))"
proof -
  have get: "list_all bitset_inv (fst st)" "list_all bitset_inv (snd st)"
    using assms by (simp_all add: bits_ok_def)
  have abs: "fst (bits_abs st) = map bits_of (fst st)" "snd (bits_abs st) = map bits_of (snd st)"
    by (simp_all add: bits_abs_def)
  note rules = refines_get[OF get(1)] refines_get[OF get(2)] refines_answer[OF assms] refines_say[OF assms]
    refines_new[OF assms] bitset_change_implements mutable_change_implements bitset_combine_implements(1)
  have new: "refines (answer (bitset_size_arg n) (\<lambda>k. new_value (bitset_new k)) st)
      (answer (bitset_size_arg n) (\<lambda>k. new_value (k, {})) (bits_abs st))"
    "refines (answer (bitset_size_arg n) (\<lambda>k. new_cell (bitset_new k)) st)
      (answer (bitset_size_arg n) (\<lambda>k. new_cell (k, {})) (bits_abs st))" for n
    using assms refines_new(1,2)[OF assms bitset_new_ok] by (auto simp: answer_def bitset_size_arg_def refines_def)
  show ?thesis
    by (cases op; simp only: bitset_intrinsic.simps spec_bitset.simps abs)
      (auto simp: bitset_test_refines bitset_query_refines bits_of_inject bitset_combine_implements(2) intro!: new rules)
qed

text \<open>
  C30. Bit sets are sets of indices below their size: every sequence of operations on persistent and
  mutable bit sets gives the answers and errors that the operations on sets give, and the values of a
  bit set are enumerated in ascending order.
\<close>

theorem bitset_refines: "answers bitset_intrinsic ops ([], []) = answers spec_bitset ops ([], [])"
proof -
  have "answers bitset_intrinsic ops ([], []) = answers spec_bitset ops (bits_abs ([], []))"
  proof (rule answers_simulation[where ok = bits_ok])
    fix op st assume "bits_ok st"
    from bitset_intrinsic_refines[OF this, of op]
    show "spec_bitset op (bits_abs st) = map_option (map_prod id bits_abs) (bitset_intrinsic op st)"
      and "\<And>out st'. bitset_intrinsic op st = Some (out, st') \<Longrightarrow> bits_ok st'"
      by (auto simp: refines_def)
  qed (simp add: bits_ok_def)
  then show ?thesis
    by (simp add: bits_abs_def)
qed

end
