(* ===== verification/Mut_List.thy ===== *)
theory Mut_List
  imports Seq_Iter Merge_Sort
begin

text \<open>
  Mutable lists (\<open>BoolListValue\<close>, \<open>MutableListStorage\<close> and \<open>MutableListValue\<close> of \<open>eval/src/value.rs\<close>) and the
  intrinsics on them (\<open>eval/src/intrinsics.rs\<close>, \<open>eval/src/interpreter.rs\<close>).  A list that holds only
  booleans packs them into words and becomes a plain vector when that ends.  Lists are shared: a value
  is the address of a storage.  A panic is \<^const>\<open>None\<close>.
\<close>

section \<open>Packed booleans\<close>

record BoolListValue =
  bl_len :: nat
  bl_words :: "64 word list"

definition bool_list_empty :: BoolListValue where
  "bool_list_empty = \<lparr>bl_len = 0, bl_words = []\<rparr>"

text \<open>\<open>words[i] = f(words[i])\<close>\<close>

definition update_word :: "nat \<Rightarrow> (64 word \<Rightarrow> 64 word) \<Rightarrow> 64 word list \<Rightarrow> 64 word list option" where
  "update_word i f ws = map_option (\<lambda>w. ws[i := f w]) (arena_get ws i)"

definition bool_list_get :: "nat \<Rightarrow> BoolListValue \<Rightarrow> bool option option" where
  "bool_list_get idx b =
     (if bl_len b \<le> idx then Some None
      else map_option (\<lambda>w. Some (drop_bit (idx mod 64) w AND 1 \<noteq> 0)) (arena_get (bl_words b) (idx div 64)))"

definition bool_list_last :: "BoolListValue \<Rightarrow> bool option option" where
  "bool_list_last b = (if bl_len b = 0 then Some None else bool_list_get (bl_len b - 1) b)"

definition bool_list_push :: "bool \<Rightarrow> BoolListValue \<Rightarrow> BoolListValue option" where
  "bool_list_push v b =
     (let idx = bl_len b;
          ws = (if idx mod 64 = 0 then bl_words b @ [0] else bl_words b)
      in map_option (\<lambda>ws'. \<lparr>bl_len = idx + 1, bl_words = ws'\<rparr>)
           (if v then update_word (idx div 64) (\<lambda>w. w OR push_bit (idx mod 64) 1) ws else Some ws))"

fun extend_bools :: "bool list \<Rightarrow> BoolListValue \<Rightarrow> BoolListValue option" where
  "extend_bools [] b = Some b"
| "extend_bools (v # vs) b = Option.bind (bool_list_push v b) (extend_bools vs)"

definition bool_list_set :: "nat \<Rightarrow> bool \<Rightarrow> BoolListValue \<Rightarrow> BoolListValue option" where
  "bool_list_set idx v b =
     (let msk = push_bit (idx mod 64) 1
      in map_option (\<lambda>ws. b\<lparr>bl_words := ws\<rparr>)
           (update_word (idx div 64) (\<lambda>w. if v then w OR msk else w AND NOT msk) (bl_words b)))"

definition bool_list_pop :: "BoolListValue \<Rightarrow> (bool option \<times> BoolListValue) option" where
  "bool_list_pop b =
     (if bl_len b = 0 then Some (None, b)
      else
        let idx = bl_len b - 1; msk = push_bit (idx mod 64) 1
        in Option.bind (arena_get (bl_words b) (idx div 64)) (\<lambda>w.
             let ws = (bl_words b)[idx div 64 := w AND NOT msk]
             in Some (Some (w AND msk \<noteq> 0),
                      \<lparr>bl_len = idx, bl_words = if idx mod 64 = 0 then butlast ws else ws\<rparr>)))"

fun those_opt :: "'a option list \<Rightarrow> 'a list option" where
  "those_opt [] = Some []"
| "those_opt (x # xs) = Option.bind x (\<lambda>y. map_option ((#) y) (those_opt xs))"

definition bool_list_to_values :: "BoolListValue \<Rightarrow> RVal list option" where
  "bool_list_to_values b =
     those_opt (map (\<lambda>idx. map_option RBool (Option.bind (bool_list_get idx b) id)) [0..<bl_len b])"

text \<open>The loop of \<open>from_values\<close>, which gives up at the first item that is not a boolean.\<close>

fun push_bools :: "RVal list \<Rightarrow> BoolListValue \<Rightarrow> BoolListValue option option" where
  "push_bools [] b = Some (Some b)"
| "push_bools (item # items) b =
     (case item of RBool v \<Rightarrow> Option.bind (bool_list_push v b) (push_bools items) | _ \<Rightarrow> Some None)"

definition bool_list_from_values :: "RVal list \<Rightarrow> BoolListValue option option" where
  "bool_list_from_values items = push_bools items bool_list_empty"

section \<open>Storage\<close>

datatype MutableListStorage = GenericItems "RVal list" | BoolItems BoolListValue

text \<open>\<open>Vec::insert\<close> and \<open>Vec::remove\<close>\<close>

definition vec_insert :: "nat \<Rightarrow> 'a \<Rightarrow> 'a list \<Rightarrow> 'a list option" where
  "vec_insert i v xs = (if i \<le> length xs then Some (take i xs @ v # drop i xs) else None)"

definition vec_remove :: "nat \<Rightarrow> 'a list \<Rightarrow> ('a \<times> 'a list) option" where
  "vec_remove i xs = (if i < length xs then Some (xs ! i, take i xs @ drop (Suc i) xs) else None)"

definition vec_set :: "nat \<Rightarrow> 'a \<Rightarrow> 'a list \<Rightarrow> 'a list option" where
  "vec_set i v xs = (if i < length xs then Some (xs[i := v]) else None)"

definition storage_from_items :: "RVal list \<Rightarrow> MutableListStorage option" where
  "storage_from_items items =
     map_option (\<lambda>r. case r of Some bools \<Rightarrow> BoolItems bools | None \<Rightarrow> GenericItems items)
       (bool_list_from_values items)"

fun list_snapshot :: "MutableListStorage \<Rightarrow> RVal list option" where
  "list_snapshot (GenericItems items) = Some items"
| "list_snapshot (BoolItems items) = bool_list_to_values items"

fun list_len :: "MutableListStorage \<Rightarrow> nat" where
  "list_len (GenericItems items) = length items"
| "list_len (BoolItems items) = bl_len items"

fun list_is_empty :: "MutableListStorage \<Rightarrow> bool" where
  "list_is_empty (GenericItems items) \<longleftrightarrow> items = []"
| "list_is_empty (BoolItems items) \<longleftrightarrow> bl_len items = 0"

fun list_get_cloned :: "nat \<Rightarrow> MutableListStorage \<Rightarrow> RVal option option" where
  "list_get_cloned idx (GenericItems items) = Some (arena_get items idx)"
| "list_get_cloned idx (BoolItems items) = map_option (map_option RBool) (bool_list_get idx items)"

fun list_last_cloned :: "MutableListStorage \<Rightarrow> RVal option option" where
  "list_last_cloned (GenericItems items) = Some (if items = [] then None else Some (last items))"
| "list_last_cloned (BoolItems items) = map_option (map_option RBool) (bool_list_last items)"

text \<open>A packed list becomes a vector by the change that a vector makes.\<close>

definition materialize :: "(RVal list \<Rightarrow> 'a option) \<Rightarrow> BoolListValue \<Rightarrow> 'a option" where
  "materialize f items = Option.bind (bool_list_to_values items) f"

fun list_push :: "RVal \<Rightarrow> MutableListStorage \<Rightarrow> MutableListStorage option" where
  "list_push v (GenericItems items) = Some (GenericItems (items @ [v]))"
| "list_push v (BoolItems items) =
     (case v of
        RBool b \<Rightarrow> map_option BoolItems (bool_list_push b items)
      | _ \<Rightarrow> materialize (\<lambda>xs. Some (GenericItems (xs @ [v]))) items)"

fun list_insert :: "nat \<Rightarrow> RVal \<Rightarrow> MutableListStorage \<Rightarrow> MutableListStorage option" where
  "list_insert idx v (GenericItems items) = map_option GenericItems (vec_insert idx v items)"
| "list_insert idx v (BoolItems items) = materialize (\<lambda>xs. map_option GenericItems (vec_insert idx v xs)) items"

fun list_pop :: "MutableListStorage \<Rightarrow> (RVal option \<times> MutableListStorage) option" where
  "list_pop (GenericItems items) =
     Some (if items = [] then None else Some (last items), GenericItems (butlast items))"
| "list_pop (BoolItems items) = map_option (map_prod (map_option RBool) BoolItems) (bool_list_pop items)"

fun as_bool :: "RVal \<Rightarrow> bool option" where
  "as_bool (RBool b) = Some b"
| "as_bool _ = None"

fun list_extend :: "RVal list \<Rightarrow> MutableListStorage \<Rightarrow> MutableListStorage option" where
  "list_extend vs (GenericItems items) = Some (GenericItems (items @ vs))"
| "list_extend vs (BoolItems items) =
     (if vs = [] then Some (BoolItems items)
      else
        (case those_opt (map as_bool vs) of
           Some bs \<Rightarrow> map_option BoolItems (extend_bools bs items)
         | None \<Rightarrow> materialize (\<lambda>xs. Some (GenericItems (xs @ vs))) items))"

fun list_set :: "nat \<Rightarrow> RVal \<Rightarrow> MutableListStorage \<Rightarrow> MutableListStorage option" where
  "list_set idx v (GenericItems items) = map_option GenericItems (vec_set idx v items)"
| "list_set idx v (BoolItems items) =
     (case v of
        RBool b \<Rightarrow> map_option BoolItems (bool_list_set idx b items)
      | _ \<Rightarrow> materialize (\<lambda>xs. map_option GenericItems (vec_set idx v xs)) items)"

fun list_remove_at :: "nat \<Rightarrow> MutableListStorage \<Rightarrow> (RVal \<times> MutableListStorage) option" where
  "list_remove_at idx (GenericItems items) = map_option (map_prod id GenericItems) (vec_remove idx items)"
| "list_remove_at idx (BoolItems items) =
     materialize (\<lambda>xs. map_option (map_prod id GenericItems) (vec_remove idx xs)) items"

definition list_delete_at :: "nat \<Rightarrow> MutableListStorage \<Rightarrow> MutableListStorage option" where
  "list_delete_at idx st = map_option snd (list_remove_at idx st)"

definition list_reverse :: "MutableListStorage \<Rightarrow> MutableListStorage option" where
  "list_reverse st = Option.bind (list_snapshot st) (\<lambda>xs. storage_from_items (rev xs))"

section \<open>The store of lists\<close>

type_synonym ('s, 'a) list_eff = "('s \<times> MutableListStorage list, RuntimeError, 'a) eff"

definition read_list :: "nat \<Rightarrow> ('s, MutableListStorage) list_eff" where
  "read_list a = (\<lambda>(s, h). map_option (\<lambda>st. (Inr st, s, h)) (arena_get h a))"

definition write_list :: "nat \<Rightarrow> MutableListStorage \<Rightarrow> ('s, unit) list_eff" where
  "write_list a st = (\<lambda>(s, h). Some (Inr (), s, h[a := st]))"

definition alloc_list :: "RVal list \<Rightarrow> ('s, RVal) list_eff" where
  "alloc_list items =
     andthen (panicking (storage_from_items items))
       (\<lambda>st (s, h). Some (Inr (RMutableList (length h)), s, h @ [st]))"

text \<open>A method on the storage of a list: what it returns, and what it stores.\<close>

definition on_list :: "nat \<Rightarrow> (MutableListStorage \<Rightarrow> 'a option) \<Rightarrow> ('s, 'a) list_eff" where
  "on_list a f = andthen (read_list a) (\<lambda>st. panicking (f st))"

definition modify_list :: "nat \<Rightarrow> (MutableListStorage \<Rightarrow> ('a \<times> MutableListStorage) option) \<Rightarrow> ('s, 'a) list_eff" where
  "modify_list a f = andthen (on_list a f) (\<lambda>(x, st). andthen (write_list a st) (\<lambda>_. ret x))"

definition change_list :: "nat \<Rightarrow> (MutableListStorage \<Rightarrow> MutableListStorage option) \<Rightarrow> ('s, RVal) list_eff" where
  "change_list a f = modify_list a (\<lambda>st. map_option (Pair (RMutableList a)) (f st))"

section \<open>Arguments\<close>

text \<open>\<open>args.pop()\<close> on the arguments in reverse order, and \<open>args[i]\<close>.\<close>

definition pop_arg :: "string \<Rightarrow> RVal list \<Rightarrow> (RVal \<Rightarrow> RVal list \<Rightarrow> ('s, 'a) list_eff) \<Rightarrow> ('s, 'a) list_eff" where
  "pop_arg msg args f = (case args of [] \<Rightarrow> raise (TypeError msg) | v # rest \<Rightarrow> f v rest)"

definition arg_at :: "RVal list \<Rightarrow> nat \<Rightarrow> (RVal \<Rightarrow> ('s, 'a) list_eff) \<Rightarrow> ('s, 'a) list_eff" where
  "arg_at args i f = andthen (panicking (arena_get args i)) f"

definition as_mutable_list :: "string \<Rightarrow> RVal \<Rightarrow> (nat \<Rightarrow> ('s, 'a) list_eff) \<Rightarrow> ('s, 'a) list_eff" where
  "as_mutable_list msg v f = (case v of RMutableList a \<Rightarrow> f a | _ \<Rightarrow> raise (TypeError msg))"

definition as_list :: "string \<Rightarrow> RVal \<Rightarrow> (RVal list \<Rightarrow> ('s, 'a) list_eff) \<Rightarrow> ('s, 'a) list_eff" where
  "as_list msg v f = (case v of RList xs \<Rightarrow> f xs | _ \<Rightarrow> raise (TypeError msg))"

definition as_int :: "string \<Rightarrow> RVal \<Rightarrow> (64 word \<Rightarrow> ('s, 'a) list_eff) \<Rightarrow> ('s, 'a) list_eff" where
  "as_int msg v f = (case v of RInt i \<Rightarrow> f i | _ \<Rightarrow> raise (TypeError msg))"

text \<open>The index as \<open>usize\<close> when it is below the bound, and the error with the length otherwise.\<close>

definition check_index :: "64 word \<Rightarrow> nat \<Rightarrow> nat \<Rightarrow> (nat \<Rightarrow> ('s, 'a) list_eff) \<Rightarrow> ('s, 'a) list_eff" where
  "check_index i bound len f =
     (if sint i < 0 \<or> bound \<le> nat (sint i) then raise (IndexOutOfBounds i (of_nat len)) else f (nat (sint i)))"

section \<open>Intrinsics\<close>

definition mutable_list_new :: "('s, RVal) list_eff" where
  "mutable_list_new = alloc_list []"

definition mutable_list_from_list :: "RVal list \<Rightarrow> ('s, RVal) list_eff" where
  "mutable_list_from_list args =
     arg_at args 0 (\<lambda>v. as_list ''mutable_list_from_list expects a List'' v alloc_list)"

definition mutable_list_push :: "RVal list \<Rightarrow> ('s, RVal) list_eff" where
  "mutable_list_push args =
     pop_arg ''mutable_list_push: missing value argument'' (rev args) (\<lambda>val rest.
     pop_arg ''mutable_list_push: missing mutable list argument'' rest (\<lambda>xs _.
     as_mutable_list ''mutable_list_push expects a MutableList'' xs (\<lambda>a. change_list a (list_push val))))"

definition mutable_list_insert :: "RVal list \<Rightarrow> ('s, RVal) list_eff" where
  "mutable_list_insert args =
     pop_arg ''mutable_list_insert: missing value argument'' (rev args) (\<lambda>val rest.
     pop_arg ''mutable_list_insert: missing index argument'' rest (\<lambda>i rest.
     as_int ''mutable_list_insert expects an Int index'' i (\<lambda>i.
     pop_arg ''mutable_list_insert: missing mutable list argument'' rest (\<lambda>xs _.
     as_mutable_list ''mutable_list_insert expects a MutableList'' xs (\<lambda>a.
     andthen (read_list a) (\<lambda>st.
     check_index i (list_len st + 1) (list_len st) (\<lambda>idx. change_list a (list_insert idx val))))))))"

definition mutable_list_extend :: "RVal list \<Rightarrow> ('s, RVal) list_eff" where
  "mutable_list_extend args =
     pop_arg ''mutable_list_extend: missing values argument'' (rev args) (\<lambda>values rest.
     as_list ''mutable_list_extend expects a List'' values (\<lambda>values.
     pop_arg ''mutable_list_extend: missing mutable list argument'' rest (\<lambda>xs _.
     as_mutable_list ''mutable_list_extend expects a MutableList'' xs (\<lambda>a. change_list a (list_extend values)))))"

definition mutable_list_len :: "RVal list \<Rightarrow> ('s, RVal) list_eff" where
  "mutable_list_len args =
     arg_at args 0 (\<lambda>v. as_mutable_list ''mutable_list_len expects a MutableList'' v (\<lambda>a.
     on_list a (\<lambda>st. Some (RInt (of_nat (list_len st))))))"

definition mutable_list_is_empty :: "RVal list \<Rightarrow> ('s, RVal) list_eff" where
  "mutable_list_is_empty args =
     arg_at args 0 (\<lambda>v. as_mutable_list ''mutable_list_is_empty expects a MutableList'' v (\<lambda>a.
     on_list a (\<lambda>st. Some (RBool (list_is_empty st)))))"

definition mutable_list_set :: "RVal list \<Rightarrow> ('s, RVal) list_eff" where
  "mutable_list_set args =
     pop_arg ''mutable_list_set: missing value argument'' (rev args) (\<lambda>val rest.
     pop_arg ''mutable_list_set: missing index argument'' rest (\<lambda>i rest.
     as_int ''mutable_list_set expects an Int index'' i (\<lambda>i.
     pop_arg ''mutable_list_set: missing mutable list argument'' rest (\<lambda>xs _.
     as_mutable_list ''mutable_list_set expects a MutableList'' xs (\<lambda>a.
     andthen (read_list a) (\<lambda>st.
     check_index i (list_len st) (list_len st) (\<lambda>idx. change_list a (list_set idx val))))))))"

definition mutable_list_delete_at :: "RVal list \<Rightarrow> ('s, RVal) list_eff" where
  "mutable_list_delete_at args =
     pop_arg ''mutable_list_delete_at: missing index argument'' (rev args) (\<lambda>i rest.
     as_int ''mutable_list_delete_at expects an Int index'' i (\<lambda>i.
     pop_arg ''mutable_list_delete_at: missing mutable list argument'' rest (\<lambda>xs _.
     as_mutable_list ''mutable_list_delete_at expects a MutableList'' xs (\<lambda>a.
     andthen (read_list a) (\<lambda>st.
     check_index i (list_len st) (list_len st) (\<lambda>idx. change_list a (list_delete_at idx)))))))"

definition mutable_list_remove_at :: "RVal list \<Rightarrow> ('s, RVal) list_eff" where
  "mutable_list_remove_at args =
     pop_arg ''mutable_list_remove_at: missing index argument'' (rev args) (\<lambda>i rest.
     as_int ''mutable_list_remove_at expects an Int index'' i (\<lambda>i.
     pop_arg ''mutable_list_remove_at: missing mutable list argument'' rest (\<lambda>xs _.
     as_mutable_list ''mutable_list_remove_at expects a MutableList'' xs (\<lambda>a.
     andthen (read_list a) (\<lambda>st.
     check_index i (list_len st) (list_len st) (\<lambda>idx. modify_list a (list_remove_at idx)))))))"

definition mutable_list_reverse :: "RVal list \<Rightarrow> ('s, RVal) list_eff" where
  "mutable_list_reverse args =
     arg_at args 0 (\<lambda>v. as_mutable_list ''mutable_list_reverse expects a MutableList'' v (\<lambda>a.
     change_list a list_reverse))"

definition mutable_list_to_list :: "RVal list \<Rightarrow> ('s, RVal) list_eff" where
  "mutable_list_to_list args =
     arg_at args 0 (\<lambda>v. as_mutable_list ''mutable_list_to_list expects a MutableList'' v (\<lambda>a.
     on_list a (\<lambda>st. map_option RList (list_snapshot st))))"

section \<open>Intrinsics that answer with options\<close>

text \<open>The constructors of \<open>Option\<close>, as far as they are registered.\<close>

record CoreOption =
  option_some :: "(TypeItemIdx \<times> nat) option"
  option_none :: "(TypeItemIdx \<times> nat) option"

definition make_some :: "CoreOption \<Rightarrow> RVal \<Rightarrow> RuntimeError + RVal" where
  "make_some core val =
     (case option_some core of
        None \<Rightarrow> Inl (TypeError ''core constructor Option::Some is unavailable'')
      | Some (type_idx, variant) \<Rightarrow> Inr (RAdt type_idx variant [val]))"

definition make_none :: "CoreOption \<Rightarrow> RuntimeError + RVal" where
  "make_none core =
     (case option_none core of
        None \<Rightarrow> Inl (TypeError ''core constructor Option::None is unavailable'')
      | Some (type_idx, variant) \<Rightarrow> Inr (RAdt type_idx variant []))"

definition make_option :: "CoreOption \<Rightarrow> RVal option \<Rightarrow> RuntimeError + RVal" where
  "make_option core r = (case r of Some v \<Rightarrow> make_some core v | None \<Rightarrow> make_none core)"

definition mutable_list_get :: "CoreOption \<Rightarrow> RVal list \<Rightarrow> ('s, RVal) list_eff" where
  "mutable_list_get core args =
     arg_at args 0 (\<lambda>v. as_mutable_list ''mutable_list_get expects a MutableList'' v (\<lambda>a.
     arg_at args 1 (\<lambda>i. as_int ''mutable_list_get expects an Int index'' i (\<lambda>i.
     if sint i < 0 then from_result (make_none core)
     else andthen (on_list a (list_get_cloned (nat (sint i)))) (\<lambda>r. from_result (make_option core r))))))"

definition mutable_list_head :: "CoreOption \<Rightarrow> RVal list \<Rightarrow> ('s, RVal) list_eff" where
  "mutable_list_head core args =
     arg_at args 0 (\<lambda>v. as_mutable_list ''mutable_list_head expects a MutableList'' v (\<lambda>a.
     andthen (on_list a (list_get_cloned 0)) (\<lambda>r. from_result (make_option core r))))"

definition mutable_list_tail :: "RVal list \<Rightarrow> ('s, RVal) list_eff" where
  "mutable_list_tail args =
     arg_at args 0 (\<lambda>v. as_mutable_list ''mutable_list_tail expects a MutableList'' v (\<lambda>a.
     andthen (on_list a list_snapshot) (\<lambda>snapshot.
     ret (RList (if snapshot = [] then [] else drop 1 snapshot)))))"

definition mutable_list_last :: "CoreOption \<Rightarrow> RVal list \<Rightarrow> ('s, RVal) list_eff" where
  "mutable_list_last core args =
     arg_at args 0 (\<lambda>v. as_mutable_list ''mutable_list_last expects a MutableList'' v (\<lambda>a.
     andthen (on_list a list_last_cloned) (\<lambda>r. from_result (make_option core r))))"

definition mutable_list_pop :: "CoreOption \<Rightarrow> RVal list \<Rightarrow> ('s, RVal) list_eff" where
  "mutable_list_pop core args =
     arg_at args 0 (\<lambda>v. as_mutable_list ''mutable_list_pop expects a MutableList'' v (\<lambda>a.
     andthen (modify_list a list_pop) (\<lambda>r. from_result (make_option core r))))"

text \<open>Indexing \<open>xs[i]\<close> of a mutable list.\<close>

definition index_mutable_list :: "nat \<Rightarrow> 64 word \<Rightarrow> ('s, RVal) list_eff" where
  "index_mutable_list a i =
     andthen (read_list a) (\<lambda>st.
     if sint i < 0 then raise (IndexOutOfBounds i (of_nat (list_len st)))
     else andthen (panicking (list_get_cloned (nat (sint i)) st)) (\<lambda>r.
       case r of Some item \<Rightarrow> ret item | None \<Rightarrow> raise (IndexOutOfBounds i (of_nat (list_len st)))))"

section \<open>Intrinsics that run interpreted code\<close>

text \<open>Interpreted code may change the lists, including the one that is being worked on.\<close>

type_synonym 's caller = "RVal \<Rightarrow> RVal list \<Rightarrow> ('s, RVal) list_eff"

definition mutable_list_update :: "'s caller \<Rightarrow> RVal list \<Rightarrow> ('s, RVal) list_eff" where
  "mutable_list_update call_value args =
     arg_at args 0 (\<lambda>v. as_mutable_list ''mutable_list_update expects a MutableList'' v (\<lambda>a.
     arg_at args 1 (\<lambda>i. as_int ''mutable_list_update expects an Int index'' i (\<lambda>i.
     andthen (read_list a) (\<lambda>st.
     check_index i (list_len st) (list_len st) (\<lambda>idx.
     arg_at args 2 (\<lambda>updater.
     andthen (on_list a (\<lambda>st. Option.bind (list_get_cloned idx st) id)) (\<lambda>current.
     andthen (call_value updater [current]) (\<lambda>updated.
     change_list a (list_set idx updated))))))))))"

definition int_ordering :: "64 word \<Rightarrow> comp" where
  "int_ordering n = (if 0 < sint n then Greater else if sint n < 0 then Less else Equiv)"

definition mutable_list_sort :: "(RVal \<Rightarrow> RVal \<Rightarrow> ('s, 64 word) list_eff) \<Rightarrow> RVal list \<Rightarrow> ('s, RVal) list_eff" where
  "mutable_list_sort trait_compare_values args =
     arg_at args 0 (\<lambda>v. as_mutable_list ''mutable_list_sort expects a MutableList'' v (\<lambda>a.
     andthen (on_list a list_snapshot) (\<lambda>snapshot.
     andthen (stable_merge_sort_by
         (\<lambda>x y. andthen (trait_compare_values x y) (\<lambda>n. ret (int_ordering n))) snapshot) (\<lambda>items.
     change_list a (\<lambda>_. storage_from_items items)))))"

definition mutable_list_sort_by :: "'s caller \<Rightarrow> RVal list \<Rightarrow> ('s, RVal) list_eff" where
  "mutable_list_sort_by call_value args =
     arg_at args 0 (\<lambda>v. as_mutable_list ''mutable_list_sort_by expects a MutableList'' v (\<lambda>a.
     arg_at args 1 (\<lambda>cmp_fn.
     andthen (on_list a list_snapshot) (\<lambda>snapshot.
     andthen (stable_merge_sort_by
         (\<lambda>x y. andthen (call_value cmp_fn [x, y])
            (\<lambda>r. as_int ''mutable_list_sort_by: comparator must return Int'' r (\<lambda>n. ret (int_ordering n)))) snapshot)
       (\<lambda>items. change_list a (\<lambda>_. storage_from_items items))))))"

text \<open>The search loop, shared by lists and mutable lists; the index is converted by a cast.\<close>

function binary_search_loop ::
    "('a \<Rightarrow> 'a \<Rightarrow> ('s, 'e, 64 word) eff) \<Rightarrow> 'a list \<Rightarrow> 'a \<Rightarrow> nat \<Rightarrow> nat \<Rightarrow> ('s, 'e, 64 word) eff" where
  "binary_search_loop cmp xs needle lo hi =
     (if lo < hi then
        let mid = lo + (hi - lo) div 2
        in andthen (panicking (arena_get xs mid)) (\<lambda>x.
           andthen (cmp x needle) (\<lambda>n.
             case int_ordering n of
               Less \<Rightarrow> binary_search_loop cmp xs needle (mid + 1) hi
             | Greater \<Rightarrow> binary_search_loop cmp xs needle lo mid
             | Equiv \<Rightarrow> ret (of_nat mid)))
      else ret (- of_nat lo - 1))"
  by pat_completeness auto
termination
  by (relation "measure (\<lambda>(_, _, _, lo, hi). hi - lo)") auto

declare binary_search_loop.simps [simp del]

definition list_binary_search :: "(RVal \<Rightarrow> RVal \<Rightarrow> ('s, 64 word) list_eff) \<Rightarrow> RVal list \<Rightarrow> ('s, RVal) list_eff" where
  "list_binary_search trait_compare_values args =
     arg_at args 0 (\<lambda>v. as_list ''list_binary_search expects a List'' v (\<lambda>xs.
     arg_at args 1 (\<lambda>needle.
     andthen (binary_search_loop trait_compare_values xs needle 0 (length xs)) (\<lambda>i. ret (RInt i)))))"

definition mutable_list_binary_search ::
    "(RVal \<Rightarrow> RVal \<Rightarrow> ('s, 64 word) list_eff) \<Rightarrow> RVal list \<Rightarrow> ('s, RVal) list_eff" where
  "mutable_list_binary_search trait_compare_values args =
     arg_at args 0 (\<lambda>v. as_mutable_list ''mutable_list_binary_search expects a MutableList'' v (\<lambda>a.
     arg_at args 1 (\<lambda>needle.
     andthen (on_list a list_snapshot) (\<lambda>snapshot.
     andthen (binary_search_loop trait_compare_values snapshot needle 0 (length snapshot)) (\<lambda>i. ret (RInt i))))))"

end
