(* ===== verification/Mut_List_Properties.thy ===== *)
theory Mut_List_Properties
  imports Mut_List Bit_Properties Map_Value_Correct
begin

text \<open>
  Mutable lists against plain lists of values: what the packed form of booleans has to keep, where that
  breaks, and the binary search.
\<close>

section \<open>Packed booleans\<close>

text \<open>The bits behind the end are zero: a push only sets the bit of a true value.\<close>

definition bools_ok :: "BoolListValue \<Rightarrow> bool" where
  "bools_ok b \<longleftrightarrow> length (bl_words b) = bitset_word_len (bl_len b) \<and> (\<forall>i. bit_at (bl_words b) i \<longrightarrow> i < bl_len b)"

definition bools_of :: "BoolListValue \<Rightarrow> bool list" where
  "bools_of b = map (bit_at (bl_words b)) [0..<bl_len b]"

lemma bools_of_simps [simp]: "length (bools_of b) = bl_len b" "i < bl_len b \<Longrightarrow> bools_of b ! i = bit_at (bl_words b) i"
  by (simp_all add: bools_of_def)

lemma bools_eqI:
  assumes "length xs = bl_len b" and "\<And>i. i < bl_len b \<Longrightarrow> bit_at (bl_words b) i = xs ! i"
  shows "bools_of b = xs"
  using assms by (intro nth_equalityI) simp_all

lemma bools_word:
  assumes "bools_ok b" and "i < bl_len b"
  shows "arena_get (bl_words b) (i div 64) = Some (bl_words b ! (i div 64))"
    and "bit (bl_words b ! (i div 64)) (i mod 64) = bools_of b ! i"
  using assms word_len_less[of i "bl_len b"] by (simp_all add: bools_ok_def arena_get_def bit_at_def)

lemma bit_at_append_zero: "bit_at (ws @ [0]) i = bit_at ws i"
  by (auto simp: bit_at_def nth_append less_Suc_eq)

lemma bit_at_set_bit:
  assumes "i div 64 < length ws"
  shows "bit_at (ws[i div 64 := ws ! (i div 64) OR 2 ^ (i mod 64)]) j \<longleftrightarrow> j = i \<or> bit_at ws j"
    and "bit_at (ws[i div 64 := ws ! (i div 64) AND NOT (2 ^ (i mod 64))]) j \<longleftrightarrow> j \<noteq> i \<and> bit_at ws j"
proof -
  have "j = i \<longleftrightarrow> j div 64 = i div 64 \<and> j mod 64 = i mod 64"
    by (metis div_mult_mod_eq)
  moreover have "j mod 64 < 64" "i mod 64 < 64"
    by simp_all
  ultimately show "bit_at (ws[i div 64 := ws ! (i div 64) OR 2 ^ (i mod 64)]) j \<longleftrightarrow> j = i \<or> bit_at ws j"
    and "bit_at (ws[i div 64 := ws ! (i div 64) AND NOT (2 ^ (i mod 64))]) j \<longleftrightarrow> j \<noteq> i \<and> bit_at ws j"
    using assms by (auto simp: bit_at_update bit_or_iff bit_and_iff bit_not_iff bit_mask_of) (auto simp: bit_at_def)
qed

lemma bool_list_get_eq:
  assumes "bools_ok b"
  shows "bool_list_get i b = Some (arena_get (bools_of b) i)"
proof (cases "i < bl_len b")
  case True
  have "drop_bit r w AND 1 \<noteq> 0 \<longleftrightarrow> bit w r" for r and w :: "64 word"
    by (metis and_one_eq bit_iff_odd_drop_bit even_iff_mod_2_eq_zero)
  with True show ?thesis
    using bools_word[OF assms True] by (simp add: bool_list_get_def arena_get_def)
qed (simp add: bool_list_get_def arena_get_def)

lemma those_opt_Some: "those_opt (map (\<lambda>x. Some (f x)) xs) = Some (map f xs)"
  by (induction xs) simp_all

lemma those_opt_cong: "(\<And>x. x \<in> set xs \<Longrightarrow> f x = Some (g x)) \<Longrightarrow> those_opt (map f xs) = Some (map g xs)"
  by (induction xs) simp_all

lemma bool_list_to_values_eq:
  assumes "bools_ok b"
  shows "bool_list_to_values b = Some (map RBool (bools_of b))"
proof -
  have "bool_list_to_values b = Some (map (\<lambda>i. RBool (bools_of b ! i)) [0..<bl_len b])"
    unfolding bool_list_to_values_def
    by (rule those_opt_cong) (simp add: bool_list_get_eq[OF assms] arena_get_def)
  also have "map (\<lambda>i. RBool (bools_of b ! i)) [0..<bl_len b] = map RBool (bools_of b)"
    by (rule nth_equalityI) simp_all
  finally show ?thesis .
qed

text \<open>Pushing keeps every other bit, also those that are set behind the end.\<close>

lemma bool_list_push_bits:
  assumes "length (bl_words b) = bitset_word_len (bl_len b)"
  obtains b' where "bool_list_push v b = Some b'" and "bl_len b' = Suc (bl_len b)"
    and "length (bl_words b') = bitset_word_len (bl_len b')"
    and "\<And>j. bit_at (bl_words b') j \<longleftrightarrow> (v \<and> j = bl_len b) \<or> bit_at (bl_words b) j"
proof -
  let ?n = "bl_len b"
  let ?ws = "if ?n mod 64 = 0 then bl_words b @ [0] else bl_words b"
  let ?b = "\<lparr>bl_len = ?n + 1, bl_words = if v then ?ws[?n div 64 := ?ws ! (?n div 64) OR 2 ^ (?n mod 64)] else ?ws\<rparr>"
  have old: "bit_at ?ws j = bit_at (bl_words b) j" for j
    by (simp add: bit_at_append_zero)
  have "Suc ?n mod 64 = (if ?n mod 64 = 63 then 0 else Suc (?n mod 64))" "Suc ?n div 64 = (if ?n mod 64 = 63 then Suc (?n div 64) else ?n div 64)"
    by (auto simp: mod_Suc div_Suc)
  then have len: "length ?ws = bitset_word_len (?n + 1)"
    using assms by (auto simp: word_len_eq)
  then have fits: "?n div 64 < length ?ws"
    using word_len_less[of ?n "?n + 1"] by simp
  have "bit_at (bl_words ?b) j \<longleftrightarrow> (v \<and> j = ?n) \<or> bit_at (bl_words b) j" for j
    using bit_at_set_bit(1)[OF fits, of j] old[of j] by (cases v) simp_all
  moreover have "bool_list_push v b = Some ?b"
    using fits by (simp add: bool_list_push_def Let_def update_word_def arena_get_def)
  moreover have "length (bl_words ?b) = bitset_word_len (bl_len ?b)"
    using len by simp
  ultimately show thesis
    using that[of ?b] by simp
qed

lemma bool_list_push_ok:
  assumes "bools_ok b"
  obtains b' where "bool_list_push v b = Some b'" and "bools_ok b'" and "bools_of b' = bools_of b @ [v]"
proof -
  obtain b' where b': "bool_list_push v b = Some b'" "bl_len b' = Suc (bl_len b)"
      "length (bl_words b') = bitset_word_len (bl_len b')"
      "\<And>j. bit_at (bl_words b') j \<longleftrightarrow> (v \<and> j = bl_len b) \<or> bit_at (bl_words b) j"
    using bool_list_push_bits[of b v] assms by (auto simp: bools_ok_def)
  then have "bools_ok b'"
    using assms by (auto simp: bools_ok_def)
  moreover have "bools_of b' = bools_of b @ [v]"
    using assms b' by (intro bools_eqI) (auto simp: nth_append less_Suc_eq bools_ok_def)
  ultimately show thesis
    using that b'(1) by blast
qed

lemma bool_list_set_ok:
  assumes "bools_ok b" and "i < bl_len b"
  obtains b' where "bool_list_set i v b = Some b'" and "bools_ok b'" and "bools_of b' = (bools_of b)[i := v]"
proof -
  let ?w = "bl_words b ! (i div 64)"
  let ?b = "b\<lparr>bl_words := (bl_words b)[i div 64 := if v then ?w OR 2 ^ (i mod 64) else ?w AND NOT (2 ^ (i mod 64))]\<rparr>"
  have fits: "i div 64 < length (bl_words b)"
    using assms word_len_less[of i "bl_len b"] by (simp add: bools_ok_def)
  have bits: "bit_at (bl_words ?b) j \<longleftrightarrow> (if j = i then v else bit_at (bl_words b) j)" for j
    using bit_at_set_bit[OF fits, of j] by (cases v) auto
  have "bools_ok ?b"
    using assms bits by (auto simp: bools_ok_def)
  moreover have "bools_of ?b = (bools_of b)[i := v]"
    using bits by (intro bools_eqI) (auto simp: nth_list_update)
  moreover have "bool_list_set i v b = Some ?b"
    using fits by (simp add: bool_list_set_def Let_def update_word_def arena_get_def)
  ultimately show thesis
    using that by blast
qed

lemma bool_list_pop_ok:
  assumes "bools_ok b"
  obtains b' where "bool_list_pop b = Some (if bools_of b = [] then None else Some (last (bools_of b)), b')"
    and "bools_ok b'" and "bools_of b' = butlast (bools_of b)"
proof (cases "bl_len b = 0")
  case True
  then show thesis
    using that[of b] assms by (simp add: bool_list_pop_def bools_of_def)
next
  case False
  let ?n = "bl_len b - 1"
  let ?w = "bl_words b ! (?n div 64)"
  let ?ws = "(bl_words b)[?n div 64 := ?w AND NOT (2 ^ (?n mod 64))]"
  let ?b = "\<lparr>bl_len = ?n, bl_words = if ?n mod 64 = 0 then butlast ?ws else ?ws\<rparr>"
  have n: "?n < bl_len b" "Suc ?n = bl_len b"
    using False by simp_all
  note word = bools_word[OF assms n(1)]
  have fits: "?n div 64 < length (bl_words b)"
    using assms word_len_less[OF n(1)] by (simp add: bools_ok_def)
  have step: "Suc ?n mod 64 = (if ?n mod 64 = 63 then 0 else Suc (?n mod 64))"
    "Suc ?n div 64 = (if ?n mod 64 = 63 then Suc (?n div 64) else ?n div 64)"
    by (auto simp: mod_Suc div_Suc)
  then have len: "length (bl_words ?b) = bitset_word_len ?n"
    using assms n(2) by (auto simp: bools_ok_def word_len_eq)
  have ws: "bit_at ?ws j \<longleftrightarrow> j < ?n \<and> bit_at (bl_words b) j" for j
    using bit_at_set_bit(2)[OF fits, of j] assms n by (auto simp: bools_ok_def)
  have bits: "bit_at (bl_words ?b) j \<longleftrightarrow> j < ?n \<and> bit_at (bl_words b) j" for j
  proof (cases "j < ?n")
    case True
    then show ?thesis
      using ws[of j] word_len_less[OF True] len by (auto simp: bit_at_def nth_butlast)
  next
    case False
    then have "\<not> bit_at ?ws j"
      using ws by simp
    then show ?thesis
      using False by (auto simp: bit_at_def nth_butlast)
  qed
  have "bools_ok ?b"
    using len bits by (simp add: bools_ok_def)
  moreover have "bools_of ?b = butlast (bools_of b)"
    using bits by (intro bools_eqI) (auto simp: nth_butlast)
  moreover have "bool_list_pop b = Some (Some (last (bools_of b)), ?b)"
  proof -
    have "bools_of b \<noteq> []"
      using False by (simp add: bools_of_def)
    then have "last (bools_of b) \<longleftrightarrow> bit ?w (?n mod 64)"
      unfolding word(2) by (metis last_conv_nth bools_of_simps(1))
    also have "\<dots> \<longleftrightarrow> ?w AND 2 ^ (?n mod 64) \<noteq> 0"
      by (simp only: test_mask[OF mod_less_divisor[OF zero_less_numeral]]) simp
    finally show ?thesis
      using False unfolding bool_list_pop_def Let_def word(1) by (simp only: push_bit_of_1 if_False Option.bind.simps)
  qed
  ultimately show thesis
    using that False by (auto simp: bools_of_def)
qed

lemma extend_bools_ok:
  assumes "bools_ok b"
  obtains b' where "extend_bools vs b = Some b'" and "bools_ok b'" and "bools_of b' = bools_of b @ vs"
  using assms
proof (induction vs arbitrary: b thesis)
  case (Cons v vs)
  obtain b1 where b1: "bool_list_push v b = Some b1" "bools_ok b1" "bools_of b1 = bools_of b @ [v]"
    using bool_list_push_ok[OF Cons.prems(2)] .
  obtain b2 where "extend_bools vs b1 = Some b2" "bools_ok b2" "bools_of b2 = bools_of b1 @ vs"
    using Cons.IH[OF _ b1(2)] .
  with b1 show ?case
    by (intro Cons.prems(1)[of b2]) simp_all
qed simp

section \<open>Storage\<close>

fun list_ok :: "MutableListStorage \<Rightarrow> bool" where
  "list_ok (GenericItems items) = True"
| "list_ok (BoolItems b) = bools_ok b"

fun list_of :: "MutableListStorage \<Rightarrow> RVal list" where
  "list_of (GenericItems items) = items"
| "list_of (BoolItems b) = map RBool (bools_of b)"

text \<open>A new storage with the given content.\<close>

definition stores :: "MutableListStorage option \<Rightarrow> RVal list \<Rightarrow> bool" where
  "stores r xs \<longleftrightarrow> (\<exists>st. r = Some st \<and> list_ok st \<and> list_of st = xs)"

lemma stores_Generic [simp]: "stores (Some (GenericItems xs)) ys \<longleftrightarrow> xs = ys"
  by (simp add: stores_def)

lemma stores_Bool: "r = Some b \<Longrightarrow> bools_ok b \<Longrightarrow> map RBool (bools_of b) = xs \<Longrightarrow> stores (map_option BoolItems r) xs"
  by (simp add: stores_def)

lemma materialize_eq: "bools_ok b \<Longrightarrow> materialize f b = f (map RBool (bools_of b))"
  by (simp add: materialize_def bool_list_to_values_eq)

lemma push_bools_cases:
  assumes "bools_ok b"
  shows "push_bools items b = Some None \<or>
    (\<exists>b'. push_bools items b = Some (Some b') \<and> bools_ok b' \<and> map RBool (bools_of b') = map RBool (bools_of b) @ items)"
  using assms
proof (induction items arbitrary: b)
  case (Cons item items)
  show ?case
  proof (cases item)
    case (RBool v)
    obtain b1 where b1: "bool_list_push v b = Some b1" "bools_ok b1" "bools_of b1 = bools_of b @ [v]"
      using bool_list_push_ok[OF Cons.prems] .
    with RBool show ?thesis
      using Cons.IH[OF b1(2)] by auto
  qed simp_all
qed simp

lemma storage_from_items_ok: "stores (storage_from_items items) items"
proof -
  have "bools_ok bool_list_empty" "bools_of bool_list_empty = []"
    by (simp_all add: bools_ok_def bools_of_def bool_list_empty_def bitset_word_len_def bit_at_def)
  then show ?thesis
    using push_bools_cases[of bool_list_empty items]
    by (auto simp: stores_def storage_from_items_def bool_list_from_values_def)
qed

lemma list_reads:
  assumes "list_ok st"
  shows "list_snapshot st = Some (list_of st)" and "list_len st = length (list_of st)"
    and "list_is_empty st \<longleftrightarrow> list_of st = []" and "list_get_cloned i st = Some (arena_get (list_of st) i)"
    and "list_last_cloned st = Some (if list_of st = [] then None else Some (last (list_of st)))"
proof -
  show "list_snapshot st = Some (list_of st)" "list_len st = length (list_of st)"
    "list_is_empty st \<longleftrightarrow> list_of st = []" "list_get_cloned i st = Some (arena_get (list_of st) i)"
    using assms by (cases st; simp add: bool_list_to_values_eq bool_list_get_eq arena_get_def bools_of_def)+
  show "list_last_cloned st = Some (if list_of st = [] then None else Some (last (list_of st)))"
    using assms
    by (cases st) (auto simp: bool_list_last_def bool_list_get_eq arena_get_def last_map last_conv_nth bools_of_def)
qed

lemma list_push_ok: "list_ok st \<Longrightarrow> stores (list_push v st) (list_of st @ [v])"
proof (cases st)
  case (BoolItems b)
  assume "list_ok st"
  with BoolItems have "bools_ok b" by simp
  then show ?thesis
    using BoolItems by (cases v) (auto simp: materialize_eq stores_def elim!: bool_list_push_ok[of b])
qed simp

lemma as_bools: "those_opt (map as_bool vs) = Some bs \<longleftrightarrow> vs = map RBool bs"
proof (induction vs arbitrary: bs)
  case (Cons v vs)
  then show ?case
    by (cases v; cases bs) (auto simp: bind_eq_Some_conv)
qed auto

lemma list_extend_ok: "list_ok st \<Longrightarrow> stores (list_extend vs st) (list_of st @ vs)"
proof (cases st)
  case (BoolItems b)
  assume "list_ok st"
  with BoolItems have b: "bools_ok b" by simp
  show ?thesis
  proof (cases "those_opt (map as_bool vs)")
    case None
    then show ?thesis
      using BoolItems b by (auto simp: materialize_eq stores_def)
  next
    case (Some bs)
    then have "vs = map RBool bs"
      by (simp add: as_bools)
    then show ?thesis
      using BoolItems b Some by (auto simp: stores_def elim!: extend_bools_ok[of b bs])
  qed
qed simp

lemma list_set_ok: "list_ok st \<Longrightarrow> i < length (list_of st) \<Longrightarrow> stores (list_set i v st) ((list_of st)[i := v])"
proof (cases st)
  case (BoolItems b)
  assume "list_ok st" "i < length (list_of st)"
  with BoolItems have b: "bools_ok b" "i < bl_len b" by simp_all
  show ?thesis
  proof (cases v)
    case (RBool x)
    then show ?thesis
      using BoolItems b by (auto simp: stores_def map_update elim!: bool_list_set_ok[of b i x])
  qed (use BoolItems b in \<open>auto simp: materialize_eq vec_set_def\<close>)
qed (auto simp: vec_set_def)

lemma list_insert_ok:
  "list_ok st \<Longrightarrow> i \<le> length (list_of st) \<Longrightarrow> stores (list_insert i v st) (take i (list_of st) @ v # drop i (list_of st))"
  by (cases st) (simp_all add: materialize_eq vec_insert_def)

lemma list_reverse_ok: "list_ok st \<Longrightarrow> stores (list_reverse st) (rev (list_of st))"
  by (simp add: list_reverse_def list_reads storage_from_items_ok)

lemma list_remove_ok:
  assumes "list_ok st" and "i < length (list_of st)"
  shows "list_remove_at i st = Some (list_of st ! i, GenericItems (take i (list_of st) @ drop (Suc i) (list_of st)))"
    and "stores (list_delete_at i st) (take i (list_of st) @ drop (Suc i) (list_of st))"
proof -
  show "list_remove_at i st = Some (list_of st ! i, GenericItems (take i (list_of st) @ drop (Suc i) (list_of st)))"
    using assms by (cases st) (simp_all add: materialize_eq vec_remove_def)
  then show "stores (list_delete_at i st) (take i (list_of st) @ drop (Suc i) (list_of st))"
    by (simp add: list_delete_at_def)
qed

lemma list_pop_ok:
  assumes "list_ok st"
  obtains st' where "list_pop st = Some (if list_of st = [] then None else Some (last (list_of st)), st')"
    and "list_ok st'" and "list_of st' = butlast (list_of st)"
proof (cases st)
  case (BoolItems b)
  with assms have "bools_ok b" by simp
  then obtain b' where "bool_list_pop b = Some (if bools_of b = [] then None else Some (last (bools_of b)), b')"
      "bools_ok b'" "bools_of b' = butlast (bools_of b)"
    by (rule bool_list_pop_ok)
  then show thesis
    using BoolItems by (intro that[of "BoolItems b'"]) (auto simp: last_map map_butlast)
qed (use that in auto)

section \<open>The specification\<close>

text \<open>Calls of the intrinsics with arguments of the right types.\<close>

datatype ListCall =
    LNew
  | LFromList "RVal list"
  | LPush nat RVal
  | LInsert nat "64 word" RVal
  | LExtend nat "RVal list"
  | LLen nat
  | LIsEmpty nat
  | LSet nat "64 word" RVal
  | LDeleteAt nat "64 word"
  | LRemoveAt nat "64 word"
  | LReverse nat
  | LToList nat
  | LGet nat "64 word"
  | LHead nat
  | LTail nat
  | LLast nat
  | LPop nat
  | LIndex nat "64 word"

fun list_call :: "CoreOption \<Rightarrow> ListCall \<Rightarrow> ('s, RVal) list_eff" where
  "list_call core LNew = mutable_list_new"
| "list_call core (LFromList xs) = mutable_list_from_list [RList xs]"
| "list_call core (LPush a v) = mutable_list_push [RMutableList a, v]"
| "list_call core (LInsert a i v) = mutable_list_insert [RMutableList a, RInt i, v]"
| "list_call core (LExtend a vs) = mutable_list_extend [RMutableList a, RList vs]"
| "list_call core (LLen a) = mutable_list_len [RMutableList a]"
| "list_call core (LIsEmpty a) = mutable_list_is_empty [RMutableList a]"
| "list_call core (LSet a i v) = mutable_list_set [RMutableList a, RInt i, v]"
| "list_call core (LDeleteAt a i) = mutable_list_delete_at [RMutableList a, RInt i]"
| "list_call core (LRemoveAt a i) = mutable_list_remove_at [RMutableList a, RInt i]"
| "list_call core (LReverse a) = mutable_list_reverse [RMutableList a]"
| "list_call core (LToList a) = mutable_list_to_list [RMutableList a]"
| "list_call core (LGet a i) = mutable_list_get core [RMutableList a, RInt i]"
| "list_call core (LHead a) = mutable_list_head core [RMutableList a]"
| "list_call core (LTail a) = mutable_list_tail [RMutableList a]"
| "list_call core (LLast a) = mutable_list_last core [RMutableList a]"
| "list_call core (LPop a) = mutable_list_pop core [RMutableList a]"
| "list_call core (LIndex a i) = index_mutable_list a i"

text \<open>The list a call is about; only addresses of lists that exist are used.\<close>

fun is_new :: "ListCall \<Rightarrow> bool" where
  "is_new LNew = True"
| "is_new (LFromList xs) = True"
| "is_new _ = False"

fun address :: "ListCall \<Rightarrow> nat" where
  "address (LPush a _) = a" | "address (LInsert a _ _) = a" | "address (LExtend a _) = a" | "address (LLen a) = a"
| "address (LIsEmpty a) = a" | "address (LSet a _ _) = a" | "address (LDeleteAt a _) = a" | "address (LRemoveAt a _) = a"
| "address (LReverse a) = a" | "address (LToList a) = a" | "address (LGet a _) = a" | "address (LHead a) = a"
| "address (LTail a) = a" | "address (LLast a) = a" | "address (LPop a) = a" | "address (LIndex a _) = a" | "address _ = 0"

definition run_list :: "CoreOption \<Rightarrow> ListCall \<Rightarrow> MutableListStorage list \<Rightarrow> ((RuntimeError + RVal) \<times> MutableListStorage list) option" where
  "run_list core c h =
     (if is_new c \<or> address c < length h then map_option (\<lambda>(r, _, h'). (r, h')) (list_call core c ((), h)) else None)"

type_synonym lists = "RVal list list"

definition indexed :: "64 word \<Rightarrow> 'a list \<Rightarrow> nat option" where
  "indexed i xs = (if 0 \<le> sint i \<and> nat (sint i) < length xs then Some (nat (sint i)) else None)"

definition out_of_bounds :: "64 word \<Rightarrow> 'a list \<Rightarrow> RuntimeError + RVal" where
  "out_of_bounds i xs = Inl (IndexOutOfBounds i (of_nat (length xs)))"

text \<open>What a call on the list at an address answers, and the new content of the list.\<close>

fun spec_list :: "CoreOption \<Rightarrow> ListCall \<Rightarrow> RVal list \<Rightarrow> (RuntimeError + RVal) \<times> RVal list" where
  "spec_list core (LPush a v) xs = (Inr (RMutableList a), xs @ [v])"
| "spec_list core (LInsert a i v) xs =
     (if 0 \<le> sint i \<and> nat (sint i) \<le> length xs
      then (Inr (RMutableList a), take (nat (sint i)) xs @ v # drop (nat (sint i)) xs)
      else (out_of_bounds i xs, xs))"
| "spec_list core (LExtend a vs) xs = (Inr (RMutableList a), xs @ vs)"
| "spec_list core (LLen a) xs = (Inr (RInt (of_nat (length xs))), xs)"
| "spec_list core (LIsEmpty a) xs = (Inr (RBool (xs = [])), xs)"
| "spec_list core (LSet a i v) xs =
     (case indexed i xs of Some k \<Rightarrow> (Inr (RMutableList a), xs[k := v]) | None \<Rightarrow> (out_of_bounds i xs, xs))"
| "spec_list core (LDeleteAt a i) xs =
     (case indexed i xs of
        Some k \<Rightarrow> (Inr (RMutableList a), take k xs @ drop (Suc k) xs)
      | None \<Rightarrow> (out_of_bounds i xs, xs))"
| "spec_list core (LRemoveAt a i) xs =
     (case indexed i xs of Some k \<Rightarrow> (Inr (xs ! k), take k xs @ drop (Suc k) xs) | None \<Rightarrow> (out_of_bounds i xs, xs))"
| "spec_list core (LReverse a) xs = (Inr (RMutableList a), rev xs)"
| "spec_list core (LToList a) xs = (Inr (RList xs), xs)"
| "spec_list core (LGet a i) xs = (make_option core (map_option ((!) xs) (indexed i xs)), xs)"
| "spec_list core (LHead a) xs = (make_option core (if xs = [] then None else Some (hd xs)), xs)"
| "spec_list core (LTail a) xs = (Inr (RList (tl xs)), xs)"
| "spec_list core (LLast a) xs = (make_option core (if xs = [] then None else Some (last xs)), xs)"
| "spec_list core (LPop a) xs = (make_option core (if xs = [] then None else Some (last xs)), butlast xs)"
| "spec_list core (LIndex a i) xs =
     (case indexed i xs of Some k \<Rightarrow> Inr (xs ! k) | None \<Rightarrow> out_of_bounds i xs, xs)"
| "spec_list core _ xs = (Inr RUnit, xs)"

definition spec_lists :: "CoreOption \<Rightarrow> ListCall \<Rightarrow> lists \<Rightarrow> ((RuntimeError + RVal) \<times> lists) option" where
  "spec_lists core c h =
     (case c of
        LNew \<Rightarrow> Some (Inr (RMutableList (length h)), h @ [[]])
      | LFromList xs \<Rightarrow> Some (Inr (RMutableList (length h)), h @ [xs])
      | _ \<Rightarrow> map_option (\<lambda>xs. map_prod id (\<lambda>ys. h[address c := ys]) (spec_list core c xs)) (arena_get h (address c)))"

section \<open>The refinement\<close>

definition lists_ok :: "MutableListStorage list \<Rightarrow> bool" where
  "lists_ok h \<longleftrightarrow> list_all list_ok h"

lemmas list_ops = mutable_list_new_def mutable_list_from_list_def mutable_list_push_def mutable_list_insert_def
  mutable_list_extend_def mutable_list_len_def mutable_list_is_empty_def mutable_list_set_def mutable_list_delete_at_def
  mutable_list_remove_at_def mutable_list_reverse_def mutable_list_to_list_def mutable_list_get_def mutable_list_head_def
  mutable_list_tail_def mutable_list_last_def mutable_list_pop_def index_mutable_list_def

lemmas list_effects = pop_arg_def arg_at_def as_mutable_list_def as_list_def as_int_def check_index_def andthen_def
  panicking_def raise_def ret_def read_list_def write_list_def on_list_def modify_list_def change_list_def arena_get_def

text \<open>The answer of a call and the new storage of its list.\<close>

definition acts :: "MutableListStorage list \<Rightarrow> nat \<Rightarrow> ('s, RVal) list_eff \<Rightarrow> (RuntimeError + RVal) \<times> RVal list \<Rightarrow> bool" where
  "acts h a m rx \<longleftrightarrow>
     (\<forall>s. \<exists>st. m (s, h) = Some (fst rx, s, h[a := st]) \<and> list_ok st \<and> list_of st = snd rx)"

lemma acts_change:
  assumes "a < length h" and "stores (f (h ! a)) xs"
  shows "acts h a (change_list a f) (Inr (RMutableList a), xs)"
  using assms by (auto simp: acts_def stores_def list_effects)

lemma acts_read:
  assumes "a < length h" and "list_ok (h ! a)" and "\<And>s. m (s, h) = Some (r, s, h)" and "xs = list_of (h ! a)"
  shows "acts h a m (r, xs)"
  using assms by (auto simp: acts_def intro!: exI[of _ "h ! a"])

lemma from_result_eq: "from_result r s = Some (r, s)"
  by (cases r) (simp_all add: raise_def ret_def)

lemma arg_at_simps [simp]: "arg_at (v # vs) 0 f = f v" "arg_at (v # vs) (Suc n) f = arg_at vs n f"
  by (rule ext, simp add: arg_at_def andthen_def panicking_def arena_get_def)+

lemmas list_args = list_ops pop_arg_def as_mutable_list_def as_list_def as_int_def

text \<open>A call behind the check of its index.\<close>

lemma acts_checked:
  assumes "a < length h" and "list_ok (h ! a)"
    and "0 \<le> sint i \<Longrightarrow> nat (sint i) < bound \<Longrightarrow> acts h a (f (nat (sint i))) rx"
    and "\<not> (0 \<le> sint i \<and> nat (sint i) < bound) \<Longrightarrow> rx = (out_of_bounds i (list_of (h ! a)), list_of (h ! a))"
    and "\<And>n. n = length (list_of (h ! a)) \<Longrightarrow> b n = bound"
  shows "acts h a (andthen (read_list a) (\<lambda>st. check_index i (b (list_len st)) (list_len st) f)) rx"
proof (cases "0 \<le> sint i \<and> nat (sint i) < bound")
  case True
  then show ?thesis
    using assms(1,3) assms(5)[OF refl] by (auto simp: acts_def list_effects list_reads[OF assms(2)])
next
  case False
  have "acts h a (andthen (read_list a) (\<lambda>st. check_index i (b (list_len st)) (list_len st) f))
      (out_of_bounds i (list_of (h ! a)), list_of (h ! a))"
    using False assms(1) assms(5)[OF refl]
    by (intro acts_read[OF assms(1,2)]) (auto simp: list_effects list_reads[OF assms(2)] out_of_bounds_def)
  with assms(4)[OF False] show ?thesis
    by simp
qed

lemma indexed_cases:
  "0 \<le> sint i \<and> nat (sint i) < length xs \<Longrightarrow> indexed i xs = Some (nat (sint i))"
  "\<not> (0 \<le> sint i \<and> nat (sint i) < length xs) \<Longrightarrow> indexed i xs = None"
  by (auto simp: indexed_def)

lemma call_acts:
  assumes "a < length h" and "list_ok (h ! a)" and "address c = a" and "\<not> is_new c"
  shows "acts h a (list_call core c) (spec_list core c (list_of (h ! a)))"
proof -
  let ?xs = "list_of (h ! a)"
  note here = assms(1,2)
  note reads = list_reads[OF here(2)] and change = acts_change[OF here(1)] and checked = acts_checked[OF here]
    and read = acts_read[OF here]
  show ?thesis
  proof (cases c)
    case (LPush b v)
    then show ?thesis
      using change[of "list_push v", OF list_push_ok[OF here(2)]] assms(3) by (simp add: list_args)
  next
    case (LInsert b i v)
    have "acts h a (andthen (read_list a) (\<lambda>st. check_index i (Suc (list_len st)) (list_len st) (\<lambda>k. change_list a (list_insert k v))))
        (spec_list core (LInsert a i v) ?xs)"
    proof (rule checked[of i "Suc (length ?xs)"])
      assume "0 \<le> sint i" "nat (sint i) < Suc (length ?xs)"
      then show "acts h a (change_list a (list_insert (nat (sint i)) v)) (spec_list core (LInsert a i v) ?xs)"
        using change[of "list_insert (nat (sint i)) v", OF list_insert_ok[OF here(2)]] by simp
    qed auto
    then show ?thesis
      using LInsert assms(3) by (simp add: list_args)
  next
    case (LExtend b vs)
    then show ?thesis
      using change[of "list_extend vs", OF list_extend_ok[OF here(2)]] assms(3) by (simp add: list_args)
  next
    case (LSet b i v)
    then show ?thesis
      using assms(3) checked[of i "length ?xs" "\<lambda>k. change_list a (list_set k v)" "spec_list core c ?xs" "\<lambda>n. n"]
        change[of "list_set (nat (sint i)) v", OF list_set_ok[OF here(2)]]
      by (auto simp: list_args indexed_def)
  next
    case (LDeleteAt b i)
    then show ?thesis
      using assms(3) checked[of i "length ?xs" "\<lambda>k. change_list a (list_delete_at k)" "spec_list core c ?xs" "\<lambda>n. n"]
        change[of "list_delete_at (nat (sint i))", OF list_remove_ok(2)[OF here(2)]]
      by (auto simp: list_args indexed_def)
  next
    case (LRemoveAt b i)
    have removed: "acts h a (modify_list a (list_remove_at k)) (Inr (?xs ! k), take k ?xs @ drop (Suc k) ?xs)"
      if "k < length ?xs" for k
      using here(1) list_remove_ok(1)[OF here(2) that] by (auto simp: acts_def list_effects)
    show ?thesis
      using removed[of "nat (sint i)"] LRemoveAt assms(3) checked[of i "length ?xs" "\<lambda>k. modify_list a (list_remove_at k)" "spec_list core c ?xs" "\<lambda>n. n"]
      by (auto simp: list_args indexed_def)
  next
    case (LReverse b)
    then show ?thesis
      using change[of list_reverse, OF list_reverse_ok[OF here(2)]] assms(3) by (simp add: list_args)
  next
    case (LPop b)
    obtain st' where "list_pop (h ! a) = Some (if ?xs = [] then None else Some (last ?xs), st')" "list_ok st'" "list_of st' = butlast ?xs"
      using list_pop_ok[OF here(2)] .
    then show ?thesis
      using LPop here assms(3) by (auto simp: list_args list_effects acts_def from_result_eq)
  next
    case (LGet b i)
    then show ?thesis
      using here assms(3)
      by (auto simp: list_args list_effects reads from_result_eq indexed_def make_option_def intro!: read)
  next
    case (LIndex b i)
    then show ?thesis
      using here assms(3)
      by (auto simp: list_args list_effects reads indexed_def out_of_bounds_def intro!: read)
  qed (use assms in \<open>auto simp: list_args list_effects reads from_result_eq hd_conv_nth drop_Suc intro!: read\<close>)
qed

text \<open>
  C31. Mutable lists are lists of values: every sequence of the calls that run no interpreted code on
  shared mutable lists (new, from_list, push, insert, extend, len, is_empty, set, delete_at, remove_at,
  reverse, to_list, get, head, tail, last, pop and indexing) gives the answers and errors that the operations
  on plain lists give, whether a list holds booleans in packed form, anything else, or changes from one to the
  other.  The calls that run interpreted code, \<open>update\<close>, \<open>sort\<close>, \<open>sort_by\<close> and \<open>binary_search\<close>, are not among
  them.
\<close>

theorem mutable_lists_refine: "answers (run_list core) calls [] = answers (spec_lists core) calls []"
proof -
  have "answers (run_list core) calls [] = answers (spec_lists core) calls (map list_of [])"
  proof (rule answers_simulation[where ok = lists_ok])
    fix c h assume ok: "lists_ok h"
    have new: "\<exists>st. storage_from_items xs = Some st \<and> list_ok st \<and> list_of st = xs" for xs
      using storage_from_items_ok[of xs] by (simp add: stores_def)
    consider xs where "c = LNew \<and> xs = [] \<or> c = LFromList xs" | "\<not> is_new c"
      by (cases c) auto
    then have "spec_lists core c (map list_of h) = map_option (map_prod id (map list_of)) (run_list core c h) \<and>
      (\<forall>out h'. run_list core c h = Some (out, h') \<longrightarrow> lists_ok h')"
    proof cases
      case 1
      then show ?thesis
        using new[of xs] ok
        by (auto simp: spec_lists_def run_list_def list_args list_effects alloc_list_def lists_ok_def)
    next
      case 2
      let ?a = "address c"
      have spec: "spec_lists core c hs =
          map_option (\<lambda>xs. map_prod id (\<lambda>ys. hs[?a := ys]) (spec_list core c xs)) (arena_get hs ?a)" for hs
        using 2 by (cases c) (simp_all add: spec_lists_def)
      show ?thesis
      proof (cases "?a < length h")
        case True
        then have "list_ok (h ! ?a)"
          using ok by (simp add: lists_ok_def list_all_length)
        moreover obtain r ys where ry: "spec_list core c (list_of (h ! ?a)) = (r, ys)"
          by fastforce
        ultimately obtain st where st: "list_call core c ((), h) = Some (r, (), h[?a := st])" "list_ok st" "list_of st = ys"
          using call_acts[OF True _ refl 2, of core] unfolding acts_def by (metis fst_conv snd_conv)
        then have "lists_ok (h[?a := st])"
          using ok by (auto simp: lists_ok_def list_all_iff dest!: set_update_subset_insert[THEN subsetD])
        then show ?thesis
          using True st by (simp add: spec run_list_def arena_get_def ry map_update)
      next
        case False
        then show ?thesis
          using 2 by (simp add: spec run_list_def arena_get_def)
      qed
    qed
    then show "spec_lists core c (map list_of h) = map_option (map_prod id (map list_of)) (run_list core c h)"
      and "\<And>out h'. run_list core c h = Some (out, h') \<Longrightarrow> lists_ok h'"
      by blast+
  qed (simp add: lists_ok_def)
  then show ?thesis
    by simp
qed

section \<open>Updates by code that changes the list\<close>

lemma extend_bools_bits:
  assumes "length (bl_words b) = bitset_word_len (bl_len b)"
  obtains b' where "extend_bools vs b = Some b'" and "bl_len b' = bl_len b + length vs"
    and "\<And>j. bit_at (bl_words b') j \<longleftrightarrow>
      (bl_len b \<le> j \<and> j < bl_len b + length vs \<and> vs ! (j - bl_len b)) \<or> bit_at (bl_words b) j"
  using assms
proof (induction vs arbitrary: b thesis)
  case (Cons v vs)
  obtain b1 where b1: "bool_list_push v b = Some b1" "bl_len b1 = Suc (bl_len b)"
      "length (bl_words b1) = bitset_word_len (bl_len b1)"
      "\<And>j. bit_at (bl_words b1) j \<longleftrightarrow> (v \<and> j = bl_len b) \<or> bit_at (bl_words b) j"
    using bool_list_push_bits[OF Cons.prems(2), of v] by blast
  obtain b2 where "extend_bools vs b1 = Some b2" "bl_len b2 = bl_len b1 + length vs"
      "\<And>j. bit_at (bl_words b2) j \<longleftrightarrow>
        (bl_len b1 \<le> j \<and> j < bl_len b1 + length vs \<and> vs ! (j - bl_len b1)) \<or> bit_at (bl_words b1) j"
    using Cons.IH[OF _ b1(3)] by blast
  with b1 show ?case
    by (intro Cons.prems(1)[of b2]) (auto simp: nth_Cons' Suc_diff_le le_Suc_eq Suc_le_eq)
next
  case Nil
  then show ?case
    by (intro Nil.prems(1)[of b]) auto
qed

text \<open>A bit that is set behind the end of a packed list, but in one of its words, comes back when the list grows.\<close>

lemma set_behind_end:
  assumes ok: "bools_ok b" "bl_len b \<le> k" and word: "k div 64 < length (bl_words b)"
  shows "\<exists>b'. list_set k (RBool True) (BoolItems b) = Some (BoolItems b') \<and> bools_of b' = bools_of b \<and>
    (\<forall>vs. k < bl_len b + length vs \<longrightarrow>
      (\<exists>st. list_extend (map RBool vs) (BoolItems b') = Some st \<and> list_of st = map RBool ((bools_of b @ vs)[k := True])))"
proof (rule exI, intro conjI allI impI)
  let ?b = "b\<lparr>bl_words := (bl_words b)[k div 64 := bl_words b ! (k div 64) OR 2 ^ (k mod 64)]\<rparr>"
  have bits: "bit_at (bl_words ?b) j \<longleftrightarrow> j = k \<or> bit_at (bl_words b) j" for j
    using bit_at_set_bit(1)[OF word, of j] by simp
  show "list_set k (RBool True) (BoolItems b) = Some (BoolItems ?b)"
    using word by (simp add: bool_list_set_def Let_def update_word_def arena_get_def)
  show "bools_of ?b = bools_of b"
    using ok(2) bits by (intro bools_eqI) auto
  fix vs :: "bool list" assume k: "k < bl_len b + length vs"
  have "length (bl_words ?b) = bitset_word_len (bl_len ?b)"
    using ok(1) by (simp add: bools_ok_def)
  then obtain b2 where b2: "extend_bools vs ?b = Some b2" "bl_len b2 = bl_len b + length vs"
      "\<And>j. bit_at (bl_words b2) j \<longleftrightarrow>
        (bl_len b \<le> j \<and> j < bl_len b + length vs \<and> vs ! (j - bl_len b)) \<or> bit_at (bl_words ?b) j"
    using extend_bools_bits[of ?b vs] by auto
  have "bools_of b2 = (bools_of b @ vs)[k := True]"
  proof (rule bools_eqI)
    fix j assume "j < bl_len b2"
    moreover have "bit_at (bl_words b) j \<Longrightarrow> j < bl_len b"
      using ok(1) by (simp add: bools_ok_def)
    moreover have "bit_at (bl_words b2) j \<longleftrightarrow>
        (bl_len b \<le> j \<and> j < bl_len b + length vs \<and> vs ! (j - bl_len b)) \<or> j = k \<or> bit_at (bl_words b) j"
      by (simp only: b2(3) bits)
    ultimately show "bit_at (bl_words b2) j = (bools_of b @ vs)[k := True] ! j"
      using ok(2) b2(2) k by (cases "j = k"; cases "j < bl_len b") (auto simp: nth_append)
  qed (simp add: b2(2))
  moreover have "vs \<noteq> []"
    using k ok(2) by auto
  moreover have "those_opt (map as_bool (map RBool vs)) = Some vs"
    by (simp only: as_bools)
  ultimately show "\<exists>st. list_extend (map RBool vs) (BoolItems ?b) = Some st \<and>
      list_of st = map RBool ((bools_of b @ vs)[k := True])"
    using b2(1) by (simp del: map_map)
qed

text \<open>
  C32. When the function given to \<open>update\<close> shortens the list, the index that was checked before is stale.
  A list in the plain form panics, whatever the function returns.  A list of booleans that still has the
  word of that index accepts the value and keeps its content, but a true value stays set behind the end:
  however the list is extended by booleans afterwards, the item at that index is read as true.
\<close>

theorem update_behind_end:
  assumes "a < length h" and "list_ok (h ! a)" and "0 \<le> sint i" and "nat (sint i) = k" and "k < length (list_of (h ! a))"
    and "call f [list_of (h ! a) ! k] (s, h) = Some (Inr v, s', h')"
    and "a < length h'" and "list_ok (h' ! a)" and "length (list_of (h' ! a)) \<le> k"
  shows "(\<forall>ys. h' ! a = GenericItems ys \<longrightarrow> mutable_list_update call [RMutableList a, RInt i, f] (s, h) = None) \<and>
    (\<forall>b. h' ! a = BoolItems b \<longrightarrow> v = RBool True \<longrightarrow> k div 64 < length (bl_words b) \<longrightarrow>
      (\<exists>b'. mutable_list_update call [RMutableList a, RInt i, f] (s, h) =
          Some (Inr (RMutableList a), s', h'[a := BoolItems b']) \<and>
        bools_of b' = bools_of b \<and>
        (\<forall>vs. k < bl_len b + length vs \<longrightarrow>
          (\<exists>st. list_extend (map RBool vs) (BoolItems b') = Some st \<and>
             list_of st = map RBool ((bools_of b @ vs)[k := True])))))"
proof -
  have cell: "arena_get h a = Some (h ! a)" "arena_get h' a = Some (h' ! a)"
    using assms(1,7) by (simp_all add: arena_get_def)
  have update: "mutable_list_update call [RMutableList a, RInt i, f] (s, h) =
      map_option (\<lambda>st. (Inr (RMutableList a), s', h'[a := st])) (list_set k v (h' ! a))"
    using assms(3-6) cell list_reads[OF assms(2)]
    by (cases "list_set k v (h' ! a)") (simp_all add: mutable_list_update_def list_args list_effects arena_get_def)
  have "mutable_list_update call [RMutableList a, RInt i, f] (s, h) = None" if "h' ! a = GenericItems ys" for ys
    using assms(9) that by (simp add: update vec_set_def)
  moreover have "\<exists>b'. mutable_list_update call [RMutableList a, RInt i, f] (s, h) =
          Some (Inr (RMutableList a), s', h'[a := BoolItems b']) \<and> bools_of b' = bools_of b \<and>
        (\<forall>vs. k < bl_len b + length vs \<longrightarrow>
          (\<exists>st. list_extend (map RBool vs) (BoolItems b') = Some st \<and>
             list_of st = map RBool ((bools_of b @ vs)[k := True])))"
    if b: "h' ! a = BoolItems b" "v = RBool True" "k div 64 < length (bl_words b)" for b
  proof -
    have "bools_ok b" "bl_len b \<le> k"
      using assms(8,9) b(1) by simp_all
    then obtain b' where b': "list_set k v (h' ! a) = Some (BoolItems b')" "bools_of b' = bools_of b"
        "\<forall>vs. k < bl_len b + length vs \<longrightarrow> (\<exists>st. list_extend (map RBool vs) (BoolItems b') = Some st \<and>
           list_of st = map RBool ((bools_of b @ vs)[k := True]))"
      using set_behind_end[OF _ _ b(3)] unfolding b(1,2) by blast
    then show ?thesis
      by (intro exI[of _ b'] conjI) (simp_all only: update option.map)
  qed
  ultimately show ?thesis
    by blast
qed

text \<open>The second of two true values is updated by a function that first removes the last item.\<close>

definition popping :: "RVal \<Rightarrow> unit caller" where
  "popping v f args = andthen (modify_list 0 list_pop) (\<lambda>_. ret v)"

definition two_bools :: BoolListValue where
  "two_bools = \<lparr>bl_len = 2, bl_words = [3]\<rparr>"

definition one_bool :: BoolListValue where
  "one_bool = \<lparr>bl_len = 1, bl_words = [1]\<rparr>"

theorem update_behind_end_witness:
  "\<exists>b'. mutable_list_update (popping (RBool True)) [RMutableList 0, RInt 1, RFn 0] ((), [BoolItems two_bools]) =
      Some (Inr (RMutableList 0), (), [BoolItems b']) \<and>
    bools_of b' = [True] \<and>
    (\<exists>st. list_extend [RBool False] (BoolItems b') = Some st \<and> list_of st = [RBool True, RBool True])"
proof -
  have "bools_ok b" if "bl_len b \<le> 2" "bl_words b = [mask (bl_len b)]" "0 < bl_len b" for b
    using that by (auto simp: bools_ok_def word_len_eq bit_at_def bit_mask_iff)
  then have ok: "bools_ok two_bools" "bools_ok one_bool"
    by (simp_all add: two_bools_def one_bool_def mask_eq_exp_minus_1)
  have content: "bools_of two_bools = [True, True]" "bools_of one_bool = [True]"
    by code_simp+
  have call: "popping (RBool True) (RFn 0) [list_of (BoolItems two_bools) ! 1] ((), [BoolItems two_bools]) =
      Some (Inr (RBool True), (), [BoolItems one_bool])"
    by code_simp
  have len: "bl_len one_bool = 1" "length (bl_words one_bool) = 1"
    by (simp_all add: one_bool_def)
  from update_behind_end[of 0 "[BoolItems two_bools]" 1 1 "popping (RBool True)" "RFn 0" "()" "RBool True" "()" "[BoolItems one_bool]"]
  have "\<exists>b'. mutable_list_update (popping (RBool True)) [RMutableList 0, RInt 1, RFn 0] ((), [BoolItems two_bools]) =
      Some (Inr (RMutableList 0), (), [BoolItems b']) \<and> bools_of b' = [True] \<and>
      (\<forall>vs. 1 < 1 + length vs \<longrightarrow> (\<exists>st. list_extend (map RBool vs) (BoolItems b') = Some st \<and>
         list_of st = map RBool (([True] @ vs)[1 := True])))"
    using ok content call len by simp
  then obtain b' where b': "mutable_list_update (popping (RBool True)) [RMutableList 0, RInt 1, RFn 0] ((), [BoolItems two_bools]) =
      Some (Inr (RMutableList 0), (), [BoolItems b'])" "bools_of b' = [True]"
      "\<forall>vs. 1 < 1 + length vs \<longrightarrow> (\<exists>st. list_extend (map RBool vs) (BoolItems b') = Some st \<and>
         list_of st = map RBool (([True] @ vs)[1 := True]))"
    by blast
  with spec[OF b'(3), of "[False]"] show ?thesis
    by auto
qed

section \<open>Binary search\<close>

text \<open>An index of an equal item, or the place to insert it, encoded as a negative number.\<close>

definition search_result :: "RVal comparator \<Rightarrow> RVal list \<Rightarrow> RVal \<Rightarrow> 64 word \<Rightarrow> bool" where
  "search_result c xs x r \<longleftrightarrow>
     (if 0 \<le> sint r then nat (sint r) < length xs \<and> compare c (xs ! nat (sint r)) x = Equiv
      else let p = nat (- sint r - 1)
           in p \<le> length xs \<and> list_all (\<lambda>y. compare c y x = Less) (take p xs) \<and>
              list_all (\<lambda>y. compare c y x = Greater) (drop p xs))"

lemma sint_in_range: "- (2 ^ 63) \<le> k \<Longrightarrow> k < 2 ^ 63 \<Longrightarrow> sint (word_of_int k :: 64 word) = k"
  by (simp add: sint_sbintrunc' signed_take_bit_int_eq_self)

lemma search_found:
  assumes "m < length xs" and "length xs < 2 ^ 63" and "compare c (xs ! m) x = Equiv"
  shows "search_result c xs x (of_nat m)"
proof -
  have "sint (of_nat m :: 64 word) = int m"
    using sint_in_range[of "int m"] assms(1,2) by simp
  with assms show ?thesis
    by (simp add: search_result_def)
qed

lemma search_missing:
  assumes "p \<le> length xs" and "length xs < 2 ^ 63" and "\<And>k. k < p \<Longrightarrow> compare c (xs ! k) x = Less"
    and "\<And>k. p \<le> k \<Longrightarrow> k < length xs \<Longrightarrow> compare c (xs ! k) x = Greater"
  shows "search_result c xs x (- of_nat p - 1)"
proof -
  have "sint (- of_nat p - 1 :: 64 word) = - int p - 1"
    using sint_in_range[of "- int p - 1"] assms(1,2) by simp
  with assms show ?thesis
    by (simp add: search_result_def list_all_length)
qed

lemma binary_search_loop_result:
  assumes "\<And>y s. \<exists>n s'. cmp y x s = Some (Inr n, s') \<and> int_ordering n = compare c y x"
    and "sorted_wrt (\<lambda>a b. compare c a b \<noteq> Greater) xs" and "length xs < 2 ^ 63"
    and "hi \<le> length xs" and "lo \<le> hi"
    and "\<And>k. k < lo \<Longrightarrow> compare c (xs ! k) x = Less" and "\<And>k. hi \<le> k \<Longrightarrow> k < length xs \<Longrightarrow> compare c (xs ! k) x = Greater"
  shows "\<exists>r s'. binary_search_loop cmp xs x lo hi s = Some (Inr r, s') \<and> search_result c xs x r"
  using assms(4-)
proof (induction "hi - lo" arbitrary: lo hi s rule: less_induct)
  case less
  show ?case
  proof (cases "lo < hi")
    case False
    with less.prems have "search_result c xs x (- of_nat lo - 1)"
      by (intro search_missing assms(3)) simp_all
    with False show ?thesis
      by (simp add: binary_search_loop.simps[of cmp xs x lo hi] ret_def)
  next
    case True
    let ?mid = "lo + (hi - lo) div 2"
    have mid: "lo \<le> ?mid" "?mid < hi" "?mid < length xs"
      using True less.prems(1) by simp_all
    obtain n s' where n: "cmp (xs ! ?mid) x s = Some (Inr n, s')" "int_ordering n = compare c (xs ! ?mid) x"
      using assms(1) by blast
    have step: "binary_search_loop cmp xs x lo hi s =
      (case compare c (xs ! ?mid) x of
         Less \<Rightarrow> binary_search_loop cmp xs x (?mid + 1) hi s'
       | Greater \<Rightarrow> binary_search_loop cmp xs x lo ?mid s'
       | Equiv \<Rightarrow> Some (Inr (of_nat ?mid), s'))"
      using True mid(3) n
      by (simp add: binary_search_loop.simps[of cmp xs x lo hi] Let_def andthen_def panicking_def arena_get_def ret_def split: comp.splits)
    have sorted: "compare c (xs ! i) (xs ! j) \<noteq> Greater" if "i < j" "j < length xs" for i j
      using sorted_wrt_nth_less[OF assms(2) that] .
    show ?thesis
    proof (cases "compare c (xs ! ?mid) x")
      case Less
      have "compare c (xs ! k) x = Less" if "k < ?mid + 1" for k
      proof (cases "k = ?mid")
        case False
        then have "compare c (xs ! k) (xs ! ?mid) \<noteq> Greater"
          using sorted[of k ?mid] that mid by simp
        with Less show ?thesis
          by (cases "compare c (xs ! k) (xs ! ?mid)") (auto intro: compare.trans_less compare.trans_equiv_less)
      qed (use Less in simp)
      then show ?thesis
        using less.hyps[of hi "?mid + 1" s'] less.prems mid Less step by simp
    next
      case Equiv
      with mid(3) have "search_result c xs x (of_nat ?mid)"
        by (intro search_found assms(3))
      with Equiv step show ?thesis by simp
    next
      case Greater
      have "compare c (xs ! k) x = Greater" if "?mid \<le> k" "k < length xs" for k
      proof (cases "k = ?mid")
        case False
        then have "compare c (xs ! ?mid) (xs ! k) \<noteq> Greater"
          using sorted[of ?mid k] that by simp
        then have "compare c (xs ! k) (xs ! ?mid) \<noteq> Less"
          by (simp add: compare.greater_iff_sym_less)
        with Greater show ?thesis
          by (cases "compare c (xs ! k) (xs ! ?mid)") (auto intro: compare.trans_greater compare.trans_equiv_greater)
      qed (use Greater in simp)
      then show ?thesis
        using less.hyps[of ?mid lo s'] less.prems mid Greater step by simp
    qed
  qed
qed

text \<open>
  C33. Binary search on a mutable list that is sorted for a comparison that does not fail: it returns, and
  a result that is not negative is the index of an equal item, a negative result encodes the place
  before which all items are less and behind which all are greater.
\<close>

theorem binary_search_correct:
  assumes "\<And>y s. \<exists>n s'. cmp y x s = Some (Inr n, s') \<and> int_ordering n = compare c y x"
    and "lists_ok h" and "a < length h" and "list_of (h ! a) = xs"
    and "sorted_wrt (\<lambda>y z. compare c y z \<noteq> Greater) xs" and "length xs < 2 ^ 63"
  shows "\<exists>r s'. mutable_list_binary_search cmp [RMutableList a, x] (s, h) = Some (Inr (RInt r), s') \<and>
    search_result c xs x r"
proof -
  have "list_ok (h ! a)"
    using assms(2,3) by (simp add: lists_ok_def list_all_length)
  then have snap: "list_snapshot (h ! a) = Some xs"
    using assms(4) by (simp add: list_reads)
  obtain r s' where "binary_search_loop cmp xs x 0 (length xs) (s, h) = Some (Inr r, s')" "search_result c xs x r"
    using binary_search_loop_result[where cmp = cmp and x = x and c = c, OF assms(1,5,6), of "length xs" 0 "(s, h)"] by auto
  with snap assms(3) show ?thesis
    by (simp add: mutable_list_binary_search_def list_args list_effects)
qed

text \<open>Integers by their value.\<close>

definition int_key :: "RVal \<Rightarrow> int" where
  "int_key v = (case v of RInt i \<Rightarrow> sint i | _ \<Rightarrow> 0)"

definition compare_ints :: "RVal \<Rightarrow> RVal \<Rightarrow> (unit, 64 word) list_eff" where
  "compare_ints x y = ret (if int_key x < int_key y then - 1 else if int_key y < int_key x then 1 else 0)"

theorem binary_search_correct_witness:
  "\<exists>r s'. mutable_list_binary_search compare_ints [RMutableList 0, RInt 3] ((), [GenericItems [RInt 1, RInt 3, RInt 5]])
       = Some (Inr (RInt r), s') \<and>
     search_result (key int_key default) [RInt 1, RInt 3, RInt 5] (RInt 3) r"
proof (rule binary_search_correct)
  have compare_int: "compare default p q = (if p < q then Less else if q < p then Greater else Equiv)" for p q :: int
    by simp
  show "\<exists>n s'. compare_ints y (RInt 3) s = Some (Inr n, s') \<and> int_ordering n = compare (key int_key default) y (RInt 3)" for y s
    by (cases s) (simp add: compare_ints_def ret_def int_ordering_def compare_int)
  show "sorted_wrt (\<lambda>y z. compare (key int_key default) y z \<noteq> Greater) [RInt 1, RInt 3, RInt 5]"
    by (simp add: int_key_def)
qed (simp_all add: lists_ok_def)

end
