(* ===== verification/Runtime.thy ===== *)
theory Runtime
  imports Seq
begin

text \<open>
  The runtime behind effects: \<open>runtime/src/replay.rs\<close> and \<open>runtime/src/service.rs\<close> with the part of the
  interpreter that uses them (\<open>eval/src/interpreter.rs\<close>, \<open>eval/src/runtime.rs\<close>, \<open>eval/src/manifest.rs\<close>).
  A live runtime performs effects on the host and may log them; a replay runtime answers from such a
  log.  The host, JSON values (\<open>serde_json\<close>), the encoding of log lines and the hashing of files are
  arguments.
\<close>

section \<open>Log lines\<close>

datatype RequiredByKind = Builtin | UserFn

datatype EffectKind = Read | Write

datatype CapabilityOutcome = Allowed | Denied

datatype EffectOutcomeKind = OutcomeOk | OutcomeCapabilityDenied | OutcomeRuntimeError

record ProgramFingerprintEntry =
  fp_path :: string
  fp_sha256 :: string

record ReplayHeader =
  schema_version :: "32 word"
  runtime :: string
  entry_file :: string
  project_mode :: bool
  program_fingerprint :: "ProgramFingerprintEntry list"

record CapabilityCheckEvent =
  ce_seq :: "64 word"
  ce_capability :: string
  ce_required_by_kind :: RequiredByKind
  ce_required_by_name :: string
  ce_outcome :: CapabilityOutcome

record 'j EffectCallOutcome =
  out_kind :: EffectOutcomeKind
  out_value :: 'j
  out_message :: "string option"

record 'j EffectCallEvent =
  ee_seq :: "64 word"
  ee_capability :: string
  ee_operation :: string
  ee_effect_kind :: EffectKind
  ee_required_by_name :: string
  ee_input :: 'j
  ee_outcome :: "'j EffectCallOutcome"

datatype 'j ReplayLogLine =
    LineHeader ReplayHeader
  | LineCapabilityCheck CapabilityCheckEvent
  | LineEffectCall "'j EffectCallEvent"

section \<open>Writing and reading a log\<close>

text \<open>
  A log file behind its \<open>BufWriter\<close>: what the file holds, what is buffered, and the outcomes of the
  writes to come.  A write fails after a number of characters of the line have gone into the buffer
  and a number of characters of the buffer into the file; what is left in the buffer goes out with the
  next write.
\<close>

record LogFile =
  log_contents :: rstr
  log_buffer :: rstr
  log_faults :: "(nat \<times> nat \<times> string) option list"

type_synonym 'j encoder = "'j ReplayLogLine \<Rightarrow> rstr"
type_synonym 'j decoder = "rstr \<Rightarrow> string + 'j ReplayLogLine"

definition write_line :: "'j encoder \<Rightarrow> 'j ReplayLogLine \<Rightarrow> LogFile \<Rightarrow> (string + unit) \<times> LogFile" where
  "write_line enc line f =
     (let out = enc line @ [newline]
      in case log_faults f of
           Some (accepted, flushed, e) # fs \<Rightarrow>
             let pending = log_buffer f @ take accepted out
             in (Inl e, f\<lparr>log_contents := log_contents f @ take flushed pending, log_buffer := drop flushed pending, log_faults := fs\<rparr>)
         | fs \<Rightarrow> (Inr (), f\<lparr>log_contents := log_contents f @ log_buffer f @ out, log_buffer := [], log_faults := tl fs\<rparr>))"

datatype ReplayReadError =
    ReadIo string
  | ReadJson string
  | MissingHeader
  | MultipleHeaders
  | UnsupportedSchemaVersion "32 word"
  | UnsupportedRuntime string
  | FingerprintMismatch string

definition is_supported_runtime_name :: "string \<Rightarrow> bool" where
  "is_supported_runtime_name name \<longleftrightarrow> name = ''interpreter'' \<or> name = ''wasm''"

fun read_events :: "'j decoder \<Rightarrow> rstr list \<Rightarrow> ReplayReadError + 'j ReplayLogLine list" where
  "read_events dec [] = Inr []"
| "read_events dec (l # ls) =
     (case dec l of
        Inl e \<Rightarrow> Inl (ReadJson e)
      | Inr (LineHeader _) \<Rightarrow> Inl MultipleHeaders
      | Inr ev \<Rightarrow> map_sum id ((#) ev) (read_events dec ls))"

definition reader_from_contents :: "'j decoder \<Rightarrow> rstr \<Rightarrow> ReplayReadError + ReplayHeader \<times> 'j ReplayLogLine list" where
  "reader_from_contents dec contents =
     (case filter (\<lambda>l. \<not> list_all is_whitespace l) (str_lines contents) of
        [] \<Rightarrow> Inl MissingHeader
      | l # ls \<Rightarrow>
          (case dec l of
             Inl e \<Rightarrow> Inl (ReadJson e)
           | Inr (LineHeader header) \<Rightarrow>
               if schema_version header \<noteq> 1 then Inl (UnsupportedSchemaVersion (schema_version header))
               else if \<not> is_supported_runtime_name (runtime header) then Inl (UnsupportedRuntime (runtime header))
               else map_sum id (Pair header) (read_events dec ls)
           | Inr _ \<Rightarrow> Inl MissingHeader))"

fun verify_program_fingerprint ::
    "(string \<Rightarrow> string + string) \<Rightarrow> ProgramFingerprintEntry list \<Rightarrow> ReplayReadError + unit" where
  "verify_program_fingerprint fingerprint_file [] = Inr ()"
| "verify_program_fingerprint fingerprint_file (entry # es) =
     (case fingerprint_file (fp_path entry) of
        Inl e \<Rightarrow> Inl (ReadIo e)
      | Inr sha \<Rightarrow>
          if sha \<noteq> fp_sha256 entry then Inl (FingerprintMismatch (fp_path entry))
          else verify_program_fingerprint fingerprint_file es)"

section \<open>Requests\<close>

record CapabilityCheck =
  ck_capability :: string
  ck_required_by_kind :: RequiredByKind
  ck_required_by_name :: string

record 'j EffectRequest =
  rq_capability :: string
  rq_operation :: string
  rq_effect_kind :: EffectKind
  rq_required_by_name :: string
  rq_input :: 'j

datatype RuntimeEffectError =
    EffectCapabilityDenied string string
  | OperationFailed string string
  | ReplayLog string

definition fail :: "'e \<Rightarrow> ('s, 'e, 'a) eff" where
  "fail e = (\<lambda>s. Some (Inl e, s))"

section \<open>The live runtime\<close>

text \<open>JSON: \<open>null\<close>, \<open>{}\<close>, an object with one string field, and the string field of an object.\<close>

record 'j Json =
  j_null :: 'j
  j_empty :: 'j
  j_object :: "string \<Rightarrow> rstr \<Rightarrow> 'j"
  j_get_str :: "'j \<Rightarrow> string \<Rightarrow> rstr option"

record 's HostBackend =
  hb_print :: "rstr \<Rightarrow> bool \<Rightarrow> 's \<Rightarrow> (string + unit) \<times> 's"
  hb_read_line :: "'s \<Rightarrow> (string + rstr) \<times> 's"
  hb_read_stdin :: "'s \<Rightarrow> (string + rstr) \<times> 's"
  hb_read_file :: "rstr \<Rightarrow> 's \<Rightarrow> (string + rstr) \<times> 's"
  hb_authorize :: "string \<Rightarrow> 's \<Rightarrow> bool \<times> 's"

record 's LiveRuntime =
  lr_host :: 's
  lr_log :: "LogFile option"
  lr_next_seq :: "64 word"

type_synonym ('s, 'a) live = "('s LiveRuntime, RuntimeEffectError, 'a) eff"

definition live_new ::
    "'j encoder \<Rightarrow> 's \<Rightarrow> ((string + LogFile) \<times> ReplayHeader) option \<Rightarrow> RuntimeEffectError + 's LiveRuntime" where
  "live_new enc host replay =
     (case replay of
        None \<Rightarrow> Inr \<lparr>lr_host = host, lr_log = None, lr_next_seq = 0\<rparr>
      | Some (Inl e, _) \<Rightarrow> Inl (ReplayLog e)
      | Some (Inr file, header) \<Rightarrow>
          (case write_line enc (LineHeader header) file of
             (Inl e, _) \<Rightarrow> Inl (ReplayLog e)
           | (Inr _, file') \<Rightarrow> Inr \<lparr>lr_host = host, lr_log = Some file', lr_next_seq = 0\<rparr>))"

text \<open>Write one event, numbered with the next sequence number.\<close>

definition record_event :: "'j encoder \<Rightarrow> (64 word \<Rightarrow> 'j ReplayLogLine) \<Rightarrow> ('s, unit) live" where
  "record_event enc mk = (\<lambda>s.
     case lr_log s of
       None \<Rightarrow> Some (Inr (), s)
     | Some f \<Rightarrow>
         (case write_line enc (mk (lr_next_seq s)) f of
            (Inl e, f') \<Rightarrow> Some (Inl (ReplayLog e), s\<lparr>lr_log := Some f'\<rparr>)
          | (Inr _, f') \<Rightarrow> Some (Inr (), s\<lparr>lr_log := Some f', lr_next_seq := lr_next_seq s + 1\<rparr>)))"

definition capability_event :: "CapabilityCheck \<Rightarrow> CapabilityOutcome \<Rightarrow> 64 word \<Rightarrow> 'j ReplayLogLine" where
  "capability_event check outcome seq = LineCapabilityCheck
     \<lparr>ce_seq = seq, ce_capability = ck_capability check, ce_required_by_kind = ck_required_by_kind check,
      ce_required_by_name = ck_required_by_name check, ce_outcome = outcome\<rparr>"

definition effect_event :: "'j EffectRequest \<Rightarrow> 'j EffectCallOutcome \<Rightarrow> 64 word \<Rightarrow> 'j ReplayLogLine" where
  "effect_event request outcome seq = LineEffectCall
     \<lparr>ee_seq = seq, ee_capability = rq_capability request, ee_operation = rq_operation request,
      ee_effect_kind = rq_effect_kind request, ee_required_by_name = rq_required_by_name request,
      ee_input = rq_input request, ee_outcome = outcome\<rparr>"

definition record_capability_check :: "'j encoder \<Rightarrow> CapabilityCheck \<Rightarrow> CapabilityOutcome \<Rightarrow> ('s, unit) live" where
  "record_capability_check enc check outcome = record_event enc (capability_event check outcome)"

definition record_effect_call :: "'j encoder \<Rightarrow> 'j EffectRequest \<Rightarrow> 'j EffectCallOutcome \<Rightarrow> ('s, unit) live" where
  "record_effect_call enc request outcome = record_event enc (effect_event request outcome)"

definition denied :: "CapabilityCheck \<Rightarrow> RuntimeEffectError" where
  "denied check = EffectCapabilityDenied (ck_capability check) (ck_required_by_name check)"

definition live_authorize :: "'j encoder \<Rightarrow> 's HostBackend \<Rightarrow> CapabilityCheck \<Rightarrow> ('s, unit) live" where
  "live_authorize enc hb check = (\<lambda>s.
     case hb_authorize hb (ck_capability check) (lr_host s) of
       (allowed, host') \<Rightarrow>
         andthen (record_capability_check enc check (if allowed then Allowed else Denied))
           (\<lambda>_. if allowed then ret () else fail (denied check)) (s\<lparr>lr_host := host'\<rparr>))"

text \<open>The host operation of a request; the outer option is an error that is returned at once.\<close>

definition host_operation ::
    "'j Json \<Rightarrow> 's HostBackend \<Rightarrow> 'j EffectRequest \<Rightarrow> RuntimeEffectError + ('s \<Rightarrow> (string + 'j) \<times> 's)" where
  "host_operation J hb request =
     (let op = rq_operation request;
          text_of = map_sum id (j_object J ''text'')
      in if op = ''print'' \<or> op = ''println'' then
           (case j_get_str J (rq_input request) ''text'' of
              None \<Rightarrow> Inl (OperationFailed op ''missing string payload'')
            | Some text \<Rightarrow> Inr (\<lambda>s. apfst (map_sum id (\<lambda>_. j_null J)) (hb_print hb text (op = ''println'') s)))
         else if op = ''read_line'' then Inr (\<lambda>s. apfst text_of (hb_read_line hb s))
         else if op = ''read_stdin'' then Inr (\<lambda>s. apfst text_of (hb_read_stdin hb s))
         else if op = ''read_file'' then
           (case j_get_str J (rq_input request) ''path'' of
              None \<Rightarrow> Inl (OperationFailed op ''missing path payload'')
            | Some path \<Rightarrow> Inr (\<lambda>s. apfst text_of (hb_read_file hb path s)))
         else Inl (OperationFailed op ''unsupported host effect''))"

definition live_call :: "'j encoder \<Rightarrow> 'j Json \<Rightarrow> 's HostBackend \<Rightarrow> 'j EffectRequest \<Rightarrow> ('s, 'j) live" where
  "live_call enc J hb request =
     (case host_operation J hb request of
        Inl e \<Rightarrow> fail e
      | Inr perform \<Rightarrow> (\<lambda>s.
          case perform (lr_host s) of
            (Inr v, host') \<Rightarrow>
              andthen (record_effect_call enc request \<lparr>out_kind = OutcomeOk, out_value = v, out_message = None\<rparr>)
                (\<lambda>_. ret v) (s\<lparr>lr_host := host'\<rparr>)
          | (Inl message, host') \<Rightarrow>
              andthen (record_effect_call enc request
                  \<lparr>out_kind = OutcomeRuntimeError, out_value = j_null J, out_message = Some message\<rparr>)
                (\<lambda>_. fail (OperationFailed (rq_operation request) message)) (s\<lparr>lr_host := host'\<rparr>)))"

section \<open>The replay runtime\<close>

datatype ReplayMode = ModeReplay | ModeVerify

record 'j ReplayRuntime =
  rr_mode :: ReplayMode
  rr_events :: "'j ReplayLogLine list"
  rr_next_seq :: "64 word"

type_synonym ('j, 'a) replay = "('j ReplayRuntime, RuntimeEffectError, 'a) eff"

definition replay_new :: "ReplayMode \<Rightarrow> 'j ReplayLogLine list \<Rightarrow> 'j ReplayRuntime" where
  "replay_new mode events = \<lparr>rr_mode = mode, rr_events = events, rr_next_seq = 0\<rparr>"

definition from_log_path ::
    "'j decoder \<Rightarrow> (string \<Rightarrow> string + string) \<Rightarrow> rstr \<Rightarrow> ReplayMode \<Rightarrow> ReplayReadError + 'j ReplayRuntime \<times> ReplayHeader" where
  "from_log_path dec fingerprint_file contents mode =
     (case reader_from_contents dec contents of
        Inl e \<Rightarrow> Inl e
      | Inr (header, events) \<Rightarrow>
          map_sum id (\<lambda>_. (replay_new mode events, header))
            (verify_program_fingerprint fingerprint_file (program_fingerprint header)))"

function decimal :: "nat \<Rightarrow> string" where
  "decimal n = (if n < 10 then [char_of (48 + n)] else decimal (n div 10) @ [char_of (48 + n mod 10)])"
  by auto
termination
  by (relation "measure (\<lambda>n. n)") auto

declare decimal.simps [simp del]

definition next_line :: "string \<Rightarrow> ('j, 'j ReplayLogLine) replay" where
  "next_line expected = (\<lambda>s.
     case rr_events s of
       [] \<Rightarrow> Some (Inl (ReplayLog (''missing replay event for '' @ expected)), s)
     | l # ls \<Rightarrow> Some (Inr l, s\<lparr>rr_events := ls\<rparr>))"

definition check_seq :: "64 word \<Rightarrow> ('j, unit) replay" where
  "check_seq seq = (\<lambda>s.
     if seq \<noteq> rr_next_seq s then
       Some (Inl (ReplayLog (''mismatch: expected seq '' @ decimal (unat (rr_next_seq s)) @ '', found '' @ decimal (unat seq))), s)
     else Some (Inr (), s\<lparr>rr_next_seq := rr_next_seq s + 1\<rparr>))"

definition quoted :: "string \<Rightarrow> string" where
  "quoted name = ''`'' @ name @ ''`''"

definition check_capability_event :: "CapabilityCheck \<Rightarrow> CapabilityCheckEvent \<Rightarrow> ('j, unit) replay" where
  "check_capability_event check event =
     andthen (check_seq (ce_seq event)) (\<lambda>_.
       if ce_capability event \<noteq> ck_capability check \<or> ce_required_by_kind event \<noteq> ck_required_by_kind check \<or>
          ce_required_by_name event \<noteq> ck_required_by_name check
       then fail (ReplayLog (''mismatch: capability event did not match replay request for '' @ quoted (ck_required_by_name check)))
       else ret ())"

definition check_effect_event :: "'j EffectRequest \<Rightarrow> 'j EffectCallEvent \<Rightarrow> ('j, unit) replay" where
  "check_effect_event request event =
     andthen (check_seq (ee_seq event)) (\<lambda>_ s.
       (if ee_capability event \<noteq> rq_capability request \<or> ee_operation event \<noteq> rq_operation request \<or>
           ee_effect_kind event \<noteq> rq_effect_kind request \<or> ee_required_by_name event \<noteq> rq_required_by_name request
        then fail (ReplayLog (''mismatch: effect metadata did not match replay request for '' @ quoted (rq_required_by_name request)))
        else if (rq_effect_kind request = Read \<or> rr_mode s = ModeVerify) \<and> ee_input event \<noteq> rq_input request
        then fail (ReplayLog (''mismatch: effect payload did not match replay request for '' @ quoted (rq_required_by_name request)))
        else ret ()) s)"

definition replay_authorize :: "CapabilityCheck \<Rightarrow> ('j, unit) replay" where
  "replay_authorize check =
     andthen (next_line (ck_required_by_name check)) (\<lambda>line.
       case line of
         LineCapabilityCheck event \<Rightarrow>
           andthen (check_capability_event check event) (\<lambda>_.
             case ce_outcome event of Allowed \<Rightarrow> ret () | Denied \<Rightarrow> fail (denied check))
       | _ \<Rightarrow> fail (ReplayLog (''mismatch: expected capability_check event for '' @ quoted (ck_required_by_name check))))"

definition mode_hint :: "ReplayMode \<Rightarrow> string" where
  "mode_hint mode = (case mode of ModeReplay \<Rightarrow> ''replay'' | ModeVerify \<Rightarrow> ''verify'')"

definition replay_call :: "'j EffectRequest \<Rightarrow> ('j, 'j) replay" where
  "replay_call request =
     andthen (next_line (rq_required_by_name request)) (\<lambda>line.
       case line of
         LineEffectCall event \<Rightarrow>
           andthen (check_effect_event request event) (\<lambda>_ s.
             (case out_kind (ee_outcome event) of
                OutcomeOk \<Rightarrow> ret (out_value (ee_outcome event))
              | OutcomeCapabilityDenied \<Rightarrow>
                  fail (EffectCapabilityDenied (rq_capability request) (rq_required_by_name request))
              | OutcomeRuntimeError \<Rightarrow>
                  fail (OperationFailed (rq_operation request)
                    (case out_message (ee_outcome event) of
                       Some m \<Rightarrow> m
                     | None \<Rightarrow> mode_hint (rr_mode s) @ '' runtime error''))) s)
       | _ \<Rightarrow> fail (ReplayLog (''mismatch: expected effect_call event for '' @ quoted (rq_required_by_name request))))"

definition replay_finalize :: "'j ReplayRuntime \<Rightarrow> RuntimeEffectError + unit" where
  "replay_finalize s =
     (if rr_events s = [] then Inr ()
      else Inl (ReplayLog (''unexpected extra replay events: '' @ decimal (length (rr_events s)) @ '' remaining'')))"

section \<open>The interpreter as a client\<close>

text \<open>A service is the pair of operations of \<open>RuntimeService\<close> that a run uses.\<close>

record ('s, 'j) RuntimeService =
  sv_authorize :: "CapabilityCheck \<Rightarrow> ('s, RuntimeEffectError, unit) eff"
  sv_call :: "'j EffectRequest \<Rightarrow> ('s, RuntimeEffectError, 'j) eff"

definition live_service :: "'j encoder \<Rightarrow> 'j Json \<Rightarrow> 's HostBackend \<Rightarrow> ('s LiveRuntime, 'j) RuntimeService" where
  "live_service enc J hb = \<lparr>sv_authorize = live_authorize enc hb, sv_call = live_call enc J hb\<rparr>"

definition replay_service :: "('j ReplayRuntime, 'j) RuntimeService" where
  "replay_service = \<lparr>sv_authorize = replay_authorize, sv_call = replay_call\<rparr>"

definition map_runtime_effect_error :: "RuntimeEffectError \<Rightarrow> RuntimeError" where
  "map_runtime_effect_error err =
     (case err of
        EffectCapabilityDenied capability required_by_name \<Rightarrow> CapabilityDenied capability required_by_name
      | OperationFailed operation message \<Rightarrow> TypeError (operation @ '': '' @ message)
      | ReplayLog message \<Rightarrow> TypeError (''replay log: '' @ message))"

definition map_err :: "('s, RuntimeEffectError, 'a) eff \<Rightarrow> ('s, RuntimeError, 'a) eff" where
  "map_err m = (\<lambda>s. map_option (apfst (map_sum map_runtime_effect_error id)) (m s))"

datatype IntrinsicFn = Print | Println | ReadLine | ReadStdin | ReadFile | PureIntrinsic nat

fun runtime_effect_intrinsic_info :: "IntrinsicFn \<Rightarrow> (string \<times> string \<times> EffectKind) option" where
  "runtime_effect_intrinsic_info Print = Some (''io'', ''io.print'', Write)"
| "runtime_effect_intrinsic_info Println = Some (''io'', ''io.println'', Write)"
| "runtime_effect_intrinsic_info ReadLine = Some (''io'', ''io.read_line'', Read)"
| "runtime_effect_intrinsic_info ReadStdin = Some (''io'', ''io.read_stdin'', Read)"
| "runtime_effect_intrinsic_info ReadFile = Some (''fs'', ''fs.read_file'', Read)"
| "runtime_effect_intrinsic_info (PureIntrinsic _) = None"

definition check_intrinsic_cap :: "('s, 'j) RuntimeService \<Rightarrow> IntrinsicFn \<Rightarrow> ('s, RuntimeError, unit) eff" where
  "check_intrinsic_cap sv intr =
     (case runtime_effect_intrinsic_info intr of
        None \<Rightarrow> ret ()
      | Some (capability, operation, _) \<Rightarrow>
          map_err (sv_authorize sv
            \<lparr>ck_capability = capability, ck_required_by_kind = Builtin, ck_required_by_name = operation\<rparr>))"

definition strip_io :: "string \<Rightarrow> string" where
  "strip_io op = (if take 3 op = ''io.'' then drop 3 op else op)"

text \<open>The request of an effect; \<open>args[0]\<close> panics without arguments.\<close>

definition effect_request ::
    "'j Json \<Rightarrow> IntrinsicFn \<Rightarrow> RVal list \<Rightarrow> string \<Rightarrow> string \<Rightarrow> EffectKind \<Rightarrow> (RuntimeError + 'j EffectRequest) option" where
  "effect_request J intr args capability operation kind =
     (let mk = (\<lambda>op inp. \<lparr>rq_capability = capability, rq_operation = op, rq_effect_kind = kind,
                         rq_required_by_name = operation, rq_input = inp\<rparr>)
      in case intr of
           ReadLine \<Rightarrow> Some (Inr (mk (strip_io operation) (j_empty J)))
         | ReadStdin \<Rightarrow> Some (Inr (mk (strip_io operation) (j_empty J)))
         | ReadFile \<Rightarrow>
             (case args of
                [] \<Rightarrow> None
              | RString path # _ \<Rightarrow> Some (Inr (mk ''read_file'' (j_object J ''path'' path)))
              | _ \<Rightarrow> Some (Inl (TypeError ''read_file expects a String argument'')))
         | _ \<Rightarrow>
             (case args of
                [] \<Rightarrow> None
              | RString text # _ \<Rightarrow> Some (Inr (mk (strip_io operation) (j_object J ''text'' text)))
              | _ \<Rightarrow> Some (Inl (TypeError ((if intr = Print then ''print'' else ''println'') @ '' expects a String argument'')))))"

definition call_runtime_intrinsic ::
    "('s, 'j) RuntimeService \<Rightarrow> 'j Json \<Rightarrow> (nat \<Rightarrow> RVal list \<Rightarrow> (RuntimeError + RVal) option) \<Rightarrow> IntrinsicFn \<Rightarrow> RVal list \<Rightarrow>
      ('s, RuntimeError, RVal) eff" where
  "call_runtime_intrinsic sv J pure_call intr args =
     (case runtime_effect_intrinsic_info intr of
        None \<Rightarrow> (\<lambda>s. map_option (\<lambda>r. (r, s)) (case intr of PureIntrinsic i \<Rightarrow> pure_call i args | _ \<Rightarrow> None))
      | Some (capability, operation, kind) \<Rightarrow>
          (case effect_request J intr args capability operation kind of
             None \<Rightarrow> (\<lambda>_. None)
           | Some (Inl e) \<Rightarrow> fail e
           | Some (Inr request) \<Rightarrow>
               andthen (map_err (sv_call sv request)) (\<lambda>v.
                 if intr = Print \<or> intr = Println then ret RUnit
                 else case j_get_str J v ''text'' of
                     Some text \<Rightarrow> ret (RString text)
                   | None \<Rightarrow> fail (TypeError (operation @ '' returned invalid runtime payload'')))))"

fun ensure_user_fn_caps_allowed ::
    "('s, 'j) RuntimeService \<Rightarrow> (Name \<Rightarrow> string) \<Rightarrow> Name \<Rightarrow> TypeRef list \<Rightarrow> ('s, RuntimeError, unit) eff" where
  "ensure_user_fn_caps_allowed sv resolve fn_name [] = ret ()"
| "ensure_user_fn_caps_allowed sv resolve fn_name (cap_ref # rs) =
     (case (case cap_ref of TRPath path _ \<Rightarrow> last_opt path | _ \<Rightarrow> None) of
        Some name \<Rightarrow>
          andthen (map_err (sv_authorize sv
              \<lparr>ck_capability = resolve name, ck_required_by_kind = UserFn, ck_required_by_name = resolve fn_name\<rparr>))
            (\<lambda>_. ensure_user_fn_caps_allowed sv resolve fn_name rs)
      | None \<Rightarrow> ensure_user_fn_caps_allowed sv resolve fn_name rs)"

section \<open>Capabilities\<close>

record CapabilityGrant =
  allow_domains :: "string list option"
  allow_tables :: "string list option"
  allow_keys :: "string list option"

type_synonym CapabilityManifest = "(string \<times> CapabilityGrant) list"

definition is_granted :: "CapabilityManifest \<Rightarrow> string \<Rightarrow> bool" where
  "is_granted caps cap_name \<longleftrightarrow> map_of caps cap_name \<noteq> None"

fun first_unsupported_constraint :: "CapabilityManifest \<Rightarrow> (string \<times> string) option" where
  "first_unsupported_constraint [] = None"
| "first_unsupported_constraint ((capability, grant) # caps) =
     (if allow_domains grant \<noteq> None then Some (capability, ''allow_domains'')
      else if allow_tables grant \<noteq> None then Some (capability, ''allow_tables'')
      else if allow_keys grant \<noteq> None then Some (capability, ''allow_keys'')
      else first_unsupported_constraint caps)"

definition validate_manifest_constraints :: "CapabilityManifest \<Rightarrow> RuntimeError + unit" where
  "validate_manifest_constraints caps =
     (case first_unsupported_constraint caps of
        Some (capability, fld) \<Rightarrow> Inl (UnsupportedManifestConstraint capability fld)
      | None \<Rightarrow> Inr ())"

text \<open>The authorisation of a live run: everything without a manifest, otherwise what it grants.\<close>

definition manifest_authorize :: "CapabilityManifest option \<Rightarrow> string \<Rightarrow> 's \<Rightarrow> bool \<times> 's" where
  "manifest_authorize manifest capability s =
     ((case manifest of None \<Rightarrow> True | Some caps \<Rightarrow> is_granted caps capability), s)"

end
