(* ===== verification/Runtime_Properties.thy ===== *)
theory Runtime_Properties
  imports Runtime "HOL-Library.Countable"
begin

text \<open>
  A logged run can be replayed: the replay runtime gives a program the answers that the live runtime
  gave it.  A replay that ends without complaint has made the recorded requests.
\<close>

section \<open>Programs that use a service\<close>

text \<open>A program is done, or makes a request and goes on with the answer.\<close>

datatype ('o, 'x, 'r) prog = Done 'r | Do 'o "'x \<Rightarrow> ('o, 'x, 'r) prog"

primrec run_prog :: "('o \<Rightarrow> 's \<Rightarrow> ('x \<times> 's) option) \<Rightarrow> ('o, 'x, 'r) prog \<Rightarrow> 's \<Rightarrow> ('r \<times> 's) option" where
  "run_prog f (Done r) = (\<lambda>s. Some (r, s))"
| "run_prog f (Do op k) = (\<lambda>s. case f op s of None \<Rightarrow> None | Some (x, s') \<Rightarrow> run_prog f (k x) s')"

primrec run_trace :: "('o \<Rightarrow> 's \<Rightarrow> ('x \<times> 's) option) \<Rightarrow> ('o, 'x, 'r) prog \<Rightarrow> 's \<Rightarrow> (('o \<times> 'x) list \<times> 's) option" where
  "run_trace f (Done r) = (\<lambda>s. Some ([], s))"
| "run_trace f (Do op k) = (\<lambda>s. case f op s of None \<Rightarrow> None
     | Some (x, s') \<Rightarrow> map_option (apfst ((#) (op, x))) (run_trace f (k x) s'))"

text \<open>
  A service that writes down what it does, and one that answers from what is written: \<open>ready\<close> holds of
  the recording service, \<open>written s evs s'\<close> when it wrote \<open>evs\<close> between two states, and \<open>at s evs\<close> is the
  answering service that has \<open>evs\<close> in front of it where the recording service was at \<open>s\<close>.
\<close>

locale recording =
  fixes live :: "'o \<Rightarrow> 's \<Rightarrow> ('x \<times> 's) option" and replay :: "'o \<Rightarrow> 't \<Rightarrow> ('x \<times> 't) option"
    and ready :: "'s \<Rightarrow> bool" and written :: "'s \<Rightarrow> 'e list \<Rightarrow> 's \<Rightarrow> bool" and at :: "'s \<Rightarrow> 'e list \<Rightarrow> 't"
  assumes step: "ready s \<Longrightarrow> live op s = Some (x, s') \<Longrightarrow>
      ready s' \<and> (\<exists>evs. written s evs s' \<and> (\<forall>rest. replay op (at s (evs @ rest)) = Some (x, at s' rest)))"
    and written_Nil: "written s [] s"
    and written_append: "written s xs t \<Longrightarrow> written t ys u \<Longrightarrow> written s (xs @ ys) u"
begin

lemma run_recorded:
  "ready s \<Longrightarrow> run_prog live p s = Some (r, s') \<Longrightarrow>
    ready s' \<and> (\<exists>evs. written s evs s' \<and> (\<forall>rest. run_prog replay p (at s (evs @ rest)) = Some (r, at s' rest)))"
proof (induction p arbitrary: s)
  case (Done r)
  then show ?case
    using written_Nil[of s] by (auto intro: exI[of _ "[]"])
next
  case (Do op k)
  then obtain x t where x: "live op s = Some (x, t)" and rest: "run_prog live (k x) t = Some (r, s')"
    by (auto split: option.splits)
  obtain evs where t: "ready t" "written s evs t" "\<And>rest. replay op (at s (evs @ rest)) = Some (x, at t rest)"
    using step[OF Do.prems(1) x] by blast
  obtain evs' where s': "ready s'" "written t evs' s'" "\<And>rest. run_prog replay (k x) (at t (evs' @ rest)) = Some (r, at s' rest)"
    using Do.IH[OF _ t(1) rest] by auto
  have "run_prog replay (Do op k) (at s ((evs @ evs') @ rest)) = Some (r, at s' rest)" for rest
    using t(3)[of "evs' @ rest"] s'(3)[of rest] by simp
  then show ?case
    using s'(1) written_append[OF t(2) s'(2)] by blast
qed

end

section \<open>Recording computations\<close>

text \<open>What \<open>serde_json\<close> promises: an object has its field; a line is one line of text, not blank, and is read back.\<close>

definition json_ok :: "'j Json \<Rightarrow> bool" where
  "json_ok J \<longleftrightarrow> (\<forall>k t. j_get_str J (j_object J k t) k = Some t)"

definition codec_ok :: "'j encoder \<Rightarrow> 'j decoder \<Rightarrow> bool" where
  "codec_ok enc dec \<longleftrightarrow>
     (\<forall>l. dec (enc l) = Inr l \<and> newline \<notin> set (enc l) \<and> last (enc l) \<noteq> 13 \<and> \<not> list_all is_whitespace (enc l))"

definition render :: "'j encoder \<Rightarrow> 'j ReplayLogLine list \<Rightarrow> rstr" where
  "render enc evs = concat (map (\<lambda>l. enc l @ [newline]) evs)"

lemma render_simps [simp]: "render enc [] = []" "render enc (xs @ ys) = render enc xs @ render enc ys"
  by (simp_all add: render_def)

fun is_header :: "'j ReplayLogLine \<Rightarrow> bool" where
  "is_header (LineHeader _) = True"
| "is_header _ = False"

definition ready :: "'s LiveRuntime \<Rightarrow> bool" where
  "ready s \<longleftrightarrow> (\<exists>f. lr_log s = Some f \<and> log_buffer f = [] \<and> log_faults f = [])"

definition written :: "'j encoder \<Rightarrow> 's LiveRuntime \<Rightarrow> 'j ReplayLogLine list \<Rightarrow> 's LiveRuntime \<Rightarrow> bool" where
  "written enc s evs s' \<longleftrightarrow> list_all (\<lambda>l. \<not> is_header l) evs \<and>
     (\<forall>f. lr_log s = Some f \<longrightarrow> (\<exists>f'. lr_log s' = Some f' \<and> log_contents f' = log_contents f @ render enc evs))"

definition replay_at :: "ReplayMode \<Rightarrow> 's LiveRuntime \<Rightarrow> 'j ReplayLogLine list \<Rightarrow> 'j ReplayRuntime" where
  "replay_at mode s evs = \<lparr>rr_mode = mode, rr_events = evs, rr_next_seq = lr_next_seq s\<rparr>"

lemma written_Nil: "written enc s [] s"
  by (auto simp: written_def)

lemma written_append: "written enc s xs t \<Longrightarrow> written enc t ys u \<Longrightarrow> written enc s (xs @ ys) u"
  by (fastforce simp: written_def)

definition records :: "'j encoder \<Rightarrow> ReplayMode \<Rightarrow> ('s LiveRuntime, 'e, 'a) eff \<Rightarrow> ('j ReplayRuntime, 'e, 'a) eff \<Rightarrow> bool" where
  "records enc mode m m' \<longleftrightarrow>
     (\<forall>s x s'. ready s \<longrightarrow> m s = Some (x, s') \<longrightarrow>
       ready s' \<and> (\<exists>evs. written enc s evs s' \<and> (\<forall>rest. m' (replay_at mode s (evs @ rest)) = Some (x, replay_at mode s' rest))))"

lemma recordsI:
  assumes "\<And>s x s'. ready s \<Longrightarrow> m s = Some (x, s') \<Longrightarrow>
    ready s' \<and> (\<exists>evs. written enc s evs s' \<and> (\<forall>rest. m' (replay_at mode s (evs @ rest)) = Some (x, replay_at mode s' rest)))"
  shows "records enc mode m m'"
  unfolding records_def using assms by blast

lemma recordsD:
  assumes "records enc mode m m'" "ready s" "m s = Some (x, s')"
  obtains evs where "ready s'" "written enc s evs s'" "\<And>rest. m' (replay_at mode s (evs @ rest)) = Some (x, replay_at mode s' rest)"
  using assms unfolding records_def by blast

named_theorems records_intros \<open>computations that record what they do\<close>

lemma records_pure: "(\<And>s. m s = map_option (\<lambda>x. (x, s)) r) \<Longrightarrow> (\<And>t. m' t = map_option (\<lambda>x. (x, t)) r) \<Longrightarrow> records enc mode m m'"
  by (rule recordsI) (auto intro!: exI[of _ "[]"] written_Nil)

lemma records_None [records_intros]: "records enc mode (\<lambda>_. None) (\<lambda>_. None)"
  by (rule recordsI) simp

lemma records_ret [records_intros]: "records enc mode (ret x) (ret x)"
  by (rule recordsI) (auto simp: ret_def intro!: exI[of _ "[]"] written_Nil)

lemma records_fail [records_intros]: "records enc mode (fail e) (fail e)"
  by (rule recordsI) (auto simp: fail_def intro!: exI[of _ "[]"] written_Nil)

lemma records_andthen [records_intros]:
  assumes "records enc mode m m'" "\<And>x. records enc mode (f x) (f' x)"
  shows "records enc mode (andthen m f) (andthen m' f')"
proof (rule recordsI)
  fix s x s'
  assume s: "ready s" and run: "andthen m f s = Some (x, s')"
  then obtain y t where y: "m s = Some (y, t)"
    by (auto simp: andthen_def split: option.splits)
  obtain evs where t: "ready t" "written enc s evs t" "\<And>rest. m' (replay_at mode s (evs @ rest)) = Some (y, replay_at mode t rest)"
    using recordsD[OF assms(1) s y] by blast
  show "ready s' \<and> (\<exists>evs. written enc s evs s' \<and> (\<forall>rest. andthen m' f' (replay_at mode s (evs @ rest)) = Some (x, replay_at mode s' rest)))"
  proof (cases y)
    case (Inl e)
    then show ?thesis
      using run y t by (auto simp: andthen_def)
  next
    case (Inr v)
    then have "f v t = Some (x, s')"
      using run y by (simp add: andthen_def)
    then obtain evs' where s': "ready s'" "written enc t evs' s'"
        "\<And>rest. f' v (replay_at mode t (evs' @ rest)) = Some (x, replay_at mode s' rest)"
      using recordsD[OF assms(2) t(1)] by blast
    have "andthen m' f' (replay_at mode s ((evs @ evs') @ rest)) = Some (x, replay_at mode s' rest)" for rest
      using t(3)[of "evs' @ rest"] s'(3)[of rest] Inr by (simp add: andthen_def)
    then show ?thesis
      using s'(1) written_append[OF t(2) s'(2)] by blast
  qed
qed

lemma records_map_err [records_intros]:
  assumes "records enc mode m m'"
  shows "records enc mode (map_err m) (map_err m')"
proof (rule recordsI)
  fix s x s'
  assume s: "ready s" and "map_err m s = Some (x, s')"
  then obtain y where y: "m s = Some (y, s')" "x = map_sum map_runtime_effect_error id y"
    by (auto simp: map_err_def)
  obtain evs where e: "ready s'" "written enc s evs s'" "\<And>rest. m' (replay_at mode s (evs @ rest)) = Some (y, replay_at mode s' rest)"
    using recordsD[OF assms s y(1)] by blast
  have "map_err m' (replay_at mode s (evs @ rest)) = Some (x, replay_at mode s' rest)" for rest
    using e(3)[of rest] y(2) by (simp add: map_err_def)
  then show "ready s' \<and> (\<exists>evs. written enc s evs s' \<and> (\<forall>rest. map_err m' (replay_at mode s (evs @ rest)) = Some (x, replay_at mode s' rest)))"
    using e by blast
qed

text \<open>One event is written and read back.\<close>

lemma record_event_ready:
  assumes "ready s" "record_event enc mk s = Some (x, s')" "\<not> is_header (mk (lr_next_seq s))"
  shows "x = Inr ()" "ready s'" "written enc s [mk (lr_next_seq s)] s'" "lr_next_seq s' = lr_next_seq s + 1"
  using assms by (auto simp: record_event_def ready_def written_def write_line_def render_def Let_def)

lemma written_host [simp]: "written enc (s\<lparr>lr_host := h\<rparr>) evs s' = written enc s evs s'" "ready (s\<lparr>lr_host := h\<rparr>) = ready s"
  by (simp_all add: written_def ready_def)

lemma records_authorize: "records enc mode (live_authorize enc hb check) (replay_authorize check)"
proof (rule recordsI)
  fix s x s'
  assume s: "ready s" and run: "live_authorize enc hb check s = Some (x, s')"
  obtain allowed host' where a: "hb_authorize hb (ck_capability check) (lr_host s) = (allowed, host')"
    by (cases "hb_authorize hb (ck_capability check) (lr_host s)")
  let ?mk = "capability_event check (if allowed then Allowed else Denied)"
  obtain y t where y: "record_event enc ?mk (s\<lparr>lr_host := host'\<rparr>) = Some (y, t)"
    using run a by (auto simp: live_authorize_def record_capability_check_def andthen_def split: option.splits)
  have "\<not> is_header (?mk n)" for n
    by (simp add: capability_event_def)
  note ev = record_event_ready[OF _ y this, simplified, OF s]
  have "x = (if allowed then Inr () else Inl (denied check))" "s' = t"
    using run a y ev(1) by (auto simp: live_authorize_def record_capability_check_def andthen_def ret_def fail_def split: if_splits)
  moreover have "replay_authorize check (replay_at mode s ([?mk (lr_next_seq s)] @ rest)) =
      Some (if allowed then Inr () else Inl (denied check), replay_at mode t rest)" for rest
    using ev(4) by (simp add: replay_authorize_def next_line_def check_capability_event_def check_seq_def capability_event_def
        replay_at_def andthen_def ret_def fail_def)
  ultimately show "ready s' \<and> (\<exists>evs. written enc s evs s' \<and> (\<forall>rest. replay_authorize check (replay_at mode s (evs @ rest)) = Some (x, replay_at mode s' rest)))"
    using ev(2,3) by blast
qed

text \<open>A request that the live runtime performs.\<close>

lemma records_call:
  assumes "host_operation J hb request = Inr perform"
  shows "records enc mode (live_call enc J hb request) (replay_call request)"
proof (rule recordsI)
  fix s x s'
  assume s: "ready s" and run: "live_call enc J hb request s = Some (x, s')"
  obtain res host' where p: "perform (lr_host s) = (res, host')"
    by (cases "perform (lr_host s)")
  let ?out = "case res of Inr v \<Rightarrow> \<lparr>out_kind = OutcomeOk, out_value = v, out_message = None\<rparr>
    | Inl m \<Rightarrow> \<lparr>out_kind = OutcomeRuntimeError, out_value = j_null J, out_message = Some m\<rparr>"
  let ?mk = "effect_event request ?out"
  obtain y t where y: "record_event enc ?mk (s\<lparr>lr_host := host'\<rparr>) = Some (y, t)"
    using run p by (auto simp: live_call_def assms record_effect_call_def andthen_def split: option.splits sum.splits)
  have "\<not> is_header (?mk n)" for n
    by (simp add: effect_event_def)
  note ev = record_event_ready[OF _ y this, simplified, OF s]
  have x: "x = map_sum (OperationFailed (rq_operation request)) id res" "s' = t"
    using run p y ev(1) by (auto simp: live_call_def assms record_effect_call_def andthen_def ret_def fail_def split: sum.splits)
  have "replay_call request (replay_at mode s ([?mk (lr_next_seq s)] @ rest)) = Some (x, replay_at mode t rest)" for rest
    using ev(4) x(1) by (cases res) (simp_all add: replay_call_def next_line_def check_effect_event_def check_seq_def effect_event_def
        replay_at_def andthen_def ret_def fail_def)
  then show "ready s' \<and> (\<exists>evs. written enc s evs s' \<and> (\<forall>rest. replay_call request (replay_at mode s (evs @ rest)) = Some (x, replay_at mode s' rest)))"
    using ev(2,3) x(2) by blast
qed

section \<open>The interpreter as a client\<close>

datatype ClientOp =
    CheckIntrinsic IntrinsicFn
  | CallIntrinsic IntrinsicFn "RVal list"
  | EnterUserFn Name "TypeRef list"

fun client_op ::
    "('s, 'j) RuntimeService \<Rightarrow> 'j Json \<Rightarrow> (nat \<Rightarrow> RVal list \<Rightarrow> (RuntimeError + RVal) option) \<Rightarrow> (Name \<Rightarrow> string) \<Rightarrow>
      ClientOp \<Rightarrow> ('s, RuntimeError, RVal) eff" where
  "client_op sv J pure_call resolve (CheckIntrinsic intr) = andthen (check_intrinsic_cap sv intr) (\<lambda>_. ret RUnit)"
| "client_op sv J pure_call resolve (CallIntrinsic intr args) = call_runtime_intrinsic sv J pure_call intr args"
| "client_op sv J pure_call resolve (EnterUserFn fn_name effects) =
     andthen (ensure_user_fn_caps_allowed sv resolve fn_name effects) (\<lambda>_. ret RUnit)"

lemma records_check_intrinsic:
  "records enc mode (check_intrinsic_cap (live_service enc J hb) intr) (check_intrinsic_cap replay_service intr)"
  unfolding check_intrinsic_cap_def live_service_def replay_service_def
  by (auto intro!: records_intros records_authorize split: option.split)

lemma records_user_fn:
  "records enc mode (ensure_user_fn_caps_allowed (live_service enc J hb) resolve fn_name effects)
     (ensure_user_fn_caps_allowed replay_service resolve fn_name effects)"
  by (induction effects) (auto simp: live_service_def replay_service_def intro!: records_intros records_authorize split: option.split)

text \<open>Every request of the interpreter names an operation of the host and carries its payload.\<close>

lemma effect_request_performed:
  assumes "json_ok J" "runtime_effect_intrinsic_info intr = Some (capability, operation, kind)"
    "effect_request J intr args capability operation kind = Some (Inr request)"
  shows "\<exists>perform. host_operation J hb request = Inr perform"
  using assms
  by (cases intr) (auto simp: effect_request_def host_operation_def strip_io_def json_ok_def Let_def split: list.splits RVal.splits)

lemma records_call_intrinsic:
  assumes "json_ok J"
  shows "records enc mode (call_runtime_intrinsic (live_service enc J hb) J pure_call intr args)
    (call_runtime_intrinsic replay_service J pure_call intr args)"
proof (cases "runtime_effect_intrinsic_info intr")
  case None
  then show ?thesis
    unfolding call_runtime_intrinsic_def by (auto intro!: records_pure)
next
  case (Some info)
  obtain capability operation kind where info: "runtime_effect_intrinsic_info intr = Some (capability, operation, kind)"
    using Some by (cases info) auto
  have "records enc mode (live_call enc J hb request) (replay_call request)"
    if "effect_request J intr args capability operation kind = Some (Inr request)" for request
    using effect_request_performed[OF assms info that] records_call by blast
  then show ?thesis
    unfolding call_runtime_intrinsic_def info
    by (auto simp: live_service_def replay_service_def intro!: records_intros split: option.split sum.split)
qed

lemma records_client:
  "json_ok J \<Longrightarrow> records enc mode (client_op (live_service enc J hb) J pure_call resolve op) (client_op replay_service J pure_call resolve op)"
  by (cases op) (auto intro!: records_intros records_check_intrinsic records_user_fn records_call_intrinsic)

interpretation client: recording "client_op (live_service enc J hb) J pure_call resolve" "client_op replay_service J pure_call resolve"
    "\<lambda>s. json_ok J \<and> ready s" "written enc" "replay_at mode"
  for enc J hb pure_call resolve mode
proof
  fix s s' op x
  assume "json_ok J \<and> ready s" "client_op (live_service enc J hb) J pure_call resolve op s = Some (x, s')"
  then show "(json_ok J \<and> ready s') \<and> (\<exists>evs. written enc s evs s' \<and>
      (\<forall>rest. client_op replay_service J pure_call resolve op (replay_at mode s (evs @ rest)) = Some (x, replay_at mode s' rest)))"
    using records_client[of J enc mode hb pure_call resolve op] by (metis recordsD)
qed (auto intro: written_Nil written_append)

section \<open>Reading the log\<close>

lemma str_lines_line:
  assumes "newline \<notin> set l"
  shows "str_lines (l @ newline # rest) = strip_cr l # str_lines rest"
proof -
  have "dropWhile ((\<noteq>) newline) (l @ newline # rest) = newline # rest" "takeWhile ((\<noteq>) newline) (l @ newline # rest) = l"
    using assms by (induction l) auto
  then show ?thesis
    by (simp add: str_lines.simps[of "l @ newline # rest"])
qed

lemma str_lines_render: "codec_ok enc dec \<Longrightarrow> str_lines (render enc evs) = map enc evs"
proof (induction evs)
  case Nil
  then show ?case
    by (simp add: str_lines.simps[of "[]"])
next
  case (Cons l ls)
  then show ?case
    using str_lines_line[of "enc l" "render enc ls"] by (simp add: render_def codec_ok_def strip_cr_def)
qed

lemma read_events_render:
  "codec_ok enc dec \<Longrightarrow> list_all (\<lambda>l. \<not> is_header l) evs \<Longrightarrow> read_events dec (map enc evs) = Inr evs"
proof (induction evs)
  case (Cons l ls)
  then show ?case
    by (cases l) (simp_all add: codec_ok_def)
qed simp

lemma filter_enc: "codec_ok enc dec \<Longrightarrow> filter (\<lambda>l. \<not> list_all is_whitespace l) (map enc evs) = map enc evs"
  by (induction evs) (simp_all add: codec_ok_def)

lemma reader_render:
  assumes "codec_ok enc dec" "list_all (\<lambda>l. \<not> is_header l) evs" "schema_version header = 1" "is_supported_runtime_name (runtime header)"
  shows "reader_from_contents dec (render enc (LineHeader header # evs)) = Inr (header, evs)"
proof -
  have "dec (enc (LineHeader header)) = Inr (LineHeader header)"
    using assms(1) by (simp add: codec_ok_def)
  then show ?thesis
    unfolding reader_from_contents_def str_lines_render[OF assms(1)] filter_enc[OF assms(1)]
    by (simp add: read_events_render[OF assms(1,2)] assms(3,4))
qed

lemma fingerprints_verified:
  "(\<And>e. e \<in> set es \<Longrightarrow> fingerprint_file (fp_path e) = Inr (fp_sha256 e)) \<Longrightarrow> verify_program_fingerprint fingerprint_file es = Inr ()"
  by (induction es) simp_all

section \<open>Replays that end without complaint\<close>

datatype 'j ServiceOp = SAuthorize CapabilityCheck | SCall "'j EffectRequest"

fun service_op :: "('s, 'j) RuntimeService \<Rightarrow> 'j ServiceOp \<Rightarrow> ('s, RuntimeEffectError, 'j option) eff" where
  "service_op sv (SAuthorize check) = andthen (sv_authorize sv check) (\<lambda>_. ret None)"
| "service_op sv (SCall request) = andthen (sv_call sv request) (\<lambda>v. ret (Some v))"

definition complains :: "RuntimeEffectError + 'a \<Rightarrow> bool" where
  "complains r \<longleftrightarrow> (\<exists>m. r = Inl (ReplayLog m))"

text \<open>The event that a request and its answer stand for.\<close>

fun explained :: "ReplayMode \<Rightarrow> 64 word \<Rightarrow> 'j ServiceOp \<Rightarrow> RuntimeEffectError + 'j option \<Rightarrow> 'j ReplayLogLine \<Rightarrow> bool" where
  "explained mode seq (SAuthorize check) res line \<longleftrightarrow>
     (\<exists>outcome. line = capability_event check outcome seq \<and>
        res = (case outcome of Allowed \<Rightarrow> Inr None | Denied \<Rightarrow> Inl (denied check)))"
| "explained mode seq (SCall request) res line \<longleftrightarrow>
     (\<exists>outcome inp. line = effect_event (request\<lparr>rq_input := inp\<rparr>) outcome seq \<and>
        (inp = rq_input request \<or> mode = ModeReplay \<and> rq_effect_kind request = Write) \<and>
        res = (case out_kind outcome of
            OutcomeOk \<Rightarrow> Inr (Some (out_value outcome))
          | OutcomeCapabilityDenied \<Rightarrow> Inl (EffectCapabilityDenied (rq_capability request) (rq_required_by_name request))
          | OutcomeRuntimeError \<Rightarrow> Inl (OperationFailed (rq_operation request)
              (case out_message outcome of Some m \<Rightarrow> m | None \<Rightarrow> mode_hint mode @ '' runtime error''))))"

lemma replay_op_explained:
  assumes "service_op replay_service op s = Some (res, s')" "\<not> complains res"
  shows "\<exists>line. rr_events s = line # rr_events s' \<and> rr_next_seq s' = rr_next_seq s + 1 \<and> rr_mode s' = rr_mode s \<and>
    explained (rr_mode s) (rr_next_seq s) op res line"
proof (cases op)
  case (SAuthorize check)
  show ?thesis
  proof (cases "rr_events s")
    case Nil
    then show ?thesis
      using assms SAuthorize by (auto simp: replay_service_def replay_authorize_def next_line_def andthen_def complains_def)
  next
    case (Cons line lines)
    show ?thesis
    proof (cases line)
      case (LineCapabilityCheck event)
      then show ?thesis
        using assms SAuthorize Cons
        by (cases event) (auto simp: replay_service_def replay_authorize_def next_line_def check_capability_event_def check_seq_def
            capability_event_def andthen_def ret_def fail_def complains_def denied_def split: if_splits CapabilityOutcome.splits)
    qed (use assms SAuthorize Cons in \<open>auto simp: replay_service_def replay_authorize_def next_line_def andthen_def fail_def complains_def\<close>)
  qed
next
  case (SCall request)
  show ?thesis
  proof (cases "rr_events s")
    case Nil
    then show ?thesis
      using assms SCall by (auto simp: replay_service_def replay_call_def next_line_def andthen_def complains_def)
  next
    case (Cons line lines)
    show ?thesis
    proof (cases line)
      case (LineEffectCall event)
      have "line = effect_event (request\<lparr>rq_input := ee_input event\<rparr>) (ee_outcome event) (rr_next_seq s)"
        "ee_input event = rq_input request \<or> rr_mode s = ModeReplay \<and> rq_effect_kind request = Write"
        using assms SCall Cons LineEffectCall EffectKind.exhaust[of "rq_effect_kind request"] ReplayMode.exhaust[of "rr_mode s"]
        by (auto simp: replay_service_def replay_call_def next_line_def check_effect_event_def check_seq_def
            effect_event_def andthen_def ret_def fail_def complains_def split: if_splits EffectOutcomeKind.splits)
      moreover have "rr_events s' = lines \<and> rr_next_seq s' = rr_next_seq s + 1 \<and> rr_mode s' = rr_mode s \<and>
         res = (case out_kind (ee_outcome event) of
            OutcomeOk \<Rightarrow> Inr (Some (out_value (ee_outcome event)))
          | OutcomeCapabilityDenied \<Rightarrow> Inl (EffectCapabilityDenied (rq_capability request) (rq_required_by_name request))
          | OutcomeRuntimeError \<Rightarrow> Inl (OperationFailed (rq_operation request)
              (case out_message (ee_outcome event) of Some m \<Rightarrow> m | None \<Rightarrow> mode_hint (rr_mode s) @ '' runtime error'')))"
        using assms SCall Cons LineEffectCall
        by (auto simp: replay_service_def replay_call_def next_line_def check_effect_event_def check_seq_def
            andthen_def ret_def fail_def complains_def cong: option.case_cong split: if_splits EffectOutcomeKind.splits)
      ultimately show ?thesis
        using Cons SCall by auto
    qed (use assms SCall Cons in \<open>auto simp: replay_service_def replay_call_def next_line_def andthen_def fail_def complains_def\<close>)
  qed
qed

lemma replay_trace_explained:
  assumes "run_trace (service_op replay_service) p s = Some (tr, s')" "list_all (\<lambda>(op, res). \<not> complains res) tr"
  shows "\<exists>evs. rr_events s = evs @ rr_events s' \<and> length evs = length tr \<and>
    (\<forall>i < length tr. explained (rr_mode s) (rr_next_seq s + of_nat i) (fst (tr ! i)) (snd (tr ! i)) (evs ! i))"
  using assms
proof (induction p arbitrary: s tr)
  case (Do op k)
  then obtain res t tr' where step: "service_op replay_service op s = Some (res, t)"
    and rest: "run_trace (service_op replay_service) (k res) t = Some (tr', s')" and tr: "tr = (op, res) # tr'"
    by (auto split: option.splits)
  obtain line where line: "rr_events s = line # rr_events t" "rr_next_seq t = rr_next_seq s + 1" "rr_mode t = rr_mode s"
      "explained (rr_mode s) (rr_next_seq s) op res line"
    using replay_op_explained[OF step] Do.prems(2) tr by auto
  obtain evs where evs: "rr_events t = evs @ rr_events s'" "length evs = length tr'"
      "\<And>i. i < length tr' \<Longrightarrow> explained (rr_mode s) (rr_next_seq s + 1 + of_nat i) (fst (tr' ! i)) (snd (tr' ! i)) (evs ! i)"
    using Do.IH[OF _ rest] Do.prems(2) tr line by auto
  have "explained (rr_mode s) (rr_next_seq s + of_nat i) (fst (tr ! i)) (snd (tr ! i)) ((line # evs) ! i)" if "i < length tr" for i
  proof (cases i)
    case (Suc j)
    then show ?thesis
      using evs(3)[of j] that tr by (simp add: add.assoc)
  qed (use line(4) tr in simp)
  then show ?case
    using line(1) evs(1,2) tr by (intro exI[of _ "line # evs"]) simp
qed simp

section \<open>Properties\<close>

text \<open>
  C24. A run of an interpreted program whose effects are logged can be replayed from the log, in both
  modes: reading the file that the run has written gives a runtime under which the program gets the same
  answers, errors and refusals included, and ends with the same result; then no event is left.  The log
  could be written, the program files have their fingerprints, and the encoding of log lines can be read
  back.
\<close>

theorem replay_reproduces_run:
  assumes "codec_ok enc dec" and "json_ok J"
    and "schema_version header = 1" and "is_supported_runtime_name (runtime header)"
    and "\<And>e. e \<in> set (program_fingerprint header) \<Longrightarrow> fingerprint_file (fp_path e) = Inr (fp_sha256 e)"
    and "live_new enc host (Some (Inr \<lparr>log_contents = [], log_buffer = [], log_faults = []\<rparr>, header)) = Inr start"
    and "run_prog (client_op (live_service enc J hb) J pure_call resolve) p start = Some (r, fin)"
  shows "\<exists>f rt rt'. lr_log fin = Some f \<and> from_log_path dec fingerprint_file (log_contents f) mode = Inr (rt, header) \<and>
    run_prog (client_op replay_service J pure_call resolve) p rt = Some (r, rt') \<and> replay_finalize rt' = Inr ()"
proof -
  have start: "start = \<lparr>lr_host = host, lr_log = Some \<lparr>log_contents = render enc [LineHeader header], log_buffer = [], log_faults = []\<rparr>, lr_next_seq = 0\<rparr>"
    using assms(6) by (simp add: live_new_def write_line_def render_def)
  then have "json_ok J \<and> ready start"
    using assms(2) by (simp add: ready_def)
  from client.run_recorded[OF this assms(7), of mode]
  obtain evs where evs: "written enc start evs fin"
    "\<And>rest. run_prog (client_op replay_service J pure_call resolve) p (replay_at mode start (evs @ rest)) = Some (r, replay_at mode fin rest)"
    by blast
  then obtain f where f: "lr_log fin = Some f" "log_contents f = render enc (LineHeader header # evs)"
    and "list_all (\<lambda>l. \<not> is_header l) evs"
    using start by (auto simp: written_def render_def)
  then have "from_log_path dec fingerprint_file (log_contents f) mode = Inr (replay_new mode evs, header)"
    using reader_render[OF assms(1) _ assms(3,4)] fingerprints_verified[of "program_fingerprint header" fingerprint_file, OF assms(5)]
    by (simp add: from_log_path_def)
  moreover have "run_prog (client_op replay_service J pure_call resolve) p (replay_new mode evs) = Some (r, replay_at mode fin [])"
    using evs(2)[of "[]"] start by (simp add: replay_at_def replay_new_def)
  ultimately show ?thesis
    using f(1) by (auto simp: replay_finalize_def replay_at_def)
qed

text \<open>A concrete encoding, JSON and host: lines are numbered and written in unary.\<close>

instance RequiredByKind :: countable
  by countable_datatype

instance EffectKind :: countable
  by countable_datatype

instance CapabilityOutcome :: countable
  by countable_datatype

instance EffectOutcomeKind :: countable
  by countable_datatype

type_synonym demo_json = "(string \<times> rstr) option"

fun line_code where
  "line_code (LineHeader h) = Inl (schema_version h, runtime h, entry_file h, project_mode h,
     map (\<lambda>e. (fp_path e, fp_sha256 e)) (program_fingerprint h))"
| "line_code (LineCapabilityCheck e) = Inr (Inl
     (ce_seq e, ce_capability e, ce_required_by_kind e, ce_required_by_name e, ce_outcome e))"
| "line_code (LineEffectCall e) = Inr (Inr
     (ee_seq e, ee_capability e, ee_operation e, ee_effect_kind e, ee_required_by_name e, ee_input e,
      out_kind (ee_outcome e), out_value (ee_outcome e), out_message (ee_outcome e)))"

fun code_line where
  "code_line (Inl (v, r, f, m, fps)) = LineHeader \<lparr>schema_version = v, runtime = r, entry_file = f, project_mode = m,
     program_fingerprint = map (\<lambda>(p, h). \<lparr>fp_path = p, fp_sha256 = h\<rparr>) fps\<rparr>"
| "code_line (Inr (Inl (q, c, k, n, out))) = LineCapabilityCheck
     \<lparr>ce_seq = q, ce_capability = c, ce_required_by_kind = k, ce_required_by_name = n, ce_outcome = out\<rparr>"
| "code_line (Inr (Inr (q, c, op, k, n, inp, ok, v, m))) = LineEffectCall
     \<lparr>ee_seq = q, ee_capability = c, ee_operation = op, ee_effect_kind = k, ee_required_by_name = n, ee_input = inp,
      ee_outcome = \<lparr>out_kind = ok, out_value = v, out_message = m\<rparr>\<rparr>"

lemma code_line_code: "code_line (line_code l) = l"
proof (cases l)
  case (LineHeader h)
  then show ?thesis
    by (cases h) (auto simp: comp_def intro: map_idI)
qed simp_all

definition demo_enc :: "demo_json encoder" where
  "demo_enc l = replicate (Suc (to_nat (line_code l))) 97"

definition demo_dec :: "demo_json decoder" where
  "demo_dec t = Inr (code_line (from_nat (length t - 1)))"

lemma demo_codec_ok: "codec_ok demo_enc demo_dec"
  by (simp add: codec_ok_def demo_enc_def demo_dec_def code_line_code newline_def is_whitespace_def last_replicate del: replicate_Suc)
    (simp add: is_whitespace_def)

definition demo_json_ops :: "demo_json Json" where
  "demo_json_ops = \<lparr>j_null = None, j_empty = None, j_object = (\<lambda>k t. Some (k, t)),
     j_get_str = (\<lambda>v k. case v of Some (k', t) \<Rightarrow> if k' = k then Some t else None | None \<Rightarrow> None)\<rparr>"

lemma demo_json_ok: "json_ok demo_json_ops"
  by (simp add: json_ok_def demo_json_ops_def)

text \<open>A host that answers with the number of its calls, and refuses the file system.\<close>

definition demo_backend :: "nat HostBackend" where
  "demo_backend = \<lparr>hb_print = (\<lambda>_ _ s. (Inr (), s + 1)), hb_read_line = (\<lambda>s. (Inr [of_nat s], s + 1)),
     hb_read_stdin = (\<lambda>s. (Inl ''closed'', s + 1)), hb_read_file = (\<lambda>_ s. (Inr [], s + 1)),
     hb_authorize = manifest_authorize (Some [(''io'', \<lparr>allow_domains = None, allow_tables = None, allow_keys = None\<rparr>)])\<rparr>"

definition demo_header :: ReplayHeader where
  "demo_header = \<lparr>schema_version = 1, runtime = ''interpreter'', entry_file = ''main.ky'', project_mode = False,
     program_fingerprint = []\<rparr>"

definition demo_prog :: "(ClientOp, RuntimeError + RVal, (RuntimeError + RVal) list) prog" where
  "demo_prog = Do (CheckIntrinsic ReadLine) (\<lambda>a. Do (CallIntrinsic ReadLine []) (\<lambda>b. Do (CallIntrinsic ReadStdin []) (\<lambda>c.
     Do (CheckIntrinsic ReadFile) (\<lambda>d. Done [a, b, c, d]))))"

theorem replay_reproduces_run_witness:
  "\<exists>contents rt rt'. from_log_path demo_dec (\<lambda>_. Inl []) contents ModeVerify = Inr (rt, demo_header) \<and>
    run_prog (client_op replay_service demo_json_ops (\<lambda>_ _. None) (\<lambda>_. [])) demo_prog rt =
      Some ([Inr RUnit, Inr (RString [0]), Inl (TypeError ''read_stdin: closed''), Inl (CapabilityDenied ''fs'' ''fs.read_file'')], rt') \<and>
    replay_finalize rt' = Inr ()"
proof -
  obtain start where start: "live_new demo_enc (0 :: nat) (Some (Inr \<lparr>log_contents = [], log_buffer = [], log_faults = []\<rparr>, demo_header)) = Inr start"
    by (simp add: live_new_def write_line_def)
  moreover have "\<exists>fin. run_prog (client_op (live_service demo_enc demo_json_ops demo_backend) demo_json_ops (\<lambda>_ _. None) (\<lambda>_. [])) demo_prog start =
      Some ([Inr RUnit, Inr (RString [0]), Inl (TypeError ''read_stdin: closed''), Inl (CapabilityDenied ''fs'' ''fs.read_file'')], fin)"
    using start
    by (auto simp: live_new_def write_line_def demo_prog_def live_service_def check_intrinsic_cap_def call_runtime_intrinsic_def effect_request_def
        strip_io_def live_authorize_def live_call_def host_operation_def demo_backend_def demo_json_ops_def manifest_authorize_def is_granted_def
        record_capability_check_def record_effect_call_def record_event_def andthen_def ret_def fail_def map_err_def
        map_runtime_effect_error_def denied_def Let_def)
  moreover have "schema_version demo_header = 1" "is_supported_runtime_name (runtime demo_header)" "program_fingerprint demo_header = []"
    by (simp_all add: demo_header_def is_supported_runtime_name_def)
  ultimately show ?thesis
    using replay_reproduces_run[OF demo_codec_ok demo_json_ok, of demo_header "\<lambda>_. Inl []" 0 start demo_backend "\<lambda>_ _. None" "\<lambda>_. []"
        demo_prog _ _ ModeVerify] by fastforce
qed

text \<open>
  C25. A replay that ends without a log error and with no event left has made exactly the recorded
  requests, in order, and given the recorded answers; the payloads agree as well, except that without
  verification those of writes may differ.
\<close>

theorem replay_follows_log:
  assumes "run_trace (service_op replay_service) p (replay_new mode events) = Some (tr, rt)"
    and "list_all (\<lambda>(op, res). \<not> complains res) tr" and "replay_finalize rt = Inr ()"
  shows "length tr = length events \<and> (\<forall>i < length tr. explained mode (of_nat i) (fst (tr ! i)) (snd (tr ! i)) (events ! i))"
proof -
  have "rr_events rt = []"
    using assms(3) by (simp add: replay_finalize_def split: if_splits)
  then show ?thesis
    using replay_trace_explained[OF assms(1,2)] by (auto simp: replay_new_def)
qed

definition demo_check :: CapabilityCheck where
  "demo_check = \<lparr>ck_capability = ''io'', ck_required_by_kind = Builtin, ck_required_by_name = ''io.print''\<rparr>"

theorem replay_follows_log_witness:
  "\<exists>tr. run_trace (service_op replay_service) (Do (SAuthorize demo_check) (\<lambda>_. Done ()))
      (replay_new ModeVerify [capability_event demo_check Denied 0 :: unit ReplayLogLine]) = Some (tr, replay_new ModeVerify []\<lparr>rr_next_seq := 1\<rparr>) \<and>
    length tr = 1 \<and> snd (tr ! 0) = Inl (denied demo_check)"
proof -
  have run: "run_trace (service_op replay_service) (Do (SAuthorize demo_check) (\<lambda>_. Done ()))
      (replay_new ModeVerify [capability_event demo_check Denied 0 :: unit ReplayLogLine]) =
    Some ([(SAuthorize demo_check, Inl (denied demo_check))], replay_new ModeVerify []\<lparr>rr_next_seq := 1\<rparr>)"
    by (simp add: replay_service_def replay_authorize_def next_line_def check_capability_event_def check_seq_def capability_event_def
        replay_new_def andthen_def ret_def fail_def)
  have "\<not> complains (Inl (denied demo_check) :: RuntimeEffectError + unit option)"
    by (simp add: complains_def denied_def)
  then show ?thesis
    using run replay_follows_log[OF run] by (simp add: replay_finalize_def replay_new_def)
qed

end
