(* ===== verification/Doc_Print.thy ===== *)
theory Doc_Print
  imports Seq
begin

text \<open>
  The document language of the formatter and its printer (\<open>fmt/src/doc.rs\<close>, \<open>fmt/src/print.rs\<close>): a stack
  machine that decides for each group whether it fits on the rest of the line.  Columns, indentations and
  widths are \<open>i32\<close>, words that are compared with their sign; additions and the cast of a length wrap, as in
  a build without overflow checks.
\<close>

section \<open>Documents\<close>

type_synonym i32 = "32 word"

datatype Doc =
    DNil
  | DText rstr
  | DLine
  | DHardLine
  | DSoftLine
  | DIndent i32 Doc
  | DGroup Doc
  | DConcat Doc Doc
  | DIfBreak Doc Doc

definition doc_text :: "rstr \<Rightarrow> Doc" where
  "doc_text s = (if s = [] then DNil else DText s)"

definition doc_concat :: "Doc list \<Rightarrow> Doc" where
  "doc_concat docs = foldl DConcat DNil docs"

fun join_parts :: "Doc \<Rightarrow> Doc list \<Rightarrow> Doc list" where
  "join_parts sep [] = []"
| "join_parts sep [doc] = [doc]"
| "join_parts sep (doc # docs) = doc # sep # join_parts sep docs"

definition doc_join :: "Doc list \<Rightarrow> Doc \<Rightarrow> Doc" where
  "doc_join docs sep = doc_concat (join_parts sep docs)"

definition trailing_comma :: Doc where
  "trailing_comma = DIfBreak (doc_text [44]) DNil"

section \<open>The printer\<close>

datatype Mode = Flat | Break

type_synonym stack = "(i32 \<times> Mode \<times> Doc) list"

function fits :: "i32 \<Rightarrow> stack \<Rightarrow> bool" where
  "fits remaining [] = (0 \<le> sint remaining)"
| "fits remaining ((indent, mode, doc) # stack) =
     (if sint remaining < 0 then False
      else case doc of
          DNil \<Rightarrow> fits remaining stack
        | DText s \<Rightarrow> fits (remaining - of_nat (str_len s)) stack
        | DLine \<Rightarrow> (case mode of Flat \<Rightarrow> fits (remaining - 1) stack | Break \<Rightarrow> True)
        | DHardLine \<Rightarrow> True
        | DSoftLine \<Rightarrow> (case mode of Flat \<Rightarrow> fits remaining stack | Break \<Rightarrow> True)
        | DIndent n inner \<Rightarrow> fits remaining ((indent + n, mode, inner) # stack)
        | DGroup inner \<Rightarrow> fits remaining ((indent, Flat, inner) # stack)
        | DConcat l r \<Rightarrow> fits remaining ((indent, mode, l) # (indent, mode, r) # stack)
        | DIfBreak break_doc flat_doc \<Rightarrow>
            (case mode of
               Flat \<Rightarrow> fits remaining ((indent, mode, flat_doc) # stack)
             | Break \<Rightarrow> fits remaining ((indent, mode, break_doc) # stack)))"
  by pat_completeness auto
termination
  by (relation "measure (\<lambda>(_, stack). sum_list (map (\<lambda>(_, _, d). 2 * size d + 1) stack))") auto

definition new_line :: "i32 \<Rightarrow> rstr" where
  "new_line indent = newline # replicate (nat (sint indent)) 32"

function print_loop :: "i32 \<Rightarrow> stack \<Rightarrow> rstr \<Rightarrow> i32 \<Rightarrow> rstr" where
  "print_loop width [] out col = out"
| "print_loop width ((indent, mode, doc) # stack) out col =
     (case doc of
        DNil \<Rightarrow> print_loop width stack out col
      | DText s \<Rightarrow> print_loop width stack (out @ s) (col + of_nat (str_len s))
      | DLine \<Rightarrow>
          (case mode of
             Flat \<Rightarrow> print_loop width stack (out @ [32]) (col + 1)
           | Break \<Rightarrow> print_loop width stack (out @ new_line indent) indent)
      | DHardLine \<Rightarrow> print_loop width stack (out @ new_line indent) indent
      | DSoftLine \<Rightarrow>
          (case mode of
             Flat \<Rightarrow> print_loop width stack out col
           | Break \<Rightarrow> print_loop width stack (out @ new_line indent) indent)
      | DIndent n inner \<Rightarrow> print_loop width ((indent + n, mode, inner) # stack) out col
      | DGroup inner \<Rightarrow>
          print_loop width ((indent, (if fits (width - col) [(indent, Flat, inner)] then Flat else Break), inner) # stack) out col
      | DConcat l r \<Rightarrow> print_loop width ((indent, mode, l) # (indent, mode, r) # stack) out col
      | DIfBreak break_doc flat_doc \<Rightarrow>
          (case mode of
             Flat \<Rightarrow> print_loop width ((indent, mode, flat_doc) # stack) out col
           | Break \<Rightarrow> print_loop width ((indent, mode, break_doc) # stack) out col))"
  by pat_completeness auto
termination
  by (relation "measure (\<lambda>(_, stack, _). sum_list (map (\<lambda>(_, _, d). 2 * size d + 1) stack))") auto

declare fits.simps [simp del] print_loop.simps [simp del]

text \<open>\<open>str::trim_end\<close>, \<open>[&str]::join("\n")\<close>, and the last step of the printer.\<close>

definition trim_end :: "rstr \<Rightarrow> rstr" where
  "trim_end l = rev (dropWhile is_whitespace (rev l))"

fun join_lines :: "rstr list \<Rightarrow> rstr" where
  "join_lines [] = []"
| "join_lines [l] = l"
| "join_lines (l # ls) = l @ newline # join_lines ls"

definition trim_lines :: "rstr \<Rightarrow> rstr" where
  "trim_lines out =
     join_lines (map trim_end (str_lines out)) @ (if out \<noteq> [] \<and> last out = newline then [newline] else [])"

definition print_doc :: "Doc \<Rightarrow> i32 \<Rightarrow> rstr" where
  "print_doc doc width = trim_lines (print_loop width [(0, Break, doc)] [] 0)"

end
