(* ===== verification/Doc_Properties.thy ===== *)
theory Doc_Properties
  imports Doc_Print
begin

text \<open>
  The printer computes the layout of a document; it keeps every visible character and leaves no
  white space at the ends of lines.
\<close>

section \<open>Layouts\<close>








section \<open>Machine arithmetic within bounds\<close>







lemmas print_steps =
  print_loop.simps(2)[of _ _ _ DNil, unfolded Doc.case]
  print_loop.simps(2)[of _ _ _ "DText s", unfolded Doc.case]
  print_loop.simps(2)[of _ _ _ DLine, unfolded Doc.case]
  print_loop.simps(2)[of _ _ _ DHardLine, unfolded Doc.case]
  print_loop.simps(2)[of _ _ _ DSoftLine, unfolded Doc.case]
  print_loop.simps(2)[of _ _ _ "DIndent n d", unfolded Doc.case]
  print_loop.simps(2)[of _ _ _ "DGroup d", unfolded Doc.case]
  print_loop.simps(2)[of _ _ _ "DConcat l r", unfolded Doc.case]
  print_loop.simps(2)[of _ _ _ "DIfBreak b f", unfolded Doc.case]
  for s n d l r b f



section \<open>Visible characters\<close>

definition ink :: "rstr \<Rightarrow> rstr" where
  "ink s = filter (\<lambda>c. \<not> is_whitespace c) s"

lemma ink_simps [simp]: "ink [] = []" "ink (s @ t) = ink s @ ink t" "ink (c # s) = (if is_whitespace c then ink s else c # ink s)"
  by (simp_all add: ink_def)

lemma is_whitespace_simps [simp]: "is_whitespace newline" "is_whitespace 32" "is_whitespace 13"
  by (simp_all add: is_whitespace_def newline_def)

text \<open>The texts of a document in order, with one choice made at each place that depends on the mode.\<close>

inductive reads :: "Doc \<Rightarrow> rstr \<Rightarrow> bool" where
  "reads DNil []"
| "reads (DText s) s"
| "reads DLine []"
| "reads DHardLine []"
| "reads DSoftLine []"
| "reads d t \<Longrightarrow> reads (DIndent n d) t"
| "reads d t \<Longrightarrow> reads (DGroup d) t"
| "reads l s \<Longrightarrow> reads r t \<Longrightarrow> reads (DConcat l r) (s @ t)"
| "reads b t \<Longrightarrow> reads (DIfBreak b f) t"
| "reads f t \<Longrightarrow> reads (DIfBreak b f) t"

lemma ink_new_line [simp]: "ink (new_line indent) = []"
  by (simp add: new_line_def ink_def)

inductive stack_reads :: "stack \<Rightarrow> rstr \<Rightarrow> bool" where
  "stack_reads [] []"
| "reads d s \<Longrightarrow> stack_reads stack t \<Longrightarrow> stack_reads ((indent, mode, d) # stack) (s @ t)"

inductive_cases stack_reads_ConsE: "stack_reads ((indent, mode, d) # stack) t"

lemma stack_reads_head:
  assumes "stack_reads ((indent', mode', d') # stack) t" and "\<And>s. reads d' s \<Longrightarrow> reads d s"
  shows "stack_reads ((indent, mode, d) # stack) t"
  using assms by (auto elim!: stack_reads_ConsE intro: stack_reads.intros)

lemma stack_reads_concat:
  assumes "stack_reads ((indent, mode, l) # (indent, mode, r) # stack) t"
  shows "stack_reads ((indent, mode, DConcat l r) # stack) t"
proof -
  obtain s1 s2 t' where "t = (s1 @ s2) @ t'" "reads l s1" "reads r s2" "stack_reads stack t'"
    using assms by (auto elim!: stack_reads_ConsE)
  then show ?thesis
    using stack_reads.intros(2)[OF reads.intros(8)] by simp
qed

lemma print_loop_reads: "\<exists>t. stack_reads stack t \<and> ink (print_loop width stack out col) = ink out @ ink t"
proof (induction width stack out col rule: print_loop.induct)
  case (2 width indent mode doc stack out col)
  have blank: "\<exists>t. stack_reads ((indent, mode, doc) # stack) t \<and> ink res = ink out @ ink t"
    if "reads doc s" "\<exists>t. stack_reads stack t \<and> ink res = ink (out @ w) @ ink t" "ink w = ink s" for s w res
    using that stack_reads.intros(2)[OF that(1)] by fastforce
  have inner: "\<exists>t. stack_reads ((indent, mode, doc) # stack) t \<and> ink res = ink out @ ink t"
    if "\<exists>t. stack_reads ((i, m, d) # stack) t \<and> ink res = ink out @ ink t" "\<And>s. reads d s \<Longrightarrow> reads doc s" for i m d res
    using that stack_reads_head by meson
  show ?case
  proof (cases doc)
    case DNil
    then show ?thesis
      using 2(1) by (intro blank[of "[]" _ "[]"]) (auto simp: print_steps intro: reads.intros)
  next
    case (DText s)
    then show ?thesis
      using 2(2) by (intro blank[of s _ s]) (auto simp: print_steps intro: reads.intros)
  next
    case DLine
    then show ?thesis
      using 2(3,4) by (cases mode; intro blank[of "[]" _ "if mode = Flat then [32] else new_line indent"])
        (auto simp: print_steps intro: reads.intros)
  next
    case DHardLine
    then show ?thesis
      using 2(5) by (intro blank[of "[]" _ "new_line indent"]) (auto simp: print_steps intro: reads.intros)
  next
    case DSoftLine
    then show ?thesis
      using 2(6,7) by (cases mode; intro blank[of "[]" _ "if mode = Flat then [] else new_line indent"])
        (auto simp: print_steps intro: reads.intros)
  next
    case (DIndent n d)
    then show ?thesis
      using inner[OF 2(8)[OF DIndent]] by (simp add: print_steps reads.intros)
  next
    case (DGroup d)
    then show ?thesis
      using inner[OF 2(9)[OF DGroup]] by (simp add: print_steps reads.intros)
  next
    case (DConcat l r)
    then show ?thesis
      using 2(10)[OF DConcat] stack_reads_concat by (simp add: print_steps) blast
  next
    case (DIfBreak b f)
    then show ?thesis
      using 2(11,12) by (cases mode; intro inner[of indent mode "if mode = Flat then f else b"])
        (auto simp: print_steps intro: reads.intros)
  qed
qed (auto simp: print_loop.simps intro: stack_reads.intros)

section \<open>Lines\<close>

lemma ink_trim_end [simp]: "ink (trim_end l) = ink l"
proof -
  have "ink (rev (dropWhile is_whitespace l)) = ink (rev l)" for l
    by (induction l) auto
  then show ?thesis
    using \<open>\<And>l. ink (rev (dropWhile is_whitespace l)) = ink (rev l)\<close>[of "rev l"] by (simp add: trim_end_def)
qed

lemma ink_join: "ink (join_lines ls) = concat (map ink ls)"
  by (induction ls rule: join_lines.induct) simp_all

lemma ink_strip_cr [simp]: "ink (strip_cr l) = ink l"
proof (cases "l \<noteq> [] \<and> last l = 13")
  case True
  then have "l = butlast l @ [13]"
    by (metis append_butlast_last_id)
  then have "ink l = ink (butlast l @ [13])"
    by simp
  then show ?thesis
    using True by (simp add: strip_cr_def)
qed (auto simp: strip_cr_def)

lemma ink_lines: "concat (map ink (str_lines s)) = ink s"
proof (induction s rule: str_lines.induct)
  case (1 s)
  show ?case
  proof (cases "dropWhile ((\<noteq>) newline) s")
    case Nil
    then show ?thesis
      unfolding str_lines.simps[of s] Nil by simp
  next
    case (Cons c rest)
    have "c = newline"
      using Cons hd_dropWhile[of "(\<noteq>) newline" s] by simp
    then have "ink s = ink (takeWhile ((\<noteq>) newline) s @ newline # rest)"
      using takeWhile_dropWhile_id[of "(\<noteq>) newline" s] Cons by simp
    moreover have "s \<noteq> []"
      using Cons by auto
    ultimately show ?thesis
      using "1.IH"[OF _ Cons] Cons unfolding str_lines.simps[of s] Cons by simp
  qed
qed

lemma ink_trim_lines: "ink (trim_lines s) = ink s"
  by (simp add: trim_lines_def ink_join ink_lines comp_def)

definition tidy :: "rstr \<Rightarrow> bool" where
  "tidy l \<longleftrightarrow> l = [] \<or> \<not> is_whitespace (last l)"

lemma split_newline_prefix: "newline \<notin> set l \<Longrightarrow> split_newline (l @ s) = (l @ hd (split_newline s)) # tl (split_newline s)"
  by (induction l) auto

lemma split_newline_line: "newline \<notin> set l \<Longrightarrow> split_newline (l @ newline # s) = l # split_newline s"
  by (simp add: split_newline_prefix)

lemma split_newline_single: "newline \<notin> set l \<Longrightarrow> split_newline l = [l]"
  using split_newline_prefix[of l "[]"] by simp

lemma split_newline_join:
  assumes "\<And>l. l \<in> set ls \<Longrightarrow> newline \<notin> set l" "ls \<noteq> []"
  shows "split_newline (join_lines ls) = ls" "split_newline (join_lines ls @ [newline]) = ls @ [[]]"
  using assms by (induction ls rule: join_lines.induct) (simp_all add: split_newline_line split_newline_single)

lemma str_lines_no_newline: "l \<in> set (str_lines s) \<Longrightarrow> newline \<notin> set l"
proof (induction s rule: str_lines.induct)
  case (1 s)
  show ?case
  proof (cases "dropWhile ((\<noteq>) newline) s")
    case Nil
    then have "newline \<notin> set s"
      by auto
    then show ?thesis
      using "1.prems" unfolding str_lines.simps[of s] Nil by (simp split: if_splits)
  next
    case (Cons c rest)
    have "newline \<notin> set (strip_cr (takeWhile ((\<noteq>) newline) s))"
      by (auto simp: strip_cr_def dest: set_takeWhileD in_set_butlastD)
    then show ?thesis
      using "1.IH"[OF _ Cons] "1.prems" Cons unfolding str_lines.simps[of s] Cons by (auto split: if_splits)
  qed
qed

lemma trim_end_tidy: "tidy (trim_end l)"
  using hd_dropWhile[of is_whitespace "rev l"] by (auto simp: tidy_def trim_end_def last_rev)

lemma trim_end_subset: "set (trim_end l) \<subseteq> set l"
  by (auto simp: trim_end_def dest: set_dropWhileD)

lemma trim_lines_tidy: "l \<in> set (split_newline (trim_lines s)) \<Longrightarrow> tidy l"
proof -
  assume l: "l \<in> set (split_newline (trim_lines s))"
  let ?ls = "map trim_end (str_lines s)"
  have nl: "\<And>l. l \<in> set ?ls \<Longrightarrow> newline \<notin> set l"
    using str_lines_no_newline trim_end_subset by fastforce
  show ?thesis
  proof (cases "?ls = []")
    case True
    then show ?thesis
      using l by (auto simp: trim_lines_def tidy_def split: if_splits)
  next
    case False
    then show ?thesis
      using l split_newline_join[OF nl False] trim_end_tidy by (auto simp: trim_lines_def tidy_def split: if_splits)
  qed
qed

section \<open>Properties\<close>



text \<open>
  C27. In every width the printed text has exactly the visible characters of the document's texts, in
  order, with one of the two alternatives at each place that depends on line breaks; and no line of it
  ends with white space.
\<close>

theorem print_keeps_text:
  "(\<exists>t. reads doc t \<and> ink (print_doc doc width) = ink t) \<and> list_all tidy (split_newline (print_doc doc width))"
proof -
  obtain t where "stack_reads [(0, Break, doc)] t" "ink (print_loop width [(0, Break, doc)] [] 0) = ink t"
    using print_loop_reads[of "[(0, Break, doc)]" width "[]" 0] by auto
  then show ?thesis
    by (auto simp: print_doc_def ink_trim_lines list_all_iff trim_lines_tidy elim!: stack_reads_ConsE stack_reads.cases)
qed

end
