(* ===== verification/Text_Edit.thy ===== *)
theory Text_Edit
  imports Seq
begin

text \<open>
  Source positions of the tools: applying the edits of a refactoring (\<open>refactor/src/lib.rs\<close>) and the
  positions of the language server protocol (\<open>lsp/src/position.rs\<close>), which count lines and UTF-16 code
  units.  Texts are lists of Unicode scalar values with byte offsets; an operation off a character
  boundary panics, which is \<^const>\<open>None\<close>.
\<close>

section \<open>Edits\<close>

record TextEdit =
  ed_file_id :: nat
  ed_start :: nat
  ed_end :: nat
  ed_new_text :: rstr

text \<open>\<open>String::replace_range\<close>\<close>

definition replace_range :: "rstr \<Rightarrow> nat \<Rightarrow> nat \<Rightarrow> rstr \<Rightarrow> rstr option" where
  "replace_range s i j t =
     (if i \<le> j then
        (case (slice_to s i, slice_from s j) of (Some a, Some b) \<Rightarrow> Some (a @ t @ b) | _ \<Rightarrow> None)
      else None)"

fun apply_sorted :: "TextEdit list \<Rightarrow> rstr \<Rightarrow> rstr option" where
  "apply_sorted [] s = Some s"
| "apply_sorted (e # es) s = Option.bind (replace_range s (ed_start e) (ed_end e) (ed_new_text e)) (apply_sorted es)"

text \<open>\<open>sort_by\<close> with the starts compared in descending order, which is stable.\<close>

fun insert_edit :: "TextEdit \<Rightarrow> TextEdit list \<Rightarrow> TextEdit list" where
  "insert_edit e [] = [e]"
| "insert_edit e (d # ds) = (if ed_start d \<le> ed_start e then e # d # ds else d # insert_edit e ds)"

definition sort_edits :: "TextEdit list \<Rightarrow> TextEdit list" where
  "sort_edits edits = foldr insert_edit edits []"

definition apply_edits :: "rstr \<Rightarrow> TextEdit list \<Rightarrow> rstr option" where
  "apply_edits source edits = apply_sorted (sort_edits edits) source"

section \<open>Positions\<close>

record Position =
  pos_line :: "32 word"
  pos_character :: "32 word"

definition len_utf16 :: "32 word \<Rightarrow> nat" where
  "len_utf16 c = (if c < 0x10000 then 1 else 2)"

text \<open>The loop over the characters of a line, up to the given number of code units.\<close>

fun bytes_to :: "rstr \<Rightarrow> nat \<Rightarrow> nat \<Rightarrow> nat \<Rightarrow> nat" where
  "bytes_to [] target units byte_offset = byte_offset"
| "bytes_to (ch # s) target units byte_offset =
     (if target \<le> units then byte_offset else bytes_to s target (units + len_utf16 ch) (byte_offset + len_utf8 ch))"

fun find_line :: "rstr list \<Rightarrow> nat \<Rightarrow> nat \<Rightarrow> Position \<Rightarrow> nat option" where
  "find_line [] i offset p = None"
| "find_line (line # ls) i offset p =
     (if i = unat (pos_line p) then Some (offset + bytes_to line (unat (pos_character p)) 0 0)
      else find_line ls (i + 1) (offset + str_len line + 1) p)"

definition lsp_position_to_offset :: "Position \<Rightarrow> rstr \<Rightarrow> 32 word" where
  "lsp_position_to_offset p text =
     of_nat (case find_line (split_newline text) 0 0 p of Some offset \<Rightarrow> offset | None \<Rightarrow> str_len text)"

fun position_loop :: "rstr \<Rightarrow> nat \<Rightarrow> nat \<Rightarrow> 32 word \<Rightarrow> 32 word \<Rightarrow> Position" where
  "position_loop [] i offset line col = \<lparr>pos_line = line, pos_character = col\<rparr>"
| "position_loop (ch # s) i offset line col =
     (if offset \<le> i then \<lparr>pos_line = line, pos_character = col\<rparr>
      else if ch = newline then position_loop s (i + len_utf8 ch) offset (line + 1) 0
      else position_loop s (i + len_utf8 ch) offset line (col + of_nat (len_utf16 ch)))"

definition offset_to_lsp_position :: "32 word \<Rightarrow> rstr \<Rightarrow> Position" where
  "offset_to_lsp_position offset text = position_loop text 0 (min (unat offset) (str_len text)) 0 0"

definition text_range_to_lsp_range :: "32 word \<Rightarrow> 32 word \<Rightarrow> rstr \<Rightarrow> Position \<times> Position" where
  "text_range_to_lsp_range range_start range_end text =
     (offset_to_lsp_position range_start text, offset_to_lsp_position range_end text)"

end
