(* ===== verification/Edit_Properties.thy ===== *)
theory Edit_Properties
  imports Text_Edit Seq_Source "HOL-Library.Multiset"
begin

text \<open>Edits replace exactly the given ranges; protocol positions name the offsets they come from.\<close>

section \<open>Edits\<close>

lemma replace_range_middle: "replace_range (a @ r @ b) (str_len a) (str_len a + str_len r) t = Some (a @ t @ b)"
  using slice_from_append[of "a @ r" b] by (simp add: replace_range_def)

lemma insert_edit_mset [simp]: "mset (insert_edit e es) = add_mset e (mset es)"
  by (induction es) auto

lemma sort_edits_mset [simp]: "mset (sort_edits es) = mset es"
  by (induction es) (simp_all add: sort_edits_def)

lemma insert_edit_sorted:
  "sorted_wrt (\<lambda>d e. ed_start e \<le> ed_start d) es \<Longrightarrow> sorted_wrt (\<lambda>d e. ed_start e \<le> ed_start d) (insert_edit e es)"
proof (induction es)
  case (Cons d ds)
  have "set (insert_edit e ds) = insert e (set ds)"
    using insert_edit_mset[of e ds] by (metis set_mset_add_mset_insert set_mset_mset)
  then show ?case
    using Cons by auto
qed simp

lemma sort_edits_sorted: "sorted_wrt (\<lambda>d e. ed_start e \<le> ed_start d) (sort_edits es)"
  by (induction es) (simp_all add: sort_edits_def insert_edit_sorted)

lemma sorted_starts_unique:
  assumes "sorted_wrt (\<lambda>d e. ed_start e \<le> ed_start d) xs" "sorted_wrt (\<lambda>d e. ed_start e < ed_start d) ys" "mset xs = mset ys"
  shows "xs = ys"
  using assms
proof (induction xs arbitrary: ys)
  case (Cons x xs)
  obtain y ys' where ys: "ys = y # ys'"
    using Cons.prems(3) by (cases ys) auto
  have "x \<in> set ys" "y \<in> set (x # xs)"
    using Cons.prems(3) ys by (metis list.set_intros(1) mset_eq_setD)+
  then have "x = y"
    using Cons.prems(1,2) ys by fastforce
  then show ?case
    using Cons ys by auto
qed simp

text \<open>A source cut into untouched pieces and ranges with their replacements.\<close>

type_synonym cut = "(rstr \<times> rstr \<times> rstr) list"

fun before_edits :: "cut \<Rightarrow> rstr \<Rightarrow> rstr" where
  "before_edits [] rest = rest"
| "before_edits ((piece, old, _) # cs) rest = piece @ old @ before_edits cs rest"

fun after_edits :: "cut \<Rightarrow> rstr \<Rightarrow> rstr" where
  "after_edits [] rest = rest"
| "after_edits ((piece, _, new) # cs) rest = piece @ new @ after_edits cs rest"

fun edits_of :: "nat \<Rightarrow> nat \<Rightarrow> cut \<Rightarrow> TextEdit list" where
  "edits_of fid i [] = []"
| "edits_of fid i ((piece, old, new) # cs) =
     \<lparr>ed_file_id = fid, ed_start = i + str_len piece, ed_end = i + str_len piece + str_len old, ed_new_text = new\<rparr> #
     edits_of fid (i + str_len piece + str_len old) cs"

text \<open>No two edits start at the same place.\<close>

fun starts_apart :: "cut \<Rightarrow> bool" where
  "starts_apart ((_, old, _) # (piece, old', new') # cs) \<longleftrightarrow> (old \<noteq> [] \<or> piece \<noteq> []) \<and> starts_apart ((piece, old', new') # cs)"
| "starts_apart _ \<longleftrightarrow> True"

lemma edits_of_ge: "e \<in> set (edits_of fid i cs) \<Longrightarrow> i \<le> ed_start e"
  by (induction fid i cs rule: edits_of.induct) fastforce+

lemma edits_of_sorted: "starts_apart cs \<Longrightarrow> sorted_wrt (\<lambda>e d. ed_start e < ed_start d) (edits_of fid i cs)"
proof (induction cs arbitrary: i rule: starts_apart.induct)
  case (1 p old n piece old' new' cs)
  have "0 < str_len old + str_len piece"
    using "1.prems" by (auto simp flip: str_len_0)
  then have "i + str_len p < ed_start e" if "e \<in> set (edits_of fid (i + str_len p + str_len old) ((piece, old', new') # cs))" for e
    using that edits_of_ge[of e fid "i + str_len p + str_len old + str_len piece + str_len old'" cs] by auto
  then show ?case
    using "1.IH"[of "i + str_len p + str_len old"] "1.prems" by simp
qed auto

lemma apply_sorted_append: "apply_sorted (xs @ ys) s = Option.bind (apply_sorted xs s) (apply_sorted ys)"
proof (induction xs arbitrary: s)
  case (Cons e es)
  then show ?case
    by (cases "replace_range s (ed_start e) (ed_end e) (ed_new_text e)") simp_all
qed simp

lemma apply_cut: "apply_sorted (rev (edits_of fid (str_len p) cs)) (p @ before_edits cs rest) = Some (p @ after_edits cs rest)"
proof (induction cs arbitrary: p)
  case (Cons c cs)
  obtain piece old new where c: "c = (piece, old, new)"
    by (cases c)
  have "apply_sorted (rev (edits_of fid (str_len (p @ piece @ old)) cs)) ((p @ piece @ old) @ before_edits cs rest) =
      Some ((p @ piece @ old) @ after_edits cs rest)"
    by (rule Cons)
  then show ?case
    using replace_range_middle[of "p @ piece" old "after_edits cs rest" new] c by (simp add: apply_sorted_append add.assoc)
qed simp

lemma apply_edits_cut:
  assumes "starts_apart cs" "mset edits = mset (edits_of fid 0 cs)"
  shows "apply_edits (before_edits cs rest) edits = Some (after_edits cs rest)"
proof -
  have "sorted_wrt (\<lambda>d e. ed_start e < ed_start d) (rev (edits_of fid 0 cs))"
    using edits_of_sorted[OF assms(1)] by (simp add: sorted_wrt_rev)
  then have "sort_edits edits = rev (edits_of fid 0 cs)"
    using sorted_starts_unique[OF sort_edits_sorted] assms(2) by simp
  then show ?thesis
    using apply_cut[of fid "[]" cs rest] by (simp add: apply_edits_def)
qed

section \<open>Positions\<close>

lemma len_utf16_pos: "0 < len_utf16 c"
  by (simp add: len_utf16_def)

lemma len_utf16_le: "len_utf16 c \<le> len_utf8 c"
  by (simp add: len_utf16_def len_utf8_def not_less word_le_nat_alt word_less_nat_alt)

definition str_len16 :: "rstr \<Rightarrow> nat" where
  "str_len16 s = sum_list (map len_utf16 s)"

lemma str_len16_simps [simp]: "str_len16 [] = 0" "str_len16 (c # s) = len_utf16 c + str_len16 s" "str_len16 (s @ t) = str_len16 s + str_len16 t"
  by (simp_all add: str_len16_def)

lemma str_len16_le: "str_len16 s \<le> str_len s"
  by (induction s) (simp_all add: add_mono len_utf16_le)

text \<open>The line of a position and its column, in code units.\<close>

definition line_of :: "rstr \<Rightarrow> nat" where
  "line_of p = length (filter ((=) newline) p)"

definition last_line :: "rstr \<Rightarrow> rstr" where
  "last_line p = last (split_newline p)"

lemma split_newline_append:
  "split_newline (p @ r) = butlast (split_newline p) @ (last (split_newline p) @ hd (split_newline r)) # tl (split_newline r)"
proof (induction p)
  case (Cons c p)
  then show ?case
    by (cases "split_newline p") (auto simp: neq_Nil_conv)
qed simp

lemma line_of_le: "line_of p \<le> str_len p"
  by (induction p) (auto simp: line_of_def len_utf8_def)

lemma length_split_newline: "length (split_newline p) = Suc (line_of p)"
  by (induction p) (auto simp: line_of_def)

lemma str_len_last_line: "str_len (last_line p) \<le> str_len p"
proof (induction p)
  case (Cons c p)
  then show ?case
    by (cases "split_newline p") (auto simp: last_line_def)
qed (simp add: last_line_def)

lemma last_line_snoc: "last_line (p @ [c]) = (if c = newline then [] else last_line p @ [c])"
  by (simp add: last_line_def split_newline_append)

lemma line_of_snoc: "line_of (p @ [c]) = (if c = newline then Suc (line_of p) else line_of p)"
  by (simp add: line_of_def)

lemma position_loop_stops: "offset \<le> i \<Longrightarrow> position_loop s i offset line col = \<lparr>pos_line = line, pos_character = col\<rparr>"
  by (cases s) simp_all

lemma position_loop_at:
  "position_loop r (str_len p) (str_len (p @ q)) (of_nat (line_of p)) (of_nat (str_len16 (last_line p))) =
    \<lparr>pos_line = of_nat (line_of (p @ q)), pos_character = of_nat (str_len16 (last_line (p @ q)))\<rparr>" if "r = q @ rest"
  using that
proof (induction q arbitrary: p r)
  case Nil
  then show ?case
    by (simp add: position_loop_stops)
next
  case (Cons c q)
  then show ?case
    using Cons.IH[of "q @ rest" "p @ [c]"] len_utf8_pos[of c]
    by (cases "c = newline") (simp_all add: last_line_snoc line_of_snoc algebra_simps)
qed

lemma bytes_to_stops: "target \<le> units \<Longrightarrow> bytes_to s target units b = b"
  by (cases s) simp_all

lemma bytes_to_prefix: "bytes_to (l @ s) (u + str_len16 l) u b = b + str_len l"
proof (induction l arbitrary: u b)
  case (Cons c l)
  then show ?case
    using Cons.IH[of "u + len_utf16 c" "b + len_utf8 c"] len_utf16_pos[of c] by (simp add: add.assoc)
qed (simp add: bytes_to_stops)

lemma find_line_at:
  "find_line (ls @ line # rest) i offset p = Some (offset + sum_list (map (\<lambda>l. str_len l + 1) ls) + bytes_to line (unat (pos_character p)) 0 0)"
  if "unat (pos_line p) = i + length ls"
  using that by (induction ls arbitrary: i offset) simp_all

lemma len_newline [simp]: "len_utf8 newline = 1"
  by (simp add: len_utf8_def newline_def)

lemma str_len_lines: "str_len p = sum_list (map (\<lambda>l. str_len l + 1) (butlast (split_newline p))) + str_len (last_line p)"
proof (induction p)
  case (Cons c p)
  then show ?case
    by (cases "split_newline p") (auto simp: last_line_def)
qed (simp add: last_line_def)

lemma find_line_position:
  assumes "str_len (p @ r) < 2 ^ 32" "pos = \<lparr>pos_line = of_nat (line_of p), pos_character = of_nat (str_len16 (last_line p))\<rparr>"
  shows "find_line (split_newline (p @ r)) 0 0 pos = Some (str_len p)"
proof -
  have "line_of p < 2 ^ 32" "str_len16 (last_line p) < 2 ^ 32"
    using assms(1) line_of_le[of p] str_len16_le[of "last_line p"] str_len_last_line[of p] by simp_all
  then have pos: "unat (pos_line pos) = 0 + length (butlast (split_newline p))" "unat (pos_character pos) = str_len16 (last_line p)"
    using assms(2) by (simp_all add: unsigned_of_nat take_bit_nat_eq_self length_split_newline)
  show ?thesis
    unfolding split_newline_append find_line_at[OF pos(1)] pos(2)
    using bytes_to_prefix[of "last_line p" "hd (split_newline r)" 0 0] str_len_lines[of p] by (simp add: last_line_def)
qed

text \<open>Every position, also one outside the text, gives a character boundary of the text.\<close>

lemma bytes_to_boundary: "\<exists>p r. s = p @ r \<and> bytes_to s target u b = b + str_len p"
proof (induction s arbitrary: u b)
  case (Cons c s)
  show ?case
  proof (cases "target \<le> u")
    case True
    then show ?thesis
      by (intro exI[of _ "[]"] exI[of _ "c # s"]) simp
  next
    case False
    obtain p r where "s = p @ r" "bytes_to s target (u + len_utf16 c) (b + len_utf8 c) = b + len_utf8 c + str_len p"
      using Cons by blast
    then show ?thesis
      using False by (intro exI[of _ "c # p"] exI[of _ r]) simp
  qed
qed simp

lemma split_newline_cases:
  "split_newline s = l # ls \<Longrightarrow> s = l \<and> ls = [] \<or> (\<exists>s'. s = l @ newline # s' \<and> ls = split_newline s')"
proof (induction s arbitrary: l ls)
  case (Cons c s)
  obtain l' ls' where l': "split_newline s = l' # ls'"
    by (cases "split_newline s") auto
  show ?case
  proof (cases "c = newline")
    case False
    then show ?thesis
      using Cons.IH[OF l'] Cons.prems l' by auto
  qed (use Cons.prems in auto)
qed simp

lemma find_line_boundary:
  "find_line (split_newline s) i offset pos = Some k \<Longrightarrow> \<exists>p r. s = p @ r \<and> k = offset + str_len p"
proof (induction s arbitrary: i offset k rule: measure_induct_rule[of length])
  case (less s)
  obtain l ls where l: "split_newline s = l # ls"
    by (cases "split_newline s") auto
  consider "s = l" "ls = []" | s' where "s = l @ newline # s'" "ls = split_newline s'"
    using split_newline_cases[OF l] by blast
  then show ?case
  proof cases
    case 1
    obtain p r where "l = p @ r" "bytes_to l (unat (pos_character pos)) 0 0 = str_len p"
      using bytes_to_boundary[of l "unat (pos_character pos)" 0 0] by auto
    then show ?thesis
      using 1 less.prems l by (auto split: if_splits)
  next
    case 2
    obtain p r where p: "l = p @ r" "bytes_to l (unat (pos_character pos)) 0 0 = str_len p"
      using bytes_to_boundary[of l "unat (pos_character pos)" 0 0] by auto
    show ?thesis
    proof (cases "i = unat (pos_line pos)")
      case True
      then show ?thesis
        using less.prems l 2 p by auto
    next
      case False
      then have found: "find_line (split_newline s') (i + 1) (offset + str_len l + 1) pos = Some k"
        using less.prems l 2 by simp
      have "length s' < length s"
        using 2 by simp
      then obtain p r where "s' = p @ r" "k = offset + str_len l + 1 + str_len p"
        using less.IH[OF _ found] by blast
      then show ?thesis
        using 2 by (intro exI[of _ "l @ newline # p"] exI[of _ r]) simp
    qed
  qed
qed

section \<open>Properties\<close>

text \<open>
  C28. Applying edits that start at different places and do not overlap, in whatever order they are
  given, replaces exactly their ranges: every other piece of the source stays as it is.
\<close>

theorem apply_edits_replaces_ranges:
  assumes "starts_apart cs" and "mset edits = mset (edits_of fid 0 cs)"
  shows "apply_edits (before_edits cs rest) edits = Some (after_edits cs rest)"
  using assms by (rule apply_edits_cut)

theorem apply_edits_replaces_ranges_witness:
  "apply_edits [102, 40, 102, 41] [\<lparr>ed_file_id = 0, ed_start = 2, ed_end = 3, ed_new_text = [103, 104]\<rparr>, \<lparr>ed_file_id = 0, ed_start = 0, ed_end = 1, ed_new_text = [103, 104]\<rparr>] =
    Some [103, 104, 40, 103, 104, 41]"
  using apply_edits_replaces_ranges[where fid = 0 and rest = "[41]" and cs = "[([], [102], [103, 104]), ([40], [102], [103, 104])]"
      and edits = "[\<lparr>ed_file_id = 0, ed_start = 2, ed_end = 3, ed_new_text = [103, 104]\<rparr>, \<lparr>ed_file_id = 0, ed_start = 0, ed_end = 1, ed_new_text = [103, 104]\<rparr>]"]
  by (simp add: len_utf8_def)

text \<open>
  C29. In a source below 4 GiB the protocol position of a character boundary leads back to its offset,
  and every position, also one behind the end of its line or of the source, leads to a character
  boundary.
\<close>

theorem lsp_positions_roundtrip:
  assumes "str_len (p @ r) < 2 ^ 32"
  shows "lsp_position_to_offset (offset_to_lsp_position (of_nat (str_len p)) (p @ r)) (p @ r) = of_nat (str_len p) \<and>
    (\<exists>q q'. p @ r = q @ q' \<and> lsp_position_to_offset pos (p @ r) = of_nat (str_len q))"
proof
  have "unat (of_nat (str_len p) :: 32 word) = str_len p"
    using assms by (simp add: unsigned_of_nat take_bit_nat_eq_self)
  then have "offset_to_lsp_position (of_nat (str_len p)) (p @ r) =
      \<lparr>pos_line = of_nat (line_of p), pos_character = of_nat (str_len16 (last_line p))\<rparr>"
    using position_loop_at[of "p @ r" p r "[]"] by (simp add: offset_to_lsp_position_def line_of_def last_line_def)
  then show "lsp_position_to_offset (offset_to_lsp_position (of_nat (str_len p)) (p @ r)) (p @ r) = of_nat (str_len p)"
    using find_line_position[OF assms] by (simp add: lsp_position_to_offset_def)
  show "\<exists>q q'. p @ r = q @ q' \<and> lsp_position_to_offset pos (p @ r) = of_nat (str_len q)"
  proof (cases "find_line (split_newline (p @ r)) 0 0 pos")
    case None
    then show ?thesis
      by (intro exI[of _ "p @ r"] exI[of _ "[]"]) (simp add: lsp_position_to_offset_def)
  next
    case (Some k)
    then show ?thesis
      using find_line_boundary[OF Some] by (auto simp: lsp_position_to_offset_def)
  qed
qed

theorem lsp_positions_roundtrip_witness:
  "lsp_position_to_offset (offset_to_lsp_position 6 [97, newline, 0x1F600, 98]) [97, newline, 0x1F600, 98] = 6"
  using lsp_positions_roundtrip[of "[97, newline, 0x1F600]" "[98]"] by (simp add: len_utf8_def newline_def)

end
